(* ===== verification/Prelude.thy ===== *)
theory Prelude
  imports Main "HOL-Library.AList" "HOL-Library.Sublist" "HOL-Library.List_Lexorder" "HOL-Library.Char_ord"
begin

text \<open>
  Shared vocabulary of the development: results that may be an error, JSON-shaped
  Python values, insertion-ordered dictionaries, the Python string operations the
  sources use, and tables of rows addressed by an id.

  Strings are lists of characters read as code points below 256; case conversion and
  the character classes are those of ASCII, which is what the grammars modelled here
  accept. Dictionaries are association lists in insertion order, updated in place by
  \<open>AList.update\<close>, as a Python dict keeps the position of an existing key.
\<close>

named_theorems pysimps \<open>equations that evaluate the Python-level helpers\<close>

section \<open>Results\<close>

definition bindR :: "'e + 'a \<Rightarrow> ('a \<Rightarrow> 'e + 'b) \<Rightarrow> 'e + 'b" where
  "bindR x f = (case x of Inl e \<Rightarrow> Inl e | Inr v \<Rightarrow> f v)"

lemma bindR_simps [simp, pysimps]:
  "bindR (Inl e) f = Inl e"
  "bindR (Inr v) f = f v"
  by (simp_all add: bindR_def)

lemma bindR_Inr_iff: "bindR x f = Inr v \<longleftrightarrow> (\<exists>u. x = Inr u \<and> f u = Inr v)"
  by (cases x) auto

lemma bindR_Inl_iff: "bindR x f = Inl e \<longleftrightarrow> x = Inl e \<or> (\<exists>u. x = Inr u \<and> f u = Inl e)"
  by (cases x) auto

lemma bindR_InrE [elim?]:
  assumes "bindR x f = Inr v"
  obtains u where "x = Inr u" and "f u = Inr v"
  using assms by (auto simp: bindR_Inr_iff)

lemma bindR_cong [fundef_cong]:
  "x = y \<Longrightarrow> (\<And>v. y = Inr v \<Longrightarrow> f v = g v) \<Longrightarrow> bindR x f = bindR y g"
  by (cases y) auto

definition guardR :: "bool \<Rightarrow> 'e \<Rightarrow> ('e + 'a) \<Rightarrow> 'e + 'a" where
  \<comment> \<open>\<open>if b: raise e\<close>, then go on\<close>
  "guardR b e k = (if b then Inl e else k)"

lemma guardR_simps [simp, pysimps]:
  "guardR True e k = Inl e"
  "guardR False e k = k"
  by (simp_all add: guardR_def)

lemma guardR_Inr_iff: "guardR b e k = Inr v \<longleftrightarrow> \<not> b \<and> k = Inr v"
  by (simp add: guardR_def)

subsection \<open>What a successful result satisfies\<close>

named_theorems ensures_intros \<open>rules that take a computation apart down to its successful results\<close>

definition ensures :: "('a \<Rightarrow> bool) \<Rightarrow> 'e + 'a \<Rightarrow> bool" where
  "ensures Q x \<longleftrightarrow> (\<forall>v. x = Inr v \<longrightarrow> Q v)"

lemma ensuresD: "ensures Q x \<Longrightarrow> x = Inr v \<Longrightarrow> Q v"
  by (simp add: ensures_def)

lemma ensures_bind [ensures_intros]: "(\<And>u. x = Inr u \<Longrightarrow> ensures Q (f u)) \<Longrightarrow> ensures Q (bindR x f)"
  by (auto simp: ensures_def bindR_Inr_iff)

lemma ensures_guard [ensures_intros]: "(\<not> b \<Longrightarrow> ensures Q k) \<Longrightarrow> ensures Q (guardR b e k)"
  by (auto simp: ensures_def guardR_Inr_iff)

lemma ensures_Inl [ensures_intros]: "ensures Q (Inl e)"
  by (simp add: ensures_def)

lemma ensures_Inr [ensures_intros]: "Q v \<Longrightarrow> ensures Q (Inr v)"
  by (simp add: ensures_def)

lemma ensures_if [ensures_intros]: "(b \<Longrightarrow> ensures Q x) \<Longrightarrow> (\<not> b \<Longrightarrow> ensures Q y) \<Longrightarrow> ensures Q (if b then x else y)"
  by simp

lemma ensures_option [ensures_intros]:
  "(v = None \<Longrightarrow> ensures Q x) \<Longrightarrow> (\<And>a. v = Some a \<Longrightarrow> ensures Q (f a)) \<Longrightarrow> ensures Q (case v of None \<Rightarrow> x | Some a \<Rightarrow> f a)"
  by (cases v) auto

lemma ensures_sum [ensures_intros]:
  "(\<And>a. v = Inl a \<Longrightarrow> ensures Q (f a)) \<Longrightarrow> (\<And>a. v = Inr a \<Longrightarrow> ensures Q (g a)) \<Longrightarrow>
     ensures Q (case v of Inl a \<Rightarrow> f a | Inr a \<Rightarrow> g a)"
  by (cases v) auto

lemma ensures_prod [ensures_intros]: "(\<And>a b. v = (a, b) \<Longrightarrow> ensures Q (f a b)) \<Longrightarrow> ensures Q (case v of (a, b) \<Rightarrow> f a b)"
  by (cases v) auto

section \<open>Python values in JSON shape\<close>

text \<open>A float is kept as its \<open>repr\<close> text: no modelled operation computes with one.\<close>

datatype json =
    JNull
  | JBool bool
  | JInt int
  | JFloat string
  | JStr string
  | JList "json list"
  | JDict "(string \<times> json) list"

type_synonym dict = "(string \<times> json) list"

fun truthy :: "json \<Rightarrow> bool" where
  "truthy JNull = False"
| "truthy (JBool b) = b"
| "truthy (JInt n) = (n \<noteq> 0)"
| "truthy (JFloat s) = (s \<noteq> ''0.0'' \<and> s \<noteq> ''-0.0'')"
| "truthy (JStr s) = (s \<noteq> [])"
| "truthy (JList xs) = (xs \<noteq> [])"
| "truthy (JDict d) = (d \<noteq> [])"

definition dget :: "string \<Rightarrow> dict \<Rightarrow> json" where
  \<comment> \<open>\<open>d.get(k)\<close>\<close>
  "dget k d = (case map_of d k of None \<Rightarrow> JNull | Some v \<Rightarrow> v)"

fun jget :: "string \<Rightarrow> json \<Rightarrow> json" where
  \<comment> \<open>\<open>x.get(k)\<close> on a dict; on anything else there is no such key\<close>
  "jget k (JDict d) = dget k d"
| "jget k v = JNull"

fun as_list :: "json \<Rightarrow> json list" where
  \<comment> \<open>\<open>x or []\<close> where x is a list or absent\<close>
  "as_list (JList xs) = xs"
| "as_list v = []"

fun as_dict :: "json \<Rightarrow> dict" where
  \<comment> \<open>\<open>x or {}\<close> where x is a dict or absent\<close>
  "as_dict (JDict d) = d"
| "as_dict v = []"

fun as_str :: "json \<Rightarrow> string" where
  \<comment> \<open>\<open>x or ""\<close> where x is a string or absent\<close>
  "as_str (JStr s) = s"
| "as_str v = []"

fun is_dict :: "json \<Rightarrow> bool" where
  "is_dict (JDict d) = True"
| "is_dict v = False"

fun is_list :: "json \<Rightarrow> bool" where
  "is_list (JList d) = True"
| "is_list v = False"

fun is_str :: "json \<Rightarrow> bool" where
  "is_str (JStr s) = True"
| "is_str v = False"

definition dput :: "string \<Rightarrow> json \<Rightarrow> dict \<Rightarrow> dict" where
  "dput k v d = AList.update k v d"

definition dict_update :: "('k \<times> 'v) list \<Rightarrow> ('k \<times> 'v) list \<Rightarrow> ('k \<times> 'v) list" where
  \<comment> \<open>\<open>d.update(e)\<close>, and \<open>d | e\<close>\<close>
  "dict_update d e = fold (\<lambda>(k, v). AList.update k v) e d"

lemma map_of_dict_update: "map_of (dict_update d e) = map_of d ++ map_of (rev e)"
proof (induction e arbitrary: d)
  case Nil
  then show ?case by (simp add: dict_update_def)
next
  case (Cons p e)
  obtain k v where p: "p = (k, v)" by (cases p)
  have "map_of (dict_update d (p # e)) = map_of (dict_update (AList.update k v d) e)"
    by (simp add: dict_update_def p)
  also have "\<dots> = (map_of d)(k \<mapsto> v) ++ map_of (rev e)"
    by (simp only: Cons.IH update_conv')
  also have "\<dots> = map_of d ++ map_of (rev (p # e))"
    by (simp add: p map_add_upd_left fun_eq_iff map_add_def split: option.splits)
  finally show ?case .
qed

lemma dict_update_Nil [simp, pysimps]: "dict_update d [] = d"
  by (simp add: dict_update_def)

lemma dget_dput [pysimps]: "dget k (dput k' v d) = (if k = k' then v else dget k d)"
  by (simp add: dget_def dput_def update_conv')

section \<open>Strings\<close>

definition is_digit :: "char \<Rightarrow> bool" where
  "is_digit c \<longleftrightarrow> c \<in> set ''0123456789''"

definition is_lower :: "char \<Rightarrow> bool" where
  "is_lower c \<longleftrightarrow> c \<in> set ''abcdefghijklmnopqrstuvwxyz''"

definition is_upper :: "char \<Rightarrow> bool" where
  "is_upper c \<longleftrightarrow> c \<in> set ''ABCDEFGHIJKLMNOPQRSTUVWXYZ''"

definition is_alnum :: "char \<Rightarrow> bool" where
  "is_alnum c \<longleftrightarrow> is_digit c \<or> is_lower c \<or> is_upper c"

definition is_space :: "char \<Rightarrow> bool" where
  \<comment> \<open>what \<open>str.strip()\<close> removes, below code point 128\<close>
  "is_space c \<longleftrightarrow> c \<in> set [CHR '' '', CHR 0x09, CHR 0x0A, CHR 0x0B, CHR 0x0C, CHR 0x0D,
     CHR 0x1C, CHR 0x1D, CHR 0x1E, CHR 0x1F]"

definition is_blank :: "char \<Rightarrow> bool" where
  \<comment> \<open>the class \<open>[ \t]\<close>\<close>
  "is_blank c \<longleftrightarrow> c = CHR '' '' \<or> c = CHR 0x09"

definition to_lower :: "char \<Rightarrow> char" where
  "to_lower c = (if is_upper c then char_of (of_char c + 32 :: nat) else c)"

definition to_upper :: "char \<Rightarrow> char" where
  "to_upper c = (if is_lower c then char_of (of_char c - 32 :: nat) else c)"

definition str_lower :: "string \<Rightarrow> string" where
  "str_lower s = map to_lower s"

definition str_upper :: "string \<Rightarrow> string" where
  "str_upper s = map to_upper s"

definition str_strip :: "string \<Rightarrow> string" where
  "str_strip s = rev (dropWhile is_space (rev (dropWhile is_space s)))"

definition contains :: "string \<Rightarrow> string \<Rightarrow> bool" where
  \<comment> \<open>\<open>p in s\<close>\<close>
  "contains p s \<longleftrightarrow> (\<exists>t \<in> set (suffixes s). prefix p t)"

fun split_on :: "char \<Rightarrow> string \<Rightarrow> string list" where
  \<comment> \<open>\<open>s.split(d)\<close> for a one-character separator\<close>
  "split_on d [] = [[]]"
| "split_on d (c # cs) =
     (if c = d then [] # split_on d cs
      else (case split_on d cs of [] \<Rightarrow> [[c]] | w # ws \<Rightarrow> (c # w) # ws))"

fun join_with :: "string \<Rightarrow> string list \<Rightarrow> string" where
  "join_with sep [] = []"
| "join_with sep [w] = w"
| "join_with sep (w # v # ws) = w @ sep @ join_with sep (v # ws)"

lemma split_on_nonempty [simp]: "split_on d s \<noteq> []"
  by (induction s) (auto split: list.splits)

lemma split_on_no_sep: "d \<notin> set s \<Longrightarrow> split_on d s = [s]"
  by (induction s) auto

lemma split_on_append_sep:
  "d \<notin> set w \<Longrightarrow> split_on d (w @ d # s) = w # split_on d s"
  by (induction w) auto

lemma join_split: "join_with [d] (split_on d s) = s"
proof (induction s)
  case Nil
  then show ?case by simp
next
  case (Cons c cs)
  then show ?case
    by (cases "split_on d cs"; cases "tl (split_on d cs)") (auto simp: neq_Nil_conv)
qed

lemma split_join:
  "ws \<noteq> [] \<Longrightarrow> \<forall>w \<in> set ws. d \<notin> set w \<Longrightarrow> split_on d (join_with [d] ws) = ws"
  by (induction "[d]" ws rule: join_with.induct)
    (auto simp: split_on_no_sep split_on_append_sep)

subsection \<open>Decimal numbers\<close>

definition digit_char :: "nat \<Rightarrow> char" where
  "digit_char n = ''0123456789'' ! (n mod 10)"

fun digit_val :: "char \<Rightarrow> nat" where
  "digit_val c = (of_char c - 48)"

fun show_nat :: "nat \<Rightarrow> string" where
  "show_nat n = (if n < 10 then [digit_char n] else show_nat (n div 10) @ [digit_char n])"

declare show_nat.simps [simp del]

definition show_int :: "int \<Rightarrow> string" where
  "show_int i = (if i < 0 then CHR ''-'' # show_nat (nat (- i)) else show_nat (nat i))"

definition read_nat :: "string \<Rightarrow> nat" where
  "read_nat ds = foldl (\<lambda>a c. 10 * a + digit_val c) 0 ds"

lemma digit_char_cases:
  "n mod 10 = 0 \<or> n mod 10 = 1 \<or> n mod 10 = 2 \<or> n mod 10 = 3 \<or> n mod 10 = 4 \<or> n mod 10 = 5
   \<or> n mod 10 = 6 \<or> n mod 10 = 7 \<or> n mod 10 = 8 \<or> n mod 10 = (9::nat)"
  by presburger

lemma digit_val_char [simp]: "digit_val (digit_char n) = n mod 10"
  using digit_char_cases [of n] by (auto simp: digit_char_def)

lemma is_digit_digit_char [simp]: "is_digit (digit_char n)"
  using digit_char_cases [of n] by (auto simp: digit_char_def is_digit_def)

lemma show_nat_digits: "c \<in> set (show_nat n) \<Longrightarrow> is_digit c"
proof (induction n rule: show_nat.induct)
  case (1 n)
  then show ?case by (subst (asm) (2) show_nat.simps) (auto split: if_splits)
qed

lemma show_nat_nonempty [simp]: "show_nat n \<noteq> []"
  by (subst show_nat.simps) simp

lemma read_nat_snoc: "read_nat (ds @ [c]) = 10 * read_nat ds + digit_val c"
  by (simp add: read_nat_def)

lemma read_show_nat [simp]: "read_nat (show_nat n) = n"
proof (induction n rule: show_nat.induct)
  case (1 n)
  show ?case
  proof (cases "n < 10")
    case True
    then show ?thesis by (subst show_nat.simps) (simp add: read_nat_def del: digit_val.simps)
  next
    case False
    with 1 have "read_nat (show_nat (n div 10)) = n div 10" by simp
    with False show ?thesis
      by (subst show_nat.simps) (simp add: read_nat_snoc del: digit_val.simps)
  qed
qed

lemma length_show_nat_bound: "n < 10 ^ k \<Longrightarrow> 0 < k \<Longrightarrow> length (show_nat n) \<le> k"
proof (induction n arbitrary: k rule: show_nat.induct)
  case (1 n)
  show ?case
  proof (cases "n < 10")
    case True
    with 1 show ?thesis by (subst show_nat.simps) simp
  next
    case False
    have "k \<noteq> 1" using "1.prems" False by auto
    with "1.prems" obtain k' where k: "k = Suc k'" "k' \<noteq> 0"
      by (cases k) auto
    with 1 False have "n div 10 < 10 ^ k'" by auto
    with 1 False k have "length (show_nat (n div 10)) \<le> k'" by simp
    with False k show ?thesis by (subst show_nat.simps) simp
  qed
qed

section \<open>Lists\<close>

definition dedup :: "'a list \<Rightarrow> 'a list" where
  \<comment> \<open>\<open>list(dict.fromkeys(xs))\<close>: first occurrences, in order\<close>
  "dedup xs = rev (remdups (rev xs))"

lemma set_dedup [simp]: "set (dedup xs) = set xs"
  by (simp add: dedup_def)

lemma distinct_dedup [simp]: "distinct (dedup xs)"
  by (simp add: dedup_def)

lemma dedup_Nil_iff [simp]: "dedup xs = [] \<longleftrightarrow> xs = []"
  by (simp add: dedup_def)

section \<open>Tables of rows\<close>

text \<open>
  A table is the list of its rows in insertion order. \<open>find_by\<close> is the look-up by primary
  key, \<open>put_by\<close> the write of a row that is already there.
\<close>

definition find_by :: "('r \<Rightarrow> 'k) \<Rightarrow> 'k \<Rightarrow> 'r list \<Rightarrow> 'r option" where
  "find_by key k rs = find (\<lambda>r. key r = k) rs"

definition put_by :: "('r \<Rightarrow> 'k) \<Rightarrow> 'r \<Rightarrow> 'r list \<Rightarrow> 'r list" where
  "put_by key r rs = map (\<lambda>x. if key x = key r then r else x) rs"

lemma find_by_simps [simp]:
  "find_by key k [] = None"
  "find_by key k (r # rs) = (if key r = k then Some r else find_by key k rs)"
  by (simp_all add: find_by_def)

lemma find_by_SomeD: "find_by key k rs = Some r \<Longrightarrow> r \<in> set rs \<and> key r = k"
  by (induction rs) (auto split: if_splits)

lemma find_by_None: "find_by key k rs = None \<longleftrightarrow> k \<notin> key ` set rs"
  by (induction rs) auto

lemma find_by_unique: "distinct (map key rs) \<Longrightarrow> r \<in> set rs \<Longrightarrow> find_by key (key r) rs = Some r"
  by (induction rs) (auto simp: image_iff)

lemma find_by_put [simp]:
  "find_by key k (put_by key r rs) =
     (if k = key r then map_option (\<lambda>_. r) (find_by key k rs) else find_by key k rs)"
  by (induction rs) (auto simp: put_by_def)

lemma find_by_append: "find_by key k (rs @ rs') =
    (case find_by key k rs of None \<Rightarrow> find_by key k rs' | Some r \<Rightarrow> Some r)"
  by (induction rs) auto

lemma map_key_put [simp]: "map key (put_by key r rs) = map key rs"
  by (induction rs) (auto simp: put_by_def)

lemma put_by_absent: "key r \<notin> key ` set rs \<Longrightarrow> put_by key r rs = rs"
  by (induction rs) (auto simp: put_by_def)

lemma length_put_by [simp]: "length (put_by key r rs) = length rs"
  by (simp add: put_by_def)

lemma set_put_by: "set (put_by key r rs) = {x \<in> set rs. key x \<noteq> key r} \<union> (if key r \<in> key ` set rs then {r} else {})"
  by (induction rs) (auto simp: put_by_def)

lemma put_by_put [simp]: "key r = key r' \<Longrightarrow> put_by key r (put_by key r' rs) = put_by key r rs"
  by (simp add: put_by_def)

lemma filter_put_by:
  "distinct (map key rs) \<Longrightarrow> g \<in> set rs \<Longrightarrow> key r = key g \<Longrightarrow> \<not> P g \<Longrightarrow> \<not> P r \<Longrightarrow>
     filter P (put_by key r rs) = filter P rs"
proof (induction rs)
  case (Cons x rs)
  then show ?case
  proof (cases "x = g")
    case True
    with Cons.prems have "put_by key r rs = rs" by (auto simp: put_by_absent)
    with True Cons.prems show ?thesis by (simp add: put_by_def)
  next
    case False
    with Cons.prems have "key x \<noteq> key r" by auto
    with False Cons show ?thesis by (simp add: put_by_def)
  qed
qed simp

locale row_store =
  fixes key :: "'r \<Rightarrow> 'k" and get :: "'k \<Rightarrow> 'd \<Rightarrow> 'r option" and put :: "'r \<Rightarrow> 'd \<Rightarrow> 'd"
  assumes get_key: "get k d = Some r \<Longrightarrow> key r = k"
    and get_put: "get k (put r d) = (if k = key r then map_option (\<lambda>_. r) (get k d) else get k d)"
begin

lemma get_put_same: "get (key r) d = Some r' \<Longrightarrow> get (key r) (put r d) = Some r"
  by (simp add: get_put)

lemma get_put_other: "k \<noteq> key r \<Longrightarrow> get k (put r d) = get k d"
  by (simp add: get_put)

lemma get_put_present: "get k (put r d) = None \<longleftrightarrow> get k d = None"
  by (simp add: get_put)

lemma get_put_get: "get k d = Some r \<Longrightarrow> get k' (put r d) = get k' d"
  using get_key by (auto simp: get_put)

lemma get_put_twice: "key r = key r' \<Longrightarrow> get k (put r (put r' d)) = get k (put r d)"
  by (auto simp: get_put option.map_comp o_def)

end

end
