(* ===== verification/Playbook_Expr.thy ===== *)
theory Playbook_Expr
  imports Prelude
begin

text \<open>
  \<open>utils/playbook_expr.py\<close>: the declared integer arithmetic of playbooks.

  A tokenizer, a recursive-descent parser, an evaluator over bounded integers and the
  evaluation of a whole \<open>computed\<close> block, each as the module has it. An \<open>ExprError\<close>
  is its code: the module's contract is to branch on the code, never on the prose, so
  the detail text is left out. The only other exception the code could raise is the
  \<open>KeyError\<close> of \<open>env[name]\<close>; it is kept as a value so that its absence is a theorem.
\<close>

section \<open>Limits and names\<close>

datatype ecode =
    COMPUTE_SYNTAX | COMPUTE_LIMIT | COMPUTE_NAME | COMPUTE_SECRET
  | COMPUTE_TYPE | COMPUTE_OVERFLOW | COMPUTE_DIV_ZERO | COMPUTE_RANGE

datatype eexc = ExprError ecode | KeyError string

definition SECRET_HINTS :: "string list" where
  "SECRET_HINTS = [''password'', ''secret'', ''token'', ''key'', ''credential'']"

definition is_secret_name :: "string \<Rightarrow> bool" where
  "is_secret_name name = list_ex (\<lambda>hint. contains hint (str_lower name)) SECRET_HINTS"

definition NAMESPACES :: "string list" where
  "NAMESPACES = [''device'', ''cpe'', ''old_cpe'', ''path'', ''service_plan'', ''client'',
     ''service'', ''computed'']"

definition MAX_EXPR_LENGTH :: nat where "MAX_EXPR_LENGTH = 256"
definition MAX_TOKENS :: nat where "MAX_TOKENS = 64"
definition MAX_DEPTH :: nat where "MAX_DEPTH = 8"
definition INT_LIMIT :: int where "INT_LIMIT = 2 ^ 31 - 1"

definition is_word_char :: "char \<Rightarrow> bool" where
  \<comment> \<open>the class \<open>[a-z0-9_]\<close> of a segment\<close>
  "is_word_char c \<longleftrightarrow> c = CHR ''_'' \<or> is_lower c \<or> is_digit c"

fun is_segment :: "string \<Rightarrow> bool" where
  \<comment> \<open>\<open>[a-z][a-z0-9_]*\<close>\<close>
  "is_segment [] = False"
| "is_segment (c # cs) = (is_lower c \<and> list_all is_word_char cs)"

section \<open>Tokenizer\<close>

datatype etok = TOp char | TInt int | TName string

definition OPERATORS :: string where "OPERATORS = ''+-*/%()''"

definition is_operator :: "char \<Rightarrow> bool" where
  "is_operator c \<longleftrightarrow> c \<in> set OPERATORS"

definition is_name_char :: "char \<Rightarrow> bool" where
  "is_name_char c \<longleftrightarrow> c = CHR ''_'' \<or> c = CHR ''.'' \<or> is_lower c \<or> is_digit c"

definition check_name :: "string \<Rightarrow> ecode + etok" where
  \<comment> \<open>\<open>_NAME.fullmatch(word)\<close>, the namespace test and the computed-key test\<close>
  "check_name word =
     (case split_on (CHR ''.'') word of
        ns # segs \<Rightarrow>
          (if segs \<noteq> [] \<and> list_all is_segment (ns # segs) \<and> ns \<in> set NAMESPACES
           then (if ns = ''computed'' \<and> length segs \<noteq> 1 then Inl COMPUTE_NAME
                 else Inr (TName word))
           else Inl COMPUTE_NAME)
      | [] \<Rightarrow> Inl COMPUTE_NAME)"

lemma length_dropWhile_Cons_less: "P c \<Longrightarrow> length (dropWhile P (c # cs)) < Suc (length cs)"
  by (simp add: length_dropWhile_le le_imp_less_Suc)

definition push_tok :: "nat \<Rightarrow> etok \<Rightarrow> (nat \<Rightarrow> ecode + etok list) \<Rightarrow> ecode + etok list" where
  \<comment> \<open>\<open>tokens.append\<close>, the length check that ends the loop body, and the rest of the loop\<close>
  "push_tok n t k =
     guardR (MAX_TOKENS < Suc n) COMPUTE_LIMIT (bindR (k (Suc n)) (\<lambda>ts. Inr (t # ts)))"

lemma push_tok_cong [fundef_cong]:
  "n = n' \<Longrightarrow> t = t' \<Longrightarrow> (\<And>m. k m = k' m) \<Longrightarrow> push_tok n t k = push_tok n' t' k'"
  by (simp add: push_tok_def)

function (sequential) tok_loop :: "string \<Rightarrow> nat \<Rightarrow> ecode + etok list" where
  \<comment> \<open>\<open>n\<close> tokens are already in the list\<close>
  "tok_loop [] n = Inr []"
| "tok_loop (c # cs) n =
     (if is_blank c then tok_loop cs n
      else if is_operator c then push_tok n (TOp c) (tok_loop cs)
      else if is_digit c then
        (let ds = takeWhile is_digit (c # cs) in
         guardR (9 < length ds) COMPUTE_SYNTAX
           (push_tok n (TInt (int (read_nat ds))) (tok_loop (dropWhile is_digit (c # cs)))))
      else if is_lower c then
        bindR (check_name (takeWhile is_name_char (c # cs)))
          (\<lambda>t. push_tok n t (tok_loop (dropWhile is_name_char (c # cs))))
      else Inl COMPUTE_SYNTAX)"
  by pat_completeness auto
termination
  by (relation "measure (\<lambda>(cs, n). length cs)")
    (auto simp: is_name_char_def length_dropWhile_le le_imp_less_Suc)

definition tokenize :: "string \<Rightarrow> ecode + etok list" where
  "tokenize e = guardR (MAX_EXPR_LENGTH < length e) COMPUTE_LIMIT (tok_loop e 0)"

section \<open>Parser\<close>

datatype expr = EInt int | EName string | ENeg expr | EBin char expr expr

text \<open>
  The methods of \<open>_Parser\<close>, each a function of the nesting depth and the tokens not yet
  taken. A successful call returns the tree and the tokens it left; \<open>self.depth\<close> is back
  at its old value whenever a call returns, so it is passed down only. The recursion of
  the five methods is not structural, so they take fuel: \<open>None\<close> is "out of fuel", and
  \<open>parse_tokens_returns\<close> below shows that the fuel \<open>parse_tokens\<close> gives is enough.
\<close>

type_synonym 'a pres = "(ecode + 'a \<times> etok list) option"

fun bindP :: "'a pres \<Rightarrow> ('a \<Rightarrow> etok list \<Rightarrow> 'b pres) \<Rightarrow> 'b pres" where
  "bindP None k = None"
| "bindP (Some (Inl e)) k = Some (Inl e)"
| "bindP (Some (Inr (x, ts))) k = k x ts"

text \<open>Which method is running: the loops of \<open>expr\<close> and \<open>term\<close> carry the tree built so far.\<close>

datatype nt = NExpr | NExprLoop expr | NTerm | NTermLoop expr | NUnary | NAtom

type_synonym pfun = "nt \<Rightarrow> nat \<Rightarrow> etok list \<Rightarrow> expr pres"

definition expr_body :: "pfun \<Rightarrow> nat \<Rightarrow> etok list \<Rightarrow> expr pres" where
  "expr_body p d ts = bindP (p NTerm d ts) (\<lambda>node rest. p (NExprLoop node) d rest)"

definition expr_loop_body :: "pfun \<Rightarrow> expr \<Rightarrow> nat \<Rightarrow> etok list \<Rightarrow> expr pres" where
  "expr_loop_body p node d ts =
     (case ts of
        TOp c # ts' \<Rightarrow>
          (if c = CHR ''+'' \<or> c = CHR ''-''
           then bindP (p NTerm d ts') (\<lambda>r rest. p (NExprLoop (EBin c node r)) d rest)
           else Some (Inr (node, ts)))
      | _ \<Rightarrow> Some (Inr (node, ts)))"

definition term_body :: "pfun \<Rightarrow> nat \<Rightarrow> etok list \<Rightarrow> expr pres" where
  "term_body p d ts = bindP (p NUnary d ts) (\<lambda>node rest. p (NTermLoop node) d rest)"

definition term_loop_body :: "pfun \<Rightarrow> expr \<Rightarrow> nat \<Rightarrow> etok list \<Rightarrow> expr pres" where
  "term_loop_body p node d ts =
     (case ts of
        TOp c # ts' \<Rightarrow>
          (if c = CHR ''*'' \<or> c = CHR ''/'' \<or> c = CHR ''%''
           then bindP (p NUnary d ts') (\<lambda>r rest. p (NTermLoop (EBin c node r)) d rest)
           else Some (Inr (node, ts)))
      | _ \<Rightarrow> Some (Inr (node, ts)))"

definition unary_body :: "pfun \<Rightarrow> nat \<Rightarrow> etok list \<Rightarrow> expr pres" where
  "unary_body p d ts =
     (case ts of
        TOp c # ts' \<Rightarrow>
          (if c = CHR ''-'' then bindP (p NUnary d ts') (\<lambda>x rest. Some (Inr (ENeg x, rest)))
           else p NAtom d ts)
      | _ \<Rightarrow> p NAtom d ts)"

definition close_paren :: "expr \<Rightarrow> etok list \<Rightarrow> expr pres" where
  \<comment> \<open>\<open>if self.take() != ("op", ")"): raise\<close>\<close>
  "close_paren node rest =
     (case rest of
        TOp c # rest' \<Rightarrow>
          (if c = CHR '')'' then Some (Inr (node, rest')) else Some (Inl COMPUTE_SYNTAX))
      | _ \<Rightarrow> Some (Inl COMPUTE_SYNTAX))"

definition atom_body :: "pfun \<Rightarrow> nat \<Rightarrow> etok list \<Rightarrow> expr pres" where
  "atom_body p d ts =
     (case ts of
        TInt i # ts' \<Rightarrow> Some (Inr (EInt i, ts'))
      | TName w # ts' \<Rightarrow> Some (Inr (EName w, ts'))
      | TOp c # ts' \<Rightarrow>
          (if c = CHR ''('' then
             (if MAX_DEPTH < Suc d then Some (Inl COMPUTE_LIMIT)
              else bindP (p NExpr (Suc d) ts') close_paren)
           else Some (Inl COMPUTE_SYNTAX))
      | [] \<Rightarrow> Some (Inl COMPUTE_SYNTAX))"

definition method_body :: "pfun \<Rightarrow> pfun" where
  "method_body p m d ts =
     (case m of
        NExpr \<Rightarrow> expr_body p d ts
      | NExprLoop node \<Rightarrow> expr_loop_body p node d ts
      | NTerm \<Rightarrow> term_body p d ts
      | NTermLoop node \<Rightarrow> term_loop_body p node d ts
      | NUnary \<Rightarrow> unary_body p d ts
      | NAtom \<Rightarrow> atom_body p d ts)"

lemma method_body_simps [simp]:
  "method_body p NExpr d ts = expr_body p d ts"
  "method_body p (NExprLoop node) d ts = expr_loop_body p node d ts"
  "method_body p NTerm d ts = term_body p d ts"
  "method_body p (NTermLoop node) d ts = term_loop_body p node d ts"
  "method_body p NUnary d ts = unary_body p d ts"
  "method_body p NAtom d ts = atom_body p d ts"
  by (simp_all add: method_body_def)

primrec parser :: "nat \<Rightarrow> pfun" where
  "parser 0 = (\<lambda>m d ts. None)"
| "parser (Suc f) = method_body (parser f)"

definition parse_fuel :: "etok list \<Rightarrow> nat" where
  "parse_fuel ts = 6 * length ts + 4"

definition parse_tokens :: "etok list \<Rightarrow> (ecode + expr) option" where
  \<comment> \<open>\<open>parser.expr()\<close> and the check that every token was taken\<close>
  "parse_tokens ts =
     (case parser (parse_fuel ts) NExpr 0 ts of
        None \<Rightarrow> None
      | Some (Inl e) \<Rightarrow> Some (Inl e)
      | Some (Inr (tree, rest)) \<Rightarrow>
          Some (if rest \<noteq> [] then Inl COMPUTE_SYNTAX else Inr tree))"

definition parse :: "string \<Rightarrow> ecode + expr" where
  "parse e = bindR (tokenize e) (\<lambda>ts. the (parse_tokens ts))"

section \<open>Names of a tree\<close>

fun subtrees :: "expr \<Rightarrow> expr list" where
  \<comment> \<open>\<open>node[1:]\<close> of a node that is neither a name nor an integer\<close>
  "subtrees (ENeg a) = [a]"
| "subtrees (EBin c a b) = [a, b]"
| "subtrees e = []"

text \<open>
  The stack is a list whose head is the element \<open>pop()\<close> returns, so
  \<open>stack.extend(reversed(children))\<close> puts the children in front, in order.
\<close>

function names_loop :: "expr list \<Rightarrow> string list \<Rightarrow> string list" where
  "names_loop [] out = out"
| "names_loop (node # stack) out =
     (case node of
        EName w \<Rightarrow> names_loop stack (if w \<in> set out then out else out @ [w])
      | EInt i \<Rightarrow> names_loop stack out
      | _ \<Rightarrow> names_loop (subtrees node @ stack) out)"
  by pat_completeness auto
termination
  by (relation "measure (\<lambda>(st, out). sum_list (map (\<lambda>e. 2 * size e + 1) st))") auto

definition names :: "expr \<Rightarrow> string list" where
  "names tree = names_loop [tree] []"

section \<open>Evaluation\<close>

definition bounded :: "int \<Rightarrow> eexc + int" where
  "bounded x = (if - INT_LIMIT \<le> x \<and> x \<le> INT_LIMIT then Inr x else Inl (ExprError COMPUTE_OVERFLOW))"

definition is_operand_str :: "string \<Rightarrow> bool" where
  \<comment> \<open>\<open>_OPERAND_STR.fullmatch\<close>: an optional sign and one to nine digits\<close>
  "is_operand_str s =
     (let ds = (case s of c # cs \<Rightarrow> (if c = CHR ''-'' then cs else s) | [] \<Rightarrow> [])
      in ds \<noteq> [] \<and> length ds \<le> 9 \<and> list_all is_digit ds)"

definition operand_str_value :: "string \<Rightarrow> int" where
  "operand_str_value s =
     (case s of c # cs \<Rightarrow> (if c = CHR ''-'' then - int (read_nat cs) else int (read_nat s))
      | [] \<Rightarrow> 0)"

definition coerce_operand :: "string \<Rightarrow> json \<Rightarrow> eexc + int" where
  "coerce_operand name v =
     (if is_secret_name name then Inl (ExprError COMPUTE_SECRET)
      else (case v of
              JBool b \<Rightarrow> Inl (ExprError COMPUTE_TYPE)
            | JInt i \<Rightarrow> bounded i
            | JStr s \<Rightarrow> (if is_operand_str s then Inr (operand_str_value s)
                        else Inl (ExprError COMPUTE_TYPE))
            | _ \<Rightarrow> Inl (ExprError COMPUTE_TYPE)))"

definition trunc_div :: "int \<Rightarrow> int \<Rightarrow> eexc + int" where
  "trunc_div a b =
     (if b = 0 then Inl (ExprError COMPUTE_DIV_ZERO)
      else let q = \<bar>a\<bar> div \<bar>b\<bar> in Inr (if (a < 0) \<noteq> (b < 0) then - q else q))"

definition apply_op :: "char \<Rightarrow> int \<Rightarrow> int \<Rightarrow> eexc + int" where
  "apply_op c a b =
     (if c = CHR ''+'' then bounded (a + b)
      else if c = CHR ''-'' then bounded (a - b)
      else if c = CHR ''*'' then bounded (a * b)
      else if c = CHR ''/'' then bindR (trunc_div a b) bounded
      else bindR (trunc_div a b) (\<lambda>q. bounded (a - b * q)))"

fun evaluate :: "expr \<Rightarrow> (string \<rightharpoonup> int) \<Rightarrow> eexc + int" where
  "evaluate (EInt i) env = Inr i"
| "evaluate (EName w) env = (case env w of None \<Rightarrow> Inl (KeyError w) | Some v \<Rightarrow> Inr v)"
| "evaluate (ENeg e) env = bindR (evaluate e env) (\<lambda>x. bounded (- x))"
| "evaluate (EBin c l r) env =
     bindR (evaluate l env) (\<lambda>a. bindR (evaluate r env) (\<lambda>b. apply_op c a b))"

section \<open>A whole computed block\<close>

definition is_bound :: "json \<Rightarrow> bool" where
  "is_bound v = (case v of JNull \<Rightarrow> True | JInt i \<Rightarrow> True | _ \<Rightarrow> False)"

definition computed_name :: "string \<Rightarrow> string" where
  "computed_name key = ''computed.'' @ key"

record eval_state =
  ev_values :: "(string \<times> int) list"
  ev_missing :: "string list"
  ev_errors :: "(ecode \<times> string option) list"
  ev_declared :: "string list"

fun operand_loop ::
  "string \<Rightarrow> (string \<rightharpoonup> int) \<Rightarrow> string list \<Rightarrow> (string \<rightharpoonup> json) \<Rightarrow> string list
   \<Rightarrow> string list \<Rightarrow> (string \<rightharpoonup> int) \<Rightarrow> bool
   \<Rightarrow> string list \<times> (eexc + (string \<rightharpoonup> int) \<times> bool)" where
  \<comment> \<open>\<open>for name in names(tree)\<close>: the missing list survives a raise, as the code's list does\<close>
  "operand_loop own values declared vars [] missing env skip = (missing, Inr (env, skip))"
| "operand_loop own values declared vars (name # rest) missing env skip =
     (if is_secret_name name then (missing, Inl (ExprError COMPUTE_SECRET))
      else if prefix ''computed.'' name then
        (case values name of
           Some v \<Rightarrow> operand_loop own values declared vars rest missing (env(name \<mapsto> v)) skip
         | None \<Rightarrow>
             (if name \<in> set declared \<and> name \<noteq> own
              then operand_loop own values declared vars rest missing env True
              else (missing, Inl (ExprError COMPUTE_NAME))))
      else (case vars name of
              None \<Rightarrow> operand_loop own values declared vars rest
                        (if name \<in> set missing then missing else missing @ [name]) env True
            | Some JNull \<Rightarrow> operand_loop own values declared vars rest
                        (if name \<in> set missing then missing else missing @ [name]) env True
            | Some v \<Rightarrow>
                (case coerce_operand name v of
                   Inl e \<Rightarrow> (missing, Inl e)
                 | Inr i \<Rightarrow> operand_loop own values declared vars rest missing
                              (env(name \<mapsto> i)) skip)))"

definition in_range :: "json \<Rightarrow> json \<Rightarrow> int \<Rightarrow> bool" where
  "in_range low high x =
     ((case low of JInt l \<Rightarrow> l \<le> x | _ \<Rightarrow> True) \<and> (case high of JInt h \<Rightarrow> x \<le> h | _ \<Rightarrow> True))"

definition entry_result ::
  "string \<Rightarrow> json \<Rightarrow> string \<Rightarrow> (string \<rightharpoonup> json) \<Rightarrow> eval_state \<Rightarrow> string list \<times> (eexc + int option)"
where
  \<comment> \<open>the \<open>try\<close> body of one entry: a value, no value (\<open>continue\<close>), or the exception\<close>
  "entry_result key entry expr vars st =
     (if \<not> (is_bound (jget ''min'' entry) \<and> is_bound (jget ''max'' entry))
      then (ev_missing st, Inl (ExprError COMPUTE_TYPE))
      else (case parse expr of
              Inl c \<Rightarrow> (ev_missing st, Inl (ExprError c))
            | Inr tree \<Rightarrow>
                (case operand_loop (computed_name key) (map_of (ev_values st)) (ev_declared st)
                        vars (names tree) (ev_missing st) Map.empty False of
                   (missing, Inl e) \<Rightarrow> (missing, Inl e)
                 | (missing, Inr (env, skip)) \<Rightarrow>
                     (missing,
                      if skip then Inr None
                      else bindR (evaluate tree env)
                        (\<lambda>x. if in_range (jget ''min'' entry) (jget ''max'' entry) x
                             then Inr (Some x) else Inl (ExprError COMPUTE_RANGE))))))"

definition eval_entry :: "(string \<rightharpoonup> json) \<Rightarrow> json \<Rightarrow> eval_state \<Rightarrow> eexc + eval_state" where
  "eval_entry vars entry st =
     (case (jget ''key'' entry, jget ''expr'' entry) of
        (JStr key, JStr expr) \<Rightarrow>
          (let st1 = st\<lparr>ev_declared := computed_name key # ev_declared st\<rparr>;
               (missing, r) = entry_result key entry expr vars st1;
               st2 = st1\<lparr>ev_missing := missing\<rparr>
           in (case r of
                 Inr None \<Rightarrow> Inr st2
               | Inr (Some x) \<Rightarrow>
                   Inr (st2\<lparr>ev_values := AList.update (computed_name key) x (ev_values st2)\<rparr>)
               | Inl (ExprError c) \<Rightarrow> Inr (st2\<lparr>ev_errors := ev_errors st2 @ [(c, Some key)]\<rparr>)
               | Inl (KeyError w) \<Rightarrow> Inl (KeyError w)))
      | (k, _) \<Rightarrow> Inr (st\<lparr>ev_errors := ev_errors st @
                      [(COMPUTE_SYNTAX, (case k of JStr key \<Rightarrow> Some key | _ \<Rightarrow> None))]\<rparr>))"

fun eval_entries :: "(string \<rightharpoonup> json) \<Rightarrow> json list \<Rightarrow> eval_state \<Rightarrow> eexc + eval_state" where
  "eval_entries vars [] st = Inr st"
| "eval_entries vars (e # es) st = bindR (eval_entry vars e st) (eval_entries vars es)"

definition init_eval :: eval_state where
  "init_eval = \<lparr>ev_values = [], ev_missing = [], ev_errors = [], ev_declared = []\<rparr>"

definition evaluate_all :: "json \<Rightarrow> (string \<rightharpoonup> json) \<Rightarrow> eexc + eval_state" where
  "evaluate_all computed vars =
     (if truthy computed \<and> \<not> is_list computed
      then Inr (init_eval\<lparr>ev_errors := [(COMPUTE_SYNTAX, None)]\<rparr>)
      else eval_entries vars (as_list computed) init_eval)"

section \<open>The parser always returns\<close>

fun cost :: "nt \<Rightarrow> nat \<Rightarrow> nat" where
  "cost NAtom n = 6 * n + 1"
| "cost NUnary n = 6 * n + 2"
| "cost NTerm n = 6 * n + 3"
| "cost (NTermLoop e) n = 6 * n + 3"
| "cost NExpr n = 6 * n + 4"
| "cost (NExprLoop e) n = 6 * n + 4"

fun is_loop :: "nt \<Rightarrow> bool" where
  "is_loop (NExprLoop e) = True"
| "is_loop (NTermLoop e) = True"
| "is_loop m = False"

lemma bindP_Some_Inr:
  "bindP x k = Some (Inr r) \<longleftrightarrow> (\<exists>v ts. x = Some (Inr (v, ts)) \<and> k v ts = Some (Inr r))"
  by (cases "(x, k)" rule: bindP.cases) auto

lemma close_paren_Inr:
  "close_paren node rest = Some (Inr (e, r)) \<longleftrightarrow> node = e \<and> rest = TOp (CHR '')'') # r"
  by (auto simp: close_paren_def split: list.splits etok.splits)

lemmas parser_bodies = expr_body_def expr_loop_body_def term_body_def term_loop_body_def
  unary_body_def atom_body_def

lemma parser_shrinks:
  "parser f m d ts = Some (Inr (e, rest)) \<Longrightarrow>
     length rest \<le> length ts \<and> (\<not> is_loop m \<longrightarrow> length rest < length ts)"
proof (induction f arbitrary: m d ts e rest)
  case 0
  then show ?case by simp
next
  case (Suc f)
  note IH = Suc.IH
  show ?case
  proof (cases m)
    case NExpr
    with Suc.prems show ?thesis
      by (auto simp: parser_bodies bindP_Some_Inr dest!: IH)
  next
    case (NExprLoop node)
    with Suc.prems show ?thesis
      by (auto simp: parser_bodies bindP_Some_Inr split: list.splits etok.splits if_splits
          dest!: IH)
  next
    case NTerm
    with Suc.prems show ?thesis
      by (auto simp: parser_bodies bindP_Some_Inr dest!: IH)
  next
    case (NTermLoop node)
    with Suc.prems show ?thesis
      by (auto simp: parser_bodies bindP_Some_Inr split: list.splits etok.splits if_splits
          dest!: IH)
  next
    case NUnary
    with Suc.prems show ?thesis
      by (auto simp: parser_bodies bindP_Some_Inr split: list.splits etok.splits if_splits
          dest!: IH)
  next
    case NAtom
    with Suc.prems show ?thesis
      by (auto simp: parser_bodies bindP_Some_Inr close_paren_Inr split: list.splits etok.splits if_splits
          dest!: IH)
  qed
qed


definition returns :: "'a pres \<Rightarrow> bool" where
  "returns x \<longleftrightarrow> x \<noteq> None"

lemma returns_Some [simp]: "returns (Some x)"
  by (simp add: returns_def)

lemma returns_close_paren [simp]: "returns (close_paren node rest)"
  by (auto simp: close_paren_def split: list.splits etok.splits)

lemma returns_bindP:
  "returns x \<Longrightarrow> (\<And>v ts. x = Some (Inr (v, ts)) \<Longrightarrow> returns (k v ts)) \<Longrightarrow> returns (bindP x k)"
  by (cases "(x, k)" rule: bindP.cases) (auto simp: returns_def)

lemma parser_enough: "cost m (length ts) \<le> f \<Longrightarrow> returns (parser f m d ts)"
proof (induction f arbitrary: m d ts)
  case 0
  then show ?case by (cases m) auto
next
  case (Suc f)
  have call: "returns (parser f m' d' ts')" if "cost m' (length ts') \<le> f" for m' d' ts'
    using Suc.IH that by blast
  have after: "returns (parser f m' d rest)"
    if "parser f m0 d ts0 = Some (Inr (v, rest))" "\<not> is_loop m0"
      "length ts0 \<le> length ts" "\<And>k. length ts = Suc k \<Longrightarrow> cost m' k \<le> f" "is_loop m'"
    for m0 ts0 v rest m'
  proof (rule call)
    note H = that
    obtain k where k: "length ts = Suc k" "length rest \<le> k"
      using parser_shrinks [OF H(1)] H(2,3) by (cases "length ts") auto
    from H(4) [OF k(1)] k(2) H(5) show "cost m' (length rest) \<le> f"
      by (cases m') auto
  qed
  show ?case
  proof (cases m)
    case NExpr
    with Suc.prems show ?thesis
      by (auto simp: expr_body_def intro!: returns_bindP call [of NTerm] after [of NTerm ts])
  next
    case (NExprLoop node)
    with Suc.prems show ?thesis
      by (auto simp: expr_loop_body_def intro!: returns_bindP call [of NTerm] after [of NTerm "tl ts"]
          split: list.splits etok.splits)
  next
    case NTerm
    with Suc.prems show ?thesis
      by (auto simp: term_body_def intro!: returns_bindP call [of NUnary] after [of NUnary ts])
  next
    case (NTermLoop node)
    with Suc.prems show ?thesis
      by (auto simp: term_loop_body_def intro!: returns_bindP call [of NUnary] after [of NUnary "tl ts"]
          split: list.splits etok.splits)
  next
    case NUnary
    with Suc.prems show ?thesis
      by (auto simp: unary_body_def intro!: returns_bindP call
          split: list.splits etok.splits)
  next
    case NAtom
    with Suc.prems show ?thesis
      by (auto simp: atom_body_def intro!: returns_bindP call
          split: list.splits etok.splits)
  qed
qed

lemma parse_tokens_returns: "\<exists>r. parse_tokens ts = Some r"
proof -
  have "returns (parser (parse_fuel ts) NExpr 0 ts)"
    by (rule parser_enough) (simp add: parse_fuel_def)
  then show ?thesis
    by (auto simp: parse_tokens_def returns_def split: sum.splits)
qed

section \<open>Printing and parsing back\<close>

text \<open>
  \<open>parses m d ts r\<close>: method \<open>m\<close> at depth \<open>d\<close> on \<open>ts\<close> gives \<open>r\<close>, for some fuel. More fuel never
  changes a result, so a run found for one call can be used inside another.
\<close>

definition parses :: "nt \<Rightarrow> nat \<Rightarrow> etok list \<Rightarrow> (ecode + expr \<times> etok list) \<Rightarrow> bool" where
  "parses m d ts r \<longleftrightarrow> (\<exists>f. parser f m d ts = Some r)"

definition extends :: "pfun \<Rightarrow> pfun \<Rightarrow> bool" where
  "extends p q \<longleftrightarrow> (\<forall>m d ts r. p m d ts = Some r \<longrightarrow> q m d ts = Some r)"

lemma extendsD: "extends p q \<Longrightarrow> p m d ts = Some r \<Longrightarrow> q m d ts = Some r"
  by (simp add: extends_def)

lemma bindP_extends:
  "bindP x k = Some r \<Longrightarrow> (\<And>r. x = Some r \<Longrightarrow> x' = Some r) \<Longrightarrow>
   (\<And>v ts r. k v ts = Some r \<Longrightarrow> k' v ts = Some r) \<Longrightarrow> bindP x' k' = Some r"
  by (cases "(x, k)" rule: bindP.cases) auto

lemma bodies_extends:
  assumes "extends p q"
  shows "expr_body p d ts = Some r \<Longrightarrow> expr_body q d ts = Some r"
    and "expr_loop_body p n d ts = Some r \<Longrightarrow> expr_loop_body q n d ts = Some r"
    and "term_body p d ts = Some r \<Longrightarrow> term_body q d ts = Some r"
    and "term_loop_body p n d ts = Some r \<Longrightarrow> term_loop_body q n d ts = Some r"
    and "unary_body p d ts = Some r \<Longrightarrow> unary_body q d ts = Some r"
    and "atom_body p d ts = Some r \<Longrightarrow> atom_body q d ts = Some r"
  using extendsD [OF assms]
  by (auto simp: parser_bodies split: list.splits etok.splits if_splits elim!: bindP_extends)

lemma method_body_extends: "extends p q \<Longrightarrow> extends (method_body p) (method_body q)"
  unfolding extends_def [of "method_body p"] method_body_def
  using bodies_extends by (auto split: nt.splits)

lemma parser_step_extends: "extends (parser f) (parser (Suc f))"
proof (induction f)
  case 0
  then show ?case by (simp add: extends_def)
next
  case (Suc f)
  then have "extends (method_body (parser f)) (method_body (parser (Suc f)))"
    by (rule method_body_extends)
  then show ?case by simp
qed

lemma parser_extends: "f \<le> g \<Longrightarrow> extends (parser f) (parser g)"
proof (induction g)
  case 0
  then show ?case by (simp add: extends_def)
next
  case (Suc g)
  then show ?case
    using parser_step_extends [of g] by (cases "f = Suc g") (auto simp: extends_def)
qed

lemma parses_common:
  assumes "parses m d ts r" and "parses m' d' ts' r'"
  obtains f where "parser f m d ts = Some r" and "parser f m' d' ts' = Some r'"
proof -
  from assms obtain f g where f: "parser f m d ts = Some r" and g: "parser g m' d' ts' = Some r'"
    by (auto simp: parses_def)
  have "parser (max f g) m d ts = Some r"
    by (rule extendsD [OF parser_extends f]) simp
  moreover have "parser (max f g) m' d' ts' = Some r'"
    by (rule extendsD [OF parser_extends g]) simp
  ultimately show thesis by (rule that)
qed

lemma parses_Suc: "parser (Suc f) m d ts = Some r \<Longrightarrow> parses m d ts r"
  unfolding parses_def by blast

lemma parses_expr:
  "parses NTerm d ts (Inr (n, rest)) \<Longrightarrow> parses (NExprLoop n) d rest r \<Longrightarrow> parses NExpr d ts r"
  apply (erule (1) parses_common)
  subgoal for f by (rule parses_Suc [of f]) (simp add: expr_body_def)
  done

lemma parses_term:
  "parses NUnary d ts (Inr (n, rest)) \<Longrightarrow> parses (NTermLoop n) d rest r \<Longrightarrow> parses NTerm d ts r"
  apply (erule (1) parses_common)
  subgoal for f by (rule parses_Suc [of f]) (simp add: term_body_def)
  done

lemma parses_expr_loop_op:
  "c = CHR ''+'' \<or> c = CHR ''-'' \<Longrightarrow> parses NTerm d ts (Inr (x, rest)) \<Longrightarrow>
   parses (NExprLoop (EBin c n x)) d rest r \<Longrightarrow> parses (NExprLoop n) d (TOp c # ts) r"
  apply (erule (1) parses_common)
  subgoal for f by (rule parses_Suc [of f]) (auto simp: expr_loop_body_def)
  done

lemma parses_term_loop_op:
  "c = CHR ''*'' \<or> c = CHR ''/'' \<or> c = CHR ''%'' \<Longrightarrow> parses NUnary d ts (Inr (x, rest)) \<Longrightarrow>
   parses (NTermLoop (EBin c n x)) d rest r \<Longrightarrow> parses (NTermLoop n) d (TOp c # ts) r"
  apply (erule (1) parses_common)
  subgoal for f by (rule parses_Suc [of f]) (auto simp: term_loop_body_def)
  done

fun starts_with_op :: "char set \<Rightarrow> etok list \<Rightarrow> bool" where
  "starts_with_op C (TOp c # ts) = (c \<in> C)"
| "starts_with_op C ts = False"

abbreviation "add_ops \<equiv> {CHR ''+'', CHR ''-''}"
abbreviation "mul_ops \<equiv> {CHR ''*'', CHR ''/'', CHR ''%''}"

lemma parses_expr_loop_stop:
  "\<not> starts_with_op add_ops rest \<Longrightarrow> parses (NExprLoop n) d rest (Inr (n, rest))"
  by (rule parses_Suc [of 0])
    (auto simp: expr_loop_body_def split: list.splits etok.splits)

lemma parses_term_loop_stop:
  "\<not> starts_with_op mul_ops rest \<Longrightarrow> parses (NTermLoop n) d rest (Inr (n, rest))"
  by (rule parses_Suc [of 0])
    (auto simp: term_loop_body_def split: list.splits etok.splits)

lemma parses_neg:
  "parses NUnary d ts (Inr (x, rest)) \<Longrightarrow> parses NUnary d (TOp (CHR ''-'') # ts) (Inr (ENeg x, rest))"
  unfolding parses_def [of NUnary d ts]
  apply (erule exE)
  subgoal for f by (rule parses_Suc [of f]) (simp add: unary_body_def)
  done

lemma parses_atom:
  "parses NUnary d (TInt i # rest) (Inr (EInt i, rest))"
  "parses NUnary d (TName w # rest) (Inr (EName w, rest))"
  by (rule parses_Suc [of "Suc 0"], simp add: unary_body_def atom_body_def)+

lemma parses_paren:
  assumes "Suc d \<le> MAX_DEPTH" "parses NExpr (Suc d) ts (Inr (e, TOp (CHR '')'') # rest))"
  shows "parses NUnary d (TOp (CHR ''('') # ts) (Inr (e, rest))"
proof -
  from assms(2) obtain f where "parser f NExpr (Suc d) ts = Some (Inr (e, TOp (CHR '')'') # rest))"
    by (auto simp: parses_def)
  with assms(1) show ?thesis
    by (intro parses_Suc [of "Suc f"]) (auto simp: unary_body_def atom_body_def close_paren_def)
qed

text \<open>
  The printer: \<open>lvl\<close> is 0 where the grammar expects an \<open>expr\<close>, 1 for a \<open>term\<close>, 2 for a
  \<open>unary\<close>; a binary node is put in parentheses when its own level is below \<open>lvl\<close>.
\<close>

definition op_level :: "char \<Rightarrow> nat" where
  "op_level c = (if c \<in> add_ops then 0 else 1)"

fun unparse :: "nat \<Rightarrow> expr \<Rightarrow> etok list" where
  "unparse lvl (EInt i) = [TInt i]"
| "unparse lvl (EName w) = [TName w]"
| "unparse lvl (ENeg e) = TOp (CHR ''-'') # unparse 2 e"
| "unparse lvl (EBin c l r) =
     (let body = unparse (op_level c) l @ TOp c # unparse (Suc (op_level c)) r
      in if lvl \<le> op_level c then body else TOp (CHR ''('') # body @ [TOp (CHR '')'')])"

fun nesting :: "nat \<Rightarrow> expr \<Rightarrow> nat" where
  \<comment> \<open>how deep the printed parentheses nest\<close>
  "nesting lvl (EInt i) = 0"
| "nesting lvl (EName w) = 0"
| "nesting lvl (ENeg e) = nesting 2 e"
| "nesting lvl (EBin c l r) =
     (let body = max (nesting (op_level c) l) (nesting (Suc (op_level c)) r)
      in if lvl \<le> op_level c then body else Suc body)"

fun ops_ok :: "expr \<Rightarrow> bool" where
  "ops_ok (EInt i) = True"
| "ops_ok (EName w) = True"
| "ops_ok (ENeg e) = ops_ok e"
| "ops_ok (EBin c l r) = (c \<in> add_ops \<union> mul_ops \<and> ops_ok l \<and> ops_ok r)"

lemma mul_level_unparse: "c \<notin> add_ops \<Longrightarrow> unparse 0 (EBin c l r) = unparse 1 (EBin c l r)"
  by (simp add: op_level_def)

lemma unparse_parses:
  "ops_ok e \<Longrightarrow>
    (\<forall>d rest. d + nesting 2 e \<le> MAX_DEPTH \<longrightarrow>
       parses NUnary d (unparse 2 e @ rest) (Inr (e, rest))) \<and>
    (\<forall>d rest r. d + nesting 1 e \<le> MAX_DEPTH \<longrightarrow> parses (NTermLoop e) d rest r \<longrightarrow>
       parses NTerm d (unparse 1 e @ rest) r) \<and>
    (\<forall>d rest r. d + nesting 0 e \<le> MAX_DEPTH \<longrightarrow> \<not> starts_with_op mul_ops rest \<longrightarrow>
       parses (NExprLoop e) d rest r \<longrightarrow> parses NExpr d (unparse 0 e @ rest) r)"
proof (induction e)
  case (EInt i)
  then show ?case
    by (auto intro!: parses_atom parses_expr [OF parses_term] intro: parses_term parses_term_loop_stop)
next
  case (EName w)
  then show ?case
    by (auto intro!: parses_atom parses_expr [OF parses_term] intro: parses_term parses_term_loop_stop)
next
  case (ENeg e)
  then have IH: "parses NUnary d (unparse 2 e @ rest) (Inr (e, rest))"
    if "d + nesting 2 e \<le> MAX_DEPTH" for d rest using that by simp
  show ?case
    by (auto intro!: parses_neg IH parses_expr [OF parses_term]
        intro: parses_term parses_term_loop_stop)
next
  case (EBin c l r)
  have ok: "ops_ok l" "ops_ok r" and c: "c \<in> add_ops \<union> mul_ops" using EBin.prems by auto
  note L = EBin.IH(1) [OF ok(1)] and R = EBin.IH(2) [OF ok(2)]
  let ?b = "EBin c l r"
  have T: "parses NTerm d (unparse 1 ?b @ rest) s"
    if "c \<notin> add_ops" "d + nesting 1 ?b \<le> MAX_DEPTH" "parses (NTermLoop ?b) d rest s" for d rest s
  proof -
    have "parses (NTermLoop l) d (TOp c # unparse 2 r @ rest) s"
      by (rule parses_term_loop_op) (use that c R in \<open>auto simp: op_level_def numeral_2_eq_2\<close>)
    with that L show ?thesis by (auto simp: op_level_def numeral_2_eq_2)
  qed
  have E: "parses NExpr d (unparse 0 ?b @ rest) s"
    if "d + nesting 0 ?b \<le> MAX_DEPTH" "\<not> starts_with_op mul_ops rest"
      "parses (NExprLoop ?b) d rest s" for d rest s
  proof (cases "c \<in> add_ops")
    case True
    have "parses NTerm d (unparse 1 r @ rest) (Inr (r, rest))"
      using R that True parses_term_loop_stop [of rest r d] by (auto simp: op_level_def)
    then have "parses (NExprLoop l) d (TOp c # unparse 1 r @ rest) s"
      using True that by (auto intro: parses_expr_loop_op)
    moreover have "\<not> starts_with_op mul_ops (TOp c # unparse 1 r @ rest)"
      using True by auto
    ultimately show ?thesis using L that True by (auto simp: op_level_def)
  next
    case False
    have "parses NTerm d (unparse 1 ?b @ rest) (Inr (?b, rest))"
      by (rule T) (use False that parses_term_loop_stop in \<open>auto simp: op_level_def\<close>)
    with that(3) False show ?thesis
      unfolding mul_level_unparse [OF False] by (intro parses_expr)
  qed
  have U: "parses NUnary d (unparse 2 ?b @ rest) (Inr (?b, rest))"
    if "d + nesting 2 ?b \<le> MAX_DEPTH" for d rest
  proof -
    have lt: "\<not> 2 \<le> op_level c" by (simp add: op_level_def)
    have u: "unparse 2 ?b @ rest =
        TOp (CHR ''('') # unparse 0 ?b @ TOp (CHR '')'') # rest"
      using lt by (simp add: Let_def)
    have n: "nesting 2 ?b = Suc (nesting 0 ?b)"
      using lt by (simp add: Let_def)
    show ?thesis
      unfolding u
      by (rule parses_paren)
        (use that n in \<open>auto intro!: E parses_expr_loop_stop simp del: unparse.simps nesting.simps\<close>)
  qed
  have T': "parses NTerm d (unparse 1 ?b @ rest) s"
    if "d + nesting 1 ?b \<le> MAX_DEPTH" "parses (NTermLoop ?b) d rest s" for d rest s
  proof (cases "c \<in> add_ops")
    case True
    then have "unparse 1 ?b = unparse 2 ?b" "nesting 1 ?b = nesting 2 ?b"
      by (auto simp: op_level_def Let_def)
    with that U show ?thesis by (auto intro: parses_term simp del: unparse.simps nesting.simps)
  next
    case False
    with that show ?thesis by (intro T)
  qed
  from U T' E show ?case by blast
qed

lemma parse_tokens_unparse:
  assumes "ops_ok e" and "nesting 0 e \<le> MAX_DEPTH"
  shows "parse_tokens (unparse 0 e) = Some (Inr e)"
proof -
  let ?ts = "unparse 0 e"
  have "parses (NExprLoop e) 0 [] (Inr (e, []))"
    by (rule parses_expr_loop_stop) simp
  then have "parses NExpr 0 (?ts @ []) (Inr (e, []))"
    using unparse_parses [OF assms(1)] assms(2) by (metis add_0 starts_with_op.simps(2))
  then obtain f where f: "parser f NExpr 0 ?ts = Some (Inr (e, []))"
    by (auto simp: parses_def)
  obtain r where r: "parser (parse_fuel ?ts) NExpr 0 ?ts = Some r"
    using parser_enough [of NExpr ?ts "parse_fuel ?ts" 0] by (auto simp: parse_fuel_def returns_def)
  let ?g = "max f (parse_fuel ?ts)"
  have "parser ?g NExpr 0 ?ts = Some (Inr (e, []))"
    by (rule extendsD [OF parser_extends f]) simp
  moreover have "parser ?g NExpr 0 ?ts = Some r"
    by (rule extendsD [OF parser_extends r]) simp
  ultimately show ?thesis using r by (simp add: parse_tokens_def)
qed

section \<open>The text form and the tokenizer\<close>

fun show_tok :: "etok \<Rightarrow> string" where
  "show_tok (TOp c) = [c]"
| "show_tok (TInt i) = show_nat (nat i)"
| "show_tok (TName w) = w"

definition show_toks :: "etok list \<Rightarrow> string" where
  "show_toks ts = concat (map (\<lambda>t. show_tok t @ '' '') ts)"

definition show_expr :: "expr \<Rightarrow> string" where
  "show_expr e = show_toks (unparse 0 e)"

definition name_ok :: "string \<Rightarrow> bool" where
  \<comment> \<open>a word the tokenizer accepts as a name\<close>
  "name_ok w \<longleftrightarrow> w \<noteq> [] \<and> is_lower (hd w) \<and> list_all is_name_char w \<and> check_name w = Inr (TName w)"

fun tok_ok :: "etok \<Rightarrow> bool" where
  "tok_ok (TOp c) = is_operator c"
| "tok_ok (TInt i) = (0 \<le> i \<and> i < 10 ^ 9)"
| "tok_ok (TName w) = name_ok w"

lemma char_classes:
  "is_blank c \<Longrightarrow> \<not> is_name_char c"
  "is_blank c \<Longrightarrow> \<not> is_digit c"
  "is_operator c \<Longrightarrow> \<not> is_blank c"
  "is_digit c \<Longrightarrow> \<not> is_blank c \<and> \<not> is_operator c \<and> \<not> is_lower c"
  "is_lower c \<Longrightarrow> \<not> is_blank c \<and> \<not> is_operator c \<and> \<not> is_digit c"
  by (auto simp: is_blank_def is_name_char_def is_digit_def is_lower_def is_operator_def
      OPERATORS_def)

lemma takeWhile_stop: "list_all P w \<Longrightarrow> \<not> P c \<Longrightarrow> takeWhile P (w @ c # s) = w"
  by (induction w) auto

lemma dropWhile_stop: "list_all P w \<Longrightarrow> \<not> P c \<Longrightarrow> dropWhile P (w @ c # s) = c # s"
  by (induction w) auto

lemma tok_loop_blank: "tok_loop (CHR '' '' # s) n = tok_loop s n"
  by (simp add: is_blank_def)

lemma tok_loop_show:
  assumes "tok_ok t"
  shows "tok_loop (show_tok t @ CHR '' '' # s) n = push_tok n t (tok_loop s)"
proof -
  have sp: "\<not> is_digit (CHR '' '')" "\<not> is_name_char (CHR '' '')"
    using char_classes [of "CHR '' ''"] by (auto simp: is_blank_def)
  have blank: "tok_loop (CHR '' '' # s) = tok_loop s"
    by (rule ext) (rule tok_loop_blank)
  show ?thesis
  proof (cases t)
    case (TOp c)
    with assms char_classes(3) [of c] show ?thesis by (simp add: blank)
  next
    case (TInt i)
    let ?w = "show_nat (nat i)"
    from TInt assms have i: "0 \<le> i" "i < 10 ^ 9" by auto
    obtain c cs where w: "?w = c # cs" by (cases ?w) auto
    have d: "is_digit c" using show_nat_digits [of c "nat i"] w by simp
    have all: "list_all is_digit (c # cs)"
      using show_nat_digits [of _ "nat i"] w by (auto simp: list_all_iff)
    from i have "nat i < 10 ^ 9" by (simp add: nat_less_iff)
    then have "length ?w \<le> 9" using length_show_nat_bound [of "nat i" 9] by simp
    then have len: "length (c # cs) \<le> 9" using w by simp
    have tw: "takeWhile is_digit (c # cs @ CHR '' '' # s) = c # cs"
      using takeWhile_stop [OF all sp(1)] by simp
    have dw: "dropWhile is_digit (c # cs @ CHR '' '' # s) = CHR '' '' # s"
      using dropWhile_stop [OF all sp(1)] by simp
    have v: "int (read_nat (c # cs)) = i" using w i by (metis int_nat_eq read_show_nat)
    show ?thesis
      using char_classes(4) [OF d] d len
      by (simp add: TInt w tw dw v blank del: takeWhile.simps dropWhile.simps)
  next
    case (TName w')
    with assms obtain c cs where w: "w' = c # cs" and l: "is_lower c"
      and all: "list_all is_name_char (c # cs)" and ck: "check_name w' = Inr (TName w')"
      by (cases w') (auto simp: name_ok_def)
    have tw: "takeWhile is_name_char (c # cs @ CHR '' '' # s) = c # cs"
      using takeWhile_stop [OF all sp(2)] by simp
    have dw: "dropWhile is_name_char (c # cs @ CHR '' '' # s) = CHR '' '' # s"
      using dropWhile_stop [OF all sp(2)] by simp
    show ?thesis
      using char_classes(5) [OF l] l ck
      by (simp add: TName w tw dw blank del: takeWhile.simps dropWhile.simps)
  qed
qed

lemma tok_loop_show_toks:
  "list_all tok_ok ts \<Longrightarrow> n + length ts \<le> MAX_TOKENS \<Longrightarrow> tok_loop (show_toks ts) n = Inr ts"
proof (induction ts arbitrary: n)
  case Nil
  then show ?case by (simp add: show_toks_def)
next
  case (Cons t ts)
  have "show_toks (t # ts) = show_tok t @ CHR '' '' # show_toks ts"
    by (simp add: show_toks_def)
  with Cons show ?case by (simp add: tok_loop_show push_tok_def)
qed

lemma tok_loop_ok: "tok_loop s n = Inr ts \<Longrightarrow> list_all tok_ok ts"
proof (induction s n arbitrary: ts rule: tok_loop.induct)
  case (1 n)
  then show ?case by simp
next
  case (2 c cs n)
  note C = char_classes [of c]
  consider "is_blank c" | "is_operator c" | "is_digit c" | "is_lower c"
    | "\<not> is_blank c" "\<not> is_operator c" "\<not> is_digit c" "\<not> is_lower c" by blast
  then show ?case
  proof cases
    case 1
    with "2.prems" "2.IH"(1) show ?thesis by simp
  next
    case 2
    with "2.prems" "2.IH"(2) C(3) show ?thesis
      by (auto simp: push_tok_def guardR_Inr_iff bindR_Inr_iff)
  next
    case 3
    let ?ds = "takeWhile is_digit (c # cs)"
    have ds: "list_all is_digit ?ds" by (auto simp: list_all_iff dest: set_takeWhileD)
    have "read_nat ds < 10 ^ length ds" if "list_all is_digit ds" for ds
      using that
    proof (induction ds rule: rev_induct)
      case Nil
      then show ?case by (simp add: read_nat_def)
    next
      case (snoc c ds)
      then have "digit_val c \<le> 9" by (auto simp: is_digit_def)
      with snoc show ?case by (simp add: read_nat_snoc del: digit_val.simps)
    qed
    then have r: "read_nat ?ds < 10 ^ length ?ds" using ds by blast
    from 3 C(4) "2.prems" obtain ts' where
      len: "length ?ds \<le> 9" and ts: "ts = TInt (int (read_nat ?ds)) # ts'"
      and rest: "tok_loop (dropWhile is_digit (c # cs)) (Suc n) = Inr ts'"
      by (auto simp: push_tok_def guardR_Inr_iff bindR_Inr_iff Let_def
          simp del: takeWhile.simps dropWhile.simps)
    have "(10::nat) ^ length ?ds \<le> 10 ^ 9" by (rule power_increasing) (use len in auto)
    with r have "read_nat ?ds < 10 ^ 9" by (rule less_le_trans)
    then have "int (read_nat ?ds) < int (10 ^ 9)" by (simp only: of_nat_less_iff)
    then have "int (read_nat ?ds) < 10 ^ 9" by simp
    with rest ts 3 C(4) "2.IH"(3) show ?thesis by auto
  next
    case 4
    from 4 C(5) "2.prems" obtain t ts' where
      t: "check_name (takeWhile is_name_char (c # cs)) = Inr t" and ts: "ts = t # ts'"
      and rest: "tok_loop (dropWhile is_name_char (c # cs)) (Suc n) = Inr ts'"
      by (auto simp: push_tok_def guardR_Inr_iff bindR_Inr_iff
          simp del: takeWhile.simps dropWhile.simps)
    let ?w = "takeWhile is_name_char (c # cs)"
    have nc: "is_name_char c" using 4 by (simp add: is_name_char_def)
    have "t = TName ?w" using t
      by (auto simp: check_name_def split: list.splits if_splits simp del: takeWhile.simps)
    with t nc 4 have "tok_ok t" by (auto simp: name_ok_def list_all_iff dest: set_takeWhileD)
    with rest ts 4 C(5) "2.IH"(4) t show ?thesis by auto
  next
    case 5
    with "2.prems" show ?thesis by simp
  qed
qed

fun expr_ok :: "expr \<Rightarrow> bool" where
  \<comment> \<open>literals of at most nine digits, accepted names, the grammar's operators\<close>
  "expr_ok (EInt i) = (0 \<le> i \<and> i < 10 ^ 9)"
| "expr_ok (EName w) = name_ok w"
| "expr_ok (ENeg e) = expr_ok e"
| "expr_ok (EBin c l r) = (c \<in> add_ops \<union> mul_ops \<and> expr_ok l \<and> expr_ok r)"

lemma expr_ok_ops: "expr_ok e \<Longrightarrow> ops_ok e"
  by (induction e) auto

lemma unparse_tok_ok: "expr_ok e \<Longrightarrow> list_all tok_ok (unparse lvl e)"
  by (induction e arbitrary: lvl) (auto simp: is_operator_def OPERATORS_def Let_def)

fun mode_ok :: "nt \<Rightarrow> bool" where
  "mode_ok (NExprLoop e) = expr_ok e"
| "mode_ok (NTermLoop e) = expr_ok e"
| "mode_ok m = True"

definition well_formed :: "expr pres \<Rightarrow> bool" where
  "well_formed x \<longleftrightarrow> (\<forall>e rest. x = Some (Inr (e, rest)) \<longrightarrow> expr_ok e \<and> list_all tok_ok rest)"

lemma well_formed_simps [simp]:
  "well_formed None" "well_formed (Some (Inl c))"
  "well_formed (Some (Inr (e, rest))) \<longleftrightarrow> expr_ok e \<and> list_all tok_ok rest"
  by (simp_all add: well_formed_def)

lemma well_formed_bindP:
  "well_formed x \<Longrightarrow> (\<And>v ts. expr_ok v \<Longrightarrow> list_all tok_ok ts \<Longrightarrow> well_formed (k v ts)) \<Longrightarrow>
   well_formed (bindP x k)"
  by (cases "(x, k)" rule: bindP.cases) auto

lemma well_formed_close_paren:
  "expr_ok e \<Longrightarrow> list_all tok_ok ts \<Longrightarrow> well_formed (close_paren e ts)"
  by (auto simp: close_paren_def split: list.splits etok.splits)

lemma parser_ok: "list_all tok_ok ts \<Longrightarrow> mode_ok m \<Longrightarrow> well_formed (parser f m d ts)"
proof (induction f arbitrary: m d ts)
  case 0
  then show ?case by simp
next
  case (Suc f)
  show ?case
    using Suc.prems
    by (cases m) (auto simp: parser_bodies split: list.splits etok.splits
        intro!: well_formed_bindP Suc.IH well_formed_close_paren)
qed

lemma parse_expr_ok: "parse s = Inr e \<Longrightarrow> expr_ok e"
proof -
  assume "parse s = Inr e"
  then obtain ts where ts: "tok_loop s 0 = Inr ts" and p: "the (parse_tokens ts) = Inr e"
    by (auto simp: parse_def tokenize_def bindR_Inr_iff guardR_Inr_iff)
  from p parse_tokens_returns [of ts] have "parse_tokens ts = Some (Inr e)" by auto
  then obtain rest where "parser (parse_fuel ts) NExpr 0 ts = Some (Inr (e, rest))"
    by (auto simp: parse_tokens_def split: option.splits sum.splits if_splits)
  with parser_ok [OF tok_loop_ok [OF ts], of NExpr "parse_fuel ts" 0] show "expr_ok e" by simp
qed

section \<open>The names a tree reads\<close>

fun preorder :: "expr \<Rightarrow> string list" where
  "preorder (EInt i) = []"
| "preorder (EName w) = [w]"
| "preorder (ENeg e) = preorder e"
| "preorder (EBin c l r) = preorder l @ preorder r"

definition note_name :: "string \<Rightarrow> string list \<Rightarrow> string list" where
  "note_name w out = (if w \<in> set out then out else out @ [w])"

lemma names_loop_fold: "names_loop st out = fold note_name (concat (map preorder st)) out"
proof (induction st out rule: names_loop.induct)
  case (1 out)
  then show ?case by simp
next
  case (2 node stack out)
  then show ?case by (cases node) (auto simp: note_name_def)
qed

lemma fold_note_name: "fold note_name xs [] = dedup xs"
  by (induction xs rule: rev_induct) (auto simp: note_name_def dedup_def)

lemma names_eq: "names e = dedup (preorder e)"
  by (simp add: names_def names_loop_fold fold_note_name)

section \<open>Evaluation against exact arithmetic\<close>

definition trunc_quot :: "int \<Rightarrow> int \<Rightarrow> int" where
  \<comment> \<open>division of integers rounding toward zero\<close>
  "trunc_quot a b = sgn a * sgn b * (\<bar>a\<bar> div \<bar>b\<bar>)"

definition exact_op :: "char \<Rightarrow> int \<Rightarrow> int \<Rightarrow> int option" where
  "exact_op c a b =
     (if c = CHR ''+'' then Some (a + b)
      else if c = CHR ''-'' then Some (a - b)
      else if c = CHR ''*'' then Some (a * b)
      else if b = 0 then None
      else if c = CHR ''/'' then Some (trunc_quot a b)
      else Some (a - b * trunc_quot a b))"

fun exact :: "expr \<Rightarrow> (string \<rightharpoonup> int) \<Rightarrow> int option" where
  \<comment> \<open>the value over unbounded integers\<close>
  "exact (EInt i) env = Some i"
| "exact (EName w) env = env w"
| "exact (ENeg e) env = map_option uminus (exact e env)"
| "exact (EBin c l r) env =
     Option.bind (exact l env) (\<lambda>a. Option.bind (exact r env) (\<lambda>b. exact_op c a b))"

definition fits :: "int option \<Rightarrow> bool" where
  "fits x = (case x of None \<Rightarrow> False | Some v \<Rightarrow> \<bar>v\<bar> \<le> INT_LIMIT)"

fun within :: "expr \<Rightarrow> (string \<rightharpoonup> int) \<Rightarrow> bool" where
  \<comment> \<open>every computed intermediate value fits\<close>
  "within (EInt i) env = True"
| "within (EName w) env = True"
| "within (ENeg e) env = (within e env \<and> fits (exact (ENeg e) env))"
| "within (EBin c l r) env = (within l env \<and> within r env \<and> fits (exact (EBin c l r) env))"

lemma bounded_Inr: "bounded x = Inr y \<longleftrightarrow> y = x \<and> \<bar>x\<bar> \<le> INT_LIMIT"
  by (auto simp: bounded_def)

lemma trunc_div_quot: "b \<noteq> 0 \<Longrightarrow> trunc_div a b = Inr (trunc_quot a b)"
  by (auto simp: trunc_div_def trunc_quot_def Let_def sgn_if)

lemma apply_op_exact: "apply_op c a b = Inr x \<longleftrightarrow> exact_op c a b = Some x \<and> \<bar>x\<bar> \<le> INT_LIMIT"
proof (cases "b = 0")
  case True
  then show ?thesis
    by (auto simp: apply_op_def exact_op_def bounded_Inr trunc_div_def)
next
  case False
  then show ?thesis
    by (auto simp: apply_op_def exact_op_def bounded_Inr trunc_div_quot)
qed

lemma evaluate_exact: "evaluate e env = Inr x \<longleftrightarrow> exact e env = Some x \<and> within e env"
proof (induction e arbitrary: x)
  case (EInt i)
  then show ?case by simp
next
  case (EName w)
  then show ?case by (auto split: option.splits)
next
  case (ENeg e)
  then show ?case by (auto simp: bindR_Inr_iff bounded_Inr fits_def)
next
  case (EBin c l r)
  have "evaluate (EBin c l r) env = Inr x \<longleftrightarrow>
      (\<exists>a. (exact l env = Some a \<and> within l env) \<and>
        (\<exists>b. (exact r env = Some b \<and> within r env) \<and> exact_op c a b = Some x \<and> \<bar>x\<bar> \<le> INT_LIMIT))"
    by (simp add: bindR_Inr_iff EBin.IH apply_op_exact)
  also have "\<dots> \<longleftrightarrow> exact (EBin c l r) env = Some x \<and> within (EBin c l r) env"
    by (cases "exact l env"; cases "exact r env") (auto simp: fits_def)
  finally show ?case .
qed

lemma evaluate_fits:
  "evaluate e env = Inr x \<Longrightarrow> expr_ok e \<Longrightarrow> \<forall>w v. env w = Some v \<longrightarrow> \<bar>v\<bar> \<le> INT_LIMIT \<Longrightarrow>
     \<bar>x\<bar> \<le> INT_LIMIT"
  by (cases e) (auto simp: INT_LIMIT_def bindR_Inr_iff bounded_Inr apply_op_exact split: option.splits)

lemma evaluate_no_KeyError:
  "set (preorder e) \<subseteq> dom env \<Longrightarrow> evaluate e env \<noteq> Inl (KeyError w)"
proof (induction e)
  case (EBin c l r)
  then show ?case
    by (auto simp: bindR_Inl_iff apply_op_def bounded_def trunc_div_def Let_def split: if_splits)
qed (auto simp: bindR_Inl_iff bounded_def split: option.splits if_splits)

section \<open>Evaluating a block\<close>

lemma coerce_operand_Inr:
  "coerce_operand w v = Inr i \<Longrightarrow> \<bar>i\<bar> \<le> INT_LIMIT \<and> \<not> is_secret_name w"
proof -
  assume a: "coerce_operand w v = Inr i"
  have val: "read_nat ds < 10 ^ length ds" if "list_all is_digit ds" for ds
    using that
  proof (induction ds rule: rev_induct)
    case Nil
    then show ?case by (simp add: read_nat_def)
  next
    case (snoc c ds)
    then have "digit_val c \<le> 9" by (auto simp: is_digit_def)
    with snoc show ?case by (simp add: read_nat_snoc del: digit_val.simps)
  qed
  have small: "int (read_nat ds) \<le> INT_LIMIT" if "list_all is_digit ds" "length ds \<le> 9" for ds
  proof -
    have "(10::nat) ^ length ds \<le> 10 ^ 9" by (rule power_increasing) (use that in auto)
    with val [OF that(1)] have "read_nat ds \<le> 10 ^ 9" by linarith
    then have "int (read_nat ds) \<le> int (10 ^ 9)" by (simp only: of_nat_le_iff)
    then show ?thesis by (simp add: INT_LIMIT_def)
  qed
  from a have sec: "\<not> is_secret_name w" by (auto simp: coerce_operand_def split: if_splits)
  from a sec consider (int) "v = JInt i" "\<bar>i\<bar> \<le> INT_LIMIT"
    | (str) s where "v = JStr s" "is_operand_str s" "i = operand_str_value s"
    by (auto simp: coerce_operand_def bounded_Inr split: json.splits if_splits)
  then have "\<bar>i\<bar> \<le> INT_LIMIT"
  proof cases
    case str
    then show ?thesis
    proof (cases s)
      case (Cons c cs)
      with str small [of cs] small [of s] show ?thesis
        by (auto simp: is_operand_str_def operand_str_value_def Let_def split: if_splits)
    qed (simp add: is_operand_str_def)
  qed simp
  with sec show ?thesis by simp
qed

definition operand_value :: "(string \<rightharpoonup> int) \<Rightarrow> (string \<rightharpoonup> json) \<Rightarrow> string \<Rightarrow> int option" where
  \<comment> \<open>what a name stands for: an earlier result, or a coerced variable\<close>
  "operand_value V vars n =
     (if prefix ''computed.'' n then V n
      else (case vars n of
              None \<Rightarrow> None
            | Some v \<Rightarrow> (case coerce_operand n v of Inl e \<Rightarrow> None | Inr i \<Rightarrow> Some i)))"

lemma coerce_operand_error: "coerce_operand n v = Inl e \<Longrightarrow> \<exists>c. e = ExprError c"
  by (auto simp: coerce_operand_def bounded_def split: if_splits json.splits)

text \<open>The four things one round of the loop does.\<close>

lemma operand_loop_Cons_cases:
  obtains (err) c where
      "operand_loop own V D vars (name # rest) miss env skip = (miss, Inl (ExprError c))"
  | (bind) i where "\<not> is_secret_name name" "operand_value V vars name = Some i"
      "operand_loop own V D vars (name # rest) miss env skip =
         operand_loop own V D vars rest miss (env(name \<mapsto> i)) skip"
  | (earlier) "name \<in> set D" "name \<noteq> own" "V name = None"
      "operand_loop own V D vars (name # rest) miss env skip =
         operand_loop own V D vars rest miss env True"
  | (absent) "vars name = None \<or> vars name = Some JNull"
      "operand_loop own V D vars (name # rest) miss env skip =
         operand_loop own V D vars rest (if name \<in> set miss then miss else miss @ [name]) env True"
proof (cases "is_secret_name name")
  case True
  then show thesis by (intro err) simp
next
  case nsec: False
  show thesis
  proof (cases "prefix ''computed.'' name")
    case True
    show thesis
    proof (cases "V name")
      case None
      then show thesis
        by (cases "name \<in> set D \<and> name \<noteq> own") (use nsec True in \<open>auto intro: err earlier\<close>)
    next
      case (Some i)
      then show thesis by (intro bind [of i]) (use nsec True in \<open>auto simp: operand_value_def\<close>)
    qed
  next
    case False
    show thesis
    proof (cases "vars name = None \<or> vars name = Some JNull")
      case True
      then show thesis by (intro absent) (use nsec False in auto)
    next
      case no: False
      then obtain v where v: "vars name = Some v" "v \<noteq> JNull" by auto
      show thesis
      proof (cases "coerce_operand name v")
        case (Inl e)
        with coerce_operand_error obtain c where "e = ExprError c" by blast
        with Inl v nsec False show thesis by (intro err [of c]) (cases v; simp)
      next
        case (Inr i)
        with v nsec False show thesis
          by (intro bind [of i]) (cases v; simp add: operand_value_def)+
      qed
    qed
  qed
qed

declare operand_loop.simps(2) [simp del]

lemma operand_loop_bound:
  "operand_loop own V D vars ns miss env skip = (m, Inr (env', False)) \<Longrightarrow>
     m = miss \<and> \<not> skip \<and> (\<forall>n\<in>set ns. \<not> is_secret_name n \<and> operand_value V vars n \<noteq> None) \<and>
     (\<forall>n. env' n = (if n \<in> set ns then operand_value V vars n else env n))"
proof (induction ns arbitrary: miss env skip)
  case Nil
  then show ?case by simp
next
  case (Cons name rest)
  from operand_loop_Cons_cases [of own V D vars name rest miss env skip] show ?case
  proof cases
    case (bind i)
    with Cons.prems have *: "operand_loop own V D vars rest miss (env(name \<mapsto> i)) skip = (m, Inr (env', False))"
      by simp
    from Cons.IH [OF *] bind(1,2) show ?thesis by auto
  next
    case earlier
    with Cons.prems Cons.IH show ?thesis by fastforce
  next
    case absent
    with Cons.prems Cons.IH show ?thesis by fastforce
  qed (use Cons.prems in simp)
qed

lemma operand_loop_error:
  "operand_loop own V D vars ns miss env skip = (m, Inl e) \<Longrightarrow> \<exists>c. e = ExprError c"
proof (induction ns arbitrary: miss env skip)
  case (Cons name rest)
  from operand_loop_Cons_cases [of own V D vars name rest miss env skip] show ?case
    by cases (use Cons in auto)
qed simp

lemma operand_loop_missing:
  "operand_loop own V D vars ns miss env skip = (m, r) \<Longrightarrow>
     set miss \<subseteq> set m \<and> (\<forall>n\<in>set m. n \<in> set miss \<or> vars n = None \<or> vars n = Some JNull) \<and>
     (distinct miss \<longrightarrow> distinct m)"
proof (induction ns arbitrary: miss env skip)
  case (Cons name rest)
  from operand_loop_Cons_cases [of own V D vars name rest miss env skip] show ?case
  proof cases
    case absent
    with Cons.prems Cons.IH [of "if name \<in> set miss then miss else miss @ [name]" env True]
    show ?thesis by (auto split: if_splits)
  qed (use Cons in auto)
qed simp

lemma operand_loop_skip:
  "operand_loop own V D vars ns miss env skip = ([], Inr (env', True)) \<Longrightarrow>
     skip \<or> (\<exists>n\<in>set ns. n \<in> set D \<and> n \<noteq> own \<and> V n = None)"
proof (induction ns arbitrary: miss env skip)
  case (Cons name rest)
  from operand_loop_Cons_cases [of own V D vars name rest miss env skip] show ?case
  proof cases
    case absent
    with Cons.prems operand_loop_missing [of own V D vars rest
        "if name \<in> set miss then miss else miss @ [name]" env True]
    show ?thesis by (auto split: if_splits)
  next
    case (bind i)
    with Cons.prems Cons.IH show ?thesis by fastforce
  qed (use Cons.prems in \<open>auto dest: Cons.IH\<close>)
qed simp

lemma evaluate_cong:
  "(\<And>n. n \<in> set (preorder e) \<Longrightarrow> env n = env' n) \<Longrightarrow> evaluate e env = evaluate e env'"
  by (induction e) (auto split: option.splits)

lemma within_cong:
  "(\<And>n. n \<in> set (preorder e) \<Longrightarrow> env n = env' n) \<Longrightarrow>
     exact e env = exact e env' \<and> within e env = within e env'"
  by (induction e) auto

definition solves :: "(string \<rightharpoonup> int) \<Rightarrow> (string \<rightharpoonup> json) \<Rightarrow> json \<Rightarrow> int \<Rightarrow> bool" where
  \<comment> \<open>the entry's expression, read over the integers, has the value \<open>x\<close>\<close>
  "solves V vars entry x \<longleftrightarrow>
     (\<exists>expr tree. jget ''expr'' entry = JStr expr \<and> parse expr = Inr tree \<and>
        (\<forall>n\<in>set (preorder tree). \<not> is_secret_name n) \<and>
        exact tree (operand_value V vars) = Some x \<and> within tree (operand_value V vars) \<and>
        in_range (jget ''min'' entry) (jget ''max'' entry) x)"

lemma preorder_defined: "exact e env = Some x \<Longrightarrow> set (preorder e) \<subseteq> dom env"
  by (induction e arbitrary: x) (auto split: Option.bind_splits)

lemma solves_extend:
  assumes "solves V vars entry x" "\<And>n i. V n = Some i \<Longrightarrow> V' n = Some i"
  shows "solves V' vars entry x"
proof -
  from assms(1) obtain expr tree where t: "jget ''expr'' entry = JStr expr" "parse expr = Inr tree"
    "\<forall>n\<in>set (preorder tree). \<not> is_secret_name n" "exact tree (operand_value V vars) = Some x"
    "within tree (operand_value V vars)" "in_range (jget ''min'' entry) (jget ''max'' entry) x"
    by (auto simp: solves_def)
  have "operand_value V vars n = operand_value V' vars n" if "n \<in> set (preorder tree)" for n
    using preorder_defined [OF t(4)] that assms(2)
    by (auto simp: operand_value_def split: if_splits)
  with within_cong [of tree "operand_value V vars" "operand_value V' vars"] t show ?thesis
    by (auto simp: solves_def)
qed

lemma set_names [simp]: "set (names e) = set (preorder e)"
  by (simp add: names_eq)

lemma entry_result_value:
  assumes "entry_result key entry expr vars st = (m, Inr (Some x))" "jget ''expr'' entry = JStr expr"
  shows "m = ev_missing st \<and> solves (map_of (ev_values st)) vars entry x"
proof -
  from assms(1) obtain tree env where p: "parse expr = Inr tree"
    and l: "operand_loop (computed_name key) (map_of (ev_values st)) (ev_declared st) vars
        (names tree) (ev_missing st) Map.empty False = (m, Inr (env, False))"
    and e: "evaluate tree env = Inr x" and r: "in_range (jget ''min'' entry) (jget ''max'' entry) x"
    by (auto simp: entry_result_def bindR_Inr_iff split: if_splits sum.splits prod.splits)
  note b = operand_loop_bound [OF l]
  with evaluate_cong [of tree env "operand_value (map_of (ev_values st)) vars"] e
  have "evaluate tree (operand_value (map_of (ev_values st)) vars) = Inr x" by simp
  with p r b assms(2) show ?thesis by (auto simp: solves_def evaluate_exact)
qed

lemma entry_result_error:
  assumes "entry_result key entry expr vars st = (m, Inl e)" shows "\<exists>c. e = ExprError c"
proof -
  have "\<exists>c. e = ExprError c"
    if l: "operand_loop own V D vars (names tree) miss Map.empty False = (m', Inr (env, False))"
      and ev: "evaluate tree env = Inl e" for own V D tree miss m' env
  proof (cases e)
    case (KeyError w)
    from operand_loop_bound [OF l] have "set (preorder tree) \<subseteq> dom env" by auto
    with evaluate_no_KeyError ev KeyError show ?thesis by blast
  qed simp
  with assms show ?thesis
    by (auto simp: entry_result_def bindR_Inl_iff dest: operand_loop_error
        split: if_splits sum.splits prod.splits)
qed

lemma entry_result_missing:
  assumes "entry_result key entry expr vars st = (m, r)"
  shows "set (ev_missing st) \<subseteq> set m \<and>
     (\<forall>n\<in>set m. n \<in> set (ev_missing st) \<or> vars n = None \<or> vars n = Some JNull) \<and>
     (distinct (ev_missing st) \<longrightarrow> distinct m)"
  using assms by (auto simp: entry_result_def dest!: operand_loop_missing
      split: if_splits sum.splits prod.splits)

lemma entry_result_skip:
  assumes "entry_result key entry expr vars st = ([], Inr None)"
  shows "\<exists>n\<in>set (ev_declared st). n \<noteq> computed_name key \<and> map_of (ev_values st) n = None"
  using assms by (auto simp: entry_result_def bindR_Inr_iff dest!: operand_loop_skip
      split: if_splits sum.splits prod.splits)

definition entry_key :: "json \<Rightarrow> string option" where
  \<comment> \<open>the name a well-shaped entry binds\<close>
  "entry_key entry =
     (case (jget ''key'' entry, jget ''expr'' entry) of
        (JStr key, JStr expr) \<Rightarrow> Some (computed_name key)
      | _ \<Rightarrow> None)"

definition missing_ok :: "(string \<rightharpoonup> json) \<Rightarrow> eval_state \<Rightarrow> bool" where
  "missing_ok vars st \<longleftrightarrow> distinct (ev_missing st) \<and>
     (\<forall>n\<in>set (ev_missing st). vars n = None \<or> vars n = Some JNull)"

definition values_ok :: "(string \<rightharpoonup> json) \<Rightarrow> json list \<Rightarrow> eval_state \<Rightarrow> bool" where
  "values_ok vars es st \<longleftrightarrow>
     (\<forall>n x. map_of (ev_values st) n = Some x \<longrightarrow>
        (\<exists>e\<in>set es. entry_key e = Some n \<and> solves (map_of (ev_values st)) vars e x))"

definition clean :: "eval_state \<Rightarrow> bool" where
  "clean st \<longleftrightarrow> ev_missing st = [] \<and> ev_errors st = []"

definition complete_ok :: "json list \<Rightarrow> eval_state \<Rightarrow> bool" where
  "complete_ok es st \<longleftrightarrow>
     (clean st \<longrightarrow> set (ev_declared st) \<subseteq> dom (map_of (ev_values st)) \<and>
        (\<forall>e\<in>set es. \<exists>n. entry_key e = Some n \<and> n \<in> dom (map_of (ev_values st))))"

text \<open>One entry: nothing but the missing list, an error or one new value changes.\<close>

lemma eval_entry_cases:
  obtains (shape) k where "entry_key entry = None"
      "eval_entry vars entry st = Inr (st\<lparr>ev_errors := ev_errors st @ [(COMPUTE_SYNTAX, k)]\<rparr>)"
  | (run) key expr m r where "jget ''key'' entry = JStr key" "jget ''expr'' entry = JStr expr"
      "entry_key entry = Some (computed_name key)"
      "entry_result key entry expr vars (st\<lparr>ev_declared := computed_name key # ev_declared st\<rparr>)
         = (m, r)"
      "\<And>v. r = Inr (Some v) \<Longrightarrow> eval_entry vars entry st =
         Inr (st\<lparr>ev_declared := computed_name key # ev_declared st, ev_missing := m,
                ev_values := AList.update (computed_name key) v (ev_values st)\<rparr>)"
      "r = Inr None \<Longrightarrow> eval_entry vars entry st =
         Inr (st\<lparr>ev_declared := computed_name key # ev_declared st, ev_missing := m\<rparr>)"
      "\<And>e. r = Inl e \<Longrightarrow> \<exists>c. eval_entry vars entry st =
         Inr (st\<lparr>ev_declared := computed_name key # ev_declared st, ev_missing := m,
                ev_errors := ev_errors st @ [(c, Some key)]\<rparr>)"
proof (cases "entry_key entry")
  case None
  then show thesis
    by (intro shape [of "case jget ''key'' entry of JStr key \<Rightarrow> Some key | _ \<Rightarrow> None"])
      (auto simp: entry_key_def eval_entry_def split: json.splits)
next
  case (Some n)
  then obtain key expr where k: "jget ''key'' entry = JStr key" "jget ''expr'' entry = JStr expr"
    by (auto simp: entry_key_def split: json.splits)
  obtain m r where er: "entry_result key entry expr vars
      (st\<lparr>ev_declared := computed_name key # ev_declared st\<rparr>) = (m, r)" by force
  show thesis
  proof (rule run [OF k _ er])
    show "entry_key entry = Some (computed_name key)" using k by (simp add: entry_key_def)
    show "\<exists>c. eval_entry vars entry st =
         Inr (st\<lparr>ev_declared := computed_name key # ev_declared st, ev_missing := m,
                ev_errors := ev_errors st @ [(c, Some key)]\<rparr>)" if "r = Inl e" for e
      using entry_result_error [OF er [unfolded that]] k er that by (auto simp: eval_entry_def)
  qed (use k er in \<open>simp_all add: eval_entry_def\<close>)
qed

lemma eval_entry_missing:
  assumes "missing_ok vars st"
  shows "\<exists>st'. eval_entry vars entry st = Inr st' \<and> missing_ok vars st'"
proof (cases rule: eval_entry_cases [of entry vars st])
  case (shape k)
  with assms show ?thesis by (simp add: missing_ok_def)
next
  case (run key expr m r)
  from entry_result_missing [OF run(4)] assms
  have "missing_ok vars (st'\<lparr>ev_missing := m\<rparr>)" for st' by (auto simp: missing_ok_def)
  with run(5-7) show ?thesis
    by (cases r; cases "projr r") (force simp: missing_ok_def)+
qed

lemma map_of_alist_update [simp]: "map_of (AList.update k v xs) = (map_of xs)(k \<mapsto> v)"
  by (rule AList.update_conv')

lemma eval_entry_solves:
  assumes "eval_entry vars entry st = Inr st'" "values_ok vars es st" "complete_ok es st"
    "\<forall>e\<in>set es. entry_key entry = None \<or> entry_key e \<noteq> entry_key entry"
  shows "values_ok vars (es @ [entry]) st' \<and> complete_ok (es @ [entry]) st'"
proof (cases rule: eval_entry_cases [of entry vars st])
  case (shape k)
  with assms show ?thesis by (auto simp: values_ok_def complete_ok_def clean_def)
next
  case (run key expr m r)
  let ?st1 = "st\<lparr>ev_declared := computed_name key # ev_declared st\<rparr>"
  let ?V = "map_of (ev_values st)"
  have fresh: "?V (computed_name key) = None"
  proof (rule ccontr)
    assume "?V (computed_name key) \<noteq> None"
    with assms(2) obtain e where "e \<in> set es" "entry_key e = Some (computed_name key)"
      by (auto simp: values_ok_def)
    with assms(4) run(3) show False by auto
  qed
  note miss = entry_result_missing [OF run(4)]
  show ?thesis
  proof (cases r)
    case (Inl e)
    with run(7) assms(1,2) show ?thesis
      by (force simp: values_ok_def complete_ok_def clean_def)
  next
    case (Inr x)
    show ?thesis
    proof (cases x)
      case None
      with Inr run(6) assms(1)
      have st': "st' = st\<lparr>ev_declared := computed_name key # ev_declared st, ev_missing := m\<rparr>" by simp
      have "\<not> clean st'"
      proof
        assume "clean st'"
        with st' miss have m: "m = []" and c: "clean st" by (auto simp: clean_def)
        from entry_result_skip [OF run(4) [unfolded m Inr None]]
        obtain n where "n \<in> set (ev_declared st)" "?V n = None" by auto
        with assms(3) c show False by (auto simp: complete_ok_def)
      qed
      with st' assms(2) show ?thesis by (auto simp: values_ok_def complete_ok_def)
    next
      case (Some v)
      with Inr run(5) assms(1)
      have st': "st' = st\<lparr>ev_declared := computed_name key # ev_declared st, ev_missing := m,
          ev_values := AList.update (computed_name key) v (ev_values st)\<rparr>" by simp
      from entry_result_value [OF run(4) [unfolded Inr Some] run(2)]
      have m: "m = ev_missing st" and s: "solves ?V vars entry v" by auto
      have ext: "solves (?V(computed_name key \<mapsto> v)) vars e i" if "solves ?V vars e i" for e i
        using that by (rule solves_extend) (use fresh in auto)
      have "values_ok vars (es @ [entry]) st'"
        using assms(2) ext s run(3) by (fastforce simp: values_ok_def st')
      moreover have "complete_ok (es @ [entry]) st'"
        using assms(3) run(3) m by (fastforce simp: complete_ok_def clean_def st')
      ultimately show ?thesis by blast
    qed
  qed
qed

definition distinct_keys :: "json list \<Rightarrow> bool" where
  "distinct_keys es = distinct (List.map_filter entry_key es)"

lemma distinct_keys_snoc:
  "distinct_keys (es @ [e]) \<longleftrightarrow>
     distinct_keys es \<and> (entry_key e = None \<or> (\<forall>e'\<in>set es. entry_key e' \<noteq> entry_key e))"
  by (cases "entry_key e")
    (force simp: distinct_keys_def List.map_filter_def image_iff)+

lemma eval_entries_snoc:
  "eval_entries vars (es @ [e]) st = bindR (eval_entries vars es st) (eval_entry vars e)"
  by (induction es arbitrary: st) (auto simp: bindR_def split: sum.splits)

lemma eval_entries_missing:
  "missing_ok vars st \<Longrightarrow> \<exists>st'. eval_entries vars es st = Inr st' \<and> missing_ok vars st'"
proof (induction es arbitrary: st)
  case (Cons e es)
  with eval_entry_missing [of vars st e] show ?case by fastforce
qed simp

lemma eval_entries_solves:
  "eval_entries vars es init_eval = Inr st \<Longrightarrow> distinct_keys es \<Longrightarrow>
     values_ok vars es st \<and> complete_ok es st"
proof (induction es arbitrary: st rule: rev_induct)
  case Nil
  then show ?case by (auto simp: init_eval_def values_ok_def complete_ok_def)
next
  case (snoc e es)
  then obtain st0 where "eval_entries vars es init_eval = Inr st0" "eval_entry vars e st0 = Inr st"
    by (auto simp: eval_entries_snoc bindR_Inr_iff)
  with snoc eval_entry_solves [of vars e st0 st es] show ?case by (auto simp: distinct_keys_snoc)
qed

text \<open>
  Evaluating a computed block never raises, whatever the stored entries and the
  variables are: in particular no name lookup of the evaluator fails. The names it
  reports missing are listed once each and are really absent from the variables (or null).
\<close>

lemma evaluate_all_returns:
  "\<exists>st. evaluate_all computed vars = Inr st \<and> distinct (ev_missing st) \<and>
     (\<forall>n\<in>set (ev_missing st). vars n = None \<or> vars n = Some JNull)"
proof -
  have "missing_ok vars init_eval" by (simp add: missing_ok_def init_eval_def)
  from eval_entries_missing [OF this, of "as_list computed"]
  show ?thesis by (auto simp: evaluate_all_def missing_ok_def init_eval_def)
qed

text \<open>
  C35. When the entries of a block have different keys, every value it returns belongs to an
  entry and solves it: the entry's expression parses, reads no secret-named operand, and
  has that value in exact integer arithmetic over the variables and the other results,
  with every intermediate result within 32 bits and the result inside the entry's
  min and max. When nothing is missing and no error is reported, every entry has a value.
\<close>

theorem evaluate_all_solves:
  assumes "evaluate_all computed vars = Inr st" "distinct_keys (as_list computed)"
  shows "(\<forall>n x. map_of (ev_values st) n = Some x \<longrightarrow>
            (\<exists>e\<in>set (as_list computed). entry_key e = Some n \<and>
               solves (map_of (ev_values st)) vars e x)) \<and>
         (ev_missing st = [] \<and> ev_errors st = [] \<longrightarrow>
            (\<forall>e\<in>set (as_list computed). \<exists>n x. entry_key e = Some n \<and>
               map_of (ev_values st) n = Some x))"
proof (cases "truthy computed \<and> \<not> is_list computed")
  case True
  with assms(1) show ?thesis by (auto simp: evaluate_all_def init_eval_def)
next
  case False
  with assms(1) have "eval_entries vars (as_list computed) init_eval = Inr st"
    by (simp add: evaluate_all_def)
  from eval_entries_solves [OF this assms(2)] show ?thesis
    by (fastforce simp: values_ok_def complete_ok_def clean_def)
qed

lemma evaluate_all_solves_witness:
  "\<exists>e\<in>set [JDict [(''key'', JStr ''a''), (''expr'', JStr ''device.x*2'')]].
     entry_key e = Some ''computed.a'' \<and> solves (map_of [(''computed.a'', 8)]) [''device.x'' \<mapsto> JInt 4] e 8"
proof -
  let ?C = "JList [JDict [(''key'', JStr ''a''), (''expr'', JStr ''device.x*2'')]]"
  have run: "evaluate_all ?C [''device.x'' \<mapsto> JInt 4]
      = Inr (init_eval\<lparr>ev_values := [(''computed.a'', 8)], ev_declared := [''computed.a'']\<rparr>)"
    by code_simp
  have "distinct_keys (as_list ?C)" by code_simp
  from evaluate_all_solves [OF run this] show ?thesis by simp
qed

text \<open>
  C37. Printing a tree and parsing it back gives the tree: for every well-formed tree within
  the module's limits (nesting, tokens, characters), \<open>parse\<close> returns it from its text with
  the parentheses that precedence and left associativity require and no others.
\<close>

theorem parse_show_expr:
  assumes "expr_ok e" "nesting 0 e \<le> MAX_DEPTH" "length (unparse 0 e) \<le> MAX_TOKENS"
    "length (show_expr e) \<le> MAX_EXPR_LENGTH"
  shows "parse (show_expr e) = Inr e"
proof -
  have "tok_loop (show_expr e) 0 = Inr (unparse 0 e)"
    unfolding show_expr_def using assms(1,3) by (intro tok_loop_show_toks unparse_tok_ok) simp_all
  with assms(4) parse_tokens_unparse [OF expr_ok_ops [OF assms(1)] assms(2)] show ?thesis
    by (simp add: parse_def tokenize_def guardR_def)
qed

lemma parse_show_expr_witness:
  "parse (show_expr (EBin (CHR ''*'') (EBin (CHR ''+'') (EName ''device.x'') (EInt 1)) (ENeg (EInt 2))))
     = Inr (EBin (CHR ''*'') (EBin (CHR ''+'') (EName ''device.x'') (EInt 1)) (ENeg (EInt 2)))"
  by (rule parse_show_expr; code_simp)

text \<open>
  C39. Parsing stops on every text: the recursion of the parser's methods ends within the
  fuel \<open>parse\<close> gives, which depends on the number of tokens only. What it accepts is a
  tree of the grammar: literals of at most nine digits, names of the known namespaces, and
  the five operators.
\<close>

theorem parse_returns:
  "(\<exists>r. parse_tokens ts = Some r) \<and> (\<forall>e. parse s = Inr e \<longrightarrow> expr_ok e)"
  using parse_tokens_returns parse_expr_ok by blast

lemma parse_returns_witness: "expr_ok (EBin (CHR ''-'') (EInt 7) (EName ''cpe.slot''))"
proof -
  have "parse ''7 - cpe.slot'' = Inr (EBin (CHR ''-'') (EInt 7) (EName ''cpe.slot''))" by code_simp
  with parse_returns [of "[]" "''7 - cpe.slot''"] show ?thesis by blast
qed

text \<open>
  The evaluator is exact integer arithmetic with division toward zero, cut off at 32
  bits: it returns a value exactly when the exact value exists and every intermediate
  result is at most 2147483647 in size, and then it returns that value.
\<close>

lemma evaluate_iff_exact: "evaluate e env = Inr x \<longleftrightarrow> exact e env = Some x \<and> within e env"
  by (rule evaluate_exact)

lemma evaluate_all_returns_witness:
  "\<exists>st. evaluate_all (JList [JDict [(''key'', JStr ''a''), (''expr'', JStr ''cpe.x'')]]) Map.empty = Inr st
     \<and> ev_missing st = [''cpe.x''] \<and> distinct (ev_missing st)"
proof -
  let ?C = "JList [JDict [(''key'', JStr ''a''), (''expr'', JStr ''cpe.x'')]]"
  have run: "evaluate_all ?C Map.empty
      = Inr (init_eval\<lparr>ev_missing := [''cpe.x''], ev_declared := [''computed.a'']\<rparr>)" by code_simp
  from evaluate_all_returns [of ?C Map.empty] run show ?thesis by auto
qed

end
