(* ===== verification/Playbook_Tokens.thy ===== *)
theory Playbook_Tokens
  imports Playbook_Expr
begin

text \<open>
  The one rule for "this is a token": \<open>TOKEN_SHAPE\<close> of \<open>utils/playbook_expr.py\<close>, shared by
  the save-time checks of \<open>schemas/playbook.py\<close> and by the renderer, with \<open>strings\<close>, which
  lists every string of a JSON-shaped value. A text is cut into literal characters and
  token bodies; \<open>finditer\<close> is the list of bodies, \<open>sub\<close> replaces each token.
\<close>

section \<open>Every string of a value\<close>

fun strings :: "json \<Rightarrow> string list" where
  "strings (JStr s) = [s]"
| "strings (JDict d) = concat (map (\<lambda>p. strings (snd p)) d)"
| "strings (JList xs) = concat (map strings xs)"
| "strings v = []"

section \<open>Tokens of a text\<close>

datatype seg = Lit char | Tok string

definition TOKEN_BODY_MAX :: nat where "TOKEN_BODY_MAX = 512"

definition is_body_char :: "char \<Rightarrow> bool" where
  "is_body_char c \<longleftrightarrow> c \<noteq> CHR ''{'' \<and> c \<noteq> CHR ''}'' \<and> c \<noteq> CHR 0x0A"

definition token_at :: "string \<Rightarrow> (string \<times> string) option" where
  \<comment> \<open>a match at the start of the text: the body and what follows. The body takes every
      character of its class: one fewer would have to be followed by a brace.\<close>
  "token_at s =
     (if prefix ''{{'' s then
        (let r = drop 2 s; body = takeWhile is_body_char r; rest = dropWhile is_body_char r
         in if length body \<le> TOKEN_BODY_MAX \<and> prefix ''}}'' rest then Some (body, drop 2 rest) else None)
      else None)"

lemma token_at_shape:
  "token_at s = Some (body, rest) \<Longrightarrow>
     s = ''{{'' @ body @ ''}}'' @ rest \<and> list_all is_body_char body \<and> length body \<le> TOKEN_BODY_MAX"
proof -
  assume a: "token_at s = Some (body, rest)"
  then obtain r where s: "s = ''{{'' @ r" and b: "body = takeWhile is_body_char r"
    and l: "length body \<le> TOKEN_BODY_MAX" and p: "prefix ''}}'' (dropWhile is_body_char r)"
    and d: "rest = drop 2 (dropWhile is_body_char r)"
    by (auto simp: token_at_def Let_def prefix_def split: if_splits)
  from p d have "dropWhile is_body_char r = ''}}'' @ rest" by (auto simp: prefix_def)
  then have "r = body @ ''}}'' @ rest" using b takeWhile_dropWhile_id [of is_body_char r] by simp
  moreover have "list_all is_body_char body" using b by (auto simp: list_all_iff dest: set_takeWhileD)
  ultimately show ?thesis using s l by simp
qed

lemma token_at_intro:
  "list_all is_body_char body \<Longrightarrow> length body \<le> TOKEN_BODY_MAX \<Longrightarrow>
     token_at (''{{'' @ body @ ''}}'' @ rest) = Some (body, rest)"
proof -
  assume a: "list_all is_body_char body" "length body \<le> TOKEN_BODY_MAX"
  have stop: "\<not> is_body_char (CHR ''}'')" by (simp add: is_body_char_def)
  have "takeWhile is_body_char (body @ ''}}'' @ rest) = body"
    using a(1) stop by (simp add: takeWhile_append list_all_iff)
  moreover have "dropWhile is_body_char (body @ ''}}'' @ rest) = ''}}'' @ rest"
    using a(1) stop by (simp add: dropWhile_append list_all_iff)
  ultimately show ?thesis using a(2) by (simp add: token_at_def)
qed

function (sequential) segments :: "string \<Rightarrow> seg list" where
  "segments [] = []"
| "segments (c # cs) =
     (case token_at (c # cs) of
        Some (body, rest) \<Rightarrow> Tok body # segments rest
      | None \<Rightarrow> Lit c # segments cs)"
  by pat_completeness auto
termination
  by (relation "measure length") (auto dest: token_at_shape)

fun show_seg :: "seg \<Rightarrow> string" where
  "show_seg (Lit c) = [c]"
| "show_seg (Tok body) = ''{{'' @ body @ ''}}''"

fun seg_bodies :: "seg list \<Rightarrow> string list" where
  "seg_bodies [] = []"
| "seg_bodies (Lit c # ss) = seg_bodies ss"
| "seg_bodies (Tok b # ss) = b # seg_bodies ss"

definition token_bodies :: "string \<Rightarrow> string list" where
  \<comment> \<open>\<open>[m.group("body") for m in TOKEN_SHAPE.finditer(s)]\<close>\<close>
  "token_bodies s = seg_bodies (segments s)"

definition token_sub :: "(string \<Rightarrow> string) \<Rightarrow> string \<Rightarrow> string" where
  \<comment> \<open>\<open>TOKEN_SHAPE.sub(lambda m: f(m.group("body")), s)\<close>\<close>
  "token_sub f s = concat (map (\<lambda>g. case g of Lit c \<Rightarrow> [c] | Tok b \<Rightarrow> f b) (segments s))"

lemma concat_segments: "concat (map show_seg (segments s)) = s"
proof (induction s rule: segments.induct)
  case (2 c cs)
  then show ?case by (auto split: option.splits dest: token_at_shape)
qed simp

lemma segments_body_ok: "Tok b \<in> set (segments s) \<Longrightarrow> list_all is_body_char b \<and> length b \<le> TOKEN_BODY_MAX"
  by (induction s rule: segments.induct) (auto split: option.splits dest: token_at_shape)

lemma token_sub_none: "token_bodies s = [] \<Longrightarrow> token_sub f s = s"
proof -
  have "seg_bodies ss = [] \<Longrightarrow> concat (map (\<lambda>g. case g of Lit c \<Rightarrow> [c] | Tok b \<Rightarrow> f b) ss)
      = concat (map show_seg ss)" for ss
    by (induction ss rule: seg_bodies.induct) auto
  moreover assume "token_bodies s = []"
  ultimately show ?thesis by (simp add: token_sub_def token_bodies_def concat_segments)
qed

lemma segments_token:
  "list_all is_body_char body \<Longrightarrow> length body \<le> TOKEN_BODY_MAX \<Longrightarrow>
     segments (''{{'' @ body @ ''}}'' @ rest) = Tok body # segments rest"
  using token_at_intro [of body rest] by (simp add: append_Cons)

lemma set_seg_bodies: "b \<in> set (seg_bodies ss) \<longleftrightarrow> Tok b \<in> set ss"
  by (induction ss rule: seg_bodies.induct) auto

section \<open>Searching a text\<close>

definition re_search :: "(string \<Rightarrow> bool) \<Rightarrow> string \<Rightarrow> bool" where
  \<comment> \<open>\<open>re.search\<close>: a match somewhere\<close>
  "re_search m s = list_ex m (suffixes s)"

end
