(* ===== verification/Isp_Models.thy ===== *)
theory Isp_Models
  imports Prelude
begin

text \<open>
  The closed sets and the service life cycle of \<open>models/isp.py\<close>: job statuses, phases,
  run modes, triggers, the canonical playbook purposes, and the status machine
  behind the per-purpose actions. A purpose is a free string, as in the code: tenants
  define their own beside the canonical ones.
\<close>

section \<open>Statuses, phases, purposes\<close>

datatype client_service_status = PENDING_INSTALL | ACTIVE | SUSPENDED | SVC_CANCELLED

datatype job_status =
    QUEUED | RUNNING | SUCCEEDED | FAILED | ROLLED_BACK | CANCELLED
  | PENDING_INFORM | PENDING_MANUAL

datatype run_mode = AUTOMATIC | GUIDED

datatype trigger = USER | WORKFLOW | API

datatype phase = PRECONDITIONS | CONFIGURATION | VERIFICATION | ROLLBACK

fun phase_rank :: "phase \<Rightarrow> nat" where
  "phase_rank PRECONDITIONS = 0"
| "phase_rank CONFIGURATION = 1"
| "phase_rank VERIFICATION = 2"
| "phase_rank ROLLBACK = 3"

instantiation phase :: linorder
begin

definition less_eq_phase :: "phase \<Rightarrow> phase \<Rightarrow> bool" where
  "less_eq_phase p q \<longleftrightarrow> phase_rank p \<le> phase_rank q"

definition less_phase :: "phase \<Rightarrow> phase \<Rightarrow> bool" where
  "less_phase p q \<longleftrightarrow> phase_rank p < phase_rank q"

instance
proof
  fix p q :: phase
  show "p \<le> q \<Longrightarrow> q \<le> p \<Longrightarrow> p = q"
    by (cases p; cases q) (simp_all add: less_eq_phase_def)
qed (auto simp: less_eq_phase_def less_phase_def)

end

definition PROVISIONING_PHASES :: "phase list" where
  "PROVISIONING_PHASES = [PRECONDITIONS, CONFIGURATION, VERIFICATION, ROLLBACK]"

definition PURPOSE_ACTIVATION :: string where "PURPOSE_ACTIVATION = ''ACTIVATION''"
definition PURPOSE_SUSPENSION :: string where "PURPOSE_SUSPENSION = ''SUSPENSION''"
definition PURPOSE_REACTIVATION :: string where "PURPOSE_REACTIVATION = ''REACTIVATION''"
definition PURPOSE_DEPROVISION :: string where "PURPOSE_DEPROVISION = ''DEPROVISION''"
definition PURPOSE_CPE_SWAP :: string where "PURPOSE_CPE_SWAP = ''CPE_SWAP''"
definition PURPOSE_BOOST :: string where "PURPOSE_BOOST = ''BOOST''"
definition PURPOSE_BOOST_END :: string where "PURPOSE_BOOST_END = ''BOOST_END''"

lemmas purpose_defs = PURPOSE_ACTIVATION_def PURPOSE_SUSPENSION_def PURPOSE_REACTIVATION_def
  PURPOSE_DEPROVISION_def PURPOSE_CPE_SWAP_def PURPOSE_BOOST_def PURPOSE_BOOST_END_def

definition CANONICAL_PLAYBOOK_PURPOSES :: "string list" where
  "CANONICAL_PLAYBOOK_PURPOSES = [PURPOSE_ACTIVATION, PURPOSE_SUSPENSION, PURPOSE_REACTIVATION,
     PURPOSE_DEPROVISION, PURPOSE_CPE_SWAP, PURPOSE_BOOST, PURPOSE_BOOST_END]"

definition TEARDOWN_PURPOSES :: "string list" where
  "TEARDOWN_PURPOSES = [PURPOSE_SUSPENSION, PURPOSE_DEPROVISION]"

definition purpose_ok :: "string \<Rightarrow> bool" where
  \<comment> \<open>\<open>PLAYBOOK_PURPOSE_PATTERN\<close>: a capital, then at most 49 capitals, digits, underscores\<close>
  "purpose_ok s =
     (case s of
        [] \<Rightarrow> False
      | c # cs \<Rightarrow> is_upper c \<and> length cs \<le> 49 \<and>
          list_all (\<lambda>d. is_upper d \<or> is_digit d \<or> d = CHR ''_'') cs)"

section \<open>The life cycle of a service\<close>

definition PURPOSE_TO_STATUS :: "string \<Rightarrow> client_service_status option option" where
  \<comment> \<open>the outer option is the key's absence, the inner one the value \<open>None\<close>\<close>
  "PURPOSE_TO_STATUS = map_of
     [(PURPOSE_ACTIVATION, None), (PURPOSE_SUSPENSION, Some SUSPENDED),
      (PURPOSE_REACTIVATION, Some ACTIVE), (PURPOSE_DEPROVISION, Some SVC_CANCELLED),
      (PURPOSE_CPE_SWAP, None), (PURPOSE_BOOST, None), (PURPOSE_BOOST_END, None)]"

fun ALLOWED_TRANSITIONS :: "client_service_status \<Rightarrow> client_service_status list" where
  "ALLOWED_TRANSITIONS PENDING_INSTALL = [ACTIVE, SVC_CANCELLED]"
| "ALLOWED_TRANSITIONS ACTIVE = [SUSPENDED, SVC_CANCELLED]"
| "ALLOWED_TRANSITIONS SUSPENDED = [ACTIVE, SVC_CANCELLED]"
| "ALLOWED_TRANSITIONS SVC_CANCELLED = []"

definition client_service_status_of :: "string \<Rightarrow> client_service_status option" where
  \<comment> \<open>\<open>ClientServiceStatus(value)\<close>, \<open>None\<close> for the \<open>ValueError\<close>\<close>
  "client_service_status_of = map_of
     [(''PENDING_INSTALL'', PENDING_INSTALL), (''ACTIVE'', ACTIVE), (''SUSPENDED'', SUSPENDED),
      (''CANCELLED'', SVC_CANCELLED)]"

definition replace_char :: "char \<Rightarrow> char \<Rightarrow> string \<Rightarrow> string" where
  "replace_char a b s = map (\<lambda>c. if c = a then b else c) s"

definition purpose_key :: "string \<Rightarrow> string" where
  \<comment> \<open>strip, upper, blanks and hyphens to underscores\<close>
  "purpose_key s = replace_char (CHR ''-'') (CHR ''_'') (replace_char (CHR '' '') (CHR ''_'')
     (str_upper (str_strip s)))"

definition purpose_allowed :: "string \<Rightarrow> client_service_status \<Rightarrow> bool" where
  \<comment> \<open>the five cases, on a normalised purpose and a known status\<close>
  "purpose_allowed key status =
     (if key = PURPOSE_ACTIVATION then status = PENDING_INSTALL
      else if key = PURPOSE_REACTIVATION then status = SUSPENDED
      else if key \<in> set [PURPOSE_CPE_SWAP, PURPOSE_BOOST, PURPOSE_BOOST_END] then status = ACTIVE
      else (case PURPOSE_TO_STATUS key of
              None \<Rightarrow> True
            | Some None \<Rightarrow> False
            | Some (Some target) \<Rightarrow> target \<in> set (ALLOWED_TRANSITIONS status)))"

definition purpose_allowed_for_status :: "string option \<Rightarrow> string \<Rightarrow> bool" where
  "purpose_allowed_for_status purpose current_status =
     (case purpose of
        None \<Rightarrow> False
      | Some p \<Rightarrow>
          (case client_service_status_of current_status of
             None \<Rightarrow> False
           | Some status \<Rightarrow> purpose_allowed (purpose_key p) status))"

section \<open>What the life cycle allows\<close>

definition next_status :: "string \<Rightarrow> client_service_status \<Rightarrow> client_service_status" where
  \<comment> \<open>the status after an allowed action: the purpose's target, when it has one\<close>
  "next_status key status =
     (case PURPOSE_TO_STATUS key of Some (Some target) \<Rightarrow> target | _ \<Rightarrow> status)"

inductive lifecycle :: "client_service_status \<Rightarrow> client_service_status \<Rightarrow> bool" where
  lifecycle_refl: "lifecycle s s"
| lifecycle_step: "lifecycle s t \<Longrightarrow> purpose_allowed key t \<Longrightarrow> lifecycle s (next_status key t)"

lemma purpose_allowed_target:
  "purpose_allowed key s \<Longrightarrow> PURPOSE_TO_STATUS key = Some (Some t) \<Longrightarrow> t \<in> set (ALLOWED_TRANSITIONS s)"
  by (cases s) (auto simp: purpose_allowed_def PURPOSE_TO_STATUS_def purpose_defs split: if_splits)

lemma purpose_allowed_no_install:
  "purpose_allowed key PENDING_INSTALL \<Longrightarrow> next_status key PENDING_INSTALL \<in> {PENDING_INSTALL, SVC_CANCELLED}"
  by (auto simp: purpose_allowed_def next_status_def PURPOSE_TO_STATUS_def purpose_defs
      split: if_splits)

lemma next_status_cancelled: "purpose_allowed key SVC_CANCELLED \<Longrightarrow> next_status key SVC_CANCELLED = SVC_CANCELLED"
  by (auto simp: purpose_allowed_def next_status_def PURPOSE_TO_STATUS_def purpose_defs
      split: if_splits option.splits)

lemma lifecycle_closed:
  assumes "lifecycle s t"
  shows "(s = SVC_CANCELLED \<longrightarrow> t = SVC_CANCELLED) \<and>
    (s = PENDING_INSTALL \<longrightarrow> t \<in> {PENDING_INSTALL, SVC_CANCELLED})"
  using assms
proof (induction rule: lifecycle.induct)
  case (lifecycle_step s t key)
  then show ?case
    using purpose_allowed_no_install [of key] next_status_cancelled [of key] by auto
qed simp

lemma canonical_not_cancelled:
  "key \<in> set CANONICAL_PLAYBOOK_PURPOSES \<Longrightarrow> \<not> purpose_allowed key SVC_CANCELLED"
  by (auto simp: CANONICAL_PLAYBOOK_PURPOSES_def purpose_allowed_def PURPOSE_TO_STATUS_def purpose_defs)

text \<open>
  No sequence of allowed life-cycle actions revives a cancelled service or makes a
  service that was never installed active: from CANCELLED only CANCELLED is reachable, from
  PENDING_INSTALL only itself and CANCELLED. No canonical purpose is allowed on a
  cancelled service at all.
\<close>

lemma lifecycle_terminal:
  "(lifecycle SVC_CANCELLED t \<longleftrightarrow> t = SVC_CANCELLED) \<and>
   (lifecycle PENDING_INSTALL t \<longleftrightarrow> t = PENDING_INSTALL \<or> t = SVC_CANCELLED) \<and>
   list_all (\<lambda>key. \<not> purpose_allowed_for_status (Some key) ''CANCELLED'') CANONICAL_PLAYBOOK_PURPOSES"
proof (intro conjI)
  show "lifecycle SVC_CANCELLED t \<longleftrightarrow> t = SVC_CANCELLED"
    using lifecycle_closed [of SVC_CANCELLED t] lifecycle_refl by auto
  have "lifecycle PENDING_INSTALL (next_status PURPOSE_DEPROVISION PENDING_INSTALL)"
    by (rule lifecycle_step [OF lifecycle_refl])
      (simp add: purpose_allowed_def PURPOSE_TO_STATUS_def purpose_defs)
  then have "lifecycle PENDING_INSTALL SVC_CANCELLED"
    by (simp add: next_status_def PURPOSE_TO_STATUS_def purpose_defs)
  then show "lifecycle PENDING_INSTALL t \<longleftrightarrow> t = PENDING_INSTALL \<or> t = SVC_CANCELLED"
    using lifecycle_closed [of PENDING_INSTALL t] lifecycle_refl by auto
  show "list_all (\<lambda>key. \<not> purpose_allowed_for_status (Some key) ''CANCELLED'') CANONICAL_PLAYBOOK_PURPOSES"
    by code_simp
qed

end
