(* ===== verification/Playbook_Definition.thy ===== *)
theory Playbook_Definition
  imports Playbook_Tokens Isp_Models
begin

text \<open>
  Stored playbook definitions, as \<open>schemas/playbook.py\<close> reads them: the normalizer that
  turns a legacy \<open>{steps, rollback}\<close> definition into the four phases, the step list a job
  executes, the save-time warnings and the masks of sensitive values. A definition is the
  JSON value of its row.

  \<open>canon\<close>, an argument of the functions that need it, is what pydantic does with one step:
  validate it and dump it with its defaults (\<open>None\<close> when validation fails).
\<close>

datatype def_exn =
    LEGACY_STEPS_CONFLICT
  | TypeError

section \<open>Constants\<close>

fun PHASE_KEYS :: "phase \<Rightarrow> string" where
  "PHASE_KEYS PRECONDITIONS = ''preconditions''"
| "PHASE_KEYS CONFIGURATION = ''configuration''"
| "PHASE_KEYS VERIFICATION = ''verification''"
| "PHASE_KEYS ROLLBACK = ''rollback''"

definition FORWARD_PHASE_KEYS :: "string list" where
  "FORWARD_PHASE_KEYS = [''preconditions'', ''configuration'', ''verification'']"

definition SESSION_PROBE_STEP :: string where "SESSION_PROBE_STEP = ''__session__''"

definition SESSION_PROBE_LABEL :: string where
  \<comment> \<open>with the letter o-acute as its code point\<close>
  "SESSION_PROBE_LABEL = ''Conexi'' @ [CHR 0xF3] @ ''n con el equipo''"

definition CLI_DRIVERS :: "json list" where
  "CLI_DRIVERS = [JStr ''ssh'', JStr ''telnet'']"

definition NETWORK_DRIVERS :: "json list" where
  "NETWORK_DRIVERS = [JStr ''ssh'', JStr ''telnet'', JStr ''http'', JStr ''tr069'', JStr ''connection_request'']"

definition NO_UNDO_DRIVERS :: "json list" where
  "NO_UNDO_DRIVERS = [JStr ''simulator'', JStr ''ping'', JStr ''connection_request'']"

definition MANUAL_DRIVER :: string where "MANUAL_DRIVER = ''manual''"

definition SHARED_DEVICE_WAIT_MAX_SECONDS :: int where "SHARED_DEVICE_WAIT_MAX_SECONDS = 120"

definition SECRET_ALPHABET :: string where
  "SECRET_ALPHABET = filter (\<lambda>c. c \<notin> set ''0O1lI'')
     ''ABCDEFGHIJKLMNOPQRSTUVWXYZabcdefghijklmnopqrstuvwxyz0123456789''"

section \<open>Normalizing a purpose\<close>

definition normalize_purpose :: "string \<Rightarrow> string option" where
  \<comment> \<open>\<open>None\<close> is the \<open>ValueError\<close>\<close>
  "normalize_purpose v = (if purpose_ok (purpose_key v) then Some (purpose_key v) else None)"

section \<open>The legacy normalizer\<close>

fun py_iter :: "json \<Rightarrow> def_exn + json list" where
  \<comment> \<open>\<open>for x in v\<close>\<close>
  "py_iter (JList xs) = Inr xs"
| "py_iter (JStr s) = Inr (map (\<lambda>c. JStr [c]) s)"
| "py_iter (JDict d) = Inr (map (\<lambda>p. JStr (fst p)) d)"
| "py_iter v = Inl TypeError"

definition or_empty :: "json \<Rightarrow> json" where
  \<comment> \<open>\<open>v or []\<close>\<close>
  "or_empty v = (if truthy v then v else JList [])"

fun hashable :: "json \<Rightarrow> bool" where
  "hashable (JList xs) = False"
| "hashable (JDict d) = False"
| "hashable v = True"

fun py_str :: "json \<Rightarrow> string" where
  \<comment> \<open>\<open>str(v)\<close> of a value that can be a member of a set\<close>
  "py_str (JStr s) = s"
| "py_str (JInt i) = show_int i"
| "py_str (JFloat s) = s"
| "py_str (JBool b) = (if b then ''True'' else ''False'')"
| "py_str v = ''None''"

definition drop_keys :: "string list \<Rightarrow> dict \<Rightarrow> dict" where
  \<comment> \<open>\<open>{k: v for k, v in d.items() if k not in ks}\<close>\<close>
  "drop_keys ks d = filter (\<lambda>p. fst p \<notin> set ks) d"

definition canonical_steps :: "(json \<Rightarrow> json option) \<Rightarrow> json \<Rightarrow> json" where
  "canonical_steps canon steps =
     (case py_iter steps of
        Inl e \<Rightarrow> steps
      | Inr xs \<Rightarrow> (case those (map canon xs) of None \<Rightarrow> steps | Some ys \<Rightarrow> JList ys))"

definition rollback_name :: "json \<Rightarrow> nat \<Rightarrow> json" where
  \<comment> \<open>the candidate of round \<open>n\<close> of the loop in \<open>unique\<close>\<close>
  "rollback_name name n =
     (if n = 1 then name
      else if n = 2 then JStr (py_str name @ '' (rollback)'')
      else JStr (py_str name @ '' (rollback '' @ show_nat (n - 1) @ '')''))"

fun unique_loop :: "json list \<Rightarrow> json \<Rightarrow> nat \<Rightarrow> nat \<Rightarrow> json option" where
  \<comment> \<open>\<open>while candidate in used\<close>, with fuel; \<open>unique_loop_enough\<close> shows that it never runs out\<close>
  "unique_loop used name n 0 = None"
| "unique_loop used name n (Suc fuel) =
     (if rollback_name name n \<in> set used then unique_loop used name (Suc n) fuel
      else Some (rollback_name name n))"

definition unique :: "json list \<Rightarrow> json \<Rightarrow> def_exn + json" where
  "unique used name =
     (if \<not> hashable name then Inl TypeError
      else Inr (the (unique_loop used name 1 (Suc (length used)))))"

fun name_rollback :: "(json \<times> dict) list \<Rightarrow> json list \<Rightarrow> def_exn + json list" where
  \<comment> \<open>each compensating step with its new name, the names in \<open>used\<close> being taken\<close>
  "name_rollback [] used = Inr []"
| "name_rollback ((name, body) # rest) used =
     bindR (unique used name) (\<lambda>c.
     bindR (name_rollback rest (c # used)) (\<lambda>out.
       Inr (JDict (dput ''name'' c body) # out)))"

definition is_dict_list :: "json list \<Rightarrow> dict list" where
  \<comment> \<open>\<open>[s for s in xs if isinstance(s, dict)]\<close>\<close>
  "is_dict_list xs = map as_dict (filter is_dict xs)"

definition on_failure_rollback :: "dict list \<Rightarrow> def_exn + (json \<times> dict) list" where
  \<comment> \<open>the comprehension over \<open>reversed(steps)\<close> and each one's \<open>on_failure\<close>\<close>
  "on_failure_rollback steps =
     foldr (\<lambda>s acc. bindR (py_iter (or_empty (dget ''on_failure'' s))) (\<lambda>comps.
             bindR acc (\<lambda>out.
               Inr (map (\<lambda>comp. (dget ''name'' comp,
                        dput ''undoes'' (dget ''name'' s) (drop_keys [''on_failure''] comp)))
                    (is_dict_list comps) @ out))))
       (rev steps) (Inr [])"

definition plain_rollback :: "dict \<Rightarrow> def_exn + (json \<times> dict) list" where
  "plain_rollback d =
     bindR (py_iter (or_empty (dget ''rollback'' d))) (\<lambda>rs.
       Inr (map (\<lambda>r. (dget ''name'' r, r)) (is_dict_list rs)))"

definition set_default :: "string \<Rightarrow> dict \<Rightarrow> dict" where
  \<comment> \<open>\<open>out.setdefault(key, [])\<close>\<close>
  "set_default k d = (if k \<in> fst ` set d then d else d @ [(k, JList [])])"

definition legacy_definition :: "dict \<Rightarrow> json \<Rightarrow> def_exn + json" where
  \<comment> \<open>the conversion, once \<open>steps\<close> is known to be given and \<open>configuration\<close> not to be\<close>
  "legacy_definition d raw =
     bindR (py_iter raw) (\<lambda>xs.
       (let steps = is_dict_list xs;
            out = drop_keys [''steps'', ''rollback''] d;
            cfg = map (drop_keys [''on_failure'']) steps;
            used = map (dget ''name'') cfg
        in guardR (\<not> list_all hashable used) TypeError
             (bindR (if list_ex (\<lambda>s. truthy (dget ''on_failure'' s)) steps
                     then on_failure_rollback steps else plain_rollback d) (\<lambda>todo.
              bindR (name_rollback todo used) (\<lambda>rollback.
                Inr (JDict (fold set_default [''preconditions'', ''verification'', ''outputs'', ''secrets'']
                  (dput ''rollback'' (JList rollback)
                    (dput ''configuration'' (JList (map JDict cfg)) out)))))))))"

definition normalize_definition :: "(json \<Rightarrow> json option) \<Rightarrow> json \<Rightarrow> def_exn + json" where
  "normalize_definition canon v =
     (case v of
        JDict d \<Rightarrow>
          (let steps = dget ''steps'' d
           in if dget ''configuration'' d \<noteq> JNull then
                (if truthy steps \<and> canonical_steps canon steps \<noteq>
                      canonical_steps canon (dget ''configuration'' d)
                 then Inl LEGACY_STEPS_CONFLICT
                 else Inr (JDict (drop_keys [''steps''] d)))
              else if steps = JNull then Inr v
              else legacy_definition d steps)
      | _ \<Rightarrow> Inr v)"

section \<open>The steps of a job\<close>

definition phase_steps :: "json \<Rightarrow> string \<Rightarrow> json list" where
  \<comment> \<open>\<open>d.get(key) or []\<close>\<close>
  "phase_steps d key = as_list (jget key d)"

definition cli_steps :: "json \<Rightarrow> json list" where
  \<comment> \<open>the configuration and verification steps sent over a command line\<close>
  "cli_steps d = filter (\<lambda>s. jget ''driver'' s \<in> set CLI_DRIVERS)
     (concat (map (phase_steps d) [''configuration'', ''verification'']))"

definition session_probe :: "json \<Rightarrow> json" where
  "session_probe d =
     JDict [(''name'', JStr SESSION_PROBE_STEP), (''label'', JStr SESSION_PROBE_LABEL),
       (''driver'', (case cli_steps d of s # _ \<Rightarrow> jget ''driver'' s | [] \<Rightarrow> JStr ''ssh'')),
       (''template'', JStr ''''), (''timeout_seconds'', JInt 30)]"

definition job_steps :: "(json \<Rightarrow> json option) \<Rightarrow> json \<Rightarrow> phase option \<Rightarrow> bool \<Rightarrow> def_exn + json list" where
  "job_steps canon definition ph probe =
     bindR (normalize_definition canon (if truthy definition then definition else JDict [])) (\<lambda>d.
       (case ph of
          None \<Rightarrow> Inr (concat (map (phase_steps d) FORWARD_PHASE_KEYS))
        | Some p \<Rightarrow>
            Inr ((if probe \<and> p = PRECONDITIONS then [session_probe d] else []) @
                 phase_steps d (PHASE_KEYS p))))"

section \<open>The names given to rollback steps\<close>

lemma show_nat_inj [simp]: "show_nat m = show_nat n \<longleftrightarrow> m = n"
  by (metis read_show_nat)

lemma rollback_name_inj:
  "rollback_name name m = rollback_name name n \<Longrightarrow> 1 \<le> m \<Longrightarrow> 1 \<le> n \<Longrightarrow> m = n"
  by (cases name) (auto simp: rollback_name_def split: if_splits)

lemma unique_loop_None:
  "unique_loop used name n fuel = None \<longleftrightarrow> (\<forall>k < fuel. rollback_name name (n + k) \<in> set used)"
proof (induction fuel arbitrary: n)
  case (Suc fuel)
  have "(\<forall>k < Suc fuel. rollback_name name (n + k) \<in> set used) \<longleftrightarrow>
      rollback_name name n \<in> set used \<and> (\<forall>k < fuel. rollback_name name (Suc n + k) \<in> set used)"
    by (simp add: All_less_Suc2)
  with Suc.IH [of "Suc n"] show ?case by simp
qed simp

lemma unique_loop_enough: "\<exists>c. unique_loop used name 1 (Suc (length used)) = Some c"
proof (rule ccontr)
  assume "\<nexists>c. unique_loop used name 1 (Suc (length used)) = Some c"
  then have "unique_loop used name 1 (Suc (length used)) = None" by simp
  then have "(\<lambda>k. rollback_name name (1 + k)) ` {..< Suc (length used)} \<subseteq> set used"
    by (auto simp only: unique_loop_None lessThan_iff)
  moreover have "inj_on (\<lambda>k. rollback_name name (1 + k)) {..< Suc (length used)}"
    by (auto intro!: inj_onI dest: rollback_name_inj)
  ultimately have "Suc (length used) \<le> card (set used)"
    using card_image card_lessThan card_mono finite_set by metis
  with card_length [of used] show False by simp
qed

lemma unique_loop_fresh: "unique_loop used name n fuel = Some c \<Longrightarrow> c \<notin> set used"
  by (induction fuel arbitrary: n) (auto split: if_splits)

lemma unique_fresh: "unique used name = Inr c \<Longrightarrow> c \<notin> set used"
  using unique_loop_enough [of used name] unique_loop_fresh
  by (auto simp: unique_def split: if_splits)

lemma unique_returns: "hashable name \<Longrightarrow> \<exists>c. unique used name = Inr c \<and> unique_loop used name 1 (Suc (length used)) = Some c"
  using unique_loop_enough [of used name] by (auto simp: unique_def)

lemma name_rollback_fresh:
  "name_rollback todo used = Inr out \<Longrightarrow>
     distinct (map (jget ''name'') out) \<and> set (map (jget ''name'') out) \<inter> set used = {}"
proof (induction todo used arbitrary: out rule: name_rollback.induct)
  case (2 name body rest used)
  then obtain c out' where c: "unique used name = Inr c" "name_rollback rest (c # used) = Inr out'"
    "out = JDict (dput ''name'' c body) # out'"
    by (auto simp: bindR_Inr_iff)
  from "2.IH" [OF c(1,2)] unique_fresh [OF c(1)] c(3) show ?case
    by (auto simp: dget_dput)
qed simp

lemma name_rollback_get:
  "name_rollback todo used = Inr out \<Longrightarrow> k \<noteq> ''name'' \<Longrightarrow>
     map (jget k) out = map (\<lambda>p. dget k (snd p)) todo"
  by (induction todo used arbitrary: out rule: name_rollback.induct)
    (auto simp: bindR_Inr_iff dget_dput)

lemma on_failure_undoes:
  "on_failure_rollback steps = Inr todo \<Longrightarrow>
     set (map (\<lambda>p. dget ''undoes'' (snd p)) todo) \<subseteq> set (map (dget ''name'') steps)"
proof -
  have "foldr (\<lambda>s acc. bindR (py_iter (or_empty (dget ''on_failure'' s))) (\<lambda>comps.
             bindR acc (\<lambda>out.
               Inr (map (\<lambda>comp. (dget ''name'' comp,
                        dput ''undoes'' (dget ''name'' s) (drop_keys [''on_failure''] comp)))
                    (is_dict_list comps) @ out)))) ss (Inr []) = Inr todo \<Longrightarrow>
     set (map (\<lambda>p. dget ''undoes'' (snd p)) todo) \<subseteq> set (map (dget ''name'') ss)" for ss
    by (induction ss arbitrary: todo) (fastforce simp: bindR_Inr_iff dget_dput)+
  from this [of "rev steps"] show "on_failure_rollback steps = Inr todo \<Longrightarrow> ?thesis"
    by (simp add: on_failure_rollback_def)
qed

section \<open>Normalized definitions\<close>

lemma dget_drop_keys [simp]: "dget k (drop_keys ks d) = (if k \<in> set ks then JNull else dget k d)"
  by (induction d) (auto simp: drop_keys_def dget_def)

lemma drop_keys_idem [simp]: "drop_keys ks (drop_keys ks d) = drop_keys ks d"
  by (simp add: drop_keys_def)

lemma dget_set_default:
  "dget k (set_default k' d) = (if k = k' \<and> k \<notin> fst ` set d then JList [] else dget k d)"
proof (cases "k' \<in> fst ` set d")
  case True
  then show ?thesis by (auto simp: set_default_def)
next
  case False
  then have "map_of d k' = None" by (simp add: map_of_eq_None_iff)
  with False show ?thesis
    by (auto simp: set_default_def dget_def map_add_def split: option.splits)
qed

lemma dget_absent: "k \<notin> fst ` set d \<Longrightarrow> dget k d = JNull"
  by (auto simp: dget_def dest: map_of_SomeD split: option.splits intro: rev_image_eqI)

lemma drop_keys_absent: "k \<in> set ks \<Longrightarrow> k \<notin> fst ` set (drop_keys ks d)"
  by (auto simp: drop_keys_def)

definition is_normal :: "json \<Rightarrow> bool" where
  \<comment> \<open>what the normalizer leaves: no \<open>steps\<close> beside a configuration\<close>
  "is_normal v = (case v of
     JDict d \<Rightarrow> dget ''steps'' d = JNull \<and> (dget ''configuration'' d \<noteq> JNull \<longrightarrow> ''steps'' \<notin> fst ` set d)
   | _ \<Rightarrow> True)"

lemma drop_absent: "''steps'' \<notin> fst ` set d \<Longrightarrow> drop_keys [''steps''] d = d"
  by (induction d) (auto simp: drop_keys_def)

lemma keys_dput: "fst ` set (dput k v d) = insert k (fst ` set d)"
  by (simp add: dput_def dom_update)

lemma legacy_definition_shape:
  assumes "legacy_definition d raw = Inr v"
  obtains out xs todo rollback where "v = JDict out" "py_iter raw = Inr xs"
    "''steps'' \<notin> fst ` set out"
    "dget ''configuration'' out = JList (map (\<lambda>s. JDict (drop_keys [''on_failure''] s)) (is_dict_list xs))"
    "dget ''rollback'' out = JList rollback"
    "name_rollback todo (map (dget ''name'') (is_dict_list xs)) = Inr rollback"
    "todo = [] \<or> list_ex (\<lambda>s. truthy (dget ''on_failure'' s)) (is_dict_list xs) \<longrightarrow>
       set (map (\<lambda>p. dget ''undoes'' (snd p)) todo) \<subseteq> set (map (dget ''name'') (is_dict_list xs))"
proof -
  from assms obtain xs todo rollback where x: "py_iter raw = Inr xs"
    and t: "(if list_ex (\<lambda>s. truthy (dget ''on_failure'' s)) (is_dict_list xs)
             then on_failure_rollback (is_dict_list xs) else plain_rollback d) = Inr todo"
    and r: "name_rollback todo (map (dget ''name'') (is_dict_list xs)) = Inr rollback"
    and v: "v = JDict (fold set_default [''preconditions'', ''verification'', ''outputs'', ''secrets'']
        (dput ''rollback'' (JList rollback) (dput ''configuration''
          (JList (map JDict (map (drop_keys [''on_failure'']) (is_dict_list xs))))
            (drop_keys [''steps'', ''rollback''] d))))"
    by (auto simp: legacy_definition_def Let_def bindR_Inr_iff guardR_Inr_iff o_def simp del: fold.simps)
  let ?base = "dput ''rollback'' (JList rollback) (dput ''configuration''
      (JList (map JDict (map (drop_keys [''on_failure'']) (is_dict_list xs))))
        (drop_keys [''steps'', ''rollback''] d))"
  let ?out = "fold set_default [''preconditions'', ''verification'', ''outputs'', ''secrets''] ?base"
  have keys: "''steps'' \<notin> fst ` set (set_default k e)" if "''steps'' \<notin> fst ` set e" "k \<noteq> ''steps''" for k e
    using that by (auto simp: set_default_def)
  have "''steps'' \<notin> fst ` set ?base" by (auto simp: keys_dput drop_keys_def)
  then have "''steps'' \<notin> fst ` set ?out" by (simp add: keys)
  moreover have "dget ''configuration'' ?out = dget ''configuration'' ?base"
    "dget ''rollback'' ?out = dget ''rollback'' ?base"
    by (simp_all add: dget_set_default)
  moreover have "todo = [] \<or> list_ex (\<lambda>s. truthy (dget ''on_failure'' s)) (is_dict_list xs) \<longrightarrow>
       set (map (\<lambda>p. dget ''undoes'' (snd p)) todo) \<subseteq> set (map (dget ''name'') (is_dict_list xs))"
    using t on_failure_undoes [of "is_dict_list xs" todo] by (auto split: if_splits)
  ultimately show thesis
    using x r v by (intro that [of ?out xs rollback todo]) (simp_all add: dget_dput)
qed

lemma normalize_is_normal: "normalize_definition canon v = Inr w \<Longrightarrow> is_normal w"
proof (cases v)
  case (JDict d)
  assume n: "normalize_definition canon v = Inr w"
  show ?thesis
  proof (cases "dget ''configuration'' d \<noteq> JNull")
    case True
    with n JDict have "w = JDict (drop_keys [''steps''] d)"
      by (simp add: normalize_definition_def Let_def split: if_splits)
    with drop_keys_absent [of "''steps''" "[''steps'']" d] show ?thesis by (simp add: is_normal_def)
  next
    case False
    with n JDict have "w = v \<and> dget ''steps'' d = JNull \<or> legacy_definition d (dget ''steps'' d) = Inr w"
      by (simp add: normalize_definition_def Let_def split: if_splits)
    with False JDict show ?thesis
      by (auto simp: is_normal_def dget_absent elim!: legacy_definition_shape)
  qed
qed (auto simp: normalize_definition_def is_normal_def)

lemma normal_fixpoint: "is_normal w \<Longrightarrow> normalize_definition canon w = Inr w"
  by (auto simp: normalize_definition_def is_normal_def Let_def drop_absent split: json.splits)

lemma normalize_empty [simp]: "normalize_definition canon (JDict []) = Inr (JDict [])"
  by (simp add: normalize_definition_def dget_def)

lemma phase_steps_empty [simp]: "\<not> is_dict d \<Longrightarrow> phase_steps d k = []" "phase_steps (JDict []) k = []"
  by (cases d) (simp_all add: phase_steps_def dget_def)

lemma session_probe_empty: "\<not> is_dict d \<Longrightarrow> session_probe d = session_probe (JDict [])"
  by (simp add: session_probe_def cli_steps_def)

lemma job_steps_normal:
  "is_normal d \<Longrightarrow> job_steps canon d ph probe =
     Inr (case ph of
            None \<Rightarrow> concat (map (phase_steps d) FORWARD_PHASE_KEYS)
          | Some p \<Rightarrow> (if probe \<and> p = PRECONDITIONS then [session_probe d] else []) @
               phase_steps d (PHASE_KEYS p))"
proof (cases "truthy d")
  case True
  moreover assume "is_normal d"
  ultimately show ?thesis by (simp add: job_steps_def normal_fixpoint split: option.splits)
next
  case False
  then have "d = JDict [] \<or> \<not> is_dict d" by (cases d) auto
  then show ?thesis using False session_probe_empty [of d]
    by (auto simp: job_steps_def FORWARD_PHASE_KEYS_def split: option.splits)
qed



text \<open>
  Converting a legacy definition keeps its steps as the configuration, in order and
  without their \<open>on_failure\<close>; every rollback step gets a name of its own, different from
  every configuration step's name, within the fuel of the name search; and when the legacy
  steps carried \<open>on_failure\<close>, every rollback step undoes a configuration step.
\<close>

lemma legacy_conversion:
  assumes "normalize_definition canon (JDict d) = Inr v" "dget ''configuration'' d = JNull"
    "dget ''steps'' d = JList xs"
  shows "phase_steps v ''configuration'' =
      map (\<lambda>s. JDict (drop_keys [''on_failure''] (as_dict s))) (filter is_dict xs) \<and>
    distinct (map (jget ''name'') (phase_steps v ''rollback'')) \<and>
    set (map (jget ''name'') (phase_steps v ''rollback'')) \<inter>
      set (map (jget ''name'') (phase_steps v ''configuration'')) = {} \<and>
    (list_ex (\<lambda>s. truthy (jget ''on_failure'' s)) xs \<longrightarrow>
      set (map (jget ''undoes'') (phase_steps v ''rollback'')) \<subseteq>
      set (map (jget ''name'') (phase_steps v ''configuration'')))"
proof -
  from assms have "legacy_definition d (JList xs) = Inr v"
    by (simp add: normalize_definition_def)
  then obtain out todo rollback where v: "v = JDict out"
    and c: "dget ''configuration'' out = JList (map (\<lambda>s. JDict (drop_keys [''on_failure''] s)) (is_dict_list xs))"
    and r: "dget ''rollback'' out = JList rollback"
    and n: "name_rollback todo (map (dget ''name'') (is_dict_list xs)) = Inr rollback"
    and u: "todo = [] \<or> list_ex (\<lambda>s. truthy (dget ''on_failure'' s)) (is_dict_list xs) \<longrightarrow>
       set (map (\<lambda>p. dget ''undoes'' (snd p)) todo) \<subseteq> set (map (dget ''name'') (is_dict_list xs))"
    by (elim legacy_definition_shape) auto
  have names: "map (jget ''name'') (phase_steps v ''configuration'') = map (dget ''name'') (is_dict_list xs)"
    by (simp add: v c phase_steps_def o_def)
  have dict: "is_dict s" if "truthy (jget ''on_failure'' s)" for s
    using that by (cases s) auto
  have "truthy (dget ''on_failure'' (as_dict s))" if "truthy (jget ''on_failure'' s)" for s
    using that by (cases s) auto
  with dict have ex: "list_ex (\<lambda>s. truthy (jget ''on_failure'' s)) xs \<Longrightarrow>
      list_ex (\<lambda>s. truthy (dget ''on_failure'' s)) (is_dict_list xs)"
    by (auto simp: list_ex_iff is_dict_list_def)
  show ?thesis
    using name_rollback_fresh [OF n] name_rollback_get [OF n, of "''undoes''"] u ex
    unfolding names by (simp add: v c r phase_steps_def is_dict_list_def o_def)
qed

lemma legacy_conversion_witness:
  "let v = JDict [(''configuration'', JList [JDict [(''name'', JStr ''a'')], JDict [(''name'', JStr ''b'')]]),
        (''rollback'', JList [JDict [(''name'', JStr ''a (rollback)''), (''undoes'', JStr ''a'')]]),
        (''preconditions'', JList []), (''verification'', JList []), (''outputs'', JList []),
        (''secrets'', JList [])]
   in distinct (map (jget ''name'') (phase_steps v ''rollback'')) \<and>
      set (map (jget ''undoes'') (phase_steps v ''rollback'')) \<subseteq>
      set (map (jget ''name'') (phase_steps v ''configuration''))"
proof -
  let ?d = "[(''steps'', JList [JDict [(''name'', JStr ''a''),
      (''on_failure'', JList [JDict [(''name'', JStr ''a'')]])], JDict [(''name'', JStr ''b'')]])]"
  let ?xs = "[JDict [(''name'', JStr ''a''),
      (''on_failure'', JList [JDict [(''name'', JStr ''a'')]])], JDict [(''name'', JStr ''b'')]]"
  have run: "normalize_definition (\<lambda>s. None) (JDict ?d) =
     Inr (JDict [(''configuration'', JList [JDict [(''name'', JStr ''a'')], JDict [(''name'', JStr ''b'')]]),
        (''rollback'', JList [JDict [(''name'', JStr ''a (rollback)''), (''undoes'', JStr ''a'')]]),
        (''preconditions'', JList []), (''verification'', JList []), (''outputs'', JList []),
        (''secrets'', JList [])])"
    by code_simp
  have "dget ''configuration'' ?d = JNull" "dget ''steps'' ?d = JList ?xs" by code_simp+
  moreover have "list_ex (\<lambda>s. truthy (jget ''on_failure'' s)) ?xs" by code_simp
  ultimately show ?thesis
    using legacy_conversion [OF run, of ?xs] unfolding Let_def by blast
qed

section \<open>Waits, resend safety, warnings\<close>

definition json_int :: "json \<Rightarrow> int" where
  \<comment> \<open>\<open>int(v or 0)\<close> of an integer field\<close>
  "json_int v = (case v of JInt i \<Rightarrow> i | JBool b \<Rightarrow> (if b then 1 else 0) | _ \<Rightarrow> 0)"

definition wait_seconds :: "json \<Rightarrow> int" where
  "wait_seconds step =
     (let w = jget ''wait_until'' step
      in json_int (jget ''tries'' w) * json_int (jget ''interval_seconds'' w))"

definition shared_device_wait_errors ::
  "(json \<Rightarrow> json option) \<Rightarrow> json \<Rightarrow> def_exn + (string \<times> json) list" where
  \<comment> \<open>the phase and the step of each \<open>WAIT_TOO_LONG_FOR_SHARED_DEVICE\<close> entry\<close>
  "shared_device_wait_errors canon definition =
     bindR (normalize_definition canon (if truthy definition then definition else JDict [])) (\<lambda>d.
       Inr (concat (map (\<lambda>p. map (\<lambda>s. (PHASE_KEYS p, jget ''name'' s))
              (filter (\<lambda>s. wait_seconds s > SHARED_DEVICE_WAIT_MAX_SECONDS) (phase_steps d (PHASE_KEYS p))))
            PROVISIONING_PHASES)))"

definition is_resend_safe :: "json \<Rightarrow> bool" where
  "is_resend_safe step =
     (let guard = jget ''precondition'' step
      in truthy (jget ''idempotent'' step)
         \<or> truthy guard \<and> (if truthy (jget ''when_met'' guard) then jget ''when_met'' guard = JStr ''skip'' else True)
         \<or> jget ''driver'' step \<in> set NO_UNDO_DRIVERS
         \<or> jget ''driver'' step = JStr MANUAL_DRIVER)"

datatype warning =
    ROLLBACK_EMPTY
  | ROLLBACK_WITHOUT_UNDOES json
  | ENABLE_WITHOUT_SESSION
  | NOT_RESEND_SAFE json
  | MANUAL_UNVERIFIED json
  | MANUAL_OUTSIDE_ACTIVATION json
  | CPE_NETWORK_PRECONDITION

definition is_line_break :: "char \<Rightarrow> bool" where
  \<comment> \<open>the characters \<open>str.splitlines\<close> cuts at, below code point 256\<close>
  "is_line_break c \<longleftrightarrow> c \<in> set [CHR 0x0A, CHR 0x0B, CHR 0x0C, CHR 0x0D, CHR 0x1C, CHR 0x1D, CHR 0x1E, CHR 0x85]"

definition splitlines :: "string \<Rightarrow> string list" where
  \<comment> \<open>up to the empty lines a carriage return before a line feed gives: every other line is
      as \<open>str.splitlines\<close> has it\<close>
  "splitlines s = split_on (CHR 0x0A) (map (\<lambda>c. if is_line_break c then CHR 0x0A else c) s)"

definition types_enable :: "json \<Rightarrow> bool" where
  "types_enable s = (jget ''driver'' s \<in> set CLI_DRIVERS \<and>
     list_ex (\<lambda>line. str_strip line = ''enable'') (splitlines (as_str (jget ''template'' s))))"

definition manual_warnings :: "json \<Rightarrow> string option \<Rightarrow> json \<Rightarrow> warning list" where
  \<comment> \<open>the body of the loop over the configuration steps with driver \<open>manual\<close>\<close>
  "manual_warnings d purpose s =
     (if jget ''driver'' s \<noteq> JStr MANUAL_DRIVER then []
      else (if \<not> truthy (jget ''verification'' d) then [MANUAL_UNVERIFIED (jget ''name'' s)] else [])
         @ (if purpose \<noteq> None \<and> purpose \<noteq> Some PURPOSE_ACTIVATION
            then [MANUAL_OUTSIDE_ACTIVATION (jget ''name'' s)] else []))"

definition warnings_of :: "json \<Rightarrow> string option \<Rightarrow> string option \<Rightarrow> warning list" where
  "warnings_of d tier purpose =
     (let cfg = filter is_dict (phase_steps d ''configuration'');
          rollback = filter is_dict (phase_steps d ''rollback'')
      in (if rollback = [] \<and> list_ex (\<lambda>s. jget ''driver'' s \<notin> set NO_UNDO_DRIVERS) cfg
          then [ROLLBACK_EMPTY] else [])
         @ map (\<lambda>s. ROLLBACK_WITHOUT_UNDOES (jget ''name'' s))
             (filter (\<lambda>s. \<not> truthy (jget ''undoes'' s)) rollback)
         @ (if \<not> truthy (jget ''enable'' (jget ''session'' d)) \<and> list_ex types_enable cfg
            then [ENABLE_WITHOUT_SESSION] else [])
         @ map (\<lambda>s. NOT_RESEND_SAFE (jget ''name'' s)) (filter (\<lambda>s. \<not> is_resend_safe s) cfg)
         @ concat (map (manual_warnings d purpose) cfg)
         @ (if tier = Some ''EDGE'' \<and> (case purpose of None \<Rightarrow> False | Some p \<Rightarrow> p \<notin> set TEARDOWN_PURPOSES)
               \<and> list_ex (\<lambda>s. jget ''driver'' s \<in> set NETWORK_DRIVERS) (phase_steps d ''preconditions'')
            then [CPE_NETWORK_PRECONDITION] else []))"

definition playbook_warnings ::
  "(json \<Rightarrow> json option) \<Rightarrow> json \<Rightarrow> string option \<Rightarrow> string option \<Rightarrow> def_exn + warning list" where
  "playbook_warnings canon definition category_tier purpose =
     bindR (normalize_definition canon (if truthy definition then definition else JDict []))
       (\<lambda>d. Inr (warnings_of d category_tier purpose))"

section \<open>Masking sensitive values\<close>

definition word_end :: "string \<Rightarrow> bool" where
  \<comment> \<open>only blanks are left\<close>
  "word_end s = list_all is_blank s"

definition ref_name :: "string \<Rightarrow> string \<Rightarrow> string option" where
  \<comment> \<open>\<open>[ \t]*ns\.([a-z][a-z0-9_]*)\<close> matched at the start of a token body: the one group\<close>
  "ref_name ns body =
     (let b = dropWhile is_blank body
      in if prefix (ns @ ''.'') b then
           (let w = takeWhile is_word_char (drop (length ns + 1) b)
            in if is_segment w then Some w else None)
         else None)"

definition refs :: "string list \<Rightarrow> string \<Rightarrow> string list" where
  \<comment> \<open>\<open>_refs(texts, _CAPTURE_REF)\<close> for \<open>ns\<close> capture, \<open>_SECRET_REF\<close> for secret\<close>
  "refs texts ns = concat (map (\<lambda>t. List.map_filter (ref_name ns) (token_bodies t)) texts)"

definition output_secret_ref :: "string \<Rightarrow> string option" where
  \<comment> \<open>\<open>_SECRET_ONLY\<close>: one token that reads a secret, and nothing else\<close>
  "output_secret_ref value =
     (case token_at value of
        Some (body, []) \<Rightarrow>
          (let b = dropWhile is_blank body
           in if prefix ''secret.'' b then
                (let r = drop 7 b; w = takeWhile is_word_char r
                 in if is_segment w \<and> word_end (dropWhile is_word_char r)
                    then Some (''secret.'' @ w) else None)
              else None)
      | _ \<Rightarrow> None)"

definition mask_output :: "json \<Rightarrow> json" where
  "mask_output entry =
     (case entry of
        JDict d \<Rightarrow> (if truthy (dget ''sensitive'' d) \<or> truthy (dget ''secret'' d)
                    then JDict (dput ''value'' JNull d) else entry)
      | _ \<Rightarrow> entry)"

definition mask_sensitive_outputs :: "json \<Rightarrow> json" where
  "mask_sensitive_outputs outputs =
     (case outputs of JList xs \<Rightarrow> JList (map mask_output xs) | _ \<Rightarrow> outputs)"

definition sensitive_capture_keys :: "json \<Rightarrow> string list" where
  "sensitive_capture_keys definition =
     sort (dedup (concat (map (\<lambda>entry.
         if is_dict entry \<and> truthy (jget ''sensitive'' entry) \<and>
            output_secret_ref (as_str (jget ''value'' entry)) = None
         then refs [as_str (jget ''value'' entry)] ''capture'' else [])
       (as_list (jget ''outputs'' definition)))))"

definition blank_captures :: "json list \<Rightarrow> json \<Rightarrow> json" where
  "blank_captures keys captures =
     (case captures of
        JDict d \<Rightarrow> JDict (map (\<lambda>(k, v). (k, if JStr k \<in> set keys then JNull else v)) d)
      | _ \<Rightarrow> captures)"

definition blank_entry :: "json list \<Rightarrow> json \<Rightarrow> json" where
  "blank_entry keys e =
     (case e of
        JDict d \<Rightarrow> (if ''captures'' \<in> fst ` set d
                    then JDict (dput ''captures'' (blank_captures keys (dget ''captures'' d)) d) else e)
      | _ \<Rightarrow> e)"

definition blank_step_list :: "json list \<Rightarrow> string \<Rightarrow> dict \<Rightarrow> dict" where
  "blank_step_list keys k log =
     (case dget k log of JList xs \<Rightarrow> dput k (JList (map (blank_entry keys) xs)) log | _ \<Rightarrow> log)"

definition mask_log_outputs :: "json \<Rightarrow> json" where
  "mask_log_outputs log =
     (case log of
        JDict d \<Rightarrow>
          (let d1 = (if truthy (dget ''outputs'' d)
                     then dput ''outputs'' (mask_sensitive_outputs (dget ''outputs'' d)) d else d);
               keys = as_list (dget ''sensitive_captures'' d1)
           in JDict (if keys = [] then d1
                     else fold (blank_step_list keys) [''steps'', ''rollback_steps'', ''compensation_steps'']
                       (dput ''captures'' (blank_captures keys (dget ''captures'' d1)) d1)))
      | _ \<Rightarrow> log)"

lemma mask_output_null:
  "truthy (jget ''sensitive'' (mask_output e)) \<or> truthy (jget ''secret'' (mask_output e)) \<Longrightarrow>
     jget ''value'' (mask_output e) = JNull"
  by (cases e) (auto simp: mask_output_def dget_dput)

lemma blank_captures_null: "JStr k \<in> set keys \<Longrightarrow> jget k (blank_captures keys c) = JNull"
proof (cases c)
  case (JDict d)
  assume k: "JStr k \<in> set keys"
  have "map_of (map (\<lambda>(k, v). (k, if JStr k \<in> set keys then JNull else v)) d) k \<in> {None, Some JNull}"
    using k by (induction d) auto
  with JDict show ?thesis by (auto simp: blank_captures_def dget_def)
qed (simp_all add: blank_captures_def)

lemma blank_entry_null: "JStr k \<in> set keys \<Longrightarrow> jget k (jget ''captures'' (blank_entry keys e)) = JNull"
  by (cases e) (auto simp: blank_entry_def dget_dput blank_captures_null dget_absent)

lemma dget_blank_step_list:
  "dget k (blank_step_list keys k' d) =
     (if k = k' then (case dget k d of JList xs \<Rightarrow> JList (map (blank_entry keys) xs) | v \<Rightarrow> v)
      else dget k d)"
  by (auto simp: blank_step_list_def dget_dput split: json.splits)

text \<open>
  A masked job log shows no sensitive value: every output entry flagged sensitive or
  secret has a null value, and every capture the log names as sensitive is null in the log's
  own captures and in the captures of every step, rollback and compensation entry.
\<close>

lemma mask_log_hides:
  assumes "mask_log_outputs (JDict d) = JDict d'"
  shows "(\<forall>e\<in>set (as_list (dget ''outputs'' d')).
            truthy (jget ''sensitive'' e) \<or> truthy (jget ''secret'' e) \<longrightarrow> jget ''value'' e = JNull) \<and>
         (\<forall>k. JStr k \<in> set (as_list (dget ''sensitive_captures'' d)) \<longrightarrow>
            jget k (dget ''captures'' d') = JNull \<and>
            (\<forall>part\<in>set [''steps'', ''rollback_steps'', ''compensation_steps''].
               \<forall>e\<in>set (as_list (dget part d')). jget k (jget ''captures'' e) = JNull))"
proof -
  let ?d1 = "if truthy (dget ''outputs'' d)
      then dput ''outputs'' (mask_sensitive_outputs (dget ''outputs'' d)) d else d"
  let ?keys = "as_list (dget ''sensitive_captures'' ?d1)"
  have outs: "\<forall>e\<in>set (as_list (dget ''outputs'' ?d1)).
      truthy (jget ''sensitive'' e) \<or> truthy (jget ''secret'' e) \<longrightarrow> jget ''value'' e = JNull"
    using mask_output_null by (cases "dget ''outputs'' d") (auto simp: dget_dput mask_sensitive_outputs_def)
  have keys: "as_list (dget ''sensitive_captures'' d) = ?keys" by (simp add: dget_dput)
  have d': "d' = (if ?keys = [] then ?d1
      else fold (blank_step_list ?keys) [''steps'', ''rollback_steps'', ''compensation_steps'']
        (dput ''captures'' (blank_captures ?keys (dget ''captures'' ?d1)) ?d1))"
    using assms by (simp add: mask_log_outputs_def Let_def split: if_splits)
  show ?thesis
  proof (cases "?keys = []")
    case True
    with d' outs keys show ?thesis by simp
  next
    case False
    with d' have e: "d' = fold (blank_step_list ?keys) [''steps'', ''rollback_steps'', ''compensation_steps'']
        (dput ''captures'' (blank_captures ?keys (dget ''captures'' ?d1)) ?d1)" by (simp only: if_False)
    obtain K where K: "K = ?keys" by simp
    obtain D where D: "D = dput ''captures'' (blank_captures K (dget ''captures'' ?d1)) ?d1" by simp
    have f: "d' = fold (blank_step_list K) [''steps'', ''rollback_steps'', ''compensation_steps''] D"
      using e K D by simp
    have o: "dget ''outputs'' d' = dget ''outputs'' ?d1"
      by (simp add: f D dget_blank_step_list dget_dput)
    have c: "dget ''captures'' d' = blank_captures K (dget ''captures'' ?d1)"
      by (simp add: f D dget_blank_step_list dget_dput)
    have p: "as_list (dget part d') = map (blank_entry K) (as_list (dget part D))"
      if "part \<in> set [''steps'', ''rollback_steps'', ''compensation_steps'']" for part
      using that by (auto simp: f dget_blank_step_list split: json.splits)
    have "\<forall>e\<in>set (as_list (dget part d')). jget k (jget ''captures'' e) = JNull"
      if "part \<in> set [''steps'', ''rollback_steps'', ''compensation_steps'']" "JStr k \<in> set K" for part k
      unfolding p [OF that(1)] using blank_entry_null [OF that(2)] by simp
    moreover have "jget k (dget ''captures'' d') = JNull" if "JStr k \<in> set K" for k
      unfolding c by (rule blank_captures_null [OF that])
    ultimately show ?thesis unfolding keys K [symmetric] o using outs by blast
  qed
qed

lemma mask_log_hides_witness:
  "let d' = [(''outputs'', JList [JDict [(''sensitive'', JBool True), (''value'', JNull)]]),
        (''sensitive_captures'', JList [JStr ''pw'']),
        (''steps'', JList [JDict [(''captures'', JDict [(''pw'', JNull), (''rx'', JInt 3)])]]),
        (''captures'', JNull)]
   in list_all (\<lambda>e. jget ''pw'' (jget ''captures'' e) = JNull) (as_list (dget ''steps'' d'))"
proof -
  have run: "mask_log_outputs (JDict
      [(''outputs'', JList [JDict [(''sensitive'', JBool True), (''value'', JStr ''x'')]]),
       (''sensitive_captures'', JList [JStr ''pw'']),
       (''steps'', JList [JDict [(''captures'', JDict [(''pw'', JStr ''y''), (''rx'', JInt 3)])]])])
   = JDict [(''outputs'', JList [JDict [(''sensitive'', JBool True), (''value'', JNull)]]),
        (''sensitive_captures'', JList [JStr ''pw'']),
        (''steps'', JList [JDict [(''captures'', JDict [(''pw'', JNull), (''rx'', JInt 3)])]]),
        (''captures'', JNull)]"
    by code_simp
  have "JStr ''pw'' \<in> set (as_list (dget ''sensitive_captures''
      [(''outputs'', JList [JDict [(''sensitive'', JBool True), (''value'', JStr ''x'')]]),
       (''sensitive_captures'', JList [JStr ''pw'']),
       (''steps'', JList [JDict [(''captures'', JDict [(''pw'', JStr ''y''), (''rx'', JInt 3)])]])]))"
    by (simp add: dget_def)
  with mask_log_hides [OF run] show ?thesis unfolding Let_def list_all_iff by (meson list.set_intros(1))
qed

end
