(* ===== verification/Provisioning_State.thy ===== *)
theory Provisioning_State
  imports Playbook_Definition
begin

text \<open>
  The rows the provisioning state machine reads and writes (\<open>models/isp.py\<close>), the database
  as a record of tables, and the outbox writer of \<open>utils/provisioning_events.py\<close>.

  An id is a natural number; new ids come from a counter of the database, so they are
  fresh as \<open>uuid4()\<close> values are. The text of an id is its decimal text. \<open>now_gt()\<close> is
  \<open>db_now\<close>, in seconds. Columns a modelled operation neither reads nor writes are left out.
\<close>

type_synonym id = nat

definition id_json :: "id \<Rightarrow> json" where
  "id_json i = JStr (show_nat i)"

definition uuid_of :: "json \<Rightarrow> id option" where
  \<comment> \<open>\<open>UUID(str(value))\<close>\<close>
  "uuid_of v =
     (case v of
        JStr s \<Rightarrow> (if s \<noteq> [] \<and> list_all is_digit s \<and> show_nat (read_nat s) = s then Some (read_nat s) else None)
      | _ \<Rightarrow> None)"

section \<open>Rows\<close>

record plan_step =
  ps_name :: json
  ps_label :: json
  ps_manual :: bool
  ps_skip :: bool

record plan_entry =
  pe_item :: id
  pe_playbook :: id
  pe_version :: "int option"
  pe_category :: string
  pe_label :: string
  pe_phase :: "phase option"
  pe_steps :: "plan_step list"
  pe_probe :: bool
  pe_ran :: "json list"

datatype run_code =
    PRECONDITION_FAILED | CONFIGURATION_FAILED | VERIFICATION_FAILED | RUN_CANCELLED
  | STRANDED_RUN_EXPIRED | ROLLBACK_INCOMPLETE | REVERTED

text \<open>
  The parts of an error text; the sentence they are put into is not modelled. A rollback
  detail has the device, the step, the code and the display text.
\<close>

datatype rb_detail = Detail json json json json

datatype err_text =
    ErrStep json json json
  | ErrDevice json json
  | ErrText string
  | ErrIncomplete "err_text option" "rb_detail list"

record rollback_state =
  rb_cause_code :: "run_code option"
  rb_cause_error :: "err_text option"
  rb_no_rollback :: "id list"

record frames =
  fr_shared :: dict
  fr_device :: "(id \<times> dict) list"
  fr_definitions :: "(id \<times> json) list"
  fr_rollback :: "rollback_state option"

record resolved_node =
  rn_position :: nat
  rn_item :: id
  rn_serial :: "string option"
  rn_type :: "id option"
  rn_type_name :: string
  rn_category :: "string option"
  rn_playbook :: "id option"
  rn_version :: "int option"
  rn_label :: "string option"

record run =
  r_id :: id
  r_company :: id
  r_service :: id
  r_created :: int
  r_updated :: int
  r_finished :: "int option"
  r_purpose :: string
  r_dry :: bool
  r_mode :: run_mode
  r_guided :: int
  r_status :: job_status
  r_phase :: "phase option"
  r_path :: "resolved_node list"
  r_plan :: "plan_entry list"
  r_frames :: frames
  r_key :: "string option"
  r_trigger :: trigger
  r_user :: "id option"
  r_error_code :: "run_code option"
  r_error :: "err_text option"
  r_outputs :: "dict list"
  r_secrets :: "string option"

record job =
  j_id :: id
  j_company :: id
  j_playbook :: id
  j_service :: "id option"
  j_item :: "id option"
  j_variables :: dict
  j_dry :: bool
  j_key :: "string option"
  j_trigger :: trigger
  j_user :: "id option"
  j_lock :: "string option"
  j_claim :: "id option"
  j_run :: "id option"
  j_position :: "nat option"
  j_phase :: "phase option"
  j_max_attempts :: nat
  j_status :: job_status
  j_log :: json
  j_error :: "string option"
  j_finished :: "int option"
  j_pending_step :: "int option"
  j_pending_tasks :: json

record playbook =
  pb_id :: id
  pb_company :: id
  pb_name :: string
  pb_version :: int
  pb_definition :: json
  pb_last_dry :: "int option"

record device_type =
  dt_id :: id
  dt_enabled :: bool

record service =
  sv_id :: id
  sv_company :: id
  sv_path_changed :: "int option"

record item =
  it_id :: id
  it_company :: id
  it_mgmt_host :: "string option"
  it_mgmt_port :: "int option"
  it_nat_port :: "int option"
  it_check_at :: "int option"
  it_check_ok :: "bool option"

record settings =
  ps_company :: id
  ps_acs_url :: "string option"
  ps_cwmp_credential :: "id option"
  ps_dial_target :: string
  ps_gateway_host :: "string option"
  ps_proxy_kind :: string
  ps_proxy_address :: "string option"

record credential =
  cr_id :: id
  cr_company :: id
  cr_secret :: string

record registration =
  rg_id :: id
  rg_company :: "id option"
  rg_serial :: string
  rg_item :: "id option"

record action_log =
  al_company :: id
  al_actor :: string
  al_user :: "id option"
  al_device_kind :: string
  al_device :: json
  al_action :: string
  al_job :: id
  al_steps :: "json list"
  al_failed :: "rb_detail list"

datatype event_kind = RUN_CLOSED | MANUAL_WAITING | JOB_FINISHED | JOB_UPDATED | INSTALL_STATE_STALE

datatype payload =
    ClosedPayload job_status "run_code option"
  | FinishedPayload job_status "string option" bool "string option" "id option"

record event =
  ev_company :: id
  ev_kind :: event_kind
  ev_run :: "id option"
  ev_job :: "id option"
  ev_payload :: payload

record db =
  db_now :: int
  db_next :: id
  db_runs :: "run list"
  db_jobs :: "job list"
  db_playbooks :: "playbook list"
  db_types :: "device_type list"
  db_services :: "service list"
  db_items :: "item list"
  db_settings :: "settings list"
  db_credentials :: "credential list"
  db_registrations :: "registration list"
  db_actions :: "action_log list"
  db_events :: "event list"

section \<open>Exceptions\<close>

datatype gate_failure =
    PROVISIONING_DISABLED string
  | DRY_RUN_REQUIRED int "int option"
  | PLAYBOOK_NOT_FOUND

datatype exn =
    BadDefinition def_exn
  | IntegrityError
  | ResolutionError string
  | GateError "(gate_failure \<times> id \<times> id option) list"
  | ValueError
  | RunNotRevertible
  | NoSuchRow

type_synonym 'a res = "exn + 'a"

section \<open>In-flight statuses\<close>

definition IN_FLIGHT :: "job_status list" where
  "IN_FLIGHT = [QUEUED, RUNNING, PENDING_INFORM, PENDING_MANUAL]"

definition TERMINAL_OK :: "job_status list" where
  "TERMINAL_OK = [SUCCEEDED]"

abbreviation in_flight :: "job_status \<Rightarrow> bool" where
  "in_flight s \<equiv> s \<in> set IN_FLIGHT"

lemma in_flight_simps [simp]:
  "in_flight QUEUED" "in_flight RUNNING" "in_flight PENDING_INFORM" "in_flight PENDING_MANUAL"
  "\<not> in_flight SUCCEEDED" "\<not> in_flight FAILED" "\<not> in_flight ROLLED_BACK" "\<not> in_flight CANCELLED"
  by (simp_all add: IN_FLIGHT_def)

lemma terminal_ok [simp]: "s \<in> set TERMINAL_OK \<longleftrightarrow> s = SUCCEEDED"
  by (simp add: TERMINAL_OK_def)

section \<open>Row access\<close>

definition get_run :: "id \<Rightarrow> db \<Rightarrow> run option" where "get_run i d = find_by r_id i (db_runs d)"
definition put_run :: "run \<Rightarrow> db \<Rightarrow> db" where "put_run r d = d\<lparr>db_runs := put_by r_id r (db_runs d)\<rparr>"
definition get_job :: "id \<Rightarrow> db \<Rightarrow> job option" where "get_job i d = find_by j_id i (db_jobs d)"
definition put_job :: "job \<Rightarrow> db \<Rightarrow> db" where "put_job j d = d\<lparr>db_jobs := put_by j_id j (db_jobs d)\<rparr>"
definition get_playbook :: "id \<Rightarrow> db \<Rightarrow> playbook option" where
  "get_playbook i d = find_by pb_id i (db_playbooks d)"
definition put_playbook :: "playbook \<Rightarrow> db \<Rightarrow> db" where
  "put_playbook p d = d\<lparr>db_playbooks := put_by pb_id p (db_playbooks d)\<rparr>"
definition get_service :: "id \<Rightarrow> db \<Rightarrow> service option" where
  "get_service i d = find_by sv_id i (db_services d)"
definition put_service :: "service \<Rightarrow> db \<Rightarrow> db" where
  "put_service s d = d\<lparr>db_services := put_by sv_id s (db_services d)\<rparr>"
definition get_item :: "id \<Rightarrow> db \<Rightarrow> item option" where "get_item i d = find_by it_id i (db_items d)"
definition put_item :: "item \<Rightarrow> db \<Rightarrow> db" where "put_item i d = d\<lparr>db_items := put_by it_id i (db_items d)\<rparr>"

interpretation runs: row_store r_id get_run put_run
  by unfold_locales (auto simp: get_run_def put_run_def dest: find_by_SomeD)

interpretation jobs: row_store j_id get_job put_job
  by unfold_locales (auto simp: get_job_def put_job_def dest: find_by_SomeD)

interpretation playbooks: row_store pb_id get_playbook put_playbook
  by unfold_locales (auto simp: get_playbook_def put_playbook_def dest: find_by_SomeD)

interpretation services: row_store sv_id get_service put_service
  by unfold_locales (auto simp: get_service_def put_service_def dest: find_by_SomeD)

interpretation items: row_store it_id get_item put_item
  by unfold_locales (auto simp: get_item_def put_item_def dest: find_by_SomeD)

section \<open>Flushing a run, adding a job\<close>

definition run_key_taken :: "run \<Rightarrow> db \<Rightarrow> bool" where
  \<comment> \<open>the partial unique index \<open>uq_provisioning_run_company_idem\<close>\<close>
  "run_key_taken r d =
     (in_flight (r_status r) \<and> r_key r \<noteq> None \<and>
      list_ex (\<lambda>q. r_id q \<noteq> r_id r \<and> r_company q = r_company r \<and> r_key q = r_key r \<and> in_flight (r_status q))
        (db_runs d))"

definition job_key_taken :: "job \<Rightarrow> db \<Rightarrow> bool" where
  \<comment> \<open>the partial unique index \<open>uq_provisioning_job_company_idem\<close>\<close>
  "job_key_taken j d =
     (in_flight (j_status j) \<and> j_key j \<noteq> None \<and>
      list_ex (\<lambda>q. j_id q \<noteq> j_id j \<and> j_company q = j_company j \<and> j_key q = j_key j \<and> in_flight (j_status q))
        (db_jobs d))"

definition save_run :: "run \<Rightarrow> db \<Rightarrow> (run \<times> db) res" where
  \<comment> \<open>the flush of a changed run: \<open>updated_at\<close> moves, and the unique index is checked\<close>
  "save_run r d =
     (let r' = (if get_run (r_id r) d = Some r then r else r\<lparr>r_updated := db_now d\<rparr>)
      in guardR (run_key_taken r' d) IntegrityError (Inr (r', put_run r' d)))"

definition add_job :: "job \<Rightarrow> db \<Rightarrow> (job \<times> db) res" where
  \<comment> \<open>\<open>db.add(job); db.flush()\<close>, with its fresh id\<close>
  "add_job j d =
     (let j' = j\<lparr>j_id := db_next d\<rparr>
      in guardR (job_key_taken j' d) IntegrityError
           (Inr (j', d\<lparr>db_next := Suc (db_next d), db_jobs := db_jobs d @ [j']\<rparr>)))"

section \<open>The outbox\<close>

definition emit_event ::
  "event_kind \<Rightarrow> job option \<Rightarrow> run option \<Rightarrow> id option \<Rightarrow> payload \<Rightarrow> db \<Rightarrow> db res" where
  "emit_event kind jb rn company_id payload d =
     (let company = (case company_id of Some c \<Rightarrow> Some c | None \<Rightarrow>
            (case jb of Some j \<Rightarrow> Some (j_company j) | None \<Rightarrow>
              (case rn of Some r \<Rightarrow> Some (r_company r) | None \<Rightarrow> None)));
          run_id = (case rn of Some r \<Rightarrow> Some (r_id r) | None \<Rightarrow>
            (case jb of Some j \<Rightarrow> j_run j | None \<Rightarrow> None))
      in (case company of
            None \<Rightarrow> Inl ValueError
          | Some c \<Rightarrow> Inr (d\<lparr>db_events := db_events d @
              [\<lparr>ev_company = c, ev_kind = kind, ev_run = run_id, ev_job = map_option j_id jb,
                ev_payload = payload\<rparr>]\<rparr>)))"

section \<open>Children of a run\<close>

definition kids :: "db \<Rightarrow> id \<Rightarrow> job list" where
  "kids d i = filter (\<lambda>j. j_run j = Some i) (db_jobs d)"

definition pos :: "job \<Rightarrow> nat" where
  \<comment> \<open>\<open>job.run_position or 0\<close>\<close>
  "pos j = (case j_position j of None \<Rightarrow> 0 | Some p \<Rightarrow> p)"

definition children :: "db \<Rightarrow> run \<Rightarrow> job list" where
  \<comment> \<open>\<open>_children\<close>: the run's jobs in plan order\<close>
  "children d r = sort_key pos (kids d (r_id r))"

definition nth_opt :: "'a list \<Rightarrow> nat \<Rightarrow> 'a option" where
  "nth_opt xs n = (if n < length xs then Some (xs ! n) else None)"

lemma nth_opt_Some: "nth_opt xs n = Some x \<longleftrightarrow> n < length xs \<and> x = xs ! n"
  by (auto simp: nth_opt_def)

lemma nth_opt_None: "nth_opt xs n = None \<longleftrightarrow> length xs \<le> n"
  by (simp add: nth_opt_def)

lemma set_children [simp]: "set (children d r) = set (kids d (r_id r))"
  by (simp add: children_def)

end
