(* ===== verification/Transport.thy ===== *)
theory Transport
  imports Provisioning_State
begin

text \<open>
  \<open>utils/transport.py\<close> and \<open>utils/playbook_drivers.py\<close>: the address a driver dials for an
  item of a tenant, and the drivers a device's category tier allows.
\<close>

section \<open>The tenant's settings\<close>

definition company_provisioning_settings :: "db \<Rightarrow> id \<Rightarrow> settings option" where
  "company_provisioning_settings d company = find_by ps_company company (db_settings d)"

section \<open>Endpoint resolution\<close>

record endpoint =
  ep_host :: string
  ep_port :: int
  ep_proxy :: "string option"
  ep_dial_target :: string

datatype transport_error =
    NAT_MAPPING_NOT_SET | MGMT_HOST_NOT_SET | PROXY_NOT_PROVISIONED | TRANSPORT_UNAVAILABLE

definition stripped :: "string option \<Rightarrow> string" where
  \<comment> \<open>\<open>(v or "").strip()\<close>\<close>
  "stripped v = (case v of None \<Rightarrow> [] | Some s \<Rightarrow> str_strip s)"

definition proxy_of :: "settings option \<Rightarrow> string option" where
  "proxy_of st = (case st of
     None \<Rightarrow> None
   | Some s \<Rightarrow> (if ps_proxy_kind s = ''socks5'' \<and> stripped (ps_proxy_address s) \<noteq> []
               then Some (stripped (ps_proxy_address s)) else None))"

definition proxy_missing :: "settings option \<Rightarrow> bool" where
  "proxy_missing st = (case st of
     None \<Rightarrow> False
   | Some s \<Rightarrow> ps_proxy_kind s = ''socks5'' \<and> stripped (ps_proxy_address s) = [])"

definition set_int :: "int option \<Rightarrow> int option" where
  \<comment> \<open>a port that is given and not zero\<close>
  "set_int v = (case v of None \<Rightarrow> None | Some p \<Rightarrow> (if p = 0 then None else Some p))"

definition resolve_with :: "item \<Rightarrow> int \<Rightarrow> settings option \<Rightarrow> transport_error + endpoint" where
  "resolve_with it default_port st =
     (let dial_target = (case st of None \<Rightarrow> ''device'' | Some s \<Rightarrow> ps_dial_target s)
      in if dial_target = ''gateway'' then
           (let gateway_host = (case st of None \<Rightarrow> [] | Some s \<Rightarrow> stripped (ps_gateway_host s))
            in if gateway_host = [] then Inl NAT_MAPPING_NOT_SET
               else (case set_int (it_nat_port it) of
                       None \<Rightarrow> Inl NAT_MAPPING_NOT_SET
                     | Some port \<Rightarrow>
                         (if proxy_missing st then Inl PROXY_NOT_PROVISIONED
                          else Inr \<lparr>ep_host = gateway_host, ep_port = port, ep_proxy = proxy_of st,
                                    ep_dial_target = ''gateway''\<rparr>)))
         else if proxy_missing st then Inl PROXY_NOT_PROVISIONED
         else (let host = stripped (it_mgmt_host it)
               in if host = [] then Inl MGMT_HOST_NOT_SET
                  else Inr \<lparr>ep_host = host,
                            ep_port = (case set_int (it_mgmt_port it) of None \<Rightarrow> default_port | Some p \<Rightarrow> p),
                            ep_proxy = proxy_of st, ep_dial_target = ''device''\<rparr>))"

definition resolve_endpoint ::
  "db \<Rightarrow> item \<Rightarrow> id \<Rightarrow> int \<Rightarrow> settings option \<Rightarrow> transport_error + endpoint" where
  "resolve_endpoint d it company default_port given =
     (case given of
        None \<Rightarrow> resolve_with it default_port (company_provisioning_settings d company)
      | Some s \<Rightarrow> (if ps_company s \<noteq> company then Inl TRANSPORT_UNAVAILABLE
                  else resolve_with it default_port (Some s)))"

definition company_dials_gateway :: "db \<Rightarrow> id \<Rightarrow> bool" where
  "company_dials_gateway d company =
     (case company_provisioning_settings d company of
        None \<Rightarrow> False | Some s \<Rightarrow> ps_dial_target s = ''gateway'')"

section \<open>Drivers by tier\<close>

definition EDITOR_DRIVERS :: "string list" where
  "EDITOR_DRIVERS = [''ssh'', ''telnet'', ''tr069'', ''ping'', ''http'', ''simulator'', ''manual'']"

definition GENERAL_DRIVERS :: "string list" where
  "GENERAL_DRIVERS = [''ping'', ''simulator'']"

definition ALLOWED_BY_TIER :: "string option \<Rightarrow> string list option" where
  "ALLOWED_BY_TIER = map_of
     [(Some ''CORE'', [''ssh'', ''telnet'', ''snmp'', ''ping'', ''http'', ''simulator'']),
      (Some ''EDGE'', [''tr069'', ''connection_request'', ''ping'', ''http'', ''simulator'', ''manual'']),
      (Some ''CONSUMABLE'', GENERAL_DRIVERS), (Some ''TOOL'', GENERAL_DRIVERS),
      (Some ''OTHER'', GENERAL_DRIVERS), (None, GENERAL_DRIVERS)]"

definition allowed_drivers :: "string option \<Rightarrow> string list" where
  "allowed_drivers tier = (case ALLOWED_BY_TIER tier of Some ds \<Rightarrow> ds | None \<Rightarrow> GENERAL_DRIVERS)"

definition ping_probe :: "string \<Rightarrow> string \<Rightarrow> string" where
  "ping_probe dial_target proxy_kind =
     (if dial_target = ''gateway'' \<or> proxy_kind = ''socks5'' then ''tcp'' else ''icmp'')"

record driver_option =
  do_key :: string
  do_allowed :: bool
  do_reason :: "string option"
  do_probe :: "string option"

definition driver_options :: "string option \<Rightarrow> string \<Rightarrow> string \<Rightarrow> driver_option list" where
  "driver_options tier dial_target proxy_kind =
     (let allowed = allowed_drivers tier
      in map (\<lambda>key. \<lparr>do_key = key, do_allowed = (key \<in> set allowed),
                do_reason = (if key \<in> set allowed then None else Some ''TIER_MISMATCH''),
                do_probe = (if key = ''ping'' then Some (ping_probe dial_target proxy_kind) else None)\<rparr>)
           EDITOR_DRIVERS)"

definition numbered_steps :: "json \<Rightarrow> (phase \<times> nat \<times> json) list" where
  \<comment> \<open>\<open>_phase_steps\<close>: every step of every phase with its index\<close>
  "numbered_steps d =
     concat (map (\<lambda>p. let ss = phase_steps d (PHASE_KEYS p)
                      in map (\<lambda>(i, s). (p, i, s)) (zip [0..<length ss] ss)) PROVISIONING_PHASES)"

definition mismatches ::
  "(json \<Rightarrow> json option) \<Rightarrow> json \<Rightarrow> string option \<Rightarrow> def_exn + (phase \<times> nat \<times> json) list" where
  \<comment> \<open>the phase, the index and the driver of each step the tier does not allow\<close>
  "mismatches canon definition tier =
     bindR (normalize_definition canon (if is_dict definition then definition else JDict [])) (\<lambda>d.
       Inr (map (\<lambda>(p, i, s). (p, i, jget ''driver'' s))
         (filter (\<lambda>(p, i, s). jget ''driver'' s \<notin> JStr ` set (allowed_drivers tier)) (numbered_steps d))))"

section \<open>Properties\<close>

lemma proxy_of_configured:
  "st = Some s \<Longrightarrow> ps_proxy_kind s = ''socks5'' \<Longrightarrow> \<not> proxy_missing st \<Longrightarrow> proxy_of st \<noteq> None"
  by (auto simp: proxy_of_def proxy_missing_def)

lemma resolve_with_cases:
  assumes "resolve_with it p st = Inr e"
  shows "\<not> proxy_missing st \<and> ep_proxy e = proxy_of st \<and> ep_host e \<noteq> [] \<and>
    (if st \<noteq> None \<and> ps_dial_target (the st) = ''gateway''
     then ep_host e = stripped (ps_gateway_host (the st)) \<and> it_nat_port it = Some (ep_port e) \<and> ep_port e \<noteq> 0
     else ep_host e = stripped (it_mgmt_host it) \<and>
       ep_port e = (case set_int (it_mgmt_port it) of None \<Rightarrow> p | Some q \<Rightarrow> q))"
  using assms
  by (auto simp: resolve_with_def Let_def set_int_def split: if_splits option.splits)

text \<open>
  Endpoint resolution fails closed: when it answers, a tenant that asks for a SOCKS
  proxy gets a proxy address that is not blank; a tenant that dials its gateway gets the
  gateway's host and the item's own mapped port, never the item's private address; and a
  settings row of another company is refused.
\<close>

lemma resolve_endpoint_closed:
  assumes "resolve_endpoint d it company p given = Inr e"
  shows "(case given of None \<Rightarrow> True | Some s \<Rightarrow> ps_company s = company) \<and>
    (case (if given = None then company_provisioning_settings d company else given) of
       None \<Rightarrow> ep_proxy e = None \<and> ep_host e = stripped (it_mgmt_host it)
     | Some s \<Rightarrow> ps_company s = company \<and>
         (ep_proxy e = None \<longleftrightarrow> ps_proxy_kind s \<noteq> ''socks5'') \<and> ep_proxy e \<noteq> Some [] \<and>
         (if ps_dial_target s = ''gateway''
          then ep_host e = stripped (ps_gateway_host s) \<and> it_nat_port it = Some (ep_port e)
          else ep_host e = stripped (it_mgmt_host it))) \<and> ep_host e \<noteq> []"
proof -
  define st where "st = (if given = None then company_provisioning_settings d company else given)"
  have own: "ps_company s = company" if "st = Some s" for s
    using that assms
    by (auto simp: st_def resolve_endpoint_def company_provisioning_settings_def dest!: find_by_SomeD
        split: option.splits if_splits)
  have "resolve_with it p st = Inr e" "case given of None \<Rightarrow> True | Some s \<Rightarrow> ps_company s = company"
    using assms by (auto simp: st_def resolve_endpoint_def split: option.splits if_splits)
  with resolve_with_cases [of it p st e] own show ?thesis
    unfolding st_def [symmetric]
    by (cases st) (auto simp: proxy_of_def proxy_missing_def split: if_splits)
qed

lemma resolve_endpoint_closed_witness:
  "ep_host \<lparr>ep_host = ''10.0.0.1'', ep_port = 8022, ep_proxy = None, ep_dial_target = ''gateway''\<rparr>
     = stripped (Some ''10.0.0.1 '')"
proof -
  let ?s = "\<lparr>ps_company = 7, ps_acs_url = None, ps_cwmp_credential = None, ps_dial_target = ''gateway'',
      ps_gateway_host = Some ''10.0.0.1 '', ps_proxy_kind = ''none'', ps_proxy_address = None\<rparr> :: settings"
  let ?it = "\<lparr>it_id = 1, it_company = 7, it_mgmt_host = Some ''192.168.1.2'', it_mgmt_port = None,
      it_nat_port = Some 8022, it_check_at = None, it_check_ok = None\<rparr> :: item"
  let ?d = "\<lparr>db_now = 0, db_next = 0, db_runs = [], db_jobs = [], db_playbooks = [], db_types = [],
      db_services = [], db_items = [?it], db_settings = [?s], db_credentials = [], db_registrations = [],
      db_actions = [], db_events = []\<rparr> :: db"
  have "resolve_endpoint ?d ?it 7 22 None =
     Inr \<lparr>ep_host = ''10.0.0.1'', ep_port = 8022, ep_proxy = None, ep_dial_target = ''gateway''\<rparr>"
    by code_simp
  from resolve_endpoint_closed [OF this] show ?thesis
    by (simp add: company_provisioning_settings_def)
qed

end
