(* ===== verification/Provisioning_Gates.thy ===== *)
theory Provisioning_Gates
  imports Transport
begin

text \<open>
  \<open>utils/provisioning_gates.py\<close>: what a live write must pass before a run or a job is
  created, and \<open>utils/acs_bootstrap.py\<close>: the values and the registration a playbook that
  reads \<open>acs.*\<close> needs. \<open>env\<close> holds what is outside the repository: the process environment,
  pydantic, the cipher and the source of randomness.
\<close>

record env =
  env_canon :: "json \<Rightarrow> json option"
  env_kill_switch :: "string option"
  env_cwmp_url :: "string option"
  env_seal :: "(string \<times> string) list \<Rightarrow> id \<Rightarrow> id \<Rightarrow> string option"
  env_open :: "string \<Rightarrow> id \<Rightarrow> id \<Rightarrow> string option"
  env_choice :: "id \<Rightarrow> string \<Rightarrow> nat \<Rightarrow> nat"

section \<open>Gates\<close>

definition CORE_CONNECTIVITY_PLAYBOOK_NAMES :: "string list" where
  "CORE_CONNECTIVITY_PLAYBOOK_NAMES =
     [''core_connectivity_check_ssh'', ''core_connectivity_check_telnet'',
      ''core_connectivity_check_ssh-nat'', ''core_connectivity_check_telnet-nat'']"

definition SYSTEM_PLAYBOOK_NAMES :: "string list" where
  "SYSTEM_PLAYBOOK_NAMES =
     [''cpe_reboot'', ''cpe_factory_reset'', ''cpe_activate_tr069'', ''cpe_firmware_update'',
      ''huawei_onu_activate'', ''huawei_onu_plan_change'', ''huawei_onu_deactivate'',
      ''huawei_onu_reboot'', ''huawei_onu_deprovision''] @ CORE_CONNECTIVITY_PLAYBOOK_NAMES"

definition kill_switch_enabled :: "env \<Rightarrow> bool" where
  "kill_switch_enabled E =
     (str_lower (str_strip (case env_kill_switch E of None \<Rightarrow> ''false'' | Some v \<Rightarrow> v))
        \<in> set [''1'', ''true'', ''yes''])"

definition enable_gate_reason :: "env \<Rightarrow> device_type option \<Rightarrow> string option" where
  "enable_gate_reason E dt =
     (if kill_switch_enabled E then Some ''kill_switch''
      else (case dt of
              Some t \<Rightarrow> (if \<not> dt_enabled t then Some ''device_type_disabled'' else None)
            | None \<Rightarrow> None))"

definition gate_failure_of :: "env \<Rightarrow> playbook \<Rightarrow> device_type option \<Rightarrow> bool \<Rightarrow> gate_failure option" where
  "gate_failure_of E pb dt dry_run =
     (if dry_run then None
      else (case enable_gate_reason E dt of
              Some reason \<Rightarrow> Some (PROVISIONING_DISABLED reason)
            | None \<Rightarrow>
                (if pb_name pb \<notin> set SYSTEM_PLAYBOOK_NAMES \<and> pb_last_dry pb \<noteq> Some (pb_version pb)
                 then Some (DRY_RUN_REQUIRED (pb_version pb) (pb_last_dry pb)) else None)))"

record resolved =
  rv_path :: "resolved_node list"
  rv_steps :: "resolved_node list"
  rv_shared :: dict
  rv_device :: "(id \<times> dict) list"

definition node_playbook :: "db \<Rightarrow> resolved_node \<Rightarrow> playbook option" where
  \<comment> \<open>\<open>db.get(Playbook, node.playbook_id)\<close>\<close>
  "node_playbook d n = Option.bind (rn_playbook n) (\<lambda>i. get_playbook i d)"

definition node_type :: "db \<Rightarrow> resolved_node \<Rightarrow> device_type option" where
  "node_type d n = Option.bind (rn_type n) (\<lambda>i. find_by dt_id i (db_types d))"

definition node_gate :: "env \<Rightarrow> db \<Rightarrow> bool \<Rightarrow> resolved_node \<Rightarrow> gate_failure option" where
  "node_gate E d dry_run n =
     (case node_playbook d n of
        None \<Rightarrow> Some PLAYBOOK_NOT_FOUND
      | Some pb \<Rightarrow> gate_failure_of E pb (node_type d n) dry_run)"

definition run_gate_failures ::
  "env \<Rightarrow> db \<Rightarrow> resolved \<Rightarrow> bool \<Rightarrow> (gate_failure \<times> id \<times> id option) list" where
  "run_gate_failures E d rv dry_run =
     (if dry_run then []
      else List.map_filter (\<lambda>n. map_option (\<lambda>f. (f, rn_item n, rn_playbook n)) (node_gate E d dry_run n))
             (rv_steps rv))"

definition claim_time_gate_blocked :: "env \<Rightarrow> device_type option \<Rightarrow> bool" where
  "claim_time_gate_blocked E dt = (enable_gate_reason E dt \<noteq> None)"

section \<open>ACS bootstrap\<close>

definition acs_token_at :: "string \<Rightarrow> bool" where
  \<comment> \<open>\<open>\{\{\s*acs\.\<close> at the start of a text that went through \<open>json.dumps\<close>, where the only
      white space left unescaped is the blank\<close>
  "acs_token_at s = (prefix ''{{'' s \<and> prefix ''acs.'' (dropWhile (\<lambda>c. c = CHR '' '') (drop 2 s)))"

definition has_acs_token :: "string \<Rightarrow> bool" where
  "has_acs_token s = list_ex acs_token_at (suffixes s)"

fun texts :: "json \<Rightarrow> string list" where
  \<comment> \<open>every string of a dumped value, the keys included\<close>
  "texts (JStr s) = [s]"
| "texts (JDict d) = concat (map (\<lambda>p. fst p # texts (snd p)) d)"
| "texts (JList xs) = concat (map texts xs)"
| "texts v = []"

definition reads_acs :: "json list \<Rightarrow> bool" where
  "reads_acs definitions = list_ex (\<lambda>d. list_ex has_acs_token (texts d)) definitions"

definition ACS_NOT_CONFIGURED :: string where "ACS_NOT_CONFIGURED = ''ACS_NOT_CONFIGURED''"
definition ACS_VALUE_UNSAFE :: string where "ACS_VALUE_UNSAFE = ''ACS_VALUE_UNSAFE''"
definition ACS_SERIAL_CLAIMED :: string where "ACS_SERIAL_CLAIMED = ''ACS_SERIAL_CLAIMED''"

definition acs_value_safe :: "string \<Rightarrow> bool" where
  \<comment> \<open>\<open>ACS_VALUE_SAFE.fullmatch\<close>\<close>
  "acs_value_safe s = (s \<noteq> [] \<and> length s \<le> 128 \<and> list_all (\<lambda>c. is_alnum c \<or> c \<in> set ''_.:/+-'') s)"

definition acs_url :: "env \<Rightarrow> settings option \<Rightarrow> string option" where
  "acs_url E st =
     (let configured = Option.bind st ps_acs_url;
          raw = (case configured of
                   Some u \<Rightarrow> (if u \<noteq> [] then u else (case env_cwmp_url E of Some v \<Rightarrow> v | None \<Rightarrow> []))
                 | None \<Rightarrow> (case env_cwmp_url E of Some v \<Rightarrow> v | None \<Rightarrow> []));
          url = str_strip raw
      in if url = [] then None else Some url)"

definition inform_password :: "env \<Rightarrow> db \<Rightarrow> id \<Rightarrow> settings option \<Rightarrow> string option" where
  "inform_password E d company st =
     (case Option.bind st ps_cwmp_credential of
        None \<Rightarrow> None
      | Some cid \<Rightarrow>
          (case find_by cr_id cid (db_credentials d) of
             None \<Rightarrow> None
           | Some c \<Rightarrow> (if cr_company c \<noteq> company then None else env_open E (cr_secret c) company (cr_id c))))"

definition registration :: "db \<Rightarrow> id \<Rightarrow> string \<Rightarrow> id option \<Rightarrow> bool \<Rightarrow> db res" where
  "registration d company serial item_id ensure =
     (let rows = filter (\<lambda>r. rg_serial r = serial) (db_registrations d)
      in if list_ex (\<lambda>r. rg_company r \<noteq> Some company) rows then Inl (ResolutionError ACS_SERIAL_CLAIMED)
         else (case rows of
                 reg # _ \<Rightarrow>
                   Inr (if ensure \<and> rg_item reg = None \<and> item_id \<noteq> None
                        then d\<lparr>db_registrations := put_by rg_id (reg\<lparr>rg_item := item_id\<rparr>) (db_registrations d)\<rparr>
                        else d)
               | [] \<Rightarrow>
                   Inr (if ensure
                        then d\<lparr>db_next := Suc (db_next d),
                               db_registrations := db_registrations d @
                                 [\<lparr>rg_id = db_next d, rg_company = Some company, rg_serial = serial,
                                   rg_item = item_id\<rparr>]\<rparr>
                        else d)))"

definition acs_values ::
  "env \<Rightarrow> db \<Rightarrow> id \<Rightarrow> string option \<Rightarrow> id option \<Rightarrow> bool \<Rightarrow> (db \<times> string \<times> string) res" where
  "acs_values E d company serial item_id ensure =
     (let st = company_provisioning_settings d company
      in case acs_url E st of
           None \<Rightarrow> Inl (ResolutionError ACS_NOT_CONFIGURED)
         | Some url \<Rightarrow>
             (case inform_password E d company st of
                None \<Rightarrow> Inl (ResolutionError ACS_NOT_CONFIGURED)
              | Some password \<Rightarrow>
                  guardR (\<not> acs_value_safe url \<or> \<not> acs_value_safe password) (ResolutionError ACS_VALUE_UNSAFE)
                    (let sn = str_upper (str_strip (case serial of None \<Rightarrow> [] | Some s \<Rightarrow> s))
                     in guardR (sn = []) (ResolutionError ACS_NOT_CONFIGURED)
                          (bindR (registration d company sn item_id ensure)
                            (\<lambda>d'. Inr (d', url, password))))))"

section \<open>Properties\<close>

lemma run_gate_failures_Nil:
  "run_gate_failures E d rv False = [] \<longleftrightarrow> (\<forall>n\<in>set (rv_steps rv). node_gate E d False n = None)"
  by (auto simp: run_gate_failures_def List.map_filter_def filter_empty_conv)

text \<open>
  A live path passes the gates exactly when every configured node has a playbook, the
  kill switch is down, no node's device type is opted out, and every tenant playbook was
  dry-run at its current version. A dry run passes every gate.
\<close>

lemma gates_pass_iff:
  "(run_gate_failures E d rv False = [] \<longleftrightarrow>
      list_all (\<lambda>n. \<exists>pb. node_playbook d n = Some pb \<and> \<not> kill_switch_enabled E \<and>
         node_type d n \<notin> Some ` {t. \<not> dt_enabled t} \<and>
         (pb_last_dry pb \<noteq> Some (pb_version pb) \<longrightarrow> pb_name pb \<in> set SYSTEM_PLAYBOOK_NAMES))
       (rv_steps rv)) \<and>
   run_gate_failures E d rv True = []"
  unfolding run_gate_failures_Nil list_all_iff
  by (auto simp: node_gate_def gate_failure_of_def enable_gate_reason_def run_gate_failures_def
      split: option.splits if_splits) fastforce+

text \<open>
  Ensuring the ACS registration of a serial keeps the tenants apart: a serial that any
  other company holds, or that is quarantined, is refused; otherwise after it the serial is
  registered, only to this company, and no other registration changes. Without \<open>ensure\<close>
  nothing is written. The values returned can be put on a command line.
\<close>

lemma acs_values_tenant:
  assumes "acs_values E d company serial it ensure = Inr (d', url, password)"
    "distinct (map rg_id (db_registrations d))"
  shows "acs_value_safe url \<and> acs_value_safe password \<and>
    (\<not> ensure \<longrightarrow> d' = d) \<and>
    (let sn = str_upper (str_strip (case serial of None \<Rightarrow> [] | Some s \<Rightarrow> s))
     in (ensure \<longrightarrow> (\<exists>r\<in>set (db_registrations d'). rg_serial r = sn)) \<and>
        (\<forall>r\<in>set (db_registrations d'). rg_serial r = sn \<longrightarrow> rg_company r = Some company) \<and>
        filter (\<lambda>r. rg_serial r \<noteq> sn) (db_registrations d') = filter (\<lambda>r. rg_serial r \<noteq> sn) (db_registrations d))"
proof -
  let ?sn = "str_upper (str_strip (case serial of None \<Rightarrow> [] | Some s \<Rightarrow> s))"
  from assms(1) have safe: "acs_value_safe url" "acs_value_safe password"
    and reg: "registration d company ?sn it ensure = Inr d'"
    by (auto simp: acs_values_def Let_def guardR_Inr_iff bindR_Inr_iff split: option.splits)
  let ?rows = "filter (\<lambda>r. rg_serial r = ?sn) (db_registrations d)"
  from reg have own: "\<forall>r\<in>set (db_registrations d). rg_serial r = ?sn \<longrightarrow> rg_company r = Some company"
    by (auto simp: registration_def Let_def list_ex_iff split: if_splits)
  have same: "filter (\<lambda>r. rg_serial r \<noteq> ?sn) (put_by rg_id (g\<lparr>rg_item := it\<rparr>) rs)
      = filter (\<lambda>r. rg_serial r \<noteq> ?sn) rs" if "g \<in> set rs" "rg_serial g = ?sn" "distinct (map rg_id rs)" for g rs
    using that by (intro filter_put_by [of rg_id rs g]) auto
  show ?thesis
  proof (cases "?rows")
    case Nil
    with reg have "d' = (if ensure then d\<lparr>db_next := Suc (db_next d), db_registrations := db_registrations d @
        [\<lparr>rg_id = db_next d, rg_company = Some company, rg_serial = ?sn, rg_item = it\<rparr>]\<rparr> else d)"
      by (auto simp: registration_def Let_def split: if_splits)
    with safe own show ?thesis by (auto simp: Let_def)
  next
    case (Cons g gs)
    then have "g \<in> set ?rows" by simp
    then have g: "g \<in> set (db_registrations d)" "rg_serial g = ?sn" by simp_all
    from reg Cons have d': "d' = (if ensure \<and> rg_item g = None \<and> it \<noteq> None
        then d\<lparr>db_registrations := put_by rg_id (g\<lparr>rg_item := it\<rparr>) (db_registrations d)\<rparr> else d)"
      by (auto simp: registration_def Let_def split: if_splits)
    show ?thesis
      unfolding Let_def d' using safe own g same [OF g assms(2)]
      by (auto simp: set_put_by)
  qed
qed

lemma acs_values_tenant_witness:
  "\<exists>r\<in>set [\<lparr>rg_id = 5, rg_company = Some 7, rg_serial = ''SN1'', rg_item = Some 3\<rparr>].
     rg_serial r = ''SN1'' \<and> rg_company r = Some 7"
proof -
  let ?E = "\<lparr>env_canon = (\<lambda>_. None), env_kill_switch = None, env_cwmp_url = Some ''http://acs'',
      env_seal = (\<lambda>_ _ _. None), env_open = (\<lambda>s _ _. Some s), env_choice = (\<lambda>_ _ _. 0)\<rparr> :: env"
  let ?s = "\<lparr>ps_company = 7, ps_acs_url = None, ps_cwmp_credential = Some 2, ps_dial_target = ''device'',
      ps_gateway_host = None, ps_proxy_kind = ''none'', ps_proxy_address = None\<rparr> :: settings"
  let ?d = "\<lparr>db_now = 0, db_next = 5, db_runs = [], db_jobs = [], db_playbooks = [], db_types = [],
      db_services = [], db_items = [], db_settings = [?s],
      db_credentials = [\<lparr>cr_id = 2, cr_company = 7, cr_secret = ''pw''\<rparr>], db_registrations = [],
      db_actions = [], db_events = []\<rparr> :: db"
  let ?d' = "?d\<lparr>db_next := 6, db_registrations :=
      [\<lparr>rg_id = 5, rg_company = Some 7, rg_serial = ''SN1'', rg_item = Some 3\<rparr>]\<rparr>"
  have run: "acs_values ?E ?d 7 (Some '' sn1'') (Some 3) True = Inr (?d', ''http://acs'', ''pw'')" by code_simp
  have "distinct (map rg_id (db_registrations ?d))" by simp
  from acs_values_tenant [OF run this] have "\<exists>r\<in>set (db_registrations ?d'). rg_serial r = ''SN1''"
    and "\<forall>r\<in>set (db_registrations ?d'). rg_serial r = ''SN1'' \<longrightarrow> rg_company r = Some 7"
    by (auto simp: Let_def str_upper_def str_strip_def to_upper_def is_lower_def is_space_def)
  then show ?thesis by simp
qed

lemma gates_pass_iff_witness:
  "run_gate_failures \<lparr>env_canon = (\<lambda>_. None), env_kill_switch = Some '' TRUE '', env_cwmp_url = None,
      env_seal = (\<lambda>_ _ _. None), env_open = (\<lambda>s _ _. Some s), env_choice = (\<lambda>_ _ _. 0)\<rparr>
     \<lparr>db_now = 0, db_next = 5, db_runs = [], db_jobs = [], db_playbooks = [], db_types = [],
      db_services = [], db_items = [], db_settings = [], db_credentials = [], db_registrations = [],
      db_actions = [], db_events = []\<rparr>
     \<lparr>rv_path = [], rv_steps = [\<lparr>rn_position = 0, rn_item = 1, rn_serial = None, rn_type = None,
        rn_type_name = [], rn_category = None, rn_playbook = Some 9, rn_version = None, rn_label = None\<rparr>],
      rv_shared = [], rv_device = []\<rparr> False \<noteq> []"
  unfolding gates_pass_iff [THEN conjunct1] by (simp add: node_playbook_def get_playbook_def)

end
