(* ===== verification/Provisioning_Runs.thy ===== *)
theory Provisioning_Runs
  imports Provisioning_Gates
begin

text \<open>
  \<open>utils/provisioning_runs.py\<close>: a run is the container, each configured device gets its
  own child job, created lazily in plan order. The functions that change rows take the
  database and the run object and return both: \<open>save_run\<close> and \<open>add_job\<close> stand where the
  code flushes. An exception is a value; the database it leaves is the caller's savepoint.
\<close>

section \<open>Constants\<close>

definition STRANDED_RUN_GRACE :: int where "STRANDED_RUN_GRACE = 30"
definition STRANDED_RUN_MAX_AGE :: int where "STRANDED_RUN_MAX_AGE = 3600"
definition GUIDED_TIMEOUT_MIN :: int where "GUIDED_TIMEOUT_MIN = 300"
definition GUIDED_TIMEOUT_MAX :: int where "GUIDED_TIMEOUT_MAX = 14400"
definition GUIDED_TIMEOUT_DEFAULT :: int where "GUIDED_TIMEOUT_DEFAULT = 1800"

fun PHASE_MAX_ATTEMPTS :: "phase \<Rightarrow> nat" where
  "PHASE_MAX_ATTEMPTS PRECONDITIONS = 3"
| "PHASE_MAX_ATTEMPTS CONFIGURATION = 3"
| "PHASE_MAX_ATTEMPTS VERIFICATION = 3"
| "PHASE_MAX_ATTEMPTS ROLLBACK = 5"

definition FORWARD_PHASES :: "phase list" where
  "FORWARD_PHASES = [PRECONDITIONS, CONFIGURATION, VERIFICATION]"

definition TOP_DOWN_PURPOSES :: "string list" where
  "TOP_DOWN_PURPOSES = [PURPOSE_ACTIVATION, PURPOSE_DEPROVISION, PURPOSE_CPE_SWAP]"

section \<open>Keys and look-ups\<close>

definition run_idempotency_key :: "id \<Rightarrow> string \<Rightarrow> bool \<Rightarrow> string" where
  "run_idempotency_key client_service_id purpose dry_run =
     (let key = (if str_upper purpose = PURPOSE_DEPROVISION
                 then ''deprovision-'' @ show_nat client_service_id
                 else ''path-provision-'' @ show_nat client_service_id @ ''-'' @ str_lower purpose)
      in if dry_run then key @ ''-dry'' else key)"

definition find_in_flight_run :: "db \<Rightarrow> id \<Rightarrow> string \<Rightarrow> run option" where
  "find_in_flight_run d company key =
     (if key = [] then None
      else find (\<lambda>r. r_company r = company \<and> r_key r = Some key \<and> in_flight (r_status r)) (db_runs d))"

definition child_variables :: "run \<Rightarrow> id \<Rightarrow> dict" where
  "child_variables r item =
     dict_update (fr_shared (r_frames r))
       (case map_of (fr_device (r_frames r)) item of None \<Rightarrow> [] | Some v \<Rightarrow> v)"

definition definition_for :: "run \<Rightarrow> id \<Rightarrow> json" where
  "definition_for r playbook_id =
     (case map_of (fr_definitions (r_frames r)) playbook_id of
        None \<Rightarrow> JDict [] | Some v \<Rightarrow> (if truthy v then v else JDict []))"

section \<open>The plan\<close>

definition order_for_purpose :: "resolved_node list \<Rightarrow> string \<Rightarrow> resolved_node list" where
  "order_for_purpose steps purpose = (if purpose \<in> set TOP_DOWN_PURPOSES then rev steps else steps)"

definition device_label :: "resolved_node \<Rightarrow> string" where
  \<comment> \<open>the type's name and the node's label or serial, with a middle dot between\<close>
  "device_label n =
     (let text = (\<lambda>v. case v of None \<Rightarrow> [] | Some s \<Rightarrow> s);
          ident = (if text (rn_label n) \<noteq> [] then text (rn_label n) else text (rn_serial n))
      in join_with ('' '' @ [CHR 0xB7] @ '' '') (filter (\<lambda>p. p \<noteq> []) [rn_type_name n, ident]))"

definition needs_probe :: "json \<Rightarrow> bool \<Rightarrow> bool" where
  "needs_probe d cpe_not_up_yet =
     (if cpe_not_up_yet then False
      else if cli_steps d = [] then False
      else (case phase_steps d ''preconditions'' of
              [] \<Rightarrow> True
            | s # _ \<Rightarrow> jget ''driver'' s \<notin> set CLI_DRIVERS))"

definition step_label :: "json \<Rightarrow> plan_step" where
  "step_label s =
     \<lparr>ps_name = jget ''name'' s,
      ps_label = (if truthy (jget ''label'' s) then jget ''label'' s else jget ''name'' s),
      ps_manual = (jget ''driver'' s = JStr MANUAL_DRIVER), ps_skip = False\<rparr>"

definition plan_entry_of :: "resolved_node \<Rightarrow> id \<Rightarrow> phase \<Rightarrow> json list \<Rightarrow> bool \<Rightarrow> plan_entry" where
  "plan_entry_of n playbook_id ph steps probe =
     \<lparr>pe_item = rn_item n, pe_playbook = playbook_id, pe_version = rn_version n,
      pe_category = str_lower (case rn_category n of None \<Rightarrow> [] | Some c \<Rightarrow> c),
      pe_label = device_label n, pe_phase = Some ph, pe_steps = map step_label steps,
      pe_probe = probe, pe_ran = []\<rparr>"

definition secret_length :: "json \<Rightarrow> json" where
  \<comment> \<open>\<open>spec.get("length", 12)\<close>\<close>
  "secret_length spec = (case spec of
     JDict d \<Rightarrow> (case map_of d ''length'' of None \<Rightarrow> JInt 12 | Some v \<Rightarrow> v)
   | _ \<Rightarrow> JInt 12)"

fun collect_secrets :: "json list \<Rightarrow> (json \<times> json) list \<Rightarrow> (json \<times> json) list res" where
  \<comment> \<open>the secrets of one definition, into the specs collected so far\<close>
  "collect_secrets [] specs = Inr specs"
| "collect_secrets (spec # rest) specs =
     (let k = jget ''key'' spec; len = secret_length spec
      in guardR (case map_of specs k of None \<Rightarrow> False | Some old \<Rightarrow> old \<noteq> len)
           (ResolutionError ''SECRET_SPEC_CONFLICT'')
           (collect_secrets rest (AList.update k len specs)))"

fun collect_outputs :: "id \<Rightarrow> json list \<Rightarrow> (json \<times> id) list \<Rightarrow> (json \<times> id) list res" where
  "collect_outputs item [] owners = Inr owners"
| "collect_outputs item (out # rest) owners =
     (let k = jget ''key'' out;
          owners' = (if map_of owners k = None then owners @ [(k, item)] else owners)
      in guardR (map_of owners' k \<noteq> Some item) (ResolutionError ''OUTPUT_KEY_CONFLICT'')
           (collect_outputs item rest owners'))"

fun collect_specs ::
  "(id \<times> json) list \<Rightarrow> (json \<times> json) list \<Rightarrow> (json \<times> id) list \<Rightarrow> (json \<times> json) list res" where
  \<comment> \<open>the item and the definition of each configured node, in plan order\<close>
  "collect_specs [] specs owners = Inr specs"
| "collect_specs ((item, d) # rest) specs owners =
     bindR (collect_secrets (as_list (jget ''secrets'' d)) specs) (\<lambda>specs'.
     bindR (collect_outputs item (as_list (jget ''outputs'' d)) owners) (\<lambda>owners'.
       collect_specs rest specs' owners'))"

definition generate_secret :: "env \<Rightarrow> id \<Rightarrow> string \<Rightarrow> nat \<Rightarrow> string" where
  "generate_secret E run_id key len =
     map (\<lambda>i. SECRET_ALPHABET ! (env_choice E run_id key i mod length SECRET_ALPHABET)) [0..<len]"

definition encrypt_secrets :: "env \<Rightarrow> id \<Rightarrow> id \<Rightarrow> (json \<times> json) list \<Rightarrow> string res" where
  "encrypt_secrets E run_id company specs =
     (case env_seal E
         (map (\<lambda>(k, len). (as_str k, generate_secret E run_id (as_str k) (nat (json_int len)))) specs)
         company run_id of
        None \<Rightarrow> Inl (ResolutionError ''SECRETS_KEY_UNAVAILABLE'')
      | Some sealed \<Rightarrow> Inr sealed)"

section \<open>Queueing a child\<close>

definition lift_def :: "def_exn + 'a \<Rightarrow> 'a res" where
  "lift_def x = (case x of Inl e \<Rightarrow> Inl (BadDefinition e) | Inr v \<Rightarrow> Inr v)"

definition child_attempts :: "env \<Rightarrow> run \<Rightarrow> plan_entry \<Rightarrow> nat res" where
  "child_attempts E r entry =
     (case pe_phase entry of
        None \<Rightarrow> Inr 3
      | Some ph \<Rightarrow>
          bindR (lift_def (job_steps (env_canon E) (definition_for r (pe_playbook entry)) (Some ph)
                   (pe_probe entry)))
            (\<lambda>steps. Inr (PHASE_MAX_ATTEMPTS ph * max 1 (length steps))))"

definition child_job :: "run \<Rightarrow> nat \<Rightarrow> plan_entry \<Rightarrow> nat \<Rightarrow> job" where
  "child_job r position entry attempts =
     \<lparr>j_id = 0, j_company = r_company r, j_playbook = pe_playbook entry,
      j_service = Some (r_service r), j_item = Some (pe_item entry),
      j_variables = child_variables r (pe_item entry), j_dry = r_dry r,
      j_key = (case r_key r of
                 None \<Rightarrow> None
               | Some k \<Rightarrow> (if k = [] then None else Some (k @ ''#'' @ show_nat position))),
      j_trigger = r_trigger r, j_user = r_user r, j_lock = None, j_claim = None,
      j_run = Some (r_id r), j_position = Some position, j_phase = pe_phase entry,
      j_max_attempts = attempts, j_status = QUEUED, j_log = JNull, j_error = None,
      j_finished = None, j_pending_step = None, j_pending_tasks = JNull\<rparr>"

definition queue_child :: "env \<Rightarrow> db \<Rightarrow> run \<Rightarrow> nat \<Rightarrow> (db \<times> run \<times> job option) res" where
  "queue_child E d r position =
     (case nth_opt (r_plan r) position of
        None \<Rightarrow> Inr (d, r, None)
      | Some entry \<Rightarrow>
          bindR (child_attempts E r entry) (\<lambda>attempts.
          bindR (save_run (case pe_phase entry of None \<Rightarrow> r | Some ph \<Rightarrow> r\<lparr>r_phase := Some ph\<rparr>) d)
            (\<lambda>(r1, d1).
          bindR (add_job (child_job r1 position entry attempts) d1) (\<lambda>(j, d2).
            Inr (d2, r1, Some j)))))"

section \<open>Creating a run\<close>

definition node_definition :: "env \<Rightarrow> db \<Rightarrow> resolved_node \<Rightarrow> json res" where
  "node_definition E d n =
     lift_def (normalize_definition (env_canon E)
       (case node_playbook d n of
          None \<Rightarrow> JDict []
        | Some pb \<Rightarrow> (if truthy (pb_definition pb) then pb_definition pb else JDict [])))"

fun load_definitions ::
  "env \<Rightarrow> db \<Rightarrow> resolved_node list \<Rightarrow> (id \<times> json) list \<Rightarrow> (id \<times> json) list res" where
  \<comment> \<open>each playbook of the path once\<close>
  "load_definitions E d [] defs = Inr defs"
| "load_definitions E d (n # ns) defs =
     (let pid = (case rn_playbook n of None \<Rightarrow> 0 | Some p \<Rightarrow> p)
      in if map_of defs pid \<noteq> None then load_definitions E d ns defs
         else bindR (node_definition E d n) (\<lambda>v. load_definitions E d ns (defs @ [(pid, v)])))"

definition node_pid :: "resolved_node \<Rightarrow> id" where
  "node_pid n = (case rn_playbook n of None \<Rightarrow> 0 | Some p \<Rightarrow> p)"

definition def_of :: "(id \<times> json) list \<Rightarrow> resolved_node \<Rightarrow> json" where
  "def_of defs n = (case map_of defs (node_pid n) of None \<Rightarrow> JDict [] | Some v \<Rightarrow> v)"

definition plan_checks ::
  "env \<Rightarrow> db \<Rightarrow> service \<Rightarrow> resolved \<Rightarrow> string \<Rightarrow> bool
   \<Rightarrow> (db \<times> resolved_node list \<times> (id \<times> json) list \<times> (json \<times> json) list) res" where
  "plan_checks E d svc rv purpose ensure =
     (let ordered = order_for_purpose (rv_steps rv) purpose
      in bindR (load_definitions E d ordered []) (\<lambda>defs.
         bindR (collect_specs (map (\<lambda>n. (rn_item n, def_of defs n)) ordered) [] []) (\<lambda>specs.
           if reads_acs (map snd defs) then
             (let cpe = find (\<lambda>n. rn_position n = 0) (rv_path rv)
              in bindR (acs_values E d (sv_company svc) (Option.bind cpe rn_serial)
                          (map_option rn_item cpe) ensure)
                   (\<lambda>(d', values). Inr (d', ordered, defs, specs)))
           else Inr (d, ordered, defs, specs))))"

definition preflight_run :: "env \<Rightarrow> db \<Rightarrow> service \<Rightarrow> resolved \<Rightarrow> string \<Rightarrow> bool \<Rightarrow> db res" where
  "preflight_run E d svc rv purpose dry_run =
     bindR (plan_checks E d svc rv purpose False) (\<lambda>(d', ordered, defs, specs).
       if specs \<noteq> [] \<and> \<not> dry_run
       then bindR (encrypt_secrets E (db_next d') (sv_company svc) []) (\<lambda>sealed. Inr d')
       else Inr d')"

definition phase_entries ::
  "env \<Rightarrow> (id \<times> json) list \<Rightarrow> bool \<Rightarrow> phase \<Rightarrow> resolved_node list \<Rightarrow> plan_entry list res" where
  \<comment> \<open>the inner loop: one entry per node whose playbook has steps for the phase\<close>
  "phase_entries E defs bring_up ph nodes =
     foldr (\<lambda>n acc.
       (let dv = def_of defs n;
            probe = (ph = PRECONDITIONS \<and> needs_probe dv (bring_up \<and> rn_position n = 0))
        in bindR (lift_def (job_steps (env_canon E) dv (Some ph) probe)) (\<lambda>steps.
           bindR acc (\<lambda>rest.
             Inr ((if steps = [] then [] else [plan_entry_of n (node_pid n) ph steps probe]) @ rest)))))
       nodes (Inr [])"

definition build_plan ::
  "env \<Rightarrow> (id \<times> json) list \<Rightarrow> bool \<Rightarrow> bool \<Rightarrow> resolved_node list \<Rightarrow> plan_entry list res" where
  "build_plan E defs bring_up dry_run ordered =
     bindR (phase_entries E defs bring_up PRECONDITIONS ordered) (\<lambda>pre.
     bindR (phase_entries E defs bring_up CONFIGURATION ordered) (\<lambda>cfg.
     bindR (phase_entries E defs bring_up VERIFICATION ordered) (\<lambda>ver.
       if dry_run
       then bindR (phase_entries E defs bring_up ROLLBACK (rev ordered)) (\<lambda>rb.
              Inr (pre @ cfg @ ver @ rb))
       else Inr (pre @ cfg @ ver))))"

record run_request =
  rq_purpose :: string
  rq_dry :: bool
  rq_trigger :: trigger
  rq_user :: "id option"
  rq_key :: "string option"
  rq_extra :: dict
  rq_mode :: run_mode
  rq_guided :: "int option"

definition request_key :: "service \<Rightarrow> run_request \<Rightarrow> string" where
  \<comment> \<open>\<open>idempotency_key or run_idempotency_key(...)\<close>\<close>
  "request_key svc q =
     (case rq_key q of
        Some k \<Rightarrow> (if k \<noteq> [] then k else run_idempotency_key (sv_id svc) (rq_purpose q) (rq_dry q))
      | None \<Rightarrow> run_idempotency_key (sv_id svc) (rq_purpose q) (rq_dry q))"

definition new_run ::
  "db \<Rightarrow> service \<Rightarrow> resolved \<Rightarrow> run_request \<Rightarrow> int \<Rightarrow> plan_entry list \<Rightarrow> (id \<times> json) list
   \<Rightarrow> string option \<Rightarrow> run" where
  "new_run d svc rv q guided plan defs sealed =
     \<lparr>r_id = db_next d, r_company = sv_company svc, r_service = sv_id svc, r_created = db_now d,
      r_updated = db_now d, r_finished = None, r_purpose = rq_purpose q, r_dry = rq_dry q,
      r_mode = rq_mode q, r_guided = guided, r_status = QUEUED,
      r_phase = (case plan of [] \<Rightarrow> None | e # _ \<Rightarrow> pe_phase e),
      r_path = rv_path rv, r_plan = plan,
      r_frames = \<lparr>fr_shared = dict_update (rv_shared rv) (rq_extra q), fr_device = rv_device rv,
                  fr_definitions = defs, fr_rollback = None\<rparr>,
      r_key = Some (request_key svc q), r_trigger = rq_trigger q, r_user = rq_user q,
      r_error_code = None, r_error = None, r_outputs = [], r_secrets = sealed\<rparr>"

definition insert_run :: "run \<Rightarrow> db \<Rightarrow> db res" where
  \<comment> \<open>\<open>db.add(run); db.flush()\<close>\<close>
  "insert_run r d =
     guardR (run_key_taken r d) IntegrityError
       (Inr (d\<lparr>db_next := Suc (db_next d), db_runs := db_runs d @ [r]\<rparr>))"

definition create_run ::
  "env \<Rightarrow> db \<Rightarrow> service \<Rightarrow> resolved \<Rightarrow> run_request \<Rightarrow> (db \<times> run) res" where
  "create_run E d svc rv q =
     (let guided = (case rq_guided q of None \<Rightarrow> GUIDED_TIMEOUT_DEFAULT | Some g \<Rightarrow> g)
      in guardR (\<not> (GUIDED_TIMEOUT_MIN \<le> guided \<and> guided \<le> GUIDED_TIMEOUT_MAX)) ValueError
        (let gates = run_gate_failures E d rv (rq_dry q)
         in guardR (gates \<noteq> []) (GateError gates)
           (bindR (plan_checks E d svc rv (rq_purpose q) (\<not> rq_dry q)) (\<lambda>(d1, ordered, defs, specs).
            bindR (build_plan E defs (rq_purpose q \<notin> set TEARDOWN_PURPOSES) (rq_dry q) ordered) (\<lambda>plan.
            bindR (if specs \<noteq> [] \<and> \<not> rq_dry q
                   then bindR (encrypt_secrets E (db_next d1) (sv_company svc) specs) (\<lambda>s. Inr (Some s))
                   else Inr None) (\<lambda>sealed.
              let r = new_run d1 svc rv q guided plan defs sealed
              in bindR (insert_run r d1) (\<lambda>d2.
                 bindR (queue_child E d2 r 0) (\<lambda>(d3, r', child). Inr (d3, r')))))))))"

section \<open>Closing\<close>

definition close_run ::
  "db \<Rightarrow> run \<Rightarrow> job_status \<Rightarrow> run_code option \<Rightarrow> err_text option \<Rightarrow> (db \<times> run) res" where
  "close_run d r status error_code error =
     (let r1 = r\<lparr>r_status := status,
                 r_error_code := (case error_code of None \<Rightarrow> r_error_code r | Some c \<Rightarrow> Some c),
                 r_error := (case error of None \<Rightarrow> r_error r | Some e \<Rightarrow> Some e),
                 r_finished := Some (db_now d)\<rparr>
      in bindR (save_run r1 d) (\<lambda>(r2, d1).
           if r_dry r2 then Inr (d1, r2)
           else bindR (emit_event RUN_CLOSED None (Some r2) None
                         (ClosedPayload (r_status r2) (r_error_code r2)) d1)
                  (\<lambda>d2. Inr (d2, r2))))"

section \<open>Outputs and step logs of a child\<close>

definition output_row :: "job \<Rightarrow> plan_entry \<Rightarrow> json \<Rightarrow> dict" where
  "output_row jb entry out =
     dict_update (as_dict out)
       [(''item_id'', id_json (pe_item entry)), (''position'', JInt (int (pos jb))),
        (''category_key'', JStr (pe_category entry))]"

definition merge_output :: "dict \<Rightarrow> dict list \<Rightarrow> dict list" where
  "merge_output row merged =
     filter (\<lambda>x. (dget ''item_id'' x, dget ''key'' x) \<noteq> (dget ''item_id'' row, dget ''key'' row)) merged @ [row]"

definition merge_outputs :: "run \<Rightarrow> job \<Rightarrow> plan_entry \<Rightarrow> run" where
  "merge_outputs r jb entry =
     (let outs = as_list (jget ''outputs'' (j_log jb))
      in if outs = [] then r
         else r\<lparr>r_outputs := fold (\<lambda>out. merge_output (output_row jb entry out)) outs (r_outputs r)\<rparr>)"

definition log_steps :: "job \<Rightarrow> json list" where
  \<comment> \<open>the entries of \<open>job.log.steps\<close> that are dicts\<close>
  "log_steps jb = filter is_dict (as_list (jget ''steps'' (j_log jb)))"

definition last_entry :: "json \<Rightarrow> (json \<times> json) list \<Rightarrow> (json \<times> json) list" where
  "last_entry e acc =
     (if jget ''name'' e = JNull then acc
      else filter (\<lambda>p. fst p \<noteq> jget ''name'' e) acc @ [(jget ''name'' e, e)])"

definition last_entries :: "job \<Rightarrow> (json \<times> json) list" where
  "last_entries jb = fold last_entry (log_steps jb) []"

definition sent_nothing :: "json \<Rightarrow> bool" where
  \<comment> \<open>a log entry that cannot have changed the device\<close>
  "sent_nothing e =
     (jget ''status'' e = JStr ''SKIPPED'' \<or>
      jget ''status'' e = JStr ''FAILED'' \<and>
        jget ''stage'' (jget ''detail'' e) \<in> set [JStr ''connect'', JStr ''render''])"

definition ran_entry :: "json \<Rightarrow> json list \<Rightarrow> json list" where
  "ran_entry e did =
     (let name = jget ''name'' e
      in if name = JNull \<or> name = JStr SESSION_PROBE_STEP \<or> name \<in> set did \<or> sent_nothing e
         then did else did @ [name])"

definition ran_steps :: "job \<Rightarrow> json list" where
  "ran_steps jb =
     (let did = fold ran_entry (log_steps jb) [];
          name = jget ''interrupted_step'' (j_log jb)
      in if is_str name \<and> name \<noteq> JStr SESSION_PROBE_STEP \<and> name \<notin> set did then did @ [name] else did)"

definition label_of :: "plan_entry \<Rightarrow> json \<Rightarrow> json" where
  "label_of entry name =
     (case find (\<lambda>s. ps_name s = name) (pe_steps entry) of
        None \<Rightarrow> name
      | Some s \<Rightarrow> (if truthy (ps_label s) then ps_label s else name))"

definition or_else :: "json \<Rightarrow> json \<Rightarrow> json" where
  "or_else a b = (if truthy a then a else b)"

definition failed_steps :: "job \<Rightarrow> plan_entry \<Rightarrow> rb_detail list" where
  "failed_steps jb entry =
     map (\<lambda>(name, e). Detail (JStr (pe_label entry))
            (or_else (jget ''label'' e) (label_of entry name))
            (or_else (jget ''code'' e) (jget ''code'' (jget ''detail'' e)))
            (jget ''display'' e))
       (filter (\<lambda>(name, e). jget ''status'' e = JStr ''FAILED'') (last_entries jb))"

fun status_json :: "job_status \<Rightarrow> json" where
  "status_json QUEUED = JStr ''QUEUED''"
| "status_json RUNNING = JStr ''RUNNING''"
| "status_json SUCCEEDED = JStr ''SUCCEEDED''"
| "status_json FAILED = JStr ''FAILED''"
| "status_json ROLLED_BACK = JStr ''ROLLED_BACK''"
| "status_json CANCELLED = JStr ''CANCELLED''"
| "status_json PENDING_INFORM = JStr ''PENDING_INFORM''"
| "status_json PENDING_MANUAL = JStr ''PENDING_MANUAL''"

definition failure_text :: "job \<Rightarrow> plan_entry \<Rightarrow> err_text" where
  "failure_text jb entry =
     (case rev (failed_steps jb entry) of
        Detail device step code display # _ \<Rightarrow>
          ErrStep device step (or_else display (or_else code (status_json (j_status jb))))
      | [] \<Rightarrow> ErrDevice (JStr (pe_label entry))
                (or_else (jget ''code'' (j_log jb)) (status_json (j_status jb))))"

section \<open>Planning a rollback\<close>

definition entry_at :: "run \<Rightarrow> job \<Rightarrow> plan_entry option" where
  "entry_at r jb = nth_opt (r_plan r) (pos jb)"

definition phase_at :: "run \<Rightarrow> job \<Rightarrow> phase option" where
  "phase_at r jb = Option.bind (entry_at r jb) pe_phase"

definition config_children :: "db \<Rightarrow> run \<Rightarrow> job list" where
  \<comment> \<open>the CONFIGURATION children, last configured first\<close>
  "config_children d r =
     sort_key (\<lambda>j. - int (pos j)) (filter (\<lambda>j. phase_at r j = Some CONFIGURATION) (children d r))"

definition undo_step :: "json list \<Rightarrow> json list \<Rightarrow> plan_step \<Rightarrow> plan_step" where
  \<comment> \<open>a rollback step whose \<open>undoes\<close> did not run is planned as skipped\<close>
  "undo_step rollback did s =
     (let undoes = (case find (\<lambda>r. jget ''name'' r = ps_name s) rollback of
                      None \<Rightarrow> JNull | Some r \<Rightarrow> jget ''undoes'' r)
      in if truthy undoes \<and> undoes \<notin> set did then s\<lparr>ps_skip := True\<rparr> else s)"

record rollback_part =
  rp_touched :: "id list"
  rp_entries :: "plan_entry list"
  rp_no_rollback :: "id list"

definition no_part :: rollback_part where
  "no_part = \<lparr>rp_touched = [], rp_entries = [], rp_no_rollback = []\<rparr>"

definition needs_undo :: "json \<Rightarrow> json list \<Rightarrow> bool" where
  \<comment> \<open>some step that ran has a driver that changes devices\<close>
  "needs_undo dv did =
     (let drivers = map_of (rev (map (\<lambda>s. (jget ''name'' s, jget ''driver'' s)) (phase_steps dv ''configuration'')))
      in \<not> list_all (\<lambda>n. (case drivers n of None \<Rightarrow> JNull | Some v \<Rightarrow> v) \<in> set NO_UNDO_DRIVERS) did)"

definition rollback_of :: "run \<Rightarrow> id list option \<Rightarrow> job \<Rightarrow> plan_entry \<Rightarrow> rollback_part" where
  \<comment> \<open>the loop body for one configuration child\<close>
  "rollback_of r items jb entry =
     (let item = pe_item entry; did = ran_steps jb;
          dv = definition_for r (pe_playbook entry);
          rollback = phase_steps dv ''rollback'';
          steps = map (undo_step rollback did) (map step_label rollback)
      in if (case items of None \<Rightarrow> False | Some wanted \<Rightarrow> item \<notin> set wanted) \<or> did = [] then no_part
         else if rollback = [] then
           no_part\<lparr>rp_touched := [item], rp_no_rollback := (if needs_undo dv did then [item] else [])\<rparr>
         else if list_all ps_skip steps then no_part\<lparr>rp_touched := [item]\<rparr>
         else no_part\<lparr>rp_touched := [item],
                rp_entries := [entry\<lparr>pe_phase := Some ROLLBACK, pe_steps := steps, pe_probe := False,
                                     pe_ran := did\<rparr>]\<rparr>)"

definition plan_rollback :: "db \<Rightarrow> run \<Rightarrow> id list option \<Rightarrow> rollback_part" where
  "plan_rollback d r items =
     (let parts = List.map_filter (\<lambda>jb. map_option (rollback_of r items jb) (entry_at r jb)) (config_children d r)
      in \<lparr>rp_touched = concat (map rp_touched parts), rp_entries = concat (map rp_entries parts),
          rp_no_rollback = concat (map rp_no_rollback parts)\<rparr>)"

definition empty_rollback :: rollback_state where
  "empty_rollback = \<lparr>rb_cause_code = None, rb_cause_error = None, rb_no_rollback = []\<rparr>"

definition rollback_state_of :: "run \<Rightarrow> rollback_state" where
  "rollback_state_of r = (case fr_rollback (r_frames r) of None \<Rightarrow> empty_rollback | Some s \<Rightarrow> s)"

definition record_rollback :: "run \<Rightarrow> plan_entry list \<Rightarrow> id list \<Rightarrow> run" where
  "record_rollback r entries no_rollback =
     (let st = rollback_state_of r
      in r\<lparr>r_frames := (r_frames r)\<lparr>fr_rollback :=
               Some (st\<lparr>rb_no_rollback := sort (remdups (rb_no_rollback st @ no_rollback))\<rparr>)\<rparr>,
           r_plan := r_plan r @ entries\<rparr>)"

definition append_rollback :: "db \<Rightarrow> run \<Rightarrow> id list option \<Rightarrow> (db \<times> run \<times> plan_entry list) res" where
  "append_rollback d r items =
     (let part = plan_rollback d r items
      in bindR (save_run (record_rollback r (rp_entries part) (rp_no_rollback part)) d)
           (\<lambda>(r1, d1). Inr (d1, r1, rp_entries part)))"

definition set_cause :: "run \<Rightarrow> run_code \<Rightarrow> err_text option \<Rightarrow> run" where
  "set_cause r code error =
     r\<lparr>r_frames := (r_frames r)\<lparr>fr_rollback :=
           Some \<lparr>rb_cause_code = Some code, rb_cause_error = error, rb_no_rollback = []\<rparr>\<rparr>,
       r_error_code := Some code, r_error := error\<rparr>"

definition item_label :: "run \<Rightarrow> id \<Rightarrow> json" where
  "item_label r item =
     (case find (\<lambda>e. pe_item e = item) (r_plan r) of
        None \<Rightarrow> id_json item | Some e \<Rightarrow> JStr (pe_label e))"

definition no_rollback_details :: "run \<Rightarrow> id list \<Rightarrow> rb_detail list" where
  "no_rollback_details r items =
     map (\<lambda>i. Detail (item_label r i) JNull (JStr ''NO_ROLLBACK_DEFINED'') JNull) items"

definition rollback_incomplete_text :: "run \<Rightarrow> rb_detail list \<Rightarrow> err_text" where
  "rollback_incomplete_text r details = ErrIncomplete (rb_cause_error (rollback_state_of r)) details"

definition close_after_rollback_planned ::
  "env \<Rightarrow> db \<Rightarrow> run \<Rightarrow> plan_entry list \<Rightarrow> id list \<Rightarrow> (db \<times> run \<times> job option) res" where
  "close_after_rollback_planned E d r entries no_rollback =
     (if entries \<noteq> [] then
        queue_child E d (r\<lparr>r_phase := Some ROLLBACK, r_status := RUNNING\<rparr>)
          (length (r_plan r) - length entries)
      else if no_rollback \<noteq> [] then
        bindR (close_run d r FAILED (Some ROLLBACK_INCOMPLETE)
                 (Some (rollback_incomplete_text r (no_rollback_details r no_rollback))))
          (\<lambda>(d1, r1). Inr (d1, r1, None))
      else bindR (close_run d r ROLLED_BACK None None) (\<lambda>(d1, r1). Inr (d1, r1, None)))"

definition enter_rollback ::
  "env \<Rightarrow> db \<Rightarrow> run \<Rightarrow> run_code \<Rightarrow> err_text option \<Rightarrow> bool \<Rightarrow> (db \<times> run \<times> job option) res" where
  "enter_rollback E d r code error cancelled =
     (let r1 = set_cause r code error; part = plan_rollback d r1 None
      in if rp_touched part = [] then
           bindR (close_run d r1 (if cancelled then CANCELLED else FAILED) None None)
             (\<lambda>(d1, r2). Inr (d1, r2, None))
         else close_after_rollback_planned E d
                (record_rollback r1 (rp_entries part) (rp_no_rollback part))
                (rp_entries part) (rp_no_rollback part))"

definition rollback_children :: "db \<Rightarrow> run \<Rightarrow> job list" where
  "rollback_children d r = filter (\<lambda>j. phase_at r j = Some ROLLBACK) (children d r)"

definition item_at :: "run \<Rightarrow> job \<Rightarrow> id" where
  "item_at r jb = (case entry_at r jb of None \<Rightarrow> 0 | Some e \<Rightarrow> pe_item e)"

definition latest_rollback :: "db \<Rightarrow> run \<Rightarrow> (id \<times> job) list" where
  \<comment> \<open>the last rollback child of each item\<close>
  "latest_rollback d r = fold (\<lambda>jb. AList.update (item_at r jb) jb) (rollback_children d r) []"

definition job_details :: "run \<Rightarrow> job \<Rightarrow> rb_detail list" where
  "job_details r jb =
     (case entry_at r jb of
        None \<Rightarrow> []
      | Some entry \<Rightarrow>
          (let steps = failed_steps jb entry
           in if steps \<noteq> [] then steps
              else [Detail (JStr (pe_label entry)) JNull
                      (or_else (jget ''code'' (j_log jb)) (status_json (j_status jb))) JNull]))"

definition incomplete_row :: "run \<Rightarrow> job \<Rightarrow> action_log" where
  \<comment> \<open>the \<open>rollback_incomplete\<close> line of the device audit trail\<close>
  "incomplete_row r jb =
     \<lparr>al_company = r_company r, al_actor = ''system'', al_user = None,
      al_device_kind = (case entry_at r jb of None \<Rightarrow> [] | Some e \<Rightarrow> pe_category e),
      al_device = (case entry_at r jb of None \<Rightarrow> JNull | Some e \<Rightarrow> JStr (pe_label e)),
      al_action = ''rollback_incomplete'', al_job = j_id jb, al_steps = [],
      al_failed = job_details r jb\<rparr>"

definition finish_rollback :: "db \<Rightarrow> run \<Rightarrow> (db \<times> run) res" where
  "finish_rollback d r =
     (let no_rollback = rb_no_rollback (rollback_state_of r);
          failed = filter (\<lambda>j. j_status j \<notin> set TERMINAL_OK) (map snd (latest_rollback d r))
      in if failed = [] \<and> no_rollback = [] then close_run d r ROLLED_BACK None None
         else close_run (d\<lparr>db_actions := db_actions d @ map (incomplete_row r) failed\<rparr>) r FAILED
                (Some ROLLBACK_INCOMPLETE)
                (Some (rollback_incomplete_text r
                   (concat (map (job_details r) failed) @ no_rollback_details r no_rollback))))"

section \<open>Advancing\<close>

definition stamp_dry_run :: "plan_entry \<Rightarrow> db \<Rightarrow> db" where
  "stamp_dry_run entry d =
     (case get_playbook (pe_playbook entry) d of
        None \<Rightarrow> d
      | Some pb \<Rightarrow> (if Some (pb_version pb) = pe_version entry
                   then put_playbook (pb\<lparr>pb_last_dry := Some (pb_version pb)\<rparr>) d else d))"

definition finish_dry_run :: "db \<Rightarrow> run \<Rightarrow> (db \<times> run) res" where
  "finish_dry_run d r =
     (let jobs = children d r;
          ok = (jobs \<noteq> [] \<and> list_all (\<lambda>j. j_status j \<in> set TERMINAL_OK) jobs)
      in bindR (close_run d r (if ok then SUCCEEDED else FAILED) None None) (\<lambda>(d1, r1).
           Inr (if ok then fold stamp_dry_run (r_plan r1) d1 else d1, r1)))"

definition succeed :: "db \<Rightarrow> run \<Rightarrow> (db \<times> run) res" where
  "succeed d r =
     bindR (close_run d r SUCCEEDED None None) (\<lambda>(d1, r1).
       Inr (if r_purpose r1 \<in> set [PURPOSE_ACTIVATION, PURPOSE_CPE_SWAP]
            then (case get_service (r_service r1) d1 of
                    None \<Rightarrow> d1
                  | Some sv \<Rightarrow> put_service (sv\<lparr>sv_path_changed := None\<rparr>) d1)
            else d1, r1))"

definition close_result :: "(db \<times> run) res \<Rightarrow> (db \<times> run \<times> job option) res" where
  "close_result x = bindR x (\<lambda>(d, r). Inr (d, r, None))"

definition run_continues :: "db \<times> run \<times> job option \<Rightarrow> (db \<times> run \<times> job option) res" where
  \<comment> \<open>\<open>run.status = RUNNING; db.flush(); return nxt\<close>\<close>
  "run_continues x = (case x of (d, r, nxt) \<Rightarrow>
     bindR (save_run (r\<lparr>r_status := RUNNING\<rparr>) d) (\<lambda>(r1, d1). Inr (d1, r1, nxt)))"

definition advance_legacy :: "env \<Rightarrow> db \<Rightarrow> run \<Rightarrow> job \<Rightarrow> (db \<times> run \<times> job option) res" where
  "advance_legacy E d r jb =
     (if j_status jb \<notin> set TERMINAL_OK then close_result (close_run d r (j_status jb) None None)
      else bindR (queue_child E d r (pos jb + 1)) (\<lambda>(d1, r1, nxt).
        (case nxt of
           None \<Rightarrow> close_result (if r_dry r1 then close_run d1 r1 SUCCEEDED None None else succeed d1 r1)
         | Some c \<Rightarrow> run_continues (d1, r1, nxt))))"

definition advance_forward :: "env \<Rightarrow> db \<Rightarrow> run \<Rightarrow> job \<Rightarrow> phase \<Rightarrow> (db \<times> run \<times> job option) res" where
  \<comment> \<open>the next entry whatever this branch, or the end of the plan\<close>
  "advance_forward E d r jb ph =
     bindR (queue_child E d r (pos jb + 1)) (\<lambda>(d1, r1, nxt).
       (case nxt of
          Some c \<Rightarrow> run_continues (d1, r1, nxt)
        | None \<Rightarrow> close_result (if r_dry r1 then finish_dry_run d1 r1
                               else if ph = ROLLBACK then finish_rollback d1 r1
                               else succeed d1 r1)))"

definition advance_failed :: "env \<Rightarrow> db \<Rightarrow> run \<Rightarrow> job \<Rightarrow> plan_entry \<Rightarrow> phase \<Rightarrow> (db \<times> run \<times> job option) res" where
  \<comment> \<open>a child of a live run that did not succeed, in a forward phase\<close>
  "advance_failed E d r jb entry ph =
     (let cancelled = (j_status jb = CANCELLED)
      in if ph = PRECONDITIONS then
           close_result (if cancelled then close_run d r CANCELLED (Some RUN_CANCELLED) None
                         else close_run d r FAILED (Some PRECONDITION_FAILED) (Some (failure_text jb entry)))
         else enter_rollback E d r
                (if cancelled then RUN_CANCELLED
                 else if ph = CONFIGURATION then CONFIGURATION_FAILED else VERIFICATION_FAILED)
                (Some (failure_text jb entry)) cancelled)"

definition advance_locked :: "env \<Rightarrow> db \<Rightarrow> run \<Rightarrow> job \<Rightarrow> (db \<times> run \<times> job option) res" where
  \<comment> \<open>once the guards are passed\<close>
  "advance_locked E d r jb =
     (case entry_at r jb of
        None \<Rightarrow> advance_legacy E d r jb
      | Some entry \<Rightarrow>
          (case pe_phase entry of
             None \<Rightarrow> advance_legacy E d r jb
           | Some ph \<Rightarrow>
               (let r1 = merge_outputs r jb entry
                in if r_dry r1 \<or> j_status jb \<in> set TERMINAL_OK \<or> ph = ROLLBACK
                   then advance_forward E d r1 jb ph
                   else advance_failed E d r1 jb entry ph)))"

definition later_child :: "db \<Rightarrow> run \<Rightarrow> job \<Rightarrow> bool" where
  "later_child d r jb = list_ex (\<lambda>j. pos jb < pos j \<and> j_position j \<noteq> None) (kids d (r_id r))"

definition advance_run :: "env \<Rightarrow> db \<Rightarrow> job \<Rightarrow> (db \<times> job option) res" where
  "advance_run E d jb =
     (case Option.bind (j_run jb) (\<lambda>i. get_run i d) of
        None \<Rightarrow> Inr (d, None)
      | Some r \<Rightarrow>
          (if \<not> in_flight (r_status r) then Inr (d, None)
           else if in_flight (j_status jb) then Inr (d, None)
           else if later_child d r jb then Inr (d, None)
           else bindR (advance_locked E d r jb) (\<lambda>(d1, r1, nxt). Inr (d1, nxt))))"

section \<open>Office actions\<close>

definition in_flight_for_service :: "db \<Rightarrow> run \<Rightarrow> bool" where
  "in_flight_for_service d r =
     list_ex (\<lambda>q. r_service q = r_service r \<and> r_id q \<noteq> r_id r \<and> in_flight (r_status q)) (db_runs d)"

definition later_run_for_service :: "db \<Rightarrow> run \<Rightarrow> bool" where
  "later_run_for_service d r =
     list_ex (\<lambda>q. r_service q = r_service r \<and> r_id q \<noteq> r_id r \<and> \<not> r_dry q \<and> r_created r < r_created q)
       (db_runs d)"

definition service_refuses :: "db \<Rightarrow> run \<Rightarrow> bool" where
  "service_refuses d r = (in_flight_for_service d r \<or> later_run_for_service d r)"

definition revert_refused :: "db \<Rightarrow> run \<Rightarrow> bool" where
  "revert_refused d r =
     (r_dry r \<or> r_status r \<noteq> SUCCEEDED \<or> r_phase r = None \<or> r_purpose r \<noteq> PURPOSE_ACTIVATION
      \<or> service_refuses d r)"

definition rollback_retry_refused :: "db \<Rightarrow> run \<Rightarrow> bool" where
  "rollback_retry_refused d r =
     (r_dry r \<or> r_status r \<noteq> FAILED \<or> r_error_code r \<noteq> Some ROLLBACK_INCOMPLETE \<or> r_phase r = None
      \<or> service_refuses d r)"

definition revert_run :: "env \<Rightarrow> db \<Rightarrow> id \<Rightarrow> (db \<times> run \<times> job option) res" where
  "revert_run E d rid =
     (case get_run rid d of
        None \<Rightarrow> Inl NoSuchRow
      | Some r \<Rightarrow>
          guardR (revert_refused d r) RunNotRevertible
            (let r1 = (set_cause r REVERTED None)\<lparr>r_status := RUNNING, r_phase := Some ROLLBACK, r_finished := None\<rparr>;
                 part = plan_rollback d r1 None
             in close_after_rollback_planned E d
                  (record_rollback r1 (rp_entries part) (rp_no_rollback part))
                  (rp_entries part) (rp_no_rollback part)))"

definition retry_items :: "db \<Rightarrow> run \<Rightarrow> id list" where
  \<comment> \<open>items with a ROLLBACK entry whose latest child did not succeed, or that has none\<close>
  "retry_items d r =
     (let init = map (\<lambda>i. (i, None))
            (dedup (map pe_item (filter (\<lambda>e. pe_phase e = Some ROLLBACK) (r_plan r))));
          latest = fold (\<lambda>jb. AList.update (item_at r jb) (Some jb)) (rollback_children d r) init
      in map fst (filter (\<lambda>(i, j). case j of None \<Rightarrow> True | Some jb \<Rightarrow> j_status jb \<notin> set TERMINAL_OK) latest))"

definition retry_rollback :: "env \<Rightarrow> db \<Rightarrow> id \<Rightarrow> (db \<times> run \<times> job option) res" where
  "retry_rollback E d rid =
     (case get_run rid d of
        None \<Rightarrow> Inl NoSuchRow
      | Some r \<Rightarrow>
          guardR (rollback_retry_refused d r) RunNotRevertible
            (let items = retry_items d r; st = rollback_state_of r;
                 r1 = r\<lparr>r_error_code := (case rb_cause_code st of None \<Rightarrow> r_error_code r | Some c \<Rightarrow> Some c),
                        r_error := rb_cause_error st, r_status := RUNNING, r_phase := Some ROLLBACK,
                        r_finished := None\<rparr>
             in bindR (if items \<noteq> [] then append_rollback d r1 (Some items) else Inr (d, r1, []))
                  (\<lambda>(d1, r2, entries).
                    if entries \<noteq> [] then queue_child E d1 r2 (length (r_plan r2) - length entries)
                    else close_result (finish_rollback d1 r2))))"

section \<open>Get or create\<close>

definition create_or_get_run ::
  "env \<Rightarrow> (db \<Rightarrow> db) \<Rightarrow> db \<Rightarrow> service \<Rightarrow> resolved \<Rightarrow> run_request \<Rightarrow> (db \<times> run \<times> bool) res" where
  \<comment> \<open>\<open>race\<close> is what other sessions commit between the look-up and the insert\<close>
  "create_or_get_run E race d svc rv q =
     (let key = request_key svc q
      in case find_in_flight_run d (sv_company svc) key of
           Some r \<Rightarrow> Inr (d, r, False)
         | None \<Rightarrow>
             (case create_run E (race d) svc rv (q\<lparr>rq_key := Some key\<rparr>) of
                Inr (d1, r) \<Rightarrow> Inr (d1, r, True)
              | Inl IntegrityError \<Rightarrow>
                  (case find_in_flight_run (race d) (sv_company svc) key of
                     None \<Rightarrow> Inl IntegrityError
                   | Some r \<Rightarrow> Inr (race d, r, False))
              | Inl e \<Rightarrow> Inl e))"

section \<open>The backstop\<close>

definition last_child :: "db \<Rightarrow> id \<Rightarrow> job option" where
  \<comment> \<open>\<open>ORDER BY run_position DESC LIMIT 1\<close>\<close>
  "last_child d rid =
     (case sort_key (\<lambda>j. - int (pos j)) (kids d rid) of [] \<Rightarrow> None | j # _ \<Rightarrow> Some j)"

definition has_live_child :: "db \<Rightarrow> run \<Rightarrow> bool" where
  "has_live_child d r = list_ex (\<lambda>j. in_flight (j_status j)) (kids d (r_id r))"

definition stranded_runs :: "db \<Rightarrow> nat \<Rightarrow> (run \<Rightarrow> bool) \<Rightarrow> run list" where
  "stranded_runs d limit where_clause =
     take limit (sort_key r_updated (filter (\<lambda>r. in_flight (r_status r) \<and>
        r_updated r < db_now d - STRANDED_RUN_GRACE \<and> \<not> has_live_child d r \<and> where_clause r) (db_runs d)))"

definition forget :: "(db \<times> 'a) res \<Rightarrow> (db \<times> bool) res" where
  "forget x = bindR x (\<lambda>(d, y). Inr (d, True))"

definition run_expired :: "db \<Rightarrow> run \<Rightarrow> job option \<Rightarrow> bool" where
  "run_expired d r lc =
     (let quiet_since = (case Option.bind lc j_finished of None \<Rightarrow> r_updated r | Some t \<Rightarrow> t)
      in quiet_since < db_now d - STRANDED_RUN_MAX_AGE)"

definition repair_run :: "env \<Rightarrow> db \<Rightarrow> run \<Rightarrow> (db \<times> bool) res" where
  \<comment> \<open>the body of the loop, inside its savepoint; the flag is whether the run counts as repaired\<close>
  "repair_run E d r =
     (let lc = last_child d (r_id r)
      in if (case lc of None \<Rightarrow> False | Some jb \<Rightarrow> in_flight (j_status jb)) then Inr (d, False)
         else if run_expired d r lc \<and> r_phase r = Some ROLLBACK \<and> \<not> r_dry r then
           (case lc of
              None \<Rightarrow> forget (close_run d r FAILED (Some ROLLBACK_INCOMPLETE) None)
            | Some jb \<Rightarrow> forget (advance_run E d jb))
         else if run_expired d r lc \<and> \<not> r_dry r \<and>
             (case lc of None \<Rightarrow> False | Some jb \<Rightarrow> j_status jb \<in> set TERMINAL_OK \<and> Suc (pos jb) = length (r_plan r))
           then (case lc of None \<Rightarrow> Inr (d, True) | Some jb \<Rightarrow> forget (advance_run E d jb))
         else if run_expired d r lc \<and> \<not> r_dry r \<and> r_phase r \<in> {Some CONFIGURATION, Some VERIFICATION} then
           forget (enter_rollback E d r STRANDED_RUN_EXPIRED (Some (ErrText ''STRANDED'')) False)
         else if run_expired d r lc then
           forget (close_run d r FAILED (Some STRANDED_RUN_EXPIRED) None)
         else (case lc of
             None \<Rightarrow>
               bindR (queue_child E d r 0) (\<lambda>(d1, r1, nxt).
                 (case nxt of
                    None \<Rightarrow> forget (close_run d1 r1 SUCCEEDED None None)
                  | Some c \<Rightarrow> Inr (d1, True)))
           | Some jb \<Rightarrow> forget (advance_run E d jb)))"

fun repair_all :: "env \<Rightarrow> db \<Rightarrow> id list \<Rightarrow> nat \<Rightarrow> db \<times> nat" where
  \<comment> \<open>a run whose repair raises is left as its savepoint found it\<close>
  "repair_all E d [] n = (d, n)"
| "repair_all E d (i # rest) n =
     (case get_run i d of
        None \<Rightarrow> repair_all E d rest n
      | Some r \<Rightarrow>
          (case repair_run E d r of
             Inl e \<Rightarrow> repair_all E d rest n
           | Inr (d1, counted) \<Rightarrow> repair_all E d1 rest (if counted then Suc n else n)))"

definition repair_stranded_runs :: "env \<Rightarrow> db \<Rightarrow> nat \<Rightarrow> (run \<Rightarrow> bool) \<Rightarrow> db \<times> nat" where
  "repair_stranded_runs E d limit where_clause =
     repair_all E d (map r_id (stranded_runs d limit where_clause)) 0"

section \<open>Reading captures and the parked step\<close>

definition run_captures :: "db \<Rightarrow> job \<Rightarrow> dict" where
  "run_captures d jb =
     fold (\<lambda>s merged. dict_update merged (as_dict (jget ''captures'' (j_log s))))
       (sort_key pos (filter (\<lambda>s. j_run s = j_run jb \<and> j_run jb \<noteq> None \<and> j_item s = j_item jb \<and>
          j_item jb \<noteq> None \<and> j_position s \<noteq> None \<and> pos s < pos jb) (db_jobs d))) []"

definition parked_step :: "env \<Rightarrow> run \<Rightarrow> job \<Rightarrow> json res" where
  "parked_step E r jb =
     bindR (lift_def (job_steps (env_canon E) (definition_for r (j_playbook jb)) (j_phase jb) False)) (\<lambda>steps.
       Inr (case j_pending_step jb of
              None \<Rightarrow> JDict []
            | Some i \<Rightarrow> (if 0 \<le> i \<and> i < int (length steps) then steps ! nat i else JDict [])))"

end
