(* ===== verification/Provisioning_Jobs.thy ===== *)
theory Provisioning_Jobs
  imports Provisioning_Runs
begin

text \<open>
  \<open>utils/provisioning_jobs.py\<close>: the one terminal transition of a job and its follow-ons,
  each in its own savepoint, and the failure of a parked job.
\<close>

section \<open>Follow-ons\<close>

definition job_playbook :: "db \<Rightarrow> job \<Rightarrow> playbook option" where
  "job_playbook d jb = get_playbook (j_playbook jb) d"

definition tr069_steps :: "job \<Rightarrow> json list" where
  "tr069_steps jb = filter (\<lambda>s. jget ''driver'' s = JStr ''tr069'') (as_list (jget ''steps'' (j_log jb)))"

definition action_row :: "db \<Rightarrow> job \<Rightarrow> action_log" where
  "action_row d jb =
     \<lparr>al_company = j_company jb,
      al_actor = (if j_trigger jb = USER then ''user'' else ''automation''),
      al_user = j_user jb, al_device_kind = ''cpe'',
      al_device = or_else (dget ''serial'' (j_variables jb)) (dget ''cpe_serial'' (j_variables jb)),
      al_action = (case job_playbook d jb of None \<Rightarrow> ''provisioning_job'' | Some pb \<Rightarrow> pb_name pb),
      al_job = j_id jb, al_steps = map (jget ''name'') (tr069_steps jb), al_failed = []\<rparr>"

definition write_device_action_log :: "db \<Rightarrow> job \<Rightarrow> db res" where
  "write_device_action_log d jb =
     Inr (if j_dry jb \<or> tr069_steps jb = [] then d
          else d\<lparr>db_actions := db_actions d @ [action_row d jb]\<rparr>)"

definition stamp_connectivity :: "db \<Rightarrow> job \<Rightarrow> db res" where
  "stamp_connectivity d jb =
     Inr (case (job_playbook d jb, Option.bind (j_item jb) (\<lambda>i. get_item i d)) of
            (Some pb, Some it) \<Rightarrow>
              (if pb_name pb \<in> set CORE_CONNECTIVITY_PLAYBOOK_NAMES
               then put_item (it\<lparr>it_check_at := Some (db_now d), it_check_ok := Some (j_status jb = SUCCEEDED)\<rparr>) d
               else d)
          | _ \<Rightarrow> d)"

definition advance_follow_on :: "env \<Rightarrow> db \<Rightarrow> job \<Rightarrow> db res" where
  "advance_follow_on E d jb = bindR (advance_run E d jb) (\<lambda>(d1, nxt). Inr d1)"

definition emit_finished :: "bool \<Rightarrow> db \<Rightarrow> job \<Rightarrow> db res" where
  "emit_finished probed d jb =
     emit_event JOB_FINISHED (Some jb) None None
       (FinishedPayload (j_status jb) (j_error jb) probed (map_option pb_name (job_playbook d jb)) (j_service jb)) d"

definition savepoint :: "(db \<Rightarrow> job \<Rightarrow> db res) \<Rightarrow> job \<Rightarrow> db \<Rightarrow> db" where
  \<comment> \<open>\<open>with db.begin_nested(): fn(db, job)\<close>, the exception logged\<close>
  "savepoint fn jb d = (case fn d jb of Inl e \<Rightarrow> d | Inr d' \<Rightarrow> d')"

section \<open>The terminal transition\<close>

definition finished_log :: "job \<Rightarrow> job_status \<Rightarrow> json" where
  "finished_log jb status =
     (case j_log jb of
        JDict l \<Rightarrow>
          (let l1 = drop_keys [''inflight_step'', ''resume_at'', ''inflight_name''] l
           in JDict (if j_run jb \<noteq> None \<and> status \<noteq> SUCCEEDED \<and> dget ''inflight_step'' l \<noteq> JNull \<and>
                        truthy (dget ''inflight_name'' l)
                     then dput ''interrupted_step'' (dget ''inflight_name'' l) l1 else l1))
      | v \<Rightarrow> v)"

definition finished_job :: "db \<Rightarrow> job \<Rightarrow> job_status \<Rightarrow> string option \<Rightarrow> job" where
  "finished_job d jb status error =
     jb\<lparr>j_status := status, j_error := error, j_finished := Some (db_now d), j_lock := None,
        j_claim := None, j_pending_step := None, j_pending_tasks := JNull,
        j_log := finished_log jb status\<rparr>"

definition follow_ons :: "env \<Rightarrow> bool \<Rightarrow> (db \<Rightarrow> job \<Rightarrow> db res) list" where
  "follow_ons E probed =
     (if probed then [write_device_action_log, stamp_connectivity] else [])
     @ [advance_follow_on E, emit_finished probed]"

definition finish_job :: "env \<Rightarrow> db \<Rightarrow> job \<Rightarrow> job_status \<Rightarrow> string option \<Rightarrow> bool \<Rightarrow> db" where
  "finish_job E d jb status error probed =
     (let jb1 = finished_job d jb status error
      in fold (\<lambda>fn. savepoint fn jb1) (follow_ons E probed) (put_job jb1 d))"

section \<open>Failing a parked job\<close>

definition failed_entry :: "json \<Rightarrow> dict \<Rightarrow> string \<Rightarrow> string \<Rightarrow> string \<Rightarrow> bool \<Rightarrow> json \<Rightarrow> json" where
  "failed_entry entry extra code error display guided hint =
     (let base = dict_update (dict_update (as_dict entry) extra)
            [(''status'', JStr ''FAILED''), (''code'', JStr code), (''error'', JStr error),
             (''detail'', JDict (dict_update (as_dict (jget ''detail'' entry))
                [(''stage'', JStr (if guided then ''render'' else ''command'')), (''code'', JStr code)])),
             (''display'', JStr display)]
      in JDict (if truthy hint then dput ''hint'' hint base else base))"

definition parked_log :: "json \<Rightarrow> dict \<Rightarrow> string \<Rightarrow> string \<Rightarrow> string \<Rightarrow> json \<Rightarrow> json" where
  "parked_log old extra code error display hint =
     (let guided = (jget ''pending_kind'' old = JStr ''guided'');
          l = drop_keys [''pending_kind'', ''guided_preview''] (as_dict old);
          steps = as_list (dget ''steps'' l);
          steps' = (if steps \<noteq> [] \<and> is_dict (last steps) \<and> jget ''status'' (last steps) = JStr ''PENDING''
                    then butlast steps @ [failed_entry (last steps) extra code error display guided hint]
                    else steps)
      in JDict (dict_update l [(''steps'', JList steps'), (''inflight_step'', JNull), (''code'', JStr code)]))"

definition fail_parked ::
  "env \<Rightarrow> db \<Rightarrow> job \<Rightarrow> string \<Rightarrow> string \<Rightarrow> string \<Rightarrow> dict \<Rightarrow> db res" where
  "fail_parked E d jb code error display extra =
     bindR (case Option.bind (j_run jb) (\<lambda>i. get_run i d) of
              None \<Rightarrow> Inr JNull
            | Some r \<Rightarrow> bindR (parked_step E r jb) (\<lambda>s. Inr (jget ''hint'' s)))
       (\<lambda>hint. Inr (finish_job E d (jb\<lparr>j_log := parked_log (j_log jb) extra code error display hint\<rparr>)
                      FAILED (Some code) True))"

end
