(* ===== verification/Run_Invariants.thy ===== *)
theory Run_Invariants
  imports Provisioning_Jobs
begin

text \<open>
  What the provisioning state machine keeps, whatever the order of its operations: at most
  one child of a run is in flight, a closed run has none, the forward part of a plan is run
  in order and only past successes, and a run is SUCCEEDED only when every entry of its plan
  succeeded. \<open>outcome\<close> is the abstract step of one run; each function of
  \<open>Provisioning_Runs\<close> that changes a run is shown to be such a step.
\<close>

section \<open>What an operation does to the tables\<close>

definition upd :: "db \<Rightarrow> run \<Rightarrow> job list \<Rightarrow> db \<Rightarrow> bool" where
  \<comment> \<open>one run row written, jobs appended with fresh ids, the other run and job rows untouched\<close>
  "upd d r js d' \<longleftrightarrow>
     db_runs d' = put_by r_id r (db_runs d) \<and> db_jobs d' = db_jobs d @ js \<and>
     db_next d \<le> db_next d' \<and> (\<forall>j\<in>set js. db_next d \<le> j_id j \<and> j_id j < db_next d') \<and>
     distinct (map j_id js)"

lemma upd_refl_put: "upd d r [] (put_run r d)"
  by (simp add: upd_def put_run_def)

lemma upd_trans: "upd d r1 [] d1 \<Longrightarrow> r_id r1 = r_id r2 \<Longrightarrow> upd d1 r2 js d2 \<Longrightarrow> upd d r2 js d2"
  by (auto simp: upd_def)

lemma upd_then: "upd d r1 js d1 \<Longrightarrow> r_id r1 = r_id r2 \<Longrightarrow> upd d1 r2 [] d2 \<Longrightarrow> upd d r2 js d2"
  by (fastforce simp: upd_def)

lemma upd_other: "upd d r js d1 \<Longrightarrow> db_runs d2 = db_runs d1 \<Longrightarrow> db_jobs d2 = db_jobs d1 \<Longrightarrow>
    db_next d2 = db_next d1 \<Longrightarrow> upd d r js d2"
  by (auto simp: upd_def)

lemma upd_from: "upd d1 r js d2 \<Longrightarrow> db_runs d1 = db_runs d \<Longrightarrow> db_jobs d1 = db_jobs d \<Longrightarrow>
    db_next d \<le> db_next d1 \<Longrightarrow> upd d r js d2"
  by (fastforce simp: upd_def)

definition core :: "run \<Rightarrow> id \<times> bool \<times> plan_entry list \<times> id \<times> id \<times> string option \<times> string" where
  \<comment> \<open>the columns of a run no close or queue changes\<close>
  "core r = (r_id r, r_dry r, r_plan r, r_service r, r_company r, r_key r, r_purpose r)"

lemma coreD: "core r = core r' \<Longrightarrow> r_id r = r_id r' \<and> r_dry r = r_dry r' \<and> r_plan r = r_plan r'"
  by (simp add: core_def)

lemma core_updates [simp]:
  "core (r\<lparr>r_updated := a\<rparr>) = core r" "core (r\<lparr>r_phase := b\<rparr>) = core r"
  "core (r\<lparr>r_status := c\<rparr>) = core r" "core (r\<lparr>r_error_code := e\<rparr>) = core r"
  "core (r\<lparr>r_error := f\<rparr>) = core r" "core (r\<lparr>r_finished := g\<rparr>) = core r"
  "core (r\<lparr>r_outputs := h\<rparr>) = core r" "core (r\<lparr>r_frames := k\<rparr>) = core r"
  by (simp_all add: core_def)

lemma save_run_upd:
  assumes "save_run r d = Inr (r', d')"
  shows "upd d r' [] d' \<and> core r' = core r \<and> r_status r' = r_status r \<and> r_phase r' = r_phase r"
  using assms by (auto simp: save_run_def Let_def guardR_Inr_iff upd_refl_put)

lemma queue_child_None:
  "queue_child E d r p = Inr (d', r', None) \<Longrightarrow> d' = d \<and> r' = r \<and> length (r_plan r) \<le> p"
  by (auto simp: queue_child_def bindR_Inr_iff nth_opt_None split: option.splits)

definition child_at :: "run \<Rightarrow> nat \<Rightarrow> job \<Rightarrow> bool" where
  "child_at r p j \<longleftrightarrow> j_run j = Some (r_id r) \<and> j_position j = Some p \<and> j_status j = QUEUED"

lemma child_at_pos: "child_at r p j \<Longrightarrow> pos j = p"
  by (simp add: child_at_def pos_def)

lemma child_at_core: "core r = core r' \<Longrightarrow> child_at r p j = child_at r' p j"
  by (simp add: child_at_def core_def)

lemma queue_child_Some:
  assumes "queue_child E d r p = Inr (d', r', Some j)"
  shows "upd d r' [j] d' \<and> core r' = core r \<and> r_status r' = r_status r \<and> p < length (r_plan r) \<and>
    child_at r' p j"
proof -
  from assms obtain entry attempts d1 where e: "nth_opt (r_plan r) p = Some entry"
    and s: "save_run (case pe_phase entry of None \<Rightarrow> r | Some ph \<Rightarrow> r\<lparr>r_phase := Some ph\<rparr>) d = Inr (r', d1)"
    and a: "add_job (child_job r' p entry attempts) d1 = Inr (j, d')"
    by (auto simp: queue_child_def bindR_Inr_iff split: option.splits)
  from s have "upd d r' [] d1" "core r' = core r" "r_status r' = r_status r"
    by (auto dest!: save_run_upd split: option.splits)
  moreover from a have "j = (child_job r' p entry attempts)\<lparr>j_id := db_next d1\<rparr>"
    "db_jobs d' = db_jobs d1 @ [j]" "db_runs d' = db_runs d1" "db_next d' = Suc (db_next d1)"
    by (auto simp: add_job_def Let_def guardR_Inr_iff)
  ultimately show ?thesis using e
    by (auto simp: upd_def child_at_def child_job_def nth_opt_Some)
qed

lemma emit_run_event:
  "emit_event k None (Some r) None p d = Inr d' \<Longrightarrow>
     db_runs d' = db_runs d \<and> db_jobs d' = db_jobs d \<and> db_next d' = db_next d"
  by (auto simp: emit_event_def)

lemma close_run_upd:
  assumes "close_run d r s c e = Inr (d', r')"
  shows "upd d r' [] d' \<and> core r' = core r \<and> r_status r' = s"
proof -
  from assms obtain d1 where s: "save_run (r\<lparr>r_status := s,
                 r_error_code := (case c of None \<Rightarrow> r_error_code r | Some c \<Rightarrow> Some c),
                 r_error := (case e of None \<Rightarrow> r_error r | Some e \<Rightarrow> Some e),
                 r_finished := Some (db_now d)\<rparr>) d = Inr (r', d1)"
    and "d' = d1 \<or> emit_event RUN_CLOSED None (Some r') None (ClosedPayload (r_status r') (r_error_code r')) d1 = Inr d'"
    by (auto simp: close_run_def Let_def bindR_Inr_iff split: if_splits)
  with save_run_upd [OF s] show ?thesis by (auto dest: emit_run_event elim: upd_other)
qed

section \<open>The abstract step of a run\<close>

definition succeeded_last :: "run \<Rightarrow> job option \<Rightarrow> bool" where
  \<comment> \<open>the settled child succeeded, is the plan's last entry, and is not a rollback\<close>
  "succeeded_last r x =
     (case x of
        None \<Rightarrow> r_plan r = []
      | Some jb \<Rightarrow> j_status jb = SUCCEEDED \<and> length (r_plan r) \<le> Suc (pos jb) \<and> phase_at r jb \<noteq> Some ROLLBACK)"

inductive outcome :: "run \<Rightarrow> job option \<Rightarrow> run \<Rightarrow> job option \<Rightarrow> bool" where
  first: "core r' = core r \<Longrightarrow> child_at r' 0 j \<Longrightarrow> r_plan r \<noteq> [] \<Longrightarrow> in_flight (r_status r') \<Longrightarrow>
    outcome r None r' (Some j)"
| forward: "core r' = core r \<Longrightarrow> child_at r' (Suc (pos jb)) j \<Longrightarrow> Suc (pos jb) < length (r_plan r) \<Longrightarrow>
    r_dry r \<or> j_status jb = SUCCEEDED \<or> phase_at r jb = Some ROLLBACK \<Longrightarrow> in_flight (r_status r') \<Longrightarrow>
    outcome r (Some jb) r' (Some j)"
| rollback: "core r' = core (r\<lparr>r_plan := r_plan r @ es\<rparr>) \<Longrightarrow> \<not> r_dry r \<Longrightarrow> es \<noteq> [] \<Longrightarrow> \<forall>e\<in>set es. pe_phase e = Some ROLLBACK \<Longrightarrow> child_at r' (length (r_plan r)) j \<Longrightarrow>
    in_flight (r_status r') \<Longrightarrow> outcome r x r' (Some j)"
| closed: "core r' = core r \<Longrightarrow> \<not> in_flight (r_status r') \<Longrightarrow>
    (r_status r' = SUCCEEDED \<Longrightarrow> \<not> r_dry r \<Longrightarrow> succeeded_last r x) \<Longrightarrow> outcome r x r' None"

definition opt_list :: "'a option \<Rightarrow> 'a list" where
  "opt_list x = (case x of None \<Rightarrow> [] | Some v \<Rightarrow> [v])"

lemma opt_list_simps [simp]: "opt_list None = []" "opt_list (Some v) = [v]"
  by (simp_all add: opt_list_def)

definition steps_to :: "db \<Rightarrow> run \<Rightarrow> job option \<Rightarrow> db \<times> run \<times> job option \<Rightarrow> bool" where
  "steps_to d r x res \<longleftrightarrow> (case res of (d', r', nxt) \<Rightarrow> upd d r' (opt_list nxt) d' \<and> outcome r x r' nxt)"

lemma close_steps:
  assumes "close_run d r1 s c e = Inr (d', r')" "core r1 = core r" "\<not> in_flight s"
    "s = SUCCEEDED \<Longrightarrow> \<not> r_dry r \<Longrightarrow> succeeded_last r x"
  shows "steps_to d r x (d', r', None)"
  using close_run_upd [OF assms(1)] assms by (auto simp: steps_to_def intro: outcome.closed)

lemma steps_to_other:
  "steps_to d r x (d1, r', nxt) \<Longrightarrow> db_runs d2 = db_runs d1 \<Longrightarrow> db_jobs d2 = db_jobs d1 \<Longrightarrow>
   db_next d2 = db_next d1 \<Longrightarrow> steps_to d r x (d2, r', nxt)"
  by (auto simp: steps_to_def elim: upd_other)

section \<open>Each operation is a step\<close>

lemma stamp_dry_run_tables:
  "db_runs (fold stamp_dry_run es d) = db_runs d \<and> db_jobs (fold stamp_dry_run es d) = db_jobs d \<and>
   db_next (fold stamp_dry_run es d) = db_next d"
  by (induction es arbitrary: d)
    (auto simp: stamp_dry_run_def put_playbook_def split: option.splits)

lemma finish_dry_run_steps:
  assumes "finish_dry_run d r1 = Inr (d', r')" "core r1 = core r" "r_dry r"
  shows "steps_to d r x (d', r', None)"
proof -
  from assms(1) obtain s d1 where c: "close_run d r1 s None None = Inr (d1, r')"
    and s: "s = SUCCEEDED \<or> s = FAILED" and d': "d' = fold stamp_dry_run (r_plan r') d1 \<or> d' = d1"
    by (auto simp: finish_dry_run_def Let_def bindR_Inr_iff split: if_splits)
  from s have "steps_to d r x (d1, r', None)"
    by (intro close_steps [OF c assms(2)]) (use assms(3) in auto)
  with d' stamp_dry_run_tables show ?thesis by (auto elim: steps_to_other)
qed

lemma succeed_steps:
  assumes "succeed d r1 = Inr (d', r')" "core r1 = core r" "succeeded_last r x"
  shows "steps_to d r x (d', r', None)"
proof -
  from assms(1) obtain d1 where c: "close_run d r1 SUCCEEDED None None = Inr (d1, r')"
    and d': "d' = d1 \<or> (\<exists>s. d' = put_service s d1)"
    by (auto simp: succeed_def bindR_Inr_iff split: if_splits option.splits)
  have "steps_to d r x (d1, r', None)"
    by (rule close_steps [OF c assms(2)]) (use assms(3) in auto)
  with d' show ?thesis by (auto simp: put_service_def elim: steps_to_other)
qed

lemma finish_rollback_steps:
  assumes "finish_rollback d r1 = Inr (d', r')" "core r1 = core r"
  shows "steps_to d r x (d', r', None)"
proof -
  let ?log = "\<lambda>as. d\<lparr>db_actions := as\<rparr>"
  from assms(1) consider "close_run d r1 ROLLED_BACK None None = Inr (d', r')"
    | as c e where "close_run (?log as) r1 FAILED c e = Inr (d', r')"
    by (auto simp: finish_rollback_def Let_def split: if_splits)
  then obtain d0 s c e where c: "close_run d0 r1 s c e = Inr (d', r')"
    and s: "s = ROLLED_BACK \<or> s = FAILED" and d0: "d0 = d \<or> (\<exists>as. d0 = ?log as)"
    by cases blast+
  from s have "steps_to d0 r x (d', r', None)"
    by (intro close_steps [OF c assms(2)]) auto
  with d0 show ?thesis by (auto simp: steps_to_def elim: upd_from)
qed

lemma rollback_parts_phase:
  "\<forall>e\<in>set (rp_entries (plan_rollback d r items)). pe_phase e = Some ROLLBACK"
  by (auto simp: plan_rollback_def rollback_of_def Let_def no_part_def List.map_filter_def
      split: if_splits)

lemma record_rollback_facts:
  "r_id (record_rollback r es ns) = r_id r" "r_dry (record_rollback r es ns) = r_dry r"
  "r_plan (record_rollback r es ns) = r_plan r @ es" "r_status (record_rollback r es ns) = r_status r"
  "core (record_rollback r [] ns) = core r"
  "core (record_rollback r es ns) = core (r\<lparr>r_plan := r_plan r @ es\<rparr>)"
  by (simp_all add: record_rollback_def Let_def core_def)

lemma core_plan_cong: "core r1 = core r \<Longrightarrow> core (r1\<lparr>r_plan := r_plan r1 @ es\<rparr>) = core (r\<lparr>r_plan := r_plan r @ es\<rparr>)"
  by (simp add: core_def)

lemma set_cause_core [simp]: "core (set_cause r c e) = core r"
  by (simp add: set_cause_def)

lemma queue_rollback_steps:
  assumes "queue_child E d r1 (length (r_plan r)) = Inr (d', r', nxt)"
    "core r1 = core (r\<lparr>r_plan := r_plan r @ es\<rparr>)" "\<not> r_dry r" "es \<noteq> []"
    "\<forall>e\<in>set es. pe_phase e = Some ROLLBACK" "in_flight (r_status r1)"
  shows "steps_to d r x (d', r', nxt)"
proof (cases nxt)
  case None
  with assms coreD [OF assms(2)] queue_child_None [of E d r1 "length (r_plan r)" d' r'] show ?thesis by simp
next
  case (Some j)
  note q = queue_child_Some [OF assms(1) [unfolded Some]]
  with assms show ?thesis
    by (auto simp: steps_to_def Some intro!: outcome.rollback [of r' r es])
qed

lemma close_after_steps:
  assumes "close_after_rollback_planned E d (record_rollback r1 es ns) es ns' = Inr (d', r', nxt)"
    "core r1 = core r" "\<not> r_dry r" "\<forall>e\<in>set es. pe_phase e = Some ROLLBACK"
  shows "steps_to d r x (d', r', nxt)"
proof (cases "es = []")
  case False
  let ?r2 = "(record_rollback r1 es ns)\<lparr>r_phase := Some ROLLBACK, r_status := RUNNING\<rparr>"
  from False assms(1) have q: "queue_child E d ?r2 (length (r_plan r)) = Inr (d', r', nxt)"
    using coreD [OF assms(2)]
    by (simp add: close_after_rollback_planned_def record_rollback_facts)
  show ?thesis
    by (rule queue_rollback_steps [OF q])
      (use False assms core_plan_cong [OF assms(2)] in \<open>simp_all add: record_rollback_facts\<close>)
next
  case True
  with assms(1) obtain s c e where c: "close_run d (record_rollback r1 es ns) s c e = Inr (d', r')"
    and s: "s = FAILED \<or> s = ROLLED_BACK" and n: "nxt = None"
    by (auto simp: close_after_rollback_planned_def bindR_Inr_iff split: if_splits)
  from s show ?thesis unfolding n
    by (intro close_steps [OF c]) (use True assms(2) in \<open>auto simp: record_rollback_facts\<close>)
qed

lemma enter_rollback_steps:
  assumes "enter_rollback E d r1 code err canc = Inr (d', r', nxt)" "core r1 = core r" "\<not> r_dry r"
  shows "steps_to d r x (d', r', nxt)"
proof -
  let ?r1 = "set_cause r1 code err"
  let ?part = "plan_rollback d ?r1 None"
  show ?thesis
  proof (cases "rp_touched ?part = []")
    case True
    with assms(1) have c: "close_run d ?r1 (if canc then CANCELLED else FAILED) None None = Inr (d', r')"
      and n: "nxt = None"
      by (auto simp: enter_rollback_def Let_def bindR_Inr_iff)
    show ?thesis unfolding n
      by (rule close_steps [OF c]) (use assms(2) in \<open>auto split: if_splits\<close>)
  next
    case False
    with assms(1) have "close_after_rollback_planned E d
        (record_rollback ?r1 (rp_entries ?part) (rp_no_rollback ?part)) (rp_entries ?part)
        (rp_no_rollback ?part) = Inr (d', r', nxt)"
      by (simp add: enter_rollback_def Let_def)
    then show ?thesis
      by (rule close_after_steps) (use assms rollback_parts_phase in auto)
  qed
qed

lemma run_continues_steps:
  assumes "queue_child E d r1 (Suc (pos jb)) = Inr (d1, r2, Some j)" "core r1 = core r"
    "run_continues (d1, r2, Some j) = Inr (d', r', nxt)"
    "r_dry r \<or> j_status jb = SUCCEEDED \<or> phase_at r jb = Some ROLLBACK"
  shows "steps_to d r (Some jb) (d', r', nxt)"
proof -
  note q = queue_child_Some [OF assms(1)]
  from assms(3) have s: "save_run (r2\<lparr>r_status := RUNNING\<rparr>) d1 = Inr (r', d')" and n: "nxt = Some j"
    by (auto simp: run_continues_def bindR_Inr_iff)
  note v = save_run_upd [OF s]
  from q v assms(2) have core: "core r' = core r" "core r' = core r2" by simp_all
  from q v have "upd d r' [j] d'" using coreD [OF core(2)] by (auto intro: upd_then)
  moreover have "child_at r' (Suc (pos jb)) j" using q child_at_core [OF core(2)] by simp
  ultimately show ?thesis
    using core(1) coreD [of r1 r] q v assms(2,4)
    by (auto simp: steps_to_def n intro!: outcome.forward)
qed

lemma close_result_Inr:
  "close_result x = Inr (d', r', nxt) \<longleftrightarrow> x = Inr (d', r') \<and> nxt = None"
  by (auto simp: close_result_def bindR_Inr_iff)

lemma advance_forward_steps:
  assumes "advance_forward E d r1 jb ph = Inr (d', r', nxt)" "core r1 = core r" "phase_at r jb = Some ph"
    "r_dry r \<or> j_status jb = SUCCEEDED \<or> ph = ROLLBACK"
  shows "steps_to d r (Some jb) (d', r', nxt)"
proof -
  from assms(1) obtain d1 r2 c where q: "queue_child E d r1 (Suc (pos jb)) = Inr (d1, r2, c)"
    and k: "(case c of Some j \<Rightarrow> run_continues (d1, r2, c)
       | None \<Rightarrow> close_result (if r_dry r2 then finish_dry_run d1 r2
            else if ph = ROLLBACK then finish_rollback d1 r2 else succeed d1 r2)) = Inr (d', r', nxt)"
    by (auto simp: advance_forward_def bindR_Inr_iff)
  show ?thesis
  proof (cases c)
    case (Some j)
    with q k assms show ?thesis by (auto intro: run_continues_steps)
  next
    case None
    note e = queue_child_None [OF q [unfolded None]]
    with k None assms coreD [OF assms(2)] show ?thesis
      by (auto simp: close_result_Inr succeeded_last_def split: if_splits
          intro: finish_dry_run_steps finish_rollback_steps succeed_steps)
  qed
qed

lemma advance_legacy_steps:
  assumes "advance_legacy E d r jb = Inr (d', r', nxt)" "phase_at r jb = None" "\<not> in_flight (j_status jb)"
  shows "steps_to d r (Some jb) (d', r', nxt)"
proof (cases "j_status jb = SUCCEEDED")
  case False
  with assms(1) have c: "close_run d r (j_status jb) None None = Inr (d', r')" and n: "nxt = None"
    by (auto simp: advance_legacy_def close_result_Inr)
  show ?thesis unfolding n by (rule close_steps [OF c]) (use assms False in auto)
next
  case True
  with assms(1) obtain d1 r1 c where q: "queue_child E d r (Suc (pos jb)) = Inr (d1, r1, c)"
    and k: "(case c of None \<Rightarrow> close_result (if r_dry r1 then close_run d1 r1 SUCCEEDED None None else succeed d1 r1)
         | Some j \<Rightarrow> run_continues (d1, r1, c)) = Inr (d', r', nxt)"
    by (auto simp: advance_legacy_def bindR_Inr_iff)
  show ?thesis
  proof (cases c)
    case (Some j)
    with q k True show ?thesis by (auto intro: run_continues_steps)
  next
    case None
    note e = queue_child_None [OF q [unfolded None]]
    with k None assms True show ?thesis
      by (auto simp: close_result_Inr succeeded_last_def split: if_splits intro: succeed_steps close_steps)
  qed
qed

lemma merge_outputs_core [simp]: "core (merge_outputs r jb entry) = core r"
  by (simp add: merge_outputs_def Let_def)

lemma advance_failed_steps:
  assumes "advance_failed E d r1 jb entry ph = Inr (d', r', nxt)" "core r1 = core r" "\<not> r_dry r"
  shows "steps_to d r x (d', r', nxt)"
proof (cases "ph = PRECONDITIONS")
  case True
  with assms(1) obtain s c e where c: "close_run d r1 s c e = Inr (d', r')"
    and s: "s = CANCELLED \<or> s = FAILED" and n: "nxt = None"
    by (auto simp: advance_failed_def Let_def close_result_Inr split: if_splits)
  from s show ?thesis unfolding n by (intro close_steps [OF c assms(2)]) auto
next
  case False
  with assms show ?thesis by (auto simp: advance_failed_def Let_def intro: enter_rollback_steps)
qed

lemma advance_locked_steps:
  assumes "advance_locked E d r jb = Inr (d', r', nxt)" "\<not> in_flight (j_status jb)"
  shows "steps_to d r (Some jb) (d', r', nxt)"
proof (cases "phase_at r jb")
  case None
  with assms(1) have "advance_legacy E d r jb = Inr (d', r', nxt)"
    by (auto simp: advance_locked_def phase_at_def split: option.splits)
  from advance_legacy_steps [OF this None assms(2)] show ?thesis .
next
  case (Some ph)
  then obtain entry where e: "entry_at r jb = Some entry" "pe_phase entry = Some ph"
    by (auto simp: phase_at_def bind_eq_Some_conv)
  let ?r1 = "merge_outputs r jb entry"
  have "r_dry ?r1 = r_dry r" using coreD [OF merge_outputs_core] by blast
  with assms(1) e show ?thesis
    by (auto simp: advance_locked_def Let_def Some split: if_splits
        intro: advance_forward_steps advance_failed_steps)
qed

section \<open>The invariant of one run\<close>

definition phase_of :: "plan_entry list \<Rightarrow> nat \<Rightarrow> phase option" where
  "phase_of plan p = Option.bind (nth_opt plan p) pe_phase"

lemma phase_at_of: "phase_at r j = phase_of (r_plan r) (pos j)"
  by (simp add: phase_at_def phase_of_def entry_at_def)

definition placed :: "run \<Rightarrow> job set \<Rightarrow> bool" where
  \<comment> \<open>every child stands at an entry of the plan\<close>
  "placed r K \<longleftrightarrow> (\<forall>c\<in>K. j_position c \<noteq> None \<and> pos c < length (r_plan r))"

definition one_live :: "job set \<Rightarrow> bool" where
  \<comment> \<open>no two children of one entry, and a child in flight is the last one\<close>
  "one_live K \<longleftrightarrow> inj_on pos K \<and> (\<forall>c\<in>K. in_flight (j_status c) \<longrightarrow> (\<forall>c'\<in>K. c' \<noteq> c \<longrightarrow> pos c' < pos c))"

definition closed_quiet :: "run \<Rightarrow> job set \<Rightarrow> bool" where
  \<comment> \<open>a closed run has no child in flight\<close>
  "closed_quiet r K \<longleftrightarrow> (\<not> in_flight (r_status r) \<longrightarrow> (\<forall>c\<in>K. \<not> in_flight (j_status c)))"

definition succeeded_upto :: "job set \<Rightarrow> nat \<Rightarrow> bool" where
  "succeeded_upto K n \<longleftrightarrow> (\<forall>q<n. \<exists>c\<in>K. pos c = q \<and> j_status c = SUCCEEDED)"

definition forward_only :: "run \<Rightarrow> job set \<Rightarrow> bool" where
  \<comment> \<open>a live run reaches a forward entry only past successes\<close>
  "forward_only r K \<longleftrightarrow> (\<not> r_dry r \<longrightarrow>
     (\<forall>c\<in>K. phase_at r c \<noteq> Some ROLLBACK \<longrightarrow> succeeded_upto K (pos c)))"

definition rollback_suffix :: "run \<Rightarrow> bool" where
  \<comment> \<open>in a live plan nothing follows a ROLLBACK entry but ROLLBACK entries\<close>
  "rollback_suffix r \<longleftrightarrow> (\<not> r_dry r \<longrightarrow>
     (\<forall>p q. p < q \<longrightarrow> q < length (r_plan r) \<longrightarrow> phase_of (r_plan r) p = Some ROLLBACK \<longrightarrow>
        phase_of (r_plan r) q = Some ROLLBACK))"

definition success_complete :: "run \<Rightarrow> job set \<Rightarrow> bool" where
  "success_complete r K \<longleftrightarrow>
     (\<not> r_dry r \<and> r_status r = SUCCEEDED \<longrightarrow> succeeded_upto K (length (r_plan r)))"

definition run_ok :: "run \<Rightarrow> job set \<Rightarrow> bool" where
  "run_ok r K \<longleftrightarrow> placed r K \<and> one_live K \<and> closed_quiet r K \<and> forward_only r K \<and>
     rollback_suffix r \<and> success_complete r K"

lemmas run_ok_defs = run_ok_def placed_def one_live_def closed_quiet_def forward_only_def
  rollback_suffix_def success_complete_def

lemma succeeded_upto_mono: "succeeded_upto K n \<Longrightarrow> K \<subseteq> K' \<Longrightarrow> m \<le> n \<Longrightarrow> succeeded_upto K' m"
  unfolding succeeded_upto_def by (meson less_le_trans subsetD)

lemma succeeded_upto_Suc:
  "succeeded_upto K n \<Longrightarrow> c \<in> K \<Longrightarrow> pos c = n \<Longrightarrow> j_status c = SUCCEEDED \<Longrightarrow> succeeded_upto K (Suc n)"
  by (auto simp: succeeded_upto_def less_Suc_eq)

lemma phase_of_append: "phase_of (plan @ es) p =
    (if p < length plan then phase_of plan p else phase_of es (p - length plan))"
  by (auto simp: phase_of_def nth_opt_def nth_append)

lemma phase_of_all: "p < length es \<Longrightarrow> \<forall>e\<in>set es. pe_phase e = x \<Longrightarrow> phase_of es p = x"
  by (simp add: phase_of_def nth_opt_def)

lemma rollback_suffix_append:
  assumes "rollback_suffix r" "r_dry r' = r_dry r" "r_plan r' = r_plan r @ es"
    "\<forall>e\<in>set es. pe_phase e = Some ROLLBACK"
  shows "rollback_suffix r'"
  using assms phase_of_all [of _ es "Some ROLLBACK"]
  by (auto simp: rollback_suffix_def phase_of_append)

lemma rollback_suffix_cong:
  "rollback_suffix r \<Longrightarrow> r_dry r' = r_dry r \<Longrightarrow> r_plan r' = r_plan r \<Longrightarrow> rollback_suffix r'"
  by (simp only: rollback_suffix_def)

lemma run_ok_suffix: "run_ok r K \<Longrightarrow> rollback_suffix r"
  by (simp add: run_ok_def)

lemma forward_before_rollback:
  "rollback_suffix r \<Longrightarrow> \<not> r_dry r \<Longrightarrow> Suc p < length (r_plan r) \<Longrightarrow>
     phase_of (r_plan r) (Suc p) \<noteq> Some ROLLBACK \<Longrightarrow> phase_of (r_plan r) p \<noteq> Some ROLLBACK"
  unfolding rollback_suffix_def by (meson lessI)

definition settled :: "job set \<Rightarrow> job option \<Rightarrow> bool" where
  \<comment> \<open>nothing in flight, and \<open>x\<close> is the last child, when there is one\<close>
  "settled K x \<longleftrightarrow> (\<forall>c\<in>K. \<not> in_flight (j_status c)) \<and>
     (case x of None \<Rightarrow> K = {} | Some jb \<Rightarrow> jb \<in> K \<and> (\<forall>c\<in>K. pos c \<le> pos jb))"

lemma new_child_live:
  assumes "one_live K" "\<forall>c\<in>K. \<not> in_flight (j_status c)" "\<forall>c\<in>K. pos c < pos j"
  shows "one_live (insert j K)"
proof -
  have "inj_on pos (insert j K)" using assms by (fastforce simp: one_live_def)
  with assms show ?thesis by (auto simp: one_live_def)
qed

lemma outcome_run_ok:
  assumes "outcome r x r' nxt" "run_ok r K" "settled K x"
  shows "run_ok r' (K \<union> set_option nxt)"
  using assms(1)
proof cases
  case (first j)
  then have K: "K = {}" using assms(3) by (simp add: settled_def)
  note c = coreD [OF first(3)]
  have p: "pos j = 0" "j_position j = Some 0" using first by (auto simp: child_at_def pos_def)
  have "placed r' {j}" using p first c by (simp add: placed_def)
  moreover have "one_live {j}" by (simp add: one_live_def)
  moreover have "closed_quiet r' {j}" using first by (simp add: closed_quiet_def)
  moreover have "forward_only r' {j}" by (simp add: forward_only_def succeeded_upto_def p)
  moreover have "rollback_suffix r'" using run_ok_suffix [OF assms(2)] c by (auto intro: rollback_suffix_cong)
  moreover have "success_complete r' {j}" using first by (auto simp: success_complete_def)
  ultimately show ?thesis using first K by (simp add: run_ok_def)
next
  case (forward jb j)
  note c = coreD [OF forward(3)]
  have p: "pos j = Suc (pos jb)" "j_position j = Some (Suc (pos jb))" "j_status j = QUEUED"
    using forward by (auto simp: child_at_def pos_def)
  from assms(3) forward have jb: "jb \<in> K" and less: "\<forall>c\<in>K. pos c < pos j"
    and quiet: "\<forall>c\<in>K. \<not> in_flight (j_status c)"
    by (auto simp: settled_def p)
  have "placed r' (insert j K)" using assms(2) p forward c by (auto simp: run_ok_def placed_def)
  moreover have "one_live (insert j K)"
    using assms(2) quiet less by (intro new_child_live) (auto simp: run_ok_def)
  moreover have "closed_quiet r' (insert j K)" using forward by (simp add: closed_quiet_def)
  moreover have "rollback_suffix r'" using run_ok_suffix [OF assms(2)] c by (auto intro: rollback_suffix_cong)
  moreover have "success_complete r' (insert j K)" using forward by (auto simp: success_complete_def)
  moreover have "forward_only r' (insert j K)"
    unfolding forward_only_def
  proof (intro impI ballI)
    fix k assume live: "\<not> r_dry r'" and k: "k \<in> insert j K" and ph: "phase_at r' k \<noteq> Some ROLLBACK"
    show "succeeded_upto (insert j K) (pos k)"
    proof (cases "k = j")
      case True
      have "phase_at r jb \<noteq> Some ROLLBACK"
        using forward_before_rollback [OF run_ok_suffix [OF assms(2)], of "pos jb"] ph True live c p(1) forward(5)
        by (simp add: phase_at_of)
      with forward live c have "j_status jb = SUCCEEDED" "succeeded_upto K (pos jb)"
        using assms(2) jb by (auto simp: run_ok_def forward_only_def)
      with jb p True show ?thesis by (auto intro: succeeded_upto_Suc succeeded_upto_mono)
    next
      case False
      with k ph live c assms(2) have "succeeded_upto K (pos k)"
        by (auto simp: run_ok_def forward_only_def phase_at_of)
      then show ?thesis by (rule succeeded_upto_mono) auto
    qed
  qed
  ultimately show ?thesis using forward by (simp add: run_ok_def)
next
  case (rollback es j)
  have rc: "r_dry r' = r_dry r" "r_plan r' = r_plan r @ es" using coreD [OF rollback(2)] by simp_all
  note rollback = rollback rc
  have p: "pos j = length (r_plan r)" "j_position j = Some (length (r_plan r))" "j_status j = QUEUED"
    using rollback by (auto simp: child_at_def pos_def)
  have less: "\<forall>c\<in>K. pos c < pos j" using assms(2) p by (auto simp: run_ok_def placed_def)
  have quiet: "\<forall>c\<in>K. \<not> in_flight (j_status c)" using assms(3) by (simp add: settled_def)
  have "placed r' (insert j K)" using assms(2) p rollback by (auto simp: run_ok_def placed_def)
  moreover have "one_live (insert j K)"
    using assms(2) quiet less by (intro new_child_live) (auto simp: run_ok_def)
  moreover have "closed_quiet r' (insert j K)" using rollback by (simp add: closed_quiet_def)
  moreover have "rollback_suffix r'"
    using rollback_suffix_append [OF run_ok_suffix [OF assms(2)], of r' es] rollback by blast
  moreover have "success_complete r' (insert j K)" using rollback by (auto simp: success_complete_def)
  moreover have "forward_only r' (insert j K)"
    unfolding forward_only_def
  proof (intro impI ballI)
    fix k assume k: "k \<in> insert j K" and ph: "phase_at r' k \<noteq> Some ROLLBACK"
    have "phase_at r' j = Some ROLLBACK"
      using rollback phase_of_all [of 0 es "Some ROLLBACK"] by (simp add: phase_at_of p phase_of_append)
    with k ph have kK: "k \<in> K" by auto
    with assms(2) have "pos k < length (r_plan r)" by (auto simp: run_ok_def placed_def)
    with ph rollback have "phase_at r k \<noteq> Some ROLLBACK" by (simp add: phase_at_of phase_of_append)
    with kK assms(2) rollback have "succeeded_upto K (pos k)" by (auto simp: run_ok_def forward_only_def)
    then show "succeeded_upto (insert j K) (pos k)" by (rule succeeded_upto_mono) auto
  qed
  ultimately show ?thesis using rollback by (simp add: run_ok_def)
next
  case closed
  note c = coreD [OF closed(2)]
  have quiet: "\<forall>k\<in>K. \<not> in_flight (j_status k)" using assms(3) by (simp add: settled_def)
  have "success_complete r' K"
    unfolding success_complete_def
  proof (intro impI)
    assume s: "\<not> r_dry r' \<and> r_status r' = SUCCEEDED"
    with closed c have l: "succeeded_last r x" by simp
    show "succeeded_upto K (length (r_plan r'))"
    proof (cases x)
      case None
      with l c show ?thesis by (simp add: succeeded_last_def succeeded_upto_def)
    next
      case (Some jb)
      with assms(3) have "jb \<in> K" by (simp add: settled_def)
      with l Some assms(2) s c have "succeeded_upto K (Suc (pos jb))" "length (r_plan r) \<le> Suc (pos jb)"
        by (auto simp: succeeded_last_def run_ok_def forward_only_def intro: succeeded_upto_Suc)
      with c show ?thesis by (auto elim: succeeded_upto_mono)
    qed
  qed
  moreover have "rollback_suffix r'" using run_ok_suffix [OF assms(2)] c by (auto intro: rollback_suffix_cong)
  ultimately show ?thesis using closed c assms(2) quiet
    by (auto simp: run_ok_def placed_def closed_quiet_def forward_only_def phase_at_of)
qed

section \<open>The invariant of the database\<close>

definition wf :: "db \<Rightarrow> bool" where
  "wf d \<longleftrightarrow> distinct (map r_id (db_runs d)) \<and> distinct (map j_id (db_jobs d)) \<and>
     (\<forall>r\<in>set (db_runs d). r_id r < db_next d) \<and>
     (\<forall>j\<in>set (db_jobs d). j_id j < db_next d \<and> (\<forall>i. j_run j = Some i \<longrightarrow> i < db_next d)) \<and>
     (\<forall>r\<in>set (db_runs d). run_ok r (set (kids d (r_id r))))"

lemma wf_same_tables:
  "wf d \<Longrightarrow> db_runs d' = db_runs d \<Longrightarrow> db_jobs d' = db_jobs d \<Longrightarrow> db_next d \<le> db_next d' \<Longrightarrow> wf d'"
  unfolding wf_def kids_def by (metis order_less_le_trans)

lemma wf_run_ok: "wf d \<Longrightarrow> get_run i d = Some r \<Longrightarrow> run_ok r (set (kids d i)) \<and> r \<in> set (db_runs d) \<and> r_id r = i"
  by (auto simp: wf_def get_run_def dest: find_by_SomeD)

lemma kids_set: "c \<in> set (kids d i) \<longleftrightarrow> c \<in> set (db_jobs d) \<and> j_run c = Some i"
  by (auto simp: kids_def)

lemma wf_step:
  assumes "wf d" "get_run (r_id r) d = Some r" "steps_to d r x (d', r', nxt)"
    "settled (set (kids d (r_id r))) x"
  shows "wf d' \<and> get_run (r_id r) d' = Some r'"
proof -
  from assms(3) have u: "upd d r' (opt_list nxt) d'" and oc: "outcome r x r' nxt"
    by (simp_all add: steps_to_def)
  from oc have id: "r_id r' = r_id r" by cases (auto dest: coreD)
  have nj: "j_run j = Some (r_id r)" if "nxt = Some j" for j
    using oc that id by cases (auto simp: child_at_def)
  note w = wf_run_ok [OF assms(1,2)]
  have ok: "run_ok r' (set (kids d (r_id r)) \<union> set_option nxt)"
    using outcome_run_ok [OF oc] w assms(4) by blast
  have kids': "set (kids d' i) = set (kids d i) \<union> (if i = r_id r then set_option nxt else {})" for i
    using u nj by (cases nxt) (auto simp: kids_def upd_def)
  have runs': "db_runs d' = put_by r_id r' (db_runs d)" and le: "db_next d \<le> db_next d'"
    using u by (auto simp: upd_def)
  have "distinct (map j_id (db_jobs d'))" "\<forall>j\<in>set (db_jobs d'). j_id j < db_next d' \<and> (\<forall>i. j_run j = Some i \<longrightarrow> i < db_next d')"
    using assms(1) u nj w by (cases nxt; force simp: wf_def upd_def)+
  moreover have "\<forall>q\<in>set (db_runs d'). r_id q < db_next d'"
    using assms(1) runs' le id w by (fastforce simp: wf_def set_put_by split: if_splits)
  moreover have "\<forall>q\<in>set (db_runs d'). run_ok q (set (kids d' (r_id q)))"
    using assms(1) ok id by (auto simp: runs' set_put_by kids' wf_def split: if_splits)
  moreover have "distinct (map r_id (db_runs d'))" using assms(1) runs' by (simp add: wf_def)
  ultimately have "wf d'" unfolding wf_def by blast
  moreover have "get_run (r_id r) d' = Some r'"
    using assms(2) id by (simp add: get_run_def runs')
  ultimately show ?thesis by blast
qed

section \<open>Settled runs\<close>

lemma last_child_facts:
  "last_child d i = None \<longleftrightarrow> set (kids d i) = {}"
  "last_child d i = Some jb \<Longrightarrow> jb \<in> set (kids d i) \<and> (\<forall>c\<in>set (kids d i). pos c \<le> pos jb)"
proof -
  let ?s = "sort_key (\<lambda>j. - int (pos j)) (kids d i)"
  have set: "set ?s = set (kids d i)" by simp
  have sorted: "sorted (map (\<lambda>j. - int (pos j)) ?s)" by simp
  show "last_child d i = None \<longleftrightarrow> set (kids d i) = {}"
    unfolding last_child_def using set by (metis list.case_eq_if list.set(1) option.distinct(1) set_empty)
  assume "last_child d i = Some jb"
  then obtain js where js: "?s = jb # js" by (auto simp: last_child_def split: list.splits)
  with sorted have "\<forall>c\<in>set (jb # js). pos c \<le> pos jb" by auto
  with js set show "jb \<in> set (kids d i) \<and> (\<forall>c\<in>set (kids d i). pos c \<le> pos jb)"
    by (metis list.set_intros(1))
qed

lemma settled_last:
  assumes "\<forall>c\<in>set (kids d i). \<not> in_flight (j_status c)"
  shows "settled (set (kids d i)) (last_child d i)"
  using assms last_child_facts [of d i] by (cases "last_child d i") (auto simp: settled_def)

lemma one_live_settled:
  assumes "one_live K" "jb \<in> K" "\<not> in_flight (j_status jb)" "\<forall>c\<in>K. pos c \<le> pos jb"
  shows "\<forall>c\<in>K. \<not> in_flight (j_status c)"
proof
  fix c assume c: "c \<in> K"
  show "\<not> in_flight (j_status c)"
  proof
    assume f: "in_flight (j_status c)"
    with assms(3) have "jb \<noteq> c" by auto
    with assms(1,2) c f have "pos jb < pos c" by (auto simp: one_live_def)
    with assms(4) c show False by (simp add: leD)
  qed
qed

lemma closed_settled:
  assumes "wf d" "get_run i d = Some r" "\<not> in_flight (r_status r)"
  shows "settled (set (kids d i)) (last_child d i)"
  using wf_run_ok [OF assms(1,2)] assms(3)
  by (intro settled_last) (auto simp: run_ok_def closed_quiet_def)

section \<open>The operations keep the invariant\<close>

lemma advance_run_wf:
  assumes "wf d" "get_job (j_id jb) d = Some jb" "advance_run E d jb = Inr (d', nxt)"
  shows "wf d'"
proof -
  from assms(3) consider "d' = d" | i r r' where "j_run jb = Some i" "get_run i d = Some r"
      "\<not> in_flight (j_status jb)" "\<not> later_child d r jb" "advance_locked E d r jb = Inr (d', r', nxt)"
    by (auto simp: advance_run_def bindR_Inr_iff bind_eq_Some_conv split: option.splits if_splits)
  then show ?thesis
  proof cases
    case 1
    with assms(1) show ?thesis by simp
  next
    case 2
    note w = wf_run_ok [OF assms(1) 2(2)]
    from assms(2) have "jb \<in> set (db_jobs d)" by (auto simp: get_job_def dest: find_by_SomeD)
    with 2 have jb: "jb \<in> set (kids d i)" by (simp add: kids_set)
    have le: "\<forall>c\<in>set (kids d i). pos c \<le> pos jb"
      using 2(4) w unfolding later_child_def list_ex_iff run_ok_def placed_def by (metis not_le)
    have "\<forall>c\<in>set (kids d i). \<not> in_flight (j_status c)"
      using w by (intro one_live_settled [OF _ jb 2(3) le]) (simp add: run_ok_def)
    with jb le have "settled (set (kids d (r_id r))) (Some jb)" using w by (simp add: settled_def)
    from wf_step [OF assms(1) _ advance_locked_steps [OF 2(5,3)] this] 2(2) w show ?thesis by simp
  qed
qed

lemma enter_rollback_wf:
  assumes "wf d" "get_run i d = Some r" "\<not> r_dry r" "\<forall>c\<in>set (kids d i). \<not> in_flight (j_status c)"
    "enter_rollback E d r code err canc = Inr (d', r', nxt)"
  shows "wf d'"
proof -
  note w = wf_run_ok [OF assms(1,2)]
  from enter_rollback_steps [OF assms(5) refl assms(3)]
  have "steps_to d r (last_child d i) (d', r', nxt)" .
  from wf_step [OF assms(1) _ this] settled_last [OF assms(4)] assms(2) w show ?thesis by simp
qed

lemma revert_run_wf:
  assumes "wf d" "revert_run E d i = Inr (d', r', nxt)"
  shows "wf d'"
proof -
  from assms(2) obtain r where r: "get_run i d = Some r" and g: "\<not> revert_refused d r"
    by (auto simp: revert_run_def guardR_Inr_iff split: option.splits)
  let ?r1 = "(set_cause r REVERTED None)\<lparr>r_status := RUNNING, r_phase := Some ROLLBACK, r_finished := None\<rparr>"
  let ?part = "plan_rollback d ?r1 None"
  from assms(2) r g have c: "close_after_rollback_planned E d
      (record_rollback ?r1 (rp_entries ?part) (rp_no_rollback ?part)) (rp_entries ?part)
      (rp_no_rollback ?part) = Inr (d', r', nxt)"
    by (simp add: revert_run_def Let_def)
  from g have st: "\<not> in_flight (r_status r)" "\<not> r_dry r" by (auto simp: revert_refused_def)
  have s: "steps_to d r (last_child d i) (d', r', nxt)"
    by (rule close_after_steps [OF c]) (use st rollback_parts_phase in auto)
  note w = wf_run_ok [OF assms(1) r]
  from wf_step [OF assms(1) _ s] closed_settled [OF assms(1) r st(1)] r w show ?thesis by simp
qed

lemma retry_rollback_wf:
  assumes "wf d" "retry_rollback E d i = Inr (d', r', nxt)"
  shows "wf d'"
proof -
  from assms(2) obtain r where r: "get_run i d = Some r" and g: "\<not> rollback_retry_refused d r"
    by (auto simp: retry_rollback_def guardR_Inr_iff split: option.splits)
  let ?st = "rollback_state_of r"
  let ?r1 = "r\<lparr>r_error_code := (case rb_cause_code ?st of None \<Rightarrow> r_error_code r | Some c \<Rightarrow> Some c),
      r_error := rb_cause_error ?st, r_status := RUNNING, r_phase := Some ROLLBACK, r_finished := None\<rparr>"
  let ?items = "retry_items d r"
  from g have st: "\<not> in_flight (r_status r)" "\<not> r_dry r" by (auto simp: rollback_retry_refused_def)
  from assms(2) r g obtain d1 r2 es where
    a: "(if ?items \<noteq> [] then append_rollback d ?r1 (Some ?items) else Inr (d, ?r1, [])) = Inr (d1, r2, es)"
    and k: "(if es \<noteq> [] then queue_child E d1 r2 (length (r_plan r2) - length es)
             else close_result (finish_rollback d1 r2)) = Inr (d', r', nxt)"
    by (auto simp: retry_rollback_def Let_def bindR_Inr_iff)
  have s: "steps_to d r (last_child d i) (d', r', nxt)"
  proof (cases "?items = []")
    case True
    with a k have "finish_rollback d ?r1 = Inr (d', r')" and "nxt = None"
      by (auto simp: close_result_Inr)
    then show ?thesis by (auto intro: finish_rollback_steps)
  next
    case False
    let ?part = "plan_rollback d ?r1 (Some ?items)"
    let ?rr = "record_rollback ?r1 (rp_entries ?part) (rp_no_rollback ?part)"
    from False a have sv: "save_run ?rr d = Inr (r2, d1)" and es: "es = rp_entries ?part"
      by (auto simp: append_rollback_def Let_def bindR_Inr_iff)
    note v = save_run_upd [OF sv]
    have rc: "core r2 = core (r\<lparr>r_plan := r_plan r @ es\<rparr>)"
      using v by (simp add: record_rollback_facts es) (simp add: core_def)
    have f: "r_id r2 = r_id r" "r_dry r2 = r_dry r" "r_plan r2 = r_plan r @ es" "r_status r2 = RUNNING"
      using v coreD [of r2 ?rr] by (auto simp: record_rollback_facts es)
    show ?thesis
    proof (cases "es = []")
      case True
      with k have fr: "finish_rollback d1 r2 = Inr (d', r')" and n: "nxt = None"
        by (auto simp: close_result_Inr)
      have "core r2 = core r" using v True by (simp add: es [symmetric] record_rollback_facts)
      from finish_rollback_steps [OF fr this] n have "steps_to d1 r (last_child d i) (d', r', nxt)" by simp
      moreover have "r_id r2 = r_id r'"
        using \<open>steps_to d1 r (last_child d i) (d', r', nxt)\<close> f n
        by (auto simp: steps_to_def elim!: outcome.cases dest!: coreD)
      ultimately show ?thesis using v n by (auto simp: steps_to_def intro: upd_trans)
    next
      case False
      with k f have q: "queue_child E d1 r2 (length (r_plan r)) = Inr (d', r', nxt)" by simp
      show ?thesis
      proof (cases nxt)
        case None
        with q f False queue_child_None [of E d1 r2 "length (r_plan r)" d' r'] show ?thesis by simp
      next
        case (Some j)
        note qs = queue_child_Some [OF q [unfolded Some]]
        have ph: "\<forall>e\<in>set es. pe_phase e = Some ROLLBACK" using rollback_parts_phase es by simp
        have "upd d r' [j] d'" using v qs coreD [of r' r2] by (auto intro: upd_trans)
        moreover have "outcome r (last_child d i) r' (Some j)"
          by (rule outcome.rollback [of r' r es]) (use qs f st False ph rc in auto)
        ultimately show ?thesis by (simp add: steps_to_def Some)
      qed
    qed
  qed
  note w = wf_run_ok [OF assms(1) r]
  from wf_step [OF assms(1) _ s] closed_settled [OF assms(1) r st(1)] r w show ?thesis by simp
qed

lemma phase_entries_phase:
  "phase_entries E defs b ph nodes = Inr es \<Longrightarrow> \<forall>e\<in>set es. pe_phase e = Some ph"
proof (induction nodes arbitrary: es)
  case Nil
  then show ?case by (simp add: phase_entries_def)
next
  case (Cons n nodes)
  from Cons.prems obtain es1 steps probe where "phase_entries E defs b ph nodes = Inr es1"
    "es = (if steps = [] then [] else [plan_entry_of n (node_pid n) ph steps probe]) @ es1"
    by (auto simp: phase_entries_def Let_def bindR_Inr_iff)
  with Cons.IH show ?case by (auto simp: plan_entry_of_def)
qed

lemma build_plan_forward:
  assumes "build_plan E defs b False ordered = Inr plan"
  shows "\<forall>e\<in>set plan. pe_phase e \<noteq> Some ROLLBACK"
  using assms by (auto simp: build_plan_def bindR_Inr_iff dest!: phase_entries_phase)

lemma registration_tables:
  "registration d c s i ens = Inr d' \<Longrightarrow>
     db_runs d' = db_runs d \<and> db_jobs d' = db_jobs d \<and> db_next d \<le> db_next d'"
  by (auto simp: registration_def Let_def split: if_splits list.splits)

lemma plan_checks_tables:
  "plan_checks E d svc rv p ens = Inr (d', x) \<Longrightarrow>
     db_runs d' = db_runs d \<and> db_jobs d' = db_jobs d \<and> db_next d \<le> db_next d'"
  by (auto simp: plan_checks_def acs_values_def Let_def bindR_Inr_iff guardR_Inr_iff
      split: if_splits option.splits dest: registration_tables)

lemma new_run_ok:
  assumes "\<not> r_dry r \<Longrightarrow> \<forall>e\<in>set (r_plan r). pe_phase e \<noteq> Some ROLLBACK" "r_status r = QUEUED"
  shows "run_ok r {}"
proof -
  have "rollback_suffix r"
    unfolding rollback_suffix_def phase_of_def
    using assms(1) by (auto simp: bind_eq_Some_conv nth_opt_Some dest: nth_mem)
  with assms(2) show ?thesis
    by (simp add: run_ok_def placed_def one_live_def closed_quiet_def forward_only_def success_complete_def)
qed

lemma insert_run_wf:
  assumes "wf d" "insert_run r d = Inr d'" "r_id r = db_next d" "run_ok r {}"
  shows "wf d' \<and> get_run (r_id r) d' = Some r \<and> set (kids d' (r_id r)) = {}"
proof -
  from assms(2) have d': "db_runs d' = db_runs d @ [r]" "db_jobs d' = db_jobs d" "db_next d' = Suc (db_next d)"
    by (auto simp: insert_run_def guardR_Inr_iff)
  have none: "set (kids d' (r_id r)) = {}"
    using assms(1,3) d' by (auto simp: kids_def wf_def)
  have same: "kids d' i = kids d i" for i using d' by (simp add: kids_def)
  have "get_run (r_id r) d' = Some r"
    using assms(1,3) d' by (auto simp: get_run_def find_by_append wf_def find_by_None split: option.splits
        dest!: find_by_SomeD)
  moreover have "wf d'"
    using assms(1,3,4) d' none same unfolding wf_def
    by (auto simp: image_iff less_Suc_eq)
  ultimately show ?thesis using none by blast
qed

lemma create_run_wf:
  assumes "wf d" "create_run E d svc rv q = Inr (d', r')"
  shows "wf d'"
proof -
  from assms(2) obtain g d1 ordered defs specs plan sealed d2 child where
    pc: "plan_checks E d svc rv (rq_purpose q) (\<not> rq_dry q) = Inr (d1, ordered, defs, specs)"
    and bp: "build_plan E defs (rq_purpose q \<notin> set TEARDOWN_PURPOSES) (rq_dry q) ordered = Inr plan"
    and ins: "insert_run (new_run d1 svc rv q g plan defs sealed) d1 = Inr d2"
    and qc: "queue_child E d2 (new_run d1 svc rv q g plan defs sealed) 0 = Inr (d', r', child)"
    by (auto simp: create_run_def Let_def guardR_Inr_iff bindR_Inr_iff)
  let ?r = "new_run d1 svc rv q g plan defs sealed"
  have w1: "wf d1" using wf_same_tables [OF assms(1)] plan_checks_tables [OF pc] by blast
  have "run_ok ?r {}"
    using build_plan_forward [of E defs _ ordered plan] bp by (intro new_run_ok) (auto simp: new_run_def)
  from insert_run_wf [OF w1 ins _ this] have w2: "wf d2" "get_run (r_id ?r) d2 = Some ?r"
    "set (kids d2 (r_id ?r)) = {}" by (simp_all add: new_run_def)
  show ?thesis
  proof (cases child)
    case None
    with queue_child_None qc w2(1) show ?thesis by blast
  next
    case (Some j)
    note qs = queue_child_Some [OF qc [unfolded Some]]
    have "steps_to d2 ?r None (d', r', Some j)"
      using qs by (auto simp: steps_to_def new_run_def intro!: outcome.first)
    from wf_step [OF w2(1,2) this] w2(3) show ?thesis by (simp add: settled_def)
  qed
qed

lemma create_or_get_run_wf:
  assumes "wf (race d)" "wf d" "create_or_get_run E race d svc rv q = Inr (d', r', created)"
  shows "wf d'"
  using assms create_run_wf
  by (auto simp: create_or_get_run_def Let_def split: option.splits sum.splits exn.splits)

lemma steps_to_frame:
  assumes "steps_to d r x (d', r', nxt)" "k \<noteq> r_id r" shows "get_run k d' = get_run k d"
proof -
  from assms(1) have "r_id r' = r_id r" by (auto simp: steps_to_def elim!: outcome.cases dest: coreD)
  with assms show ?thesis by (auto simp: steps_to_def upd_def get_run_def)
qed

lemma advance_run_steps:
  assumes "advance_run E d jb = Inr (d', nxt)" "j_run jb = Some i" "get_run i d = Some r"
  shows "d' = d \<or> (\<exists>r'. steps_to d r (Some jb) (d', r', nxt))"
  using assms by (auto simp: advance_run_def bindR_Inr_iff split: if_splits dest!: advance_locked_steps)

lemma repair_run_steps:
  assumes "repair_run E d r = Inr (d', b)" "get_run (r_id r) d = Some r" "in_flight (r_status r)"
  shows "d' = d \<or> (\<exists>r' nxt. steps_to d r (last_child d (r_id r)) (d', r', nxt))"
proof -
  let ?lc = "last_child d (r_id r)"
  have adv: "d1 = d \<or> (\<exists>r' nxt. steps_to d r (Some jb) (d1, r', nxt))"
    if "?lc = Some jb" "advance_run E d jb = Inr (d1, n)" for jb d1 n
  proof -
    from last_child_facts(2) [OF that(1)] have "j_run jb = Some (r_id r)" by (simp add: kids_set)
    from advance_run_steps [OF that(2) this assms(2)] that(1) show ?thesis by auto
  qed
  have cl: "\<exists>r' nxt. steps_to d r ?lc (d1, r', nxt)" if "close_run d r FAILED c e = Inr (d1, r1)" for c e d1 r1
    using close_steps [OF that refl, of ?lc] by auto
  have er: "\<exists>r' nxt. steps_to d r ?lc (d1, r', nxt)"
    if "enter_rollback E d r c e False = Inr (d1, r1, n)" "\<not> r_dry r" for c e d1 r1 n
    using enter_rollback_steps [OF that(1) refl that(2), of ?lc] by auto
  have first: "\<exists>r' nxt. steps_to d r ?lc (d', r', nxt)"
    if q: "queue_child E d r 0 = Inr (d1, r1, nxt)" "?lc = None"
      "(case nxt of None \<Rightarrow> forget (close_run d1 r1 SUCCEEDED None None) | Some c \<Rightarrow> Inr (d1, True)) = Inr (d', b)"
    for d1 r1 nxt
  proof (cases nxt)
    case None
    with queue_child_None [OF q(1) [unfolded None]] q(3) obtain r2 where
      c: "close_run d r SUCCEEDED None None = Inr (d', r2)" and p: "r_plan r = []"
      by (auto simp: forget_def bindR_Inr_iff)
    have "steps_to d r None (d', r2, None)"
      by (rule close_steps [OF c refl]) (use p in \<open>auto simp: succeeded_last_def\<close>)
    with q(2) show ?thesis by auto
  next
    case (Some j)
    note qs = queue_child_Some [OF q(1) [unfolded Some]]
    have "steps_to d r None (d1, r1, Some j)"
      using qs assms(3) by (auto simp: steps_to_def intro!: outcome.first)
    with q(2,3) Some show ?thesis by auto
  qed
  from assms(1) show ?thesis
    unfolding repair_run_def Let_def
    by (auto simp: forget_def bindR_Inr_iff split: if_splits option.splits
        dest: adv cl er first)
qed

lemma repair_run_wf:
  assumes "wf d" "get_run i d = Some r" "in_flight (r_status r)" "repair_run E d r = Inr (d', b)"
  shows "wf d' \<and> (\<forall>k. k \<noteq> i \<longrightarrow> get_run k d' = get_run k d)"
proof -
  note w = wf_run_ok [OF assms(1,2)]
  let ?lc = "last_child d (r_id r)"
  show ?thesis
  proof (cases "case ?lc of None \<Rightarrow> False | Some jb \<Rightarrow> in_flight (j_status jb)")
    case True
    with assms(1,4) show ?thesis by (simp add: repair_run_def)
  next
    case False
    have "\<forall>c\<in>set (kids d i). \<not> in_flight (j_status c)"
    proof (cases ?lc)
      case None
      with last_child_facts(1) w show ?thesis by auto
    next
      case (Some jb)
      with False w last_child_facts(2) [OF Some] show ?thesis
        by (intro one_live_settled [of _ jb]) (auto simp: run_ok_def)
    qed
    then have stl: "settled (set (kids d (r_id r))) ?lc" using settled_last w by simp
    have g: "get_run (r_id r) d = Some r" using assms(2) w by simp
    from repair_run_steps [OF assms(4) g assms(3)] wf_step [OF assms(1) g _ stl] steps_to_frame assms(1) w
    show ?thesis by blast
  qed
qed

lemma repair_all_wf:
  "wf d \<Longrightarrow> distinct ids \<Longrightarrow> \<forall>i\<in>set ids. \<exists>r. get_run i d = Some r \<and> in_flight (r_status r) \<Longrightarrow>
     wf (fst (repair_all E d ids n))"
proof (induction ids arbitrary: d n)
  case (Cons i rest)
  then obtain r where r: "get_run i d = Some r" "in_flight (r_status r)" by auto
  show ?case
  proof (cases "repair_run E d r")
    case (Inl e)
    with Cons r show ?thesis by simp
  next
    case (Inr p)
    obtain d1 b where p: "p = (d1, b)" by force
    note w = repair_run_wf [OF Cons.prems(1) r Inr [unfolded p]]
    have "\<forall>k\<in>set rest. \<exists>r. get_run k d1 = Some r \<and> in_flight (r_status r)"
      using Cons.prems w by (metis distinct.simps(2) list.set_intros(2))
    with Cons w Inr r p show ?thesis by simp
  qed
qed simp

lemma distinct_map_take_sort:
  "distinct (map f xs) \<Longrightarrow> distinct (map f (take n (sort_key g (filter P xs))))"
proof -
  assume "distinct (map f xs)"
  then have "distinct (map f (filter P xs))" by (simp add: distinct_map_filter)
  then have "distinct (map f (sort_key g (filter P xs)))" by (simp add: distinct_map)
  then show ?thesis by (simp add: take_map [symmetric])
qed

lemma repair_stranded_runs_wf:
  assumes "wf d" shows "wf (fst (repair_stranded_runs E d limit w))"
proof -
  let ?rs = "stranded_runs d limit w"
  have "distinct (map r_id ?rs)"
    using assms by (simp add: stranded_runs_def wf_def distinct_map_take_sort)
  moreover have "\<forall>r\<in>set ?rs. r \<in> set (db_runs d) \<and> in_flight (r_status r)"
    by (auto simp: stranded_runs_def dest: in_set_takeD)
  then have "\<forall>i\<in>set (map r_id ?rs). \<exists>r. get_run i d = Some r \<and> in_flight (r_status r)"
    using assms by (auto simp: wf_def get_run_def find_by_unique)
  ultimately show ?thesis
    using repair_all_wf [OF assms] by (simp add: repair_stranded_runs_def)
qed

section \<open>Settling a job\<close>

lemma put_job_set:
  "distinct (map j_id (db_jobs d)) \<Longrightarrow> get_job (j_id jb) d = Some jb0 \<Longrightarrow> j_run jb = j_run jb0 \<Longrightarrow>
   set (kids (put_job jb d) i) =
     (if j_run jb0 = Some i then insert jb (set (kids d i) - {jb0}) else set (kids d i))"
proof -
  assume a: "distinct (map j_id (db_jobs d))" "get_job (j_id jb) d = Some jb0" "j_run jb = j_run jb0"
  then have j: "jb0 \<in> set (db_jobs d)" "j_id jb0 = j_id jb" by (auto simp: get_job_def dest: find_by_SomeD)
  have only: "j_id x = j_id jb \<longleftrightarrow> x = jb0" if "x \<in> set (db_jobs d)" for x
    using that j a(1) by (metis find_by_unique option.inject)
  have S: "set (db_jobs (put_job jb d)) = insert jb (set (db_jobs d) - {jb0})"
  proof -
    have "{x \<in> set (db_jobs d). j_id x \<noteq> j_id jb} = set (db_jobs d) - {jb0}" using only by blast
    moreover have "j_id jb \<in> j_id ` set (db_jobs d)" using j by (metis imageI)
    ultimately show ?thesis by (simp add: put_job_def set_put_by)
  qed
  have K: "set (kids e i) = {x. x \<in> set (db_jobs e) \<and> j_run x = Some i}" for e
    using kids_set by blast
  show ?thesis unfolding K S using a(3) j(1) by auto
qed

lemma replaced_run_ok:
  assumes "run_ok r K" "c0 \<in> K" "in_flight (j_status c0)" "j_position c = j_position c0"
    "j_run c = j_run c0"
  shows "run_ok r (insert c (K - {c0}))"
proof -
  have p: "pos c = pos c0" using assms(4) by (simp add: pos_def)
  have live: "\<forall>k\<in>K - {c0}. pos k < pos c0"
    using assms(1-3) by (auto simp: run_ok_def one_live_def)
  then have quiet: "\<forall>k\<in>K - {c0}. \<not> in_flight (j_status k)"
    using assms(1,2) by (auto simp: run_ok_def one_live_def) (metis Diff_iff less_asym singletonD)
  have up: "succeeded_upto (insert c (K - {c0})) n" if "succeeded_upto K n" for n
    unfolding succeeded_upto_def
  proof (intro allI impI)
    fix q assume "q < n"
    with that obtain k where k: "k \<in> K" "pos k = q" "j_status k = SUCCEEDED" by (auto simp: succeeded_upto_def)
    with assms(3) have "k \<noteq> c0" by auto
    with k show "\<exists>k\<in>insert c (K - {c0}). pos k = q \<and> j_status k = SUCCEEDED" by auto
  qed
  have ph: "phase_at r c = phase_at r c0" by (simp add: phase_at_of p)
  have fl: "in_flight (r_status r)" using assms(1-3) by (auto simp: run_ok_def closed_quiet_def)
  have "placed r (insert c (K - {c0}))" using assms p by (auto simp: run_ok_def placed_def)
  moreover have "inj_on pos (K - {c0})"
    using assms(1) by (auto simp: run_ok_def one_live_def intro: inj_on_subset)
  then have "one_live (insert c (K - {c0}))" using live quiet p by (auto simp: one_live_def)
  moreover have "closed_quiet r (insert c (K - {c0}))" using fl by (simp add: closed_quiet_def)
  moreover have "forward_only r (insert c (K - {c0}))"
    unfolding forward_only_def
  proof (intro impI ballI)
    fix k assume "\<not> r_dry r" "k \<in> insert c (K - {c0})" "phase_at r k \<noteq> Some ROLLBACK"
    with assms(1,2) ph p have "succeeded_upto K (pos k)" by (auto simp: run_ok_def forward_only_def)
    then show "succeeded_upto (insert c (K - {c0})) (pos k)" by (rule up)
  qed
  moreover have "success_complete r (insert c (K - {c0}))" using fl by (auto simp: success_complete_def)
  ultimately show ?thesis using assms(1) by (simp add: run_ok_def)
qed

lemma put_job_wf:
  assumes "wf d" "get_job (j_id jb) d = Some jb0" "in_flight (j_status jb0)" "j_run jb = j_run jb0"
    "j_position jb = j_position jb0"
  shows "wf (put_job jb d)"
proof -
  have dist: "distinct (map j_id (db_jobs d))" using assms(1) by (simp add: wf_def)
  note k = put_job_set [OF dist assms(2,4)]
  have j0: "jb0 \<in> set (db_jobs d)" "j_id jb0 = j_id jb"
    using assms(2) by (auto simp: get_job_def dest: find_by_SomeD)
  have "\<forall>r\<in>set (db_runs d). run_ok r (set (kids (put_job jb d) (r_id r)))"
  proof
    fix r assume "r \<in> set (db_runs d)"
    with assms(1) have ok: "run_ok r (set (kids d (r_id r)))" by (simp add: wf_def)
    show "run_ok r (set (kids (put_job jb d) (r_id r)))"
    proof (cases "j_run jb0 = Some (r_id r)")
      case True
      with j0 have "jb0 \<in> set (kids d (r_id r))" by (simp add: kids_set)
      from replaced_run_ok [OF ok this assms(3,5,4)] True k show ?thesis by simp
    next
      case False
      with ok k show ?thesis by simp
    qed
  qed
  moreover have "\<forall>j\<in>set (db_jobs (put_job jb d)). j_id j < db_next d \<and> (\<forall>i. j_run j = Some i \<longrightarrow> i < db_next d)"
    using assms(1,4) j0 by (auto simp: put_job_def set_put_by wf_def split: if_splits)
  ultimately show ?thesis
    using assms(1) dist unfolding wf_def by (simp add: put_job_def)
qed

definition keeps_jobs :: "(db \<Rightarrow> job \<Rightarrow> db res) \<Rightarrow> bool" where
  \<comment> \<open>a follow-on that writes neither runs nor jobs\<close>
  "keeps_jobs fn \<longleftrightarrow> (\<forall>d jb d'. fn d jb = Inr d' \<longrightarrow>
     db_runs d' = db_runs d \<and> db_jobs d' = db_jobs d \<and> db_next d' = db_next d)"

lemma side_follow_ons:
  "keeps_jobs write_device_action_log" "keeps_jobs stamp_connectivity" "keeps_jobs (emit_finished p)"
  by (auto simp: keeps_jobs_def write_device_action_log_def stamp_connectivity_def emit_finished_def
      emit_event_def put_item_def split: option.splits)

lemma savepoint_wf:
  assumes "keeps_jobs fn \<or> fn = advance_follow_on E" "wf d" "get_job (j_id jb) d = Some jb"
  shows "wf (savepoint fn jb d) \<and> (keeps_jobs fn \<longrightarrow> get_job (j_id jb) (savepoint fn jb d) = Some jb)"
proof (cases "fn d jb")
  case (Inl e)
  with assms show ?thesis by (simp add: savepoint_def)
next
  case (Inr d')
  show ?thesis
  proof (cases "keeps_jobs fn")
    case True
    with Inr have "db_runs d' = db_runs d" "db_jobs d' = db_jobs d" "db_next d' = db_next d"
      by (auto simp: keeps_jobs_def)
    with Inr assms wf_same_tables show ?thesis by (simp add: savepoint_def get_job_def)
  next
    case False
    with Inr assms show ?thesis
      by (auto simp: savepoint_def advance_follow_on_def bindR_Inr_iff intro: advance_run_wf)
  qed
qed

lemma get_job_put: "get_job (j_id jb) d = Some jb0 \<Longrightarrow> get_job (j_id jb) (put_job jb d) = Some jb"
  by (rule jobs.get_put_same)

lemma finish_job_wf:
  assumes "wf d" "get_job (j_id jb) d = Some jb0" "in_flight (j_status jb0)" "j_run jb = j_run jb0"
    "j_position jb = j_position jb0"
  shows "wf (finish_job E d jb s err probed)"
proof -
  let ?jb = "finished_job d jb s err"
  let ?d0 = "put_job ?jb d"
  have f: "j_id ?jb = j_id jb" "j_run ?jb = j_run jb" "j_position ?jb = j_position jb"
    by (simp_all add: finished_job_def)
  have w0: "wf ?d0" using assms f by (intro put_job_wf [of d ?jb jb0]) simp_all
  have g0: "get_job (j_id ?jb) ?d0 = Some ?jb" using assms f by (intro get_job_put [of _ _ jb0]) simp
  let ?pre = "if probed then [write_device_action_log, stamp_connectivity] else []"
  let ?d1 = "fold (\<lambda>fn. savepoint fn ?jb) ?pre ?d0"
  have "wf ?d1 \<and> get_job (j_id ?jb) ?d1 = Some ?jb"
    using savepoint_wf [OF disjI1 [OF side_follow_ons(1)] w0 g0] side_follow_ons
      savepoint_wf [OF disjI1 [OF side_follow_ons(2)], of "savepoint write_device_action_log ?jb ?d0" ?jb] w0 g0
    by (auto split: if_splits)
  then have "wf (savepoint (advance_follow_on E) ?jb ?d1)" using savepoint_wf by blast
  moreover have "wf (savepoint (emit_finished probed) ?jb d')" if "wf d'" for d'
    using that wf_same_tables side_follow_ons(3) [of probed]
    by (auto simp: savepoint_def keeps_jobs_def split: sum.splits)
  ultimately show ?thesis by (simp add: finish_job_def follow_ons_def Let_def)
qed

section \<open>Every interleaving\<close>

text \<open>
  What happens to the tables, one committed transaction at a time. The worker and the other
  services are outside the repository: between the code's own operations they move a job
  in flight to another in-flight status (claim, park, requeue, log), write other tables,
  add standalone jobs, and time passes. Every other step is a function of the model.
\<close>

inductive rstep :: "env \<Rightarrow> db \<Rightarrow> db \<Rightarrow> bool" for E where
  outside: "db_runs d' = db_runs d \<Longrightarrow> db_jobs d' = db_jobs d \<Longrightarrow> db_next d \<le> db_next d' \<Longrightarrow> rstep E d d'"
| standalone: "j_run jb = None \<Longrightarrow> add_job jb d = Inr (jb', d') \<Longrightarrow> rstep E d d'"
| worker: "get_job (j_id jb) d = Some jb0 \<Longrightarrow> in_flight (j_status jb0) \<Longrightarrow> in_flight (j_status jb) \<Longrightarrow>
    j_run jb = j_run jb0 \<Longrightarrow> j_position jb = j_position jb0 \<Longrightarrow> rstep E d (put_job jb d)"
| finish: "get_job (j_id jb) d = Some jb \<Longrightarrow> in_flight (j_status jb) \<Longrightarrow>
    rstep E d (finish_job E d jb s err probed)"
| parked: "get_job (j_id jb) d = Some jb \<Longrightarrow> in_flight (j_status jb) \<Longrightarrow>
    fail_parked E d jb code err display extra = Inr d' \<Longrightarrow> rstep E d d'"
| advance: "get_job (j_id jb) d = Some jb \<Longrightarrow> advance_run E d jb = Inr (d', nxt) \<Longrightarrow> rstep E d d'"
| create: "create_or_get_run E (\<lambda>d. d) d svc rv q = Inr (d', r, created) \<Longrightarrow> rstep E d d'"
| revert: "revert_run E d i = Inr (d', r, nxt) \<Longrightarrow> rstep E d d'"
| retry: "retry_rollback E d i = Inr (d', r, nxt) \<Longrightarrow> rstep E d d'"
| repair: "rstep E d (fst (repair_stranded_runs E d limit w))"

inductive reachable :: "env \<Rightarrow> db \<Rightarrow> bool" for E where
  start: "db_runs d = [] \<Longrightarrow> db_jobs d = [] \<Longrightarrow> reachable E d"
| step: "reachable E d \<Longrightarrow> rstep E d d' \<Longrightarrow> reachable E d'"

inductive_cases rstepE: "rstep E d d'"

lemma standalone_wf: "wf d \<Longrightarrow> j_run jb = None \<Longrightarrow> add_job jb d = Inr (jb', d') \<Longrightarrow> wf d'"
proof -
  assume a: "wf d" "j_run jb = None" "add_job jb d = Inr (jb', d')"
  then have d': "db_runs d' = db_runs d" "db_jobs d' = db_jobs d @ [jb']" "db_next d' = Suc (db_next d)"
    "jb' = jb\<lparr>j_id := db_next d\<rparr>"
    by (auto simp: add_job_def Let_def guardR_Inr_iff)
  have "kids d' i = kids d i" for i using d' a(2) by (simp add: kids_def)
  with a d' show "wf d'" unfolding wf_def by (auto simp: less_Suc_eq image_iff)
qed

lemma rstep_wf: "rstep E d d' \<Longrightarrow> wf d \<Longrightarrow> wf d'"
proof (induction rule: rstep.induct)
  case (parked jb d code err display extra d')
  then obtain l where "d' = finish_job E d (jb\<lparr>j_log := l\<rparr>) FAILED (Some code) True"
    by (auto simp: fail_parked_def bindR_Inr_iff)
  with parked finish_job_wf [of d "jb\<lparr>j_log := l\<rparr>" jb] show ?case by simp
qed (auto intro: wf_same_tables standalone_wf put_job_wf finish_job_wf advance_run_wf create_or_get_run_wf
    revert_run_wf retry_rollback_wf repair_stranded_runs_wf)

lemma reachable_wf: "reachable E d \<Longrightarrow> wf d"
proof (induction rule: reachable.induct)
  case (start d)
  then show ?case by (simp add: wf_def)
next
  case (step d d')
  then show ?case by (blast intro: rstep_wf)
qed

section \<open>A small network, for evaluating the operations\<close>

definition ex_env :: env where
  "ex_env = \<lparr>env_canon = (\<lambda>_. None), env_kill_switch = None, env_cwmp_url = None,
     env_seal = (\<lambda>_ _ _. None), env_open = (\<lambda>_ _ _. None), env_choice = (\<lambda>_ _ _. 0)\<rparr>"

definition ex_definition :: json where
  "ex_definition = JDict
     [(''configuration'', JList [JDict [(''name'', JStr ''add''), (''driver'', JStr ''http'')]]),
      (''rollback'', JList [JDict [(''name'', JStr ''undo''), (''driver'', JStr ''http''),
         (''undoes'', JStr ''add'')]])]"

definition ex_db :: db where
  "ex_db = \<lparr>db_now = 0, db_next = 100, db_runs = [], db_jobs = [],
     db_playbooks = [\<lparr>pb_id = 9, pb_company = 7, pb_name = ''olt'', pb_version = 3,
        pb_definition = ex_definition, pb_last_dry = Some 3\<rparr>],
     db_types = [], db_services = [], db_items = [], db_settings = [], db_credentials = [],
     db_registrations = [], db_actions = [], db_events = []\<rparr>"

definition ex_node :: "id \<Rightarrow> nat \<Rightarrow> resolved_node" where
  "ex_node i p = \<lparr>rn_position = p, rn_item = i, rn_serial = None, rn_type = None,
     rn_type_name = ''OLT'', rn_category = None, rn_playbook = Some 9, rn_version = Some 3, rn_label = None\<rparr>"

definition ex_resolved :: resolved where
  "ex_resolved = \<lparr>rv_path = [ex_node 21 0, ex_node 22 1], rv_steps = [ex_node 21 0, ex_node 22 1],
     rv_shared = [], rv_device = []\<rparr>"

definition ex_service :: service where
  "ex_service = \<lparr>sv_id = 5, sv_company = 7, sv_path_changed = None\<rparr>"

definition ex_request :: run_request where
  "ex_request = \<lparr>rq_purpose = ''ACTIVATION'', rq_dry = False, rq_trigger = USER, rq_user = None,
     rq_key = None, rq_extra = [], rq_mode = AUTOMATIC, rq_guided = None\<rparr>"

definition ex_created :: db where
  \<comment> \<open>an activation over two devices is open, its first child queued\<close>
  "ex_created = (case create_or_get_run ex_env (\<lambda>d. d) ex_db ex_service ex_resolved ex_request of
     Inr (d, r, c) \<Rightarrow> d | Inl e \<Rightarrow> ex_db)"

definition ex_settle :: "job_status \<Rightarrow> json \<Rightarrow> db \<Rightarrow> db" where
  \<comment> \<open>the newest job ends with the status and the log\<close>
  "ex_settle s l d = (case rev (db_jobs d) of
     [] \<Rightarrow> d
   | jb # _ \<Rightarrow>
       (let jb' = jb\<lparr>j_status := RUNNING, j_log := l\<rparr>
        in finish_job ex_env (put_job jb' d) jb' s None False))"

lemma ex_created_reachable: "reachable ex_env ex_created"
proof -
  have s: "reachable ex_env ex_db" by (rule reachable.start) (simp_all add: ex_db_def)
  show ?thesis
  proof (cases "create_or_get_run ex_env (\<lambda>d. d) ex_db ex_service ex_resolved ex_request")
    case (Inl e)
    with s show ?thesis by (simp add: ex_created_def)
  next
    case (Inr x)
    obtain d r c where x: "x = (d, r, c)" by (cases x)
    from s have "reachable ex_env d" by (rule reachable.step) (rule rstep.create [OF Inr [unfolded x]])
    with Inr x show ?thesis by (simp add: ex_created_def)
  qed
qed

lemma ex_settle_reachable:
  assumes "reachable ex_env d" "list_all (\<lambda>j. in_flight (j_status j)) (take 1 (rev (db_jobs d)))"
  shows "reachable ex_env (ex_settle s l d)"
proof (cases "rev (db_jobs d)")
  case Nil
  with assms(1) show ?thesis by (simp add: ex_settle_def)
next
  case (Cons jb js)
  let ?jb = "jb\<lparr>j_status := RUNNING, j_log := l\<rparr>"
  have "distinct (map j_id (db_jobs d))" using reachable_wf [OF assms(1)] by (simp add: wf_def)
  moreover have "jb \<in> set (db_jobs d)" using Cons by (metis list.set_intros(1) set_rev)
  ultimately have g: "get_job (j_id ?jb) d = Some jb" by (simp add: get_job_def find_by_unique)
  have "reachable ex_env (put_job ?jb d)"
    by (rule reachable.step [OF assms(1)], rule rstep.worker [OF g]) (use assms(2) Cons in simp_all)
  moreover have "rstep ex_env (put_job ?jb d) (finish_job ex_env (put_job ?jb d) ?jb s None False)"
    by (rule rstep.finish) (use get_job_put [OF g] in simp_all)
  ultimately have "reachable ex_env (finish_job ex_env (put_job ?jb d) ?jb s None False)"
    by (rule reachable.step)
  then show ?thesis by (simp add: ex_settle_def Cons Let_def)
qed

lemma ex_created_eval: "map (\<lambda>r. (r_id r, r_status r, length (r_plan r))) (db_runs ex_created) = [(100, QUEUED, 2)]"
  by code_simp

definition ex_succeeded :: db where
  "ex_succeeded = ex_settle SUCCEEDED JNull (ex_settle SUCCEEDED JNull ex_created)"

definition ex_log :: json where
  \<comment> \<open>the step failed after its command was sent\<close>
  "ex_log = JDict [(''steps'', JList [JDict [(''name'', JStr ''add''), (''status'', JStr ''FAILED'')]])]"

definition ex_failed :: db where
  \<comment> \<open>the first device is configured, the second one's child fails: its rollback is queued\<close>
  "ex_failed = ex_settle FAILED ex_log
     (ex_settle SUCCEEDED (JDict [(''steps'', JList [JDict [(''name'', JStr ''add''), (''status'', JStr ''SUCCEEDED'')]])])
       ex_created)"

lemma ex_succeeded_reachable: "reachable ex_env ex_succeeded"
proof -
  have "list_all (\<lambda>j. in_flight (j_status j)) (take 1 (rev (db_jobs ex_created)))" by code_simp
  note 1 = ex_settle_reachable [OF ex_created_reachable this]
  have "list_all (\<lambda>j. in_flight (j_status j)) (take 1 (rev (db_jobs (ex_settle SUCCEEDED JNull ex_created))))"
    by code_simp
  from ex_settle_reachable [OF 1 this] show ?thesis by (simp add: ex_succeeded_def)
qed

lemma ex_failed_reachable: "reachable ex_env ex_failed"
proof -
  let ?l = "JDict [(''steps'', JList [JDict [(''name'', JStr ''add''), (''status'', JStr ''SUCCEEDED'')]])]"
  have "list_all (\<lambda>j. in_flight (j_status j)) (take 1 (rev (db_jobs ex_created)))" by code_simp
  note 1 = ex_settle_reachable [OF ex_created_reachable this]
  have "list_all (\<lambda>j. in_flight (j_status j)) (take 1 (rev (db_jobs (ex_settle SUCCEEDED ?l ex_created))))"
    by code_simp
  from ex_settle_reachable [OF 1 this] show ?thesis by (simp add: ex_failed_def)
qed

section \<open>What holds in every reachable state\<close>

lemma one_live_length:
  assumes "one_live (set cs)" "distinct cs"
  shows "length (filter (\<lambda>c. in_flight (j_status c)) cs) \<le> 1"
proof (rule ccontr)
  let ?f = "filter (\<lambda>c. in_flight (j_status c)) cs"
  assume "\<not> length ?f \<le> 1"
  then obtain a b rest where f: "?f = a # b # rest" by (cases ?f; cases "tl ?f") auto
  then have ab: "a \<in> set ?f" "b \<in> set ?f" by simp_all
  from assms(2) have "distinct ?f" by simp
  with f have "a \<noteq> b" by simp
  with ab assms(1) have "pos a < pos b" "pos b < pos a" by (auto simp: one_live_def)
  then show False by simp
qed

lemma wf_distinct_kids: "wf d \<Longrightarrow> distinct (kids d i)"
  by (simp add: wf_def kids_def distinct_map)

text \<open>
  C1. In every reachable state, at most one child of a run is in flight, a run whose
  status is terminal has none, and no entry of a plan was ever given two children: whatever the order of claims, settles, duplicate advances,
  repairs, reverts and retries, no device is configured twice at once for one run and a
  closed run leaves nothing behind.
\<close>

theorem single_child_in_flight:
  assumes "reachable E d" "get_run i d = Some r"
  shows "length (filter (\<lambda>c. in_flight (j_status c)) (kids d i)) \<le> (if in_flight (r_status r) then 1 else 0) \<and>
     distinct (map pos (kids d i))"
proof -
  note w = reachable_wf [OF assms(1)]
  note k = wf_run_ok [OF w assms(2)]
  show ?thesis
    using k one_live_length [of "kids d i"] wf_distinct_kids [OF w]
    by (auto simp: run_ok_def closed_quiet_def one_live_def distinct_map filter_empty_conv)
qed

lemma single_child_in_flight_witness:
  "length (filter (\<lambda>c. in_flight (j_status c)) (kids ex_created 100)) \<le> 1 \<and>
   filter (\<lambda>c. in_flight (j_status c)) (kids ex_succeeded 100) = []"
proof
  have "(case get_run 100 ex_created of Some r \<Rightarrow> r_status r | None \<Rightarrow> FAILED) = QUEUED" by code_simp
  then obtain r where "get_run 100 ex_created = Some r" "r_status r = QUEUED"
    by (auto split: option.splits)
  with single_child_in_flight [OF ex_created_reachable this(1)]
  show "length (filter (\<lambda>c. in_flight (j_status c)) (kids ex_created 100)) \<le> 1" by simp
  have "(case get_run 100 ex_succeeded of Some r \<Rightarrow> r_status r | None \<Rightarrow> FAILED) = SUCCEEDED" by code_simp
  then obtain r where "get_run 100 ex_succeeded = Some r" "r_status r = SUCCEEDED"
    by (auto split: option.splits)
  with single_child_in_flight [OF ex_succeeded_reachable this(1)]
  show "filter (\<lambda>c. in_flight (j_status c)) (kids ex_succeeded 100) = []" by simp
qed

text \<open>
  C3. In every reachable state, a live run is SUCCEEDED only when every entry of its plan has
  a child that SUCCEEDED, and none of them is still in flight.
\<close>

theorem success_means_every_entry:
  assumes "reachable E d" "get_run i d = Some r" "\<not> r_dry r" "r_status r = SUCCEEDED"
  shows "\<forall>q < length (r_plan r). \<exists>c\<in>set (kids d i). pos c = q \<and> j_status c = SUCCEEDED"
proof -
  note k = wf_run_ok [OF reachable_wf [OF assms(1)] assms(2)]
  with assms(3,4) show ?thesis by (auto simp: run_ok_def success_complete_def succeeded_upto_def)
qed

lemma success_means_every_entry_witness:
  "list_ex (\<lambda>c. pos c = 0 \<and> j_status c = SUCCEEDED) (kids ex_succeeded 100) \<and>
   list_ex (\<lambda>c. pos c = 1 \<and> j_status c = SUCCEEDED) (kids ex_succeeded 100)"
proof -
  have "(case get_run 100 ex_succeeded of
      Some r \<Rightarrow> r_status r = SUCCEEDED \<and> \<not> r_dry r \<and> length (r_plan r) = 2 | None \<Rightarrow> False)" by code_simp
  then obtain r where r: "get_run 100 ex_succeeded = Some r" "r_status r = SUCCEEDED" "\<not> r_dry r"
    "length (r_plan r) = 2"
    by (auto split: option.splits)
  from success_means_every_entry [OF ex_succeeded_reachable r(1,3,2)] r(4) show ?thesis
    by (auto simp: list_ex_iff)
qed

text \<open>
  C2. In every reachable state, a live run has touched a forward entry of its plan only if
  every earlier entry succeeded; and nothing follows a ROLLBACK entry of its plan but other
  ROLLBACK entries, so the forward plan is a prefix that is never taken up again.
\<close>

theorem forward_past_successes_only:
  assumes "reachable E d" "get_run i d = Some r" "\<not> r_dry r"
  shows "(\<forall>c\<in>set (kids d i). phase_of (r_plan r) (pos c) \<noteq> Some ROLLBACK \<longrightarrow>
            (\<forall>q < pos c. \<exists>b\<in>set (kids d i). pos b = q \<and> j_status b = SUCCEEDED)) \<and>
         (\<forall>p q. p < q \<longrightarrow> q < length (r_plan r) \<longrightarrow> phase_of (r_plan r) p = Some ROLLBACK \<longrightarrow>
            phase_of (r_plan r) q = Some ROLLBACK)"
proof -
  note k = wf_run_ok [OF reachable_wf [OF assms(1)] assms(2)]
  with assms(3) show ?thesis
    by (simp add: run_ok_def forward_only_def rollback_suffix_def phase_at_of succeeded_upto_def)
qed

lemma forward_past_successes_only_witness:
  "list_ex (\<lambda>b. pos b = 0 \<and> j_status b = SUCCEEDED) (kids ex_failed 100)"
proof -
  have "(case get_run 100 ex_failed of
      Some r \<Rightarrow> \<not> r_dry r \<and> map pe_phase (r_plan r) =
        [Some CONFIGURATION, Some CONFIGURATION, Some ROLLBACK, Some ROLLBACK]
    | None \<Rightarrow> False) \<and> map pos (kids ex_failed 100) = [0, 1, 2]" by code_simp
  then obtain r where r: "get_run 100 ex_failed = Some r" "\<not> r_dry r"
    "map pe_phase (r_plan r) = [Some CONFIGURATION, Some CONFIGURATION, Some ROLLBACK, Some ROLLBACK]"
    and p: "map pos (kids ex_failed 100) = [0, 1, 2]"
    by (auto split: option.splits)
  from p obtain c where c: "c \<in> set (kids ex_failed 100)" "pos c = 1" by fastforce
  have "length (r_plan r) = 4" using arg_cong [OF r(3), of length] by simp
  moreover have "pe_phase (r_plan r ! 1) = Some CONFIGURATION"
    using calculation arg_cong [OF r(3), of "\<lambda>xs. xs ! 1"] by simp
  ultimately have "phase_of (r_plan r) (pos c) \<noteq> Some ROLLBACK"
    using c by (simp add: phase_of_def nth_opt_def)
  with forward_past_successes_only [OF ex_failed_reachable r(1,2)] c show ?thesis
    unfolding list_ex_iff by (metis less_one)
qed

end
