(* ===== verification/Run_Properties.thy ===== *)
theory Run_Properties
  imports Run_Invariants
begin

text \<open>
  What single operations of the provisioning state machine promise: a repeated advance does
  nothing, one in-flight run per key, one RUN_CLOSED event per close, the order and the
  content of a rollback, the shape of a new plan, the row of a settled job, and the key and
  the plan-wide refusals of a new run.
\<close>

section \<open>A repeated advance\<close>

lemma steps_to_get:
  assumes "wf d" "get_run i d = Some r" "steps_to d r x (d', r', nxt)"
  shows "get_run i d' = Some r'"
proof -
  have "r_id r = i" using wf_run_ok [OF assms(1,2)] by simp
  moreover have "r_id r' = r_id r" using assms(3)
    by (auto simp: steps_to_def elim!: outcome.cases dest: coreD)
  ultimately show ?thesis using assms(2,3) by (auto simp: steps_to_def upd_def get_run_def)
qed

lemma advanced_is_later:
  assumes "wf d" "get_run i d = Some r" "jb \<in> set (kids d i)" "steps_to d r (Some jb) (d', r', nxt)"
  shows "\<not> in_flight (r_status r') \<or> later_child d' r' jb"
proof -
  have id: "r_id r = i" and pl: "pos jb < length (r_plan r)"
    using wf_run_ok [OF assms(1,2)] assms(3) by (auto simp: run_ok_def placed_def)
  from assms(4) have u: "upd d r' (opt_list nxt) d'" and oc: "outcome r (Some jb) r' nxt"
    by (simp_all add: steps_to_def)
  show ?thesis
  proof (cases nxt)
    case None
    with oc show ?thesis by (auto elim: outcome.cases)
  next
    case (Some j)
    with oc have "j_run j = Some (r_id r')" "j_position j \<noteq> None" "pos jb < pos j"
      using pl by (auto simp: child_at_def pos_def elim!: outcome.cases)
    with u Some show ?thesis by (auto simp: later_child_def list_ex_iff kids_set upd_def)
  qed
qed

text \<open>
  C21. Advancing a job twice does nothing the second time: after an advance that succeeded,
  from any reachable state, a duplicate or stale advance of the same job leaves every table
  as it is and queues no child. A standalone job is never advanced.
\<close>

theorem advance_idempotent:
  assumes "reachable E d" "get_job (j_id jb) d = Some jb" "advance_run E d jb = Inr (d', nxt)"
  shows "advance_run E d' jb = Inr (d', None) \<and> (j_run jb = None \<longrightarrow> d' = d \<and> nxt = None)"
proof -
  note w = reachable_wf [OF assms(1)]
  from assms(2) have mem: "jb \<in> set (db_jobs d)" by (auto simp: get_job_def dest: find_by_SomeD)
  show ?thesis
  proof (cases "d' = d \<and> nxt = None")
    case True
    with assms(3) show ?thesis by auto
  next
    case False
    with assms(3) obtain i r r' where r: "j_run jb = Some i" "get_run i d = Some r"
      "\<not> in_flight (j_status jb)" "advance_locked E d r jb = Inr (d', r', nxt)"
      by (auto simp: advance_run_def bindR_Inr_iff bind_eq_Some_conv split: option.splits if_splits)
    note s = advance_locked_steps [OF r(4,3)]
    from mem r(1) have "jb \<in> set (kids d i)" by (simp add: kids_set)
    from advanced_is_later [OF w r(2) this s] steps_to_get [OF w r(2) s] r(1) show ?thesis
      by (auto simp: advance_run_def)
  qed
qed


lemma advance_idempotent_witness:
  "case db_jobs ex_succeeded of
     [a, b] \<Rightarrow> advance_run ex_env ex_succeeded a = Inr (ex_succeeded, None)
   | _ \<Rightarrow> False"
proof -
  have "map j_id (db_jobs ex_succeeded) = [101, 102]" by code_simp
  then obtain a b where ab: "db_jobs ex_succeeded = [a, b]" "j_id a = 101" "j_id b = 102"
    by (auto simp: map_eq_Cons_conv)
  have g: "get_job (j_id a) ex_succeeded = Some a" using ab by (simp add: get_job_def)
  have "(case get_run 100 ex_succeeded of Some r \<Rightarrow> \<not> in_flight (r_status r) | None \<Rightarrow> False)"
    "(case get_job 101 ex_succeeded of Some a \<Rightarrow> j_run a = Some 100 | None \<Rightarrow> False)"
    by code_simp+
  then have "advance_run ex_env ex_succeeded a = Inr (ex_succeeded, None)"
    using g ab(2) by (auto simp: advance_run_def split: option.splits)
  from advance_idempotent [OF ex_succeeded_reachable g this] ab show ?thesis by simp
qed

section \<open>One run in flight per key\<close>

definition one_per_key :: "db \<Rightarrow> bool" where
  "one_per_key d \<longleftrightarrow> (\<forall>r\<in>set (db_runs d). \<forall>q\<in>set (db_runs d).
     in_flight (r_status r) \<and> in_flight (r_status q) \<and> r_company r = r_company q \<and> r_key r = r_key q \<and>
     r_key r \<noteq> None \<longrightarrow> r_id r = r_id q)"

definition key_free :: "run \<Rightarrow> db \<Rightarrow> bool" where
  \<comment> \<open>no other run in flight has the key\<close>
  "key_free r d \<longleftrightarrow> (r_key r \<noteq> None \<longrightarrow> (\<forall>q\<in>set (db_runs d). r_id q \<noteq> r_id r \<longrightarrow>
     r_company q = r_company r \<longrightarrow> r_key q = r_key r \<longrightarrow> \<not> in_flight (r_status q)))"

lemma not_taken_free: "\<not> run_key_taken r d \<Longrightarrow> in_flight (r_status r) \<Longrightarrow> key_free r d"
  by (auto simp: run_key_taken_def key_free_def list_ex_iff)

lemma one_per_key_free: "one_per_key d \<Longrightarrow> r \<in> set (db_runs d) \<Longrightarrow> in_flight (r_status r) \<Longrightarrow> key_free r d"
  unfolding one_per_key_def key_free_def by metis

lemma one_per_key_put:
  assumes "one_per_key d" "db_runs d' = put_by r_id r (db_runs d)" "in_flight (r_status r) \<Longrightarrow> key_free r d"
  shows "one_per_key d'"
  unfolding one_per_key_def
proof (intro ballI impI, elim conjE)
  fix a b assume ab: "a \<in> set (db_runs d')" "b \<in> set (db_runs d')" and fl: "in_flight (r_status a)"
    "in_flight (r_status b)" and eq: "r_company a = r_company b" "r_key a = r_key b" "r_key a \<noteq> None"
  have mem: "x = r \<or> x \<in> set (db_runs d) \<and> r_id x \<noteq> r_id r" if "x \<in> set (db_runs d')" for x
    using that unfolding assms(2) set_put_by by (auto split: if_splits)
  show "r_id a = r_id b"
  proof (cases "a = r \<or> b = r")
    case True
    then show ?thesis
    proof
      assume a: "a = r"
      with assms(3) fl have "key_free r d" by simp
      with a eq fl mem [OF ab(2)] show ?thesis unfolding key_free_def by metis
    next
      assume b: "b = r"
      with assms(3) fl have "key_free r d" by simp
      with b eq fl mem [OF ab(1)] show ?thesis unfolding key_free_def by metis
    qed
  next
    case False
    with mem ab have "a \<in> set (db_runs d)" "b \<in> set (db_runs d)" by blast+
    with assms(1) fl eq show ?thesis unfolding one_per_key_def by blast
  qed
qed

lemma one_per_key_add:
  assumes "one_per_key d" "db_runs d' = db_runs d @ [r]" "key_free r d"
  shows "one_per_key d'"
  unfolding one_per_key_def
proof (intro ballI impI, elim conjE)
  fix a b assume ab: "a \<in> set (db_runs d')" "b \<in> set (db_runs d')" and fl: "in_flight (r_status a)"
    "in_flight (r_status b)" and eq: "r_company a = r_company b" "r_key a = r_key b" "r_key a \<noteq> None"
  have mem: "x = r \<or> x \<in> set (db_runs d)" if "x \<in> set (db_runs d')" for x
    using that unfolding assms(2) by auto
  consider "a = r" "b = r" | "a = r" "b \<in> set (db_runs d)" | "b = r" "a \<in> set (db_runs d)"
    | "a \<in> set (db_runs d)" "b \<in> set (db_runs d)"
    using mem ab by blast
  then show "r_id a = r_id b"
  proof cases
    case 2
    with eq fl assms(3) show ?thesis unfolding key_free_def by metis
  next
    case 3
    with eq fl assms(3) show ?thesis unfolding key_free_def by metis
  next
    case 4
    with assms(1) fl eq show ?thesis unfolding one_per_key_def by blast
  qed simp
qed

lemma steps_to_key:
  assumes "steps_to d r x (d', r', nxt)"
  shows "r_id r' = r_id r \<and> r_company r' = r_company r \<and> r_key r' = r_key r"
  using assms by (auto simp: steps_to_def core_def elim!: outcome.cases)

lemma steps_to_one_per_key:
  assumes "one_per_key d" "steps_to d r x (d', r', nxt)" "r \<in> set (db_runs d)"
    "in_flight (r_status r') \<Longrightarrow> in_flight (r_status r) \<or> key_free r d"
  shows "one_per_key d'"
proof (rule one_per_key_put [OF assms(1)])
  show "db_runs d' = put_by r_id r' (db_runs d)" using assms(2) by (simp add: steps_to_def upd_def)
  assume "in_flight (r_status r')"
  with assms have "key_free r d" using one_per_key_free by blast
  with steps_to_key [OF assms(2)] show "key_free r' d" by (simp add: key_free_def)
qed

lemma advance_run_one_per_key:
  assumes "one_per_key d" "advance_run E d jb = Inr (d', nxt)"
  shows "one_per_key d'"
proof -
  from assms(2) consider "d' = d" | i r r' where "get_run i d = Some r" "in_flight (r_status r)"
      "\<not> in_flight (j_status jb)" "advance_locked E d r jb = Inr (d', r', nxt)"
    by (auto simp: advance_run_def bindR_Inr_iff bind_eq_Some_conv split: option.splits if_splits)
  then show ?thesis
  proof cases
    case 2
    then have "r \<in> set (db_runs d)" by (auto simp: get_run_def dest: find_by_SomeD)
    from steps_to_one_per_key [OF assms(1) advance_locked_steps [OF 2(4,3)] this] 2(2) show ?thesis by blast
  qed (use assms in simp)
qed

lemma save_run_free:
  "save_run r d = Inr (r', d') \<Longrightarrow> in_flight (r_status r) \<Longrightarrow> key_free r' d"
  by (rule not_taken_free) (auto simp: save_run_def Let_def guardR_Inr_iff split: if_splits)

lemma queue_child_free:
  assumes "queue_child E d r p = Inr (d', r', Some j)" "in_flight (r_status r)"
  shows "key_free r' d"
proof -
  from assms(1) obtain r0 d1 where "save_run r0 d = Inr (r', d1)" "r_status r0 = r_status r"
    by (auto simp: queue_child_def bindR_Inr_iff split: option.splits)
  with save_run_free assms(2) show ?thesis by auto
qed

lemma key_free_same:
  "key_free r d \<Longrightarrow> r_id q = r_id r \<Longrightarrow> r_company q = r_company r \<Longrightarrow> r_key q = r_key r \<Longrightarrow> key_free q d"
  by (simp add: key_free_def)

lemma close_after_free:
  assumes "close_after_rollback_planned E d r es ns = Inr (d', r', Some j)"
  shows "key_free r' d"
  using assms
  by (auto simp: close_after_rollback_planned_def bindR_Inr_iff split: if_splits intro: queue_child_free)

lemma steps_to_child: "steps_to d r x (d', r', nxt) \<Longrightarrow> in_flight (r_status r') \<Longrightarrow> \<exists>j. nxt = Some j"
  by (auto simp: steps_to_def elim!: outcome.cases)

lemma record_cause_keys:
  "r_id (record_rollback r es ns) = r_id r" "r_company (record_rollback r es ns) = r_company r"
  "r_key (record_rollback r es ns) = r_key r"
  by (simp_all add: record_rollback_def Let_def)

lemma revert_run_one_per_key:
  assumes "one_per_key d" "revert_run E d i = Inr (d', r', nxt)"
  shows "one_per_key d'"
proof -
  from assms(2) obtain r where r: "get_run i d = Some r" and g: "\<not> revert_refused d r"
    by (auto simp: revert_run_def guardR_Inr_iff split: option.splits)
  let ?r1 = "(set_cause r REVERTED None)\<lparr>r_status := RUNNING, r_phase := Some ROLLBACK, r_finished := None\<rparr>"
  let ?part = "plan_rollback d ?r1 None"
  from assms(2) r g have c: "close_after_rollback_planned E d
      (record_rollback ?r1 (rp_entries ?part) (rp_no_rollback ?part)) (rp_entries ?part)
      (rp_no_rollback ?part) = Inr (d', r', nxt)"
    by (simp add: revert_run_def Let_def)
  from g have st: "\<not> r_dry r" by (auto simp: revert_refused_def)
  have s: "steps_to d r None (d', r', nxt)"
    by (rule close_after_steps [OF c]) (use st rollback_parts_phase in auto)
  have "r \<in> set (db_runs d)" using r by (auto simp: get_run_def dest: find_by_SomeD)
  moreover have "key_free r d" if "in_flight (r_status r')"
    using steps_to_child [OF s that] c close_after_free steps_to_key [OF s] key_free_same by metis
  ultimately show ?thesis using steps_to_one_per_key [OF assms(1) s] by blast
qed

lemma retry_rollback_one_per_key:
  assumes "one_per_key d" "retry_rollback E d i = Inr (d', r', nxt)"
  shows "one_per_key d'"
proof -
  from assms(2) obtain r where r: "get_run i d = Some r" and g: "\<not> rollback_retry_refused d r"
    by (auto simp: retry_rollback_def guardR_Inr_iff split: option.splits)
  let ?st = "rollback_state_of r"
  let ?r1 = "r\<lparr>r_error_code := (case rb_cause_code ?st of None \<Rightarrow> r_error_code r | Some c \<Rightarrow> Some c),
      r_error := rb_cause_error ?st, r_status := RUNNING, r_phase := Some ROLLBACK, r_finished := None\<rparr>"
  let ?items = "retry_items d r"
  from assms(2) r g obtain d1 r2 es where
    a: "(if ?items \<noteq> [] then append_rollback d ?r1 (Some ?items) else Inr (d, ?r1, [])) = Inr (d1, r2, es)"
    and k: "(if es \<noteq> [] then queue_child E d1 r2 (length (r_plan r2) - length es)
             else close_result (finish_rollback d1 r2)) = Inr (d', r', nxt)"
    by (auto simp: retry_rollback_def Let_def bindR_Inr_iff)
  have mem: "r \<in> set (db_runs d)" using r by (auto simp: get_run_def dest: find_by_SomeD)
  have one: "one_per_key d1 \<and> r_id r2 = r_id r \<and> r_company r2 = r_company r \<and> r_key r2 = r_key r"
  proof (cases "?items = []")
    case True
    with a assms(1) show ?thesis by auto
  next
    case False
    let ?part = "plan_rollback d ?r1 (Some ?items)"
    let ?rr = "record_rollback ?r1 (rp_entries ?part) (rp_no_rollback ?part)"
    from False a have sv: "save_run ?rr d = Inr (r2, d1)"
      by (auto simp: append_rollback_def Let_def bindR_Inr_iff)
    note v = save_run_upd [OF sv]
    have "in_flight (r_status ?rr)" by (simp add: record_rollback_facts)
    from save_run_free [OF sv this] have "key_free r2 d" .
    moreover have "db_runs d1 = put_by r_id r2 (db_runs d)" using v by (simp add: upd_def)
    ultimately have "one_per_key d1" using one_per_key_put [OF assms(1)] by blast
    with v show ?thesis by (simp add: core_def record_cause_keys)
  qed
  show ?thesis
  proof (cases "es = []")
    case True
    with k have fr: "finish_rollback d1 r2 = Inr (d', r')" by (auto simp: close_result_Inr)
    from finish_rollback_steps [OF fr refl] have s: "steps_to d1 r2 None (d', r', None)" .
    from s have "db_runs d' = put_by r_id r' (db_runs d1)" "\<not> in_flight (r_status r')"
      by (auto simp: steps_to_def upd_def elim: outcome.cases)
    with one one_per_key_put show ?thesis by blast
  next
    case False
    with k have q: "queue_child E d1 r2 (length (r_plan r2) - length es) = Inr (d', r', nxt)" by simp
    show ?thesis
    proof (cases nxt)
      case None
      with queue_child_None q one show ?thesis by blast
    next
      case (Some j)
      note qs = queue_child_Some [OF q [unfolded Some]]
      have "db_runs d' = put_by r_id r' (db_runs d1)" using qs by (simp add: upd_def)
      moreover have "in_flight (r_status r2)"
        using a save_run_upd by (auto simp: append_rollback_def Let_def bindR_Inr_iff record_rollback_facts
            split: if_splits dest!: save_run_upd)
      then have "key_free r' d1" using queue_child_free q Some by blast
      ultimately show ?thesis using one one_per_key_put by blast
    qed
  qed
qed

lemma create_run_one_per_key:
  assumes "one_per_key d" "create_run E d svc rv q = Inr (d', r')"
  shows "one_per_key d'"
proof -
  from assms(2) obtain g d1 ordered defs specs plan sealed d2 child where
    pc: "plan_checks E d svc rv (rq_purpose q) (\<not> rq_dry q) = Inr (d1, ordered, defs, specs)"
    and ins: "insert_run (new_run d1 svc rv q g plan defs sealed) d1 = Inr d2"
    and qc: "queue_child E d2 (new_run d1 svc rv q g plan defs sealed) 0 = Inr (d', r', child)"
    by (auto simp: create_run_def Let_def guardR_Inr_iff bindR_Inr_iff)
  let ?r = "new_run d1 svc rv q g plan defs sealed"
  have fl: "in_flight (r_status ?r)" by (simp add: new_run_def)
  from ins fl have d2: "db_runs d2 = db_runs d @ [?r]" "key_free ?r d"
    using plan_checks_tables [OF pc] not_taken_free [of ?r d1]
    by (auto simp: insert_run_def guardR_Inr_iff key_free_def)
  note one = one_per_key_add [OF assms(1) d2]
  show ?thesis
  proof (cases child)
    case None
    with queue_child_None qc one show ?thesis by blast
  next
    case (Some j)
    note qs = queue_child_Some [OF qc [unfolded Some]]
    have "db_runs d' = put_by r_id r' (db_runs d2)" using qs by (simp add: upd_def)
    moreover have "key_free r' d2" using queue_child_free qc Some fl by blast
    ultimately show ?thesis using one one_per_key_put by blast
  qed
qed

lemma repair_all_one_per_key:
  "one_per_key d \<Longrightarrow> wf d \<Longrightarrow> distinct ids \<Longrightarrow>
     \<forall>i\<in>set ids. \<exists>r. get_run i d = Some r \<and> in_flight (r_status r) \<Longrightarrow>
     one_per_key (fst (repair_all E d ids n))"
proof (induction ids arbitrary: d n)
  case (Cons i rest)
  then obtain r where r: "get_run i d = Some r" "in_flight (r_status r)" by auto
  show ?case
  proof (cases "repair_run E d r")
    case (Inl e)
    with Cons r show ?thesis by simp
  next
    case (Inr p)
    obtain d1 b where p: "p = (d1, b)" by force
    note w = repair_run_wf [OF Cons.prems(2) r Inr [unfolded p]]
    have mem: "r \<in> set (db_runs d)" "r_id r = i" using wf_run_ok [OF Cons.prems(2) r(1)] by auto
    have "one_per_key d1"
      using repair_run_steps [OF Inr [unfolded p]] r mem Cons.prems(1) steps_to_one_per_key by blast
    moreover have "\<forall>k\<in>set rest. \<exists>r. get_run k d1 = Some r \<and> in_flight (r_status r)"
      using Cons.prems w by (metis distinct.simps(2) list.set_intros(2))
    ultimately show ?thesis using Cons w Inr r p by simp
  qed
qed simp

lemma fold_savepoint_one_per_key:
  "\<forall>fn\<in>set fns. keeps_jobs fn \<or> fn = advance_follow_on E \<Longrightarrow> one_per_key d \<Longrightarrow>
     one_per_key (fold (\<lambda>fn. savepoint fn jb) fns d)"
proof (induction fns arbitrary: d)
  case (Cons fn fns)
  have "one_per_key (savepoint fn jb d)"
  proof (cases "fn d jb")
    case (Inr d')
    show ?thesis
    proof (cases "keeps_jobs fn")
      case True
      with Inr Cons.prems(2) show ?thesis by (auto simp: savepoint_def keeps_jobs_def one_per_key_def)
    next
      case False
      with Inr Cons.prems show ?thesis
        by (auto simp: savepoint_def advance_follow_on_def bindR_Inr_iff intro: advance_run_one_per_key)
    qed
  qed (use Cons.prems in \<open>simp add: savepoint_def\<close>)
  with Cons show ?case by simp
qed simp

lemma finish_job_one_per_key: "one_per_key d \<Longrightarrow> one_per_key (finish_job E d jb s err probed)"
  unfolding finish_job_def Let_def
  by (rule fold_savepoint_one_per_key [of _ E])
    (auto simp: follow_ons_def side_follow_ons one_per_key_def put_job_def)

lemma rstep_one_per_key:
  assumes "rstep E d d'" "wf d" "one_per_key d" shows "one_per_key d'"
  using assms(1)
proof cases
  case outside
  with assms(3) show ?thesis by (simp add: one_per_key_def)
next
  case standalone
  then have "db_runs d' = db_runs d" by (auto simp: add_job_def Let_def guardR_Inr_iff)
  with assms(3) show ?thesis by (simp add: one_per_key_def)
next
  case worker
  with assms(3) show ?thesis by (simp add: one_per_key_def put_job_def)
next
  case finish
  with assms(3) show ?thesis by (simp add: finish_job_one_per_key)
next
  case parked
  with assms(3) show ?thesis by (auto simp: fail_parked_def bindR_Inr_iff intro: finish_job_one_per_key)
next
  case advance
  with assms(3) show ?thesis by (blast intro: advance_run_one_per_key)
next
  case create
  with assms(3) show ?thesis
    by (auto simp: create_or_get_run_def Let_def split: option.splits sum.splits exn.splits
        intro: create_run_one_per_key)
next
  case revert
  with assms(3) show ?thesis by (blast intro: revert_run_one_per_key)
next
  case retry
  with assms(3) show ?thesis by (blast intro: retry_rollback_one_per_key)
next
  case (repair limit w)
  let ?rs = "stranded_runs d limit w"
  have "distinct (map r_id ?rs)"
    using assms(2) by (simp add: stranded_runs_def wf_def distinct_map_take_sort)
  moreover have "\<forall>r\<in>set ?rs. r \<in> set (db_runs d) \<and> in_flight (r_status r)"
    by (auto simp: stranded_runs_def dest: in_set_takeD)
  then have "\<forall>i\<in>set (map r_id ?rs). \<exists>r. get_run i d = Some r \<and> in_flight (r_status r)"
    using assms(2) by (auto simp: wf_def get_run_def find_by_unique)
  ultimately show ?thesis
    using repair_all_one_per_key [OF assms(3,2)] repair by (simp add: repair_stranded_runs_def)
qed

lemma reachable_one_per_key: "reachable E d \<Longrightarrow> one_per_key d"
proof (induction rule: reachable.induct)
  case (start d)
  then show ?case by (simp add: one_per_key_def)
next
  case (step d d')
  then show ?case using rstep_one_per_key reachable_wf by blast
qed



section \<open>What a rollback undoes\<close>

definition undo_steps :: "run \<Rightarrow> job \<Rightarrow> plan_entry \<Rightarrow> plan_step list" where
  \<comment> \<open>the steps of the rollback entry a configuration child gets\<close>
  "undo_steps r jb entry =
     map (undo_step (phase_steps (definition_for r (pe_playbook entry)) ''rollback'') (ran_steps jb))
       (map step_label (phase_steps (definition_for r (pe_playbook entry)) ''rollback''))"

definition undo_entry :: "run \<Rightarrow> job \<Rightarrow> plan_entry" where
  "undo_entry r jb =
     (let entry = r_plan r ! pos jb
      in entry\<lparr>pe_phase := Some ROLLBACK, pe_steps := undo_steps r jb entry, pe_probe := False,
              pe_ran := ran_steps jb\<rparr>)"

definition undone :: "run \<Rightarrow> job \<Rightarrow> bool" where
  \<comment> \<open>something ran on the device, and some rollback step is there to run\<close>
  "undone r jb \<longleftrightarrow> ran_steps jb \<noteq> [] \<and> \<not> list_all ps_skip (undo_steps r jb (r_plan r ! pos jb))"

lemma config_children_placed:
  "jb \<in> set (config_children d r) \<Longrightarrow>
     pos jb < length (r_plan r) \<and> pe_phase (r_plan r ! pos jb) = Some CONFIGURATION \<and> jb \<in> set (kids d (r_id r))"
  by (auto simp: config_children_def phase_at_def entry_at_def nth_opt_Some bind_eq_Some_conv)

lemma rollback_entries_map:
  "list_all (\<lambda>jb. pos jb < length (r_plan r)) js \<Longrightarrow>
     concat (map rp_entries (List.map_filter (\<lambda>jb. map_option (rollback_of r None jb) (entry_at r jb)) js))
       = map (undo_entry r) (filter (undone r) js)"
proof (induction js)
  case (Cons jb js)
  then have e: "entry_at r jb = Some (r_plan r ! pos jb)" by (simp add: entry_at_def nth_opt_def)
  have "rp_entries (rollback_of r None jb (r_plan r ! pos jb)) = (if undone r jb then [undo_entry r jb] else [])"
    by (auto simp: rollback_of_def Let_def no_part_def undone_def undo_steps_def undo_entry_def)
  with Cons e show ?case by (simp add: map_filter_simps)
qed (simp add: map_filter_simps)

lemma plan_rollback_entries:
  "rp_entries (plan_rollback d r None) = map (undo_entry r) (filter (undone r) (config_children d r))"
  using config_children_placed rollback_entries_map [of r "config_children d r"]
  by (force simp: plan_rollback_def Let_def list_all_iff)

lemma descending_pos:
  "sorted (map (\<lambda>j. - int (pos j)) js) \<Longrightarrow> distinct (map pos js) \<Longrightarrow> sorted_wrt (\<lambda>a b. pos b < pos a) js"
  by (induction js) (auto simp: le_less image_iff)

text \<open>
  C27. A rollback undoes exactly the devices where something ran and something is left to
  undo, newest first: its entries are those of the configuration children, in descending
  order of their position in the plan (one per child), whose log shows a step that reached
  the device and whose playbook has a rollback step that is not skipped. Each entry keeps
  the device and playbook, records what ran, and skips a step exactly when the
  configuration step it undoes did not run.
\<close>

theorem rollback_newest_first:
  assumes "reachable E d" "get_run i d = Some r"
  shows "rp_entries (plan_rollback d r None) = map (undo_entry r) (filter (undone r) (config_children d r)) \<and>
     sorted_wrt (\<lambda>a b. pos b < pos a) (config_children d r) \<and>
     set (config_children d r) = {j \<in> set (kids d i). phase_at r j = Some CONFIGURATION} \<and>
     (\<forall>jb entry s. s \<in> set (undo_steps r jb entry) \<longrightarrow> ps_skip s =
        (case find (\<lambda>u. jget ''name'' u = ps_name s) (phase_steps (definition_for r (pe_playbook entry)) ''rollback'') of
           None \<Rightarrow> False
         | Some u \<Rightarrow> truthy (jget ''undoes'' u) \<and> jget ''undoes'' u \<notin> set (ran_steps jb)))"
proof (intro conjI)
  note w = reachable_wf [OF assms(1)]
  note k = wf_run_ok [OF w assms(2)]
  have id: "r_id r = i" using k by simp
  show "rp_entries (plan_rollback d r None) = map (undo_entry r) (filter (undone r) (config_children d r))"
    by (rule plan_rollback_entries)
  show st: "set (config_children d r) = {j \<in> set (kids d i). phase_at r j = Some CONFIGURATION}"
    using id by (auto simp: config_children_def)
  have "sorted (map (\<lambda>j. - int (pos j)) (config_children d r))" by (simp add: config_children_def)
  moreover have "distinct (map pos (config_children d r))"
  proof -
    have "inj_on pos (set (config_children d r))"
      using k id by (auto simp: run_ok_def one_live_def config_children_def intro: inj_on_subset)
    moreover have "distinct (config_children d r)"
      using wf_distinct_kids [OF w] by (simp add: config_children_def children_def)
    ultimately show ?thesis by (simp add: distinct_map)
  qed
  ultimately show "sorted_wrt (\<lambda>a b. pos b < pos a) (config_children d r)"
    by (rule descending_pos)
  show "\<forall>jb entry s. s \<in> set (undo_steps r jb entry) \<longrightarrow> ps_skip s =
        (case find (\<lambda>u. jget ''name'' u = ps_name s) (phase_steps (definition_for r (pe_playbook entry)) ''rollback'') of
           None \<Rightarrow> False
         | Some u \<Rightarrow> truthy (jget ''undoes'' u) \<and> jget ''undoes'' u \<notin> set (ran_steps jb))"
    by (auto simp: undo_steps_def undo_step_def step_label_def Let_def split: option.splits)
qed

lemma rollback_newest_first_witness:
  "(case get_run 100 ex_failed of
      Some r \<Rightarrow> map pos (filter (undone r) (config_children ex_failed r)) = [1, 0] \<and>
        map pe_item (rp_entries (plan_rollback ex_failed r None)) = [21, 22]
    | None \<Rightarrow> False)"
proof -
  have c: "(case get_run 100 ex_failed of
      Some r \<Rightarrow> map pos (filter (undone r) (config_children ex_failed r)) = [1, 0] \<and>
        map (pe_item \<circ> undo_entry r) (filter (undone r) (config_children ex_failed r)) = [21, 22]
    | None \<Rightarrow> False)" by code_simp
  then obtain r where "get_run 100 ex_failed = Some r" by (auto split: option.splits)
  with rollback_newest_first [OF ex_failed_reachable this] c show ?thesis by simp
qed

section \<open>One RUN_CLOSED event per close\<close>

definition closed_event :: "run \<Rightarrow> event" where
  "closed_event r = \<lparr>ev_company = r_company r, ev_kind = RUN_CLOSED, ev_run = Some (r_id r),
     ev_job = None, ev_payload = ClosedPayload (r_status r) (r_error_code r)\<rparr>"

definition told :: "db \<Rightarrow> db \<times> run \<times> job option \<Rightarrow> bool" where
  \<comment> \<open>nothing is said of a run that goes on or of a dry run, and one event of a close\<close>
  "told d x = (case x of (d', r, nxt) \<Rightarrow>
     db_events d' = db_events d @ (if nxt = None \<and> \<not> r_dry r then [closed_event r] else []))"

lemma save_run_events: "save_run r d = Inr (r', d') \<Longrightarrow> db_events d' = db_events d"
  by (auto simp: save_run_def Let_def guardR_Inr_iff put_run_def)

lemma queue_child_events: "queue_child E d r p = Inr (d', r', nxt) \<Longrightarrow> db_events d' = db_events d"
  by (auto simp: queue_child_def add_job_def Let_def bindR_Inr_iff guardR_Inr_iff
      split: option.splits dest!: save_run_events)

lemma close_run_told:
  assumes "close_run d r s c e = Inr (d', r')" shows "told d (d', r', None)"
proof -
  from assms obtain r1 d1 where s: "save_run r1 d = Inr (r', d1)"
    and d': "if r_dry r' then d' = d1 else emit_event RUN_CLOSED None (Some r') None
        (ClosedPayload (r_status r') (r_error_code r')) d1 = Inr d'"
    by (auto simp: close_run_def Let_def bindR_Inr_iff split: if_splits)
  from save_run_events [OF s] d' show ?thesis
    by (auto simp: told_def emit_event_def closed_event_def split: if_splits)
qed

lemma told_other:
  "told d (d1, r, nxt) \<Longrightarrow> db_events d2 = db_events d1 \<Longrightarrow> db_events d0 = db_events d \<Longrightarrow> told d0 (d2, r, nxt)"
  by (simp add: told_def)

lemma stamp_events: "db_events (fold stamp_dry_run es d) = db_events d"
  by (induction es arbitrary: d) (auto simp: stamp_dry_run_def put_playbook_def split: option.splits)

lemma finish_dry_run_told: "finish_dry_run d r = Inr (d', r') \<Longrightarrow> told d (d', r', None)"
  by (auto simp: finish_dry_run_def Let_def bindR_Inr_iff stamp_events split: if_splits
      elim!: told_other [OF close_run_told])

lemma succeed_told: "succeed d r = Inr (d', r') \<Longrightarrow> told d (d', r', None)"
  by (auto simp: succeed_def Let_def bindR_Inr_iff put_service_def split: if_splits option.splits
      elim!: told_other [OF close_run_told])

lemma finish_rollback_told:
  assumes "finish_rollback d r = Inr (d', r')" shows "told d (d', r', None)"
proof -
  from assms obtain d0 s c e where "close_run d0 r s c e = Inr (d', r')" "db_events d0 = db_events d"
    by (auto simp: finish_rollback_def Let_def split: if_splits)
  from told_other [OF close_run_told [OF this(1)] refl, of d] this(2) show ?thesis by simp
qed

lemma queue_child_told:
  "queue_child E d r p = Inr (d', r', Some j) \<Longrightarrow> told d (d', r', Some j)"
  by (auto simp: told_def dest: queue_child_events)

lemma close_after_told:
  assumes "close_after_rollback_planned E d r es ns = Inr (d', r', nxt)"
    "length es \<le> length (r_plan r)"
  shows "told d (d', r', nxt)"
proof (cases "es = []")
  case True
  with assms(1) show ?thesis
    by (auto simp: close_after_rollback_planned_def bindR_Inr_iff split: if_splits dest: close_run_told)
next
  case False
  with assms(1) obtain r1 p where q: "queue_child E d r1 p = Inr (d', r', nxt)" "r_plan r1 = r_plan r"
      "p = length (r_plan r) - length es"
    by (auto simp: close_after_rollback_planned_def)
  show ?thesis
  proof (cases nxt)
    case None
    with q have "length (r_plan r) \<le> p" by (auto dest!: queue_child_None)
    with q(3) False assms(2) show ?thesis by (cases es) auto
  qed (use queue_child_told q in blast)
qed

lemma enter_rollback_told:
  assumes "enter_rollback E d r code err cancelled = Inr (d', r', nxt)"
  shows "told d (d', r', nxt)"
  using assms
  by (auto simp: enter_rollback_def Let_def bindR_Inr_iff record_rollback_def split: if_splits
      dest!: close_run_told close_after_told)

lemma close_result_told:
  "close_result x = Inr (d', r', nxt) \<Longrightarrow> (\<And>a b. x = Inr (a, b) \<Longrightarrow> told d (a, b, None)) \<Longrightarrow> told d (d', r', nxt)"
  by (auto simp: close_result_Inr)

lemma next_told:
  \<comment> \<open>the next child, or an operation that closes\<close>
  assumes "queue_child E d r p = Inr (d1, r1, nxt1)"
    "(case nxt1 of None \<Rightarrow> close_result fin | Some c \<Rightarrow> run_continues (d1, r1, nxt1)) = Inr (d', r', nxt)"
    "\<And>a b. fin = Inr (a, b) \<Longrightarrow> told d1 (a, b, None)"
  shows "told d (d', r', nxt)"
proof (cases nxt1)
  case None
  with assms(2) have "told d1 (d', r', nxt)" using close_result_told assms(3) by auto
  with queue_child_events [OF assms(1)] show ?thesis by (simp add: told_def)
next
  case (Some c)
  with assms(2) have "db_events d' = db_events d1" "nxt = nxt1"
    by (auto simp: run_continues_def bindR_Inr_iff dest!: save_run_events)
  with Some queue_child_events [OF assms(1)] show ?thesis by (simp add: told_def)
qed

lemma advance_legacy_told:
  "advance_legacy E d r jb = Inr (d', r', nxt) \<Longrightarrow> told d (d', r', nxt)"
  by (auto simp: advance_legacy_def bindR_Inr_iff split: if_splits
      elim!: next_told close_result_told intro: close_run_told succeed_told)

lemma advance_forward_told:
  assumes "advance_forward E d r jb ph = Inr (d', r', nxt)" shows "told d (d', r', nxt)"
proof -
  from assms obtain d1 r1 n1 where q: "queue_child E d r (pos jb + 1) = Inr (d1, r1, n1)"
    and n: "(case n1 of None \<Rightarrow> close_result (if r_dry r1 then finish_dry_run d1 r1
              else if ph = ROLLBACK then finish_rollback d1 r1 else succeed d1 r1)
            | Some c \<Rightarrow> run_continues (d1, r1, n1)) = Inr (d', r', nxt)"
    by (auto simp: advance_forward_def bindR_Inr_iff)
  show ?thesis
    by (rule next_told [OF q n])
      (auto split: if_splits intro: finish_dry_run_told finish_rollback_told succeed_told)
qed

lemma advance_failed_told:
  "advance_failed E d r jb entry ph = Inr (d', r', nxt) \<Longrightarrow> told d (d', r', nxt)"
  by (auto simp: advance_failed_def Let_def split: if_splits elim!: close_result_told
      intro: close_run_told enter_rollback_told)

lemma advance_locked_told:
  "advance_locked E d r jb = Inr (d', r', nxt) \<Longrightarrow> told d (d', r', nxt)"
  by (auto simp: advance_locked_def Let_def split: option.splits if_splits
      intro: advance_legacy_told advance_forward_told advance_failed_told)

text \<open>
  In every well-formed database (every reachable one is), the outbox says once that a run closed, and only then: an advance that finds the run
  in flight and settled adds one RUN_CLOSED event, with the run's final status and error
  code, exactly when it closes a live run, in the transaction that closes it; when it queues
  the next child, the run is dry, or it does nothing, it adds none.
\<close>

lemma advance_tells_once:
  assumes "wf d" "advance_run E d jb = Inr (d', nxt)" "j_run jb = Some i"
    "get_run i d = Some r"
  shows "\<exists>r'. get_run i d' = Some r' \<and> db_events d' = db_events d @
     (if in_flight (r_status r) \<and> \<not> in_flight (r_status r') \<and> \<not> r_dry r then [closed_event r'] else [])"
proof (cases "d' = d \<and> nxt = None")
  case True
  with assms(4) show ?thesis by auto
next
  case False
  with assms(2-4) obtain r' where r': "in_flight (r_status r)" "\<not> in_flight (j_status jb)"
    "advance_locked E d r jb = Inr (d', r', nxt)"
    by (auto simp: advance_run_def bindR_Inr_iff split: if_splits)
  note s = advance_locked_steps [OF r'(3,2)]
  have "get_run i d' = Some r'" by (rule steps_to_get [OF assms(1,4) s])
  moreover have "r_dry r' = r_dry r" "in_flight (r_status r') \<longleftrightarrow> nxt \<noteq> None"
    using s by (auto simp: steps_to_def core_def elim!: outcome.cases)
  ultimately show ?thesis using advance_locked_told [OF r'(3)] r'(1) by (auto simp: told_def)
qed

definition ex_last :: job where
  \<comment> \<open>the second child of the example, settled but not yet advanced\<close>
  "ex_last = (case rev (db_jobs (ex_settle SUCCEEDED JNull ex_created)) of
     jb # _ \<Rightarrow> finished_job ex_db jb SUCCEEDED None | [] \<Rightarrow> undefined)"

definition ex_pending :: db where
  "ex_pending = put_job ex_last (ex_settle SUCCEEDED JNull ex_created)"

lemma ex_pending_wf: "wf ex_pending"
proof -
  let ?d = "ex_settle SUCCEEDED JNull ex_created"
  have q: "list_all (\<lambda>j. in_flight (j_status j)) (take 1 (rev (db_jobs ex_created)))" by code_simp
  note w = reachable_wf [OF ex_settle_reachable [OF ex_created_reachable q]]
  have c: "(case get_job 102 ?d of None \<Rightarrow> False
     | Some j0 \<Rightarrow> in_flight (j_status j0) \<and> j_run ex_last = j_run j0 \<and> j_position ex_last = j_position j0)"
    "j_id ex_last = 102" by code_simp+
  then obtain j0 where "get_job (j_id ex_last) ?d = Some j0" "in_flight (j_status j0)"
    "j_run ex_last = j_run j0" "j_position ex_last = j_position j0" by (auto split: option.splits)
  with w show ?thesis unfolding ex_pending_def by (rule put_job_wf)
qed

lemma advance_tells_once_witness:
  "case advance_run ex_env ex_pending ex_last of
     Inr (d', nxt) \<Rightarrow> (\<exists>r'. get_run 100 d' = Some r' \<and> db_events d' = db_events ex_pending @
       (if in_flight (r_status r') then [] else [closed_event r'])) \<and>
       length (db_events d') = Suc (length (db_events ex_pending))
   | Inl e \<Rightarrow> False"
proof -
  have c: "case advance_run ex_env ex_pending ex_last of
      Inr (d', nxt) \<Rightarrow> length (db_events d') = Suc (length (db_events ex_pending))
    | Inl e \<Rightarrow> False"
    "(case get_run 100 ex_pending of Some r \<Rightarrow> in_flight (r_status r) \<and> \<not> r_dry r | None \<Rightarrow> False)"
    "j_run ex_last = Some 100" by code_simp+
  then obtain d' nxt r where a: "advance_run ex_env ex_pending ex_last = Inr (d', nxt)"
    "length (db_events d') = Suc (length (db_events ex_pending))"
    and r: "get_run 100 ex_pending = Some r" "in_flight (r_status r)" "\<not> r_dry r"
    by (auto split: option.splits sum.splits)
  from advance_tells_once [OF ex_pending_wf a(1) c(3) r(1)] a r show ?thesis by auto
qed

section \<open>The plan of a new run\<close>

definition entry_steps :: "env \<Rightarrow> (id \<times> json) list \<Rightarrow> bool \<Rightarrow> phase \<Rightarrow> resolved_node \<Rightarrow> json list res" where
  \<comment> \<open>the steps of a node for a phase, the session probe included\<close>
  "entry_steps E defs up ph n = lift_def (job_steps (env_canon E) (def_of defs n) (Some ph)
     (ph = PRECONDITIONS \<and> needs_probe (def_of defs n) (up \<and> rn_position n = 0)))"

definition planned_entry :: "env \<Rightarrow> (id \<times> json) list \<Rightarrow> bool \<Rightarrow> phase \<Rightarrow> resolved_node \<Rightarrow> plan_entry" where
  "planned_entry E defs up ph n =
     plan_entry_of n (node_pid n) ph (case entry_steps E defs up ph n of Inr steps \<Rightarrow> steps | Inl e \<Rightarrow> [])
       (ph = PRECONDITIONS \<and> needs_probe (def_of defs n) (up \<and> rn_position n = 0))"

lemma phase_entries_map:
  assumes "phase_entries E defs up ph nodes = Inr es"
  shows "es = map (planned_entry E defs up ph) (filter (\<lambda>n. entry_steps E defs up ph n \<noteq> Inr []) nodes)"
  using assms unfolding phase_entries_def
proof (induction nodes arbitrary: es)
  case (Cons n ns)
  from Cons.prems obtain steps rest where
    js: "entry_steps E defs up ph n = Inr steps"
    and r: "foldr (\<lambda>n acc.
       (let dv = def_of defs n;
            probe = (ph = PRECONDITIONS \<and> needs_probe dv (up \<and> rn_position n = 0))
        in bindR (lift_def (job_steps (env_canon E) dv (Some ph) probe)) (\<lambda>steps.
           bindR acc (\<lambda>rest.
             Inr ((if steps = [] then [] else [plan_entry_of n (node_pid n) ph steps probe]) @ rest)))))
       ns (Inr []) = Inr rest"
    and es: "es = (if steps = [] then [] else [plan_entry_of n (node_pid n) ph steps
         (ph = PRECONDITIONS \<and> needs_probe (def_of defs n) (up \<and> rn_position n = 0))]) @ rest"
    by (auto simp: Let_def bindR_Inr_iff entry_steps_def)
  from Cons.IH [OF r] es js show ?case by (simp add: planned_entry_def)
qed simp

lemma planned_phase [simp]: "pe_phase (planned_entry E defs up ph n) = Some ph"
  by (simp add: planned_entry_def plan_entry_of_def)

lemma filter_planned:
  "filter (\<lambda>e. pe_phase e = Some q) (map (planned_entry E defs up p) ns) =
     (if p = q then map (planned_entry E defs up p) ns else [])"
  by (induction ns) auto

lemma sorted_constant: "sorted (map (\<lambda>x. c) xs)"
  by (induction xs) auto

text \<open>
  A plan has the phases in their order and, in each phase, one entry for every node
  whose playbook has steps for it, in the order of the purpose: preconditions everywhere
  before any configuration, verifications after all of it. Only a dry run plans the
  ROLLBACK phase, and it plans it in the reverse order.
\<close>

lemma build_plan_phase_major:
  assumes "build_plan E defs up dry ordered = Inr plan"
  shows "sorted (map (\<lambda>e. the (pe_phase e)) plan) \<and>
     (\<forall>ph. filter (\<lambda>e. pe_phase e = Some ph) plan =
        (if ph = ROLLBACK \<and> \<not> dry then []
         else map (planned_entry E defs up ph) (filter (\<lambda>n. entry_steps E defs up ph n \<noteq> Inr [])
           (if ph = ROLLBACK then rev ordered else ordered)))) \<and>
     (\<forall>e\<in>set plan. pe_phase e \<noteq> None \<and> pe_steps e \<noteq> [] \<and> pe_ran e = [])"
proof -
  define m where "m ph ns = map (planned_entry E defs up ph) (filter (\<lambda>n. entry_steps E defs up ph n \<noteq> Inr []) ns)"
    for ph ns
  from assms have plan: "plan = m PRECONDITIONS ordered @ m CONFIGURATION ordered @ m VERIFICATION ordered @
      (if dry then m ROLLBACK (rev ordered) else [])"
    by (auto simp: build_plan_def bindR_Inr_iff m_def split: if_splits dest!: phase_entries_map)
  have ph: "pe_phase e = Some p" if "e \<in> set (m p ns)" for e p ns using that by (auto simp: m_def)
  have sm: "sorted (map (\<lambda>e. the (pe_phase e)) (m p ns))" for p ns
    by (simp add: m_def comp_def sorted_constant)
  have fm: "filter (\<lambda>e. pe_phase e = Some q) (m p ns) = (if p = q then m p ns else [])" for p q ns
    unfolding m_def by (rule filter_planned)
  have ok: "\<exists>steps. entry_steps E defs up p n = Inr steps" if "phase_entries E defs up p ns = Inr es" "n \<in> set ns" for p n ns es
    using that unfolding phase_entries_def
    by (induction ns arbitrary: es) (auto simp: Let_def bindR_Inr_iff entry_steps_def)
  have st: "pe_steps e \<noteq> [] \<and> pe_ran e = []" if e: "e \<in> set (m p ns)" and f: "phase_entries E defs up p ns = Inr es" for e p ns es
  proof -
    from e obtain n where n: "n \<in> set ns" "entry_steps E defs up p n \<noteq> Inr []" "e = planned_entry E defs up p n"
      by (auto simp: m_def)
    from ok [OF f n(1)] obtain steps where "entry_steps E defs up p n = Inr steps" by blast
    with n show ?thesis by (simp add: planned_entry_def plan_entry_of_def)
  qed
  obtain a b c e where es: "phase_entries E defs up PRECONDITIONS ordered = Inr a"
    "phase_entries E defs up CONFIGURATION ordered = Inr b"
    "phase_entries E defs up VERIFICATION ordered = Inr c"
    "dry \<Longrightarrow> phase_entries E defs up ROLLBACK (rev ordered) = Inr e"
    using assms by (auto simp: build_plan_def bindR_Inr_iff split: if_splits)
  have "sorted (map (\<lambda>e. the (pe_phase e)) plan)"
    unfolding plan using sm ph
    by (auto simp: sorted_append less_eq_phase_def split: if_splits)
  moreover have "filter (\<lambda>e. pe_phase e = Some q) plan =
      (if q = ROLLBACK \<and> \<not> dry then [] else m q (if q = ROLLBACK then rev ordered else ordered))" for q
    unfolding plan by (cases q) (simp_all add: fm)
  moreover have "pe_phase x \<noteq> None \<and> pe_steps x \<noteq> [] \<and> pe_ran x = []" if "x \<in> set plan" for x
    using that st es ph unfolding plan by (auto split: if_splits)
  ultimately show ?thesis unfolding m_def by blast
qed

lemma build_plan_phase_major_witness:
  "case build_plan ex_env [(9, ex_definition)] True True [ex_node 22 1, ex_node 21 0] of
     Inr plan \<Rightarrow> sorted (map (\<lambda>e. the (pe_phase e)) plan) \<and>
       map (\<lambda>e. (pe_item e, pe_phase e)) plan =
         [(22, Some CONFIGURATION), (21, Some CONFIGURATION), (21, Some ROLLBACK), (22, Some ROLLBACK)]
   | Inl e \<Rightarrow> False"
proof -
  have c: "case build_plan ex_env [(9, ex_definition)] True True [ex_node 22 1, ex_node 21 0] of
     Inr plan \<Rightarrow> map (\<lambda>e. (pe_item e, pe_phase e)) plan =
         [(22, Some CONFIGURATION), (21, Some CONFIGURATION), (21, Some ROLLBACK), (22, Some ROLLBACK)]
   | Inl e \<Rightarrow> False" by code_simp
  then obtain plan where p: "build_plan ex_env [(9, ex_definition)] True True [ex_node 22 1, ex_node 21 0] = Inr plan"
    by (auto split: sum.splits)
  from build_plan_phase_major [OF p] c p show ?thesis by simp
qed

section \<open>Plan-wide refusals\<close>

definition functional :: "('a \<times> 'b) set \<Rightarrow> bool" where
  "functional R \<longleftrightarrow> (\<forall>k a b. (k, a) \<in> R \<longrightarrow> (k, b) \<in> R \<longrightarrow> a = b)"

definition secret_specs :: "json \<Rightarrow> (json \<times> json) set" where
  \<comment> \<open>the declared secrets of a definition, with their lengths\<close>
  "secret_specs dv = (\<lambda>s. (jget ''key'' s, secret_length s)) ` set (as_list (jget ''secrets'' dv))"

definition output_specs :: "id \<Rightarrow> json \<Rightarrow> (json \<times> id) set" where
  "output_specs item dv = (\<lambda>out. (jget ''key'' out, item)) ` set (as_list (jget ''outputs'' dv))"

lemma functional_graph [simp]: "functional (Map.graph m)"
  by (auto simp: functional_def Map.graph_def)

lemma graph_upd: "m k \<in> {None, Some v} \<Longrightarrow> Map.graph (m(k \<mapsto> v)) = insert (k, v) (Map.graph m)"
  by (auto simp: Map.graph_def split: if_splits)

lemma collect_secrets_spec:
  "(case collect_secrets ss acc of
      Inr acc' \<Rightarrow> Map.graph (map_of acc') =
          Map.graph (map_of acc) \<union> (\<lambda>s. (jget ''key'' s, secret_length s)) ` set ss
    | Inl e \<Rightarrow> e = ResolutionError ''SECRET_SPEC_CONFLICT'' \<and>
        \<not> functional (Map.graph (map_of acc) \<union> (\<lambda>s. (jget ''key'' s, secret_length s)) ` set ss))"
proof (induction ss arbitrary: acc)
  case (Cons s ss)
  let ?k = "jget ''key'' s" and ?l = "secret_length s"
  show ?case
  proof (cases "map_of acc ?k \<in> {None, Some ?l}")
    case True
    define acc1 where "acc1 = AList.update ?k ?l acc"
    have "collect_secrets (s # ss) acc = collect_secrets ss acc1"
      using True by (auto simp: Let_def guardR_def acc1_def)
    moreover have "Map.graph (map_of acc1) = insert (?k, ?l) (Map.graph (map_of acc))"
      using graph_upd [of "map_of acc" ?k ?l] True update_conv' [of ?k ?l acc] by (simp add: acc1_def)
    ultimately show ?thesis using Cons [where acc = acc1] by (simp del: collect_secrets.simps split: sum.splits)
  next
    case False
    then have "collect_secrets (s # ss) acc = Inl (ResolutionError ''SECRET_SPEC_CONFLICT'')"
      by (auto simp: Let_def guardR_def)
    moreover obtain o' where "map_of acc ?k = Some o'" "o' \<noteq> ?l" using False by auto
    ultimately show ?thesis by (auto simp: functional_def Map.graph_def)
  qed
qed simp

lemma collect_outputs_spec:
  "(case collect_outputs item os acc of
      Inr acc' \<Rightarrow> Map.graph (map_of acc') =
          Map.graph (map_of acc) \<union> (\<lambda>out. (jget ''key'' out, item)) ` set os
    | Inl e \<Rightarrow> e = ResolutionError ''OUTPUT_KEY_CONFLICT'' \<and>
        \<not> functional (Map.graph (map_of acc) \<union> (\<lambda>out. (jget ''key'' out, item)) ` set os))"
proof (induction os arbitrary: acc)
  case (Cons s ss)
  let ?k = "jget ''key'' s"
  define acc1 where "acc1 = (if map_of acc ?k = None then acc @ [(?k, item)] else acc)"
  show ?case
  proof (cases "map_of acc ?k \<in> {None, Some item}")
    case True
    then have m: "map_of acc1 = (map_of acc)(?k \<mapsto> item)"
      by (auto simp: acc1_def map_add_def fun_eq_iff split: option.splits)
    then have "collect_outputs item (s # ss) acc = collect_outputs item ss acc1"
      by (simp add: Let_def guardR_def acc1_def)
    moreover have "Map.graph (map_of acc1) = insert (?k, item) (Map.graph (map_of acc))"
      using graph_upd [of "map_of acc" ?k item] True unfolding m by simp
    ultimately show ?thesis using Cons [where acc = acc1] by (simp del: collect_outputs.simps split: sum.splits)
  next
    case False
    then obtain o' where "map_of acc ?k = Some o'" "o' \<noteq> item" by auto
    then have "collect_outputs item (s # ss) acc = Inl (ResolutionError ''OUTPUT_KEY_CONFLICT'')"
      and "\<not> functional (Map.graph (map_of acc) \<union> (\<lambda>out. (jget ''key'' out, item)) ` set (s # ss))"
      by (auto simp: Let_def guardR_def functional_def Map.graph_def)
    then show ?thesis by simp
  qed
qed simp

lemma functional_mono: "functional R \<Longrightarrow> S \<subseteq> R \<Longrightarrow> functional S"
  unfolding functional_def by blast

lemma collect_specs_spec:
  "(case collect_specs nodes acc own of
      Inr acc' \<Rightarrow> Map.graph (map_of acc') = Map.graph (map_of acc) \<union> (\<Union>(i, d)\<in>set nodes. secret_specs d) \<and>
        functional (Map.graph (map_of own) \<union> (\<Union>(i, d)\<in>set nodes. output_specs i d))
    | Inl e \<Rightarrow>
        \<not> functional (Map.graph (map_of acc) \<union> (\<Union>(i, d)\<in>set nodes. secret_specs d)) \<or>
        \<not> functional (Map.graph (map_of own) \<union> (\<Union>(i, d)\<in>set nodes. output_specs i d)))"
proof (induction nodes arbitrary: acc own)
  case (Cons n nodes)
  obtain i d where n: "n = (i, d)" by force
  note s = collect_secrets_spec [where ss = "as_list (jget ''secrets'' d)" and acc = acc]
  note t = collect_outputs_spec [where item = i and os = "as_list (jget ''outputs'' d)" and acc = own]
  note st = s [folded secret_specs_def] t [folded output_specs_def]
  show ?case
  proof (cases "collect_secrets (as_list (jget ''secrets'' d)) acc")
    case (Inl e)
    with st n show ?thesis by (auto simp: bindR_def intro: functional_mono)
  next
    case (Inr acc1)
    note 1 = this
    show ?thesis
    proof (cases "collect_outputs i (as_list (jget ''outputs'' d)) own")
      case (Inl e)
      with 1 st n show ?thesis by (auto simp: bindR_def intro: functional_mono)
    next
      case (Inr own1)
      with 1 st n Cons [where acc = acc1 and own = own1] show ?thesis
        by (auto simp: bindR_def Un_assoc split: sum.splits)
    qed
  qed
qed simp

text \<open>
  A run is refused for its declarations exactly when they clash: two devices of the
  path declare an output of the same key, or two declarations of one secret disagree on its
  length. Otherwise every declared secret, and no other, gets its one length.
\<close>

lemma collect_specs_iff:
  "(case collect_specs nodes [] [] of
      Inr specs \<Rightarrow> functional (\<Union>(i, d)\<in>set nodes. output_specs i d) \<and>
        Map.graph (map_of specs) = (\<Union>(i, d)\<in>set nodes. secret_specs d)
    | Inl e \<Rightarrow> \<not> (functional (\<Union>(i, d)\<in>set nodes. output_specs i d) \<and>
        functional (\<Union>(i, d)\<in>set nodes. secret_specs d)))"
  using collect_specs_spec [where acc = "[]" and own = "[]" and nodes = nodes] by (auto split: sum.splits)

section \<open>The key of a run\<close>

lemma digits_before:
  assumes "show_nat i @ c # x = show_nat j @ c # y" "\<not> is_digit c"
  shows "i = j \<and> x = y"
proof -
  have t: "takeWhile is_digit (show_nat n @ c # z) = show_nat n" for n z
    using assms(2) show_nat_digits by (simp add: takeWhile_append)
  from assms(1) have "takeWhile is_digit (show_nat i @ c # x) = takeWhile is_digit (show_nat j @ c # y)" by simp
  then have e: "show_nat i = show_nat j" by (simp only: t)
  then have "i = j" by (metis read_show_nat)
  with assms(1) e show ?thesis by simp
qed

lemma purpose_chars:
  "purpose_ok p \<Longrightarrow> c \<in> set p \<Longrightarrow> is_upper c \<or> is_digit c \<or> c = CHR ''_''"
  by (auto simp: purpose_ok_def list_all_iff split: list.splits)

lemma purpose_char_facts:
  assumes "purpose_ok p" "c \<in> set p"
  shows "to_upper (to_lower c) = c" "to_upper c = c" "to_lower c \<noteq> CHR ''-''"
proof -
  have "list_all (\<lambda>c. to_upper (to_lower c) = c \<and> to_upper c = c \<and> to_lower c \<noteq> CHR ''-'')
      (''ABCDEFGHIJKLMNOPQRSTUVWXYZ'' @ ''0123456789'' @ ''_'')" by code_simp
  moreover have "c \<in> set (''ABCDEFGHIJKLMNOPQRSTUVWXYZ'' @ ''0123456789'' @ ''_'')"
    using purpose_chars [OF assms] unfolding is_upper_def is_digit_def by auto
  ultimately show "to_upper (to_lower c) = c" "to_upper c = c" "to_lower c \<noteq> CHR ''-''"
    unfolding list_all_iff by blast+
qed

lemma purpose_upper: "purpose_ok p \<Longrightarrow> str_upper p = p"
  unfolding str_upper_def by (rule map_idI) (rule purpose_char_facts)

lemma purpose_lower_inj:
  assumes "purpose_ok p" "purpose_ok q" "str_lower p = str_lower q" shows "p = q"
proof -
  have "str_upper (str_lower s) = s" if "purpose_ok s" for s
    using purpose_char_facts [OF that] by (auto simp: str_upper_def str_lower_def intro!: map_idI)
  with assms show ?thesis by metis
qed

lemma purpose_lower_no_hyphen:
  assumes "purpose_ok p" shows "CHR ''-'' \<notin> set (str_lower p)"
  unfolding str_lower_def set_map using purpose_char_facts(3) [OF assms] by (metis imageE)

lemma hyphen_split:
  "CHR ''-'' \<notin> set a \<Longrightarrow> CHR ''-'' \<notin> set b \<Longrightarrow> (a @ (if s then ''-dry'' else []) = b @ (if t then ''-dry'' else [])) = (a = b \<and> s = t)"
  by (cases s; cases t) (auto simp: append_eq_append_conv2 Cons_eq_append_conv append_eq_Cons_conv)

text \<open>
  Two requests share an idempotency key only when they ask the same thing: for purposes
  of the pattern a playbook may have, the key determines the service, the purpose and whether
  the run is dry.
\<close>

lemma run_idempotency_key_inj:
  assumes "purpose_ok p" "purpose_ok q" "run_idempotency_key i p s = run_idempotency_key j q t"
  shows "i = j \<and> p = q \<and> s = t"
proof -
  have key: "run_idempotency_key i p s = (if p = PURPOSE_DEPROVISION then ''deprovision-'' @ show_nat i @ (if s then ''-dry'' else [])
      else ''path-provision-'' @ show_nat i @ CHR ''-'' # (str_lower p @ (if s then ''-dry'' else [])))" if "purpose_ok p" for i p s
    using purpose_upper [OF that] by (simp add: run_idempotency_key_def Let_def)
  note e = assms(3) [unfolded key [OF assms(1)] key [OF assms(2)]]
  show ?thesis
  proof (cases "p = PURPOSE_DEPROVISION")
    case True
    with e have q: "q = PURPOSE_DEPROVISION" by (auto split: if_splits)
    with True e have "show_nat i @ (if s then ''-dry'' else []) = show_nat j @ (if t then ''-dry'' else [])" by simp
    moreover have "CHR ''-'' \<notin> set (show_nat n)" for n
      using show_nat_digits [of "CHR ''-''" n] by (auto simp: is_digit_def)
    note h = hyphen_split [OF this this]
    ultimately have "show_nat i = show_nat j" "s = t" by (simp_all only: h)
    with True q show ?thesis by (metis read_show_nat)
  next
    case False
    with e have q: "q \<noteq> PURPOSE_DEPROVISION" by (auto split: if_splits)
    with False e have sp: "show_nat i @ CHR ''-'' # (str_lower p @ (if s then ''-dry'' else [])) =
        show_nat j @ CHR ''-'' # (str_lower q @ (if t then ''-dry'' else []))" by simp
    have "\<not> is_digit (CHR ''-'')" by (simp add: is_digit_def)
    from digits_before [OF sp this] have ij: "i = j"
      and l: "str_lower p @ (if s then ''-dry'' else []) = str_lower q @ (if t then ''-dry'' else [])"
      by (rule conjunct1, rule conjunct2)
    note h = hyphen_split [OF purpose_lower_no_hyphen [OF assms(1)] purpose_lower_no_hyphen [OF assms(2)]]
    from l have "str_lower p = str_lower q" "s = t" by (simp_all only: h)
    with ij purpose_lower_inj [OF assms(1,2)] show ?thesis by blast
  qed
qed

lemma run_idempotency_key_inj_witness:
  "run_idempotency_key 5 ''BOOST'' False = run_idempotency_key 5 (''BOO'' @ ''ST'') False \<and> ''BOOST'' = ''BOO'' @ ''ST''"
proof -
  have "purpose_ok ''BOOST'' \<and> purpose_ok (''BOO'' @ ''ST'')" by code_simp
  moreover have "run_idempotency_key 5 ''BOOST'' False = run_idempotency_key 5 (''BOO'' @ ''ST'') False" by simp
  ultimately show ?thesis using run_idempotency_key_inj by blast
qed

section \<open>The row of a settled job\<close>

lemma get_job_append:
  assumes "get_job i d = Some jb" "db_jobs d' = db_jobs d @ js"
  shows "get_job i d' = Some jb"
proof -
  have "find_by f k (xs @ ys) = Some x" if "find_by f k xs = Some x" for f :: "job \<Rightarrow> nat" and k xs ys x
    using that by (induction xs) (auto split: if_splits)
  with assms show ?thesis by (auto simp: get_job_def)
qed

lemma advance_follow_on_jobs:
  assumes "advance_follow_on E d jb = Inr d'" shows "\<exists>js. db_jobs d' = db_jobs d @ js"
proof -
  from assms obtain nxt where a: "advance_run E d jb = Inr (d', nxt)"
    by (auto simp: advance_follow_on_def bindR_Inr_iff)
  then consider "d' = d" | r r' where "\<not> in_flight (j_status jb)" "advance_locked E d r jb = Inr (d', r', nxt)"
    by (auto simp: advance_run_def bindR_Inr_iff split: option.splits if_splits)
  then show ?thesis
  proof cases
    case 2
    from advance_locked_steps [OF 2(2,1)] show ?thesis by (auto simp: steps_to_def upd_def)
  qed simp
qed

lemma savepoint_job:
  assumes "keeps_jobs fn \<or> fn = advance_follow_on E" "get_job i d = Some x"
  shows "get_job i (savepoint fn jb d) = Some x"
proof (cases "fn d jb")
  case (Inr d')
  then have "\<exists>js. db_jobs d' = db_jobs d @ js"
    using assms(1) advance_follow_on_jobs by (auto simp: keeps_jobs_def)
  with get_job_append [OF assms(2)] Inr show ?thesis by (auto simp: savepoint_def)
qed (use assms in \<open>simp add: savepoint_def\<close>)

lemma fold_savepoint_job:
  "\<forall>fn\<in>set fns. keeps_jobs fn \<or> fn = advance_follow_on E \<Longrightarrow> get_job i d = Some x \<Longrightarrow>
     get_job i (fold (\<lambda>fn. savepoint fn jb) fns d) = Some x"
  by (induction fns arbitrary: d) (auto intro: savepoint_job [of _ E])

definition finished_event :: "db \<Rightarrow> job \<Rightarrow> bool \<Rightarrow> event" where
  "finished_event d jb probed =
     \<lparr>ev_company = j_company jb, ev_kind = JOB_FINISHED, ev_run = j_run jb, ev_job = Some (j_id jb),
      ev_payload = FinishedPayload (j_status jb) (j_error jb) probed (map_option pb_name (job_playbook d jb))
        (j_service jb)\<rparr>"

text \<open>
  Settling a job never loses its outcome: whatever its follow-ons do or raise, the row
  ends with the terminal status and error, the time of the settle, no device lock, no claim
  and no pending work, and the last thing in the outbox is its one JOB_FINISHED event.
\<close>

lemma finish_job_keeps_outcome:
  assumes "get_job (j_id jb) d = Some jb0"
  shows "get_job (j_id jb) (finish_job E d jb s err probed) = Some (finished_job d jb s err) \<and>
     j_status (finished_job d jb s err) = s \<and> j_lock (finished_job d jb s err) = None \<and>
     j_claim (finished_job d jb s err) = None \<and> j_pending_step (finished_job d jb s err) = None \<and>
     (\<exists>d1. db_events (finish_job E d jb s err probed) =
        db_events d1 @ [finished_event d1 (finished_job d jb s err) probed])"
proof -
  let ?jb = "finished_job d jb s err"
  have f: "j_id ?jb = j_id jb" by (simp add: finished_job_def)
  have "get_job (j_id ?jb) (put_job ?jb d) = Some ?jb" using assms f by (intro get_job_put [of _ _ jb0]) simp
  then have g: "get_job (j_id jb) (finish_job E d jb s err probed) = Some ?jb"
    unfolding finish_job_def Let_def f
    by (intro fold_savepoint_job [of _ E]) (auto simp: follow_ons_def side_follow_ons)
  let ?pre = "(if probed then [write_device_action_log, stamp_connectivity] else []) @ [advance_follow_on E]"
  let ?d1 = "fold (\<lambda>fn. savepoint fn ?jb) ?pre (put_job ?jb d)"
  have "finish_job E d jb s err probed = savepoint (emit_finished probed) ?jb ?d1"
    by (simp add: finish_job_def follow_ons_def Let_def)
  then have "db_events (finish_job E d jb s err probed) = db_events ?d1 @ [finished_event ?d1 ?jb probed]"
    by (simp add: savepoint_def emit_finished_def emit_event_def finished_event_def)
  with g show ?thesis by (auto simp: finished_job_def)
qed

lemma finish_job_keeps_outcome_witness:
  "map_option j_status (get_job 101 (finish_job ex_env ex_created (hd (db_jobs ex_created)) FAILED (Some ''E'') True)) = Some FAILED"
proof -
  have i: "j_id (hd (db_jobs ex_created)) = 101" by code_simp
  have "get_job 101 ex_created \<noteq> None" by code_simp
  then obtain jb0 where "get_job (j_id (hd (db_jobs ex_created))) ex_created = Some jb0" unfolding i by auto
  from finish_job_keeps_outcome [OF this, of ex_env FAILED "Some ''E''" True] show ?thesis unfolding i by auto
qed

section \<open>What ran on a device\<close>

lemma fold_ran_entry:
  "distinct did \<Longrightarrow> distinct (fold ran_entry es did) \<and>
     set (fold ran_entry es did) = set did \<union> {jget ''name'' e |e. e \<in> set es \<and> jget ''name'' e \<noteq> JNull \<and>
        jget ''name'' e \<noteq> JStr SESSION_PROBE_STEP \<and> \<not> sent_nothing e}"
  by (induction es arbitrary: did) (auto simp: ran_entry_def Let_def)

text \<open>
  The steps a rollback takes to have run are, each once: the names that some log entry
  shows past its connect and render stages, and the step that was interrupted in flight. A
  retried step counts when any of its attempts sent something; the session probe never does.
\<close>

lemma ran_steps_iff:
  "distinct (ran_steps jb) \<and>
   set (ran_steps jb) = {n. n \<noteq> JStr SESSION_PROBE_STEP \<and>
     ((is_str n \<and> n = jget ''interrupted_step'' (j_log jb)) \<or>
      (n \<noteq> JNull \<and> (\<exists>e\<in>set (log_steps jb). jget ''name'' e = n \<and> \<not> sent_nothing e)))}"
  using fold_ran_entry [of "[]" "log_steps jb"] by (auto simp: ran_steps_def Let_def)

section \<open>A failed precondition\<close>

text \<open>
  A device check that fails, or is cancelled, ends a live run with nothing changed: no
  further child, no rollback entry, the plan as it was, the run FAILED or CANCELLED with the
  code of a failed precondition.
\<close>

lemma precondition_failure_changes_nothing:
  assumes "wf d" "get_job (j_id jb) d = Some jb" "j_run jb = Some i" "get_run i d = Some r"
    "in_flight (r_status r)" "\<not> r_dry r" "\<not> in_flight (j_status jb)" "j_status jb \<noteq> SUCCEEDED"
    "phase_at r jb = Some PRECONDITIONS" "\<not> later_child d r jb" "advance_run E d jb = Inr (d', nxt)"
  shows "nxt = None \<and> db_jobs d' = db_jobs d \<and> (\<exists>r'. get_run i d' = Some r' \<and> r_plan r' = r_plan r \<and>
     (r_status r', r_error_code r') =
       (if j_status jb = CANCELLED then (CANCELLED, Some RUN_CANCELLED) else (FAILED, Some PRECONDITION_FAILED)))"
proof -
  from assms(9) obtain entry where e: "entry_at r jb = Some entry" "pe_phase entry = Some PRECONDITIONS"
    by (auto simp: phase_at_def bind_eq_Some_conv)
  from assms(3-5,7,10,11) obtain r' where l: "advance_locked E d r jb = Inr (d', r', nxt)"
    by (auto simp: advance_run_def bindR_Inr_iff)
  have m: "r_dry (merge_outputs r jb entry) = r_dry r" "r_plan (merge_outputs r jb entry) = r_plan r"
    by (simp_all add: merge_outputs_def Let_def)
  from l e assms(6,8) m obtain s c t where c: "close_run d (merge_outputs r jb entry) s (Some c) t = Inr (d', r')"
    and n: "nxt = None"
    and s: "(s, c) = (if j_status jb = CANCELLED then (CANCELLED, RUN_CANCELLED) else (FAILED, PRECONDITION_FAILED))"
    by (auto simp: advance_locked_def Let_def advance_failed_def close_result_Inr split: if_splits)
  have u: "upd d r' [] d' \<and> core r' = core (merge_outputs r jb entry) \<and> r_status r' = s"
    by (rule close_run_upd [OF c])
  from c have "r_error_code r' = Some c"
    by (auto simp: close_run_def save_run_def Let_def bindR_Inr_iff guardR_Inr_iff split: if_splits)
  moreover have "get_run i d' = Some r'"
    using steps_to_get [OF assms(1,4) advance_locked_steps [OF l assms(7)]] .
  moreover have "r_plan r' = r_plan r" using u m by (simp add: core_def)
  ultimately show ?thesis using u s n by (auto simp: upd_def)
qed

definition ex_check_db :: db where
  \<comment> \<open>the example network with a device check before the configuration, its run open\<close>
  "ex_check_db =
     (let check = JDict [(''preconditions'', JList [JDict [(''name'', JStr ''ping''), (''driver'', JStr ''http'')]]),
            (''configuration'', JList [JDict [(''name'', JStr ''add''), (''driver'', JStr ''http'')]])];
          d0 = ex_db\<lparr>db_playbooks := map (\<lambda>p. p\<lparr>pb_definition := check\<rparr>) (db_playbooks ex_db)\<rparr>
      in case create_or_get_run ex_env (\<lambda>d. d) d0 ex_service ex_resolved ex_request of
           Inr (d, r, c) \<Rightarrow> d | Inl e \<Rightarrow> d0)"

definition ex_check_job :: job where
  "ex_check_job = (case db_jobs ex_check_db of jb # _ \<Rightarrow> finished_job ex_db jb FAILED None | [] \<Rightarrow> ex_last)"

definition ex_check :: db where
  "ex_check = put_job ex_check_job ex_check_db"

lemma ex_check_wf: "wf ex_check"
proof -
  let ?d0 = "ex_db\<lparr>db_playbooks := map (\<lambda>p. p\<lparr>pb_definition := JDict
       [(''preconditions'', JList [JDict [(''name'', JStr ''ping''), (''driver'', JStr ''http'')]]),
        (''configuration'', JList [JDict [(''name'', JStr ''add''), (''driver'', JStr ''http'')]])]\<rparr>) (db_playbooks ex_db)\<rparr>"
  have "wf ?d0" by (simp add: wf_def ex_db_def)
  then have w: "wf ex_check_db"
    by (auto simp: ex_check_db_def Let_def split: sum.splits intro: create_or_get_run_wf)
  have c: "(case get_job 101 ex_check_db of None \<Rightarrow> False
     | Some j0 \<Rightarrow> in_flight (j_status j0) \<and> j_run ex_check_job = j_run j0 \<and> j_position ex_check_job = j_position j0)"
    "j_id ex_check_job = 101" by code_simp+
  then obtain j0 where "get_job (j_id ex_check_job) ex_check_db = Some j0" "in_flight (j_status j0)"
    "j_run ex_check_job = j_run j0" "j_position ex_check_job = j_position j0" by (auto split: option.splits)
  with w show ?thesis unfolding ex_check_def by (rule put_job_wf)
qed

lemma precondition_failure_witness:
  "case advance_run ex_env ex_check ex_check_job of
     Inr (d', nxt) \<Rightarrow> nxt = None \<and> db_jobs d' = db_jobs ex_check \<and>
       map_option (\<lambda>r. (r_status r, r_error_code r)) (get_run 100 d') = Some (FAILED, Some PRECONDITION_FAILED)
   | Inl e \<Rightarrow> False"
proof -
  have c: "(case get_run 100 ex_check of None \<Rightarrow> False | Some r \<Rightarrow> in_flight (r_status r) \<and> \<not> r_dry r \<and>
       phase_at r ex_check_job = Some PRECONDITIONS \<and> \<not> later_child ex_check r ex_check_job)"
    "(case advance_run ex_env ex_check ex_check_job of Inr x \<Rightarrow> True | Inl e \<Rightarrow> False)"
    "get_job (j_id ex_check_job) ex_check = Some ex_check_job" "j_run ex_check_job = Some 100"
    "j_status ex_check_job = FAILED" by code_simp+
  then obtain r d' nxt where r: "get_run 100 ex_check = Some r" "in_flight (r_status r)" "\<not> r_dry r"
    "phase_at r ex_check_job = Some PRECONDITIONS" "\<not> later_child ex_check r ex_check_job"
    and a: "advance_run ex_env ex_check ex_check_job = Inr (d', nxt)"
    by (auto split: option.splits sum.splits)
  from precondition_failure_changes_nothing [OF ex_check_wf c(3,4) r(1-3) _ _ r(4,5) a] c(5) a
  show ?thesis by auto
qed

section \<open>Get or create\<close>

lemma find_in_flight_Some:
  assumes "find_in_flight_run d c k = Some r" "wf d"
  shows "r_company r = c \<and> r_key r = Some k \<and> in_flight (r_status r) \<and> get_run (r_id r) d = Some r"
  using assms by (auto simp: find_in_flight_run_def find_Some_iff wf_def get_run_def find_by_unique split: if_splits)

lemma create_run_facts:
  assumes "create_run E d svc rv q = Inr (d', r)" "wf d"
  shows "r_company r = sv_company svc \<and> r_key r = Some (request_key svc q) \<and> r_status r = QUEUED \<and>
    get_run (r_id r) d' = Some r \<and> get_run (r_id r) d = None \<and> key_free r d"
proof -
  from assms(1) obtain g d1 ordered defs specs plan sealed d2 child where
    pc: "plan_checks E d svc rv (rq_purpose q) (\<not> rq_dry q) = Inr (d1, ordered, defs, specs)"
    and ins: "insert_run (new_run d1 svc rv q g plan defs sealed) d1 = Inr d2"
    and qc: "queue_child E d2 (new_run d1 svc rv q g plan defs sealed) 0 = Inr (d', r, child)"
    by (auto simp: create_run_def Let_def guardR_Inr_iff bindR_Inr_iff)
  let ?r = "new_run d1 svc rv q g plan defs sealed"
  note t = plan_checks_tables [OF pc]
  have w1: "wf d1" using wf_same_tables [OF assms(2)] t by blast
  have n: "r_company ?r = sv_company svc" "r_key ?r = Some (request_key svc q)" "r_status ?r = QUEUED"
    "r_id ?r = db_next d1" by (simp_all add: new_run_def)
  have kf: "key_free ?r d" using ins n t not_taken_free [of ?r d1]
    by (auto simp: insert_run_def guardR_Inr_iff key_free_def)
  have fresh: "get_run (db_next d1) d = None"
  proof (cases "get_run (db_next d1) d")
    case (Some q)
    then have "q \<in> set (db_runs d1)" "r_id q = db_next d1" using t by (auto simp: get_run_def dest: find_by_SomeD)
    with w1 show ?thesis by (auto simp: wf_def)
  qed
  have d2: "db_runs d2 = db_runs d @ [?r]" using ins t by (auto simp: insert_run_def guardR_Inr_iff)
  have g2: "get_run (r_id ?r) d2 = Some ?r" using fresh d2 n by (simp add: get_run_def find_by_append)
  show ?thesis
  proof (cases child)
    case None
    with queue_child_None qc have "d' = d2" "r = ?r" by blast+
    with n kf fresh g2 show ?thesis by simp
  next
    case (Some j)
    note qs = queue_child_Some [OF qc [unfolded Some]]
    then have "r_id r = r_id ?r" "r_company r = r_company ?r" "r_key r = r_key ?r" "r_status r = QUEUED"
      using n by (simp_all add: core_def)
    moreover have "get_run (r_id r) d' = Some r" using qs g2 calculation by (simp add: upd_def get_run_def)
    ultimately show ?thesis using n kf fresh key_free_same by auto
  qed
qed

text \<open>
  A request is answered with a run in flight of its own company and key, whoever made
  it: either one that was there (before the request, or committed by the session that won
  the race), and then nothing is written; or a new one, under a fresh id, and then no other
  run in flight had the key.
\<close>

lemma create_or_get_run_dedup:
  assumes "reachable E d" "reachable E (race d)" "create_or_get_run E race d svc rv q = Inr (d', r, created)"
  shows "r_company r = sv_company svc \<and> r_key r = Some (request_key svc q) \<and> in_flight (r_status r) \<and>
    get_run (r_id r) d' = Some r \<and>
    (if created then get_run (r_id r) (race d) = None \<and> key_free r (race d) else d' = d \<or> d' = race d)"
proof -
  note w = reachable_wf [OF assms(1)] reachable_wf [OF assms(2)]
  have k: "request_key svc (q\<lparr>rq_key := Some (request_key svc q)\<rparr>) = request_key svc q"
    by (simp add: request_key_def run_idempotency_key_def Let_def split: option.splits)
  show ?thesis
    using assms(3) find_in_flight_Some w create_run_facts [OF _ w(2), of E svc rv "q\<lparr>rq_key := Some (request_key svc q)\<rparr>"]
    by (fastforce simp: create_or_get_run_def Let_def k split: option.splits sum.splits exn.splits)
qed

lemma create_or_get_run_dedup_witness:
  "case create_or_get_run ex_env (\<lambda>d. ex_created) ex_db ex_service ex_resolved ex_request of
     Inr (d', r, created) \<Rightarrow> \<not> created \<and> d' = ex_created \<and> get_run (r_id r) ex_created = Some r
   | Inl e \<Rightarrow> False"
proof -
  have s: "reachable ex_env ex_db" by (rule reachable.start) (simp_all add: ex_db_def)
  have c: "(case create_or_get_run ex_env (\<lambda>d. ex_created) ex_db ex_service ex_resolved ex_request of
     Inr (d', r, created) \<Rightarrow> \<not> created \<and> map r_id (db_runs d') = [100] | Inl e \<Rightarrow> False)"
    "db_runs ex_db = []" by code_simp+
  then obtain d' r where x: "create_or_get_run ex_env (\<lambda>d. ex_created) ex_db ex_service ex_resolved ex_request = Inr (d', r, False)"
    "db_runs d' \<noteq> []"
    by (auto split: sum.splits)
  from create_or_get_run_dedup [OF s _ x(1)] ex_created_reachable x c(2) show ?thesis by auto
qed

end
