(* ===== verification/Playbook_Template.thy ===== *)
theory Playbook_Template
  imports Playbook_Tokens
begin

text \<open>
  \<open>utils/playbook_template.py\<close>: the sandboxed \<open>{{variable}}\<close> renderer. The scanner of a token
  body (a name and at most four filters with literal arguments), the closed filter table,
  the rendering of a string and of a JSON-shaped value, the merge of the job's variables,
  and the masking of secret-named ones. A \<open>TemplateError\<close> is a constructor with the parts
  its message is made of; the did-you-mean suggestion is left out.
\<close>

section \<open>Errors and limits\<close>

datatype template_error =
    NotVariable | UnexpectedAfterVariable char | MissingFilterName | UnknownFilter string
  | EmptyArgument | Unterminated | DanglingBackslash | InvalidEscape char
  | UnexpectedInArgument char | ArgumentTooLong | UnexpectedAfterArgument char
  | WrongArity string nat | SecretFiltered string | TooManyFilters
  | ReplaceEmpty | PadFill | MacStyle string | NotMac string | NotWhole string string
  | OutOfRange string int | OutputTooLong string

definition MAX_FILTERS :: nat where "MAX_FILTERS = 4"
definition MAX_ARG_LEN :: nat where "MAX_ARG_LEN = 128"
definition MAX_OUTPUT :: nat where "MAX_OUTPUT = 64 * 1024"

record template_expr =
  te_name :: string
  te_filters :: "(string \<times> string list) list"

section \<open>The filters\<close>

function replace_all :: "string \<Rightarrow> string \<Rightarrow> string \<Rightarrow> string" where
  \<comment> \<open>\<open>s.replace(old, new)\<close> for a non-empty \<open>old\<close>: leftmost occurrences, not overlapping\<close>
  "replace_all old new [] = []"
| "replace_all old new (c # cs) =
     (if old \<noteq> [] \<and> prefix old (c # cs) then new @ replace_all old new (drop (length old) (c # cs))
      else c # replace_all old new cs)"
  by pat_completeness auto
termination
  by (relation "measure (\<lambda>(old, new, s). length s)") (auto simp: Suc_le_eq)

definition py_int :: "string \<Rightarrow> int option" where
  \<comment> \<open>\<open>int(raw)\<close>: blanks around, a sign, digits with single underscores between them\<close>
  "py_int raw =
     (let t = str_strip raw;
          (sign, ds) = (case t of c # r \<Rightarrow> (if c = CHR ''-'' then (-1, r) else if c = CHR ''+'' then (1, r) else (1, t))
                        | [] \<Rightarrow> (1, t));
          parts = split_on (CHR ''_'') ds
      in if list_all (\<lambda>p. p \<noteq> [] \<and> list_all is_digit p) parts
         then Some (sign * int (read_nat (concat parts))) else None)"

definition int_arg :: "string \<Rightarrow> string \<Rightarrow> int \<Rightarrow> int \<Rightarrow> template_error + int" where
  "int_arg fname raw low high =
     (case py_int raw of
        None \<Rightarrow> Inl (NotWhole fname raw)
      | Some v \<Rightarrow> guardR (\<not> (low \<le> v \<and> v \<le> high)) (OutOfRange fname v) (Inr v))"

definition f_replace :: "string \<Rightarrow> string \<Rightarrow> string \<Rightarrow> template_error + string" where
  "f_replace s old new = guardR (old = []) ReplaceEmpty (Inr (replace_all old new s))"

definition f_truncate :: "string \<Rightarrow> string \<Rightarrow> template_error + string" where
  "f_truncate s n = bindR (int_arg ''truncate'' n 1 512) (\<lambda>k. Inr (take (nat k) s))"

definition f_last :: "string \<Rightarrow> string \<Rightarrow> template_error + string" where
  "f_last s n = bindR (int_arg ''last'' n 1 512) (\<lambda>k. Inr (drop (length s - nat k) s))"

definition f_pad_left :: "string \<Rightarrow> string \<Rightarrow> string \<Rightarrow> template_error + string" where
  "f_pad_left s width fill =
     guardR (length fill \<noteq> 1) PadFill
       (bindR (int_arg ''pad_left'' width 1 64) (\<lambda>k. Inr (replicate (nat k - length s) (hd fill) @ s)))"

definition MAC_STYLES :: "string list" where
  "MAC_STYLES = [''colon'', ''dash'', ''dot'', ''bare'']"

definition is_hex :: "char \<Rightarrow> bool" where
  "is_hex c \<longleftrightarrow> is_digit c \<or> c \<in> set ''ABCDEFabcdef''"

definition chunks :: "nat \<Rightarrow> string \<Rightarrow> string list" where
  \<comment> \<open>\<open>s[i:i + n] for i in range(0, 12, n)\<close>\<close>
  "chunks n s = map (\<lambda>i. take n (drop (n * i) s)) [0..<12 div n]"

definition f_mac :: "string \<Rightarrow> string \<Rightarrow> template_error + string" where
  "f_mac s style =
     guardR (style \<notin> set MAC_STYLES) (MacStyle style)
       (let hex_digits = filter is_hex s
        in guardR (length hex_digits \<noteq> 12) (NotMac s)
          (Inr (if style = ''dot'' then join_with ''.'' (chunks 4 (str_lower hex_digits))
                else if style = ''bare'' then str_upper hex_digits
                else join_with (if style = ''colon'' then '':'' else ''-'') (chunks 2 (str_upper hex_digits)))))"

definition f_alnum :: "string \<Rightarrow> string" where
  "f_alnum s = filter (\<lambda>c. is_alnum c \<or> c = CHR ''_'' \<or> c = CHR ''-'') s"

definition FILTERS :: "(string \<times> nat \<times> nat) list" where
  \<comment> \<open>the arities; the functions are in \<open>filter_fn\<close>\<close>
  "FILTERS = [(''upper'', 0, 0), (''lower'', 0, 0), (''trim'', 0, 0), (''alnum'', 0, 0),
     (''replace'', 2, 2), (''truncate'', 1, 1), (''last'', 1, 1), (''pad_left'', 1, 2),
     (''mac'', 1, 1), (''default'', 1, 1)]"

definition arg :: "string list \<Rightarrow> nat \<Rightarrow> string" where
  \<comment> \<open>\<open>args[n]\<close>, which the arity check makes sure is there\<close>
  "arg args n = (if n < length args then args ! n else [])"

definition filter_fn :: "string \<Rightarrow> string \<Rightarrow> string list \<Rightarrow> template_error + string" where
  \<comment> \<open>\<open>FILTERS[fname].fn(value, *args)\<close>\<close>
  "filter_fn fname s args =
     (if fname = ''upper'' then Inr (str_upper s)
      else if fname = ''lower'' then Inr (str_lower s)
      else if fname = ''trim'' then Inr (str_strip s)
      else if fname = ''alnum'' then Inr (f_alnum s)
      else if fname = ''replace'' then f_replace s (arg args 0) (arg args 1)
      else if fname = ''truncate'' then f_truncate s (arg args 0)
      else if fname = ''last'' then f_last s (arg args 0)
      else if fname = ''pad_left'' then f_pad_left s (arg args 0) (if length args < 2 then '' '' else arg args 1)
      else if fname = ''mac'' then f_mac s (arg args 0)
      else Inl (UnknownFilter fname))"

definition apply_filter :: "string \<Rightarrow> string \<Rightarrow> string list \<Rightarrow> template_error + string" where
  "apply_filter value fname args =
     bindR (filter_fn fname value args) (\<lambda>out.
       guardR (MAX_OUTPUT < length out) (OutputTooLong fname) (Inr out))"

section \<open>Parsing a token body\<close>

definition word_at :: "string \<Rightarrow> (string \<times> string) option" where
  \<comment> \<open>\<open>[a-z][a-z0-9_]*\<close> at the start\<close>
  "word_at s =
     (case s of
        [] \<Rightarrow> None
      | c # cs \<Rightarrow> (if is_lower c then Some (takeWhile is_word_char s, dropWhile is_word_char s) else None))"

definition index_at :: "string \<Rightarrow> string \<times> string" where
  \<comment> \<open>\<open>(?:\[\d{1,3}\])?\<close>\<close>
  "index_at s =
     (case s of
        c # cs \<Rightarrow>
          (let ds = takeWhile is_digit cs; r = dropWhile is_digit cs
           in if c = CHR ''['' \<and> ds \<noteq> [] \<and> length ds \<le> 3 \<and> prefix '']'' r
              then (c # ds @ '']'', drop 1 r) else ([], s))
      | [] \<Rightarrow> ([], s))"

lemma word_at_length: "word_at s = Some (w, r) \<Longrightarrow> length r < length s \<and> s = w @ r"
  by (auto simp: word_at_def is_word_char_def length_dropWhile_le le_imp_less_Suc split: list.splits if_splits)

function dotted_at :: "string \<Rightarrow> string \<times> string" where
  \<comment> \<open>\<open>(?:\.NAME)*\<close>\<close>
  "dotted_at s =
     (case s of
        c # cs \<Rightarrow>
          (case (if c = CHR ''.'' then word_at cs else None) of
             None \<Rightarrow> ([], s)
           | Some (w, r) \<Rightarrow> (let (ws, r') = dotted_at r in (c # w @ ws, r')))
      | [] \<Rightarrow> ([], s))"
  by pat_completeness auto
termination
  by (relation "measure length") (auto split: if_splits dest!: word_at_length)

declare dotted_at.simps [simp del]

definition skip_ws :: "string \<Rightarrow> string" where
  "skip_ws s = dropWhile is_blank s"

definition var_head :: "string \<Rightarrow> (string \<times> string) option" where
  \<comment> \<open>\<open>_VAR_HEAD.match(body)\<close>: the name and what follows the blanks after it\<close>
  "var_head body =
     (case word_at (skip_ws body) of
        None \<Rightarrow> None
      | Some (w, r) \<Rightarrow>
          (let (ix, r1) = index_at r; (ds, r2) = dotted_at r1 in Some (w @ ix @ ds, skip_ws r2)))"

definition unescape :: "char \<Rightarrow> char option" where
  "unescape c =
     (if c \<in> set [CHR 0x5C, CHR 0x27, CHR 0x22] then Some c
      else if c = CHR ''n'' then Some (CHR 0x0A)
      else if c = CHR ''t'' then Some (CHR 0x09)
      else if c = CHR ''r'' then Some (CHR 0x0D) else None)"

fun quoted :: "char \<Rightarrow> string \<Rightarrow> template_error + string \<times> string" where
  \<comment> \<open>the text up to the closing quote, after the opening one\<close>
  "quoted q [] = Inl Unterminated"
| "quoted q (c # cs) =
     (if c = CHR 0x5C then
        (case cs of
           [] \<Rightarrow> Inl DanglingBackslash
         | e # cs' \<Rightarrow>
             (case unescape e of
                None \<Rightarrow> Inl (InvalidEscape e)
              | Some x \<Rightarrow> bindR (quoted q cs') (\<lambda>(b, r). Inr (x # b, r))))
      else if c = q then Inr ([], cs)
      else bindR (quoted q cs) (\<lambda>(b, r). Inr (c # b, r)))"

definition is_bare :: "char \<Rightarrow> bool" where
  "is_bare c \<longleftrightarrow> is_alnum c \<or> c \<in> set ''_.+-''"

definition is_quote :: "char \<Rightarrow> bool" where
  "is_quote c \<longleftrightarrow> c = CHR 0x27 \<or> c = CHR 0x22"

definition arg_at :: "string \<Rightarrow> template_error + string \<times> string" where
  \<comment> \<open>one argument, quoted or bare\<close>
  "arg_at s =
     (case skip_ws s of
        [] \<Rightarrow> Inl EmptyArgument
      | c # cs \<Rightarrow>
          (if c = CHR ''|'' \<or> c = CHR '','' then Inl EmptyArgument
           else if is_quote c then quoted c cs
           else if is_bare c then Inr (takeWhile is_bare (c # cs), dropWhile is_bare (c # cs))
           else Inl (UnexpectedInArgument c)))"

lemma quoted_length: "quoted q s = Inr (a, r) \<Longrightarrow> length r < length s"
proof (induction q s arbitrary: a rule: quoted.induct)
  case (2 q c cs)
  then show ?case by (fastforce simp: bindR_Inr_iff split: if_splits list.splits option.splits)
qed simp

lemma skip_ws_length: "length (skip_ws s) \<le> length s"
  by (simp add: skip_ws_def length_dropWhile_le)

lemma arg_at_length: "arg_at s = Inr (a, r) \<Longrightarrow> length r < length s"
proof -
  have w: "length (dropWhile is_bare cs) < length s" if "skip_ws s = c # cs" for c cs
    using skip_ws_length [of s] length_dropWhile_le [of is_bare cs] that by simp
  then show "arg_at s = Inr (a, r) \<Longrightarrow> length r < length s"
    using skip_ws_length [of s]
    by (auto simp: arg_at_def split: list.splits if_splits dest!: quoted_length)
qed

function parse_args :: "string \<Rightarrow> template_error + string list \<times> string" where
  "parse_args s =
     bindR (arg_at s) (\<lambda>(a, r).
       guardR (MAX_ARG_LEN < length a) ArgumentTooLong
         (case skip_ws r of
            [] \<Rightarrow> Inr ([a], [])
          | c # cs \<Rightarrow>
              (if c = CHR '','' then bindR (parse_args cs) (\<lambda>(as, r'). Inr (a # as, r'))
               else if c \<noteq> CHR ''|'' then Inl (UnexpectedAfterArgument c)
               else Inr ([a], c # cs))))"
  by pat_completeness auto
termination
proof (relation "measure length")
  fix s p a r c cs
  assume "arg_at s = Inr p" "(a, r) = p" "skip_ws r = c # cs"
  moreover have "length (skip_ws r) \<le> length r" by (rule skip_ws_length)
  ultimately show "(cs, s) \<in> measure length" using arg_at_length [of s a r] by auto
qed simp

declare parse_args.simps [simp del]

lemma parse_args_length: "parse_args s = Inr (as, r) \<Longrightarrow> length r < length s"
proof (induction s arbitrary: as r rule: parse_args.induct)
  case (1 s)
  from "1.prems" obtain a t where a: "arg_at s = Inr (a, t)" and g: "\<not> MAX_ARG_LEN < length a"
    and k: "(case skip_ws t of [] \<Rightarrow> Inr ([a], [])
       | c # cs \<Rightarrow> (if c = CHR '','' then bindR (parse_args cs) (\<lambda>(as, r'). Inr (a # as, r'))
               else if c \<noteq> CHR ''|'' then Inl (UnexpectedAfterArgument c)
               else Inr ([a], c # cs))) = Inr (as, r)"
    by (subst (asm) parse_args.simps) (auto simp: bindR_Inr_iff guardR_Inr_iff)
  have l: "length t < length s" "length (skip_ws t) \<le> length t" using arg_at_length a skip_ws_length by blast+
  show ?case
  proof (cases "skip_ws t")
    case Nil
    with k l show ?thesis by auto
  next
    case (Cons c cs)
    show ?thesis
    proof (cases "c = CHR '',''")
      case True
      with k Cons obtain as' where "parse_args cs = Inr (as', r)" by (auto simp: bindR_Inr_iff)
      from "1.IH" [OF a refl Cons True this] l Cons show ?thesis by simp
    next
      case False
      with k Cons have "r = skip_ws t" by (auto split: if_splits)
      with l show ?thesis by simp
    qed
  qed
qed

definition filter_args :: "string \<Rightarrow> template_error + string list \<times> string" where
  \<comment> \<open>\<open>:\<close> and the arguments, or none\<close>
  "filter_args s = (case s of c # cs \<Rightarrow> (if c = CHR '':'' then parse_args cs else Inr ([], s)) | [] \<Rightarrow> Inr ([], s))"

lemma filter_args_length: "filter_args s = Inr (as, r) \<Longrightarrow> length r \<le> length s"
  by (auto simp: filter_args_def split: list.splits if_splits dest!: parse_args_length)

function filter_loop :: "string \<Rightarrow> nat \<Rightarrow> string \<Rightarrow> template_error + (string \<times> string list) list" where
  \<comment> \<open>the \<open>while\<close> of \<open>parse_body\<close>, \<open>n\<close> filters already taken\<close>
  "filter_loop name n s =
     (case s of
        [] \<Rightarrow> Inr []
      | c # cs \<Rightarrow>
          (if c \<noteq> CHR ''|'' then Inl (UnexpectedAfterVariable c)
           else (case word_at (skip_ws cs) of
                   None \<Rightarrow> Inl MissingFilterName
                 | Some (fname, r) \<Rightarrow>
                     (case map_of FILTERS fname of
                        None \<Rightarrow> Inl (UnknownFilter fname)
                      | Some (lo, hi) \<Rightarrow>
                          bindR (filter_args (skip_ws r)) (\<lambda>(args, r1).
                            guardR (\<not> (lo \<le> length args \<and> length args \<le> hi)) (WrongArity fname (length args))
                              (guardR (is_secret_name name) (SecretFiltered name)
                                (guardR (MAX_FILTERS < Suc n) TooManyFilters
                                  (bindR (filter_loop name (Suc n) r1) (\<lambda>fs. Inr ((fname, args) # fs))))))))))"
  by pat_completeness auto
termination
proof (relation "measure (\<lambda>(name, n, s). length s)")
  fix name :: string and n :: nat and s c cs x fname r y lo hi p args r1
  assume "s = c # cs" "word_at (skip_ws cs) = Some x" "(fname, r) = x"
    "filter_args (skip_ws r) = Inr p" "(args, r1) = p"
  then have "length r < length (skip_ws cs)" "length r1 \<le> length (skip_ws r)"
    using word_at_length filter_args_length by (metis, metis)
  with \<open>s = c # cs\<close> skip_ws_length [of cs] skip_ws_length [of r]
  show "((name, Suc n, r1), name, n, s) \<in> measure (\<lambda>(name, n, s). length s)" by auto
qed simp

declare filter_loop.simps [simp del]

definition parse_body :: "string \<Rightarrow> template_error + template_expr" where
  "parse_body body =
     (case var_head body of
        None \<Rightarrow> Inl NotVariable
      | Some (name, r) \<Rightarrow> bindR (filter_loop name 0 r) (\<lambda>fs. Inr \<lparr>te_name = name, te_filters = fs\<rparr>))"

section \<open>Text of a value\<close>

definition hex_digit :: "nat \<Rightarrow> char" where
  "hex_digit n = ''0123456789abcdef'' ! (n mod 16)"

definition repr_char :: "char \<Rightarrow> char \<Rightarrow> string" where
  "repr_char q c =
     (if c = q \<or> c = CHR 0x5C then [CHR 0x5C, c]
      else if c = CHR 0x0A then [CHR 0x5C, CHR ''n'']
      else if c = CHR 0x0D then [CHR 0x5C, CHR ''r'']
      else if c = CHR 0x09 then [CHR 0x5C, CHR ''t'']
      else (let n = of_char c :: nat
            in if n < 32 \<or> (127 \<le> n \<and> n \<le> 160) \<or> n = 173
               then [CHR 0x5C, CHR ''x'', hex_digit (n div 16), hex_digit n] else [c]))"

definition repr_str :: "string \<Rightarrow> string" where
  \<comment> \<open>\<open>repr(s)\<close>: single quotes, unless the text has one and no double quote\<close>
  "repr_str s =
     (let q = (if CHR 0x27 \<in> set s \<and> CHR 0x22 \<notin> set s then CHR 0x22 else CHR 0x27)
      in [q] @ concat (map (repr_char q) s) @ [q])"

fun py_repr :: "json \<Rightarrow> string" where
  "py_repr JNull = ''None''"
| "py_repr (JBool b) = (if b then ''True'' else ''False'')"
| "py_repr (JInt i) = show_int i"
| "py_repr (JFloat s) = s"
| "py_repr (JStr s) = repr_str s"
| "py_repr (JList xs) = ''['' @ join_with '', '' (map py_repr xs) @ '']''"
| "py_repr (JDict d) = ''{'' @ join_with '', '' (map (\<lambda>p. repr_str (fst p) @ '': '' @ py_repr (snd p)) d) @ ''}''"

fun text_of :: "json \<Rightarrow> string" where
  \<comment> \<open>\<open>str(v)\<close>\<close>
  "text_of (JStr s) = s"
| "text_of v = py_repr v"

section \<open>Rendering\<close>

datatype template_problem = BadToken string template_error | MissingName string

definition find_variables :: "string \<Rightarrow> string list" where
  "find_variables text =
     dedup (List.map_filter (\<lambda>b. case parse_body b of Inl e \<Rightarrow> None | Inr t \<Rightarrow> Some (te_name t)) (token_bodies text))"

definition find_template_errors :: "string \<Rightarrow> template_problem list" where
  "find_template_errors text =
     dedup (List.map_filter
       (\<lambda>b. if CHR ''|'' \<notin> set b then None
            else (case parse_body b of Inl e \<Rightarrow> Some (BadToken b e) | Inr t \<Rightarrow> None)) (token_bodies text))"

fun run_chain :: "string option \<Rightarrow> (string \<times> string list) list \<Rightarrow> template_error + string option" where
  \<comment> \<open>the loop over the filters; a missing value skips to a later \<open>default\<close>, or stops\<close>
  "run_chain v [] = Inr v"
| "run_chain v ((fname, args) # fs) =
     (if fname = ''default''
      then run_chain (case v of None \<Rightarrow> Some (arg args 0)
                      | Some x \<Rightarrow> if str_strip x = [] then Some (arg args 0) else Some x) fs
      else (case v of
              None \<Rightarrow> (if list_ex (\<lambda>f. fst f = ''default'') ((fname, args) # fs) then run_chain None fs else Inr None)
            | Some x \<Rightarrow> bindR (apply_filter x fname args) (\<lambda>y. run_chain (Some y) fs)))"

definition raw_token :: "string \<Rightarrow> string" where
  "raw_token body = ''{{'' @ body @ ''}}''"

definition value_text :: "dict \<Rightarrow> string \<Rightarrow> string option" where
  \<comment> \<open>absent and null are the same\<close>
  "value_text vars name = (case dget name vars of JNull \<Rightarrow> None | v \<Rightarrow> Some (text_of v))"

definition sub_token :: "dict \<Rightarrow> string \<Rightarrow> string \<times> template_problem list" where
  \<comment> \<open>\<open>_sub\<close>: the text that replaces the token, and the problems it adds\<close>
  "sub_token vars body =
     (case parse_body body of
        Inl e \<Rightarrow> (raw_token body, if CHR ''|'' \<in> set body then [BadToken body e] else [])
      | Inr t \<Rightarrow>
          (case run_chain (value_text vars (te_name t)) (te_filters t) of
             Inl e \<Rightarrow> (raw_token body, [BadToken body e])
           | Inr None \<Rightarrow> (raw_token body, [MissingName (te_name t)])
           | Inr (Some v) \<Rightarrow> (v, [])))"

definition render_string :: "string \<Rightarrow> dict \<Rightarrow> string \<times> template_problem list" where
  "render_string template vars =
     (token_sub (\<lambda>b. fst (sub_token vars b)) template,
      dedup (concat (map (\<lambda>b. snd (sub_token vars b)) (token_bodies template))))"

fun render_value :: "json \<Rightarrow> dict \<Rightarrow> json \<times> template_problem list" where
  "render_value (JStr s) vars = (let (t, ps) = render_string s vars in (JStr t, ps))"
| "render_value (JDict d) vars =
     (JDict (map (\<lambda>p. (fst p, fst (render_value (snd p) vars))) d),
      dedup (concat (map (\<lambda>p. snd (render_value (snd p) vars)) d)))"
| "render_value (JList xs) vars =
     (JList (map (\<lambda>v. fst (render_value v vars)) xs),
      dedup (concat (map (\<lambda>v. snd (render_value v vars)) xs)))"
| "render_value v vars = (v, [])"

section \<open>The variables of a job\<close>

definition INPUT_NAMESPACE :: string where "INPUT_NAMESPACE = ''input''"

definition input_key :: "string \<Rightarrow> string" where
  "input_key key = (if prefix (INPUT_NAMESPACE @ ''.'') key then key else INPUT_NAMESPACE @ ''.'' @ key)"

definition RESERVED_PREFIXES :: "string list" where
  "RESERVED_PREFIXES = [''computed.'', ''capture.'', ''secret.'', ''acs.'']"

definition reserved :: "string \<Rightarrow> bool" where
  "reserved k \<longleftrightarrow> list_ex (\<lambda>p. prefix p k) RESERVED_PREFIXES"

datatype missing_item = MissingKey string | ComputedError "string option" ecode

datatype resolve_exn = AttributeError | EvalExn eexc

fun merge_declared :: "dict \<Rightarrow> json list \<Rightarrow> dict \<times> missing_item list \<Rightarrow> resolve_exn + dict \<times> missing_item list" where
  \<comment> \<open>\<open>for var in declared\<close>\<close>
  "merge_declared provided [] st = Inr st"
| "merge_declared provided (var # rest) (resolved, missing) =
     (case jget ''key'' var of
        JStr key \<Rightarrow>
          merge_declared provided rest
            (if map_of provided key \<noteq> None then (dput (input_key key) (dget key provided) resolved, missing)
             else if map_of provided (input_key key) \<noteq> None
               then (dput (input_key key) (dget (input_key key) provided) resolved, missing)
             else if jget ''default'' var \<noteq> JNull
               then (dput (input_key key) (jget ''default'' var) resolved, missing)
             else if truthy (jget ''required'' var) then (resolved, missing @ [MissingKey key])
             else (resolved, missing))
      | _ \<Rightarrow> Inl AttributeError)"

definition pass_through :: "string \<times> json \<Rightarrow> dict \<Rightarrow> dict" where
  "pass_through p resolved =
     (if reserved (fst p) then resolved
      else if map_of resolved (fst p) = None then resolved @ [p] else resolved)"

definition resolve_variables :: "json \<Rightarrow> dict \<Rightarrow> resolve_exn + dict \<times> missing_item list" where
  "resolve_variables definition provided =
     bindR (merge_declared provided (as_list (jget ''variables'' definition)) ([], [])) (\<lambda>(resolved, missing).
       (let resolved1 = fold pass_through provided resolved
        in case evaluate_all (jget ''computed'' definition) (map_of resolved1) of
             Inl e \<Rightarrow> Inl (EvalExn e)
           | Inr st \<Rightarrow>
               Inr (dict_update resolved1 (map (\<lambda>(k, v). (k, JInt v)) (ev_values st)),
                    missing @ map MissingKey (ev_missing st)
                      @ map (\<lambda>(c, k). ComputedError k c) (ev_errors st))))"

definition mask_secrets :: "dict \<Rightarrow> dict" where
  "mask_secrets vars = map (\<lambda>(k, v). (k, if is_secret_name k then JStr ''***'' else v)) vars"

section \<open>Printing an expression and parsing it back\<close>

definition stops :: "(char \<Rightarrow> bool) \<Rightarrow> string \<Rightarrow> bool" where
  "stops P r \<longleftrightarrow> r = [] \<or> \<not> P (hd r)"

lemma takeWhile_stops: "list_all P w \<Longrightarrow> stops P r \<Longrightarrow> takeWhile P (w @ r) = w"
  by (cases r) (auto simp: stops_def takeWhile_append list_all_iff)

lemma dropWhile_stops: "list_all P w \<Longrightarrow> stops P r \<Longrightarrow> dropWhile P (w @ r) = r"
  by (cases r) (auto simp: stops_def dropWhile_append list_all_iff)

lemma is_word_lower: "is_lower c \<Longrightarrow> is_word_char c"
  by (simp add: is_word_char_def)

lemma word_at_segment: "is_segment w \<Longrightarrow> stops is_word_char r \<Longrightarrow> word_at (w @ r) = Some (w, r)"
proof (cases w)
  case (Cons c cs)
  assume a: "is_segment w" "stops is_word_char r"
  with Cons have "list_all is_word_char w" "is_lower c" by (simp_all add: is_word_lower)
  with a(2) Cons show ?thesis
    using takeWhile_stops [of is_word_char w r] dropWhile_stops [of is_word_char w r] by (simp add: word_at_def)
qed simp

definition show_index :: "string option \<Rightarrow> string" where
  "show_index ix = (case ix of None \<Rightarrow> [] | Some ds \<Rightarrow> ''['' @ ds @ '']'')"

definition index_ok :: "string option \<Rightarrow> bool" where
  "index_ok ix = (case ix of None \<Rightarrow> True | Some ds \<Rightarrow> ds \<noteq> [] \<and> length ds \<le> 3 \<and> list_all is_digit ds)"

lemma index_at_show: "index_ok ix \<Longrightarrow> stops (\<lambda>c. c = CHR ''['') r \<Longrightarrow> index_at (show_index ix @ r) = (show_index ix, r)"
proof (cases ix)
  case None
  then show "stops (\<lambda>c. c = CHR ''['') r \<Longrightarrow> ?thesis"
    by (cases r) (auto simp: index_at_def show_index_def stops_def Let_def)
next
  case (Some ds)
  assume "index_ok ix"
  with Some have d: "list_all is_digit ds" "ds \<noteq> []" "length ds \<le> 3" by (simp_all add: index_ok_def)
  have s: "stops is_digit ('']'' @ r)" by (simp add: stops_def is_digit_def)
  note t = takeWhile_stops [OF d(1) s] dropWhile_stops [OF d(1) s]
  show ?thesis using Some d t by (simp add: index_at_def show_index_def Let_def)
qed

definition show_segs :: "string list \<Rightarrow> string" where
  "show_segs ws = concat (map (\<lambda>w. CHR ''.'' # w) ws)"

lemma stops_dot_segs: "stops (\<lambda>c. c = CHR ''.'') r \<Longrightarrow> stops is_word_char r \<Longrightarrow> stops is_word_char (show_segs ws @ r)"
  by (cases ws) (auto simp: show_segs_def stops_def is_word_char_def is_lower_def is_digit_def)

lemma dotted_at_show:
  "list_all is_segment ws \<Longrightarrow> stops (\<lambda>c. c = CHR ''.'') r \<Longrightarrow> stops is_word_char r \<Longrightarrow>
     dotted_at (show_segs ws @ r) = (show_segs ws, r)"
proof (induction ws)
  case Nil
  then show ?case by (subst dotted_at.simps) (auto simp: show_segs_def stops_def split: list.splits)
next
  case (Cons w ws)
  then have "word_at (w @ show_segs ws @ r) = Some (w, show_segs ws @ r)"
    by (intro word_at_segment stops_dot_segs) simp_all
  with Cons show ?case
    by (subst dotted_at.simps) (simp add: show_segs_def)
qed

definition show_name :: "string \<Rightarrow> string option \<Rightarrow> string list \<Rightarrow> string" where
  \<comment> \<open>a namespace, an index, the dotted attributes\<close>
  "show_name w ix ws = w @ show_index ix @ show_segs ws"

definition name_ok :: "string \<Rightarrow> string option \<Rightarrow> string list \<Rightarrow> bool" where
  "name_ok w ix ws \<longleftrightarrow> is_segment w \<and> index_ok ix \<and> list_all is_segment ws"

lemma skip_ws_stops: "stops is_blank r \<Longrightarrow> skip_ws r = r"
  by (cases r) (auto simp: stops_def skip_ws_def)

lemma segment_no_blank: "is_segment w \<Longrightarrow> stops is_blank (w @ r)"
  by (cases w) (auto simp: stops_def is_blank_def is_lower_def)

definition pipe_next :: "string \<Rightarrow> bool" where
  "pipe_next r \<longleftrightarrow> r = [] \<or> (\<exists>cs. r = CHR ''|'' # cs)"

lemma pipe_next_stops:
  assumes "pipe_next r"
  shows "stops is_blank r" "stops is_word_char r" "stops is_bare r"
    "stops (\<lambda>c. c = CHR ''.'') r" "stops (\<lambda>c. c = CHR ''['') r"
  using assms
  by (auto simp: pipe_next_def stops_def is_blank_def is_word_char_def is_bare_def is_alnum_def is_lower_def
      is_upper_def is_digit_def)

lemma var_head_show: "name_ok w ix ws \<Longrightarrow> pipe_next r \<Longrightarrow> var_head (show_name w ix ws @ r) = Some (show_name w ix ws, r)"
proof -
  assume a: "name_ok w ix ws" "pipe_next r"
  note p = pipe_next_stops [OF a(2)]
  let ?d = "show_segs ws @ r"
  have d: "dotted_at ?d = (show_segs ws, r)" using a p by (intro dotted_at_show) (simp_all add: name_ok_def)
  have "stops (\<lambda>c. c = CHR ''['') ?d" using p(5) by (cases ws) (auto simp: show_segs_def stops_def)
  then have ix: "index_at (show_index ix @ ?d) = (show_index ix, ?d)" using a by (intro index_at_show) (simp_all add: name_ok_def)
  have "stops is_word_char (show_index ix @ ?d)"
    using stops_dot_segs [OF p(4,2)]
    by (cases ix) (auto simp: show_index_def stops_def is_word_char_def is_lower_def is_digit_def)
  then have "word_at (w @ show_index ix @ ?d) = Some (w, show_index ix @ ?d)"
    using a by (intro word_at_segment) (simp_all add: name_ok_def)
  moreover have "skip_ws (w @ show_index ix @ ?d) = w @ show_index ix @ ?d"
    using a segment_no_blank by (intro skip_ws_stops) (simp add: name_ok_def)
  ultimately show ?thesis using ix d skip_ws_stops [OF p(1)] by (simp add: var_head_def show_name_def)
qed

definition esc :: "char \<Rightarrow> string" where
  "esc c = (if c = CHR 0x5C \<or> c = CHR 0x22 then [CHR 0x5C, c]
            else if c = CHR 0x0A then [CHR 0x5C, CHR ''n''] else [c])"

definition show_arg :: "string \<Rightarrow> string" where
  "show_arg a = CHR 0x22 # concat (map esc a) @ [CHR 0x22]"

lemma quoted_show: "quoted (CHR 0x22) (concat (map esc a) @ CHR 0x22 # r) = Inr (a, r)"
  by (induction a) (auto simp: esc_def unescape_def)

fun show_args :: "string list \<Rightarrow> string" where
  "show_args [] = []"
| "show_args [a] = show_arg a"
| "show_args (a # b # as) = show_arg a @ CHR '','' # show_args (b # as)"

lemma arg_at_show: "arg_at (show_arg a @ r) = Inr (a, r)"
  using quoted_show by (simp add: arg_at_def show_arg_def skip_ws_def is_blank_def is_quote_def)

lemma parse_args_show:
  "as \<noteq> [] \<Longrightarrow> list_all (\<lambda>a. length a \<le> MAX_ARG_LEN) as \<Longrightarrow> pipe_next r \<Longrightarrow> parse_args (show_args as @ r) = Inr (as, r)"
proof (induction as rule: show_args.induct)
  case (2 a)
  then show ?case
    using skip_ws_stops [OF pipe_next_stops(1) [OF 2(3)]]
    by (subst parse_args.simps) (auto simp: arg_at_show pipe_next_def)
next
  case (3 a b as)
  then show ?case
    by (subst parse_args.simps) (simp add: arg_at_show skip_ws_def is_blank_def)
qed simp

definition show_filter :: "string \<times> string list \<Rightarrow> string" where
  "show_filter f = CHR ''|'' # fst f @ (if snd f = [] then [] else CHR '':'' # show_args (snd f))"

definition show_filters :: "(string \<times> string list) list \<Rightarrow> string" where
  "show_filters fs = concat (map show_filter fs)"

definition filter_ok :: "string \<times> string list \<Rightarrow> bool" where
  \<comment> \<open>a filter of the table, with as many arguments as it takes, none too long\<close>
  "filter_ok f =
     (case map_of FILTERS (fst f) of
        None \<Rightarrow> False
      | Some (lo, hi) \<Rightarrow> lo \<le> length (snd f) \<and> length (snd f) \<le> hi \<and>
          list_all (\<lambda>a. length a \<le> MAX_ARG_LEN) (snd f))"

lemma pipe_next_filters [simp]: "pipe_next (show_filters fs)"
  by (cases fs) (auto simp: show_filters_def pipe_next_def show_filter_def)

lemma table_names: "map_of FILTERS f = Some x \<Longrightarrow> is_segment f"
proof -
  have t: "list_all (\<lambda>p. is_segment (fst p)) FILTERS" by code_simp
  assume "map_of FILTERS f = Some x"
  then have "(f, x) \<in> set FILTERS" by (rule map_of_SomeD)
  with t show ?thesis by (auto simp: list_all_iff)
qed

lemma filter_loop_show:
  "list_all filter_ok fs \<Longrightarrow> n + length fs \<le> MAX_FILTERS \<Longrightarrow> (fs \<noteq> [] \<Longrightarrow> \<not> is_secret_name name) \<Longrightarrow>
     filter_loop name n (show_filters fs) = Inr fs"
proof (induction fs arbitrary: n)
  case Nil
  then show ?case by (subst filter_loop.simps) (simp add: show_filters_def)
next
  case (Cons f fs)
  obtain fname args where f: "f = (fname, args)" by force
  from Cons.prems f obtain lo hi where t: "map_of FILTERS fname = Some (lo, hi)" "lo \<le> length args" "length args \<le> hi"
    "list_all (\<lambda>a. length a \<le> MAX_ARG_LEN) args"
    by (auto simp: filter_ok_def split: option.splits)
  note seg = table_names [OF t(1)]
  let ?r = "show_filters fs"
  let ?a = "if args = [] then [] else CHR '':'' # show_args args"
  have "stops is_word_char (?a @ ?r)"
    using pipe_next_stops(2) [of ?r] by (auto simp: stops_def is_word_char_def is_lower_def is_digit_def)
  then have w: "word_at (fname @ ?a @ ?r) = Some (fname, ?a @ ?r)" using word_at_segment seg by blast
  have b: "skip_ws (fname @ ?a @ ?r) = fname @ ?a @ ?r" using segment_no_blank [OF seg] skip_ws_stops by blast
  have "stops is_blank (?a @ ?r)" using pipe_next_stops(1) [of ?r] by (auto simp: stops_def is_blank_def)
  then have b2: "skip_ws (?a @ ?r) = ?a @ ?r" by (rule skip_ws_stops)
  have fa: "filter_args (?a @ ?r) = Inr (args, ?r)"
  proof (cases "args = []")
    case True
    then show ?thesis using pipe_next_filters [of fs] by (auto simp: filter_args_def pipe_next_def)
  next
    case False
    with t(4) parse_args_show [of args ?r] show ?thesis by (simp add: filter_args_def)
  qed
  have "show_filters (f # fs) = CHR ''|'' # fname @ ?a @ ?r"
    by (simp add: f show_filters_def show_filter_def)
  moreover have "filter_loop name (Suc n) ?r = Inr fs" using Cons by simp
  moreover have "\<not> MAX_FILTERS < Suc n" "\<not> is_secret_name name" using Cons.prems by simp_all
  ultimately show ?case using w b b2 fa t f
    by (subst filter_loop.simps) (simp del: append_assoc add: append_assoc [symmetric])
qed

text \<open>
  Printing an expression and parsing it back gives the expression: for every name of
  the grammar and every chain of at most four filters of the table, with arguments of any
  characters up to the length limit, as long as a secret name has no filters.
\<close>

lemma parse_show_body:
  assumes "name_ok w ix ws" "list_all filter_ok fs" "length fs \<le> MAX_FILTERS"
    "fs \<noteq> [] \<longrightarrow> \<not> is_secret_name (show_name w ix ws)"
  shows "parse_body (show_name w ix ws @ show_filters fs) = Inr \<lparr>te_name = show_name w ix ws, te_filters = fs\<rparr>"
  using var_head_show [OF assms(1) pipe_next_filters] filter_loop_show [of fs 0] assms
  by (simp add: parse_body_def)

lemma parse_show_body_witness:
  "parse_body (show_name ''cpe'' (Some ''0'') [''mac''] @ show_filters [(''mac'', [''dash'']), (''replace'', [''a|b'', ''c'']) ]) =
     Inr \<lparr>te_name = ''cpe[0].mac'', te_filters = [(''mac'', [''dash'']), (''replace'', [''a|b'', ''c''])]\<rparr>"
proof -
  have "name_ok ''cpe'' (Some ''0'') [''mac'']"
    "list_all filter_ok [(''mac'', [''dash'']), (''replace'', [''a|b'', ''c''])]"
    "\<not> is_secret_name (show_name ''cpe'' (Some ''0'') [''mac''])"
    "show_name ''cpe'' (Some ''0'') [''mac''] = ''cpe[0].mac''" by code_simp+
  with parse_show_body [OF this(1,2)] show ?thesis by (simp add: MAX_FILTERS_def)
qed

section \<open>What the parser accepts\<close>

lemma parse_args_bound: "parse_args s = Inr (as, r) \<Longrightarrow> list_all (\<lambda>a. length a \<le> MAX_ARG_LEN) as"
proof (induction s arbitrary: as r rule: parse_args.induct)
  case (1 s)
  from "1.prems" obtain a t where a: "arg_at s = Inr (a, t)" and g: "length a \<le> MAX_ARG_LEN"
    and k: "(case skip_ws t of [] \<Rightarrow> Inr ([a], [])
       | c # cs \<Rightarrow> (if c = CHR '','' then bindR (parse_args cs) (\<lambda>(as, r'). Inr (a # as, r'))
               else if c \<noteq> CHR ''|'' then Inl (UnexpectedAfterArgument c)
               else Inr ([a], c # cs))) = Inr (as, r)"
    by (subst (asm) parse_args.simps) (auto simp: bindR_Inr_iff guardR_Inr_iff)
  show ?case
  proof (cases "skip_ws t")
    case Nil
    with k g show ?thesis by auto
  next
    case (Cons c cs)
    show ?thesis
    proof (cases "c = CHR '',''")
      case True
      with k Cons obtain as' where "parse_args cs = Inr (as', r)" "as = a # as'" by (auto simp: bindR_Inr_iff)
      with "1.IH" [OF a refl Cons True] g show ?thesis by simp
    next
      case False
      with k Cons g show ?thesis by (auto split: if_splits)
    qed
  qed
qed

lemma filter_args_bound: "filter_args s = Inr (as, r) \<Longrightarrow> list_all (\<lambda>a. length a \<le> MAX_ARG_LEN) as"
  by (auto simp: filter_args_def split: list.splits if_splits dest: parse_args_bound)

lemma filter_loop_sound:
  "filter_loop name n s = Inr fs \<Longrightarrow>
     list_all filter_ok fs \<and> (fs \<noteq> [] \<longrightarrow> n + length fs \<le> MAX_FILTERS \<and> \<not> is_secret_name name)"
proof (induction name n s arbitrary: fs rule: filter_loop.induct)
  case (1 name n s)
  show ?case
  proof (cases s)
    case Nil
    with "1.prems" show ?thesis by (subst (asm) filter_loop.simps) simp
  next
    case (Cons c cs)
    with "1.prems" obtain fname r lo hi args r1 fs' where
      c: "c = CHR ''|''" and w: "word_at (skip_ws cs) = Some (fname, r)"
      and t: "map_of FILTERS fname = Some (lo, hi)" and a: "filter_args (skip_ws r) = Inr (args, r1)"
      and g: "lo \<le> length args" "length args \<le> hi" "\<not> is_secret_name name" "Suc n \<le> MAX_FILTERS"
      and rec: "filter_loop name (Suc n) r1 = Inr fs'" and fs: "fs = (fname, args) # fs'"
      by (subst (asm) filter_loop.simps)
        (auto simp: bindR_Inr_iff guardR_Inr_iff split: if_splits option.splits)
    have "list_all filter_ok fs' \<and> (fs' \<noteq> [] \<longrightarrow> Suc n + length fs' \<le> MAX_FILTERS \<and> \<not> is_secret_name name)"
      using "1.IH" [OF Cons _ w refl t refl a refl rec] c by simp
    moreover have "filter_ok (fname, args)" using t g filter_args_bound [OF a] by (simp add: filter_ok_def)
    ultimately show ?thesis using fs g by (cases fs') auto
  qed
qed

text \<open>
  What the parser accepts is within the module's limits: at most four filters, each of
  the closed table, each with as many arguments as it takes and none longer than the limit,
  and none at all on a secret-named variable, so that a secret is only ever rendered
  verbatim and stays findable in a log.
\<close>

lemma parse_body_sound:
  assumes "parse_body b = Inr t"
  shows "length (te_filters t) \<le> MAX_FILTERS \<and> list_all filter_ok (te_filters t) \<and>
    (is_secret_name (te_name t) \<longrightarrow> te_filters t = [] \<and>
       run_chain (value_text vars (te_name t)) (te_filters t) = Inr (value_text vars (te_name t)))"
  using assms filter_loop_sound by (fastforce simp: parse_body_def bindR_Inr_iff split: option.splits)

lemma parse_body_sound_witness:
  "run_chain (value_text [(''input.wifi_password'', JStr ''a b'')] ''input.wifi_password'') [] = Inr (Some ''a b'')"
proof -
  have p: "parse_body ''input.wifi_password'' = Inr \<lparr>te_name = ''input.wifi_password'', te_filters = []\<rparr>"
    "is_secret_name ''input.wifi_password''"
    "value_text [(''input.wifi_password'', JStr ''a b'')] ''input.wifi_password'' = Some ''a b''" by code_simp+
  from parse_body_sound [OF p(1), of "[(''input.wifi_password'', JStr ''a b'')]"] p(2,3) show ?thesis by simp
qed

section \<open>What a rendered text is\<close>

definition chain_step :: "string \<times> string list \<Rightarrow> string option \<Rightarrow> template_error + string option" where
  \<comment> \<open>one filter on a value that may be missing\<close>
  "chain_step f v =
     (if fst f = ''default''
      then Inr (Some (case v of None \<Rightarrow> arg (snd f) 0
                     | Some x \<Rightarrow> if str_strip x = [] then arg (snd f) 0 else x))
      else (case v of None \<Rightarrow> Inr None | Some x \<Rightarrow> bindR (apply_filter x (fst f) (snd f)) (\<lambda>y. Inr (Some y))))"

fun chain_value :: "string option \<Rightarrow> (string \<times> string list) list \<Rightarrow> template_error + string option" where
  "chain_value v [] = Inr v"
| "chain_value v (f # fs) = bindR (chain_step f v) (\<lambda>w. chain_value w fs)"

lemma chain_value_missing: "\<not> list_ex (\<lambda>f. fst f = ''default'') fs \<Longrightarrow> chain_value None fs = Inr None"
  by (induction fs) (auto simp: chain_step_def)

lemma run_chain_value: "run_chain v fs = chain_value v fs"
proof (induction v fs rule: run_chain.induct)
  case (2 v fname args fs)
  then show ?case
    using chain_value_missing [of fs]
    by (auto simp: chain_step_def bindR_def split: option.splits sum.splits)
qed simp

definition token_value :: "dict \<Rightarrow> string \<Rightarrow> string option" where
  \<comment> \<open>the text a token stands for: its own when it is no expression and has no pipe\<close>
  "token_value vars b =
     (case parse_body b of
        Inl e \<Rightarrow> (if CHR ''|'' \<in> set b then None else Some (raw_token b))
      | Inr t \<Rightarrow> (case chain_value (value_text vars (te_name t)) (te_filters t) of Inr v \<Rightarrow> v | Inl e \<Rightarrow> None))"

lemma sub_token_value:
  "sub_token vars b = (case token_value vars b of Some v \<Rightarrow> v | None \<Rightarrow> raw_token b, snd (sub_token vars b)) \<and>
   (snd (sub_token vars b) = [] \<longleftrightarrow> token_value vars b \<noteq> None)"
  by (auto simp: sub_token_def token_value_def run_chain_value split: sum.splits option.splits)

text \<open>
  Rendering is one pass of substitution: every token is replaced by its value, which is
  the plain left-to-right fold of its filters (a missing value stays missing until a
  \<open>default\<close>), the text between tokens and a token without a value stay as they are, and
  there are no problems exactly when every token has a value. What a substituted value
  contains is never read as a token.
\<close>

lemma render_string_substitutes:
  "fst (render_string s vars) =
     concat (map (\<lambda>g. case g of Lit c \<Rightarrow> [c] | Tok b \<Rightarrow> (case token_value vars b of Some v \<Rightarrow> v | None \<Rightarrow> raw_token b)) (segments s)) \<and>
   (snd (render_string s vars) = [] \<longleftrightarrow> list_all (\<lambda>b. token_value vars b \<noteq> None) (token_bodies s))"
proof
  have "fst (sub_token vars b) = (case token_value vars b of Some v \<Rightarrow> v | None \<Rightarrow> raw_token b)" for b
    using sub_token_value [of vars b] by (metis fst_conv)
  then show "fst (render_string s vars) = concat (map (\<lambda>g. case g of Lit c \<Rightarrow> [c]
      | Tok b \<Rightarrow> (case token_value vars b of Some v \<Rightarrow> v | None \<Rightarrow> raw_token b)) (segments s))"
    by (simp add: render_string_def token_sub_def)
  show "snd (render_string s vars) = [] \<longleftrightarrow> list_all (\<lambda>b. token_value vars b \<noteq> None) (token_bodies s)"
    using sub_token_value [of vars] by (auto simp: render_string_def list_all_iff)
qed

text \<open>
  The save-time check does not see a wrong argument: a template whose argument is out of
  its filter's range has no static error, and fails for every value of its variable.
\<close>

lemma bad_argument_not_static:
  "find_template_errors ''{{a | truncate:0}}'' = [] \<and>
   render_string ''{{a | truncate:0}}'' [(''a'', JStr x)] =
     (''{{a | truncate:0}}'', [BadToken ''a | truncate:0'' (OutOfRange ''truncate'' 0)])"
proof -
  have p: "parse_body ''a | truncate:0'' = Inr \<lparr>te_name = ''a'', te_filters = [(''truncate'', [''0''])]\<rparr>"
    "segments ''{{a | truncate:0}}'' = [Tok ''a | truncate:0'']"
    "apply_filter y ''truncate'' [''0''] = Inl (OutOfRange ''truncate'' 0)" for y
  proof -
    show "parse_body ''a | truncate:0'' = Inr \<lparr>te_name = ''a'', te_filters = [(''truncate'', [''0''])]\<rparr>"
      "segments ''{{a | truncate:0}}'' = [Tok ''a | truncate:0'']" by code_simp+
    have "int_arg ''truncate'' ''0'' 1 512 = Inl (OutOfRange ''truncate'' 0)" by code_simp
    then show "apply_filter y ''truncate'' [''0''] = Inl (OutOfRange ''truncate'' 0)"
      by (simp add: apply_filter_def filter_fn_def f_truncate_def arg_def)
  qed
  then show ?thesis
    by (simp add: find_template_errors_def token_bodies_def render_string_def token_sub_def sub_token_def
        List.map_filter_def value_text_def dget_def raw_token_def dedup_def)
qed

section \<open>Reserved variables\<close>

lemma map_of_pass_through: "map_of (fold pass_through ps r) k = Some v \<Longrightarrow> map_of r k = Some v \<or> \<not> reserved k"
proof (induction ps arbitrary: r)
  case (Cons p ps)
  from Cons.IH [of "pass_through p r"] Cons.prems show ?case
    by (auto simp: pass_through_def map_add_def split: if_splits option.splits)
qed simp

lemma input_key_not_reserved: "\<not> reserved (input_key k)"
proof -
  have "prefix ''input.'' (input_key k)" by (auto simp: input_key_def INPUT_NAMESPACE_def)
  then obtain r where "input_key k = ''input.'' @ r" by (auto simp: prefix_def)
  then show ?thesis by (simp add: reserved_def RESERVED_PREFIXES_def)
qed

lemma merge_declared_keys:
  "merge_declared provided ds (r, m) = Inr (r', m') \<Longrightarrow> \<forall>k\<in>dom (map_of r). \<not> reserved k \<Longrightarrow>
     \<forall>k\<in>dom (map_of r'). \<not> reserved k"
proof (induction ds arbitrary: r m)
  case (Cons d ds)
  have dput: "\<forall>k\<in>dom (map_of (dput (input_key key) v r)). \<not> reserved k" for key v
    using Cons.prems(2) input_key_not_reserved by (auto simp: dput_def update_conv' split: if_splits)
  from Cons.prems(1) obtain key where "jget ''key'' d = JStr key" by (auto split: json.splits)
  with Cons.prems(1) obtain r1 m1 where "merge_declared provided ds (r1, m1) = Inr (r', m')"
    "r1 = r \<or> (\<exists>v. r1 = dput (input_key key) v r)"
    by (auto split: if_splits)
  with Cons.IH [OF this(1)] Cons.prems(2) dput show ?case by metis
qed simp

lemma eval_entry_keys:
  "eval_entry vars e st = Inr st' \<Longrightarrow> \<forall>k\<in>dom (map_of (ev_values st)). prefix ''computed.'' k \<Longrightarrow>
     \<forall>k\<in>dom (map_of (ev_values st')). prefix ''computed.'' k"
proof (cases rule: eval_entry_cases [of e vars st])
  case shape
  then show "eval_entry vars e st = Inr st' \<Longrightarrow> \<forall>k\<in>dom (map_of (ev_values st)). prefix ''computed.'' k \<Longrightarrow> ?thesis" by auto
next
  case (run key expr m r)
  assume a: "eval_entry vars e st = Inr st'" "\<forall>k\<in>dom (map_of (ev_values st)). prefix ''computed.'' k"
  consider v where "r = Inr (Some v)" | "r = Inr None" | x where "r = Inl x" by (cases r) auto
  then have "ev_values st' = ev_values st \<or> (\<exists>v. ev_values st' = AList.update (computed_name key) v (ev_values st))"
    using run a(1) by cases auto
  with a(2) show ?thesis by (auto simp: update_conv' computed_name_def split: if_splits)
qed

lemma eval_entries_keys:
  "eval_entries vars es st = Inr st' \<Longrightarrow> \<forall>k\<in>dom (map_of (ev_values st)). prefix ''computed.'' k \<Longrightarrow>
     \<forall>k\<in>dom (map_of (ev_values st')). prefix ''computed.'' k"
proof (induction es arbitrary: st)
  case (Cons e es)
  then show ?case using eval_entry_keys by (fastforce simp: bindR_Inr_iff)
qed simp

lemma evaluate_all_keys: "evaluate_all c vars = Inr st \<Longrightarrow> \<forall>k\<in>dom (map_of (ev_values st)). prefix ''computed.'' k"
  by (auto simp: evaluate_all_def init_eval_def split: if_splits dest!: eval_entries_keys)

text \<open>
  C38. A caller cannot place a value behind a reserved token: among the variables of a job,
  every \<open>computed.\<close>, \<open>capture.\<close>, \<open>secret.\<close> or \<open>acs.\<close> name is a computed one, and its value is the
  integer the declared block evaluated to, whatever the caller provided.
\<close>

theorem reserved_only_computed:
  assumes "resolve_variables definition provided = Inr (resolved, missing)" "reserved k"
    "map_of resolved k = Some v"
  shows "prefix ''computed.'' k \<and> (\<exists>vars st i. evaluate_all (jget ''computed'' definition) vars = Inr st \<and>
     v = JInt i \<and> (k, i) \<in> set (ev_values st))"
proof -
  from assms(1) obtain r m where md: "merge_declared provided (as_list (jget ''variables'' definition)) ([], []) = Inr (r, m)"
    and ca: "(case evaluate_all (jget ''computed'' definition) (map_of (fold pass_through provided r)) of
             Inl e \<Rightarrow> Inl (EvalExn e)
           | Inr st \<Rightarrow>
               Inr (dict_update (fold pass_through provided r) (map (\<lambda>(k, v). (k, JInt v)) (ev_values st)),
                    m @ map MissingKey (ev_missing st)
                      @ map (\<lambda>(c, k). ComputedError k c) (ev_errors st))) = Inr (resolved, missing)"
    unfolding resolve_variables_def Let_def by (fastforce simp: bindR_Inr_iff)
  then obtain st where ev: "evaluate_all (jget ''computed'' definition) (map_of (fold pass_through provided r)) = Inr st"
    and res: "resolved = dict_update (fold pass_through provided r) (map (\<lambda>(k, v). (k, JInt v)) (ev_values st))"
    by (cases "evaluate_all (jget ''computed'' definition) (map_of (fold pass_through provided r))") auto
  have "map_of (fold pass_through provided r) k = None"
    using map_of_pass_through [of provided r k] merge_declared_keys [OF md] assms(2)
    by (cases "map_of (fold pass_through provided r) k") auto
  with assms(3) have "map_of (rev (map (\<lambda>(k, v). (k, JInt v)) (ev_values st))) k = Some v"
    by (auto simp: res map_of_dict_update map_add_def split: option.splits)
  then obtain i where i: "(k, i) \<in> set (ev_values st)" "v = JInt i" by (auto dest!: map_of_SomeD)
  then have "k \<in> dom (map_of (ev_values st))" by (metis domIff fst_conv image_eqI map_of_eq_None_iff)
  with evaluate_all_keys [OF ev] i ev show ?thesis by blast
qed

lemma reserved_only_computed_witness:
  "case resolve_variables (JDict [(''computed'', JList [JDict [(''key'', JStr ''y''), (''expr'', JStr ''2 + 3'')]])])
     [(''computed.y'', JStr ''evil''), (''secret.k'', JStr ''evil'')] of
     Inr (resolved, missing) \<Rightarrow> resolved = [(''computed.y'', JInt 5)] \<and> prefix ''computed.'' ''computed.y''
   | Inl e \<Rightarrow> False"
proof -
  have r: "resolve_variables (JDict [(''computed'', JList [JDict [(''key'', JStr ''y''), (''expr'', JStr ''2 + 3'')]])])
     [(''computed.y'', JStr ''evil''), (''secret.k'', JStr ''evil'')] = Inr ([(''computed.y'', JInt 5)], [])"
    "reserved ''computed.y''" by code_simp+
  from reserved_only_computed [OF r(1,2)] r(1) show ?thesis by simp
qed

end
