(* ===== verification/Network_Graph.thy ===== *)
theory Network_Graph
  imports Prelude
begin

text \<open>
  \<open>utils/network_graph.py\<close>: the plant as a tree of inventory items joined by \<open>parent_id\<close>,
  its two bounded walks, the cycle check and the check of the port-to-port links; and the
  two guard triggers of \<open>alembic/versions/ng1_network_graph.py\<close> with the CHECK constraints
  beside them, which decide what trees there can be. A recursive CTE is a recursion with
  the depth it may still go as fuel; \<open>UNION ALL\<close> keeps duplicates, as the walk does.
\<close>

section \<open>Rows\<close>

record node =
  nd_id :: nat
  nd_company :: nat
  nd_parent :: "nat option"
  nd_attached :: bool

type_synonym net = "node list"

definition get_node :: "nat \<Rightarrow> net \<Rightarrow> node option" where "get_node i net = find_by nd_id i net"
definition put_node :: "node \<Rightarrow> net \<Rightarrow> net" where "put_node n net = put_by nd_id n net"

interpretation nodes: row_store nd_id get_node put_node
  by unfold_locales (auto simp: get_node_def put_node_def dest: find_by_SomeD)

definition MAX_PATH_DEPTH :: nat where "MAX_PATH_DEPTH = 32"

datatype graph_error =
    PATH_TOO_DEEP
  | SELF_PARENT | PARENT_NOT_FOUND | CROSS_TENANT | PARENT_DETACHED | GRAPH_CYCLE | GRAPH_TOO_DEEP
  | HAS_CHILDREN | CHECK_VIOLATION | NO_SUCH_ROW

section \<open>The walks\<close>

definition owned :: "net \<Rightarrow> nat \<Rightarrow> nat \<Rightarrow> node option" where
  \<comment> \<open>the row with the id, filtered by company\<close>
  "owned net c i =
     (case get_node i net of None \<Rightarrow> None | Some n \<Rightarrow> if nd_company n = c then Some n else None)"

fun ancestor_rows :: "net \<Rightarrow> nat \<Rightarrow> nat \<Rightarrow> node \<Rightarrow> node list" where
  \<comment> \<open>the row and, at most \<open>k\<close> levels up, its ancestors, by depth\<close>
  "ancestor_rows net c 0 n = [n]"
| "ancestor_rows net c (Suc k) n =
     n # (case Option.bind (nd_parent n) (owned net c) of
            None \<Rightarrow> [] | Some m \<Rightarrow> ancestor_rows net c k m)"

definition ancestor_cte :: "net \<Rightarrow> nat \<Rightarrow> nat \<Rightarrow> node list" where
  \<comment> \<open>the anchor must be attached\<close>
  "ancestor_cte net i c =
     (case owned net c i of
        None \<Rightarrow> []
      | Some n \<Rightarrow> if nd_attached n then ancestor_rows net c MAX_PATH_DEPTH n else [])"

definition below :: "net \<Rightarrow> nat \<Rightarrow> node \<Rightarrow> node list" where
  "below net c n = filter (\<lambda>m. nd_parent m = Some (nd_id n) \<and> nd_company m = c) net"

fun descendant_rows :: "net \<Rightarrow> nat \<Rightarrow> nat \<Rightarrow> node list \<Rightarrow> node list" where
  \<comment> \<open>the levels under a level, nearest first\<close>
  "descendant_rows net c 0 level = []"
| "descendant_rows net c (Suc k) level =
     (let next = concat (map (below net c) level) in next @ descendant_rows net c k next)"

definition ordered_items :: "net \<Rightarrow> nat list \<Rightarrow> node list" where
  "ordered_items net ids = List.map_filter (\<lambda>i. get_node i net) ids"

definition resolve_path :: "net \<Rightarrow> nat \<Rightarrow> nat \<Rightarrow> graph_error + node list" where
  "resolve_path net i c =
     (let rows = ancestor_cte net i c
      in guardR (MAX_PATH_DEPTH < length rows) PATH_TOO_DEEP (Inr (ordered_items net (map nd_id rows))))"

definition descendants :: "net \<Rightarrow> nat \<Rightarrow> nat \<Rightarrow> node list" where
  "descendants net i c =
     (case owned net c i of
        None \<Rightarrow> []
      | Some n \<Rightarrow> ordered_items net (map nd_id (descendant_rows net c MAX_PATH_DEPTH [n])))"

definition would_create_cycle :: "net \<Rightarrow> nat \<Rightarrow> nat \<Rightarrow> nat \<Rightarrow> bool" where
  "would_create_cycle net i p c \<longleftrightarrow> i = p \<or> i \<in> nd_id ` set (ancestor_cte net p c)"

definition child_count :: "net \<Rightarrow> nat \<Rightarrow> nat \<Rightarrow> nat" where
  "child_count net i c = length (filter (\<lambda>m. nd_parent m = Some i \<and> nd_company m = c) net)"

section \<open>The links\<close>

record port =
  pt_id :: nat
  pt_item :: nat
  pt_company :: nat

record link =
  lk_id :: nat
  lk_company :: nat
  lk_up_item :: nat
  lk_up_port :: nat
  lk_down_item :: nat
  lk_down_port :: "nat option"

datatype link_problem =
    ParentMismatch nat "nat option" | DownCompany nat "nat option"
  | UpPort nat "(nat \<times> nat) option" | DownPort nat "(nat \<times> nat) option"

definition port_at :: "port list \<Rightarrow> nat option \<Rightarrow> (nat \<times> nat) option" where
  \<comment> \<open>the outer join: the port's item and company, or nulls\<close>
  "port_at ports p = map_option (\<lambda>q. (pt_item q, pt_company q)) (Option.bind p (\<lambda>i. find_by pt_id i ports))"

definition link_problems :: "net \<Rightarrow> port list \<Rightarrow> link \<Rightarrow> link_problem list" where
  "link_problems net ports l =
     (let down = get_node (lk_down_item l) net;
          parent = Option.bind down nd_parent;
          up = port_at ports (Some (lk_up_port l));
          dp = port_at ports (lk_down_port l)
      in (if parent \<noteq> Some (lk_up_item l) then [ParentMismatch (lk_id l) parent] else [])
         @ (if map_option nd_company down \<noteq> Some (lk_company l) then [DownCompany (lk_id l) (map_option nd_company down)] else [])
         @ (if up \<noteq> Some (lk_up_item l, lk_company l) then [UpPort (lk_id l) up] else [])
         @ (if lk_down_port l \<noteq> None \<and> dp \<noteq> Some (lk_down_item l, lk_company l) then [DownPort (lk_id l) dp] else []))"

definition assert_links_consistent :: "net \<Rightarrow> port list \<Rightarrow> link list \<Rightarrow> link_problem list + unit" where
  "assert_links_consistent net ports links =
     (let problems = concat (map (link_problems net ports) links)
      in guardR (problems \<noteq> []) problems (Inr ()))"

section \<open>The guards\<close>

definition graph_guard :: "net \<Rightarrow> node \<Rightarrow> graph_error + unit" where
  \<comment> \<open>\<open>inventory_item_graph_guard()\<close> for the row \<open>NEW\<close>, against the table as it was\<close>
  "graph_guard net new =
     (case nd_parent new of
        None \<Rightarrow> Inr ()
      | Some p \<Rightarrow>
          guardR (p = nd_id new) SELF_PARENT
            (case get_node p net of
               None \<Rightarrow> Inl PARENT_NOT_FOUND
             | Some m \<Rightarrow>
                 guardR (nd_company m \<noteq> nd_company new) CROSS_TENANT
                   (guardR (\<not> nd_attached m) PARENT_DETACHED
                     (let anc = ancestor_rows net (nd_company new) (MAX_PATH_DEPTH - 1) m
                      in guardR (nd_id new \<in> nd_id ` set anc) GRAPH_CYCLE
                           (guardR (MAX_PATH_DEPTH \<le> length anc) GRAPH_TOO_DEEP (Inr ()))))))"

definition detach_guard :: "net \<Rightarrow> node \<Rightarrow> node \<Rightarrow> graph_error + unit" where
  \<comment> \<open>\<open>inventory_item_detach_guard()\<close> for the rows \<open>OLD\<close> and \<open>NEW\<close>\<close>
  "detach_guard net old new =
     guardR (nd_attached old \<and> \<not> nd_attached new \<and> list_ex (\<lambda>m. nd_parent m = Some (nd_id old)) net)
       HAS_CHILDREN (Inr ())"

definition row_checks :: "node \<Rightarrow> graph_error + unit" where
  \<comment> \<open>\<open>ck_inventory_item_parent_attached\<close>, \<open>ck_inventory_item_not_self_parent\<close>\<close>
  "row_checks n = guardR (nd_parent n \<noteq> None \<and> \<not> nd_attached n \<or> nd_parent n = Some (nd_id n)) CHECK_VIOLATION (Inr ())"

definition insert_node :: "node \<Rightarrow> net \<Rightarrow> graph_error + net" where
  "insert_node n net =
     guardR (get_node (nd_id n) net \<noteq> None) CHECK_VIOLATION
       (bindR (graph_guard net n) (\<lambda>_. bindR (row_checks n) (\<lambda>_. Inr (net @ [n]))))"

definition update_node :: "nat \<Rightarrow> nat option option \<Rightarrow> bool option \<Rightarrow> net \<Rightarrow> graph_error + net" where
  \<comment> \<open>\<open>UPDATE\<close> of the parent, of the flag, or of both; each trigger fires for its column\<close>
  "update_node i parent attached net =
     (case get_node i net of
        None \<Rightarrow> Inl NO_SUCH_ROW
      | Some old \<Rightarrow>
          (let new = old\<lparr>nd_parent := (case parent of None \<Rightarrow> nd_parent old | Some p \<Rightarrow> p),
                         nd_attached := (case attached of None \<Rightarrow> nd_attached old | Some a \<Rightarrow> a)\<rparr>
           in bindR (if attached \<noteq> None then detach_guard net old new else Inr ()) (\<lambda>_.
              bindR (if parent \<noteq> None then graph_guard net new else Inr ()) (\<lambda>_.
              bindR (row_checks new) (\<lambda>_. Inr (put_node new net))))))"

definition delete_node :: "nat \<Rightarrow> net \<Rightarrow> graph_error + net" where
  \<comment> \<open>\<open>ondelete="RESTRICT"\<close>\<close>
  "delete_node i net =
     guardR (list_ex (\<lambda>m. nd_parent m = Some i) net) HAS_CHILDREN (Inr (filter (\<lambda>n. nd_id n \<noteq> i) net))"

inductive grows :: "net \<Rightarrow> bool" where
  empty: "grows []"
| insert: "grows net \<Longrightarrow> insert_node n net = Inr net' \<Longrightarrow> grows net'"
| update: "grows net \<Longrightarrow> update_node i parent attached net = Inr net' \<Longrightarrow> grows net'"
| delete: "grows net \<Longrightarrow> delete_node i net = Inr net' \<Longrightarrow> grows net'"

section \<open>The tree the guards keep\<close>

definition edges :: "net \<Rightarrow> (nat \<times> nat) set" where
  "edges net = {(i, p). \<exists>n \<in> set net. nd_id n = i \<and> nd_parent n = Some p}"

definition hangs_well :: "net \<Rightarrow> node \<Rightarrow> bool" where
  "hangs_well net n \<longleftrightarrow>
     (case nd_parent n of
        None \<Rightarrow> True
      | Some p \<Rightarrow> nd_attached n \<and> (case get_node p net of None \<Rightarrow> False | Some m \<Rightarrow> nd_company m = nd_company n \<and> nd_attached m))"

definition graph_ok :: "net \<Rightarrow> bool" where
  "graph_ok net \<longleftrightarrow> distinct (map nd_id net) \<and> (\<forall>n \<in> set net. hangs_well net n) \<and> acyclic (edges net)"

lemma get_nodeD: "get_node i net = Some n \<Longrightarrow> n \<in> set net \<and> nd_id n = i"
  unfolding get_node_def by (rule find_by_SomeD)

lemma get_node_in: "distinct (map nd_id net) \<Longrightarrow> n \<in> set net \<Longrightarrow> get_node (nd_id n) net = Some n"
  by (simp add: get_node_def find_by_unique)

lemma graph_ok_parent:
  assumes "graph_ok net" "n \<in> set net" "nd_parent n = Some p"
  obtains m where "get_node p net = Some m" "m \<in> set net" "nd_id m = p" "nd_company m = nd_company n" "nd_attached m"
    "owned net (nd_company n) p = Some m"
proof -
  from assms have "hangs_well net n" by (simp add: graph_ok_def)
  with assms(3) obtain m where m: "get_node p net = Some m" "nd_company m = nd_company n" "nd_attached m"
    by (auto simp: hangs_well_def split: option.splits)
  with get_nodeD [OF m(1)] show thesis by (intro that [of m]) (auto simp: owned_def)
qed

lemma edges_step:
  "graph_ok net \<Longrightarrow> m \<in> set net \<Longrightarrow> (nd_id m, q) \<in> edges net \<Longrightarrow> nd_parent m = Some q"
proof -
  assume a: "graph_ok net" "m \<in> set net" "(nd_id m, q) \<in> edges net"
  then obtain n where n: "n \<in> set net" "nd_id n = nd_id m" "nd_parent n = Some q" by (auto simp: edges_def)
  have "distinct (map nd_id net)" using a(1) by (simp add: graph_ok_def)
  from get_node_in [OF this n(1)] get_node_in [OF this a(2)] n(2,3) show ?thesis by (metis option.inject)
qed

lemma walk_meets:
  assumes "graph_ok net" "m \<in> set net" "(nd_id m, j) \<in> (edges net)^*"
  shows "j \<in> nd_id ` set (ancestor_rows net (nd_company m) k m) \<or>
    length (ancestor_rows net (nd_company m) k m) = Suc k"
  using assms
proof (induction k arbitrary: m)
  case (Suc k)
  show ?case
  proof (cases "j = nd_id m")
    case False
    then obtain q where q: "(nd_id m, q) \<in> edges net" "(q, j) \<in> (edges net)^*"
      using Suc.prems(3) by (metis converse_rtranclE)
    then have p: "nd_parent m = Some q" using edges_step Suc.prems by blast
    from Suc.prems(1,2) p obtain m' where m': "m' \<in> set net" "nd_id m' = q" "nd_company m' = nd_company m"
      "owned net (nd_company m) q = Some m'" by (rule graph_ok_parent)
    from Suc.IH [OF Suc.prems(1) m'(1)] q(2) m' p show ?thesis by auto
  qed simp
qed simp

lemma graph_guard_ok:
  "graph_guard net new = Inr () \<longleftrightarrow>
     (case nd_parent new of None \<Rightarrow> True
      | Some p \<Rightarrow> p \<noteq> nd_id new \<and>
          (case get_node p net of None \<Rightarrow> False
           | Some m \<Rightarrow> nd_company m = nd_company new \<and> nd_attached m \<and>
               nd_id new \<notin> nd_id ` set (ancestor_rows net (nd_company new) 31 m) \<and>
               length (ancestor_rows net (nd_company new) 31 m) < 32))"
  by (auto simp: graph_guard_def guardR_Inr_iff MAX_PATH_DEPTH_def Let_def split: option.splits)

lemma row_checks_ok: "row_checks n = Inr () \<longleftrightarrow> (nd_parent n = None \<or> nd_attached n) \<and> nd_parent n \<noteq> Some (nd_id n)"
  by (auto simp: row_checks_def guardR_Inr_iff)

lemma guard_acyclic:
  assumes "graph_ok net" "graph_guard net new = Inr ()" "nd_parent new = Some p"
  shows "(p, nd_id new) \<notin> (edges net)^*"
proof
  assume r: "(p, nd_id new) \<in> (edges net)^*"
  from assms(2,3) obtain m where m: "get_node p net = Some m" "nd_company m = nd_company new"
    "nd_id new \<notin> nd_id ` set (ancestor_rows net (nd_company new) 31 m)"
    "length (ancestor_rows net (nd_company new) 31 m) < 32"
    by (auto simp: graph_guard_ok split: option.splits)
  with walk_meets [OF assms(1), of m "nd_id new" 31] get_nodeD [OF m(1)] r show False by auto
qed

lemma insert_node_graph_ok:
  assumes "graph_ok net" "insert_node n net = Inr net'"
  shows "graph_ok net'"
proof -
  from assms(2) have i: "nd_id n \<notin> nd_id ` set net" and g: "graph_guard net n = Inr ()" and c: "row_checks n = Inr ()"
    and net': "net' = net @ [n]"
    by (auto simp: insert_node_def guardR_Inr_iff bindR_Inr_iff get_node_def find_by_None)
  have get: "get_node q net' = (if q = nd_id n then Some n else get_node q net)" for q
  proof (cases "find_by nd_id q net")
    case None
    then show ?thesis by (simp add: net' get_node_def find_by_append)
  next
    case (Some r)
    with i find_by_SomeD [OF Some] have "q \<noteq> nd_id n" by (metis image_eqI)
    with Some show ?thesis by (simp add: net' get_node_def find_by_append)
  qed
  have "hangs_well net' m" if "m \<in> set net" for m
  proof -
    from that assms(1) have "hangs_well net m" by (simp add: graph_ok_def)
    moreover have "get_node (nd_id n) net = None" using i by (simp add: get_node_def find_by_None)
    ultimately show ?thesis by (cases "nd_parent m") (auto simp: hangs_well_def get split: option.splits)
  qed
  moreover have "hangs_well net' n"
    using g c by (auto simp: graph_guard_ok row_checks_ok hangs_well_def get split: option.splits)
  moreover have "acyclic (edges net')"
  proof (cases "nd_parent n")
    case None
    then have "edges net' = edges net" by (auto simp: edges_def net')
    with assms(1) show ?thesis by (simp add: graph_ok_def)
  next
    case (Some p)
    then have "edges net' = insert (nd_id n, p) (edges net)" by (auto simp: edges_def net')
    with assms(1) guard_acyclic [OF assms(1) g Some] show ?thesis by (simp add: graph_ok_def)
  qed
  ultimately show ?thesis using assms(1) i by (auto simp: graph_ok_def net')
qed

lemma delete_node_graph_ok:
  assumes "graph_ok net" "delete_node i net = Inr net'"
  shows "graph_ok net'"
proof -
  from assms(2) have l: "\<forall>m \<in> set net. nd_parent m \<noteq> Some i" and net': "net' = filter (\<lambda>n. nd_id n \<noteq> i) net"
    by (auto simp: delete_node_def guardR_Inr_iff list_ex_iff)
  have get: "get_node q net' = (if q = i then None else get_node q net)" for q
    unfolding net' get_node_def by (induction net) auto
  have "hangs_well net' m" if "m \<in> set net'" for m
  proof -
    from that assms(1) have "hangs_well net m" "nd_parent m \<noteq> Some i" using l by (auto simp: graph_ok_def net')
    then show ?thesis by (cases "nd_parent m") (auto simp: hangs_well_def get)
  qed
  moreover have "edges net' \<subseteq> edges net" by (auto simp: edges_def net')
  ultimately show ?thesis using assms(1) acyclic_subset by (auto simp: graph_ok_def net' distinct_map_filter)
qed

lemma put_node_graph_ok:
  assumes ok: "graph_ok net" and old: "get_node i net = Some old"
    and new: "nd_id new = i" "nd_company new = nd_company old" "hangs_well net new"
    and keep: "nd_attached new \<or> (\<forall>m \<in> set net. nd_parent m \<noteq> Some i)"
    and acy: "acyclic (edges (put_node new net))" and self: "nd_parent new \<noteq> Some i"
  shows "graph_ok (put_node new net)"
proof -
  have get: "get_node q (put_node new net) = (if q = i then Some new else get_node q net)" for q
    using nodes.get_put [of q new net] old new(1) by auto
  have "hangs_well (put_node new net) m" if m: "m \<in> set (put_node new net)" for m
  proof (cases "m = new")
    case True
    with new(3) self show ?thesis by (cases "nd_parent new") (auto simp: hangs_well_def get)
  next
    case False
    with m have "m \<in> set net" by (auto simp: put_node_def put_by_def split: if_splits)
    with ok have h: "hangs_well net m" by (simp add: graph_ok_def)
    show ?thesis
    proof (cases "nd_parent m = Some i")
      case True
      with keep \<open>m \<in> set net\<close> h old new(2) show ?thesis by (auto simp: hangs_well_def get)
    next
      case False
      with h show ?thesis by (cases "nd_parent m") (auto simp: hangs_well_def get)
    qed
  qed
  with ok acy show ?thesis by (simp add: graph_ok_def put_node_def)
qed

lemma edges_put: "edges (put_node new net) \<subseteq> edges net \<union> (case nd_parent new of None \<Rightarrow> {} | Some p \<Rightarrow> {(nd_id new, p)})"
  by (auto simp: edges_def put_node_def put_by_def split: option.splits)

lemma edges_put_same: "get_node (nd_id new) net = Some old \<Longrightarrow> nd_parent new = nd_parent old \<Longrightarrow> edges (put_node new net) \<subseteq> edges net"
  by (cases "nd_parent old") (auto simp: edges_def put_node_def put_by_def dest!: get_nodeD)

lemma update_node_graph_ok:
  assumes ok: "graph_ok net" and u: "update_node i parent attached net = Inr net'"
  shows "graph_ok net'"
proof -
  from u obtain old where old: "get_node i net = Some old" by (auto simp: update_node_def split: option.splits)
  define new where "new = old\<lparr>nd_parent := (case parent of None \<Rightarrow> nd_parent old | Some p \<Rightarrow> p),
                         nd_attached := (case attached of None \<Rightarrow> nd_attached old | Some a \<Rightarrow> a)\<rparr>"
  note o = get_nodeD [OF old]
  have n: "nd_id new = i" "nd_company new = nd_company old" using o by (simp_all add: new_def)
  from u old have d: "attached \<noteq> None \<Longrightarrow> detach_guard net old new = Inr ()"
    and g: "parent \<noteq> None \<Longrightarrow> graph_guard net new = Inr ()"
    and c: "row_checks new = Inr ()" and net': "net' = put_node new net"
    by (auto simp: update_node_def new_def [symmetric] Let_def bindR_Inr_iff)
  have same: "nd_parent new = nd_parent old" if "parent = None" using that by (simp add: new_def)
  have h: "hangs_well net new"
  proof (cases "parent = None")
    case True
    have "hangs_well net old" using ok o by (simp add: graph_ok_def)
    with c show ?thesis
      by (cases "nd_parent old") (auto simp: hangs_well_def row_checks_ok same [OF True] n(2) split: option.splits)
  next
    case False
    with g c show ?thesis by (cases "nd_parent new") (auto simp: hangs_well_def graph_guard_ok row_checks_ok split: option.splits)
  qed
  have keep: "nd_attached new \<or> (\<forall>m \<in> set net. nd_parent m \<noteq> Some i)"
  proof (cases "attached = None")
    case True
    have "\<forall>m \<in> set net. nd_parent m = Some i \<longrightarrow> nd_attached old"
      using ok old by (fastforce elim: graph_ok_parent)
    with True show ?thesis by (auto simp: new_def)
  next
    case False
    have "\<forall>m \<in> set net. nd_parent m = Some i \<longrightarrow> nd_attached old"
      using ok old by (fastforce elim: graph_ok_parent)
    with False d o show ?thesis by (auto simp: detach_guard_def guardR_Inr_iff list_ex_iff)
  qed
  have acy: "acyclic (edges (put_node new net))"
  proof (cases "parent = None \<or> nd_parent new = None")
    case True
    then have "edges (put_node new net) \<subseteq> edges net"
      using edges_put_same [of new net old] edges_put [of new net] old n same by auto
    with ok show ?thesis by (auto simp: graph_ok_def intro: acyclic_subset)
  next
    case False
    then obtain p where p: "nd_parent new = Some p" by auto
    have "acyclic (insert (i, p) (edges net))"
      using ok guard_acyclic [OF ok g p] False n by (simp add: graph_ok_def)
    with edges_put [of new net] p n show ?thesis by (auto intro: acyclic_subset)
  qed
  show ?thesis unfolding net' by (rule put_node_graph_ok [OF ok old n h keep acy]) (use c n in \<open>simp add: row_checks_ok\<close>)
qed

lemma grows_graph_ok: "grows net \<Longrightarrow> graph_ok net"
  by (induction rule: grows.induct)
    (auto simp: graph_ok_def [of "[]"] edges_def acyclic_def intro: insert_node_graph_ok update_node_graph_ok delete_node_graph_ok)

section \<open>Paths\<close>

fun is_path :: "net \<Rightarrow> node \<Rightarrow> node list \<Rightarrow> bool" where
  \<comment> \<open>the node, its parent, and so on, up to a node without one\<close>
  "is_path net n [] = False"
| "is_path net n (m # ms) \<longleftrightarrow>
     m = n \<and> (case nd_parent n of None \<Rightarrow> ms = [] | Some p \<Rightarrow> (case get_node p net of None \<Rightarrow> False | Some q \<Rightarrow> is_path net q ms))"

lemma graph_ok_wf: "graph_ok net \<Longrightarrow> wf ((edges net)\<inverse>)"
proof -
  assume ok: "graph_ok net"
  have "edges net \<subseteq> (\<lambda>n. (nd_id n, the (nd_parent n))) ` set net" by (force simp: edges_def)
  then have "finite (edges net)" by (rule finite_subset) simp
  with ok show ?thesis by (simp add: graph_ok_def finite_acyclic_wf_converse)
qed

lemma path_exists:
  assumes ok: "graph_ok net"
  shows "n \<in> set net \<Longrightarrow> \<exists>path. is_path net n path"
proof (induction "nd_id n" arbitrary: n rule: wf_induct_rule [OF graph_ok_wf [OF ok]])
  case (1 n)
  show ?case
  proof (cases "nd_parent n")
    case None
    then have "is_path net n [n]" by simp
    then show ?thesis by blast
  next
    case (Some p)
    from ok "1.prems" Some obtain m where m: "get_node p net = Some m" "m \<in> set net" "nd_id m = p"
      by (rule graph_ok_parent)
    have "(nd_id n, p) \<in> edges net" using "1.prems" Some by (auto simp: edges_def)
    with "1.hyps" [of m] m obtain path where "is_path net m path" by auto
    with m Some have "is_path net n (n # path)" by simp
    then show ?thesis by blast
  qed
qed

lemma path_unique: "is_path net n path \<Longrightarrow> is_path net n path' \<Longrightarrow> path = path'"
proof (induction path arbitrary: n path')
  case (Cons m ms)
  then show ?case by (cases path') (auto split: option.splits)
qed simp

lemma path_rows:
  "graph_ok net \<Longrightarrow> n \<in> set net \<Longrightarrow> is_path net n path \<Longrightarrow> ancestor_rows net (nd_company n) k n = take (Suc k) path"
proof (induction k arbitrary: n path)
  case 0
  then show ?case by (cases path) auto
next
  case (Suc k)
  from Suc.prems(3) obtain ms where p: "path = n # ms" by (cases path) auto
  show ?case
  proof (cases "nd_parent n")
    case None
    with Suc.prems p show ?thesis by simp
  next
    case (Some q)
    from Suc.prems(1,2) Some obtain m where m: "get_node q net = Some m" "m \<in> set net" "nd_company m = nd_company n"
      "owned net (nd_company n) q = Some m" by (rule graph_ok_parent)
    with Suc.prems(3) p Some have "is_path net m ms" by simp
    from Suc.IH [OF Suc.prems(1) m(2) this] m Some p show ?thesis by simp
  qed
qed

lemma path_in:
  "graph_ok net \<Longrightarrow> n \<in> set net \<Longrightarrow> is_path net n path \<Longrightarrow> set path \<subseteq> set net \<and> nd_company ` set path = {nd_company n}"
proof (induction path arbitrary: n)
  case (Cons m ms)
  show ?case
  proof (cases "nd_parent n")
    case None
    with Cons.prems show ?thesis by simp
  next
    case (Some q)
    from Cons.prems(1,2) Some obtain m' where m: "get_node q net = Some m'" "m' \<in> set net" "nd_company m' = nd_company n"
      by (rule graph_ok_parent)
    with Cons.prems(3) Some have "is_path net m' ms" "m = n" by simp_all
    from Cons.IH [OF Cons.prems(1) m(2) this(1)] this m Cons.prems(2) show ?thesis by auto
  qed
qed simp

lemma path_edges: "graph_ok net \<Longrightarrow> n \<in> set net \<Longrightarrow> is_path net n path \<Longrightarrow> m \<in> set (tl path) \<Longrightarrow> (nd_id n, nd_id m) \<in> (edges net)^+"
proof (induction path arbitrary: n)
  case (Cons x ms)
  show ?case
  proof (cases "nd_parent n")
    case None
    with Cons.prems show ?thesis by simp
  next
    case (Some q)
    from Cons.prems(1,2) Some obtain m' where m: "get_node q net = Some m'" "m' \<in> set net" "nd_id m' = q"
      by (rule graph_ok_parent)
    have e: "(nd_id n, nd_id m') \<in> edges net" using Cons.prems(2) Some m by (auto simp: edges_def)
    from m Cons.prems(3) Some have p: "is_path net m' ms" by simp
    then obtain ms' where ms: "ms = m' # ms'" by (cases ms) auto
    show ?thesis
    proof (cases "m = m'")
      case False
      with Cons.prems(4) ms have "m \<in> set (tl ms)" by simp
      from Cons.IH [OF Cons.prems(1) m(2) p this] e show ?thesis by (rule trancl_into_trancl2 [rotated])
    qed (use e in auto)
  qed
qed simp

lemma path_distinct: "graph_ok net \<Longrightarrow> n \<in> set net \<Longrightarrow> is_path net n path \<Longrightarrow> distinct (map nd_id path)"
proof (induction path arbitrary: n)
  case (Cons x ms)
  have "nd_id x \<notin> nd_id ` set ms"
  proof
    assume "nd_id x \<in> nd_id ` set ms"
    then obtain y where "y \<in> set ms" "nd_id y = nd_id n" using Cons.prems(3) by auto
    with path_edges [OF Cons.prems(1-3), of y] have "(nd_id n, nd_id n) \<in> (edges net)^+" by simp
    with Cons.prems(1) show False by (auto simp: graph_ok_def acyclic_def)
  qed
  moreover have "distinct (map nd_id ms)"
  proof (cases "nd_parent n")
    case (Some q)
    from Cons.prems(1,2) Some obtain m' where m: "get_node q net = Some m'" "m' \<in> set net" by (rule graph_ok_parent)
    with Cons.prems(3) Some Cons.IH [OF Cons.prems(1) m(2)] show ?thesis by simp
  qed (use Cons.prems in simp)
  ultimately show ?case by simp
qed simp

lemma ordered_items_in: "distinct (map nd_id net) \<Longrightarrow> set ns \<subseteq> set net \<Longrightarrow> ordered_items net (map nd_id ns) = ns"
  by (induction ns) (auto simp: ordered_items_def map_filter_simps get_node_in)

lemma owned_self: "graph_ok net \<Longrightarrow> n \<in> set net \<Longrightarrow> owned net (nd_company n) (nd_id n) = Some n"
  using get_node_in [of net n] by (simp add: graph_ok_def owned_def)

lemma resolve_path_eq:
  assumes "graph_ok net" "n \<in> set net" "nd_attached n" "is_path net n path"
  shows "resolve_path net (nd_id n) (nd_company n) = (if length path \<le> 32 then Inr path else Inl PATH_TOO_DEEP)"
proof -
  have r: "ancestor_cte net (nd_id n) (nd_company n) = take 33 path"
    using owned_self [OF assms(1,2)] assms(3) path_rows [OF assms(1,2,4), of 32]
    by (simp add: ancestor_cte_def MAX_PATH_DEPTH_def)
  have "ordered_items net (map nd_id path) = path"
    using path_in [OF assms(1,2,4)] assms(1) by (intro ordered_items_in) (simp_all add: graph_ok_def)
  then show ?thesis by (simp add: resolve_path_def r MAX_PATH_DEPTH_def guardR_def)
qed

fun up :: "net \<Rightarrow> nat \<Rightarrow> nat \<Rightarrow> node \<Rightarrow> node option" where
  \<comment> \<open>the ancestor so many levels up\<close>
  "up net c 0 m = Some m"
| "up net c (Suc d) m = Option.bind (Option.bind (nd_parent m) (owned net c)) (up net c d)"

lemma up_Suc: "up net c (Suc d) m = Option.bind (up net c d m) (\<lambda>a. Option.bind (nd_parent a) (owned net c))"
proof (induction d arbitrary: m)
  case 0
  then show ?case by (cases "Option.bind (nd_parent m) (owned net c)") auto
next
  case (Suc d)
  show ?case
  proof (cases "Option.bind (nd_parent m) (owned net c)")
    case (Some a)
    with Suc [of a] show ?thesis by simp
  qed simp
qed

lemma below_iff:
  "graph_ok net \<Longrightarrow> n \<in> set net \<Longrightarrow> nd_company n = c \<Longrightarrow>
     m \<in> set (below net c n) \<longleftrightarrow> m \<in> set net \<and> nd_company m = c \<and> Option.bind (nd_parent m) (owned net c) = Some n"
  using owned_self [of net n] by (auto simp: below_def owned_def bind_eq_Some_conv split: option.splits if_splits dest: get_nodeD)

lemma descendant_rows_iff:
  "graph_ok net \<Longrightarrow> set level \<subseteq> set net \<Longrightarrow> nd_company ` set level \<subseteq> {c} \<Longrightarrow>
     m \<in> set (descendant_rows net c k level) \<longleftrightarrow>
       m \<in> set net \<and> nd_company m = c \<and> (\<exists>d \<le> k. d \<noteq> 0 \<and> (\<exists>n \<in> set level. up net c d m = Some n))"
proof (induction k arbitrary: level)
  case (Suc k)
  let ?next = "concat (map (below net c) level)"
  have nx: "m \<in> set ?next \<longleftrightarrow> m \<in> set net \<and> nd_company m = c \<and> (\<exists>n \<in> set level. up net c 1 m = Some n)" for m
  proof -
    have "m \<in> set (below net c n) \<longleftrightarrow> m \<in> set net \<and> nd_company m = c \<and> up net c 1 m = Some n" if "n \<in> set level" for n
    proof -
      have "n \<in> set net" "nd_company n = c" using that Suc.prems(2,3) by auto
      from below_iff [OF Suc.prems(1) this] show ?thesis by (simp add: bind_eq_Some_conv)
    qed
    then show ?thesis by (auto simp del: One_nat_def)
  qed
  have s: "set ?next \<subseteq> set net" "nd_company ` set ?next \<subseteq> {c}" by (auto simp: below_def)
  have up: "(\<exists>a \<in> set ?next. up net c d m = Some a) \<longleftrightarrow> (\<exists>n \<in> set level. up net c (Suc d) m = Some n)"
    if "m \<in> set net" "nd_company m = c" for d
  proof -
    have "a \<in> set net \<and> nd_company a = c" if "up net c d m = Some a" for a
      using that \<open>m \<in> set net\<close> \<open>nd_company m = c\<close>
      by (induction d arbitrary: m) (auto simp: bind_eq_Some_conv owned_def split: option.splits if_splits dest: get_nodeD)
    moreover have "up net c (Suc d) m = Option.bind (up net c d m) (up net c 1)"
    proof -
      have "up net c 1 = (\<lambda>a. Option.bind (nd_parent a) (owned net c))" by (rule ext) (simp add: up_Suc del: up.simps(2))
      then show ?thesis by (simp only: up_Suc)
    qed
    ultimately show ?thesis using nx by (simp only: bind_eq_Some_conv) blast
  qed
  define Q where "Q = (\<lambda>d. \<exists>n \<in> set level. up net c d m = Some n)"
  have q: "(\<exists>d \<le> Suc k. d \<noteq> 0 \<and> Q d) \<longleftrightarrow> Q 1 \<or> (\<exists>d \<le> k. d \<noteq> 0 \<and> Q (Suc d))"
    by (metis One_nat_def Suc_le_mono le0 not0_implies_Suc nat.distinct(1))
  have "m \<in> set (descendant_rows net c (Suc k) level) \<longleftrightarrow> m \<in> set ?next \<or> m \<in> set (descendant_rows net c k ?next)"
    by (simp add: Let_def)
  also have "\<dots> \<longleftrightarrow> m \<in> set net \<and> nd_company m = c \<and> (Q 1 \<or> (\<exists>d \<le> k. d \<noteq> 0 \<and> Q (Suc d)))"
    using Suc.IH [OF Suc.prems(1) s] nx [of m] up unfolding Q_def by blast
  finally show ?case unfolding q [symmetric] unfolding Q_def .
qed simp

lemma path_up:
  "graph_ok net \<Longrightarrow> m \<in> set net \<Longrightarrow> is_path net m path \<Longrightarrow>
     up net (nd_company m) d m = (if d < length path then Some (path ! d) else None)"
proof (induction d arbitrary: m path)
  case 0
  then show ?case by (cases path) auto
next
  case (Suc d)
  from Suc.prems(3) obtain ms where p: "path = m # ms" by (cases path) auto
  show ?case
  proof (cases "nd_parent m")
    case None
    with Suc.prems p show ?thesis by simp
  next
    case (Some q)
    from Suc.prems(1,2) Some obtain a where a: "get_node q net = Some a" "a \<in> set net" "nd_company a = nd_company m"
      "owned net (nd_company m) q = Some a" by (rule graph_ok_parent)
    with Suc.prems(3) p Some have "is_path net a ms" by simp
    from Suc.IH [OF Suc.prems(1) a(2) this] a Some p show ?thesis by simp
  qed
qed

lemma ancestor_rows_take: "ancestor_rows net c k m = take (Suc k) (ancestor_rows net c (Suc k) m)"
proof (induction k arbitrary: m)
  case (Suc k)
  show ?case
  proof (cases "Option.bind (nd_parent m) (owned net c)")
    case (Some a)
    then have "ancestor_rows net c (Suc j) m = m # ancestor_rows net c j a" for j by simp
    from this [of k] this [of "Suc k"] Suc.IH [of a] show ?thesis by (metis take_Suc_Cons)
  qed simp
qed simp

lemma ancestor_rows_mono: "set (ancestor_rows net c k m) \<subseteq> set (ancestor_rows net c (Suc k) m)"
  by (subst ancestor_rows_take) (rule set_take_subset)

lemma ancestor_rows_short:
  "length (ancestor_rows net c k m) < Suc k \<Longrightarrow> ancestor_rows net c (Suc k) m = ancestor_rows net c k m"
proof -
  assume a: "length (ancestor_rows net c k m) < Suc k"
  define xs where "xs = ancestor_rows net c (Suc k) m"
  have t: "ancestor_rows net c k m = take (Suc k) xs" unfolding xs_def by (rule ancestor_rows_take)
  with a have "length xs \<le> Suc k" by (simp add: min_def split: if_splits)
  with t show ?thesis unfolding xs_def by simp
qed

fun plant :: "node list \<Rightarrow> net \<Rightarrow> graph_error + net" where
  \<comment> \<open>rows inserted one after the other\<close>
  "plant [] net = Inr net"
| "plant (n # ns) net = bindR (insert_node n net) (plant ns)"

lemma plant_grows: "grows net \<Longrightarrow> plant ns net = Inr net' \<Longrightarrow> grows net'"
proof (induction ns arbitrary: net)
  case (Cons n ns)
  then show ?case by (auto simp: bindR_Inr_iff intro: grows.insert)
qed simp

definition device :: "nat \<Rightarrow> nat option \<Rightarrow> node" where
  "device i p = \<lparr>nd_id = i, nd_company = 1, nd_parent = p, nd_attached = True\<rparr>"

section \<open>Properties\<close>

text \<open>
  C36. Whatever rows are inserted, moved, attached, detached and deleted under the triggers
  and the constraints, the plant stays a forest: ids are distinct, a row with a parent is
  attached below an attached row of its own company, and no row is above itself.
\<close>

theorem guarded_plant_is_forest:
  assumes "grows net"
  shows "graph_ok net"
  using assms by (rule grows_graph_ok)

lemma guarded_plant_is_forest_witness:
  "graph_ok [device 1 None, device 3 (Some 2), device 2 (Some 1)] \<and>
   update_node 1 (Some (Some 3)) None [device 1 None, device 3 (Some 2), device 2 (Some 1)] = Inl GRAPH_CYCLE"
proof -
  have p: "plant [device 1 None, device 3 None, device 2 (Some 1)] [] = Inr [device 1 None, device 3 None, device 2 (Some 1)]"
    by code_simp
  have u: "update_node 3 (Some (Some 2)) None [device 1 None, device 3 None, device 2 (Some 1)] =
     Inr [device 1 None, device 3 (Some 2), device 2 (Some 1)]" by code_simp
  have "update_node 1 (Some (Some 3)) None [device 1 None, device 3 (Some 2), device 2 (Some 1)] = Inl GRAPH_CYCLE"
    by code_simp
  with guarded_plant_is_forest [OF grows.update [OF plant_grows [OF grows.empty p] u]] show ?thesis by simp
qed

text \<open>
  For an attached row, \<open>resolve_path\<close> returns the whole way from the row to a root, in
  that order, within one company and without a repetition, when it has at most 32 rows, and
  raises otherwise; it never returns a part of the way.
\<close>

lemma resolve_path_whole:
  assumes "grows net" "get_node i net = Some n" "nd_attached n"
  shows "\<exists>path. is_path net n path \<and> distinct (map nd_id path) \<and> nd_company ` set path = {nd_company n} \<and>
    resolve_path net i (nd_company n) = (if length path \<le> 32 then Inr path else Inl PATH_TOO_DEEP)"
proof -
  have ok: "graph_ok net" using assms(1) by (rule grows_graph_ok)
  note n = get_nodeD [OF assms(2)]
  from path_exists [OF ok] n obtain path where p: "is_path net n path" by blast
  from resolve_path_eq [OF ok _ assms(3) p] path_distinct [OF ok _ p] path_in [OF ok _ p] n p show ?thesis by blast
qed

lemma resolve_path_whole_witness:
  "let net = [device 1 None, device 2 (Some 1), device 3 (Some 2)]
   in (\<exists>path. is_path net (device 3 (Some 2)) path \<and> resolve_path net 3 1 = (if length path \<le> 32 then Inr path else Inl PATH_TOO_DEEP)) \<and>
      resolve_path net 3 1 = Inr [device 3 (Some 2), device 2 (Some 1), device 1 None]"
proof -
  let ?net = "[device 1 None, device 2 (Some 1), device 3 (Some 2)]"
  have p: "plant ?net [] = Inr ?net" and g: "get_node 3 ?net = Some (device 3 (Some 2))"
    and r: "resolve_path ?net 3 1 = Inr [device 3 (Some 2), device 2 (Some 1), device 1 None]" by code_simp+
  have d: "nd_attached (device 3 (Some 2))" "nd_company (device 3 (Some 2)) = 1" by (simp_all add: device_def)
  from resolve_path_whole [OF plant_grows [OF grows.empty p] g d(1)] r show ?thesis unfolding d Let_def by blast
qed

text \<open>
  The two walks agree: a row is among the descendants of another exactly if the other
  is on the row's path, the row itself excluded.
\<close>

lemma descendants_are_paths:
  assumes "grows net" "get_node i net = Some n" "get_node j net = Some m" "nd_company m = nd_company n"
    "nd_attached m" "resolve_path net j (nd_company n) = Inr path"
  shows "m \<in> set (descendants net i (nd_company n)) \<longleftrightarrow> i \<noteq> j \<and> n \<in> set path"
proof -
  have ok: "graph_ok net" using assms(1) by (rule grows_graph_ok)
  note n = get_nodeD [OF assms(2)] and m = get_nodeD [OF assms(3)]
  from path_exists [OF ok] m obtain way where w: "is_path net m way" by blast
  from resolve_path_eq [OF ok _ assms(5) w] m assms(4,6) have way: "way = path" "length path \<le> 32"
    by (auto split: if_splits)
  let ?rows = "descendant_rows net (nd_company n) 32 [n]"
  note iff = descendant_rows_iff [OF ok, of "[n]" "nd_company n" _ 32]
  have "set ?rows \<subseteq> set net" using iff n by auto
  then have "descendants net i (nd_company n) = ?rows"
    using n owned_self [OF ok, of n] ok
    by (auto simp: descendants_def MAX_PATH_DEPTH_def graph_ok_def intro!: ordered_items_in)
  moreover have "m \<in> set ?rows \<longleftrightarrow> (\<exists>d \<le> 32. d \<noteq> 0 \<and> up net (nd_company m) d m = Some n)"
    using iff [of m] n m assms(4) by auto
  moreover have "\<dots> \<longleftrightarrow> (\<exists>d < length path. d \<noteq> 0 \<and> path ! d = n)"
    using path_up [OF ok _ w] m way by (auto split: if_splits)
  moreover have "\<dots> \<longleftrightarrow> i \<noteq> j \<and> n \<in> set path"
  proof -
    obtain ms where p: "path = m # ms" using w way by (cases path) auto
    have "m \<notin> set ms" using path_distinct [OF ok _ w] m p way by auto
    moreover have "(\<exists>d < length path. d \<noteq> 0 \<and> path ! d = n) \<longleftrightarrow> n \<in> set ms"
    proof
      assume "\<exists>d < length path. d \<noteq> 0 \<and> path ! d = n"
      then show "n \<in> set ms" using p by (auto simp: nth_Cons')
    next
      assume "n \<in> set ms"
      then obtain k where "k < length ms" "ms ! k = n" by (auto simp: in_set_conv_nth)
      with p have "Suc k < length path" "path ! Suc k = n" by simp_all
      then show "\<exists>d < length path. d \<noteq> 0 \<and> path ! d = n" by blast
    qed
    moreover have "i = j \<longleftrightarrow> n = m" using assms(2,3) n m by (metis option.inject)
    ultimately show ?thesis using p by auto
  qed
  ultimately show ?thesis by simp
qed

lemma descendants_are_paths_witness:
  "let net = [device 1 None, device 2 (Some 1), device 3 (Some 2)]
   in (device 3 (Some 2) \<in> set (descendants net 1 1)) = (device 1 None \<in> set [device 3 (Some 2), device 2 (Some 1), device 1 None]) \<and>
      descendants net 1 1 = [device 2 (Some 1), device 3 (Some 2)]"
proof -
  let ?net = "[device 1 None, device 2 (Some 1), device 3 (Some 2)]"
  have p: "plant ?net [] = Inr ?net" and g: "get_node 1 ?net = Some (device 1 None)" "get_node 3 ?net = Some (device 3 (Some 2))"
    and r: "resolve_path ?net 3 1 = Inr [device 3 (Some 2), device 2 (Some 1), device 1 None]"
    and e: "descendants ?net 1 1 = [device 2 (Some 1), device 3 (Some 2)]" by code_simp+
  have d: "nd_attached (device i q)" "nd_company (device i q) = 1" for i q by (simp_all add: device_def)
  from descendants_are_paths [OF plant_grows [OF grows.empty p] g _ d(1), unfolded d, OF refl r] e show ?thesis
    by (simp add: Let_def)
qed

text \<open>
  \<open>would_create_cycle\<close> and the trigger agree on loops: a parent the trigger accepts is
  never called a loop, and a parent the trigger refuses as a loop always is.
\<close>

lemma cycle_check_agrees:
  assumes "nd_parent new = Some p"
  shows "case graph_guard net new of
      Inr u \<Rightarrow> \<not> would_create_cycle net (nd_id new) p (nd_company new)
    | Inl e \<Rightarrow> e \<in> {SELF_PARENT, GRAPH_CYCLE} \<longrightarrow> would_create_cycle net (nd_id new) p (nd_company new)"
proof -
  have anc: "ancestor_cte net p (nd_company new) = ancestor_rows net (nd_company new) (Suc 31) m"
    if "get_node p net = Some m" "nd_company m = nd_company new" "nd_attached m" for m
    using that by (simp add: ancestor_cte_def owned_def MAX_PATH_DEPTH_def)
  show ?thesis
  proof (cases "graph_guard net new")
    case (Inr u)
    then have "graph_guard net new = Inr ()" by simp
    with assms obtain m where m: "p \<noteq> nd_id new" "get_node p net = Some m" "nd_company m = nd_company new" "nd_attached m"
      "nd_id new \<notin> nd_id ` set (ancestor_rows net (nd_company new) 31 m)" "length (ancestor_rows net (nd_company new) 31 m) < Suc 31"
      by (auto simp: graph_guard_ok split: option.splits)
    with Inr show ?thesis
      unfolding would_create_cycle_def anc [OF m(2-4)] ancestor_rows_short [OF m(6)] by auto
  next
    case (Inl e)
    show ?thesis
    proof (cases "e = GRAPH_CYCLE")
      case True
      with Inl assms obtain m where m: "get_node p net = Some m" "nd_company m = nd_company new" "nd_attached m"
        "nd_id new \<in> nd_id ` set (ancestor_rows net (nd_company new) 31 m)"
        by (auto simp: graph_guard_def guardR_def Let_def MAX_PATH_DEPTH_def split: option.splits if_splits)
      with Inl ancestor_rows_mono [of net "nd_company new" 31 m] show ?thesis
        unfolding would_create_cycle_def anc [OF m(1-3)] by auto
    next
      case False
      with Inl assms show ?thesis
        by (auto simp: graph_guard_def guardR_def Let_def would_create_cycle_def split: option.splits if_splits)
    qed
  qed
qed

lemma cycle_check_agrees_witness:
  "let net = [device 1 None, device 2 (Some 1), device 3 None]
   in graph_guard net (device 1 (Some 2)) = Inl GRAPH_CYCLE \<and> would_create_cycle net 1 2 1 \<and>
      graph_guard net (device 3 (Some 2)) = Inr () \<and> \<not> would_create_cycle net 3 2 1"
proof -
  let ?net = "[device 1 None, device 2 (Some 1), device 3 None]"
  have d: "nd_parent (device i (Some q)) = Some q" "nd_id (device i (Some q)) = i" "nd_company (device i (Some q)) = 1" for i q
    by (simp_all add: device_def)
  have g: "graph_guard ?net (device 1 (Some 2)) = Inl GRAPH_CYCLE" "graph_guard ?net (device 3 (Some 2)) = Inr ()"
    by code_simp+
  from cycle_check_agrees [OF d(1) [of 1 2], of ?net] cycle_check_agrees [OF d(1) [of 3 2], of ?net] g d
  show ?thesis by (simp add: Let_def)
qed

text \<open>
  The trigger measures the moved row only: a subtree can be moved to where the rows
  under its root are too deep, so that a path that resolved before no longer does.
\<close>

lemma moved_subtree_too_deep:
  "\<exists>net net'. grows net \<and> resolve_path net 42 1 = Inr [device 42 (Some 41), device 41 (Some 40), device 40 None] \<and>
     update_node 40 (Some (Some 31)) None net = Inr net' \<and> resolve_path net' 42 1 = Inl PATH_TOO_DEEP"
proof -
  let ?rows = "device 1 None # map (\<lambda>i. device (Suc i) (Some i)) [1..<31] @ [device 40 None, device 41 (Some 40), device 42 (Some 41)]"
  let ?net = "case plant ?rows [] of Inr net \<Rightarrow> net | Inl e \<Rightarrow> []"
  let ?net' = "case update_node 40 (Some (Some 31)) None ?net of Inr net \<Rightarrow> net | Inl e \<Rightarrow> []"
  have p: "case plant ?rows [] of Inr net \<Rightarrow> True | Inl e \<Rightarrow> False" by code_simp
  then have "plant ?rows [] = Inr ?net" by (auto split: sum.splits)
  then have "grows ?net" by (rule plant_grows [OF grows.empty])
  moreover have "resolve_path ?net 42 1 = Inr [device 42 (Some 41), device 41 (Some 40), device 40 None]" by code_simp
  moreover have "update_node 40 (Some (Some 31)) None ?net = Inr ?net'" by code_simp
  moreover have "resolve_path ?net' 42 1 = Inl PATH_TOO_DEEP" by code_simp
  ultimately show ?thesis by blast
qed

end
