(* ===== verification/Workflow_Graph.thy ===== *)
theory Workflow_Graph
  imports Prelude
begin

text \<open>
  Kahn's algorithm, as \<open>utils/workflow_engine.py\<close> has it twice: the loop of
  \<open>execute_workflow\<close>, whose body runs a step and may stop the loop, and the one of
  \<open>detect_cycle\<close>. The loop is written once over a visit function; that it ends is a
  \<open>termination\<close> proof, since a step enters the queue only when its count drops from one to zero.
\<close>

section \<open>The loop\<close>

type_synonym degrees = "(nat \<times> int) list"

definition lower :: "nat \<Rightarrow> degrees \<Rightarrow> degrees" where
  \<comment> \<open>\<open>in_degree[k] -= 1\<close>\<close>
  "lower k degs = map (\<lambda>(i, d). if i = k then (i, d - 1) else (i, d)) degs"

fun relax :: "nat list \<Rightarrow> degrees \<Rightarrow> nat list \<Rightarrow> degrees \<times> nat list" where
  \<comment> \<open>\<open>for neighbor_id in adjacency[step_id]\<close>\<close>
  "relax [] degs queue = (degs, queue)"
| "relax (v # vs) degs queue =
     (let degs' = lower v degs
      in relax vs degs' (if map_of degs' v = Some 0 then queue @ [v] else queue))"

definition positive :: "degrees \<Rightarrow> nat" where
  "positive degs = length (filter (\<lambda>p. 0 < snd p) degs)"

lemma map_of_lower: "map_of (lower k degs) i = (if i = k then map_option (\<lambda>d. d - 1) (map_of degs i) else map_of degs i)"
  by (induction degs) (auto simp: lower_def)

lemma positive_lower: "positive (lower k degs) \<le> positive degs"
  unfolding positive_def lower_def by (induction degs) (auto split: if_splits)

lemma positive_lower_zero: "map_of (lower k degs) k = Some 0 \<Longrightarrow> positive (lower k degs) < positive degs"
proof (induction degs)
  case (Cons p degs)
  obtain i d where p: "p = (i, d)" by (cases p)
  show ?case
  proof (cases "i = k")
    case True
    with Cons.prems p have "d = 1" by (simp add: lower_def)
    with True p positive_lower [of k degs] show ?thesis by (simp add: positive_def lower_def)
  next
    case False
    with Cons p show ?thesis by (simp add: positive_def lower_def)
  qed
qed (simp add: lower_def)

lemma relax_measure:
  "relax vs degs queue = (degs', queue') \<Longrightarrow> length queue' + positive degs' \<le> length queue + positive degs"
proof (induction vs arbitrary: degs queue)
  case (Cons v vs)
  let ?d = "lower v degs"
  let ?q = "if map_of ?d v = Some 0 then queue @ [v] else queue"
  have "length queue' + positive degs' \<le> length ?q + positive ?d" using Cons by (simp add: Let_def)
  moreover have "length ?q + positive ?d \<le> length queue + positive degs"
    using positive_lower [of v degs] positive_lower_zero [of v degs] by (cases "map_of ?d v = Some 0") auto
  ultimately show ?case by simp
qed simp

function kahn ::
  "(nat \<Rightarrow> 's \<Rightarrow> 'e option \<times> 's) \<Rightarrow> (nat \<Rightarrow> nat list) \<Rightarrow> degrees \<Rightarrow> nat list \<Rightarrow> nat list \<Rightarrow> 's \<Rightarrow> nat list \<times> 'e option \<times> 's"
where
  \<comment> \<open>\<open>while queue\<close>: the steps that were run, the error that stopped the loop, the state\<close>
  "kahn visit adj degs [] past s = (past, None, s)"
| "kahn visit adj degs (u # queue) past s =
     (let (stop, s') = visit u s
      in if stop \<noteq> None then (past @ [u], stop, s')
         else let r = relax (adj u) degs queue
              in kahn visit adj (fst r) (snd r) (past @ [u]) s')"
  by pat_completeness auto
termination
proof (relation "measure (\<lambda>(visit, adj, degs, queue, past, s). length queue + positive degs)", goal_cases)
  case (2 visit adj degs u queue past s x stop s' r)
  then have "length (snd r) + positive (fst r) \<le> length queue + positive degs"
    by (intro relax_measure [of "adj u"]) simp
  then show ?case by simp
qed simp

declare kahn.simps(2) [simp del]

section \<open>The counts of a graph\<close>

definition in_degrees :: "nat list \<Rightarrow> (nat \<times> nat) list \<Rightarrow> degrees" where
  \<comment> \<open>one entry per step, the edges into it counted\<close>
  "in_degrees nodes edges = map (\<lambda>v. (v, int (length (filter (\<lambda>e. snd e = v) edges)))) nodes"

definition out_edges :: "(nat \<times> nat) list \<Rightarrow> nat \<Rightarrow> nat list" where
  "out_edges edges u = map snd (filter (\<lambda>e. fst e = u) edges)"

definition starts :: "degrees \<Rightarrow> nat list" where
  "starts degs = map fst (filter (\<lambda>p. snd p = 0) degs)"

definition usable :: "nat list \<Rightarrow> (nat \<times> nat) list \<Rightarrow> (nat \<times> nat) list" where
  \<comment> \<open>the edges both ends of which are steps\<close>
  "usable nodes edges = filter (\<lambda>e. fst e \<in> set nodes \<and> snd e \<in> set nodes) edges"

definition run_graph ::
  "(nat \<Rightarrow> 's \<Rightarrow> 'e option \<times> 's) \<Rightarrow> nat list \<Rightarrow> (nat \<times> nat) list \<Rightarrow> 's \<Rightarrow> nat list \<times> 'e option \<times> 's" where
  "run_graph visit nodes edges s =
     (let es = usable nodes edges; degs = in_degrees nodes es
      in kahn visit (out_edges es) degs (starts degs) [] s)"

datatype index_error = IndexError

definition detect_cycle :: "nat \<Rightarrow> (nat \<times> nat) list \<Rightarrow> index_error + bool" where
  \<comment> \<open>\<open>in_deg[v]\<close> raises for a target out of range; a source out of range is never reached\<close>
  "detect_cycle steps_count edges =
     (if steps_count = 0 then Inr False
      else guardR (list_ex (\<lambda>e. steps_count \<le> snd e) edges) IndexError
        (let degs = in_degrees [0..<steps_count] edges;
             (visited, stop, s) = kahn (\<lambda>u s. (None :: unit option, s)) (out_edges edges) degs (starts degs) [] ()
         in Inr (length visited \<noteq> steps_count)))"

section \<open>What the loop does to the counts\<close>

lemma map_of_relax:
  "relax vs degs queue = (degs', queue') \<Longrightarrow>
     map_of degs' i = map_option (\<lambda>d. d - int (count_list vs i)) (map_of degs i)"
proof (induction vs arbitrary: degs queue)
  case Nil
  then show ?case by (cases "map_of degs i") auto
next
  case (Cons v vs)
  from Cons.prems have "relax vs (lower v degs) (if map_of (lower v degs) v = Some 0 then queue @ [v] else queue) = (degs', queue')"
    by (simp add: Let_def)
  from Cons.IH [OF this] show ?case by (cases "map_of degs i") (auto simp: map_of_lower)
qed

lemma keys_relax: "relax vs degs queue = (degs', queue') \<Longrightarrow> map fst degs' = map fst degs"
proof (induction vs arbitrary: degs queue)
  case (Cons v vs)
  have "map fst (lower v degs) = map fst degs" by (auto simp: lower_def)
  with Cons show ?case by (auto simp: Let_def)
qed simp

lemma queue_relax:
  assumes "relax vs degs queue = (degs', queue')" "\<And>v. v \<in> set vs \<Longrightarrow> \<exists>d > 0. map_of degs v = Some d"
    "\<And>v d. map_of degs v = Some d \<Longrightarrow> int (count_list vs v) \<le> d"
  shows "\<exists>new. queue' = queue @ new \<and> distinct new \<and> (\<forall>v. v \<in> set new \<longleftrightarrow> v \<in> set vs \<and> map_of degs' v = Some 0)"
  using assms
proof (induction vs arbitrary: degs queue)
  case (Cons v vs)
  let ?d = "lower v degs"
  have r: "relax vs ?d (if map_of ?d v = Some 0 then queue @ [v] else queue) = (degs', queue')"
    using Cons.prems(1) by (simp add: Let_def)
  obtain d where d: "map_of degs v = Some d" "d > 0" using Cons.prems(2) by auto
  have pos: "\<exists>d > 0. map_of ?d w = Some d" if "w \<in> set vs" for w
  proof -
    from that Cons.prems(2) [of w] obtain e where e: "map_of degs w = Some e" "e > 0" by auto
    have "int (count_list (v # vs) w) \<le> e" using Cons.prems(3) e by blast
    moreover have "count_list vs w > 0" using that count_list_0_iff [of vs w] by auto
    ultimately show ?thesis using e by (auto simp: map_of_lower)
  qed
  have bound: "int (count_list vs w) \<le> e" if "map_of ?d w = Some e" for w e
    using that Cons.prems(3) by (fastforce simp: map_of_lower split: if_splits)
  from Cons.IH [OF r pos bound] obtain new where
    new: "queue' = (if map_of ?d v = Some 0 then queue @ [v] else queue) @ new" "distinct new"
      "\<And>w. w \<in> set new \<longleftrightarrow> w \<in> set vs \<and> map_of degs' w = Some 0" by blast
  have at: "map_of degs' w = map_option (\<lambda>d. d - int (count_list vs w)) (map_of ?d w)" for w
    using map_of_relax [OF r] .
  show ?case
  proof (cases "map_of ?d v = Some 0")
    case True
    then have "v \<notin> set vs" using pos [of v] by auto
    then have "map_of degs' v = Some 0" using at [of v] True by simp
    with True new \<open>v \<notin> set vs\<close> show ?thesis by (intro exI [of _ "v # new"]) auto
  next
    case False
    have "map_of degs' v = Some 0 \<Longrightarrow> v \<in> set vs"
      using at [of v] False by (cases "v \<in> set vs") (auto simp: map_of_lower)
    with False new show ?thesis by (intro exI [of _ new]) auto
  qed
qed simp

definition pending_into :: "(nat \<times> nat) list \<Rightarrow> nat list \<Rightarrow> nat \<Rightarrow> nat" where
  "pending_into es past v = length (filter (\<lambda>e. snd e = v \<and> fst e \<notin> set past) es)"

definition topological :: "(nat \<times> nat) list \<Rightarrow> nat list \<Rightarrow> bool" where
  \<comment> \<open>a step comes after every step with an edge to it\<close>
  "topological es past \<longleftrightarrow> (\<forall>xs v ys. past = xs @ v # ys \<longrightarrow> (\<forall>u. (u, v) \<in> set es \<longrightarrow> u \<in> set xs))"

definition kahn_inv :: "nat list \<Rightarrow> (nat \<times> nat) list \<Rightarrow> degrees \<Rightarrow> nat list \<Rightarrow> nat list \<Rightarrow> bool" where
  "kahn_inv nodes es degs queue past \<longleftrightarrow>
     (\<forall>v. map_of degs v = (if v \<in> set nodes then Some (int (pending_into es past v)) else None)) \<and>
     distinct (past @ queue) \<and> set (past @ queue) = {v \<in> set nodes. pending_into es past v = 0} \<and> topological es past"

lemma pending_into_zero: "pending_into es past v = 0 \<longleftrightarrow> (\<forall>u. (u, v) \<in> set es \<longrightarrow> u \<in> set past)"
  by (auto simp: pending_into_def filter_empty_conv)

lemma pending_into_snoc:
  "u \<notin> set past \<Longrightarrow> pending_into es past v = pending_into es (past @ [u]) v + count_list (out_edges es u) v"
  unfolding pending_into_def out_edges_def by (induction es) auto

lemma topological_snoc:
  "topological es past \<Longrightarrow> pending_into es past u = 0 \<Longrightarrow> topological es (past @ [u])"
  unfolding topological_def pending_into_zero
  by (auto simp: append_eq_append_conv2 append_eq_Cons_conv Cons_eq_append_conv)

lemma kahn_inv_step:
  assumes "kahn_inv nodes es degs (u # queue) past" "set es \<subseteq> set nodes \<times> set nodes"
    "relax (out_edges es u) degs queue = (degs', queue')"
  shows "kahn_inv nodes es degs' queue' (past @ [u])"
proof -
  note inv = assms(1) [unfolded kahn_inv_def]
  from inv have m: "\<And>v. map_of degs v = (if v \<in> set nodes then Some (int (pending_into es past v)) else None)"
    and d: "distinct (past @ u # queue)" and z: "set (past @ u # queue) = {v \<in> set nodes. pending_into es past v = 0}"
    and t: "topological es past" by simp_all
  have u: "u \<notin> set past" "u \<in> set nodes" "pending_into es past u = 0" using d z by auto
  note sn = pending_into_snoc [OF u(1), of es]
  have adj: "v \<in> set nodes \<and> pending_into es past v > 0" if "v \<in> set (out_edges es u)" for v
  proof -
    have "count_list (out_edges es u) v > 0" using that count_list_0_iff [of "out_edges es u" v] by auto
    moreover have "v \<in> set nodes" using that assms(2) by (auto simp: out_edges_def)
    ultimately show ?thesis using sn [of v] by simp
  qed
  have pos: "\<exists>d > 0. map_of degs v = Some d" if "v \<in> set (out_edges es u)" for v
    using adj [OF that] m [of v] by simp
  have bound: "int (count_list (out_edges es u) v) \<le> d" if "map_of degs v = Some d" for v d
    using that m [of v] sn [of v] by (auto split: if_splits)
  have m': "map_of degs' v = (if v \<in> set nodes then Some (int (pending_into es (past @ [u]) v)) else None)" for v
    using map_of_relax [OF assms(3), of v] m [of v] sn [of v] by simp
  from queue_relax [OF assms(3) pos bound] obtain new where
    new: "queue' = queue @ new" "distinct new" "\<And>v. v \<in> set new \<longleftrightarrow> v \<in> set (out_edges es u) \<and> map_of degs' v = Some 0"
    by blast
  have new_iff: "v \<in> set new \<longleftrightarrow> v \<in> set nodes \<and> pending_into es past v \<noteq> 0 \<and> pending_into es (past @ [u]) v = 0" for v
  proof
    assume "v \<in> set new"
    then show "v \<in> set nodes \<and> pending_into es past v \<noteq> 0 \<and> pending_into es (past @ [u]) v = 0"
      using new(3) [of v] adj [of v] m' [of v] by auto
  next
    assume a: "v \<in> set nodes \<and> pending_into es past v \<noteq> 0 \<and> pending_into es (past @ [u]) v = 0"
    then have "count_list (out_edges es u) v \<noteq> 0" using sn [of v] by arith
    with a show "v \<in> set new" using new(3) [of v] m' [of v] by (auto simp: count_list_0_iff)
  qed
  have mono: "pending_into es past v = 0 \<Longrightarrow> pending_into es (past @ [u]) v = 0" for v using sn [of v] by simp
  have "distinct ((past @ [u]) @ queue')"
  proof -
    have "set new \<inter> set (past @ u # queue) = {}" unfolding z by (auto simp: new_iff)
    with d new(2) show ?thesis by (auto simp: new(1))
  qed
  moreover have "set ((past @ [u]) @ queue') = {v \<in> set nodes. pending_into es (past @ [u]) v = 0}"
    using z new_iff mono by (auto simp: new(1))
  moreover have "topological es (past @ [u])" using t u(3) by (rule topological_snoc)
  ultimately show ?thesis using m' by (simp add: kahn_inv_def)
qed

lemma kahn_keeps:
  assumes "kahn_inv nodes es degs queue past" "set es \<subseteq> set nodes \<times> set nodes"
    "kahn visit (out_edges es) degs queue past s = (done, stop, s')"
  shows "distinct done \<and> set done \<subseteq> set nodes \<and> topological es done \<and>
    (stop = None \<longrightarrow> set done = {v \<in> set nodes. pending_into es done v = 0})"
  using assms
proof (induction visit "out_edges es" degs queue past s rule: kahn.induct)
  case (1 visit degs past s)
  then show ?case by (auto simp: kahn_inv_def)
next
  case (2 visit degs u queue past s)
  obtain x t where v: "visit u s = (x, t)" by (cases "visit u s")
  obtain degs' queue' where r: "relax (out_edges es u) degs queue = (degs', queue')"
    by (cases "relax (out_edges es u) degs queue")
  have inv: "kahn_inv nodes es degs' queue' (past @ [u])" using kahn_inv_step [OF "2.prems"(1,2) r] .
  show ?case
  proof (cases x)
    case None
    have "kahn visit (out_edges es) degs' queue' (past @ [u]) t = (done, stop, s')"
      using "2.prems"(3) v None r by (simp add: kahn.simps(2) Let_def)
    with "2.hyps" [OF v [symmetric] refl _ refl] None r inv "2.prems"(2) show ?thesis by simp
  next
    case (Some e)
    then have "done = past @ [u]" "stop \<noteq> None" using "2.prems"(3) v by (auto simp: kahn.simps(2) Let_def)
    with inv show ?thesis by (auto simp: kahn_inv_def)
  qed
qed

lemma kahn_inv_start:
  assumes "distinct nodes" "set es \<subseteq> set nodes \<times> set nodes"
  shows "kahn_inv nodes es (in_degrees nodes es) (starts (in_degrees nodes es)) []"
proof -
  have m: "map_of (in_degrees nodes es) v = (if v \<in> set nodes then Some (int (pending_into es [] v)) else None)" for v
    unfolding in_degrees_def pending_into_def by (induction nodes) auto
  have s: "starts (in_degrees nodes es) = filter (\<lambda>v. pending_into es [] v = 0) nodes"
    unfolding starts_def in_degrees_def pending_into_def by (induction nodes) auto
  show ?thesis unfolding kahn_inv_def using m s assms(1) by (auto simp: topological_def)
qed

lemma topological_acyclic: "topological es past \<Longrightarrow> distinct past \<Longrightarrow> set es \<subseteq> set past \<times> set past \<Longrightarrow> acyclic (set es)"
proof -
  assume a: "topological es past" "distinct past" "set es \<subseteq> set past \<times> set past"
  define rank where "rank v = length (takeWhile (\<lambda>w. w \<noteq> v) past)" for v
  have "rank u < rank v" if e: "(u, v) \<in> set es" for u v
  proof -
    from e a(3) have "v \<in> set past" by auto
    then obtain xs ys where p: "past = xs @ v # ys" "v \<notin> set xs" by (auto dest: split_list_first)
    have tw: "takeWhile (\<lambda>w. w \<noteq> c) (as @ c # bs) = as" if "c \<notin> set as" for c and as bs :: "nat list"
      using that by (induction as) auto
    from a(1) p(1) e have "u \<in> set xs" unfolding topological_def by blast
    then obtain xs1 xs2 where x: "xs = xs1 @ u # xs2" "u \<notin> set xs1" by (auto dest: split_list_first)
    have "takeWhile (\<lambda>w. w \<noteq> v) past = xs" using p tw by simp
    moreover have "takeWhile (\<lambda>w. w \<noteq> u) past = xs1" using p x tw [of u xs1 "xs2 @ v # ys"] by simp
    ultimately show ?thesis using x by (simp add: rank_def)
  qed
  then have "set es \<subseteq> measure rank" by auto
  then show ?thesis using wf_acyclic wf_measure wf_subset by blast
qed

lemma acyclic_all_done:
  assumes "acyclic (set es)" "set es \<subseteq> set nodes \<times> set nodes" "set past = {v \<in> set nodes. pending_into es past v = 0}"
  shows "set past = set nodes"
proof (rule ccontr)
  assume "set past \<noteq> set nodes"
  with assms(3) have "set nodes - set past \<noteq> {}" by auto
  moreover have "wf (set es)" using assms(1) by (simp add: finite_acyclic_wf)
  ultimately obtain v where v: "v \<in> set nodes - set past" "\<And>u. (u, v) \<in> set es \<Longrightarrow> u \<notin> set nodes - set past"
    by (metis wfE_min ex_in_conv)
  with assms(2) have "pending_into es past v = 0" unfolding pending_into_zero by blast
  with v(1) assms(3) show False by auto
qed

lemma run_kahn:
  assumes "distinct nodes" "set es \<subseteq> set nodes \<times> set nodes"
    "kahn visit (out_edges es) (in_degrees nodes es) (starts (in_degrees nodes es)) [] s = (done, stop, s')"
  shows "distinct done" "set done \<subseteq> set nodes" "topological es done"
    "stop = None \<Longrightarrow> length done = length nodes \<longleftrightarrow> acyclic (set es)"
    "acyclic (set es) \<Longrightarrow> stop = None \<Longrightarrow> set done = set nodes"
proof -
  note k = kahn_keeps [OF kahn_inv_start [OF assms(1,2)] assms(2,3)]
  then show d: "distinct done" and n: "set done \<subseteq> set nodes" and t: "topological es done" by simp_all
  have all: "set done = set nodes" if "acyclic (set es)" "stop = None"
    using k that acyclic_all_done [OF that(1) assms(2)] by simp
  then show "acyclic (set es) \<Longrightarrow> stop = None \<Longrightarrow> set done = set nodes" .
  have len: "length done = length nodes \<longleftrightarrow> set done = set nodes"
    proof
    assume "length done = length nodes"
    then have "card (set done) = card (set nodes)" using distinct_card [OF d] distinct_card [OF assms(1)] by simp
    with n show "set done = set nodes" by (intro card_subset_eq) simp_all
  next
    assume "set done = set nodes"
    then show "length done = length nodes" using distinct_card [OF d] distinct_card [OF assms(1)] by simp
  qed
  show "length done = length nodes \<longleftrightarrow> acyclic (set es)" if "stop = None"
  proof
    assume "length done = length nodes"
    then show "acyclic (set es)" using len topological_acyclic [OF t d] assms(2) by simp
  qed (use all that len in simp)
qed

lemma kahn_never_stops:
  "kahn visit adj degs queue past s = (d, x, t) \<Longrightarrow> (\<And>u s. fst (visit u s) = None) \<Longrightarrow> x = None"
proof (induction visit adj degs queue past s rule: kahn.induct)
  case (2 visit adj degs u queue past s)
  obtain t' where v: "visit u s = (None, t')" using "2.prems"(2) [of u s] by (cases "visit u s") auto
  with "2.prems" "2.IH" [OF v [symmetric] refl _ refl] show ?case by (simp add: kahn.simps(2) Let_def)
qed simp

text \<open>
  On edges between existing steps \<open>detect_cycle\<close> never raises, and answers whether the
  graph has a cycle.
\<close>

lemma detect_cycle_iff:
  assumes "list_all (\<lambda>(u, v). u < steps_count \<and> v < steps_count) edges"
  shows "detect_cycle steps_count edges = Inr (\<not> acyclic (set edges))"
proof (cases "steps_count = 0")
  case True
  with assms have "edges = []" by (cases edges) auto
  with True show ?thesis by (simp add: detect_cycle_def acyclic_def)
next
  case False
  let ?nodes = "[0..<steps_count]"
  have sub: "set edges \<subseteq> set ?nodes \<times> set ?nodes" using assms by (auto simp: list_all_iff)
  then have ok: "\<not> list_ex (\<lambda>e. steps_count \<le> snd e) edges" by (fastforce simp: list_ex_iff)
  obtain fin stop s where k: "kahn (\<lambda>u s. (None :: unit option, s)) (out_edges edges) (in_degrees ?nodes edges)
     (starts (in_degrees ?nodes edges)) [] () = (fin, stop, s)" by (metis prod_cases3)
  have none: "stop = None" using kahn_never_stops [OF k] by simp
  from run_kahn(4) [OF _ sub k none] have "(length fin = steps_count) = acyclic (set edges)" by simp
  with False ok k show ?thesis by (simp add: detect_cycle_def guardR_def)
qed

lemma detect_cycle_iff_witness:
  "detect_cycle 3 [(0, 1), (1, 2), (2, 1)] = Inr True \<and> \<not> acyclic (set [(0, 1), (1, 2), (2, 1 :: nat)])"
proof -
  have d: "detect_cycle 3 [(0, 1), (1, 2), (2, 1)] = Inr True"
    by (simp add: detect_cycle_def guardR_def in_degrees_def starts_def out_edges_def upt_rec kahn.simps lower_def)
  have "list_all (\<lambda>(u, v). u < (3 :: nat) \<and> v < 3) [(0, 1), (1, 2), (2, 1 :: nat)]" by simp
  from detect_cycle_iff [OF this] d show ?thesis by simp
qed

end
