(* ===== verification/Workflow_Rows.thy ===== *)
theory Workflow_Rows
  imports Playbook_Template Provisioning_Runs
begin

text \<open>
  What the legacy workflow engine works on: the rows of the eleven resource types a workflow
  can name, as dictionaries of their columns; the validator of \<open>ClientService.status\<close> and the
  business events it puts into the outbox (\<open>utils/workflow_events.py\<close>); the field lists
  shown to a workflow's author (\<open>utils/workflow_fields.py\<close>); the order and task status rules
  (\<open>utils/order_typing.py\<close>, \<open>utils/task_status.py\<close>). A UUID is a number and its text the
  decimal one; a row's relationships and methods are not attributes here.
\<close>

section \<open>Resource types and their columns\<close>

definition KNOWN_RESOURCE_TYPES :: "string list" where
  "KNOWN_RESOURCE_TYPES =
     [''order'', ''client'', ''task'', ''invoice'', ''order_item'', ''service_plan'', ''client_service'',
      ''service_suspension'', ''inventory_item'', ''provisioning_job'', ''payment_link'']"

definition model_columns :: "(string \<times> string list) list" where
  \<comment> \<open>the columns of the classes of \<open>_get_model_map()\<close>\<close>
  "model_columns =
     [(''order'', [''id'', ''created_at'', ''due_date'', ''payment_date'', ''total'', ''total_cents'', ''paid'', ''status'',
         ''order_type'', ''payment_status'', ''company_id'', ''client_id'', ''client_service_id'']),
      (''client'', [''id'', ''created_at'', ''name'', ''tax_id'', ''address'', ''phone'', ''email'', ''contact'',
         ''observations'', ''latitude'', ''longitude'', ''gps_precision_m'', ''service_availability'', ''payment_day'',
         ''code'', ''dpi'', ''deactivated_at'', ''deactivation_reason'', ''company_id'', ''advisor_id'', ''assigned_technician_id'']),
      (''task'', [''id'', ''created_at'', ''updated_at'', ''name'', ''description'', ''position'', ''due_date'',
         ''time_spent_minutes'', ''linked_object_type'', ''linked_object_id'', ''scheduled_date'', ''job_kind'', ''status'',
         ''route_sequence'', ''latitude'', ''longitude'', ''started_at'', ''completed_at'', ''step_progress'', ''client_id'',
         ''client_service_id'', ''device_category_id'', ''inventory_item_id'', ''parent_item_id'', ''onu_auto_assigned'',
         ''address'', ''company_id'', ''created_by'']),
      (''invoice'', [''id'', ''created_at'', ''issue_date'', ''subtotal'', ''tax'', ''total'', ''subtotal_cents'',
         ''tax_cents'', ''total_cents'', ''details'', ''is_valid'', ''company_id'', ''order_id'']),
      (''order_item'', [''id'', ''created_at'', ''order_id'', ''service_plan_id'', ''quantity'', ''unit_price_cents'', ''product_name'']),
      (''service_plan'', [''id'', ''created_at'', ''updated_at'', ''name'', ''description'', ''plan_type'', ''download_mbps'',
         ''upload_mbps'', ''data_cap_gb'', ''price'', ''price_cents'', ''service_group'', ''installation_price_cents'',
         ''is_active'', ''provisioning_params'', ''kind'', ''stock'', ''migration_source'', ''service_id'',
         ''_deprecated_network_automation'', ''company_id'']),
      (''client_service'', [''id'', ''created_at'', ''updated_at'', ''status'', ''activation_date'', ''cancelled_at'',
         ''connection_params'', ''provisioning_params'', ''notes'', ''provisioning_state'', ''install_state'', ''installed_at'',
         ''path_changed_at'', ''adopted_at'', ''adoption_note'', ''recurrence'', ''recurrence_end'', ''next_generation_date'',
         ''last_generated_at'', ''billing_status'', ''quantity'', ''migration_source'', ''company_id'', ''client_id'',
         ''service_plan_id'', ''cpe_item_id'', ''adopted_by_user_id'']),
      (''service_suspension'', [''id'', ''created_at'', ''suspended_at'', ''reactivated_at'', ''reason'', ''note'',
         ''company_id'', ''client_service_id'', ''created_by'']),
      (''inventory_item'', [''id'', ''created_at'', ''updated_at'', ''serial_number'', ''mac_address'', ''oui'', ''status'',
         ''condition'', ''attributes'', ''purchase_date'', ''warranty_until'', ''cost'', ''cost_cents'', ''notes'', ''received_at'',
         ''mgmt_host'', ''mgmt_port'', ''cli_protocol'', ''mgmt_last_check_at'', ''mgmt_last_check_ok'', ''nat_port'',
         ''mgmt_host_key'', ''quantity'', ''label'', ''company_id'', ''device_type_id'', ''warehouse_id'', ''client_id'',
         ''client_service_id'', ''custodian_user_id'', ''parent_id'', ''network_attached'', ''latitude'', ''longitude'', ''gps_precision_m'']),
      (''provisioning_job'', [''id'', ''created_at'', ''status'', ''attempts'', ''max_attempts'', ''idempotency_key'',
         ''scheduled_for'', ''started_at'', ''finished_at'', ''variables'', ''log'', ''error'', ''triggered_by'', ''dry_run'',
         ''pending_step_index'', ''pending_task_ids'', ''heartbeat_at'', ''device_lock_key'', ''claim_token'', ''phase'',
         ''company_id'', ''playbook_id'', ''client_service_id'', ''inventory_item_id'', ''integration_id'',
         ''triggered_by_user_id'', ''run_id'', ''run_position'']),
      (''payment_link'', [''id'', ''created_at'', ''updated_at'', ''company_id'', ''client_id'', ''order_id'',
         ''integration_id'', ''provider'', ''status'', ''amount_cents'', ''currency'', ''payment_methods'', ''expires_at'',
         ''checkout_id'', ''checkout_url'', ''live_mode'', ''last_checked_at'', ''checks'', ''intent_id'', ''payment_id'',
         ''paid_at'', ''review_reason'', ''wa_integration_id'', ''wa_to'', ''notified_at''])]"

definition has_column :: "string \<Rightarrow> string \<Rightarrow> bool" where
  \<comment> \<open>\<open>hasattr(model_class, field)\<close>\<close>
  "has_column kind f = (case map_of model_columns kind of None \<Rightarrow> False | Some cs \<Rightarrow> f \<in> set cs)"

section \<open>The clock\<close>

text \<open>A point in time is its microseconds since 1970 in UTC; its date is the proleptic Gregorian one.\<close>

definition GUATEMALA_OFFSET :: int where "GUATEMALA_OFFSET = -6 * 3600 * 1000000"

definition day_us :: int where "day_us = 86400 * 1000000"

definition civil :: "int \<Rightarrow> int \<times> int \<times> int" where
  \<comment> \<open>year, month and day of a day number, by eras of 400 years from 1 March of year 0\<close>
  "civil days =
     (let z = days + 719468; era = z div 146097; doe = z mod 146097;
          yoe = (doe - doe div 1460 + doe div 36524 - doe div 146096) div 365;
          doy = doe - (365 * yoe + yoe div 4 - yoe div 100);
          mp = (5 * doy + 2) div 153;
          m = (if mp < 10 then mp + 3 else mp - 9)
      in (yoe + era * 400 + (if m \<le> 2 then 1 else 0), m, doy - (153 * mp + 2) div 5 + 1))"

definition padded :: "nat \<Rightarrow> int \<Rightarrow> string" where
  "padded w n = (let t = show_nat (nat n) in replicate (w - length t) CHR ''0'' @ t)"

definition datetime_text :: "string \<Rightarrow> int \<Rightarrow> string" where
  \<comment> \<open>\<open>isoformat(sep)\<close> of the time in Guatemala; \<open>str\<close> is the one with a blank\<close>
  "datetime_text sep t =
     (let local = t + GUATEMALA_OFFSET; (y, m, d) = civil (local div day_us); us = local mod day_us; s = us div 1000000
      in padded 4 y @ ''-'' @ padded 2 m @ ''-'' @ padded 2 d @ sep
         @ padded 2 (s div 3600) @ '':'' @ padded 2 (s div 60 mod 60) @ '':'' @ padded 2 (s mod 60)
         @ (if us mod 1000000 = 0 then [] else ''.'' @ padded 6 (us mod 1000000)) @ ''-06:00'')"

definition now_gt :: "int \<Rightarrow> json" where
  \<comment> \<open>a column value, in the text \<open>serialize_for_audit\<close> gives it\<close>
  "now_gt t = JStr (datetime_text '' '' t)"

definition plus_days :: "int \<Rightarrow> int \<Rightarrow> int option" where
  \<comment> \<open>\<open>now + timedelta(days)\<close>, which raises outside the years 1 to 9999\<close>
  "plus_days t n =
     (let t' = t + n * day_us; (y, m, d) = civil ((t' + GUATEMALA_OFFSET) div day_us)
      in if 1 \<le> y \<and> y \<le> 9999 then Some t' else None)"

lemma datetime_text_samples:
  "datetime_text ''T'' 0 = ''1969-12-31T18:00:00-06:00''"
  "datetime_text '' '' 1709251199000001 = ''2024-02-29 17:59:59.000001-06:00''"
  by code_simp+

section \<open>Rows\<close>

record entity =
  en_kind :: string
  en_attrs :: dict

definition attr :: "string \<Rightarrow> entity \<Rightarrow> json" where
  "attr f e = dget f (en_attrs e)"

definition id_text :: "id \<Rightarrow> json" where
  "id_text i = JStr (show_nat i)"

definition is_row :: "string \<Rightarrow> json \<Rightarrow> id \<Rightarrow> entity \<Rightarrow> bool" where
  \<comment> \<open>\<open>model.id == value, model.company_id == company_id\<close>; a NULL equals nothing\<close>
  "is_row kind v company e \<longleftrightarrow>
     en_kind e = kind \<and> v \<noteq> JNull \<and> attr ''id'' e = v \<and> attr ''company_id'' e = id_text company"

definition get_row :: "string \<Rightarrow> id \<Rightarrow> id \<Rightarrow> entity list \<Rightarrow> entity option" where
  "get_row kind i company rows = find (is_row kind (id_text i) company) rows"

section \<open>The status of a service\<close>

datatype event_name =
    Service_Activated | Service_Reactivated | Service_Suspended | Service_Cancelled

record business_event =
  be_company :: json
  be_name :: event_name
  be_payload :: dict

definition lifecycle_event_name :: "json \<Rightarrow> json \<Rightarrow> event_name option" where
  "lifecycle_event_name old new =
     (if old = JNull \<or> old = new then None
      else if new = JStr ''ACTIVE''
        then (if old = JStr ''PENDING_INSTALL'' then Some Service_Activated
              else if old = JStr ''SUSPENDED'' then Some Service_Reactivated else None)
      else if new = JStr ''SUSPENDED'' then Some Service_Suspended
      else if new = JStr ''CANCELLED'' then Some Service_Cancelled
      else None)"

definition put_attr :: "string \<Rightarrow> json \<Rightarrow> entity \<Rightarrow> entity" where
  "put_attr f v e = e\<lparr>en_attrs := dput f v (en_attrs e)\<rparr>"

definition stamp_status_dates :: "json \<Rightarrow> bool \<Rightarrow> json \<Rightarrow> entity \<Rightarrow> entity \<times> business_event list" where
  \<comment> \<open>the validator, before the value is stored; \<open>attached\<close> is whether the row is in a session\<close>
  "stamp_status_dates now attached new e =
     (let e1 = (if new = JStr ''ACTIVE'' \<and> attr ''activation_date'' e = JNull then put_attr ''activation_date'' now e
                else if new = JStr ''CANCELLED'' \<and> attr ''cancelled_at'' e = JNull then put_attr ''cancelled_at'' now e
                else e);
          old = attr ''status'' e1
      in (e1,
          case (if attached \<and> attr ''company_id'' e1 \<noteq> JNull then lifecycle_event_name old new else None) of
            None \<Rightarrow> []
          | Some name \<Rightarrow>
              [\<lparr>be_company = attr ''company_id'' e1, be_name = name,
                be_payload = [(''client_service_id'', attr ''id'' e1), (''client_id'', attr ''client_id'' e1),
                              (''from_status'', old), (''to_status'', new)]\<rparr>]))"

definition set_attr :: "json \<Rightarrow> bool \<Rightarrow> string \<Rightarrow> json \<Rightarrow> entity \<Rightarrow> entity \<times> business_event list" where
  \<comment> \<open>\<open>setattr(entity, field, value)\<close>\<close>
  "set_attr now attached f v e =
     (let (e1, evs) = (if en_kind e = ''client_service'' \<and> f = ''status'' then stamp_status_dates now attached v e
                       else (e, []))
      in (put_attr f v e1, evs))"

section \<open>The fields shown to an author\<close>

record field_info =
  fi_name :: string
  fi_type :: string
  fi_fk :: "string option"
  fi_writable :: bool

definition fld :: "string \<Rightarrow> string \<Rightarrow> string option \<Rightarrow> field_info" where
  "fld n t k = \<lparr>fi_name = n, fi_type = t, fi_fk = k, fi_writable = True\<rparr>"

definition ro :: "string \<Rightarrow> string \<Rightarrow> string option \<Rightarrow> field_info" where
  "ro n t k = \<lparr>fi_name = n, fi_type = t, fi_fk = k, fi_writable = False\<rparr>"

definition RESOURCE_FIELDS :: "(string \<times> field_info list) list" where
  "RESOURCE_FIELDS =
     [(''order'', [fld ''due_date'' ''date'' None, ro ''total'' ''number'' None, fld ''status'' ''string'' None,
         ro ''payment_status'' ''string'' None, ro ''order_type'' ''string'' None, fld ''client_id'' ''uuid'' (Some ''client'')]),
      (''client'', [fld ''name'' ''string'' None, fld ''tax_id'' ''string'' None, fld ''address'' ''string'' None,
         fld ''phone'' ''string'' None, fld ''email'' ''string'' None, fld ''contact'' ''string'' None,
         fld ''observations'' ''string'' None, fld ''advisor_id'' ''uuid'' None, fld ''latitude'' ''number'' None,
         fld ''longitude'' ''number'' None, fld ''service_availability'' ''string'' None,
         fld ''assigned_technician_id'' ''uuid'' None]),
      (''task'', [fld ''name'' ''string'' None, fld ''description'' ''string'' None, fld ''position'' ''number'' None,
         fld ''due_date'' ''date'' None, fld ''status'' ''string'' None]),
      (''invoice'', [fld ''issue_date'' ''date'' None, ro ''subtotal'' ''number'' None, ro ''tax'' ''number'' None,
         ro ''total'' ''number'' None, fld ''details'' ''json'' None, ro ''is_valid'' ''boolean'' None,
         fld ''order_id'' ''uuid'' (Some ''order'')]),
      (''order_item'', [fld ''order_id'' ''uuid'' (Some ''order''), fld ''service_plan_id'' ''uuid'' (Some ''service_plan''),
         fld ''quantity'' ''number'' None]),
      (''service_plan'', [fld ''name'' ''string'' None, fld ''plan_type'' ''string'' None, fld ''download_mbps'' ''number'' None,
         fld ''upload_mbps'' ''number'' None, fld ''price'' ''number'' None, fld ''is_active'' ''boolean'' None,
         fld ''kind'' ''string'' None]),
      (''client_service'', [fld ''status'' ''string'' None, fld ''activation_date'' ''date'' None, fld ''notes'' ''string'' None,
         fld ''client_id'' ''uuid'' (Some ''client''), fld ''service_plan_id'' ''uuid'' (Some ''service_plan''),
         fld ''cpe_item_id'' ''uuid'' (Some ''inventory_item''), fld ''recurrence'' ''string'' None,
         fld ''recurrence_end'' ''date'' None, fld ''next_generation_date'' ''date'' None,
         fld ''last_generated_at'' ''date'' None, fld ''billing_status'' ''string'' None, fld ''quantity'' ''number'' None]),
      (''service_suspension'', [fld ''reason'' ''string'' None, fld ''note'' ''string'' None,
         fld ''reactivated_at'' ''date'' None, fld ''client_service_id'' ''uuid'' (Some ''client_service'')]),
      (''inventory_item'', [fld ''serial_number'' ''string'' None, fld ''mac_address'' ''string'' None,
         fld ''status'' ''string'' None, fld ''condition'' ''string'' None, fld ''notes'' ''string'' None,
         fld ''warehouse_id'' ''uuid'' None, fld ''client_id'' ''uuid'' (Some ''client''),
         fld ''client_service_id'' ''uuid'' (Some ''client_service'')]),
      (''provisioning_job'', [fld ''status'' ''string'' None, fld ''error'' ''string'' None,
         fld ''client_service_id'' ''uuid'' (Some ''client_service'')]),
      (''payment_link'', [ro ''status'' ''string'' None, ro ''amount_cents'' ''number'' None, ro ''currency'' ''string'' None,
         ro ''review_reason'' ''string'' None, ro ''expires_at'' ''date'' None, ro ''paid_at'' ''date'' None,
         ro ''order_id'' ''uuid'' (Some ''order''), ro ''client_id'' ''uuid'' (Some ''client'')])]"

definition get_resource_fields :: "string \<Rightarrow> field_info list" where
  "get_resource_fields kind = (case map_of RESOURCE_FIELDS kind of None \<Rightarrow> [] | Some fs \<Rightarrow> fs)"

definition get_writable_fields :: "string \<Rightarrow> field_info list" where
  "get_writable_fields kind = filter fi_writable (get_resource_fields kind)"

section \<open>Order types and task statuses\<close>

datatype order_type = RECURRING | ONE_SHOT | INSTALLATION

fun order_type_text :: "order_type \<Rightarrow> string" where
  "order_type_text RECURRING = ''RECURRING''"
| "order_type_text ONE_SHOT = ''ONE_SHOT''"
| "order_type_text INSTALLATION = ''INSTALLATION''"

definition derive_order_type :: "string list \<Rightarrow> bool \<Rightarrow> string option \<Rightarrow> order_type" where
  "derive_order_type item_kinds generated_from_billing explicit_order_type =
     (if generated_from_billing then RECURRING
      else if ''INSTALLATION'' \<in> set item_kinds
           \<or> str_upper (case explicit_order_type of None \<Rightarrow> [] | Some t \<Rightarrow> t) = ''INSTALLATION''
        then INSTALLATION else ONE_SHOT)"

definition TASK_STATUSES :: "string list" where
  "TASK_STATUSES = [''PENDING'', ''ASSIGNED'', ''IN_PROGRESS'', ''DONE'']"

definition ASSIGNMENT_STATUSES :: "string list" where
  "ASSIGNMENT_STATUSES = [''PENDING'', ''ASSIGNED'']"

definition derive_status :: "json \<Rightarrow> bool \<Rightarrow> string option" where
  \<comment> \<open>\<open>None\<close> where the code raises \<open>ValueError\<close>\<close>
  "derive_status status has_technician =
     (case status of
        JNull \<Rightarrow> Some (if has_technician then ''ASSIGNED'' else ''PENDING'')
      | JStr s \<Rightarrow>
          (if s \<notin> set TASK_STATUSES then None
           else if s \<in> set ASSIGNMENT_STATUSES then Some (if has_technician then ''ASSIGNED'' else ''PENDING'')
           else Some s)
      | _ \<Rightarrow> None)"

end
