(* ===== verification/Workflow_Engine.thy ===== *)
theory Workflow_Engine
  imports Workflow_Graph Workflow_Rows
begin

text \<open>
  \<open>utils/workflow_engine.py\<close>: which workflows an event fires, the templates of a step's
  configuration, the step actions, the execution of a workflow in topological order, and the
  tasks that wait on the event loop with the depth they carry. An exception of a step is a
  value; \<open>DbError\<close> is the one a flush raises, after which the whole transaction is lost.
  The call of an \<open>HTTP_REQUEST\<close> step and the resolution of a service's path are arguments.
\<close>

section \<open>Workflows and their state\<close>

datatype action_type =
    UPDATE_FIELD | CREATE_ENTITY | HTTP_REQUEST | ENQUEUE_PROVISIONING | CREATE_ORDER | CREATE_TASK

datatype execution_status = RUNNING_EXECUTION | COMPLETED | FAILED_EXECUTION

record wf_trigger =
  tr_resource :: string
  tr_event :: string
  tr_conditions :: json

record wf_step =
  ws_id :: id
  ws_name :: string
  ws_action :: action_type
  ws_config :: json

record workflow =
  wf_id :: id
  wf_company :: id
  wf_active :: bool
  wf_engine :: int
  wf_triggers :: "wf_trigger list"
  wf_steps :: "wf_step list"
  wf_edges :: "(id \<times> id) list"

datatype wf_exn =
    NotADict | UnknownResource json | ReadOnlyResource string | ProtectedFields "string list"
  | ForbiddenType string | MissingKey string | NoField string | NotFound string | NotAUuid string
  | BadValue string | NotOwned string | UnknownColumn string | DbError
  | ProvisioningError exn | GateBlocked gate_failure | RetiredTopology | ExclusiveModes
  | GraphIncomplete nat nat | HttpError string

record execution =
  ex_id :: id
  ex_workflow :: id
  ex_trigger :: json
  ex_status :: execution_status
  ex_error :: "wf_exn option"

record step_execution =
  se_execution :: id
  se_step :: id
  se_name :: string
  se_status :: execution_status
  se_result :: json
  se_error :: "wf_exn option"

record created_trigger =
  ct_company :: id
  ct_resource :: string
  ct_id :: id
  ct_after :: dict

record user_row =
  us_id :: id
  us_company :: id
  us_roles :: "string list"

record integration_row =
  ig_id :: id
  ig_company :: id
  ig_enabled :: bool

record engine =
  eg_rows :: "entity list"
  eg_next :: id
  eg_users :: "user_row list"
  eg_categories :: "(id \<times> json) list"
  eg_integrations :: "integration_row list"
  eg_prov :: db
  eg_active_playbooks :: "id list"
  eg_item_types :: "(id \<times> id) list"
  eg_outbox :: "business_event list"
  eg_executions :: "execution list"
  eg_steps :: "step_execution list"

record wf_context =
  cx_values :: dict
  cx_pending :: "created_trigger list"

record world =
  \<comment> \<open>the clock, the database's constraints, other sessions, the path resolver, the HTTP call\<close>
  wd_now :: int
  wd_accepts :: "entity list \<Rightarrow> bool"
  wd_env :: env
  wd_race :: "db \<Rightarrow> db"
  wd_path :: "db \<Rightarrow> service \<Rightarrow> string \<Rightarrow> exn + resolved"
  wd_http :: "json \<Rightarrow> wf_context \<Rightarrow> id \<Rightarrow> wf_exn + json"

definition MAX_WORKFLOW_DEPTH :: nat where "MAX_WORKFLOW_DEPTH = 3"

section \<open>Templates\<close>

fun until_close :: "string \<Rightarrow> (string \<times> string) option" where
  \<comment> \<open>\<open>(.+?)\}\}\<close>: the shortest non-empty text without a line break before two braces, and the rest\<close>
  "until_close [] = None"
| "until_close (c # cs) =
     (if c = CHR 0x0A then None
      else if prefix ''}}'' cs then Some ([c], drop 2 cs)
      else map_option (\<lambda>(b, r). (c # b, r)) (until_close cs))"

lemma until_close_length: "until_close s = Some (b, r) \<Longrightarrow> length r < length s"
  by (induction s arbitrary: b) (auto split: if_splits dest: less_SucI)

definition get_or_empty :: "string \<Rightarrow> dict \<Rightarrow> string" where
  \<comment> \<open>\<open>str(d.get(k, ""))\<close>\<close>
  "get_or_empty k d = (case map_of d k of None \<Rightarrow> [] | Some v \<Rightarrow> text_of v)"

definition get_in :: "string \<Rightarrow> json \<Rightarrow> string option" where
  \<comment> \<open>\<open>str((v or {}).get(k, ""))\<close>, which raises on anything but a dict\<close>
  "get_in k v = (if \<not> truthy v then Some [] else case v of JDict d \<Rightarrow> Some (get_or_empty k d) | _ \<Rightarrow> None)"

definition PENDING_TRIGGERS_KEY :: string where
  "PENDING_TRIGGERS_KEY = ''_pending_created_triggers''"

definition template_value :: "world \<Rightarrow> wf_context \<Rightarrow> string \<Rightarrow> string option" where
  \<comment> \<open>\<open>replacer\<close>; \<open>None\<close> leaves the text as it is\<close>
  "template_value W cx body =
     (let expr = str_strip body; parts = split_on (CHR ''.'') expr; n = length parts
      in if expr = ''now'' then Some (datetime_text ''T'' (wd_now W))
         else if hd parts = ''trigger'' then
           (case dget ''trigger'' (cx_values cx) of
              JDict trigger \<Rightarrow>
                (if n = 2 then Some (get_or_empty (parts ! 1) trigger)
                 else if 3 \<le> n \<and> parts ! 1 \<in> set [''after'', ''before'']
                   then get_in (parts ! 2) (dget (parts ! 1) trigger)
                 else None)
            | _ \<Rightarrow> None)
         else if hd parts = ''steps'' \<and> 3 \<le> n then
           (if parts ! 1 = PENDING_TRIGGERS_KEY \<and> cx_pending cx \<noteq> [] then None
            else get_in (parts ! 2) (dget (parts ! 1) (cx_values cx)))
         else None)"

function resolve_text :: "world \<Rightarrow> wf_context \<Rightarrow> string \<Rightarrow> string" where
  "resolve_text W cx s =
     (case s of
        [] \<Rightarrow> []
      | c # cs \<Rightarrow>
          (case (if prefix ''{{'' s then until_close (drop 2 s) else None) of
             None \<Rightarrow> c # resolve_text W cx cs
           | Some (body, rest) \<Rightarrow>
               (case template_value W cx body of None \<Rightarrow> ''{{'' @ body @ ''}}'' | Some t \<Rightarrow> t)
                 @ resolve_text W cx rest))"
  by pat_completeness auto
termination
proof (relation "measure (\<lambda>(W, cx, s). length s)", goal_cases)
  case (3 W cx s c cs x body rest)
  then have "until_close (drop 2 s) = Some (body, rest)" by (auto split: if_splits)
  from until_close_length [OF this] show ?case by simp
qed auto

declare resolve_text.simps [simp del]

fun resolve_template :: "world \<Rightarrow> wf_context \<Rightarrow> json \<Rightarrow> json" where
  "resolve_template W cx (JStr s) = JStr (resolve_text W cx s)"
| "resolve_template W cx (JDict d) = JDict (map (\<lambda>p. (fst p, resolve_template W cx (snd p))) d)"
| "resolve_template W cx (JList xs) = JList (map (resolve_template W cx) xs)"
| "resolve_template W cx v = v"

section \<open>Matching\<close>

definition norm :: "json \<Rightarrow> string" where "norm v = text_of v"

definition matches_field_conditions :: "json \<Rightarrow> json \<Rightarrow> json \<Rightarrow> bool" where
  \<comment> \<open>\<open>before\<close> and \<open>after\<close> are a dict or \<open>JNull\<close>; a field is a name\<close>
  "matches_field_conditions conditions before after =
     (let field = as_str (jget ''field'' conditions);
          operator = jget ''operator'' conditions;
          wanted = norm (jget ''value'' conditions);
          old = norm (jget field before); new = norm (jget field after)
      in if conditions = JNull \<or> field = [] \<or> \<not> truthy operator then True
         else if operator = JStr ''changed''
           then (if truthy before \<and> truthy after then old \<noteq> new else True)
         else if operator = JStr ''changed_to''
           then truthy after \<and> (\<not> truthy before \<or> old \<noteq> wanted) \<and> new = wanted
         else if operator = JStr ''changed_from''
           then truthy before \<and> old = wanted \<and> (\<not> truthy after \<or> new \<noteq> wanted)
         else if operator = JStr ''equals'' then truthy after \<and> new = wanted
         else True)"

definition fires :: "id \<Rightarrow> string \<Rightarrow> string \<Rightarrow> json \<Rightarrow> json \<Rightarrow> workflow \<Rightarrow> bool" where
  "fires company resource event before after w \<longleftrightarrow>
     wf_company w = company \<and> wf_active w \<and> wf_engine w = 1 \<and>
     list_ex (\<lambda>t. tr_resource t = resource \<and> tr_event t = event) (wf_triggers w) \<and>
     list_ex (\<lambda>t. tr_resource t = resource \<and> tr_event t = event
        \<and> matches_field_conditions (tr_conditions t) before after) (wf_triggers w)"

definition find_matching_workflows ::
  "workflow list \<Rightarrow> id \<Rightarrow> string \<Rightarrow> string \<Rightarrow> json \<Rightarrow> json \<Rightarrow> workflow list" where
  \<comment> \<open>the join gives a workflow once per matching trigger; the copies are dropped by id\<close>
  "find_matching_workflows ws company resource event before after =
     (let joined = concat (map (\<lambda>w. replicate (length (filter (\<lambda>t. tr_resource t = resource \<and> tr_event t = event) (wf_triggers w))) w)
                     (filter (\<lambda>w. wf_company w = company \<and> wf_active w \<and> wf_engine w = 1) ws))
      in fold (\<lambda>w matched.
           if wf_id w \<in> set (map wf_id matched) then matched
           else if list_ex (\<lambda>t. tr_resource t = resource \<and> tr_event t = event
                     \<and> matches_field_conditions (tr_conditions t) before after) (wf_triggers w)
             then matched @ [w] else matched) joined [])"

section \<open>Updating and creating rows\<close>

definition UPDATE_FIELD_DENYLIST :: "(string \<times> string list) list" where
  "UPDATE_FIELD_DENYLIST =
     [(''order'', [''paid'', ''payment_status'', ''payment_date'', ''total'', ''total_cents'']),
      (''invoice'', [''is_valid'', ''subtotal'', ''tax'', ''total'', ''subtotal_cents'', ''tax_cents'', ''total_cents'']),
      (''client_service'', [''migration_source'']), (''service_plan'', [''migration_source''])]"

definition CREATE_ENTITY_FORBIDDEN_TYPES :: "string list" where
  "CREATE_ENTITY_FORBIDDEN_TYPES = [''invoice'']"

definition CREATE_ENTITY_FIELD_DENYLIST :: "(string \<times> string list) list" where
  "CREATE_ENTITY_FIELD_DENYLIST =
     [(''order'', [''paid'', ''payment_status'', ''payment_date'', ''total'', ''total_cents'']),
      (''client_service'', [''migration_source'']), (''service_plan'', [''migration_source''])]"

definition READ_ONLY_RESOURCE_TYPES :: "string list" where
  "READ_ONLY_RESOURCE_TYPES = [''payment_link'']"

definition listed :: "(string \<times> string list) list \<Rightarrow> string \<Rightarrow> string list" where
  \<comment> \<open>\<open>DENYLIST.get(resource_type, frozenset())\<close>\<close>
  "listed table kind = (case map_of table kind of None \<Rightarrow> [] | Some fs \<Rightarrow> fs)"

definition denied :: "(string \<times> string list) list \<Rightarrow> string \<Rightarrow> dict \<Rightarrow> string list" where
  "denied table kind d = sort (remdups (filter (\<lambda>f. f \<in> set (listed table kind)) (map fst d)))"

definition known_type :: "json \<Rightarrow> wf_exn + string" where
  "known_type v = (case v of JStr k \<Rightarrow> guardR (k \<notin> set KNOWN_RESOURCE_TYPES) (UnknownResource v) (Inr k) | _ \<Rightarrow> Inl (UnknownResource v))"

definition refuse_read_only :: "string \<Rightarrow> wf_exn + unit" where
  "refuse_read_only kind = guardR (kind \<in> set READ_ONLY_RESOURCE_TYPES) (ReadOnlyResource kind) (Inr ())"

definition dict_arg :: "string \<Rightarrow> json \<Rightarrow> wf_exn + dict" where
  \<comment> \<open>\<open>config.get(key, {})\<close> where a dict is needed\<close>
  "dict_arg key config =
     (case map_of (as_dict config) key of None \<Rightarrow> Inr [] | Some (JDict d) \<Rightarrow> Inr d | Some v \<Rightarrow> Inl NotADict)"

fun set_attrs :: "int \<Rightarrow> bool \<Rightarrow> dict \<Rightarrow> entity \<Rightarrow> entity \<times> business_event list" where
  \<comment> \<open>\<open>for field, value in updates.items(): if hasattr(...): setattr(...)\<close>\<close>
  "set_attrs now attached [] e = (e, [])"
| "set_attrs now attached ((f, v) # us) e =
     (if has_column (en_kind e) f then
        (let (e1, evs) = set_attr (now_gt now) attached f v e; (e2, evs') = set_attrs now attached us e1
         in (e2, evs @ evs'))
      else set_attrs now attached us e)"

fun update_all :: "(entity \<Rightarrow> bool) \<Rightarrow> int \<Rightarrow> dict \<Rightarrow> entity list \<Rightarrow> entity list \<times> business_event list \<times> json list" where
  \<comment> \<open>every row that matches; the ids of the updated rows\<close>
  "update_all P now us [] = ([], [], [])"
| "update_all P now us (e # es) =
     (let (es', evs, ids) = update_all P now us es
      in if P e then (let (e', ev) = set_attrs now True us e in (e' # es', ev @ evs, attr ''id'' e' # ids))
         else (e # es', evs, ids))"

fun update_first :: "(entity \<Rightarrow> bool) \<Rightarrow> int \<Rightarrow> dict \<Rightarrow> entity list \<Rightarrow> entity list \<times> business_event list" where
  "update_first P now us [] = ([], [])"
| "update_first P now us (e # es) =
     (if P e then (let (e', ev) = set_attrs now True us e in (e' # es, ev))
      else (let (es', evs) = update_first P now us es in (e # es', evs)))"

definition flush_rows :: "world \<Rightarrow> entity list \<Rightarrow> business_event list \<Rightarrow> engine \<Rightarrow> wf_exn + engine" where
  \<comment> \<open>\<open>db.flush()\<close>: the constraints of the database decide\<close>
  "flush_rows W rows evs eg =
     guardR (\<not> wd_accepts W rows) DbError (Inr (eg\<lparr>eg_rows := rows, eg_outbox := eg_outbox eg @ evs\<rparr>))"

definition trigger_id :: "wf_context \<Rightarrow> wf_exn + json" where
  \<comment> \<open>\<open>context["trigger"]["resource_id"]\<close>\<close>
  "trigger_id cx =
     (case map_of (as_dict (dget ''trigger'' (cx_values cx))) ''resource_id'' of
        None \<Rightarrow> Inl (MissingKey ''resource_id'') | Some v \<Rightarrow> Inr v)"

definition update_matching ::
  "world \<Rightarrow> engine \<Rightarrow> string \<Rightarrow> dict \<Rightarrow> string \<Rightarrow> json \<Rightarrow> id \<Rightarrow> wf_exn + engine \<times> json" where
  \<comment> \<open>every row of the company whose field is the trigger's resource id\<close>
  "update_matching W eg kind updates match_field rid company =
     guardR (\<not> has_column kind match_field) (NoField match_field)
       (guardR (\<not> has_column kind ''company_id'') (NoField ''company_id'')
         (let P = (\<lambda>e. en_kind e = kind \<and> attr match_field e = rid \<and> attr ''company_id'' e = id_text company);
              (rows, evs, ids) = update_all P (wd_now W) updates (eg_rows eg)
          in bindR (flush_rows W rows evs eg) (\<lambda>eg'.
               Inr (eg', JDict [(''updated_fields'', JList (if ids = [] then [] else map JStr (filter (has_column kind) (map fst updates)))),
                                (''updated_count'', JInt (int (length ids))),
                                (''updated_ids'', JList (map (\<lambda>i. JStr (text_of i)) ids)),
                                (''match_field'', JStr match_field)]))))"

definition update_one :: "world \<Rightarrow> engine \<Rightarrow> string \<Rightarrow> dict \<Rightarrow> json \<Rightarrow> id \<Rightarrow> wf_exn + engine \<times> json" where
  "update_one W eg kind updates rid company =
     guardR (\<not> truthy rid) (MissingKey ''resource_id'')
       (guardR (\<not> has_column kind ''company_id'') (NoField ''company_id'')
         (guardR (find (is_row kind rid company) (eg_rows eg) = None) (NotFound kind)
           (let (rows, evs) = update_first (is_row kind rid company) (wd_now W) updates (eg_rows eg)
            in bindR (flush_rows W rows evs eg) (\<lambda>eg'.
                 Inr (eg', JDict [(''updated_fields'', JList (map JStr (filter (has_column kind) (map fst updates)))),
                                  (''resource_id'', JStr (text_of rid))])))))"

definition execute_update_field :: "world \<Rightarrow> engine \<Rightarrow> json \<Rightarrow> wf_context \<Rightarrow> id \<Rightarrow> wf_exn + engine \<times> json" where
  "execute_update_field W eg config cx company =
     bindR (known_type (jget ''resource_type'' config)) (\<lambda>kind.
     bindR (refuse_read_only kind) (\<lambda>_.
     bindR (dict_arg ''updates'' config) (\<lambda>updates.
     guardR (denied UPDATE_FIELD_DENYLIST kind updates \<noteq> []) (ProtectedFields (denied UPDATE_FIELD_DENYLIST kind updates))
       (let source = (case map_of (as_dict config) ''resource_id_source'' of None \<Rightarrow> JStr ''trigger'' | Some v \<Rightarrow> v)
        in if source = JStr ''match_field'' then
             guardR (as_str (jget ''match_field'' config) = []) (MissingKey ''match_field'')
               (bindR (trigger_id cx) (\<lambda>rid.
                update_matching W eg kind updates (as_str (jget ''match_field'' config)) rid company))
           else
             bindR (if source = JStr ''trigger'' then trigger_id cx else Inr (jget ''resource_id'' config)) (\<lambda>rid.
               update_one W eg kind updates rid company)))))"

definition fresh :: "dict \<Rightarrow> engine \<Rightarrow> dict" where
  \<comment> \<open>the primary key, unless it was given; other column defaults are left out\<close>
  "fresh d eg = (if dget ''id'' d = JNull then dput ''id'' (id_text (eg_next eg)) d else d)"

definition insert_entity :: "world \<Rightarrow> engine \<Rightarrow> string \<Rightarrow> dict \<Rightarrow> wf_exn + engine \<times> json" where
  \<comment> \<open>\<open>model_class(**data)\<close>, added and flushed\<close>
  "insert_entity W eg kind data =
     guardR (\<not> list_all (has_column kind) (map fst data)) (UnknownColumn kind)
       (let (e, evs) = set_attrs (wd_now W) False data \<lparr>en_kind = kind, en_attrs = []\<rparr>;
            e1 = e\<lparr>en_attrs := fresh (en_attrs e) eg\<rparr>
        in bindR (flush_rows W (eg_rows eg @ [e1]) evs (eg\<lparr>eg_next := Suc (eg_next eg)\<rparr>)) (\<lambda>eg'.
             Inr (eg', JDict [(''created_resource_type'', JStr kind), (''resource_id'', JStr (text_of (attr ''id'' e1)))])))"

definition execute_create_entity :: "world \<Rightarrow> engine \<Rightarrow> json \<Rightarrow> wf_context \<Rightarrow> id \<Rightarrow> wf_exn + engine \<times> json" where
  "execute_create_entity W eg config cx company =
     bindR (known_type (jget ''resource_type'' config)) (\<lambda>kind.
     bindR (refuse_read_only kind) (\<lambda>_.
     guardR (kind \<in> set CREATE_ENTITY_FORBIDDEN_TYPES) (ForbiddenType kind)
     (bindR (dict_arg ''data'' config) (\<lambda>data.
      guardR (denied CREATE_ENTITY_FIELD_DENYLIST kind data \<noteq> []) (ProtectedFields (denied CREATE_ENTITY_FIELD_DENYLIST kind data))
       (insert_entity W eg kind (dput ''company_id'' (id_text company) data))))))"

section \<open>Creating an order\<close>

definition required_uuid :: "json \<Rightarrow> string \<Rightarrow> wf_exn + id" where
  "required_uuid v field = (case uuid_of v of None \<Rightarrow> Inl (NotAUuid field) | Some i \<Rightarrow> Inr i)"

definition uuid_or_none :: "json \<Rightarrow> id option" where
  "uuid_or_none v = (if truthy v then uuid_of v else None)"

definition decimal_of :: "string \<Rightarrow> (int \<times> int) option" where
  \<comment> \<open>the \<open>repr\<close> of a finite float, as an integer and a power of ten\<close>
  "decimal_of s =
     (let (sign, t) = (case s of c # r \<Rightarrow> (if c = CHR ''-'' then (-1, r) else (1, s)) | [] \<Rightarrow> (1, s));
          (m, e) = (case split_on (CHR ''e'') t of [m] \<Rightarrow> (m, ''0'') | m # e # _ \<Rightarrow> (m, e) | [] \<Rightarrow> ([], []));
          (a, b) = (case split_on (CHR ''.'') m of [a] \<Rightarrow> (a, []) | a # b # _ \<Rightarrow> (a, b) | [] \<Rightarrow> ([], []))
      in if a \<noteq> [] \<and> list_all is_digit (a @ b) then
           map_option (\<lambda>x. (sign * int (read_nat (a @ b)), x - int (length b))) (py_int e)
         else None)"

definition scaled :: "int \<times> int \<Rightarrow> int" where
  \<comment> \<open>the number, rounded half away from zero\<close>
  "scaled p =
     (case p of (m, e) \<Rightarrow>
        (if 0 \<le> e then m * 10 ^ nat e
         else (let k = 10 ^ nat (- e); q = (2 * \<bar>m\<bar> + k) div (2 * k) in if m < 0 then - q else q)))"

definition cents_from_float :: "json \<Rightarrow> wf_exn + int" where
  "cents_from_float amount =
     (case (if truthy amount then amount else JInt 0) of
        JInt i \<Rightarrow> Inr (i * 100)
      | JFloat s \<Rightarrow> (case decimal_of s of None \<Rightarrow> Inl (BadValue s) | Some (m, e) \<Rightarrow> Inr (scaled (m, e + 2)))
      | v \<Rightarrow> Inl (BadValue (text_of v)))"

definition cents_as_float :: "int \<Rightarrow> json" where
  \<comment> \<open>\<open>cents / 100\<close>, whose \<open>repr\<close> is this text below two to the 53\<close>
  "cents_as_float c =
     JFloat ((if c < 0 then ''-'' else []) @ show_nat (nat (\<bar>c\<bar> div 100)) @ ''.'' @
       (if \<bar>c\<bar> mod 10 = 0 then show_nat (nat (\<bar>c\<bar> mod 100 div 10)) else padded 2 (\<bar>c\<bar> mod 100)))"

definition int_of :: "json \<Rightarrow> int option" where
  \<comment> \<open>\<open>int(value)\<close>\<close>
  "int_of v =
     (case v of
        JInt i \<Rightarrow> Some i
      | JBool b \<Rightarrow> Some (if b then 1 else 0)
      | JStr s \<Rightarrow> py_int s
      | JFloat s \<Rightarrow> map_option (\<lambda>(m, e). if 0 \<le> e then m * 10 ^ nat e
                      else (if m < 0 then - (\<bar>m\<bar> div 10 ^ nat (- e)) else m div 10 ^ nat (- e))) (decimal_of s)
      | _ \<Rightarrow> None)"

definition full_row :: "string \<Rightarrow> dict \<Rightarrow> entity" where
  \<comment> \<open>a flushed row: every column of its type, absent ones null\<close>
  "full_row kind vals =
     \<lparr>en_kind = kind, en_attrs = map (\<lambda>c. (c, dget c vals)) (case map_of model_columns kind of None \<Rightarrow> [] | Some cs \<Rightarrow> cs)\<rparr>"

definition owned_row :: "string \<Rightarrow> id \<Rightarrow> id \<Rightarrow> engine \<Rightarrow> wf_exn + entity" where
  "owned_row kind i company eg =
     (case get_row kind i company (eg_rows eg) of None \<Rightarrow> Inl (NotFound kind) | Some e \<Rightarrow> Inr e)"

definition is_install_order :: "id \<Rightarrow> id \<Rightarrow> entity \<Rightarrow> bool" where
  \<comment> \<open>the live installation order of a service\<close>
  "is_install_order company svc e \<longleftrightarrow>
     en_kind e = ''order'' \<and> attr ''company_id'' e = id_text company \<and> attr ''client_service_id'' e = id_text svc \<and>
     attr ''order_type'' e = JStr ''INSTALLATION'' \<and> attr ''status'' e \<noteq> JStr ''CANCELLED'' \<and> attr ''status'' e \<noteq> JNull"

fun plan_ids_of :: "json list \<Rightarrow> wf_exn + id list" where
  "plan_ids_of [] = Inr []"
| "plan_ids_of (item # items) =
     guardR (\<not> is_dict item) NotADict
       (if truthy (jget ''service_plan_id'' item)
        then bindR (required_uuid (jget ''service_plan_id'' item) ''items[].service_plan_id'') (\<lambda>i.
             bindR (plan_ids_of items) (\<lambda>is. Inr (i # is)))
        else plan_ids_of items)"

record order_line =
  ol_plan :: id
  ol_quantity :: int
  ol_cents :: int
  ol_name :: json
  ol_kind :: string

fun order_lines :: "engine \<Rightarrow> id \<Rightarrow> json list \<Rightarrow> wf_exn + order_line list" where
  \<comment> \<open>\<open>for item in items\<close>\<close>
  "order_lines eg company [] = Inr []"
| "order_lines eg company (item # items) =
     (let raw = (case map_of (as_dict item) ''quantity'' of None \<Rightarrow> JInt 1 | Some v \<Rightarrow> v)
      in case int_of raw of
           None \<Rightarrow> Inl (BadValue ''quantity'')
         | Some quantity \<Rightarrow>
             guardR (quantity \<le> 0) (BadValue ''quantity'')
               (bindR (required_uuid (jget ''service_plan_id'' item) ''items[].service_plan_id'') (\<lambda>pid.
                bindR (owned_row ''service_plan'' pid company eg) (\<lambda>plan.
                bindR (case attr ''price_cents'' plan of JInt c \<Rightarrow> Inr c | _ \<Rightarrow> cents_from_float (attr ''price'' plan)) (\<lambda>unit.
                bindR (order_lines eg company items) (\<lambda>ls.
                  Inr (\<lparr>ol_plan = pid, ol_quantity = quantity, ol_cents = unit, ol_name = attr ''name'' plan,
                        ol_kind = text_of (attr ''kind'' plan)\<rparr> # ls)))))))"

definition line_row :: "id \<Rightarrow> json \<Rightarrow> id \<times> order_line \<Rightarrow> entity" where
  "line_row order now p =
     (case p of (i, l) \<Rightarrow>
        full_row ''order_item''
          [(''id'', id_text i), (''created_at'', now), (''order_id'', id_text order), (''service_plan_id'', id_text (ol_plan l)),
           (''quantity'', JInt (ol_quantity l)), (''unit_price_cents'', JInt (ol_cents l)), (''product_name'', ol_name l)])"

definition order_row :: "world \<Rightarrow> id \<Rightarrow> id \<Rightarrow> json \<Rightarrow> json \<Rightarrow> order_type \<Rightarrow> int \<Rightarrow> int \<Rightarrow> entity" where
  "order_row W i company client svc ot cents due =
     full_row ''order''
       [(''id'', id_text i), (''created_at'', now_gt (wd_now W)), (''due_date'', now_gt due), (''total'', cents_as_float cents),
        (''total_cents'', JInt cents), (''paid'', JBool False), (''status'', JStr ''ACTIVE''),
        (''order_type'', JStr (order_type_text ot)), (''payment_status'', JStr ''PENDING''), (''company_id'', id_text company),
        (''client_id'', client), (''client_service_id'', svc)]"

definition queue_created_trigger :: "id \<Rightarrow> string \<Rightarrow> id \<Rightarrow> dict \<Rightarrow> wf_context \<Rightarrow> wf_context" where
  "queue_created_trigger company resource i after cx =
     cx\<lparr>cx_pending := cx_pending cx @ [\<lparr>ct_company = company, ct_resource = resource, ct_id = i, ct_after = after\<rparr>]\<rparr>"

definition opt_id :: "id option \<Rightarrow> json" where
  "opt_id i = (case i of None \<Rightarrow> JNull | Some i \<Rightarrow> id_text i)"

definition due_at :: "world \<Rightarrow> json \<Rightarrow> wf_exn + int" where
  \<comment> \<open>\<open>now_gt() + timedelta(days=int(v))\<close>\<close>
  "due_at W v =
     (case Option.bind (int_of v) (plus_days (wd_now W)) of
        None \<Rightarrow> Inl (BadValue ''due_date_offset_days'') | Some t \<Rightarrow> Inr t)"

definition order_client :: "json \<Rightarrow> entity option \<Rightarrow> id \<Rightarrow> engine \<Rightarrow> wf_exn + json" where
  \<comment> \<open>the client of the order: named and owned, or the service's\<close>
  "order_client v svc company eg =
     (if truthy v
      then bindR (required_uuid v ''client_id'') (\<lambda>i. bindR (owned_row ''client'' i company eg) (\<lambda>_. Inr (id_text i)))
      else Inr (case svc of None \<Rightarrow> JNull | Some s \<Rightarrow> attr ''client_id'' s))"

definition insert_order ::
  "world \<Rightarrow> engine \<Rightarrow> wf_context \<Rightarrow> id \<Rightarrow> json \<Rightarrow> id option \<Rightarrow> order_type \<Rightarrow> order_line list \<Rightarrow> int
     \<Rightarrow> wf_exn + engine \<times> wf_context \<times> json" where
  \<comment> \<open>the order and its lines, added and flushed, and the trigger queued\<close>
  "insert_order W eg cx company client svc ot ls due =
     (let oid = eg_next eg; cents = sum_list (map (\<lambda>l. ol_cents l * ol_quantity l) ls);
          order = order_row W oid company client (opt_id svc) ot cents due;
          lines = map (line_row oid (now_gt (wd_now W))) (zip [Suc oid..<Suc oid + length ls] ls)
      in bindR (flush_rows W (eg_rows eg @ order # lines) [] (eg\<lparr>eg_next := Suc oid + length ls\<rparr>)) (\<lambda>eg'.
           Inr (eg', queue_created_trigger company ''order'' oid (en_attrs order) cx,
                JDict [(''deduped'', JBool False), (''created_resource_type'', JStr ''order''),
                       (''resource_id'', id_text oid), (''order_type'', JStr (order_type_text ot)),
                       (''total_cents'', JInt cents)])))"

definition execute_create_order ::
  "world \<Rightarrow> engine \<Rightarrow> json \<Rightarrow> wf_context \<Rightarrow> id \<Rightarrow> wf_exn + engine \<times> wf_context \<times> json" where
  "execute_create_order W eg config cx company =
     (let explicit = jget ''order_type'' config; sid = jget ''client_service_id'' config
      in bindR (if truthy sid \<or> explicit = JStr ''INSTALLATION''
                then bindR (required_uuid sid ''client_service_id'') (\<lambda>i.
                     bindR (owned_row ''client_service'' i company eg) (\<lambda>s. Inr (Some (i, s))))
                else Inr None) (\<lambda>service.
         bindR (order_client (jget ''client_id'' config) (map_option snd service) company eg) (\<lambda>client.
         let items = jget ''items'' config
         in guardR (\<not> (is_list items \<and> as_list items \<noteq> [])) (BadValue ''items'')
           (bindR (plan_ids_of (as_list items)) (\<lambda>plan_ids.
            guardR (length plan_ids \<noteq> length (as_list items)) (MissingKey ''service_plan_id'')
            (guardR (list_ex (\<lambda>i. get_row ''service_plan'' i company (eg_rows eg) = None) plan_ids) (NotFound ''service_plan'')
             (bindR (order_lines eg company (as_list items)) (\<lambda>ls.
              guardR (truthy explicit \<and> \<not> is_str explicit) (BadValue ''order_type'')
              (let ot = derive_order_type (filter (\<lambda>k. k \<noteq> []) (map ol_kind ls)) False (Some (as_str explicit));
                   existing = Option.bind service (\<lambda>(i, s). find (is_install_order company i) (eg_rows eg))
               in guardR (ot = INSTALLATION \<and> service = None) (MissingKey ''client_service_id'')
                 (case (if ot = INSTALLATION then existing else None) of
                    Some e \<Rightarrow> Inr (eg, cx, JDict [(''deduped'', JBool True), (''created_resource_type'', JStr ''order''),
                                                  (''resource_id'', JStr (text_of (attr ''id'' e)))])
                  | None \<Rightarrow>
                      bindR (due_at W (let v = jget ''due_date_offset_days'' config in if truthy v then v else JInt 0)) (\<lambda>due.
                      insert_order W eg cx company client (map_option fst service) ot ls due)))))))))))"

section \<open>Creating a task\<close>

definition LINKED_TYPES :: "string list" where
  "LINKED_TYPES = [''CLIENT'', ''ORDER'', ''CLIENT_SERVICE'', ''INVENTORY_ITEM'']"

definition JOB_KINDS :: "string list" where
  "JOB_KINDS = [''INSTALL'', ''FAULT'', ''CHANGE'', ''REMOVE'', ''SUSPEND'', ''MAINTENANCE'', ''RELOCATION'', ''RECONNECT'']"

definition or_none :: "json \<Rightarrow> json" where
  \<comment> \<open>\<open>v or None\<close>\<close>
  "or_none v = (if truthy v then v else JNull)"

record task_links =
  tl_client :: json
  tl_service :: json
  tl_item :: json
  tl_category :: json

definition resolve_links :: "engine \<Rightarrow> id \<Rightarrow> string option \<Rightarrow> id option \<Rightarrow> json \<Rightarrow> task_links" where
  \<comment> \<open>the explicit columns, from the link; a link to nothing of the company leaves them null\<close>
  "resolve_links eg company kind target override =
     (let none = \<lparr>tl_client = override, tl_service = JNull, tl_item = JNull, tl_category = JNull\<rparr>
      in case (kind, target) of
           (Some k, Some i) \<Rightarrow>
             (if k = ''CLIENT'' then none\<lparr>tl_client := (if override = JNull then id_text i else override)\<rparr>
              else if k = ''CLIENT_SERVICE'' then
                (case get_row ''client_service'' i company (eg_rows eg) of
                   None \<Rightarrow> none
                 | Some s \<Rightarrow> none\<lparr>tl_service := id_text i, tl_client := (if override = JNull then attr ''client_id'' s else override)\<rparr>)
              else if k = ''INVENTORY_ITEM'' then
                (case Option.bind (get_row ''inventory_item'' i company (eg_rows eg))
                        (\<lambda>e. Option.bind (uuid_of (attr ''device_type_id'' e)) (map_of (eg_categories eg))) of
                   None \<Rightarrow> none
                 | Some category \<Rightarrow> none\<lparr>tl_item := id_text i, tl_category := category\<rparr>)
              else none)
         | _ \<Rightarrow> none)"

definition technicians :: "engine \<Rightarrow> id \<Rightarrow> id list \<Rightarrow> user_row list" where
  "technicians eg company ids =
     filter (\<lambda>u. us_id u \<in> set ids \<and> us_company u = company \<and> ''TECHNICIAN'' \<in> set (us_roles u)) (eg_users eg)"

definition assignees :: "engine \<Rightarrow> id \<Rightarrow> string \<Rightarrow> entity option \<Rightarrow> id list \<Rightarrow> id list \<times> user_row list" where
  \<comment> \<open>the wanted ids and the users assigned\<close>
  "assignees eg company source client fixed_ids =
     (if source = ''client_technician'' then
        (let first = (case client of None \<Rightarrow> [] | Some c \<Rightarrow>
               (case uuid_of (attr ''assigned_technician_id'' c) of None \<Rightarrow> [] | Some i \<Rightarrow> [i]));
             found = technicians eg company first
         in if found \<noteq> [] then (first, found) else (first @ fixed_ids, technicians eg company fixed_ids))
      else if source = ''fixed'' then (fixed_ids, technicians eg company fixed_ids)
      else ([], []))"

definition next_position :: "engine \<Rightarrow> id \<Rightarrow> string \<Rightarrow> int" where
  \<comment> \<open>\<open>max(position) + 1\<close> among the tasks of that status, or 0\<close>
  "next_position eg company status =
     (let ps = List.map_filter (\<lambda>e. if en_kind e = ''task'' \<and> attr ''status'' e = JStr status \<and> attr ''company_id'' e = id_text company
                 then (case attr ''position'' e of JInt p \<Rightarrow> Some p | _ \<Rightarrow> None) else None) (eg_rows eg)
      in case ps of [] \<Rightarrow> 0 | p # qs \<Rightarrow> fold max qs p + 1)"

definition task_row :: "world \<Rightarrow> id \<Rightarrow> id \<Rightarrow> json \<Rightarrow> string \<Rightarrow> int \<Rightarrow> json \<Rightarrow> string option \<Rightarrow> id option \<Rightarrow> json \<Rightarrow> task_links \<Rightarrow> entity" where
  "task_row W i company config status position due kind target job_kind links =
     full_row ''task''
       [(''id'', id_text i), (''created_at'', now_gt (wd_now W)), (''updated_at'', now_gt (wd_now W)),
        (''name'', JStr (text_of (jget ''name'' config))), (''description'', jget ''description'' config), (''position'', JInt position),
        (''due_date'', due), (''linked_object_type'', case kind of None \<Rightarrow> JNull | Some k \<Rightarrow> JStr k),
        (''linked_object_id'', opt_id target), (''job_kind'', job_kind), (''status'', JStr status), (''step_progress'', JDict []),
        (''client_id'', tl_client links), (''client_service_id'', tl_service links), (''device_category_id'', tl_category links),
        (''inventory_item_id'', tl_item links), (''onu_auto_assigned'', JBool False), (''company_id'', id_text company)]"

definition task_target :: "json \<Rightarrow> wf_exn + string option \<times> id option" where
  \<comment> \<open>the linked object: its type and id, when a type is given\<close>
  "task_target config =
     (let raw = jget ''linked_object_type'' config
      in if \<not> truthy raw then Inr (None, None)
         else guardR (\<not> (is_str raw \<and> as_str raw \<in> set LINKED_TYPES)) (BadValue ''linked_object_type'')
                (bindR (required_uuid (jget ''linked_object_id'' config) ''linked_object_id'') (\<lambda>i. Inr (Some (as_str raw), Some i))))"

definition insert_task ::
  "world \<Rightarrow> engine \<Rightarrow> wf_context \<Rightarrow> id \<Rightarrow> json \<Rightarrow> string \<Rightarrow> json \<Rightarrow> string option \<Rightarrow> id option \<Rightarrow> json \<Rightarrow> task_links
     \<Rightarrow> user_row list \<Rightarrow> id list \<Rightarrow> wf_exn + engine \<times> wf_context \<times> json" where
  \<comment> \<open>the task, added and flushed, and the trigger queued\<close>
  "insert_task W eg cx company config status due kind target job_kind links found skipped =
     (let tid = eg_next eg;
          task = task_row W tid company config status (next_position eg company status) due kind target job_kind links
      in bindR (flush_rows W (eg_rows eg @ [task]) [] (eg\<lparr>eg_next := Suc tid\<rparr>)) (\<lambda>eg'.
           Inr (eg', queue_created_trigger company ''task'' tid (en_attrs task) cx,
                JDict ([(''created_resource_type'', JStr ''task''), (''resource_id'', id_text tid),
                        (''status'', JStr status), (''assignee_ids'', JList (map (\<lambda>u. id_text (us_id u)) found))]
                  @ (if skipped = [] then []
                     else [(''skipped_assignee_ids'', JList (map id_text skipped)),
                           (''warning'', JStr (''ASSIGNEE_NOT_TECHNICIAN: skipped '' @ show_nat (length skipped)
                              @ '' assignee(s) without the TECHNICIAN role in this company''))])))))"

definition execute_create_task ::
  "world \<Rightarrow> engine \<Rightarrow> json \<Rightarrow> wf_context \<Rightarrow> id \<Rightarrow> wf_exn + engine \<times> wf_context \<times> json" where
  "execute_create_task W eg config cx company =
     (let name = jget ''name'' config
      in guardR (\<not> truthy name \<or> str_strip (text_of name) = []) (MissingKey ''name'')
        (bindR (task_target config) (\<lambda>(kind, target).
         let links0 = resolve_links eg company kind target (opt_id (uuid_or_none (jget ''client_id'' config)));
             client = Option.bind (uuid_of (tl_client links0)) (\<lambda>i. get_row ''client'' i company (eg_rows eg));
             links = (if client = None then links0\<lparr>tl_client := JNull\<rparr> else links0);
             job_kind = jget ''job_kind'' config
         in guardR (truthy job_kind \<and> text_of job_kind \<notin> set JOB_KINDS) (BadValue ''job_kind'')
           (let raw_source = jget ''assignee_source'' config;
                source = (if truthy raw_source then raw_source else JStr ''none'')
            in guardR (source \<notin> set (map JStr [''client_technician'', ''fixed'', ''none''])) (BadValue ''assignee_source'')
              (let fixed_ids = List.map_filter uuid_of (as_list (jget ''assignee_ids'' config));
                   (wanted, found) = assignees eg company (as_str source) client fixed_ids;
                   skipped = filter (\<lambda>i. i \<notin> us_id ` set found) (dedup wanted)
               in case derive_status (or_none (jget ''status'' config)) (found \<noteq> []) of
                    None \<Rightarrow> Inl (BadValue ''status'')
                  | Some status \<Rightarrow>
                      bindR (if jget ''due_date_offset_days'' config \<noteq> JNull
                             then bindR (due_at W (jget ''due_date_offset_days'' config)) (\<lambda>t. Inr (now_gt t))
                             else Inr JNull) (\<lambda>due.
                      insert_task W eg cx company config status due kind target
                        (if truthy job_kind then JStr (text_of job_kind) else JNull) links found skipped))))))"

section \<open>Enqueueing provisioning\<close>

definition key_arg :: "json \<Rightarrow> string option" where
  \<comment> \<open>\<open>config.get("idempotency_key") or None\<close>\<close>
  "key_arg v = (if truthy v then Some (text_of v) else None)"

definition variables_arg :: "json \<Rightarrow> wf_exn + dict" where
  \<comment> \<open>\<open>{input_key(str(k)): v for k, v in (v or {}).items()}\<close>\<close>
  "variables_arg v =
     (if \<not> truthy v then Inr []
      else case v of JDict d \<Rightarrow> Inr (dict_update [] (map (\<lambda>p. (input_key (fst p), snd p)) d)) | _ \<Rightarrow> Inl NotADict)"

definition deduped :: "string \<Rightarrow> id \<Rightarrow> string \<Rightarrow> json" where
  "deduped what i key =
     JDict [(''enqueued'', JBool False), (''deduped'', JBool True), (what, id_text i), (''idempotency_key'', JStr key)]"

definition skipped_enqueue :: json where
  "skipped_enqueue =
     JDict [(''enqueued'', JBool False), (''skipped'', JBool True), (''reason'', JStr ''NO_CLIENT_SERVICE_TARGET'')]"

definition path_purpose :: "json \<Rightarrow> string" where
  "path_purpose v = str_upper (str_strip (if truthy v then text_of v else PURPOSE_ACTIVATION))"

definition execute_enqueue_provisioning_path :: "world \<Rightarrow> engine \<Rightarrow> json \<Rightarrow> id \<Rightarrow> wf_exn + engine \<times> json" where
  "execute_enqueue_provisioning_path W eg config company =
     (case uuid_or_none (jget ''client_service_id'' config) of
        None \<Rightarrow> Inr (eg, skipped_enqueue)
      | Some rid \<Rightarrow>
          (let purpose = path_purpose (jget ''purpose'' config);
               key = key_arg (jget ''idempotency_key'' config);
               d = eg_prov eg
           in case Option.bind key (find_in_flight_run d company) of
                Some r \<Rightarrow> Inr (eg, deduped ''run_id'' (r_id r) (the key))
              | None \<Rightarrow>
                  (case get_service rid d of
                     None \<Rightarrow> Inr (eg, skipped_enqueue)
                   | Some svc \<Rightarrow>
                       (if sv_company svc \<noteq> company then Inr (eg, skipped_enqueue)
                        else bindR (variables_arg (jget ''variables'' config)) (\<lambda>extra.
                          let q = \<lparr>rq_purpose = purpose, rq_dry = False, rq_trigger = WORKFLOW, rq_user = None, rq_key = key,
                                   rq_extra = extra, rq_mode = AUTOMATIC, rq_guided = None\<rparr>
                          in case find_in_flight_run d company (request_key svc q) of
                               Some r \<Rightarrow> Inr (eg, deduped ''run_id'' (r_id r) (request_key svc q))
                             | None \<Rightarrow>
                                 (case bindR (wd_path W d svc purpose) (\<lambda>rv. create_or_get_run (wd_env W) (wd_race W) d svc rv q) of
                                    Inl e \<Rightarrow> Inl (ProvisioningError e)
                                  | Inr (d', r, created) \<Rightarrow>
                                      Inr (eg\<lparr>eg_prov := d'\<rparr>,
                                        if created
                                        then JDict [(''enqueued'', JBool True), (''run_id'', id_text (r_id r)),
                                                    (''purpose'', JStr purpose), (''devices'', JInt (int (length (r_plan r))))]
                                        else deduped ''run_id'' (r_id r) (case r_key r of None \<Rightarrow> [] | Some k \<Rightarrow> k))))))))"

definition owned_or_none :: "string \<Rightarrow> (id \<Rightarrow> bool) \<Rightarrow> json \<Rightarrow> wf_exn + id option" where
  "owned_or_none what ours v =
     (case uuid_or_none v of None \<Rightarrow> Inr None | Some i \<Rightarrow> guardR (\<not> ours i) (NotOwned what) (Inr (Some i)))"

definition find_queued_or_running_provisioning_job :: "db \<Rightarrow> id \<Rightarrow> string \<Rightarrow> job option" where
  "find_queued_or_running_provisioning_job d company key =
     find (\<lambda>j. j_company j = company \<and> j_key j = Some key \<and> in_flight (j_status j)) (db_jobs d)"

definition workflow_job :: "id \<Rightarrow> id \<Rightarrow> id option \<Rightarrow> id option \<Rightarrow> dict \<Rightarrow> string option \<Rightarrow> nat \<Rightarrow> job" where
  "workflow_job company pb svc item vars key attempts =
     \<lparr>j_id = 0, j_company = company, j_playbook = pb, j_service = svc, j_item = item, j_variables = vars, j_dry = False,
      j_key = key, j_trigger = WORKFLOW, j_user = None, j_lock = None, j_claim = None, j_run = None, j_position = None,
      j_phase = None, j_max_attempts = attempts, j_status = QUEUED, j_log = JNull, j_error = None, j_finished = None,
      j_pending_step = None, j_pending_tasks = JNull\<rparr>"

definition execute_enqueue_provisioning_explicit ::
  "world \<Rightarrow> engine \<Rightarrow> json \<Rightarrow> wf_context \<Rightarrow> id \<Rightarrow> wf_exn + engine \<times> json" where
  "execute_enqueue_provisioning_explicit W eg config cx company =
     (let pid = jget ''playbook_id'' config; d = eg_prov eg
      in guardR (\<not> truthy pid) (MissingKey ''playbook_id'')
        (case Option.bind (uuid_of pid) (\<lambda>i. get_playbook i d) of
           None \<Rightarrow> Inl (NotFound ''playbook'')
         | Some pb \<Rightarrow>
             guardR (pb_company pb \<noteq> company \<or> pb_id pb \<notin> set (eg_active_playbooks eg)) (NotFound ''playbook'')
               (let again = (\<lambda>k. resolve_template W cx (jget k config));
                    key = key_arg (again ''idempotency_key'')
                in case Option.bind key (find_queued_or_running_provisioning_job d company) of
                     Some j \<Rightarrow> Inr (eg, deduped ''job_id'' (j_id j) (the key))
                   | None \<Rightarrow>
                       bindR (owned_or_none ''inventory_item'' (\<lambda>i. \<exists>it \<in> set (db_items d). it_id it = i \<and> it_company it = company)
                                (again ''inventory_item_id'')) (\<lambda>item.
                       case gate_failure_of (wd_env W) pb
                              (Option.bind (Option.bind item (map_of (eg_item_types eg))) (\<lambda>i. find_by dt_id i (db_types d))) False of
                         Some f \<Rightarrow> Inl (GateBlocked f)
                       | None \<Rightarrow>
                           bindR (variables_arg (again ''variables'')) (\<lambda>vars.
                           bindR (owned_or_none ''client_service'' (\<lambda>i. \<exists>sv \<in> set (db_services d). sv_id sv = i \<and> sv_company sv = company)
                                    (again ''client_service_id'')) (\<lambda>svc.
                           bindR (owned_or_none ''integration'' (\<lambda>i. \<exists>ig \<in> set (eg_integrations eg). ig_id ig = i \<and> ig_company ig = company)
                                    (jget ''integration_id'' config)) (\<lambda>integration.
                           case int_of (case map_of (as_dict config) ''max_attempts'' of None \<Rightarrow> JInt 3 | Some v \<Rightarrow> v) of
                             None \<Rightarrow> Inl (BadValue ''max_attempts'')
                           | Some n \<Rightarrow>
                               (case add_job (workflow_job company (pb_id pb) svc item vars key (nat n)) d of
                                  Inl e \<Rightarrow> Inl DbError
                                | Inr (j, d') \<Rightarrow>
                                    Inr (eg\<lparr>eg_prov := d'\<rparr>,
                                         JDict [(''enqueued'', JBool True), (''job_id'', id_text (j_id j)),
                                                (''playbook_id'', id_text (pb_id pb))])))))))))"

definition execute_enqueue_provisioning ::
  "world \<Rightarrow> engine \<Rightarrow> json \<Rightarrow> wf_context \<Rightarrow> id \<Rightarrow> wf_exn + engine \<times> json" where
  "execute_enqueue_provisioning W eg config cx company =
     guardR (map_of (as_dict config) ''use_topology'' \<noteq> None) RetiredTopology
       (let path = truthy (jget ''use_service_path'' config)
        in guardR (path \<and> truthy (jget ''playbook_id'' config)) ExclusiveModes
          (if path then execute_enqueue_provisioning_path W eg config company
           else execute_enqueue_provisioning_explicit W eg config cx company))"

section \<open>Running a workflow\<close>

definition execute_http_request :: "world \<Rightarrow> engine \<Rightarrow> json \<Rightarrow> wf_context \<Rightarrow> id \<Rightarrow> wf_exn + json" where
  \<comment> \<open>the checks before the call; the call is \<open>wd_http\<close>\<close>
  "execute_http_request W eg config cx company =
     (let v = jget ''integration_id'' config
      in guardR (\<not> truthy v) (MissingKey ''integration_id'')
        (case Option.bind (uuid_of v) (\<lambda>i. find (\<lambda>g. ig_id g = i \<and> ig_company g = company) (eg_integrations eg)) of
           None \<Rightarrow> Inl (NotFound ''integration'')
         | Some g \<Rightarrow> guardR (\<not> ig_enabled g) (HttpError ''disabled'') (wd_http W config cx company)))"

definition execute_step ::
  "world \<Rightarrow> engine \<Rightarrow> wf_step \<Rightarrow> wf_context \<Rightarrow> id \<Rightarrow> wf_exn + engine \<times> wf_context \<times> json" where
  "execute_step W eg step cx company =
     (let config = resolve_template W cx (ws_config step);
          plain = (\<lambda>x. bindR x (\<lambda>(eg', result). Inr (eg', cx, result)))
      in guardR (\<not> is_dict config) NotADict
        (case ws_action step of
           UPDATE_FIELD \<Rightarrow> plain (execute_update_field W eg config cx company)
         | CREATE_ENTITY \<Rightarrow> plain (execute_create_entity W eg config cx company)
         | HTTP_REQUEST \<Rightarrow> bindR (execute_http_request W eg (ws_config step) cx company) (\<lambda>result. Inr (eg, cx, result))
         | ENQUEUE_PROVISIONING \<Rightarrow> plain (execute_enqueue_provisioning W eg config cx company)
         | CREATE_ORDER \<Rightarrow> execute_create_order W eg config cx company
         | CREATE_TASK \<Rightarrow> execute_create_task W eg config cx company))"

definition visit_step ::
  "world \<Rightarrow> id \<Rightarrow> id \<Rightarrow> wf_step list \<Rightarrow> id \<Rightarrow> engine \<times> wf_context \<Rightarrow> wf_exn option \<times> engine \<times> wf_context" where
  \<comment> \<open>the body of the loop up to the neighbours: the step, its record and its result\<close>
  "visit_step W execution company steps u st =
     (case find_by ws_id u steps of
        None \<Rightarrow> (Some (MissingKey ''step''), st)
      | Some step \<Rightarrow>
          (let (eg, cx) = st;
               row = (\<lambda>status result err. \<lparr>se_execution = execution, se_step = u, se_name = ws_name step,
                        se_status = status, se_result = result, se_error = err\<rparr>)
           in case execute_step W eg step cx company of
                Inl e \<Rightarrow> (Some e, eg\<lparr>eg_steps := eg_steps eg @ [row FAILED_EXECUTION JNull (Some e)]\<rparr>, cx)
              | Inr (eg', cx', result) \<Rightarrow>
                  (None, eg'\<lparr>eg_steps := eg_steps eg' @ [row COMPLETED result None]\<rparr>,
                   cx'\<lparr>cx_values := dput (show_nat u) result (cx_values cx')\<rparr>)))"

definition close_execution :: "id \<Rightarrow> id \<Rightarrow> json \<Rightarrow> wf_exn option \<Rightarrow> engine \<Rightarrow> engine" where
  "close_execution i workflow event err eg =
     eg\<lparr>eg_executions := eg_executions eg @
       [\<lparr>ex_id = i, ex_workflow = workflow, ex_trigger = event,
         ex_status = (if err = None then COMPLETED else FAILED_EXECUTION), ex_error = err\<rparr>]\<rparr>"

definition execute_workflow ::
  "world \<Rightarrow> engine \<Rightarrow> workflow \<Rightarrow> json \<Rightarrow> id \<Rightarrow> wf_exn + engine \<times> created_trigger list" where
  \<comment> \<open>what is committed and the triggers fired after it; a failed flush loses the transaction\<close>
  "execute_workflow W eg0 w event company =
     (let i = eg_next eg0; eg = eg0\<lparr>eg_next := Suc i\<rparr>; nodes = dedup (map ws_id (wf_steps w))
      in if nodes = [] then Inr (close_execution i (wf_id w) event None eg, [])
         else
           (let (past, stop, (eg', cx)) =
                  run_graph (visit_step W i company (wf_steps w)) nodes (wf_edges w)
                    (eg, \<lparr>cx_values = [(''trigger'', event)], cx_pending = []\<rparr>);
                err = (case stop of
                         Some e \<Rightarrow> Some e
                       | None \<Rightarrow> (if length past < length nodes then Some (GraphIncomplete (length past) (length nodes)) else None))
            in guardR (stop = Some DbError) DbError
                 (Inr (close_execution i (wf_id w) event err eg', cx_pending cx))))"

section \<open>The tasks on the event loop\<close>

datatype bg_task =
    ExecuteTask id json id nat
  | FireTask created_trigger nat

definition event_json :: "string \<Rightarrow> string \<Rightarrow> id \<Rightarrow> json \<Rightarrow> json \<Rightarrow> json" where
  "event_json resource event i before after =
     JDict [(''resource_type'', JStr resource), (''event_type'', JStr event), (''resource_id'', id_text i),
            (''before'', before), (''after'', after)]"

definition check_workflow_triggers ::
  "workflow list \<Rightarrow> nat \<Rightarrow> id \<Rightarrow> string \<Rightarrow> string \<Rightarrow> id \<Rightarrow> json \<Rightarrow> json \<Rightarrow> bg_task list" where
  \<comment> \<open>the tasks it creates, at the depth of its context\<close>
  "check_workflow_triggers ws depth company resource event i before after =
     (if MAX_WORKFLOW_DEPTH \<le> depth then []
      else map (\<lambda>w. ExecuteTask (wf_id w) (event_json resource event i before after) company depth)
             (find_matching_workflows ws company resource event before after))"

definition execute_workflow_async ::
  "world \<Rightarrow> workflow list \<Rightarrow> engine \<Rightarrow> id \<Rightarrow> json \<Rightarrow> id \<Rightarrow> nat \<Rightarrow> engine \<times> bg_task list" where
  \<comment> \<open>every exception ends here; the follow-on triggers carry the depth of this execution\<close>
  "execute_workflow_async W ws eg i event company depth =
     (case find_by wf_id i ws of
        None \<Rightarrow> (eg, [])
      | Some w \<Rightarrow>
          (case execute_workflow W eg w event company of
             Inl e \<Rightarrow> (eg, [])
           | Inr (eg', pending) \<Rightarrow> (eg', map (\<lambda>p. FireTask p (Suc depth)) pending)))"

fun run_task :: "world \<Rightarrow> workflow list \<Rightarrow> bg_task \<Rightarrow> engine \<Rightarrow> engine \<times> bg_task list" where
  "run_task W ws (ExecuteTask i event company depth) eg = execute_workflow_async W ws eg i event company depth"
| "run_task W ws (FireTask t depth) eg =
     (eg, check_workflow_triggers ws depth (ct_company t) (ct_resource t) ''CREATED'' (ct_id t) JNull (JDict (ct_after t)))"

inductive loop_step :: "workflow list \<Rightarrow> engine \<times> bg_task list \<Rightarrow> engine \<times> bg_task list \<Rightarrow> bool" for ws where
  \<comment> \<open>the event loop runs some task; the database and the clock may be any\<close>
  run: "run_task W ws t eg = (eg', new) \<Longrightarrow> loop_step ws (eg, before @ t # after) (eg', before @ after @ new)"

end
