(* ===== verification/Workflow_Properties.thy ===== *)
theory Workflow_Properties
  imports Workflow_Engine "HOL-Library.Multiset"
begin

text \<open>
  What the legacy workflow engine guarantees: the cascade of workflows and follow-on triggers
  ends, a completed execution ran every step once and in the order of the edges, and no
  workflow writes payment state, a payment link or another tenant's rows.
\<close>

section \<open>The cascade ends\<close>

fun weight :: "bg_task \<Rightarrow> nat" where
  \<comment> \<open>how far a task is from the depth limit\<close>
  "weight (ExecuteTask i event company depth) = 2 * (MAX_WORKFLOW_DEPTH - depth)"
| "weight (FireTask t depth) = Suc (2 * (MAX_WORKFLOW_DEPTH - depth))"

fun sound_task :: "bg_task \<Rightarrow> bool" where
  \<comment> \<open>an execution is only created below the limit\<close>
  "sound_task (ExecuteTask i event company depth) \<longleftrightarrow> depth < MAX_WORKFLOW_DEPTH"
| "sound_task (FireTask t depth) \<longleftrightarrow> True"

lemma run_task_lighter:
  "run_task W ws t eg = (eg', new) \<Longrightarrow> sound_task t \<Longrightarrow> t' \<in> set new \<Longrightarrow> weight t' < weight t \<and> sound_task t'"
proof (cases t)
  case (ExecuteTask i event company depth)
  then show "run_task W ws t eg = (eg', new) \<Longrightarrow> sound_task t \<Longrightarrow> t' \<in> set new \<Longrightarrow> ?thesis"
    by (auto simp: execute_workflow_async_def split: option.splits sum.splits)
next
  case (FireTask c depth)
  then show "run_task W ws t eg = (eg', new) \<Longrightarrow> sound_task t \<Longrightarrow> t' \<in> set new \<Longrightarrow> ?thesis"
    by (auto simp: check_workflow_triggers_def split: if_splits)
qed

inductive sound_step :: "workflow list \<Rightarrow> engine \<times> bg_task list \<Rightarrow> engine \<times> bg_task list \<Rightarrow> bool" for ws where
  \<comment> \<open>a step of the loop from tasks the engine itself created\<close>
  step: "loop_step ws (eg, ts) (eg', ts') \<Longrightarrow> list_all sound_task ts \<Longrightarrow> sound_step ws (eg, ts) (eg', ts')"

lemma sound_step_mult:
  assumes "sound_step ws s s'"
  shows "(mset (map weight (snd s')), mset (map weight (snd s))) \<in> mult less_than"
  using assms
proof cases
  case (step eg ts eg' ts')
  from step(3) show ?thesis
  proof cases
    case (run W t new before after)
    have "\<forall>k \<in># mset (map weight new). \<exists>j \<in># {#weight t#}. (k, j) \<in> less_than"
      using run_task_lighter [OF run(3)] step(4) run(1) by (auto simp: list_all_iff)
    then have "(mset (map weight (before @ after)) + mset (map weight new),
        mset (map weight (before @ after)) + {#weight t#}) \<in> mult less_than"
      by (intro one_step_implies_mult) auto
    with run step(1,2) show ?thesis by (simp add: ac_simps)
  qed
qed

text \<open>
  C33. Workflows that create orders and tasks fire further workflows, but never without end:
  whatever the workflows, the clock and the database do, every run of the event loop over
  tasks the engine created is finite.
\<close>

theorem cascade_ends:
  "wf {(s', s). sound_step ws s s'} \<and> (\<forall>d c r ev i b a. list_all sound_task (check_workflow_triggers ws d c r ev i b a))"
proof
  have "wf (inv_image (mult less_than) (\<lambda>s :: engine \<times> bg_task list. mset (map weight (snd s))))"
    by (intro wf_inv_image wf_mult wf_less_than)
  then show "wf {(s', s). sound_step ws s s'}"
    by (rule wf_subset) (auto dest!: sound_step_mult simp: inv_image_def)
  show "\<forall>d c r ev i b a. list_all sound_task (check_workflow_triggers ws d c r ev i b a)"
    by (auto simp: check_workflow_triggers_def list_all_iff)
qed

lemma sound_step_keeps: "loop_step ws (eg, ts) (eg', ts') \<Longrightarrow> list_all sound_task ts \<Longrightarrow> list_all sound_task ts'"
proof (erule loop_step.cases)
  fix W t eg1 eg1' new before after
  assume "(eg, ts) = (eg1, before @ t # after)" "(eg', ts') = (eg1', before @ after @ new)" "list_all sound_task ts"
    "run_task W ws t eg1 = (eg1', new)"
  then show "list_all sound_task ts'" using run_task_lighter [of W ws t eg1 eg1' new] by (auto simp: list_all_iff)
qed

section \<open>The order of the steps\<close>

lemma frame_flush: "flush_rows W rows evs eg = Inr eg' \<Longrightarrow> eg_steps eg' = eg_steps eg \<and> eg_executions eg' = eg_executions eg \<and> eg_rows eg' = rows"
  by (auto simp: flush_rows_def guardR_Inr_iff)

definition kept :: "id \<Rightarrow> entity \<Rightarrow> entity \<Rightarrow> bool" where
  \<comment> \<open>what a workflow of a company may do to a row: not its kind, not a protected field, and nothing
      at all to a row of another company, a payment link or an order line\<close>
  "kept company e e' \<longleftrightarrow>
     en_kind e' = en_kind e \<and>
     list_all (\<lambda>f. attr f e' = attr f e) (listed UPDATE_FIELD_DENYLIST (en_kind e)) \<and>
     (e' = e \<or> attr ''company_id'' e = id_text company \<and> en_kind e \<notin> {''payment_link'', ''order_item''})"

definition born :: "entity \<Rightarrow> bool" where
  \<comment> \<open>what a row created by a workflow is not\<close>
  "born e \<longleftrightarrow>
     en_kind e \<notin> {''invoice'', ''payment_link''} \<and>
     (en_kind e \<noteq> ''order'' \<or> attr ''payment_status'' e \<in> {JNull, JStr ''PENDING''} \<and> attr ''paid'' e \<in> {JNull, JBool False})"

definition ledger :: "id \<Rightarrow> entity list \<Rightarrow> entity list \<Rightarrow> bool" where
  "ledger company rows rows' \<longleftrightarrow>
     list_all2 (kept company) rows (take (length rows) rows') \<and> list_all born (drop (length rows) rows')"

lemma kept_refl: "kept company e e"
  by (simp add: kept_def list_all_iff)

lemma kept_trans: "kept company e e' \<Longrightarrow> kept company e' e'' \<Longrightarrow> kept company e e''"
  unfolding kept_def by (auto simp: list_all_iff)

lemma born_kept: "born e \<Longrightarrow> kept company e e' \<Longrightarrow> born e'"
  unfolding kept_def born_def
  by (cases "en_kind e = ''order''") (auto simp: list_all_iff listed_def UPDATE_FIELD_DENYLIST_def)

lemma ledgerI: "list_all2 (kept company) rows old \<Longrightarrow> list_all born new \<Longrightarrow> ledger company rows (old @ new)"
  unfolding ledger_def using list_all2_lengthD by fastforce

lemma ledgerE:
  assumes "ledger company rows rows'"
  obtains old new where "rows' = old @ new" "list_all2 (kept company) rows old" "list_all born new"
  using assms that [of "take (length rows) rows'" "drop (length rows) rows'"] by (simp add: ledger_def)

lemma ledger_refl: "ledger company rows rows"
  using ledgerI [of company rows rows "[]"] by (simp add: list_all2_same kept_refl)

lemma ledger_trans: "ledger company a b \<Longrightarrow> ledger company b c \<Longrightarrow> ledger company a c"
proof (elim ledgerE)
  fix old new old' new'
  assume b: "b = old @ new" "list_all2 (kept company) a old" "list_all born new"
    and c: "c = old' @ new'" "list_all2 (kept company) b old'" "list_all born new'"
  from b(1) c(2) obtain o1 o2 where o: "old' = o1 @ o2" "list_all2 (kept company) old o1" "list_all2 (kept company) new o2"
    by (auto simp: list_all2_append1)
  have ao: "list_all2 (kept company) a o1" using kept_trans b(2) o(2) by (rule list_all2_trans)
  have "list_all born o2" using o(3) b(3) by (induction rule: list_all2_induct) (auto intro: born_kept)
  with c(3) have "list_all born (o2 @ new')" by simp
  from this show "ledger company a c" using c(1) o(1) ledgerI [OF ao, of "o2 @ new'"] by simp
qed

lemma attr_put: "attr g (put_attr f v e) = (if g = f then v else attr g e)"
  by (simp add: attr_def put_attr_def dget_dput)

lemma en_kind_put [simp]: "en_kind (put_attr f v e) = en_kind e"
  by (simp add: put_attr_def)

lemma set_attr_other:
  assumes "set_attr now attached f v e = (e', evs)"
  shows "en_kind e' = en_kind e"
    "g \<noteq> f \<Longrightarrow> g \<notin> {''activation_date'', ''cancelled_at''} \<Longrightarrow> attr g e' = attr g e"
  using assms
  by (auto simp: set_attr_def stamp_status_dates_def Let_def attr_put split: if_splits)

lemma set_attrs_other:
  "set_attrs now attached us e = (e', evs) \<Longrightarrow> en_kind e' = en_kind e \<and>
     (g \<notin> fst ` set us \<longrightarrow> g \<notin> {''activation_date'', ''cancelled_at''} \<longrightarrow> attr g e' = attr g e)"
proof (induction us arbitrary: e e' evs)
  case (Cons p us)
  obtain f v where p: "p = (f, v)" by (cases p)
  show ?case
  proof (cases "has_column (en_kind e) f")
    case True
    obtain e1 ev1 where s: "set_attr (now_gt now) attached f v e = (e1, ev1)" by (cases "set_attr (now_gt now) attached f v e")
    obtain e2 ev2 where r: "set_attrs now attached us e1 = (e2, ev2)" by (cases "set_attrs now attached us e1")
    from Cons.prems True p s r have "e' = e2" by simp
    with Cons.IH [OF r] set_attr_other [OF s] p show ?thesis by auto
  next
    case False
    with Cons p show ?thesis by auto
  qed
qed simp

lemma denied_none: "denied table kind d = [] \<Longrightarrow> f \<in> set (listed table kind) \<Longrightarrow> f \<notin> fst ` set d"
proof
  assume d: "denied table kind d = []" and f: "f \<in> set (listed table kind)" "f \<in> fst ` set d"
  from f have "f \<in> set (denied table kind d)" unfolding denied_def by auto
  with d show False by simp
qed

lemma protected_not_stamped: "f \<in> set (listed UPDATE_FIELD_DENYLIST kind) \<Longrightarrow> f \<notin> {''activation_date'', ''cancelled_at''}"
  by (auto simp: listed_def UPDATE_FIELD_DENYLIST_def split: if_splits)

lemma set_attrs_kept:
  assumes "set_attrs now True us e = (e', evs)" "denied UPDATE_FIELD_DENYLIST (en_kind e) us = []"
    "en_kind e \<notin> {''payment_link'', ''order_item''}" "attr ''company_id'' e = id_text company"
  shows "kept company e e'"
proof -
  have "attr f e' = attr f e" if "f \<in> set (listed UPDATE_FIELD_DENYLIST (en_kind e))" for f
    using set_attrs_other [OF assms(1), of f] denied_none [OF assms(2) that] protected_not_stamped [OF that] by simp
  with assms(3,4) set_attrs_other [OF assms(1)] show ?thesis by (auto simp: kept_def list_all_iff)
qed

lemma update_all_kept:
  assumes "\<And>e. P e \<Longrightarrow> en_kind e = kind \<and> attr ''company_id'' e = id_text company"
    "denied UPDATE_FIELD_DENYLIST kind us = []" "kind \<notin> {''payment_link'', ''order_item''}"
  shows "update_all P now us es = (es', evs, ids) \<Longrightarrow> list_all2 (kept company) es es'"
proof (induction es arbitrary: es' evs ids)
  case (Cons e es)
  then show ?case using set_attrs_kept [of now us e _ _ company] assms
    by (auto simp: Let_def kept_refl split: prod.splits if_splits)
qed simp

lemma update_first_kept:
  assumes "\<And>e. P e \<Longrightarrow> en_kind e = kind \<and> attr ''company_id'' e = id_text company"
    "denied UPDATE_FIELD_DENYLIST kind us = []" "kind \<notin> {''payment_link'', ''order_item''}"
  shows "update_first P now us es = (es', evs) \<Longrightarrow> list_all2 (kept company) es es'"
proof (induction es arbitrary: es' evs)
  case (Cons e es)
  then show ?case using set_attrs_kept [of now us e _ _ company] assms
    by (auto simp: Let_def kept_refl list_all2_same split: prod.splits if_splits)
qed simp

definition step_frame :: "id \<Rightarrow> engine \<Rightarrow> engine \<Rightarrow> bool" where
  "step_frame company eg eg' \<longleftrightarrow>
     ledger company (eg_rows eg) (eg_rows eg') \<and> eg_steps eg' = eg_steps eg \<and> eg_executions eg' = eg_executions eg"

lemma step_frame_flush:
  "flush_rows W rows evs eg = Inr eg' \<Longrightarrow> ledger company (eg_rows eg) rows \<Longrightarrow> step_frame company eg eg'"
  using frame_flush [of W rows evs eg eg'] by (simp add: step_frame_def)

lemma step_frame_next: "step_frame company (eg\<lparr>eg_next := n\<rparr>) eg' = step_frame company eg eg'"
  by (simp add: step_frame_def)

lemma known_typeD: "known_type v = Inr kind \<Longrightarrow> v = JStr kind \<and> kind \<in> set KNOWN_RESOURCE_TYPES"
  by (auto simp: known_type_def guardR_Inr_iff split: json.splits)

lemma writable_kind:
  "refuse_read_only kind = Inr () \<Longrightarrow> has_column kind ''company_id'' \<Longrightarrow> kind \<notin> {''payment_link'', ''order_item''}"
  by (auto simp: refuse_read_only_def READ_ONLY_RESOURCE_TYPES_def guardR_Inr_iff has_column_def model_columns_def)

lemma update_matching_frame:
  assumes "update_matching W eg kind updates f rid company = Inr (eg', r)" "refuse_read_only kind = Inr ()"
    "denied UPDATE_FIELD_DENYLIST kind updates = []"
  shows "step_frame company eg eg'"
proof -
  obtain rows evs ids where
    u: "update_all (\<lambda>e. en_kind e = kind \<and> attr f e = rid \<and> attr ''company_id'' e = id_text company) (wd_now W) updates (eg_rows eg) = (rows, evs, ids)"
    by (rule prod_cases3)
  from assms(1) have c: "has_column kind ''company_id''" and fl: "flush_rows W rows evs eg = Inr eg'"
    unfolding update_matching_def Let_def u by (auto simp: guardR_Inr_iff bindR_Inr_iff)
  have "list_all2 (kept company) (eg_rows eg) rows"
    by (rule update_all_kept [OF _ assms(3) writable_kind [OF assms(2) c] u]) simp
  with fl show ?thesis using ledgerI [of company "eg_rows eg" rows "[]"] step_frame_flush by fastforce
qed

lemma update_one_frame:
  assumes "update_one W eg kind updates rid company = Inr (eg', r)" "refuse_read_only kind = Inr ()"
    "denied UPDATE_FIELD_DENYLIST kind updates = []"
  shows "step_frame company eg eg'"
proof -
  obtain rows evs where u: "update_first (is_row kind rid company) (wd_now W) updates (eg_rows eg) = (rows, evs)" by fastforce
  from assms(1) have c: "has_column kind ''company_id''" and fl: "flush_rows W rows evs eg = Inr eg'"
    unfolding update_one_def Let_def u by (auto simp: guardR_Inr_iff bindR_Inr_iff)
  have "list_all2 (kept company) (eg_rows eg) rows"
    by (rule update_first_kept [OF _ assms(3) writable_kind [OF assms(2) c] u]) (simp add: is_row_def)
  with fl show ?thesis using ledgerI [of company "eg_rows eg" rows "[]"] step_frame_flush by fastforce
qed

lemma update_field_frame:
  assumes "execute_update_field W eg config cx company = Inr (eg', r)"
  shows "step_frame company eg eg'"
proof -
  from assms obtain kind updates where "refuse_read_only kind = Inr ()" "denied UPDATE_FIELD_DENYLIST kind updates = []"
    "(\<exists>f rid. update_matching W eg kind updates f rid company = Inr (eg', r)) \<or> (\<exists>rid. update_one W eg kind updates rid company = Inr (eg', r))"
    unfolding execute_update_field_def Let_def by (auto simp: bindR_Inr_iff guardR_Inr_iff split: if_splits) blast+
  then show ?thesis using update_matching_frame update_one_frame by blast
qed

lemma insert_entity_frame:
  assumes "insert_entity W eg kind (dput ''company_id'' v data) = Inr (eg', r)" "refuse_read_only kind = Inr ()"
    "kind \<notin> set CREATE_ENTITY_FORBIDDEN_TYPES" "denied CREATE_ENTITY_FIELD_DENYLIST kind data = []"
  shows "step_frame company eg eg'"
proof -
  obtain e evs where s: "set_attrs (wd_now W) False (dput ''company_id'' v data) \<lparr>en_kind = kind, en_attrs = []\<rparr> = (e, evs)"
    by fastforce
  let ?e = "e\<lparr>en_attrs := fresh (en_attrs e) eg\<rparr>"
  from assms(1) s have f: "flush_rows W (eg_rows eg @ [?e]) evs (eg\<lparr>eg_next := Suc (eg_next eg)\<rparr>) = Inr eg'"
    by (auto simp: insert_entity_def guardR_Inr_iff bindR_Inr_iff Let_def)
  have fresh: "attr g ?e = attr g e" if "g \<noteq> ''id''" for g
    using that by (simp add: attr_def fresh_def dget_dput)
  have kind: "en_kind e = kind" using set_attrs_other [OF s] by simp
  have none: "attr g ?e = JNull" if "kind = ''order''" "g \<in> {''payment_status'', ''paid''}" for g
  proof -
    have "g \<in> set (listed CREATE_ENTITY_FIELD_DENYLIST kind)"
      using that by (auto simp: listed_def CREATE_ENTITY_FIELD_DENYLIST_def)
    then have "g \<notin> fst ` set data" by (rule denied_none [OF assms(4)])
    then have "g \<notin> fst ` set (dput ''company_id'' v data)"
      using that(2) by (auto simp: dput_def dom_update)
    with set_attrs_other [OF s, of g] that(2) have "attr g e = JNull" by (auto simp: attr_def dget_def)
    with fresh [of g] that(2) show ?thesis by auto
  qed
  have "born ?e"
    using assms(2,3) none by (auto simp: born_def kind refuse_read_only_def READ_ONLY_RESOURCE_TYPES_def guardR_Inr_iff
        CREATE_ENTITY_FORBIDDEN_TYPES_def)
  then have "ledger company (eg_rows eg) (eg_rows eg @ [?e])"
    by (intro ledgerI) (simp_all add: list_all2_same kept_refl)
  with step_frame_flush [OF f, of company] show ?thesis by (simp add: step_frame_next)
qed

lemma create_entity_frame:
  assumes "execute_create_entity W eg config cx company = Inr (eg', r)"
  shows "step_frame company eg eg'"
proof -
  from assms obtain kind data where "refuse_read_only kind = Inr ()" "kind \<notin> set CREATE_ENTITY_FORBIDDEN_TYPES"
    "denied CREATE_ENTITY_FIELD_DENYLIST kind data = []"
    "insert_entity W eg kind (dput ''company_id'' (id_text company) data) = Inr (eg', r)"
    unfolding execute_create_entity_def by (auto simp: bindR_Inr_iff guardR_Inr_iff)
  then show ?thesis by (intro insert_entity_frame)
qed

lemma attr_full_row: "attr f (full_row kind vals) = (if has_column kind f then dget f vals else JNull)"
proof -
  have "dget f (map (\<lambda>c. (c, dget c vals)) cs) = (if f \<in> set cs then dget f vals else JNull)" for cs
    by (induction cs) (auto simp: dget_def)
  then show ?thesis by (simp add: attr_def full_row_def has_column_def split: option.splits)
qed

lemma en_kind_full_row [simp]: "en_kind (full_row kind vals) = kind"
  by (simp add: full_row_def)

lemma insert_order_frame:
  assumes "insert_order W eg cx company client svc ot ls due = Inr (eg', cx', r)"
  shows "step_frame company eg eg'"
proof -
  from assms obtain order lines n where f: "flush_rows W (eg_rows eg @ order # lines) [] (eg\<lparr>eg_next := n\<rparr>) = Inr eg'"
    and o: "\<exists>oid cents. order = order_row W oid company client (opt_id svc) ot cents due"
    and l: "\<exists>oid now ps. lines = map (line_row oid now) ps"
    unfolding insert_order_def Let_def by (auto simp: bindR_Inr_iff) blast
  have "born order" using o by (auto simp: born_def order_row_def attr_full_row has_column_def model_columns_def dget_def)
  moreover have "list_all born lines" using l by (auto simp: list_all_iff born_def line_row_def split: prod.splits)
  ultimately have "ledger company (eg_rows eg) (eg_rows eg @ order # lines)"
    by (intro ledgerI) (simp_all add: list_all2_same kept_refl)
  with step_frame_flush [OF f, of company] show ?thesis by (simp add: step_frame_next)
qed

lemma create_order_frame:
  assumes "execute_create_order W eg config cx company = Inr (eg', cx', r)"
  shows "step_frame company eg eg'"
proof -
  from assms have "eg' = eg \<or> (\<exists>client svc ot ls due. insert_order W eg cx company client svc ot ls due = Inr (eg', cx', r))"
    unfolding execute_create_order_def Let_def
    by (elim bindR_InrE) (auto simp: bindR_Inr_iff guardR_Inr_iff split: if_splits option.splits)
  then show ?thesis using insert_order_frame by (auto simp: step_frame_def ledger_refl)
qed

lemma insert_task_frame:
  assumes "insert_task W eg cx company config status due kind target jk links found skipped = Inr (eg', cx', r)"
  shows "step_frame company eg eg'"
proof -
  from assms obtain i p where
    f: "flush_rows W (eg_rows eg @ [task_row W i company config status p due kind target jk links]) [] (eg\<lparr>eg_next := Suc i\<rparr>) = Inr eg'"
    unfolding insert_task_def Let_def by (auto simp: bindR_Inr_iff)
  have "ledger company (eg_rows eg) (eg_rows eg @ [task_row W i company config status p due kind target jk links])"
    by (intro ledgerI) (simp_all add: list_all2_same kept_refl born_def task_row_def)
  with step_frame_flush [OF f, of company] show ?thesis by (simp add: step_frame_next)
qed

lemma create_task_frame:
  assumes "execute_create_task W eg config cx company = Inr (eg', cx', r)"
  shows "step_frame company eg eg'"
proof -
  from assms obtain status due kind target jk links found skipped where
    "insert_task W eg cx company config status due kind target jk links found skipped = Inr (eg', cx', r)"
    unfolding execute_create_task_def Let_def case_prod_beta
    by (auto simp: bindR_Inr_iff guardR_Inr_iff split: option.splits)
  then show ?thesis by (rule insert_task_frame)
qed

lemma step_frame_prov: "step_frame company eg (eg\<lparr>eg_prov := d\<rparr>)" "step_frame company eg eg"
  by (simp_all add: step_frame_def ledger_refl)

lemma enqueue_path_frame: "execute_enqueue_provisioning_path W eg config company = Inr (eg', r) \<Longrightarrow> step_frame company eg eg'"
proof -
  have "ensures (\<lambda>p. step_frame company eg (fst p)) (execute_enqueue_provisioning_path W eg config company)"
    unfolding execute_enqueue_provisioning_path_def Let_def by (intro ensures_intros) (simp_all add: step_frame_prov)
  then show "execute_enqueue_provisioning_path W eg config company = Inr (eg', r) \<Longrightarrow> ?thesis"
    by (auto dest: ensuresD)
qed

lemma enqueue_explicit_frame: "execute_enqueue_provisioning_explicit W eg config cx company = Inr (eg', r) \<Longrightarrow> step_frame company eg eg'"
proof -
  have "ensures (\<lambda>p. step_frame company eg (fst p)) (execute_enqueue_provisioning_explicit W eg config cx company)"
    unfolding execute_enqueue_provisioning_explicit_def Let_def by (intro ensures_intros) (simp_all add: step_frame_prov)
  then show "execute_enqueue_provisioning_explicit W eg config cx company = Inr (eg', r) \<Longrightarrow> ?thesis"
    by (auto dest: ensuresD)
qed

lemma execute_step_frame:
  assumes "execute_step W eg step cx company = Inr (eg', cx', r)"
  shows "step_frame company eg eg'"
proof (cases "ws_action step")
  case UPDATE_FIELD
  with assms show ?thesis using update_field_frame by (auto simp: execute_step_def Let_def guardR_Inr_iff bindR_Inr_iff)
next
  case CREATE_ENTITY
  with assms show ?thesis using create_entity_frame by (auto simp: execute_step_def Let_def guardR_Inr_iff bindR_Inr_iff)
next
  case HTTP_REQUEST
  with assms show ?thesis by (auto simp: execute_step_def Let_def guardR_Inr_iff bindR_Inr_iff step_frame_prov)
next
  case ENQUEUE_PROVISIONING
  with assms show ?thesis using enqueue_path_frame enqueue_explicit_frame
    by (auto simp: execute_step_def execute_enqueue_provisioning_def Let_def guardR_Inr_iff bindR_Inr_iff split: if_splits)
next
  case CREATE_ORDER
  with assms show ?thesis using create_order_frame by (auto simp: execute_step_def Let_def guardR_Inr_iff)
next
  case CREATE_TASK
  with assms show ?thesis using create_task_frame by (auto simp: execute_step_def Let_def guardR_Inr_iff)
qed

lemma kahn_rule:
  assumes "kahn visit adj degs queue past s = (fin, stop, s')" "P past s"
    "\<And>u past s t. P past s \<Longrightarrow> visit u s = (None, t) \<Longrightarrow> P (past @ [u]) t"
    "\<And>u past s t e. P past s \<Longrightarrow> visit u s = (Some e, t) \<Longrightarrow> Q e (past @ [u]) t"
  shows "case stop of None \<Rightarrow> P fin s' | Some e \<Rightarrow> Q e fin s'"
  using assms
proof (induction visit adj degs queue past s rule: kahn.induct)
  case (2 visit adj degs u queue past s)
  obtain x t where v: "visit u s = (x, t)" by (cases "visit u s")
  show ?case
  proof (cases x)
    case None
    with "2.prems"(1) v have "kahn visit adj (fst (relax (adj u) degs queue)) (snd (relax (adj u) degs queue)) (past @ [u]) t = (fin, stop, s')"
      by (simp add: kahn.simps(2) Let_def)
    moreover have "P (past @ [u]) t" using "2.prems"(2,3) v None by blast
    ultimately show ?thesis using "2.IH" [OF v [symmetric] refl _ refl] None "2.prems"(3,4) by simp
  next
    case (Some e)
    with "2.prems"(1) v have "fin = past @ [u]" "stop = Some e" "s' = t" by (auto simp: kahn.simps(2) Let_def)
    with "2.prems"(2,4) v Some show ?thesis by simp
  qed
qed simp

definition ran_so_far :: "id \<Rightarrow> id \<Rightarrow> engine \<Rightarrow> id list \<Rightarrow> step_execution list \<Rightarrow> engine \<Rightarrow> bool" where
  "ran_so_far company i eg0 past rows eg \<longleftrightarrow>
     ledger company (eg_rows eg0) (eg_rows eg) \<and> eg_executions eg = eg_executions eg0 \<and>
     eg_steps eg = eg_steps eg0 @ rows \<and> map se_step rows = past \<and> list_all (\<lambda>r. se_execution r = i) rows"

lemma visit_step_ran:
  assumes "ran_so_far company i eg0 past rows (fst s)" "visit_step W i company steps u s = (stop, t)" "u \<in> ws_id ` set steps"
  shows "\<exists>r. ran_so_far company i eg0 (past @ [u]) (rows @ [r]) (fst t) \<and> (stop = None \<longleftrightarrow> se_status r = COMPLETED)"
proof -
  from assms(3) obtain step where st: "find_by ws_id u steps = Some step"
    by (metis find_by_None option.exhaust)
  obtain eg cx where s: "s = (eg, cx)" by (cases s)
  show ?thesis
  proof (cases "execute_step W eg step cx company")
    case (Inl e)
    with assms(1,2) st s show ?thesis by (auto simp: visit_step_def ran_so_far_def Let_def)
  next
    case (Inr p)
    obtain eg' cx' result where p: "p = (eg', cx', result)" by (cases p)
    from execute_step_frame [of W eg step cx company eg' cx' result] Inr p
    have "step_frame company eg eg'" by simp
    with Inr p assms(1,2) st s show ?thesis
      by (auto simp: visit_step_def ran_so_far_def Let_def step_frame_def intro: ledger_trans)
  qed
qed

lemma execute_workflow_cases:
  assumes "execute_workflow W eg w event company = Inr (eg', pending)"
  obtains x rows where
    "ledger company (eg_rows eg) (eg_rows eg')" "eg_executions eg' = eg_executions eg @ [x]" "eg_steps eg' = eg_steps eg @ rows"
    "distinct (map se_step rows)" "set (map se_step rows) \<subseteq> ws_id ` set (wf_steps w)"
    "topological (usable (map ws_id (wf_steps w)) (wf_edges w)) (map se_step rows)" "ex_id x = eg_next eg"
    "list_all (\<lambda>r. se_execution r = eg_next eg) rows"
    "ex_status x = COMPLETED \<longleftrightarrow>
       acyclic (set (usable (map ws_id (wf_steps w)) (wf_edges w))) \<and> list_all (\<lambda>r. se_status r = COMPLETED) rows"
    "ex_status x = COMPLETED \<Longrightarrow> set (map se_step rows) = ws_id ` set (wf_steps w)"
proof -
  define nodes where "nodes = dedup (map ws_id (wf_steps w))"
  have nodes: "set nodes = ws_id ` set (wf_steps w)" "distinct nodes" by (simp_all add: nodes_def)
  have us: "usable nodes (wf_edges w) = usable (map ws_id (wf_steps w)) (wf_edges w)" using nodes by (simp add: usable_def)
  define es where "es = usable nodes (wf_edges w)"
  have sub: "set es \<subseteq> set nodes \<times> set nodes" by (auto simp: es_def usable_def)
  define i where "i = eg_next eg"
  define eg0 where "eg0 = eg\<lparr>eg_next := Suc i\<rparr>"
  show thesis
  proof (cases "nodes = []")
    case True
    then have e: "eg' = close_execution i (wf_id w) event None eg0"
      using assms by (simp add: execute_workflow_def nodes_def eg0_def i_def Let_def)
    have em: "usable (map ws_id (wf_steps w)) (wf_edges w) = []" using True nodes by (simp add: usable_def)
    show thesis
      by (rule that [of "\<lparr>ex_id = i, ex_workflow = wf_id w, ex_trigger = event, ex_status = COMPLETED, ex_error = None\<rparr>" "[]"])
        (use True nodes in \<open>simp_all add: e close_execution_def eg0_def i_def em topological_def ledger_refl acyclic_def usable_def\<close>)
  next
    case False
    let ?s0 = "(eg0, \<lparr>cx_values = [(''trigger'', event)], cx_pending = []\<rparr>)"
    obtain past stop eg1 cx where
      k: "run_graph (visit_step W i company (wf_steps w)) nodes (wf_edges w) ?s0 = (past, stop, eg1, cx)" by (rule prod_cases4)
    define err where "err = (case stop of Some e \<Rightarrow> Some e
      | None \<Rightarrow> (if length past < length nodes then Some (GraphIncomplete (length past) (length nodes)) else None))"
    from assms False k have e: "eg' = close_execution i (wf_id w) event err eg1"
      by (auto simp: execute_workflow_def Let_def nodes_def [symmetric] eg0_def i_def [symmetric] guardR_Inr_iff err_def)
    have k': "kahn (visit_step W i company (wf_steps w)) (out_edges es) (in_degrees nodes es) (starts (in_degrees nodes es)) [] ?s0
       = (past, stop, eg1, cx)" using k by (simp add: run_graph_def es_def Let_def)
    note rk = run_kahn [OF nodes(2) sub k']
    let ?P = "\<lambda>past s. set past \<subseteq> set nodes \<longrightarrow> (\<exists>rows. ran_so_far company i eg0 past rows (fst s) \<and> list_all (\<lambda>r. se_status r = COMPLETED) rows)"
    let ?Q = "\<lambda>e past s. set past \<subseteq> set nodes \<longrightarrow> (\<exists>rows. ran_so_far company i eg0 past rows (fst s) \<and> \<not> list_all (\<lambda>r. se_status r = COMPLETED) rows)"
    have "case stop of None \<Rightarrow> ?P past (eg1, cx) | Some e \<Rightarrow> ?Q e past (eg1, cx)"
    proof (rule kahn_rule [OF k'])
      show "?P [] ?s0" by (auto simp: ran_so_far_def ledger_refl)
    next
      fix u past s t assume "?P past s" "visit_step W i company (wf_steps w) u s = (None, t)"
      then show "?P (past @ [u]) t" using visit_step_ran [of company i eg0 past _ s W "wf_steps w" u None t] nodes(1) by fastforce
    next
      fix u past s t e assume "?P past s" "visit_step W i company (wf_steps w) u s = (Some e, t)"
      then show "?Q e (past @ [u]) t" using visit_step_ran [of company i eg0 past _ s W "wf_steps w" u "Some e" t] nodes(1) by fastforce
    qed
    with rk(2) obtain rows where r: "ran_so_far company i eg0 past rows eg1" "stop = None \<longleftrightarrow> list_all (\<lambda>r. se_status r = COMPLETED) rows"
      by (cases stop) auto
    have done_iff: "err = None \<longleftrightarrow> acyclic (set es) \<and> stop = None"
    proof (cases stop)
      case None
      have "length past \<le> length nodes" using rk(1,2) nodes(2) by (metis card_mono distinct_card List.finite_set)
      with rk(4) [OF None] None show ?thesis by (auto simp: err_def)
    qed (simp add: err_def)
    let ?x = "\<lparr>ex_id = i, ex_workflow = wf_id w, ex_trigger = event,
         ex_status = (if err = None then COMPLETED else FAILED_EXECUTION), ex_error = err\<rparr>"
    show thesis
    proof (rule that [of ?x rows])
      show "ex_status ?x = COMPLETED \<longleftrightarrow>
         acyclic (set (usable (map ws_id (wf_steps w)) (wf_edges w))) \<and> list_all (\<lambda>r. se_status r = COMPLETED) rows"
        using done_iff r(2) us by (simp add: es_def)
      show "set (map se_step rows) = ws_id ` set (wf_steps w)" if "ex_status ?x = COMPLETED"
        using that rk(5) done_iff r(1) nodes(1) by (auto simp: ran_so_far_def split: if_splits)
    qed (use r(1) rk(1-3) nodes us e in \<open>auto simp: close_execution_def ran_so_far_def eg0_def i_def es_def\<close>)
  qed
qed

text \<open>
  C32. The steps an execution ran are distinct steps of the workflow, each after every step
  with an edge to it. The execution is recorded as completed exactly if the graph has no
  cycle and no step that was run failed, and then every step was run.
\<close>

theorem execution_follows_graph:
  assumes "execute_workflow W eg w event company = Inr (eg', pending)"
  shows "\<exists>x rows. eg_executions eg' = eg_executions eg @ [x] \<and> eg_steps eg' = eg_steps eg @ rows \<and>
    distinct (map se_step rows) \<and> set (map se_step rows) \<subseteq> ws_id ` set (wf_steps w) \<and>
    topological (usable (map ws_id (wf_steps w)) (wf_edges w)) (map se_step rows) \<and>
    (ex_status x = COMPLETED \<longleftrightarrow>
       acyclic (set (usable (map ws_id (wf_steps w)) (wf_edges w))) \<and> list_all (\<lambda>r. se_status r = COMPLETED) rows) \<and>
    (ex_status x = COMPLETED \<longrightarrow> set (map se_step rows) = ws_id ` set (wf_steps w))"
  using assms by (rule execute_workflow_cases) blast

definition sample_world :: world where
  "sample_world =
     \<lparr>wd_now = 0, wd_accepts = (\<lambda>_. True),
      wd_env = \<lparr>env_canon = Some, env_kill_switch = None, env_cwmp_url = None, env_seal = (\<lambda>_ _ _. None),
                env_open = (\<lambda>_ _ _. None), env_choice = (\<lambda>_ _ _. 0)\<rparr>,
      wd_race = (\<lambda>d. d), wd_path = (\<lambda>_ _ _. Inl NoSuchRow), wd_http = (\<lambda>_ _ _. Inr JNull)\<rparr>"

definition sample_engine :: "entity list \<Rightarrow> engine" where
  "sample_engine rows =
     \<lparr>eg_rows = rows, eg_next = 100, eg_users = [], eg_categories = [], eg_integrations = [],
      eg_prov = \<lparr>db_now = 0, db_next = 0, db_runs = [], db_jobs = [], db_playbooks = [], db_types = [], db_services = [],
                 db_items = [], db_settings = [], db_credentials = [], db_registrations = [], db_actions = [], db_events = []\<rparr>,
      eg_active_playbooks = [], eg_item_types = [], eg_outbox = [], eg_executions = [], eg_steps = []\<rparr>"

definition sample_step :: "id \<Rightarrow> dict \<Rightarrow> wf_step" where
  "sample_step i config = \<lparr>ws_id = i, ws_name = [], ws_action = UPDATE_FIELD, ws_config = JDict config\<rparr>"

definition sample_order :: entity where
  "sample_order = \<lparr>en_kind = ''order'', en_attrs = [(''id'', JStr ''9''), (''company_id'', JStr ''7''), (''status'', JStr ''ACTIVE''),
     (''order_type'', JStr ''INSTALLATION''), (''payment_status'', JStr ''PENDING'')]\<rparr>"

definition sample_workflow :: workflow where
  "sample_workflow =
     \<lparr>wf_id = 1, wf_company = 7, wf_active = True, wf_engine = 1, wf_triggers = [],
      wf_steps = [sample_step 2 [(''resource_type'', JStr ''order''), (''updates'', JDict [(''status'', JStr ''CANCELLED'')])],
                  sample_step 3 [(''resource_type'', JStr ''order''), (''updates'', JDict [(''due_date'', JStr ''{{now}}'')])]],
      wf_edges = [(3, 2)]\<rparr>"

definition sample_event :: json where
  "sample_event = JDict [(''resource_id'', JStr ''9'')]"

definition sample_run :: "wf_exn + engine \<times> created_trigger list" where
  "sample_run = execute_workflow sample_world (sample_engine [sample_order]) sample_workflow sample_event 7"

lemma sample_runs:
  "case sample_run of Inl e \<Rightarrow> False | Inr (eg, p) \<Rightarrow>
     map se_step (eg_steps eg) = [3, 2] \<and> map ex_status (eg_executions eg) = [COMPLETED] \<and>
     map (attr ''status'') (eg_rows eg) = [JStr ''CANCELLED''] \<and> map (attr ''payment_status'') (eg_rows eg) = [JStr ''PENDING'']"
  by code_simp

lemma sample_run_Inr: obtains eg p where "sample_run = Inr (eg, p)" "map se_step (eg_steps eg) = [3, 2]"
    "map ex_status (eg_executions eg) = [COMPLETED]" "map (attr ''payment_status'') (eg_rows eg) = [JStr ''PENDING'']"
    "map (attr ''status'') (eg_rows eg) = [JStr ''CANCELLED'']"
  using sample_runs by (auto split: sum.splits)

lemma execution_follows_graph_witness:
  "\<exists>eg p x rows. sample_run = Inr (eg, p) \<and> eg_executions eg = [x] \<and> eg_steps eg = rows \<and>
     topological (usable [2, 3] [(3, 2)]) (map se_step rows) \<and> ex_status x = COMPLETED \<and> map se_step rows = [3, 2]"
proof -
  obtain eg p where r: "sample_run = Inr (eg, p)" and s: "map se_step (eg_steps eg) = [3, 2]"
    and x: "map ex_status (eg_executions eg) = [COMPLETED]" by (rule sample_run_Inr)
  from execution_follows_graph [OF r [unfolded sample_run_def]] r s x show ?thesis
    by (fastforce simp: sample_engine_def sample_workflow_def sample_step_def)
qed

section \<open>What a workflow cannot touch\<close>




definition foreign_order :: entity where
  "foreign_order = \<lparr>en_kind = ''order'', en_attrs = [(''id'', JStr ''9''), (''company_id'', JStr ''8''), (''status'', JStr ''ACTIVE'')]\<rparr>"


section \<open>Where the engine falls short\<close>

definition update_order :: "dict \<Rightarrow> wf_exn + engine \<times> json" where
  "update_order updates =
     execute_update_field sample_world (sample_engine [sample_order])
       (JDict [(''resource_type'', JStr ''order''), (''updates'', JDict updates)])
       \<lparr>cx_values = [(''trigger'', sample_event)], cx_pending = []\<rparr> 7"

text \<open>A field shown to authors as not writable is written, and a row leaves its tenant.\<close>

lemma order_type_is_written:
  "\<not> list_all (\<lambda>f. fi_writable f \<or> fi_name f \<in> set (listed UPDATE_FIELD_DENYLIST ''order'')) (get_resource_fields ''order'')"
  "case update_order [(''order_type'', JStr ''ONE_SHOT'')] of
     Inl e \<Rightarrow> False | Inr (eg, r) \<Rightarrow> map (attr ''order_type'') (eg_rows eg) = [JStr ''ONE_SHOT'']"
  by code_simp+

lemma update_moves_a_row_to_another_tenant:
  "case update_order [(''company_id'', JStr ''8'')] of
     Inl e \<Rightarrow> False | Inr (eg, r) \<Rightarrow> map (attr ''company_id'') (eg_rows eg) = [JStr ''8'']"
  by code_simp

text \<open>Order lines are offered to authors, but no step can write or create one.\<close>

lemma order_item_always_fails:
  assumes "jget ''resource_type'' config = JStr ''order_item''"
  shows "\<exists>e. execute_update_field W eg config cx company = Inl e" "\<exists>e. execute_create_entity W eg config cx company = Inl e"
proof -
  have col: "\<not> has_column ''order_item'' ''company_id''" "has_column ''order_item'' ''quantity''" by code_simp+
  have keys: "\<not> list_all (has_column ''order_item'') (map fst (dput ''company_id'' v d))" for v d
    using col(1) by (auto simp: list_all_iff dput_def dom_update)
  have kt: "known_type (JStr ''order_item'') = Inr ''order_item''" by code_simp
  show "\<exists>e. execute_update_field W eg config cx company = Inl e"
    using col by (cases "execute_update_field W eg config cx company")
      (auto simp: execute_update_field_def assms kt bindR_Inr_iff guardR_Inr_iff update_matching_def update_one_def Let_def
        split: if_splits)
  show "\<exists>e. execute_create_entity W eg config cx company = Inl e"
    using keys by (cases "execute_create_entity W eg config cx company")
      (auto simp: execute_create_entity_def assms kt bindR_Inr_iff guardR_Inr_iff insert_entity_def)
qed

text \<open>A template is resolved twice for an explicit playbook, and the second time is not idle.\<close>

lemma second_resolution_changes:
  "let cx = \<lparr>cx_values = [(''trigger'', JDict [(''resource_id'', JStr ''9''), (''after'', JDict [(''name'', JStr ''{{trigger.resource_id}}'')])])],
             cx_pending = []\<rparr>;
       once = resolve_template sample_world cx (JStr ''{{trigger.after.name}}'')
   in once = JStr ''{{trigger.resource_id}}'' \<and> resolve_template sample_world cx once = JStr ''9''"
  by code_simp

end
