(* ===== verification/Sessions.thy ===== *)
theory Sessions
  imports Provisioning_State
begin

text \<open>
  \<open>utils/sessions.py\<close>: the revocation of access tokens. A token names its session by the
  claim \<open>sid\<close>, the family of its refresh token; every process keeps a cache of verdicts.

  The module's operations are defined as it has them, over the rows a database session sees
  and the cache of the process. Below them the processes of a deployment are a step relation:
  a look-up is taken in its three parts (read the cache, query, store the verdict), which
  requests of one process may interleave, and a revocation is visible to others only after
  the caller has committed. Times are in microseconds; \<open>time.monotonic()\<close> of a process is the
  time of the world plus an origin of its own.
\<close>

section \<open>The refresh tokens\<close>

record refresh_token =
  rt_jti :: string
  rt_family :: id
  rt_user :: id
  rt_company :: "id option"
  rt_revoked_at :: "int option"

definition family_revoked :: "id \<Rightarrow> refresh_token list \<Rightarrow> bool" where
  \<comment> \<open>the query of \<open>is_session_revoked\<close>\<close>
  "family_revoked f rows \<longleftrightarrow> list_ex (\<lambda>r. rt_family r = f \<and> rt_revoked_at r \<noteq> None) rows"

section \<open>The cache of a process\<close>

definition SESSION_CACHE_SECONDS :: int where "SESSION_CACHE_SECONDS = 30 * 1000000"

definition CACHE_MAX :: nat where "CACHE_MAX = 10000"

text \<open>A verdict and the time it is good until; \<open>None\<close> is \<open>float("inf")\<close>.\<close>

type_synonym verdict = "bool \<times> int option"
type_synonym cache = "(json \<times> verdict) list"

definition good_at :: "int \<Rightarrow> verdict \<Rightarrow> bool" where
  \<comment> \<open>\<open>hit[1] > now\<close>\<close>
  "good_at now v = (case snd v of None \<Rightarrow> True | Some t \<Rightarrow> now < t)"

definition cache_hit :: "cache \<Rightarrow> json \<Rightarrow> int \<Rightarrow> bool option" where
  "cache_hit c sid now =
     (case map_of c sid of
        Some v \<Rightarrow> if good_at now v then Some (fst v) else None
      | None \<Rightarrow> None)"

definition clear_session_cache :: "cache \<Rightarrow> cache" where
  "clear_session_cache c = []"

definition cache_store :: "cache \<Rightarrow> json \<Rightarrow> int \<Rightarrow> bool \<Rightarrow> cache" where
  "cache_store c sid now revoked =
     AList.update sid (revoked, if revoked then None else Some (now + SESSION_CACHE_SECONDS))
       (if CACHE_MAX \<le> length c then clear_session_cache c else c)"

section \<open>The operations\<close>

datatype session_error = SESSION_REVOKED | Unhashable | NoSelector

definition is_session_revoked :: "refresh_token list \<Rightarrow> int \<Rightarrow> json \<Rightarrow> cache \<Rightarrow> bool \<times> cache" where
  "is_session_revoked rows now sid c =
     (case cache_hit c sid now of
        Some r \<Rightarrow> (r, c)
      | None \<Rightarrow>
          (case uuid_of (JStr (py_str sid)) of
             None \<Rightarrow> (True, c)
           | Some f \<Rightarrow> (family_revoked f rows, cache_store c sid now (family_revoked f rows))))"

definition check_session :: "refresh_token list \<Rightarrow> int \<Rightarrow> dict \<Rightarrow> cache \<Rightarrow> (session_error + unit) \<times> cache" where
  \<comment> \<open>a list or a dict cannot be a key of the cache: \<open>TypeError\<close>\<close>
  "check_session rows now payload c =
     (let sid = dget ''sid'' payload
      in if sid = JNull then (Inr (), c)
         else if \<not> hashable sid then (Inl Unhashable, c)
         else (let (revoked, c') = is_session_revoked rows now sid c
               in (if revoked then Inl SESSION_REVOKED else Inr (), c')))"

definition is_selected :: "id option \<Rightarrow> id option \<Rightarrow> refresh_token \<Rightarrow> bool" where
  "is_selected user company r =
     (case user of
        Some u \<Rightarrow> rt_user r = u
      | None \<Rightarrow> rt_company r = company \<and> company \<noteq> None)"

definition revoke_user_sessions ::
  "refresh_token list \<Rightarrow> int \<Rightarrow> id option \<Rightarrow> id option \<Rightarrow> cache \<Rightarrow> session_error + refresh_token list \<times> cache" where
  "revoke_user_sessions rows now user company c =
     guardR (user = None \<and> company = None) NoSelector
       (Inr (map (\<lambda>r. if rt_revoked_at r = None \<and> is_selected user company r then r\<lparr>rt_revoked_at := Some now\<rparr> else r) rows,
             clear_session_cache c))"

section \<open>The processes of a deployment\<close>

text \<open>
  A database session \<open>s\<close> belongs to the process \<open>home s\<close>; it sees the committed rows and its own
  writes. A look-up in flight is one that found nothing good in the cache: it knows the time it
  started at and, once it has queried, its verdict.
\<close>

record flight =
  fl_session :: nat
  fl_sid :: json
  fl_family :: id
  fl_now :: int
  fl_verdict :: "bool option"

record process_world =
  w_clock :: int
  w_rows :: "refresh_token list"
  w_writes :: "nat \<Rightarrow> (string \<times> int) list"
  w_caches :: "nat \<Rightarrow> cache"
  w_flights :: "flight list"

definition write_row :: "(string \<times> int) list \<Rightarrow> refresh_token \<Rightarrow> refresh_token" where
  "write_row ws r =
     (case map_of ws (rt_jti r) of
        Some t \<Rightarrow> if rt_revoked_at r = None then r\<lparr>rt_revoked_at := Some t\<rparr> else r
      | None \<Rightarrow> r)"

definition view :: "nat \<Rightarrow> process_world \<Rightarrow> refresh_token list" where
  "view s w = map (write_row (w_writes w s)) (w_rows w)"

definition writes_of :: "refresh_token list \<Rightarrow> refresh_token list \<Rightarrow> (string \<times> int) list" where
  "writes_of old new = List.map_filter (\<lambda>r. if r \<in> set old then None else map_option (Pair (rt_jti r)) (rt_revoked_at r)) new"

definition drop_at :: "nat \<Rightarrow> 'a list \<Rightarrow> 'a list" where
  "drop_at n xs = take n xs @ drop (Suc n) xs"

datatype action =
    Wait int
  | Start nat json
  | Query nat
  | Store nat
  | Revoke nat "id option" "id option"
  | Outside nat string
  | Commit nat
  | Rollback nat
  | Issue refresh_token

text \<open>
  \<open>Outside\<close> is a revocation written by other code (a logout, a token used twice), \<open>Issue\<close> a login
  or a refresh; both are of another service. An action that cannot be taken is \<open>None\<close>.
\<close>

fun act :: "(nat \<Rightarrow> nat) \<Rightarrow> (nat \<Rightarrow> int) \<Rightarrow> action \<Rightarrow> process_world \<Rightarrow> process_world option" where
  "act home origin (Wait d) w = (if 0 \<le> d then Some (w\<lparr>w_clock := w_clock w + d\<rparr>) else None)"
| "act home origin (Start s sid) w =
     (let now = w_clock w + origin (home s)
      in case (cache_hit (w_caches w (home s)) sid now, uuid_of (JStr (py_str sid))) of
           (None, Some f) \<Rightarrow>
             Some (w\<lparr>w_flights := w_flights w @ [\<lparr>fl_session = s, fl_sid = sid, fl_family = f, fl_now = now, fl_verdict = None\<rparr>]\<rparr>)
         | _ \<Rightarrow> None)"
| "act home origin (Query n) w =
     (if n < length (w_flights w) \<and> fl_verdict (w_flights w ! n) = None
      then (let fl = w_flights w ! n
            in Some (w\<lparr>w_flights := (w_flights w)
                        [n := fl\<lparr>fl_verdict := Some (family_revoked (fl_family fl) (view (fl_session fl) w))\<rparr>]\<rparr>))
      else None)"
| "act home origin (Store n) w =
     (if n < length (w_flights w)
      then (let fl = w_flights w ! n; p = home (fl_session fl)
            in case fl_verdict fl of
                 None \<Rightarrow> None
               | Some v \<Rightarrow>
                   Some (w\<lparr>w_caches := (w_caches w)(p := cache_store (w_caches w p) (fl_sid fl) (fl_now fl) v),
                          w_flights := drop_at n (w_flights w)\<rparr>))
      else None)"
| "act home origin (Revoke s user company) w =
     (case revoke_user_sessions (view s w) (w_clock w) user company (w_caches w (home s)) of
        Inl e \<Rightarrow> None
      | Inr (rows, c) \<Rightarrow>
          Some (w\<lparr>w_writes := (w_writes w)(s := w_writes w s @ writes_of (view s w) rows),
                 w_caches := (w_caches w)(home s := c)\<rparr>))"
| "act home origin (Outside s jti) w =
     Some (w\<lparr>w_writes := (w_writes w)(s := w_writes w s @ [(jti, w_clock w)])\<rparr>)"
| "act home origin (Commit s) w =
     Some (w\<lparr>w_rows := view s w, w_writes := (w_writes w)(s := [])\<rparr>)"
| "act home origin (Rollback s) w = Some (w\<lparr>w_writes := (w_writes w)(s := [])\<rparr>)"
| "act home origin (Issue r) w =
     (if rt_revoked_at r = None \<and> rt_jti r \<notin> rt_jti ` set (w_rows w)
      then Some (w\<lparr>w_rows := w_rows w @ [r]\<rparr>) else None)"

fun acts :: "(nat \<Rightarrow> nat) \<Rightarrow> (nat \<Rightarrow> int) \<Rightarrow> action list \<Rightarrow> process_world \<Rightarrow> process_world option" where
  "acts home origin [] w = Some w"
| "acts home origin (a # as) w = (case act home origin a w of None \<Rightarrow> None | Some w' \<Rightarrow> acts home origin as w')"

definition fresh_world :: process_world where
  \<comment> \<open>every process has just started\<close>
  "fresh_world = \<lparr>w_clock = 0, w_rows = [], w_writes = (\<lambda>_. []), w_caches = (\<lambda>_. []), w_flights = []\<rparr>"

definition verdict_at :: "(nat \<Rightarrow> nat) \<Rightarrow> (nat \<Rightarrow> int) \<Rightarrow> nat \<Rightarrow> json \<Rightarrow> process_world \<Rightarrow> bool" where
  \<comment> \<open>what a look-up of session \<open>s\<close> answers in one go\<close>
  "verdict_at home origin s sid w =
     fst (is_session_revoked (view s w) (w_clock w + origin (home s)) sid (w_caches w (home s)))"

section \<open>A verdict is never old\<close>

lemma map_of_cache_store:
  "map_of (cache_store c sid now v) k =
     (if k = sid then Some (v, if v then None else Some (now + SESSION_CACHE_SECONDS))
      else if CACHE_MAX \<le> length c then None else map_of c k)"
  by (simp add: cache_store_def clear_session_cache_def update_conv')

lemma drop_at_member: "x \<in> set (drop_at n xs) \<Longrightarrow> x \<in> set xs"
  by (auto simp: drop_at_def dest: in_set_takeD in_set_dropD)

lemma length_update: "length (AList.update k v c) = (if k \<in> fst ` set c then length c else Suc (length c))"
  by (induction c) auto

lemma cache_store_bound: "length c \<le> CACHE_MAX \<Longrightarrow> length (cache_store c sid now v) \<le> CACHE_MAX"
  by (auto simp: cache_store_def clear_session_cache_def length_update CACHE_MAX_def simp del: update.simps)

text \<open>The live verdicts in the caches are at most the life of an entry away from the present.\<close>

definition live_until :: "(nat \<Rightarrow> int) \<Rightarrow> (json \<Rightarrow> bool) \<Rightarrow> int \<Rightarrow> nat \<Rightarrow> cache \<Rightarrow> bool" where
  "live_until origin P t p c \<longleftrightarrow>
     (\<forall>sid u. P sid \<longrightarrow> map_of c sid = Some (False, u) \<longrightarrow> (\<exists>b. u = Some b \<and> b \<le> t + origin p + SESSION_CACHE_SECONDS))"

definition timely :: "(nat \<Rightarrow> nat) \<Rightarrow> (nat \<Rightarrow> int) \<Rightarrow> process_world \<Rightarrow> bool" where
  "timely home origin w \<longleftrightarrow>
     (\<forall>p. live_until origin (\<lambda>_. True) (w_clock w) p (w_caches w p) \<and> length (w_caches w p) \<le> CACHE_MAX) \<and>
     (\<forall>fl \<in> set (w_flights w). fl_now fl \<le> w_clock w + origin (home (fl_session fl)) \<and>
        uuid_of (JStr (py_str (fl_sid fl))) = Some (fl_family fl))"

lemma live_until_store:
  "live_until origin P t p c \<Longrightarrow> (P sid \<Longrightarrow> \<not> v \<Longrightarrow> now \<le> t + origin p) \<Longrightarrow>
     live_until origin P t p (cache_store c sid now v)"
  by (auto simp: live_until_def map_of_cache_store)

lemma live_until_Nil [simp]: "live_until origin P t p []"
  by (simp add: live_until_def)

lemma live_until_later: "live_until origin P t p c \<Longrightarrow> t \<le> t' \<Longrightarrow> live_until origin P t' p c"
  by (fastforce simp: live_until_def)

lemma revoke_clears: "revoke_user_sessions rows now u c k = Inr (rows', k') \<Longrightarrow> k' = []"
  by (auto simp: revoke_user_sessions_def clear_session_cache_def guardR_Inr_iff)

lemma timely_fresh: "timely home origin fresh_world"
  by (simp add: timely_def fresh_world_def)

lemma timely_later:
  assumes "timely home origin w" and "0 \<le> d"
  shows "timely home origin (w\<lparr>w_clock := w_clock w + d\<rparr>)"
proof -
  have "live_until origin (\<lambda>_. True) (w_clock w + d) p (w_caches w p)" for p
    using assms by (auto simp: timely_def intro: live_until_later [of _ _ "w_clock w"])
  moreover have "fl_now fl \<le> w_clock w + d + origin (home (fl_session fl))" if "fl \<in> set (w_flights w)" for fl
  proof -
    have "fl_now fl \<le> w_clock w + origin (home (fl_session fl))" using assms(1) that by (simp add: timely_def)
    with assms(2) show ?thesis by linarith
  qed
  ultimately show ?thesis using assms(1) by (simp add: timely_def)
qed

lemma timely_act: "timely home origin w \<Longrightarrow> act home origin a w = Some w' \<Longrightarrow> timely home origin w'"
proof (cases a)
  case (Wait d)
  assume "timely home origin w" and "act home origin a w = Some w'"
  then show ?thesis using Wait by (auto intro: timely_later split: if_splits)
next
  case (Store n)
  assume inv: "timely home origin w" and a: "act home origin a w = Some w'"
  then have n: "w_flights w ! n \<in> set (w_flights w)"
    using Store by (auto split: if_splits)
  show ?thesis
    using inv a n unfolding timely_def
    by (auto simp: Store Let_def cache_store_bound intro!: live_until_store dest!: drop_at_member split: if_splits option.splits)
next
  case (Query n)
  assume inv: "timely home origin w" and a: "act home origin a w = Some w'"
  then show ?thesis
    unfolding timely_def by (auto simp: Query Let_def dest!: set_update_subset_insert [THEN subsetD] split: if_splits)
qed (auto simp: timely_def Let_def clear_session_cache_def dest: revoke_clears
  split: if_splits option.splits sum.splits)

lemma timely_acts: "timely home origin w \<Longrightarrow> acts home origin as w = Some w' \<Longrightarrow> timely home origin w'"
  by (induction as arbitrary: w) (auto split: option.splits dest: timely_act)

section \<open>A revoked family is soon rejected everywhere\<close>

definition names_family :: "id \<Rightarrow> json \<Rightarrow> bool" where
  "names_family f sid \<longleftrightarrow> uuid_of (JStr (py_str sid)) = Some f"

definition family_settled :: "(nat \<Rightarrow> nat) \<Rightarrow> (nat \<Rightarrow> int) \<Rightarrow> id \<Rightarrow> int \<Rightarrow> process_world \<Rightarrow> bool" where
  "family_settled home origin f t w \<longleftrightarrow>
     timely home origin w \<and> family_revoked f (w_rows w) \<and>
     (\<forall>p. live_until origin (names_family f) t p (w_caches w p)) \<and>
     (\<forall>fl \<in> set (w_flights w). fl_family fl = f \<longrightarrow> fl_verdict fl = Some False \<longrightarrow> fl_now fl \<le> t + origin (home (fl_session fl)))"

lemma rt_family_write [simp]: "rt_family (write_row ws r) = rt_family r"
  by (simp add: write_row_def split: option.splits)

lemma revoked_write: "rt_revoked_at r \<noteq> None \<Longrightarrow> rt_revoked_at (write_row ws r) \<noteq> None"
  by (simp add: write_row_def split: option.splits)

lemma family_revoked_view: "family_revoked f (w_rows w) \<Longrightarrow> family_revoked f (view s w)"
  unfolding family_revoked_def view_def list_ex_iff by (metis (no_types, lifting) image_eqI list.set_map revoked_write rt_family_write)

lemma settled_now: "timely home origin w \<Longrightarrow> family_revoked f (w_rows w) \<Longrightarrow> family_settled home origin f (w_clock w) w"
  by (auto simp: family_settled_def timely_def live_until_def)

lemma settled_act:
  assumes inv: "family_settled home origin f t w" and a: "act home origin a w = Some w'"
  shows "family_settled home origin f t w'"
proof -
  have tm: "timely home origin w'" using inv a by (auto simp: family_settled_def intro: timely_act)
  have rv: "family_revoked f (view s w)" for s
    using inv by (simp add: family_settled_def family_revoked_view)
  have rest: "family_revoked f (w_rows w') \<and> (\<forall>p. live_until origin (names_family f) t p (w_caches w' p)) \<and>
     (\<forall>fl \<in> set (w_flights w'). fl_family fl = f \<longrightarrow> fl_verdict fl = Some False \<longrightarrow> fl_now fl \<le> t + origin (home (fl_session fl)))"
  proof (cases a)
    case (Store n)
    then have n: "w_flights w ! n \<in> set (w_flights w)" using a by (auto split: if_splits)
    show ?thesis
      using inv a n unfolding family_settled_def timely_def
      by (auto simp: Store Let_def names_family_def intro!: live_until_store dest!: drop_at_member split: if_splits option.splits)
  next
    case (Query n)
    then show ?thesis
      using inv a rv unfolding family_settled_def
      by (auto simp: Let_def dest!: set_update_subset_insert [THEN subsetD] split: if_splits)
  qed (use inv a rv in \<open>auto simp: family_settled_def Let_def clear_session_cache_def family_revoked_def dest: revoke_clears
    split: if_splits option.splits sum.splits\<close>)
  show ?thesis using tm rest by (simp add: family_settled_def)
qed

lemma settled_acts: "family_settled home origin f t w \<Longrightarrow> acts home origin as w = Some w' \<Longrightarrow> family_settled home origin f t w'"
  by (induction as arbitrary: w) (auto split: option.splits dest: settled_act)

lemma settled_rejects:
  assumes inv: "family_settled home origin f t w" and sid: "names_family f sid" and late: "t + SESSION_CACHE_SECONDS \<le> w_clock w"
  shows "verdict_at home origin s sid w"
proof -
  let ?c = "w_caches w (home s)" and ?now = "w_clock w + origin (home s)"
  have rv: "family_revoked f (view s w)" using inv by (simp add: family_settled_def family_revoked_view)
  have old: "\<exists>b. u = Some b \<and> b \<le> t + origin (home s) + SESSION_CACHE_SECONDS" if "map_of ?c sid = Some (False, u)" for u
    using inv sid that by (simp add: family_settled_def live_until_def)
  show ?thesis
  proof (cases "cache_hit ?c sid ?now")
    case None
    then show ?thesis using rv sid by (simp add: verdict_at_def is_session_revoked_def names_family_def)
  next
    case (Some r)
    then obtain u where u: "map_of ?c sid = Some (r, u)" "good_at ?now (r, u)"
      by (auto simp: cache_hit_def split: option.splits if_splits)
    have "r"
    proof (rule ccontr)
      assume "\<not> r"
      with u old obtain b where "u = Some b" "b \<le> t + origin (home s) + SESSION_CACHE_SECONDS" by auto
      with u late show False by (simp add: good_at_def)
    qed
    then show ?thesis using Some by (simp add: verdict_at_def is_session_revoked_def)
  qed
qed

definition demo_token :: refresh_token where
  "demo_token = \<lparr>rt_jti = ''a'', rt_family = 7, rt_user = 1, rt_company = Some 2, rt_revoked_at = None\<rparr>"

text \<open>
  The process that revokes is not safe from the moment it clears its cache: the caller commits
  later, and a request of the same process in between stores a live verdict again.
\<close>

lemma revoker_accepts_after_commit:
  "case acts (\<lambda>_. 0) (\<lambda>_. 0)
     [Issue demo_token, Revoke 4 (Some 1) None, Start 5 (JStr ''7''), Query 0, Store 0, Commit 4, Wait 29999999] fresh_world of
     Some w \<Rightarrow> family_revoked 7 (w_rows w) \<and> \<not> verdict_at (\<lambda>_. 0) (\<lambda>_. 0) 4 (JStr ''7'') w
   | None \<Rightarrow> False"
  by (simp add: fresh_world_def demo_token_def cache_hit_def uuid_of_def is_digit_def show_nat.simps read_nat_def
    digit_char_def family_revoked_def view_def write_row_def cache_store_def CACHE_MAX_def SESSION_CACHE_SECONDS_def
    revoke_user_sessions_def is_selected_def writes_of_def List.map_filter_def drop_at_def clear_session_cache_def
    verdict_at_def is_session_revoked_def good_at_def)

text \<open>Taken without interruption, the three parts of a look-up are \<open>is_session_revoked\<close>.\<close>

lemma parts_of_look_up:
  assumes "cache_hit (w_caches w (home s)) sid (w_clock w + origin (home s)) = None" and "names_family f sid" and "w_flights w = []"
  shows "acts home origin [Start s sid, Query 0, Store 0] w =
     Some (w\<lparr>w_caches := (w_caches w)(home s := snd (is_session_revoked (view s w) (w_clock w + origin (home s)) sid (w_caches w (home s))))\<rparr>)"
  using assms by (cases w) (simp add: names_family_def is_session_revoked_def drop_at_def view_def Let_def)

end
