(* ===== verification/Access_Control.thy ===== *)
theory Access_Control
  imports Sessions
begin

text \<open>
  Who a request is from and what it may do: the tokens of \<open>utils/jwt_utils.py\<close>, the
  dependencies of \<open>dependencies/auth.py\<close> and \<open>utils/permission_utils.py\<close>, over the users and
  roles of \<open>models/auth.py\<close>. The JWT library is two arguments, \<open>encode\<close> for \<open>jwt.encode\<close> and \<open>decode\<close>
  for \<open>jwt.decode\<close> with the key and the algorithm of the module; reading a user from the
  database does not fail.
\<close>

section \<open>Users and roles\<close>

record role =
  ro_name :: string
  ro_company :: "id option"
  ro_permissions :: "string list"

record user =
  us_id :: id
  us_company :: "id option"
  us_active :: bool
  us_super :: bool
  us_system :: bool
  us_roles :: "role list"

section \<open>Tokens\<close>

datatype jwt_result = Decoded dict | ExpiredSignature | InvalidJwt | JwtError string

datatype http_error = HTTP nat string | Unhandled

definition TOKEN_TYPE_ACCESS :: string where "TOKEN_TYPE_ACCESS = ''access''"
definition TOKEN_TYPE_REFRESH :: string where "TOKEN_TYPE_REFRESH = ''refresh''"

definition has_key :: "string \<Rightarrow> dict \<Rightarrow> bool" where
  "has_key k d = list_ex (\<lambda>p. fst p = k) d"

definition token_claims :: "int \<Rightarrow> int \<Rightarrow> dict \<Rightarrow> int \<Rightarrow> dict" where
  \<comment> \<open>times in seconds; a delta of zero is falsy, so it is the default one\<close>
  "token_claims access_expire now data delta =
     dput ''exp'' (JInt (now + (if delta \<noteq> 0 then delta else access_expire * 60))) data"

definition create_token :: "(dict \<Rightarrow> string) \<Rightarrow> int \<Rightarrow> int \<Rightarrow> dict \<Rightarrow> int \<Rightarrow> string" where
  "create_token encode access_expire now data delta = encode (token_claims access_expire now data delta)"

definition opt_text :: "id option \<Rightarrow> json" where
  "opt_text v = (case v of None \<Rightarrow> JNull | Some i \<Rightarrow> JStr (show_nat i))"

definition access_data :: "user \<Rightarrow> string option \<Rightarrow> dict" where
  "access_data u sid =
     [(''id'', JStr (show_nat (us_id u))), (''roles'', JList (map (JStr \<circ> ro_name) (us_roles u))),
      (''company_id'', opt_text (us_company u)), (''is_super_admin'', JBool (us_super u)),
      (''type'', JStr TOKEN_TYPE_ACCESS)]
     @ (case sid of None \<Rightarrow> [] | Some s \<Rightarrow> [(''sid'', JStr s)])"

definition access_delta :: "int \<Rightarrow> int option \<Rightarrow> int" where
  "access_delta access_expire expires_minutes =
     60 * (case expires_minutes of None \<Rightarrow> access_expire | Some m \<Rightarrow> m)"

definition create_access_token ::
  "(dict \<Rightarrow> string) \<Rightarrow> int \<Rightarrow> int \<Rightarrow> user \<Rightarrow> int option \<Rightarrow> string option \<Rightarrow> string" where
  "create_access_token encode access_expire now u expires_minutes sid =
     create_token encode access_expire now (access_data u sid) (access_delta access_expire expires_minutes)"

definition refresh_data :: "user \<Rightarrow> string \<Rightarrow> string \<Rightarrow> dict" where
  "refresh_data u client_type jti =
     [(''id'', JStr (show_nat (us_id u))), (''type'', JStr TOKEN_TYPE_REFRESH),
      (''cl'', JStr (if client_type = ''mobile'' then ''m'' else ''w'')), (''jti'', JStr jti)]"

definition jti_or_fresh :: "string option \<Rightarrow> string \<Rightarrow> string" where
  \<comment> \<open>\<open>jti or uuid.uuid4().hex\<close>\<close>
  "jti_or_fresh jti fresh = (case jti of Some j \<Rightarrow> if j \<noteq> [] then j else fresh | None \<Rightarrow> fresh)"

definition create_refresh_token ::
  "(dict \<Rightarrow> string) \<Rightarrow> int \<Rightarrow> int \<Rightarrow> int \<Rightarrow> user \<Rightarrow> string \<Rightarrow> string option \<Rightarrow> string \<Rightarrow> string" where
  "create_refresh_token encode access_expire refresh_expire now u client_type jti fresh =
     create_token encode access_expire now
       (refresh_data u client_type (jti_or_fresh jti fresh)) refresh_expire"

definition is_refresh_payload :: "dict \<Rightarrow> bool" where
  "is_refresh_payload payload =
     (if has_key ''type'' payload then dget ''type'' payload = JStr TOKEN_TYPE_REFRESH else \<not> has_key ''roles'' payload)"

definition decode_token :: "(string \<Rightarrow> jwt_result) \<Rightarrow> string \<Rightarrow> http_error + dict" where
  "decode_token decode token =
     (case decode token of
        Decoded payload \<Rightarrow> Inr payload
      | ExpiredSignature \<Rightarrow> Inl (HTTP 401 ''Signature has expired'')
      | InvalidJwt \<Rightarrow> Inl (HTTP 401 ''Invalid token'')
      | JwtError e \<Rightarrow> Inl (HTTP 401 (''Error: '' @ e)))"

section \<open>The header\<close>

definition is_header_space :: "char \<Rightarrow> bool" where
  \<comment> \<open>what \<open>split()\<close> splits at, for the characters of a header\<close>
  "is_header_space c \<longleftrightarrow> is_space c \<or> c = CHR 0x85 \<or> c = CHR 0xA0"

fun words_from :: "string \<Rightarrow> string \<Rightarrow> string list" where
  "words_from w [] = (if w = [] then [] else [w])"
| "words_from w (c # cs) =
     (if is_header_space c then (if w = [] then words_from [] cs else w # words_from [] cs)
      else words_from (w @ [c]) cs)"

definition py_split :: "string \<Rightarrow> string list" where
  "py_split s = words_from [] s"

definition get_token_from_header :: "string option \<Rightarrow> http_error + string" where
  "get_token_from_header header =
     (case header of
        None \<Rightarrow> Inl (HTTP 401 ''Missing authorization header'')
      | Some h \<Rightarrow>
          if h = [] then Inl (HTTP 401 ''Missing authorization header'')
          else (case py_split h of
                  [scheme, token] \<Rightarrow>
                    guardR (str_lower scheme \<noteq> ''bearer'') (HTTP 401 ''Invalid authentication scheme'') (Inr token)
                | _ \<Rightarrow> Inl (HTTP 401 ''Invalid authorization header format'')))"

section \<open>The current user\<close>

record auth_env =
  \<comment> \<open>what a request sees: the users, the refresh tokens, the clock of the process\<close>
  ae_users :: "user list"
  ae_tokens :: "refresh_token list"
  ae_now :: int

definition session_http :: "session_error \<Rightarrow> http_error" where
  "session_http e = (if e = SESSION_REVOKED then HTTP 401 ''SESSION_REVOKED'' else Unhandled)"

definition token_user :: "(string \<Rightarrow> jwt_result) \<Rightarrow> string option \<Rightarrow> http_error + dict \<times> id" where
  \<comment> \<open>the payload of the token and the id it names\<close>
  "token_user decode header =
     bindR (get_token_from_header header) (\<lambda>token.
     bindR (decode_token decode token) (\<lambda>payload.
     guardR (is_refresh_payload payload) (HTTP 401 ''Invalid token type'') (
     guardR (dget ''id'' payload = JNull) (HTTP 401 ''Invalid token'') (
     case uuid_of (dget ''id'' payload) of
       None \<Rightarrow> Inl (HTTP 401 ''Invalid user ID format in token'')
     | Some i \<Rightarrow> Inr (payload, i)))))"

definition active_user :: "user list \<Rightarrow> id \<Rightarrow> http_error \<Rightarrow> http_error + user" where
  "active_user users i missing =
     (case find_by us_id i users of
        None \<Rightarrow> Inl missing
      | Some u \<Rightarrow> guardR (\<not> us_active u) (HTTP 403 ''Account has been deactivated'') (Inr u))"

definition get_current_user ::
  "(string \<Rightarrow> jwt_result) \<Rightarrow> auth_env \<Rightarrow> string option \<Rightarrow> cache \<Rightarrow> (http_error + user) \<times> cache" where
  "get_current_user decode env header c =
     (case token_user decode header of
        Inl e \<Rightarrow> (Inl e, c)
      | Inr (payload, i) \<Rightarrow>
          (case check_session (ae_tokens env) (ae_now env) payload c of
             (Inl e, c') \<Rightarrow> (Inl (session_http e), c')
           | (Inr _, c') \<Rightarrow> (active_user (ae_users env) i (HTTP 404 ''User not found''), c')))"

definition is_builtin :: "string list \<Rightarrow> role \<Rightarrow> bool" where
  "is_builtin wanted r \<longleftrightarrow> ro_name r \<in> set wanted \<and> ro_company r = None"

definition get_admin_user :: "user \<Rightarrow> http_error + user" where
  "get_admin_user u =
     guardR (\<not> list_ex (is_builtin [''ADMIN'']) (us_roles u)) (HTTP 403 ''Admin privileges required'') (Inr u)"

definition get_super_admin :: "user \<Rightarrow> http_error + user" where
  "get_super_admin u =
     guardR (\<not> us_super u) (HTTP 403 ''Super admin privileges required'') (
     guardR (us_company u \<noteq> None) (HTTP 403 ''Super admin must not be associated with any company'') (Inr u))"

definition require_roles :: "string list \<Rightarrow> user \<Rightarrow> http_error + user" where
  "require_roles allowed u =
     guardR (\<not> list_ex (is_builtin allowed) (us_roles u))
       (HTTP 403 ''You do not have permission to access this resource'') (Inr u)"

section \<open>Permissions\<close>

fun collect_permissions :: "role list \<Rightarrow> string set \<Rightarrow> string set" where
  "collect_permissions [] acc = acc"
| "collect_permissions (r # rs) acc =
     (if is_builtin [''ADMIN''] r then {''*''} else collect_permissions rs (acc \<union> set (ro_permissions r)))"

definition get_user_permissions :: "user \<Rightarrow> string set" where
  "get_user_permissions u = collect_permissions (us_roles u) {}"

definition resource_wildcard :: "string \<Rightarrow> string" where
  "resource_wildcard p = hd (split_on CHR ''.'' p) @ ''.*''"

definition has_permission :: "user \<Rightarrow> string \<Rightarrow> bool" where
  "has_permission u p =
     (let ps = get_user_permissions u in ''*'' \<in> ps \<or> p \<in> ps \<or> resource_wildcard p \<in> ps)"

definition has_any_permission :: "user \<Rightarrow> string list \<Rightarrow> bool" where
  "has_any_permission u ps = list_ex (has_permission u) ps"

definition payload_user :: "dict \<Rightarrow> http_error + id" where
  "payload_user payload =
     (let v = dget ''id'' payload
      in guardR (\<not> truthy v) (HTTP 401 ''Invalid token payload'') (
         if is_str v
         then (case uuid_of v of None \<Rightarrow> Inl (HTTP 401 ''Invalid token payload'') | Some i \<Rightarrow> Inr i)
         else Inl Unhandled))"

definition permission_payload :: "(string \<Rightarrow> jwt_result) \<Rightarrow> string option \<Rightarrow> http_error + dict" where
  "permission_payload decode header =
     bindR (get_token_from_header header) (\<lambda>token.
     guardR (token = []) (HTTP 401 ''Not authenticated'') (
     bindR (decode_token decode token) (\<lambda>payload.
     guardR (payload = []) (HTTP 401 ''Invalid token'') (
     guardR (is_refresh_payload payload) (HTTP 401 ''Invalid token type'') (Inr payload)))))"

definition require_permission ::
  "(string \<Rightarrow> jwt_result) \<Rightarrow> string \<Rightarrow> auth_env \<Rightarrow> string option \<Rightarrow> cache \<Rightarrow> (http_error + user) \<times> cache" where
  \<comment> \<open>an id that is not a text cannot be bound to the column\<close>
  "require_permission decode p env header c =
     (case permission_payload decode header of
        Inl e \<Rightarrow> (Inl e, c)
      | Inr payload \<Rightarrow>
          (case check_session (ae_tokens env) (ae_now env) payload c of
             (Inl e, c') \<Rightarrow> (Inl (session_http e), c')
           | (Inr _, c') \<Rightarrow>
               (bindR (payload_user payload) (\<lambda>i.
                bindR (active_user (ae_users env) i (HTTP 401 ''User not found'')) (\<lambda>u.
                guardR (\<not> has_permission u p) (HTTP 403 (''Permission denied. Required permission: '' @ p)) (Inr u))), c')))"

section \<open>One rule of authentication\<close>

lemma py_split_nonempty: "w \<in> set (words_from a s) \<Longrightarrow> w \<noteq> []"
  by (induction a s rule: words_from.induct) (auto split: if_splits)

lemma header_token_nonempty: "get_token_from_header header = Inr t \<Longrightarrow> t \<noteq> []"
  by (auto simp: get_token_from_header_def py_split_def guardR_Inr_iff split: option.splits if_splits list.splits
    dest: py_split_nonempty)
    (metis list.set_intros py_split_nonempty)+

lemma uuid_of_text: "uuid_of v = Some i \<Longrightarrow> is_str v \<and> truthy v"
  by (cases v) (auto simp: uuid_of_def split: if_splits)

lemma payload_user_iff: "payload_user p = Inr i \<longleftrightarrow> uuid_of (dget ''id'' p) = Some i"
proof (cases "uuid_of (dget ''id'' p)")
  case None
  then show ?thesis by (simp add: payload_user_def Let_def guardR_Inr_iff)
next
  case (Some j)
  then show ?thesis using uuid_of_text [OF Some] by (simp add: payload_user_def Let_def)
qed

lemma empty_payload_is_refresh: "is_refresh_payload []"
  by (simp add: is_refresh_payload_def has_key_def)

lemma uuid_of_JNull [simp]: "uuid_of JNull = None"
  by (simp add: uuid_of_def)

lemma token_user_iff:
  "token_user decode header = Inr (payload, i) \<longleftrightarrow>
     permission_payload decode header = Inr payload \<and> payload_user payload = Inr i"
proof (cases "get_token_from_header header")
  case (Inl e)
  then show ?thesis by (simp add: token_user_def permission_payload_def)
next
  case (Inr token)
  then have token: "token \<noteq> []" by (rule header_token_nonempty)
  show ?thesis
  proof (cases "decode_token decode token")
    case (Inl e)
    with Inr token show ?thesis by (simp add: token_user_def permission_payload_def)
  next
    case (Inr d)
    show ?thesis
    proof (cases "is_refresh_payload d")
      case True
      with Inr \<open>get_token_from_header header = Inr token\<close> token show ?thesis
        by (simp add: token_user_def permission_payload_def guardR_Inr_iff)
    next
      case False
      then have "d \<noteq> []" using empty_payload_is_refresh by auto
      with False Inr \<open>get_token_from_header header = Inr token\<close> token show ?thesis
        by (auto simp: token_user_def permission_payload_def payload_user_iff guardR_Inr_iff split: option.splits)
    qed
  qed
qed

lemma active_user_Inr:
  "active_user users i e = Inr u \<longleftrightarrow> find_by us_id i users = Some u \<and> us_active u"
  by (auto simp: active_user_def guardR_Inr_iff split: option.splits)

lemma one_rule_base:
  "fst (require_permission decode p env header c) = Inr u \<longleftrightarrow>
     fst (get_current_user decode env header c) = Inr u \<and> has_permission u p"
proof (cases "permission_payload decode header")
  case (Inl e)
  then have "\<nexists>q. token_user decode header = Inr q" by (auto simp: token_user_iff)
  then obtain e' where "token_user decode header = Inl e'" by (cases "token_user decode header") auto
  with Inl show ?thesis by (simp add: require_permission_def get_current_user_def)
next
  case (Inr payload)
  show ?thesis
  proof (cases "token_user decode header")
    case (Inl e)
    then have "payload_user payload \<noteq> Inr i" for i using token_user_iff [of decode header payload i] Inr by auto
    then obtain e' where "payload_user payload = Inl e'" by (cases "payload_user payload") auto
    with Inl Inr show ?thesis
      by (auto simp: require_permission_def get_current_user_def split: prod.splits sum.splits)
  next
    case (Inr q)
    obtain payload' i where q: "q = (payload', i)" by (cases q)
    with Inr \<open>permission_payload decode header = Inr payload\<close> have "payload' = payload" "payload_user payload = Inr i"
      by (auto simp: token_user_iff)
    with Inr q \<open>permission_payload decode header = Inr payload\<close> show ?thesis
      by (auto simp: require_permission_def get_current_user_def bindR_Inr_iff guardR_Inr_iff active_user_Inr
        split: prod.splits sum.splits)
  qed
qed

text \<open>
  C29. The dependency of an endpoint that asks for a permission lets in exactly the users
  whom \<open>get_current_user\<close> lets in and who hold the permission: the two implementations agree on
  every header, token, session, user and cache.
\<close>

theorem one_rule_of_authentication:
  "fst (require_permission decode p env header c) = Inr u \<longleftrightarrow>
     fst (get_current_user decode env header c) = Inr u \<and> has_permission u p"
  by (rule one_rule_base)

section \<open>What a role grants\<close>

lemma collect_permissions_has:
  "q \<in> collect_permissions rs acc \<longleftrightarrow>
     (if list_ex (is_builtin [''ADMIN'']) rs then q = ''*''
      else q \<in> acc \<or> list_ex (\<lambda>r. q \<in> set (ro_permissions r)) rs)"
  by (induction rs acc rule: collect_permissions.induct) (auto split: if_splits)

lemma has_permission_iff:
  "has_permission u p \<longleftrightarrow>
     list_ex (\<lambda>r. is_builtin [''ADMIN''] r \<or>
        list_ex (\<lambda>q. q = ''*'' \<or> q = p \<or> q = resource_wildcard p) (ro_permissions r)) (us_roles u)"
  by (auto simp: has_permission_def Let_def get_user_permissions_def collect_permissions_has list_ex_iff split: if_splits)

definition rename_tenant_role :: "(string \<Rightarrow> string) \<Rightarrow> role \<Rightarrow> role" where
  "rename_tenant_role g r = (if ro_company r = None then r else r\<lparr>ro_name := g (ro_name r)\<rparr>)"

definition rename_tenant_roles :: "(string \<Rightarrow> string) \<Rightarrow> user \<Rightarrow> user" where
  "rename_tenant_roles g u = u\<lparr>us_roles := map (rename_tenant_role g) (us_roles u)\<rparr>"

lemma rename_tenant_role_simps [simp]:
  "is_builtin ns (rename_tenant_role g r) = is_builtin ns r"
  "ro_permissions (rename_tenant_role g r) = ro_permissions r"
  by (auto simp: rename_tenant_role_def is_builtin_def)

lemma list_ex_map_tenant [simp]: "list_ex P (map f xs) = list_ex (P \<circ> f) xs"
  by (simp add: list_ex_iff)

text \<open>
  A user holds a permission exactly when one of the roles is the built-in ADMIN or has
  the permission, the wildcard of its resource or the wildcard of all; and the name a tenant
  gives to a role of its own never counts: renaming such roles in any way, to ADMIN included,
  changes neither a permission nor what the admin and role dependencies let through.
\<close>

lemma tenant_role_names_grant_nothing:
  "(has_permission u p \<longleftrightarrow>
      list_ex (\<lambda>r. is_builtin [''ADMIN''] r \<or>
        list_ex (\<lambda>q. q = ''*'' \<or> q = p \<or> q = resource_wildcard p) (ro_permissions r)) (us_roles u)) \<and>
   has_permission (rename_tenant_roles g u) p = has_permission u p \<and>
   isl (get_admin_user (rename_tenant_roles g u)) = isl (get_admin_user u) \<and>
   isl (require_roles allowed (rename_tenant_roles g u)) = isl (require_roles allowed u) \<and>
   isl (get_super_admin (rename_tenant_roles g u)) = isl (get_super_admin u)"
  by (simp add: has_permission_iff get_admin_user_def require_roles_def get_super_admin_def rename_tenant_roles_def guardR_def comp_def)

section \<open>From a token to its user\<close>

lemma words_from_word: "list_all (\<lambda>c. \<not> is_header_space c) t \<Longrightarrow> words_from w (t @ s) = words_from (w @ t) s"
  by (induction t arbitrary: w) auto

lemma py_split_bearer:
  assumes "t \<noteq> []" and "list_all (\<lambda>c. \<not> is_header_space c) t"
  shows "get_token_from_header (Some (''Bearer '' @ t)) = Inr t"
proof -
  have "words_from [] (''Bearer '' @ t) = ''Bearer'' # words_from [] t"
    by (simp add: is_header_space_def is_space_def)
  also have "words_from [] t = [t]"
    using words_from_word [OF assms(2), of "[]" "[]"] assms(1) by simp
  finally have "py_split (''Bearer '' @ t) = [''Bearer'', t]" by (simp add: py_split_def)
  moreover have "str_lower ''Bearer'' = ''bearer''" by code_simp
  ultimately show ?thesis by (simp add: get_token_from_header_def)
qed

definition is_word :: "string \<Rightarrow> bool" where
  \<comment> \<open>a token in the compact form has no blanks\<close>
  "is_word t \<longleftrightarrow> t \<noteq> [] \<and> list_all (\<lambda>c. \<not> is_header_space c) t"

definition live_session :: "auth_env \<Rightarrow> cache \<Rightarrow> string option \<Rightarrow> bool" where
  "live_session env c sid =
     (case sid of None \<Rightarrow> True | Some s \<Rightarrow> \<not> fst (is_session_revoked (ae_tokens env) (ae_now env) (JStr s) c))"

lemma uuid_of_show [simp]: "uuid_of (JStr (show_nat i)) = Some i"
  by (auto simp: uuid_of_def list_all_iff show_nat_digits)

lemma dget_exp [simp]: "k \<noteq> ''exp'' \<Longrightarrow> dget k (dput ''exp'' v d) = dget k d"
  by (simp add: dget_dput)

lemma has_key_iff: "has_key k d \<longleftrightarrow> map_of d k \<noteq> None"
  by (auto simp: has_key_def list_ex_iff map_of_eq_None_iff)

lemma has_key_exp [simp]: "k \<noteq> ''exp'' \<Longrightarrow> has_key k (dput ''exp'' v d) = has_key k d"
  by (simp add: has_key_iff dput_def update_conv')

lemma access_data_simps [simp]:
  "dget ''id'' (access_data u sid) = JStr (show_nat (us_id u))"
  "dget ''sid'' (access_data u sid) = (case sid of None \<Rightarrow> JNull | Some s \<Rightarrow> JStr s)"
  "is_refresh_payload (dput ''exp'' v (access_data u sid)) = False"
  by (auto simp: access_data_def dget_def is_refresh_payload_def has_key_def dput_def TOKEN_TYPE_ACCESS_def TOKEN_TYPE_REFRESH_def
    split: option.splits)

lemma refresh_data_simps [simp]: "is_refresh_payload (dput ''exp'' v (refresh_data u cl j)) = True"
  by (simp add: refresh_data_def dget_def is_refresh_payload_def has_key_def dput_def TOKEN_TYPE_REFRESH_def)

text \<open>
  The access token made for an active user, with a live session or none, authenticates
  exactly that user; the refresh token made for a user authenticates nobody, with either dependency.
\<close>

lemma token_round_trip:
  fixes u :: user
  assumes access: "access = create_access_token encode access_expire now u minutes sid"
    and refresh: "refresh = create_refresh_token encode access_expire refresh_expire now u client_type jti fresh"
    and jwt: "decode access = Decoded (token_claims access_expire now (access_data u sid) (access_delta access_expire minutes))"
      "decode refresh = Decoded (token_claims access_expire now (refresh_data u client_type (jti_or_fresh jti fresh)) refresh_expire)"
    and word: "is_word access" "is_word refresh"
    and user: "find_by us_id (us_id u) (ae_users env) = Some u" "us_active u"
    and live: "live_session env c sid"
  shows "fst (get_current_user decode env (Some (''Bearer '' @ access)) c) = Inr u \<and>
    get_current_user decode env (Some (''Bearer '' @ refresh)) c = (Inl (HTTP 401 ''Invalid token type''), c) \<and>
    require_permission decode p env (Some (''Bearer '' @ refresh)) c = (Inl (HTTP 401 ''Invalid token type''), c)"
proof -
  let ?a = "token_claims access_expire now (access_data u sid) (access_delta access_expire minutes)"
  have ta: "get_token_from_header (Some (''Bearer '' @ access)) = Inr access"
    and tr: "get_token_from_header (Some (''Bearer '' @ refresh)) = Inr refresh"
    using word unfolding is_word_def by (blast intro: py_split_bearer)+
  have tu: "token_user decode (Some (''Bearer '' @ access)) = Inr (?a, us_id u)"
    unfolding token_user_def ta using jwt(1) by (simp add: decode_token_def token_claims_def)
  have cs: "fst (check_session (ae_tokens env) (ae_now env) ?a c) = Inr ()"
    using live by (auto simp: check_session_def live_session_def Let_def token_claims_def split: option.splits prod.splits)
  have "fst (get_current_user decode env (Some (''Bearer '' @ access)) c) = Inr u"
    unfolding get_current_user_def tu using cs user by (auto simp: active_user_Inr split: prod.splits sum.splits)
  moreover have "refresh \<noteq> []" using word by (simp add: is_word_def)
  moreover have "token_claims access_expire now (refresh_data u client_type j) refresh_expire \<noteq> []" for j
    by (simp add: token_claims_def refresh_data_def dput_def)
  moreover have "is_refresh_payload (token_claims access_expire now (refresh_data u client_type j) refresh_expire)" for j
    by (simp add: token_claims_def)
  ultimately show ?thesis
    using jwt(2) by (simp del: append.simps add: tr get_current_user_def require_permission_def token_user_def permission_payload_def
      decode_token_def)
qed

definition demo_user :: user where
  "demo_user = \<lparr>us_id = 1, us_company = Some 2, us_active = True, us_super = False, us_system = False,
     us_roles = [\<lparr>ro_name = ''ADMIN'', ro_company = Some 2, ro_permissions = [''clients.*'']\<rparr>]\<rparr>"

definition demo_env :: auth_env where
  "demo_env = \<lparr>ae_users = [demo_user], ae_tokens = [], ae_now = 0\<rparr>"

definition demo_encode :: "dict \<Rightarrow> string" where
  "demo_encode d = (if is_refresh_payload d then ''r.s'' else ''a.s'')"

definition demo_decode :: "string \<Rightarrow> jwt_result" where
  "demo_decode t =
     (if t = ''a.s'' then Decoded (token_claims 1440 0 (access_data demo_user (Some ''7'')) (access_delta 1440 (Some 60)))
      else if t = ''r.s'' then Decoded (token_claims 1440 0 (refresh_data demo_user ''mobile'' ''j'') 604800)
      else InvalidJwt)"

lemma token_round_trip_witness:
  "fst (get_current_user demo_decode demo_env (Some ''Bearer a.s'') []) = Inr demo_user \<and>
   get_current_user demo_decode demo_env (Some ''Bearer r.s'') [] = (Inl (HTTP 401 ''Invalid token type''), []) \<and>
   require_permission demo_decode ''clients.read'' demo_env (Some ''Bearer r.s'') [] = (Inl (HTTP 401 ''Invalid token type''), [])"
proof -
  have w: "is_word ''a.s''" "is_word ''r.s''" by (simp_all add: is_word_def is_header_space_def is_space_def)
  have a: "''a.s'' = create_access_token demo_encode 1440 0 demo_user (Some 60) (Some ''7'')"
    by (simp add: create_access_token_def create_token_def demo_encode_def token_claims_def)
  have r: "''r.s'' = create_refresh_token demo_encode 1440 604800 0 demo_user ''mobile'' (Some ''j'') ''f''"
    by (simp add: create_refresh_token_def create_token_def demo_encode_def token_claims_def)
  have "live_session demo_env [] (Some ''7'')"
    by (simp add: live_session_def demo_env_def is_session_revoked_def cache_hit_def uuid_of_def is_digit_def show_nat.simps
      read_nat_def digit_char_def family_revoked_def)
  moreover have "find_by us_id (us_id demo_user) (ae_users demo_env) = Some demo_user" "us_active demo_user"
    by (simp_all add: demo_env_def demo_user_def)
  moreover have "jti_or_fresh (Some ''j'') ''f'' = ''j''" by (simp add: jti_or_fresh_def)
  ultimately show ?thesis
    using token_round_trip [OF a r _ _ w, where decode = demo_decode and env = demo_env and c = "[]" and p = "''clients.read''"]
    by (simp add: demo_decode_def)
qed

section \<open>From a revocation to a refusal\<close>

definition env_of :: "(nat \<Rightarrow> nat) \<Rightarrow> (nat \<Rightarrow> int) \<Rightarrow> user list \<Rightarrow> nat \<Rightarrow> process_world \<Rightarrow> auth_env" where
  \<comment> \<open>what a request with session \<open>s\<close> sees\<close>
  "env_of home origin users s w =
     \<lparr>ae_users = users, ae_tokens = view s w, ae_now = w_clock w + origin (home s)\<rparr>"

lemma check_session_refuses:
  assumes "verdict_at home origin s (dget ''sid'' payload) w" and "names_family f (dget ''sid'' payload)"
    and c: "c = w_caches w (home s)"
  shows "fst (check_session (view s w) (w_clock w + origin (home s)) payload c) \<noteq> Inr ()"
proof -
  have "uuid_of (JStr ''None'') = None" by (simp add: uuid_of_def is_digit_def)
  then have "dget ''sid'' payload \<noteq> JNull" using assms(2) by (auto simp: names_family_def)
  with assms(1) c show ?thesis
    by (auto simp: check_session_def verdict_at_def Let_def split: prod.splits)
qed

lemma refused_session:
  assumes "fst (check_session (ae_tokens env) (ae_now env) payload c) \<noteq> Inr ()" and "decode_token decode token = Inr payload"
    and "get_token_from_header header = Inr token"
  shows "isl (fst (get_current_user decode env header c)) \<and> isl (fst (require_permission decode p env header c))"
proof -
  have cur: "isl (fst (get_current_user decode env header c))"
    using assms by (auto simp: get_current_user_def token_user_def bindR_def guardR_def
      split: prod.splits sum.splits option.splits if_splits)
  moreover have "isl (fst (require_permission decode p env header c))"
  proof (cases "fst (require_permission decode p env header c)")
    case (Inr u)
    then have "fst (get_current_user decode env header c) = Inr u" by (simp add: one_rule_base)
    with cur show ?thesis by simp
  qed simp
  ultimately show ?thesis by simp
qed

text \<open>
  C28. Once a revocation of a session is committed, then from 30 seconds later on every process
  refuses every request with a token of the session, with either dependency, whatever the requests of
  the processes did before and in between and however they interleave; and the cache of a process
  never has more than 10000 entries.
\<close>

theorem revocation_latency:
  assumes before: "acts home origin as fresh_world = Some w" and revoked: "family_revoked f (w_rows w)"
    and after: "acts home origin bs w = Some w'" and late: "w_clock w + SESSION_CACHE_SECONDS \<le> w_clock w'"
    and token: "get_token_from_header header = Inr token" "decode_token decode token = Inr payload"
    and sid: "uuid_of (JStr (py_str (dget ''sid'' payload))) = Some f"
  shows "isl (fst (get_current_user decode (env_of home origin users s w') header (w_caches w' (home s)))) \<and>
    isl (fst (require_permission decode p (env_of home origin users s w') header (w_caches w' (home s)))) \<and>
    length (w_caches w' q) \<le> CACHE_MAX"
proof -
  have stays: "family_settled home origin f (w_clock w) w'"
    using before revoked after by (blast intro: settled_acts settled_now timely_acts timely_fresh)
  have "names_family f (dget ''sid'' payload)" using sid by (simp add: names_family_def)
  then have "fst (check_session (view s w') (w_clock w' + origin (home s)) payload (w_caches w' (home s))) \<noteq> Inr ()"
    using stays late by (intro check_session_refuses [OF settled_rejects]) simp_all
  then have "isl (fst (get_current_user decode (env_of home origin users s w') header (w_caches w' (home s)))) \<and>
    isl (fst (require_permission decode p (env_of home origin users s w') header (w_caches w' (home s))))"
    using token by (intro refused_session [of _ payload]) (simp_all add: env_of_def)
  then show ?thesis using stays by (simp add: family_settled_def timely_def)
qed

text \<open>Another process has a live verdict, good for 30 seconds, when the user is deactivated.\<close>

definition demo_before :: "action list" where
  "demo_before = [Issue demo_token, Start 5 (JStr ''7''), Query 0, Store 0, Revoke 4 (Some 1) None, Commit 4]"

definition demo_home :: "nat \<Rightarrow> nat" where "demo_home s = (if s = 5 then 1 else 0)"

definition demo_origin :: "nat \<Rightarrow> int" where "demo_origin p = 1000 * int p"

definition demo_world :: process_world where
  "demo_world = \<lparr>w_clock = 0, w_rows = [demo_token\<lparr>rt_revoked_at := Some 0\<rparr>], w_writes = (\<lambda>_. []),
     w_caches = (\<lambda>_. [])(1 := [(JStr ''7'', (False, Some 30001000))]), w_flights = []\<rparr>"

lemma demo_runs: "acts demo_home demo_origin demo_before fresh_world = Some demo_world"
  by (simp add: demo_before_def fresh_world_def demo_world_def demo_home_def demo_origin_def demo_token_def cache_hit_def
    uuid_of_def is_digit_def show_nat.simps read_nat_def digit_char_def family_revoked_def view_def write_row_def cache_store_def
    CACHE_MAX_def SESSION_CACHE_SECONDS_def revoke_user_sessions_def is_selected_def writes_of_def List.map_filter_def
    drop_at_def clear_session_cache_def fun_eq_iff)

theorem revocation_latency_witness:
  "isl (fst (get_current_user demo_decode (env_of demo_home demo_origin [demo_user] 5 (demo_world\<lparr>w_clock := 30000000\<rparr>))
      (Some ''Bearer a.s'') (w_caches demo_world 1)))
   \<and> \<not> isl (fst (get_current_user demo_decode (env_of demo_home demo_origin [demo_user] 5 (demo_world\<lparr>w_clock := 29999999\<rparr>))
      (Some ''Bearer a.s'') (w_caches demo_world 1)))"
proof -
  let ?p = "token_claims 1440 0 (access_data demo_user (Some ''7'')) (access_delta 1440 (Some 60))"
  have fam: "family_revoked 7 (w_rows demo_world)" by (simp add: family_revoked_def demo_world_def demo_token_def)
  have wait: "acts demo_home demo_origin [Wait 30000000] demo_world = Some (demo_world\<lparr>w_clock := 30000000\<rparr>)"
    by (simp add: demo_world_def)
  have late: "w_clock demo_world + SESSION_CACHE_SECONDS \<le> w_clock (demo_world\<lparr>w_clock := 30000000\<rparr>)"
    by (simp add: demo_world_def SESSION_CACHE_SECONDS_def)
  have tok: "get_token_from_header (Some ''Bearer a.s'') = Inr ''a.s''" by code_simp
  have dec: "decode_token demo_decode ''a.s'' = Inr ?p" by (simp add: decode_token_def demo_decode_def)
  have u7: "uuid_of (JStr ''7'') = Some 7"
    by (simp add: uuid_of_def is_digit_def show_nat.simps read_nat_def digit_char_def)
  then have sid: "uuid_of (JStr (py_str (dget ''sid'' ?p))) = Some 7" by (simp add: token_claims_def)
  have home: "demo_home 5 = 1" by (simp add: demo_home_def)
  have tu: "token_user demo_decode (Some ''Bearer a.s'') = Inr (?p, 1)"
    unfolding token_user_def tok using dec by (simp add: token_claims_def demo_user_def)
  have live: "fst (check_session (view 5 (demo_world\<lparr>w_clock := 29999999\<rparr>)) 30000999 ?p (w_caches demo_world 1)) = Inr ()"
    by (simp add: check_session_def token_claims_def is_session_revoked_def cache_hit_def demo_world_def good_at_def)
  have "\<not> isl (fst (get_current_user demo_decode (env_of demo_home demo_origin [demo_user] 5 (demo_world\<lparr>w_clock := 29999999\<rparr>))
      (Some ''Bearer a.s'') (w_caches demo_world 1)))"
    unfolding get_current_user_def tu using live
    by (auto simp: env_of_def home demo_origin_def demo_world_def active_user_def demo_user_def split: prod.splits sum.splits)
  moreover have "w_caches (demo_world\<lparr>w_clock := 30000000\<rparr>) (demo_home 5) = w_caches demo_world 1" by (simp add: home)
  ultimately show ?thesis
    using revocation_latency [OF demo_runs fam wait late tok dec sid, of "[demo_user]" 5] by simp
qed

end
