(* ===== verification/Tier_Limits.thy ===== *)
theory Tier_Limits
  imports Complex_Main Access_Control
begin

text \<open>
  \<open>utils/tier_limits.py\<close>: the limits of a company's tier, checked before something is
  created, and the access a company that does not pay keeps. Rows have the columns read here.
  A limit is a number or null, the number a rational: the floats of the module are read as exact.
  Points in time are in microseconds.
\<close>

section \<open>Rows\<close>

type_synonym limits = "(string \<times> rat option) list"

record tier =
  tr_features :: limits
  tr_quote_above :: "int option"

record subscription =
  sb_id :: id
  sb_company :: id
  sb_tier :: "tier option"
  sb_status :: string
  sb_discount_percent :: int
  sb_discount_until :: "int option"
  sb_custom_price :: "rat option"
  sb_overrides :: limits

record client_row =
  cl_id :: id
  cl_company :: id
  cl_deactivated :: bool

record service_row =
  sv_client :: id
  sv_company :: id
  sv_status :: client_service_status

record billing_invoice =
  bi_subscription :: id
  bi_status :: string
  bi_due :: int

record tier_db =
  td_subscriptions :: "subscription list"
  td_clients :: "client_row list"
  td_services :: "service_row list"
  td_users :: "user list"
  td_invoices :: "billing_invoice list"

section \<open>Limits\<close>

definition RESOURCE_LIMIT_KEYS :: "(string \<times> string) list" where
  "RESOURCE_LIMIT_KEYS = [(''clients'', ''max_clients''), (''users'', ''max_users'')]"

definition CLIENT_CAP_MIN :: string where "CLIENT_CAP_MIN = ''client_cap_min''"
definition CLIENT_CAP_RATIO :: string where "CLIENT_CAP_RATIO = ''client_cap_ratio''"
definition READ_ONLY_AFTER_DAYS :: int where "READ_ONLY_AFTER_DAYS = 15"
definition LOCKED_AFTER_DAYS :: int where "LOCKED_AFTER_DAYS = 30"

definition subscription_of :: "tier_db \<Rightarrow> id \<Rightarrow> subscription option" where
  "subscription_of db company = find_by sb_company company (td_subscriptions db)"

definition effective_limit :: "subscription option \<Rightarrow> string \<Rightarrow> rat option" where
  "effective_limit sub key =
     (case sub of
        None \<Rightarrow> None
      | Some s \<Rightarrow>
          let features = (case sb_tier s of None \<Rightarrow> [] | Some t \<Rightarrow> tr_features t);
              v = (case map_of (sb_overrides s) key of
                     Some v \<Rightarrow> v
                   | None \<Rightarrow> (case map_of features key of None \<Rightarrow> None | Some v \<Rightarrow> v))
          in if v = Some (-1) then None else v)"

definition billable_clients :: "tier_db \<Rightarrow> id \<Rightarrow> int" where
  "billable_clients db company =
     int (length (remdups (concat (map (\<lambda>s.
       map cl_id (filter (\<lambda>c. cl_id c = sv_client s \<and> \<not> cl_deactivated c) (td_clients db)))
         (filter (\<lambda>s. sv_company s = company \<and> sv_status s \<noteq> SVC_CANCELLED) (td_services db))))))"

definition round_half_even :: "rat \<Rightarrow> int" where
  "round_half_even x =
     (let f = \<lfloor>x\<rfloor>; r = x - of_int f
      in if r < 1 / 2 then f else if r > 1 / 2 then f + 1 else if even f then f else f + 1)"

definition round6 :: "rat \<Rightarrow> rat" where
  \<comment> \<open>\<open>round(x, 6)\<close>\<close>
  "round6 x = of_int (round_half_even (x * 1000000)) / 1000000"

definition truncated :: "rat \<Rightarrow> int" where
  \<comment> \<open>\<open>int(x)\<close>\<close>
  "truncated x = (if x < 0 then \<lceil>x\<rceil> else \<lfloor>x\<rfloor>)"

definition or_zero :: "rat option \<Rightarrow> rat" where
  "or_zero v = (case v of None \<Rightarrow> 0 | Some x \<Rightarrow> x)"

definition client_cap :: "subscription option \<Rightarrow> int \<Rightarrow> int option" where
  "client_cap sub billable =
     (let cap_min = effective_limit sub CLIENT_CAP_MIN; ratio = effective_limit sub CLIENT_CAP_RATIO
      in if cap_min = None \<and> ratio = None then None
         else Some (max (truncated (or_zero cap_min)) \<lceil>round6 (or_zero ratio * of_int billable)\<rceil>))"

definition quote_required :: "subscription option \<Rightarrow> int \<Rightarrow> bool" where
  "quote_required sub billable =
     (case sub of
        None \<Rightarrow> False
      | Some s \<Rightarrow>
          (case sb_tier s of
             None \<Rightarrow> False
           | Some t \<Rightarrow>
               (case tr_quote_above t of None \<Rightarrow> False | Some l \<Rightarrow> l \<le> billable \<and> sb_custom_price s = None)))"

definition count_resource :: "tier_db \<Rightarrow> id \<Rightarrow> string \<Rightarrow> int" where
  "count_resource db company resource =
     (if resource = ''clients''
        then int (length (filter (\<lambda>c. cl_company c = company \<and> \<not> cl_deactivated c) (td_clients db)))
      else if resource = ''users''
        then int (length (filter (\<lambda>u. us_company u = Some company \<and> us_active u \<and> \<not> us_system u) (td_users db)))
      else 0)"

datatype limit_error = QUOTE_REQUIRED int | CLIENT_CAP_REACHED int int | PLAN_LIMIT rat string

definition plan_limit :: "tier_db \<Rightarrow> id \<Rightarrow> subscription \<Rightarrow> string \<Rightarrow> limit_error + unit" where
  "plan_limit db company s resource =
     (case map_of RESOURCE_LIMIT_KEYS resource of
        None \<Rightarrow> Inr ()
      | Some key \<Rightarrow>
          (case effective_limit (Some s) key of
             None \<Rightarrow> Inr ()
           | Some l \<Rightarrow> guardR (l \<le> of_int (count_resource db company resource)) (PLAN_LIMIT l resource) (Inr ())))"

definition check_tier_limit :: "tier_db \<Rightarrow> id \<Rightarrow> string \<Rightarrow> limit_error + unit" where
  "check_tier_limit db company resource =
     (case subscription_of db company of
        None \<Rightarrow> Inr ()
      | Some s \<Rightarrow>
          if sb_tier s = None then Inr ()
          else if resource = ''clients'' \<or> resource = ''services''
          then (let billable = billable_clients db company
                in guardR (quote_required (Some s) billable) (QUOTE_REQUIRED billable) (
                   if resource = ''services'' then Inr ()
                   else (case client_cap (Some s) billable of
                           None \<Rightarrow> plan_limit db company s resource
                         | Some cap \<Rightarrow>
                             guardR (cap \<le> count_resource db company ''clients'') (CLIENT_CAP_REACHED cap billable)
                               (plan_limit db company s resource))))
          else plan_limit db company s resource)"

section \<open>Access of a company that does not pay\<close>

datatype access = FULL | READ_ONLY | LOCKED

definition day :: int where "day = 86400 * 1000000"

definition pending_dues :: "tier_db \<Rightarrow> id \<Rightarrow> int list" where
  "pending_dues db sub =
     map bi_due (filter (\<lambda>i. bi_subscription i = sub \<and> bi_status i = ''PENDING'') (td_invoices db))"

definition complimentary :: "subscription \<Rightarrow> int \<Rightarrow> bool" where
  "complimentary s now \<longleftrightarrow>
     sb_discount_percent s = 100 \<and> (case sb_discount_until s of None \<Rightarrow> True | Some t \<Rightarrow> now < t)"

definition oldest :: "int list \<Rightarrow> int option" where
  \<comment> \<open>\<open>ORDER BY due_date LIMIT 1\<close>\<close>
  "oldest ds = (case ds of [] \<Rightarrow> None | d # ds' \<Rightarrow> Some (fold min ds' d))"

definition billing_access :: "tier_db \<Rightarrow> id \<Rightarrow> int \<Rightarrow> access" where
  "billing_access db company now =
     (case subscription_of db company of
        None \<Rightarrow> FULL
      | Some s \<Rightarrow>
          if sb_status s = ''CANCELED'' then LOCKED
          else if complimentary s now then FULL
          else if sb_status s = ''INCOMPLETE'' then LOCKED
          else (case oldest (pending_dues db (sb_id s)) of
                  None \<Rightarrow> FULL
                | Some due \<Rightarrow>
                    if LOCKED_AFTER_DAYS * day \<le> now - due then LOCKED
                    else if READ_ONLY_AFTER_DAYS * day \<le> now - due then READ_ONLY
                    else FULL))"

section \<open>What the checks guarantee\<close>

lemma passed_limit:
  assumes "check_tier_limit db company resource = Inr ()" and "subscription_of db company = Some s" and "sb_tier s \<noteq> None"
    and "map_of RESOURCE_LIMIT_KEYS resource = Some key" and "effective_limit (Some s) key = Some l"
  shows "of_int (count_resource db company resource) < l"
proof -
  have "resource \<noteq> ''services''" using assms(4) by (auto simp: RESOURCE_LIMIT_KEYS_def)
  then have "plan_limit db company s resource = Inr ()"
    using assms by (auto simp: check_tier_limit_def Let_def guardR_Inr_iff split: if_splits option.splits)
  then show ?thesis using assms by (auto simp: plan_limit_def guardR_Inr_iff)
qed

lemma passed_cap:
  assumes "check_tier_limit db company ''clients'' = Inr ()" and "subscription_of db company = Some s" and "sb_tier s \<noteq> None"
    and "client_cap (Some s) (billable_clients db company) = Some cap"
  shows "count_resource db company ''clients'' < cap"
  using assms by (auto simp: check_tier_limit_def Let_def guardR_Inr_iff)

definition with_user :: "user \<Rightarrow> tier_db \<Rightarrow> tier_db" where
  "with_user u db = db\<lparr>td_users := td_users db @ [u]\<rparr>"

lemma seats_after_user:
  assumes "check_tier_limit db company ''users'' = Inr ()" and "subscription_of db company = Some s" and "sb_tier s \<noteq> None"
    and "effective_limit (Some s) ''max_users'' = Some l"
  shows "count_resource (with_user u db) company ''users'' \<le> \<lceil>l\<rceil>"
proof -
  have "of_int (count_resource db company ''users'') < l"
    using passed_limit [OF assms(1-3), of "''max_users''"] assms(4) by (simp add: RESOURCE_LIMIT_KEYS_def)
  then have "count_resource db company ''users'' + 1 \<le> \<lceil>l\<rceil>" by linarith
  moreover have "count_resource (with_user u db) company ''users'' \<le> count_resource db company ''users'' + 1"
    by (simp add: count_resource_def with_user_def)
  ultimately show ?thesis by linarith
qed

subsection \<open>Access only gets worse with time and debts\<close>

fun severity :: "access \<Rightarrow> nat" where
  "severity FULL = 0"
| "severity READ_ONLY = 1"
| "severity LOCKED = 2"

lemma fold_min: "fold min ds (d :: int) = Min (set (d # ds))"
  by (simp only: Min.set_eq_fold)

lemma oldest_Min: "oldest ds = (if ds = [] then None else Some (Min (set ds)))"
  by (auto simp: oldest_def fold_min split: list.splits)

definition owes_more :: "tier_db \<Rightarrow> tier_db \<Rightarrow> bool" where
  \<comment> \<open>the same subscriptions and every pending invoice of the first\<close>
  "owes_more db db' \<longleftrightarrow>
     td_subscriptions db' = td_subscriptions db \<and>
     list_all (\<lambda>i. bi_status i = ''PENDING'' \<longrightarrow> i \<in> set (td_invoices db')) (td_invoices db)"

lemma owes_more_oldest:
  assumes "owes_more db db'" and "oldest (pending_dues db s) = Some d"
  shows "\<exists>d'. oldest (pending_dues db' s) = Some d' \<and> d' \<le> d"
proof -
  have sub: "set (pending_dues db s) \<subseteq> set (pending_dues db' s)"
    using assms(1) by (auto simp: owes_more_def pending_dues_def list_all_iff)
  have "pending_dues db s \<noteq> []" and d: "d = Min (set (pending_dues db s))"
    using assms(2) by (auto simp: oldest_Min split: if_splits)
  with sub show ?thesis by (auto simp: oldest_Min intro: Min_antimono)
qed

text \<open>
  C34. The access of a company never gets better by waiting or by owing more: over the same
  subscriptions, at a later time and with at least the same unpaid invoices, it is the same or worse,
  in the order full, read only, locked.
\<close>

theorem billing_access_only_worsens:
  assumes "owes_more db db'" and "now \<le> now'"
  shows "severity (billing_access db company now) \<le> severity (billing_access db' company now')"
proof -
  have same: "subscription_of db' company = subscription_of db company"
    using assms(1) by (simp add: subscription_of_def owes_more_def)
  show ?thesis
  proof (cases "subscription_of db company")
    case (Some s)
    have comp: "complimentary s now' \<Longrightarrow> complimentary s now"
      using assms(2) by (auto simp: complimentary_def split: option.splits)
    show ?thesis
    proof (cases "oldest (pending_dues db (sb_id s))")
      case None
      with Some same comp show ?thesis by (auto simp: billing_access_def split: option.splits)
    next
      case (Some d)
      then obtain d' where "oldest (pending_dues db' (sb_id s)) = Some d'" "d' \<le> d"
        using owes_more_oldest [OF assms(1)] by blast
      moreover have "now - d \<le> now' - d'" using \<open>d' \<le> d\<close> assms(2) by linarith
      ultimately show ?thesis
        using Some \<open>subscription_of db company = Some s\<close> same comp
        by (auto simp: billing_access_def READ_ONLY_AFTER_DAYS_def LOCKED_AFTER_DAYS_def)
    qed
  qed (simp add: billing_access_def)
qed

definition demo_subscription :: subscription where
  "demo_subscription = \<lparr>sb_id = 1, sb_company = 2, sb_tier = None, sb_status = ''ACTIVE'', sb_discount_percent = 0,
     sb_discount_until = None, sb_custom_price = None, sb_overrides = []\<rparr>"

definition demo_tier_db :: tier_db where
  "demo_tier_db = \<lparr>td_subscriptions = [demo_subscription], td_clients = [], td_services = [], td_users = [],
     td_invoices = [\<lparr>bi_subscription = 1, bi_status = ''PENDING'', bi_due = 0\<rparr>]\<rparr>"

theorem billing_access_only_worsens_witness:
  "severity (billing_access demo_tier_db 2 (15 * day)) \<le> severity (billing_access demo_tier_db 2 (30 * day))
   \<and> billing_access demo_tier_db 2 (15 * day) = READ_ONLY \<and> billing_access demo_tier_db 2 (30 * day) = LOCKED"
proof -
  have "owes_more demo_tier_db demo_tier_db" by (simp add: owes_more_def demo_tier_db_def)
  then have "severity (billing_access demo_tier_db 2 (15 * day)) \<le> severity (billing_access demo_tier_db 2 (30 * day))"
    by (rule billing_access_only_worsens) (simp add: day_def)
  then show ?thesis
    by (simp add: billing_access_def subscription_of_def demo_tier_db_def demo_subscription_def complimentary_def pending_dues_def
      oldest_def READ_ONLY_AFTER_DAYS_def LOCKED_AFTER_DAYS_def day_def)
qed

end
