(* ===== verification/Playbook_Schema.thy ===== *)
theory Playbook_Schema
  imports Complex_Main Playbook_Template Playbook_Definition
begin

text \<open>
  The save-time checks of \<open>schemas/playbook.py\<close>: the pydantic models of a definition as records, their
  validators, and what \<open>model_dump\<close> stores. A model's field has its declared type; a field of which
  a validator asks whether it was given at all (\<open>model_fields_set\<close>) has a flag for it. A validator is
  a function to an error or to the model, changed where the validator changes it; of several
  errors pydantic collects, the first. \<open>groups\<close>, an argument, is \<open>re.compile\<close>: the number of groups of a
  pattern, \<open>None\<close> when it does not compile.
\<close>

section \<open>Limits\<close>

definition PLAYBOOK_DRIVERS :: "string list" where
  "PLAYBOOK_DRIVERS = [''simulator'', ''http'', ''ssh'', ''telnet'', ''snmp'', ''tr069'', ''ping'', ''manual'',
     ''connection_request'']"

definition VAR_TYPES :: "string list" where "VAR_TYPES = [''TEXT'', ''NUMBER'', ''BOOLEAN'']"
definition MANUAL_TIMEOUT_DEFAULT :: int where "MANUAL_TIMEOUT_DEFAULT = 1800"
definition MANUAL_TIMEOUT_MIN :: int where "MANUAL_TIMEOUT_MIN = 300"
definition MANUAL_TIMEOUT_MAX :: int where "MANUAL_TIMEOUT_MAX = 3600"
definition MANUAL_MAX_INSTRUCTIONS :: nat where "MANUAL_MAX_INSTRUCTIONS = 2000"
definition MANUAL_MAX_FIELDS :: nat where "MANUAL_MAX_FIELDS = 12"
definition MANUAL_MAX_CHECKLIST :: nat where "MANUAL_MAX_CHECKLIST = 8"
definition MANUAL_MAX_VALUE :: nat where "MANUAL_MAX_VALUE = 512"
definition MANUAL_MAX_CHECK_LABEL :: nat where "MANUAL_MAX_CHECK_LABEL = 120"
definition MAX_REGEX_LENGTH :: nat where "MAX_REGEX_LENGTH = 256"
definition MAX_CAPTURES_PER_STEP :: nat where "MAX_CAPTURES_PER_STEP = 8"
definition MAX_CAPTURES_PER_PLAYBOOK :: nat where "MAX_CAPTURES_PER_PLAYBOOK = 32"
definition MAX_OUTPUTS :: nat where "MAX_OUTPUTS = 16"
definition MAX_LABEL :: nat where "MAX_LABEL = 80"
definition MAX_HINT :: nat where "MAX_HINT = 200"
definition WAIT_MAX_SECONDS :: int where "WAIT_MAX_SECONDS = 600"
definition MAX_ENTRIES :: nat where "MAX_ENTRIES = 16"
definition OUTPUT_AUDIENCES :: "string list" where "OUTPUT_AUDIENCES = [''technician'', ''office'', ''customer'']"

section \<open>The models\<close>

text \<open>A number that is not an integer is its text and its value.\<close>

datatype threshold = Whole int | Real string rat | Text string

record step_check =
  vl_contains :: "string option"
  vl_not_contains :: "string option"
  vl_regex :: "string option"
  vl_not_regex :: "string option"
  vl_status :: "int option"

record capture =
  cp_key :: string
  cp_regex :: string
  cp_type :: string
  cp_label :: "string option"
  cp_unit :: "string option"
  cp_min :: "threshold option"
  cp_max :: "threshold option"
  cp_equals :: "string option"
  cp_all :: bool

record wait_until =
  wu_tries :: int
  wu_interval :: int

record step_guard =
  gd_template :: "string option"
  gd_request :: "dict option"
  gd_validation :: step_check
  gd_when_met :: string
  gd_target :: "string option"

record manual_field =
  mf_key :: string
  mf_label :: string
  mf_value :: string
  mf_copyable :: bool
  mf_secret :: bool
  mf_secret_given :: bool

record manual_check =
  mk_key :: string
  mk_label :: string

record manual_spec =
  ms_instructions :: string
  ms_fields :: "manual_field list"
  ms_checklist :: "manual_check list"

record authored_step =
  sp_name :: string
  sp_driver :: string
  sp_template :: "string option"
  sp_request :: "dict option"
  sp_validation :: "step_check option"
  sp_timeout :: int
  sp_timeout_given :: bool
  sp_target :: "string option"
  sp_guard :: "step_guard option"
  sp_label :: "string option"
  sp_hint :: "string option"
  sp_idempotent :: bool
  sp_config_mode :: bool
  sp_capture :: "capture list"
  sp_wait :: "wait_until option"
  sp_undoes :: "string option"
  sp_manual :: "manual_spec option"

record session_enable =
  en_command :: string
  en_password :: string
  en_enabled :: string

record cli_session =
  ss_enable :: "session_enable option"
  ss_config :: "string option"
  ss_exit :: string
  ss_errors :: "string list option"
  ss_busy :: "string list"

record secret_decl =
  sc_key :: string
  sc_length :: int
  sc_visible :: bool

record output_decl =
  od_key :: string
  od_label :: string
  od_value :: string
  od_unit :: "string option"
  od_audience :: "string list"
  od_shareable :: bool
  od_sensitive :: bool
  od_sensitive_given :: bool

record computed_var =
  cv_name :: string
  cv_expr :: string
  cv_min :: "int option"
  cv_max :: "int option"

record variable_decl =
  vd_key :: string
  vd_label :: "string option"
  vd_type :: string
  vd_required :: bool
  vd_default :: json

record authored =
  df_variables :: "variable_decl list"
  df_computed :: "computed_var list"
  df_session :: "cli_session option"
  df_secrets :: "secret_decl list"
  df_preconditions :: "authored_step list"
  df_configuration :: "authored_step list"
  df_verification :: "authored_step list"
  df_rollback :: "authored_step list"
  df_outputs :: "output_decl list"

section \<open>What \<open>model_dump\<close> gives\<close>

definition opt_str :: "string option \<Rightarrow> json" where
  "opt_str v = (case v of None \<Rightarrow> JNull | Some s \<Rightarrow> JStr s)"

definition opt_int :: "int option \<Rightarrow> json" where
  "opt_int v = (case v of None \<Rightarrow> JNull | Some i \<Rightarrow> JInt i)"

definition opt_with :: "('a \<Rightarrow> json) \<Rightarrow> 'a option \<Rightarrow> json" where
  "opt_with f v = (case v of None \<Rightarrow> JNull | Some x \<Rightarrow> f x)"

fun dump_threshold :: "threshold \<Rightarrow> json" where
  "dump_threshold (Whole i) = JInt i"
| "dump_threshold (Real s q) = JFloat s"
| "dump_threshold (Text s) = JStr s"

definition dump_validation :: "step_check \<Rightarrow> json" where
  "dump_validation v = JDict
     [(''expect_contains'', opt_str (vl_contains v)), (''expect_not_contains'', opt_str (vl_not_contains v)),
      (''expect_regex'', opt_str (vl_regex v)), (''expect_not_regex'', opt_str (vl_not_regex v)),
      (''expect_status'', opt_int (vl_status v))]"

definition capture_body :: "capture \<Rightarrow> dict" where
  \<comment> \<open>\<open>c.model_dump(exclude={"key"})\<close>\<close>
  "capture_body c =
     [(''regex'', JStr (cp_regex c)), (''type'', JStr (cp_type c)), (''label'', opt_str (cp_label c)),
      (''unit'', opt_str (cp_unit c)), (''min'', opt_with dump_threshold (cp_min c)),
      (''max'', opt_with dump_threshold (cp_max c)), (''equals'', opt_str (cp_equals c)), (''all'', JBool (cp_all c))]"

definition dump_capture :: "capture \<Rightarrow> json" where
  "dump_capture c = JDict ((''key'', JStr (cp_key c)) # capture_body c)"

definition dump_wait :: "wait_until \<Rightarrow> json" where
  "dump_wait w = JDict [(''tries'', JInt (wu_tries w)), (''interval_seconds'', JInt (wu_interval w))]"

definition dump_guard :: "step_guard \<Rightarrow> json" where
  "dump_guard g = JDict
     [(''template'', opt_str (gd_template g)), (''request'', opt_with JDict (gd_request g)),
      (''validation'', dump_validation (gd_validation g)), (''when_met'', JStr (gd_when_met g)),
      (''target_item_id'', opt_str (gd_target g))]"

definition dump_field :: "manual_field \<Rightarrow> json" where
  "dump_field f = JDict
     [(''key'', JStr (mf_key f)), (''label'', JStr (mf_label f)), (''value'', JStr (mf_value f)),
      (''copyable'', JBool (mf_copyable f)), (''secret'', JBool (mf_secret f))]"

definition dump_check :: "manual_check \<Rightarrow> json" where
  "dump_check k = JDict [(''key'', JStr (mk_key k)), (''label'', JStr (mk_label k))]"

definition dump_manual :: "manual_spec \<Rightarrow> json" where
  "dump_manual m = JDict
     [(''instructions'', JStr (ms_instructions m)), (''fields'', JList (map dump_field (ms_fields m))),
      (''checklist'', JList (map dump_check (ms_checklist m)))]"

definition step_dict :: "json \<Rightarrow> authored_step \<Rightarrow> dict" where
  \<comment> \<open>the dump of a step, with what is given for its captures\<close>
  "step_dict captures s =
     [(''name'', JStr (sp_name s)), (''driver'', JStr (sp_driver s)), (''template'', opt_str (sp_template s)),
      (''request'', opt_with JDict (sp_request s)), (''validation'', opt_with dump_validation (sp_validation s)),
      (''timeout_seconds'', JInt (sp_timeout s)), (''target_item_id'', opt_str (sp_target s)),
      (''precondition'', opt_with dump_guard (sp_guard s)), (''label'', opt_str (sp_label s)),
      (''hint'', opt_str (sp_hint s)), (''idempotent'', JBool (sp_idempotent s)),
      (''config_mode'', JBool (sp_config_mode s)), (''capture'', captures),
      (''wait_until'', opt_with dump_wait (sp_wait s)), (''undoes'', opt_str (sp_undoes s)),
      (''manual'', opt_with dump_manual (sp_manual s))]"

definition dump_step :: "authored_step \<Rightarrow> json" where
  "dump_step s = JDict (step_dict (JList (map dump_capture (sp_capture s))) s)"

definition dump_output :: "output_decl \<Rightarrow> json" where
  "dump_output d = JDict
     [(''key'', JStr (od_key d)), (''label'', JStr (od_label d)), (''value'', JStr (od_value d)), (''unit'', opt_str (od_unit d)),
      (''audience'', JList (map JStr (od_audience d))), (''shareable'', JBool (od_shareable d)),
      (''sensitive'', JBool (od_sensitive d))]"

definition dump_computed :: "computed_var \<Rightarrow> json" where
  "dump_computed c = JDict
     [(''key'', JStr (cv_name c)), (''expr'', JStr (cv_expr c)), (''min'', opt_int (cv_min c)), (''max'', opt_int (cv_max c))]"

definition dump_variable :: "variable_decl \<Rightarrow> json" where
  "dump_variable v = JDict
     [(''key'', JStr (vd_key v)), (''label'', opt_str (vd_label v)), (''type'', JStr (vd_type v)),
      (''required'', JBool (vd_required v)), (''default'', vd_default v)]"

definition dump_secret :: "secret_decl \<Rightarrow> json" where
  "dump_secret c = JDict
     [(''key'', JStr (sc_key c)), (''length'', JInt (sc_length c)), (''visible'', JBool (sc_visible c))]"

definition dump_enable :: "session_enable \<Rightarrow> json" where
  "dump_enable e = JDict
     [(''command'', JStr (en_command e)), (''password_prompt'', JStr (en_password e)), (''enabled_prompt'', JStr (en_enabled e))]"

definition dump_session :: "cli_session \<Rightarrow> json" where
  "dump_session s = JDict
     [(''enable'', opt_with dump_enable (ss_enable s)), (''config_command'', opt_str (ss_config s)),
      (''exit_command'', JStr (ss_exit s)), (''error_patterns'', opt_with (\<lambda>ps. JList (map JStr ps)) (ss_errors s)),
      (''busy_patterns'', JList (map JStr (ss_busy s)))]"

fun steps_in :: "phase \<Rightarrow> authored \<Rightarrow> authored_step list" where
  "steps_in PRECONDITIONS d = df_preconditions d"
| "steps_in CONFIGURATION d = df_configuration d"
| "steps_in VERIFICATION d = df_verification d"
| "steps_in ROLLBACK d = df_rollback d"

definition dump_definition :: "authored \<Rightarrow> json" where
  \<comment> \<open>what is stored: \<open>steps\<close> is excluded\<close>
  "dump_definition d = JDict
     [(''variables'', JList (map dump_variable (df_variables d))), (''computed'', JList (map dump_computed (df_computed d))),
      (''session'', opt_with dump_session (df_session d)), (''secrets'', JList (map dump_secret (df_secrets d))),
      (''preconditions'', JList (map dump_step (df_preconditions d))),
      (''configuration'', JList (map dump_step (df_configuration d))),
      (''verification'', JList (map dump_step (df_verification d))), (''rollback'', JList (map dump_step (df_rollback d))),
      (''outputs'', JList (map dump_output (df_outputs d)))]"

section \<open>Errors\<close>

datatype schema_code =
    CAPTURE_UNDECLARED | CAPTURE_SECRET_NAME | CAPTURE_ALL_IN_STEP | REGEX_UNSUPPORTED | UNDOES_UNKNOWN_STEP
  | SECRET_UNDECLARED | OUTPUT_SECRET_MIXED | OUTPUT_SHARE_AUDIENCE | OUTPUT_CUSTOMER_SENSITIVE
  | PHASE_FIELD_NOT_ALLOWED | CONFIG_COMMAND_REQUIRED | MANUAL_PHASE_NOT_ALLOWED | MANUAL_SPEC_REQUIRED
  | MANUAL_FIELD_NOT_ALLOWED | MANUAL_SECRET_IN_TEXT | MANUAL_SECRET_MIXED

text \<open>An error with a code, one of the \<open>computed\<close> block, or one with a text only; each names what is wrong.\<close>

datatype schema_error = Coded schema_code string | Computed ecode string | Invalid string

type_synonym 'a checked = "schema_error + 'a"

fun check_all :: "('a \<Rightarrow> 'b checked) \<Rightarrow> 'a list \<Rightarrow> 'b list checked" where
  "check_all f [] = Inr []"
| "check_all f (x # xs) = bindR (f x) (\<lambda>y. bindR (check_all f xs) (\<lambda>ys. Inr (y # ys)))"

definition check_opt :: "('a \<Rightarrow> 'b checked) \<Rightarrow> 'a option \<Rightarrow> 'b option checked" where
  "check_opt f v = (case v of None \<Rightarrow> Inr None | Some x \<Rightarrow> bindR (f x) (\<lambda>y. Inr (Some y)))"

section \<open>Keys, texts and patterns\<close>

definition key_pattern :: "string \<Rightarrow> bool" where
  \<comment> \<open>\<open>KEY_PATTERN.fullmatch\<close>\<close>
  "key_pattern k \<longleftrightarrow> is_segment k \<and> length k \<le> 32"

definition escapes_kept :: string where "escapes_kept = ''123456789g''"

fun neutralise :: "string \<Rightarrow> string" where
  \<comment> \<open>\<open>_ESCAPE.sub\<close>: an escape is kept only when it may be a backreference\<close>
  "neutralise (c # e # cs) =
     (if c = CHR 0x5C then (if e \<in> set escapes_kept then [c, e] else ''x'') @ neutralise cs
      else c # neutralise (e # cs))"
| "neutralise cs = cs"

definition starts_any :: "string list \<Rightarrow> string \<Rightarrow> bool" where
  "starts_any ps s \<longleftrightarrow> list_ex (\<lambda>p. prefix p s) ps"

definition lookaround_at :: "string \<Rightarrow> bool" where
  "lookaround_at s = starts_any [''(?='', ''(?!'', ''(?<='', ''(?<!''] s"

definition backreference_at :: "string \<Rightarrow> bool" where
  "backreference_at s \<longleftrightarrow>
     (case s of c # d # _ \<Rightarrow> c = CHR 0x5C \<and> d \<in> set ''123456789'' | _ \<Rightarrow> False) \<or>
     prefix (CHR 0x5C # ''g<'') s \<or> prefix ''(?P='' s"

definition group_name_start :: "string \<Rightarrow> bool" where
  "group_name_start s = (case s of c # _ \<Rightarrow> is_lower c \<or> is_upper c \<or> c = CHR ''_'' | [] \<Rightarrow> False)"

definition named_group_at :: "string \<Rightarrow> bool" where
  "named_group_at s \<longleftrightarrow> prefix ''(?<'' s \<and> group_name_start (drop 3 s) \<or> prefix ''(?P<'' s \<and> group_name_start (drop 4 s)"

definition pattern_body :: "string \<Rightarrow> string" where
  \<comment> \<open>the tokens, which render escaped, as one literal character\<close>
  "pattern_body pattern = token_sub (\<lambda>_. ''x'') pattern"

definition check_regex :: "(string \<Rightarrow> nat option) \<Rightarrow> string \<Rightarrow> string \<Rightarrow> nat checked" where
  "check_regex groups pattern whr =
     guardR (MAX_REGEX_LENGTH < length pattern) (Coded REGEX_UNSUPPORTED whr) (
     let body = pattern_body pattern; scan = neutralise body
     in guardR (re_search lookaround_at scan \<or> re_search backreference_at scan \<or> re_search named_group_at scan)
          (Coded REGEX_UNSUPPORTED whr) (
        case groups body of None \<Rightarrow> Inl (Coded REGEX_UNSUPPORTED whr) | Some n \<Rightarrow> Inr n))"

definition static_text :: "string option \<Rightarrow> nat \<Rightarrow> string \<Rightarrow> unit checked" where
  "static_text v limit what =
     (case v of
        None \<Rightarrow> Inr ()
      | Some s \<Rightarrow>
          guardR (limit < length s) (Invalid what) (
          guardR (contains ''{{'' s \<or> contains ''}}'' s) (Invalid what) (Inr ())))"

definition one_token :: "string \<Rightarrow> bool" where
  \<comment> \<open>\<open>_ONE_TOKEN\<close>\<close>
  "one_token s = (case token_at s of Some (b, r) \<Rightarrow> b \<noteq> [] \<and> r = [] | None \<Rightarrow> False)"

definition is_decimal :: "string \<Rightarrow> bool" where
  \<comment> \<open>\<open>-?\d+(?:\.\d+)?\<close>, the whole text\<close>
  "is_decimal s =
     (let u = (case s of c # cs \<Rightarrow> if c = CHR ''-'' then cs else s | [] \<Rightarrow> []); r = dropWhile is_digit u
      in takeWhile is_digit u \<noteq> [] \<and>
         (case r of [] \<Rightarrow> True | c # ds \<Rightarrow> c = CHR ''.'' \<and> ds \<noteq> [] \<and> list_all is_digit ds))"

definition check_threshold :: "threshold option \<Rightarrow> string \<Rightarrow> bool \<Rightarrow> unit checked" where
  "check_threshold v whr number =
     (case v of
        Some (Text s) \<Rightarrow>
          if contains ''{{'' s then guardR (\<not> one_token s) (Invalid whr) (Inr ())
          else guardR (number \<and> \<not> is_decimal (str_strip s)) (Invalid whr) (Inr ())
      | _ \<Rightarrow> Inr ())"

fun threshold_value :: "threshold \<Rightarrow> rat option" where
  "threshold_value (Whole i) = Some (of_int i)"
| "threshold_value (Real s q) = Some q"
| "threshold_value (Text s) = None"

definition bounds_crossed :: "threshold option \<Rightarrow> threshold option \<Rightarrow> bool" where
  "bounds_crossed lo hi =
     (case (Option.bind lo threshold_value, Option.bind hi threshold_value) of (Some a, Some b) \<Rightarrow> b < a | _ \<Rightarrow> False)"

section \<open>Checks, captures, waits and guards\<close>

definition check_pattern :: "(string \<Rightarrow> nat option) \<Rightarrow> string \<Rightarrow> string option \<Rightarrow> unit checked" where
  "check_pattern groups whr v = (case v of None \<Rightarrow> Inr () | Some p \<Rightarrow> bindR (check_regex groups p whr) (\<lambda>_. Inr ()))"

definition validate_checks :: "(string \<Rightarrow> nat option) \<Rightarrow> step_check \<Rightarrow> step_check checked" where
  "validate_checks groups v =
     bindR (check_pattern groups ''expect_regex'' (vl_regex v)) (\<lambda>_.
     bindR (check_pattern groups ''expect_not_regex'' (vl_not_regex v)) (\<lambda>_. Inr v))"

definition validate_capture :: "(string \<Rightarrow> nat option) \<Rightarrow> capture \<Rightarrow> capture checked" where
  "validate_capture groups c =
     (let k = cp_key c; number = (cp_type c = ''number'')
      in guardR (\<not> key_pattern k) (Invalid k) (
         guardR (is_secret_name k) (Coded CAPTURE_SECRET_NAME k) (
         bindR (static_text (cp_label c) MAX_LABEL ''capture label'') (\<lambda>_.
         bindR (check_regex groups (cp_regex c) k) (\<lambda>n.
         guardR (n \<noteq> 1) (Invalid k) (
         guardR (cp_type c \<noteq> ''number'' \<and> cp_type c \<noteq> ''text'') (Invalid k) (
         guardR (cp_all c \<and> number) (Invalid k) (
         guardR (cp_all c \<and> (cp_min c \<noteq> None \<or> cp_max c \<noteq> None \<or> cp_equals c \<noteq> None)) (Invalid k) (
         guardR (number \<and> cp_equals c \<noteq> None) (Invalid k) (
         guardR (\<not> number \<and> (cp_min c \<noteq> None \<or> cp_max c \<noteq> None)) (Invalid k) (
         bindR (check_threshold (cp_min c) k number) (\<lambda>_.
         bindR (check_threshold (cp_max c) k number) (\<lambda>_.
         bindR (check_threshold (map_option Text (cp_equals c)) k number) (\<lambda>_.
         guardR (bounds_crossed (cp_min c) (cp_max c)) (Invalid k) (Inr c)))))))))))))))"

definition validate_wait :: "wait_until \<Rightarrow> wait_until checked" where
  "validate_wait w =
     guardR (\<not> (2 \<le> wu_tries w \<and> wu_tries w \<le> 30)) (Invalid ''wait_until.tries'') (
     guardR (\<not> (1 \<le> wu_interval w \<and> wu_interval w \<le> 60)) (Invalid ''wait_until.interval_seconds'') (
     guardR (WAIT_MAX_SECONDS < wu_tries w * wu_interval w) (Invalid ''wait_until'') (Inr w)))"

definition given_text :: "string option \<Rightarrow> bool" where
  \<comment> \<open>truthy\<close>
  "given_text v = (case v of None \<Rightarrow> False | Some s \<Rightarrow> s \<noteq> [])"

definition given_dict :: "dict option \<Rightarrow> bool" where
  "given_dict v = (case v of None \<Rightarrow> False | Some d \<Rightarrow> d \<noteq> [])"

definition validate_guard :: "(string \<Rightarrow> nat option) \<Rightarrow> step_guard \<Rightarrow> step_guard checked" where
  "validate_guard groups g =
     bindR (validate_checks groups (gd_validation g)) (\<lambda>v.
     guardR (gd_when_met g \<noteq> ''skip'' \<and> gd_when_met g \<noteq> ''fail'') (Invalid ''precondition'') (
     guardR (\<not> given_text (gd_template g) \<and> \<not> given_dict (gd_request g)) (Invalid ''precondition'')
       (Inr (g\<lparr>gd_validation := v\<rparr>))))"

section \<open>Manual steps\<close>

definition secret_token :: "string \<Rightarrow> bool" where
  \<comment> \<open>\<open>_secret_token\<close>\<close>
  "secret_token body =
     (let name = str_strip (takeWhile (\<lambda>c. c \<noteq> CHR ''|'') body)
      in prefix ''secret.'' name \<or> is_secret_name name)"

definition reads_secret :: "string \<Rightarrow> bool" where
  "reads_secret text = list_ex secret_token (token_bodies text)"

definition is_plain_char :: "char \<Rightarrow> bool" where
  "is_plain_char c \<longleftrightarrow> c \<notin> set ''{}|'' \<and> \<not> is_space c"

definition one_plain_token :: "string \<Rightarrow> bool" where
  \<comment> \<open>\<open>_ONE_PLAIN_TOKEN\<close>\<close>
  "one_plain_token v =
     (prefix ''{{'' v \<and>
      (let r = dropWhile is_blank (drop 2 v)
       in takeWhile is_plain_char r \<noteq> [] \<and> dropWhile is_blank (dropWhile is_plain_char r) = ''}}''))"

definition validate_field :: "manual_field \<Rightarrow> manual_field checked" where
  "validate_field f =
     (let k = mf_key f; plain = one_plain_token (mf_value f); reads = reads_secret (mf_value f)
      in guardR (\<not> key_pattern k) (Invalid k) (
         bindR (static_text (Some (mf_label f)) MAX_LABEL ''manual field label'') (\<lambda>_.
         guardR (MANUAL_MAX_VALUE < length (mf_value f)) (Invalid k) (
         guardR (reads \<and> \<not> plain) (Coded MANUAL_SECRET_MIXED k) (
         guardR (reads \<and> mf_secret_given f \<and> \<not> mf_secret f) (Coded MANUAL_SECRET_MIXED k) (
         let secret = (reads \<or> mf_secret f)
         in guardR (secret \<and> \<not> plain) (Coded MANUAL_SECRET_MIXED k) (Inr (f\<lparr>mf_secret := secret\<rparr>))))))))"

definition validate_check :: "manual_check \<Rightarrow> manual_check checked" where
  "validate_check c =
     guardR (\<not> key_pattern (mk_key c)) (Invalid (mk_key c)) (
     bindR (static_text (Some (mk_label c)) MANUAL_MAX_CHECK_LABEL ''manual checklist label'') (\<lambda>_. Inr c))"

definition unique_keys :: "string list \<Rightarrow> string \<Rightarrow> unit checked" where
  "unique_keys ks what = guardR (\<not> distinct ks) (Invalid what) (Inr ())"

definition validate_spec :: "manual_spec \<Rightarrow> manual_spec checked" where
  "validate_spec m =
     bindR (check_all validate_field (ms_fields m)) (\<lambda>fs.
     bindR (check_all validate_check (ms_checklist m)) (\<lambda>cs.
     guardR (str_strip (ms_instructions m) = []) (Coded MANUAL_SPEC_REQUIRED []) (
     guardR (MANUAL_MAX_INSTRUCTIONS < length (ms_instructions m)) (Invalid ''instructions'') (
     guardR (reads_secret (ms_instructions m)) (Coded MANUAL_SECRET_IN_TEXT []) (
     guardR (MANUAL_MAX_FIELDS < length fs) (Invalid ''fields'') (
     guardR (MANUAL_MAX_CHECKLIST < length cs) (Invalid ''checklist'') (
     bindR (unique_keys (map mf_key fs) ''field'') (\<lambda>_.
     bindR (unique_keys (map mk_key cs) ''checklist'') (\<lambda>_.
       Inr (m\<lparr>ms_fields := fs, ms_checklist := cs\<rparr>))))))))))"

section \<open>Steps\<close>

definition manual_refused :: "authored_step \<Rightarrow> bool" where
  \<comment> \<open>a field a manual step does not take\<close>
  "manual_refused s \<longleftrightarrow>
     sp_template s \<noteq> None \<or> sp_request s \<noteq> None \<or> sp_validation s \<noteq> None \<or> sp_guard s \<noteq> None \<or> sp_idempotent s
     \<or> sp_config_mode s \<or> sp_capture s \<noteq> [] \<or> sp_wait s \<noteq> None \<or> sp_target s \<noteq> None"

definition validate_manual :: "authored_step \<Rightarrow> authored_step checked" where
  "validate_manual s =
     guardR (sp_manual s = None) (Coded MANUAL_SPEC_REQUIRED (sp_name s)) (
     guardR (manual_refused s) (Coded MANUAL_FIELD_NOT_ALLOWED (sp_name s)) (
     let t = (if sp_timeout_given s then sp_timeout s else MANUAL_TIMEOUT_DEFAULT)
     in guardR (\<not> (MANUAL_TIMEOUT_MIN \<le> t \<and> t \<le> MANUAL_TIMEOUT_MAX)) (Invalid (sp_name s)) (Inr (s\<lparr>sp_timeout := t\<rparr>))))"

definition lacks_payload :: "authored_step \<Rightarrow> bool" where
  "lacks_payload s \<longleftrightarrow>
     (if sp_driver s = ''http'' \<or> sp_driver s = ''connection_request'' then \<not> given_dict (sp_request s)
      else if sp_driver s = ''tr069'' then \<not> given_dict (sp_request s) \<and> \<not> given_text (sp_template s)
      else \<not> given_text (sp_template s))"

definition validate_payload :: "authored_step \<Rightarrow> authored_step checked" where
  "validate_payload s =
     (if sp_driver s = MANUAL_DRIVER then validate_manual s
      else guardR (sp_manual s \<noteq> None) (Coded MANUAL_FIELD_NOT_ALLOWED (sp_name s)) (
           guardR (lacks_payload s) (Invalid (sp_name s)) (
           guardR (\<not> (1 \<le> sp_timeout s \<and> sp_timeout s \<le> 600)) (Invalid (sp_name s)) (
           guardR (MAX_CAPTURES_PER_STEP < length (sp_capture s)) (Invalid (sp_name s)) (Inr s)))))"

definition validate_step :: "(string \<Rightarrow> nat option) \<Rightarrow> authored_step \<Rightarrow> authored_step checked" where
  "validate_step groups s =
     guardR (sp_driver s \<notin> set PLAYBOOK_DRIVERS) (Invalid ''driver'') (
     bindR (check_opt (validate_checks groups) (sp_validation s)) (\<lambda>v.
     bindR (check_opt (validate_guard groups) (sp_guard s)) (\<lambda>g.
     bindR (static_text (sp_label s) MAX_LABEL ''step label'') (\<lambda>_.
     bindR (static_text (sp_hint s) MAX_HINT ''step hint'') (\<lambda>_.
     bindR (check_all (validate_capture groups) (sp_capture s)) (\<lambda>cs.
     bindR (check_opt validate_wait (sp_wait s)) (\<lambda>w.
     bindR (check_opt validate_spec (sp_manual s)) (\<lambda>m.
       validate_payload (s\<lparr>sp_validation := v, sp_guard := g, sp_capture := cs, sp_wait := w, sp_manual := m\<rparr>)))))))))"

section \<open>The other parts\<close>

definition validate_session :: "(string \<Rightarrow> nat option) \<Rightarrow> cli_session \<Rightarrow> cli_session checked" where
  "validate_session groups s =
     bindR (check_opt (\<lambda>e. bindR (check_regex groups (en_password e) ''session.enable.password_prompt'') (\<lambda>_.
                           bindR (check_regex groups (en_enabled e) ''session.enable.enabled_prompt'') (\<lambda>_. Inr e))) (ss_enable s)) (\<lambda>_.
     bindR (check_all (\<lambda>p. check_regex groups p ''session.error_patterns'') (case ss_errors s of None \<Rightarrow> [] | Some ps \<Rightarrow> ps)) (\<lambda>_.
     bindR (check_all (\<lambda>p. check_regex groups p ''session.busy_patterns'') (ss_busy s)) (\<lambda>_. Inr s)))"

definition validate_secret :: "secret_decl \<Rightarrow> secret_decl checked" where
  "validate_secret c =
     guardR (\<not> key_pattern (sc_key c)) (Invalid (sc_key c)) (
     guardR (\<not> (8 \<le> sc_length c \<and> sc_length c \<le> 63)) (Invalid ''length'') (Inr c))"

definition secret_ref_at :: "string \<Rightarrow> bool" where
  \<comment> \<open>\<open>_SECRET_REF.match\<close>\<close>
  "secret_ref_at body \<longleftrightarrow> ref_name ''secret'' body \<noteq> None"

definition validate_output :: "output_decl \<Rightarrow> output_decl checked" where
  "validate_output d =
     (let k = od_key d
      in guardR (\<not> key_pattern k) (Invalid k) (
         bindR (static_text (Some (od_label d)) MAX_LABEL ''output label'') (\<lambda>_.
         guardR (od_audience d = [] \<or> \<not> set (od_audience d) \<subseteq> set OUTPUT_AUDIENCES) (Invalid k) (
         guardR (od_shareable d \<and> ''technician'' \<notin> set (od_audience d)) (Coded OUTPUT_SHARE_AUDIENCE k) (
         guardR (od_sensitive d \<and> ''customer'' \<in> set (od_audience d)) (Coded OUTPUT_CUSTOMER_SENSITIVE k) (
         guardR (list_ex secret_ref_at (token_bodies (od_value d)) \<and> output_secret_ref (od_value d) = None)
           (Coded OUTPUT_SECRET_MIXED k) (Inr d)))))))"

definition validate_computed :: "computed_var \<Rightarrow> computed_var checked" where
  "validate_computed c =
     guardR (\<not> key_pattern (cv_name c)) (Invalid (cv_name c)) (
     guardR (is_secret_name (cv_name c)) (Computed COMPUTE_SECRET (cv_name c)) (
     case parse (cv_expr c) of
       Inl e \<Rightarrow> Inl (Computed e (cv_name c))
     | Inr t \<Rightarrow>
         guardR (case (cv_min c, cv_max c) of (Some lo, Some hi) \<Rightarrow> hi < lo | _ \<Rightarrow> False) (Invalid (cv_name c)) (Inr c)))"

definition validate_variable :: "variable_decl \<Rightarrow> variable_decl checked" where
  "validate_variable v =
     guardR (\<not> is_segment (vd_key v)) (Invalid (vd_key v)) (
     guardR (vd_type v \<notin> set VAR_TYPES) (Invalid (vd_type v)) (Inr v))"

section \<open>A whole definition\<close>

definition phase_list :: "authored \<Rightarrow> (phase \<times> authored_step) list" where
  \<comment> \<open>the steps with their phases, in the order of \<open>PHASE_KEYS\<close>\<close>
  "phase_list d = concat (map (\<lambda>p. map (Pair p) (steps_in p d)) PROVISIONING_PHASES)"

definition all_steps :: "authored \<Rightarrow> authored_step list" where
  "all_steps d = map snd (phase_list d)"

definition forward_steps :: "authored \<Rightarrow> authored_step list" where
  "forward_steps d = df_preconditions d @ df_configuration d @ df_verification d"

definition wait_allowed :: "phase \<Rightarrow> authored_step \<Rightarrow> bool" where
  "wait_allowed p s \<longleftrightarrow> p = PRECONDITIONS \<or> p = VERIFICATION \<or> p = CONFIGURATION \<and> sp_driver s = ''tr069''"

definition is_notice :: "authored_step \<Rightarrow> bool" where
  "is_notice s = (case sp_manual s of None \<Rightarrow> True | Some m \<Rightarrow> ms_fields m = [] \<and> ms_checklist m = [])"

definition place_step :: "authored \<Rightarrow> phase \<times> authored_step \<Rightarrow> unit checked" where
  "place_step d ps =
     (case ps of (p, s) \<Rightarrow>
        let n = sp_name s; manual = (sp_driver s = MANUAL_DRIVER); bad = Coded PHASE_FIELD_NOT_ALLOWED n
        in guardR (manual \<and> p \<noteq> CONFIGURATION \<and> p \<noteq> ROLLBACK) (Coded MANUAL_PHASE_NOT_ALLOWED n) (
           guardR (manual \<and> p = ROLLBACK \<and> \<not> is_notice s) (Coded MANUAL_FIELD_NOT_ALLOWED n) (
           guardR (sp_undoes s \<noteq> None \<and> p \<noteq> ROLLBACK) bad (
           guardR (sp_guard s \<noteq> None \<and> p \<noteq> CONFIGURATION) bad (
           guardR (sp_idempotent s \<and> p \<noteq> CONFIGURATION) bad (
           guardR (sp_capture s \<noteq> [] \<and> p = ROLLBACK) bad (
           guardR (sp_wait s \<noteq> None \<and> \<not> wait_allowed p s) bad (
           guardR (sp_config_mode s \<and> (p \<noteq> CONFIGURATION \<and> p \<noteq> ROLLBACK \<or> JStr (sp_driver s) \<notin> set CLI_DRIVERS)) bad (
           guardR (sp_config_mode s \<and> \<not> given_text (Option.bind (df_session d) ss_config)) (Coded CONFIG_COMMAND_REQUIRED n) (
           guardR (case sp_undoes s of None \<Rightarrow> False | Some u \<Rightarrow> u \<notin> sp_name ` set (df_configuration d))
             (Coded UNDOES_UNKNOWN_STEP n) (Inr ())))))))))))"

definition own_texts :: "authored_step \<Rightarrow> string list" where
  \<comment> \<open>the texts of a step, its capture keys left out\<close>
  "own_texts s =
     strings (JDict (drop_keys [''capture''] (step_dict JNull s)
       @ [(''capture'', JList (map (\<lambda>c. JDict (capture_body c)) (sp_capture s)))]))"

definition step_texts :: "authored_step \<Rightarrow> string list" where
  "step_texts s = strings (dump_step s)"

fun declare_captures :: "capture list \<Rightarrow> string list \<Rightarrow> string list checked" where
  "declare_captures [] declared = Inr declared"
| "declare_captures (c # cs) declared =
     guardR (cp_key c \<in> set declared) (Invalid (cp_key c)) (declare_captures cs (cp_key c # declared))"

definition undeclared :: "string list \<Rightarrow> string \<Rightarrow> string list \<Rightarrow> bool" where
  "undeclared texts ns declared = list_ex (\<lambda>r. r \<notin> set declared) (refs texts ns)"

fun capture_flow :: "authored_step list \<Rightarrow> string list \<Rightarrow> string list checked" where
  \<comment> \<open>a step reads only what an earlier step captured\<close>
  "capture_flow [] declared = Inr declared"
| "capture_flow (s # ss) declared =
     guardR (undeclared (own_texts s) ''capture'' declared) (Coded CAPTURE_UNDECLARED (sp_name s)) (
     bindR (declare_captures (sp_capture s) declared) (capture_flow ss))"

definition multi_keys :: "authored \<Rightarrow> string list" where
  "multi_keys d = map cp_key (filter cp_all (concat (map sp_capture (forward_steps d))))"

definition late_texts :: "authored \<Rightarrow> string list" where
  "late_texts d = strings (JList (map dump_step (df_rollback d) @ map dump_output (df_outputs d)))"

definition all_texts :: "authored \<Rightarrow> string list" where
  \<comment> \<open>the texts of every step and output\<close>
  "all_texts d = strings (JList (map dump_step (all_steps d) @ map dump_output (df_outputs d)))"

definition settle_output :: "string list \<Rightarrow> output_decl \<Rightarrow> output_decl checked" where
  "settle_output visible d =
     (case output_secret_ref (od_value d) of
        None \<Rightarrow> Inr d
      | Some r \<Rightarrow>
          if r \<in> set visible then Inr d
          else guardR (od_sensitive_given d \<and> \<not> od_sensitive d) (Invalid (od_key d)) (Inr (d\<lparr>od_sensitive := True\<rparr>)))"

definition customer_sensitive :: "output_decl \<Rightarrow> bool" where
  "customer_sensitive d \<longleftrightarrow> od_sensitive d \<and> ''customer'' \<in> set (od_audience d)"

definition visible_refs :: "authored \<Rightarrow> string list" where
  "visible_refs d = map (\<lambda>c. ''secret.'' @ sc_key c) (filter sc_visible (df_secrets d))"

definition captures_and_secrets :: "authored \<Rightarrow> authored checked" where
  "captures_and_secrets d =
     bindR (capture_flow (forward_steps d) []) (\<lambda>declared.
     guardR (MAX_CAPTURES_PER_PLAYBOOK < length (concat (map sp_capture (forward_steps d)))) (Invalid ''captures'') (
     guardR (undeclared (late_texts d) ''capture'' declared) (Coded CAPTURE_UNDECLARED []) (
     guardR (list_ex (\<lambda>r. r \<in> set (multi_keys d)) (refs (concat (map step_texts (all_steps d))) ''capture''))
       (Coded CAPTURE_ALL_IN_STEP []) (
     guardR (\<not> distinct (map sc_key (df_secrets d))) (Invalid ''secrets'') (
     guardR (undeclared (all_texts d) ''secret'' (map sc_key (df_secrets d))) (Coded SECRET_UNDECLARED []) (
     bindR (check_all (settle_output (visible_refs d)) (df_outputs d)) (\<lambda>outs.
     guardR (list_ex customer_sensitive outs) (Coded OUTPUT_CUSTOMER_SENSITIVE []) (
     guardR (MAX_OUTPUTS < length outs) (Invalid ''outputs'') (
     guardR (\<not> distinct (map od_key outs)) (Invalid ''outputs'') (Inr (d\<lparr>df_outputs := outs\<rparr>)))))))))))"

fun computed_order :: "computed_var list \<Rightarrow> string list \<Rightarrow> string list checked" where
  \<comment> \<open>an entry reads only names that are not secret, and only earlier computed ones\<close>
  "computed_order [] earlier = Inr earlier"
| "computed_order (c # cs) earlier =
     guardR (computed_name (cv_name c) \<in> set earlier) (Invalid (cv_name c)) (
     case parse (cv_expr c) of
       Inl e \<Rightarrow> Inl (Computed e (cv_name c))
     | Inr t \<Rightarrow>
         guardR (list_ex is_secret_name (names t)) (Computed COMPUTE_SECRET (cv_name c)) (
         guardR (list_ex (\<lambda>n. prefix ''computed.'' n \<and> n \<notin> set earlier) (names t)) (Computed COMPUTE_NAME (cv_name c)) (
         computed_order cs (computed_name (cv_name c) # earlier))))"

definition computed_head :: "string \<Rightarrow> bool" where
  \<comment> \<open>\<open>_COMPUTED_HEAD\<close>: the word, and no word character after it\<close>
  "computed_head body =
     (let b = dropWhile is_blank body
      in prefix ''computed'' b \<and>
         (case drop 8 b of [] \<Rightarrow> True | c # _ \<Rightarrow> \<not> (is_alnum c \<or> c = CHR ''_'')))"

definition computed_ref :: "string \<Rightarrow> string option" where
  \<comment> \<open>\<open>_COMPUTED_TOKEN\<close>: its one group\<close>
  "computed_ref body =
     (let b = dropWhile is_blank body; r = drop 9 b; w = takeWhile is_word_char r;
          rest = dropWhile is_blank (dropWhile is_word_char r)
      in if prefix ''computed.'' b \<and> is_segment w \<and> (rest = [] \<or> hd rest = CHR ''|'') then Some w else None)"

definition computed_uses :: "string list \<Rightarrow> string option list" where
  \<comment> \<open>of each computed token its key, \<open>None\<close> when it is not a valid reference\<close>
  "computed_uses texts = concat (map (\<lambda>t. map computed_ref (filter computed_head (token_bodies t))) texts)"

definition check_computed :: "authored \<Rightarrow> unit checked" where
  "check_computed d =
     guardR (MAX_ENTRIES < length (df_computed d)) (Computed COMPUTE_LIMIT []) (
     bindR (computed_order (df_computed d) []) (\<lambda>earlier.
     guardR (None \<in> set (computed_uses (all_texts d))) (Computed COMPUTE_NAME []) (
     guardR (list_ex (\<lambda>u. case u of None \<Rightarrow> False | Some k \<Rightarrow> computed_name k \<notin> set earlier) (computed_uses (all_texts d)))
       (Computed COMPUTE_NAME []) (Inr ()))))"

definition validate_parts :: "(string \<Rightarrow> nat option) \<Rightarrow> authored \<Rightarrow> authored checked" where
  \<comment> \<open>the models below the definition\<close>
  "validate_parts groups d =
     bindR (check_all validate_variable (df_variables d)) (\<lambda>_.
     bindR (check_all validate_computed (df_computed d)) (\<lambda>_.
     bindR (check_opt (validate_session groups) (df_session d)) (\<lambda>_.
     bindR (check_all validate_secret (df_secrets d)) (\<lambda>_.
     bindR (check_all (validate_step groups) (df_preconditions d)) (\<lambda>pre.
     bindR (check_all (validate_step groups) (df_configuration d)) (\<lambda>cfg.
     bindR (check_all (validate_step groups) (df_verification d)) (\<lambda>ver.
     bindR (check_all (validate_step groups) (df_rollback d)) (\<lambda>rol.
     bindR (check_all validate_output (df_outputs d)) (\<lambda>_.
       Inr (d\<lparr>df_preconditions := pre, df_configuration := cfg, df_verification := ver, df_rollback := rol\<rparr>))))))))))"

definition validate_whole :: "authored \<Rightarrow> authored checked" where
  "validate_whole d =
     (let ns = map sp_name (all_steps d)
      in guardR (df_configuration d = []) (Invalid ''configuration'') (
         guardR (\<not> distinct ns) (Invalid ''name'') (
         guardR (SESSION_PROBE_STEP \<in> set ns) (Invalid SESSION_PROBE_STEP) (
         bindR (check_all (place_step d) (phase_list d)) (\<lambda>_.
         bindR (captures_and_secrets d) (\<lambda>d'.
         bindR (check_computed d') (\<lambda>_. Inr d')))))))"

definition validate_definition :: "(string \<Rightarrow> nat option) \<Rightarrow> authored \<Rightarrow> authored checked" where
  "validate_definition groups d = bindR (validate_parts groups d) validate_whole"

end
