(* ===== verification/Resolution_Tokens.thy ===== *)
theory Resolution_Tokens
  imports Playbook_Template Playbook_Definition
begin

text \<open>
  What the resolver of \<open>utils/provisioning_resolution.py\<close> reads in a playbook's definition: the
  tokens every step and output renders, with the malformed ones; the names its \<open>computed\<close> block
  reads; and the two text searches over \<open>json.dumps(definition)\<close> that decide whether a playbook reads
  a device or a given token. The regular expressions are recognisers: each repetition is followed by
  a character outside its class, so taking the longest run is the only way to match.
\<close>

section \<open>\<open>json.dumps\<close>\<close>

definition json_char :: "char \<Rightarrow> string" where
  \<comment> \<open>one character between the quotes, with \<open>ensure_ascii\<close>\<close>
  "json_char c =
     (if c = CHR 0x22 \<or> c = CHR 0x5C then [CHR 0x5C, c]
      else if c = CHR 0x0A then [CHR 0x5C, CHR ''n'']
      else if c = CHR 0x0D then [CHR 0x5C, CHR ''r'']
      else if c = CHR 0x09 then [CHR 0x5C, CHR ''t'']
      else if c = CHR 0x08 then [CHR 0x5C, CHR ''b'']
      else if c = CHR 0x0C then [CHR 0x5C, CHR ''f'']
      else (let n = of_char c :: nat
            in if n < 32 \<or> 126 < n
               then [CHR 0x5C, CHR ''u'', CHR ''0'', CHR ''0'', hex_digit (n div 16), hex_digit n] else [c]))"

definition json_str :: "string \<Rightarrow> string" where
  "json_str s = [CHR 0x22] @ concat (map json_char s) @ [CHR 0x22]"

fun dumps :: "json \<Rightarrow> string" where
  "dumps JNull = ''null''"
| "dumps (JBool b) = (if b then ''true'' else ''false'')"
| "dumps (JInt i) = show_int i"
| "dumps (JFloat s) = s"
| "dumps (JStr s) = json_str s"
| "dumps (JList xs) = ''['' @ join_with '', '' (map dumps xs) @ '']''"
| "dumps (JDict d) = ''{'' @ join_with '', '' (map (\<lambda>p. json_str (fst p) @ '': '' @ dumps (snd p)) d) @ ''}''"

section \<open>The two searches\<close>

definition token_end :: "string \<Rightarrow> bool" where
  \<comment> \<open>\<open>_FILTER_SUFFIX\<close>, blanks and the closing braces\<close>
  "token_end s =
     (let r = dropWhile is_space s
      in case r of
           c # cs \<Rightarrow>
             if c = CHR ''|'' then prefix ''}}'' (dropWhile is_space (dropWhile is_body_char cs))
             else prefix ''}}'' r
         | [] \<Rightarrow> False)"

definition device_prefix_at :: "string \<Rightarrow> string option" where
  \<comment> \<open>\<open>(?:device|cpe|old_cpe|path\.[a-z][a-z0-9_]*)\<close>: what follows it\<close>
  "device_prefix_at s =
     (case word_at s of
        None \<Rightarrow> None
      | Some (w, r) \<Rightarrow>
          if w \<in> set [''device'', ''cpe'', ''old_cpe''] then Some r
          else if w = ''path'' then
            (case r of c # cs \<Rightarrow> (if c = CHR ''.'' then map_option snd (word_at cs) else None) | [] \<Rightarrow> None)
          else None)"

definition device_token_at :: "string \<Rightarrow> bool" where
  \<comment> \<open>\<open>_DEVICE_VARIABLE_PATTERN\<close> at the start of the text\<close>
  "device_token_at s =
     (prefix ''{{'' s \<and>
      (case device_prefix_at (dropWhile is_space (drop 2 s)) of
         None \<Rightarrow> False
       | Some [] \<Rightarrow> False
       | Some (c # cs) \<Rightarrow>
           c = CHR ''.'' \<and> (case word_at cs of None \<Rightarrow> False | Some (w, r) \<Rightarrow> token_end r)))"

definition given_token_at :: "string \<Rightarrow> string \<Rightarrow> bool" where
  "given_token_at token s =
     (prefix ''{{'' s \<and>
      (let r = dropWhile is_space (drop 2 s) in prefix token r \<and> token_end (drop (length token) r)))"

section \<open>The computed block\<close>

definition entry_names :: "json \<Rightarrow> string list option" where
  "entry_names e =
     (case e of
        JDict d \<Rightarrow>
          (case map_of d ''expr'' of
             Some (JStr s) \<Rightarrow> (case parse s of Inl c \<Rightarrow> None | Inr t \<Rightarrow> Some (names t))
           | _ \<Rightarrow> None)
      | _ \<Rightarrow> None)"

fun entries_names :: "json list \<Rightarrow> string list option" where
  "entries_names [] = Some []"
| "entries_names (e # es) =
     (case entry_names e of
        None \<Rightarrow> None
      | Some ns \<Rightarrow> map_option (\<lambda>ms. ns @ ms) (entries_names es))"

definition computed_names :: "json \<Rightarrow> string list option" where
  \<comment> \<open>\<open>None\<close> when anything in the block is malformed\<close>
  "computed_names definition =
     (case (if truthy definition then definition else JDict []) of
        JDict d \<Rightarrow>
          (case py_iter (or_empty (dget ''computed'' d)) of
             Inl e \<Rightarrow> None
           | Inr es \<Rightarrow> entries_names es)
      | _ \<Rightarrow> None)"

definition DEVICE_NAMESPACES :: "string list" where
  "DEVICE_NAMESPACES = [''device'', ''cpe'', ''old_cpe'', ''path'']"

definition namespace_of :: "string \<Rightarrow> string" where
  \<comment> \<open>\<open>name.split(".", 1)[0]\<close>\<close>
  "namespace_of n = hd (split_on CHR ''.'' n)"

definition playbook_references_token :: "json \<Rightarrow> string \<Rightarrow> bool" where
  "playbook_references_token definition token =
     (re_search (given_token_at token) (dumps definition) \<or>
      (case computed_names definition of None \<Rightarrow> True | Some ns \<Rightarrow> token \<in> set ns))"

definition playbook_references_device_variables :: "json \<Rightarrow> bool" where
  "playbook_references_device_variables definition =
     (re_search device_token_at (dumps definition) \<or>
      (case computed_names definition of
         None \<Rightarrow> True
       | Some ns \<Rightarrow> list_ex (\<lambda>n. namespace_of n \<in> set DEVICE_NAMESPACES) ns))"

section \<open>The tokens a definition renders\<close>

definition token_head :: "string \<Rightarrow> string option" where
  \<comment> \<open>\<open>_TOKEN_HEAD.match(body)\<close>\<close>
  "token_head body =
     (case var_head body of
        None \<Rightarrow> None
      | Some (name, r) \<Rightarrow> (case r of [] \<Rightarrow> Some name | c # _ \<Rightarrow> if c = CHR ''|'' then Some name else None))"

fun quoted_end :: "char \<Rightarrow> string \<Rightarrow> string option" where
  \<comment> \<open>what follows the closing quote\<close>
  "quoted_end q [] = None"
| "quoted_end q (c # cs) =
     (if c = q then Some cs
      else if c = CHR 0x5C then (case cs of [] \<Rightarrow> None | d # ds \<Rightarrow> quoted_end q ds)
      else quoted_end q cs)"

lemma quoted_end_length: "quoted_end q s = Some r \<Longrightarrow> length r < length s"
proof (induction q s rule: quoted_end.induct)
  case (2 q c cs)
  then show ?case by (auto split: if_splits list.splits dest: less_SucI)
qed simp

function (sequential) strip_quoted :: "string \<Rightarrow> string" where
  \<comment> \<open>\<open>_QUOTED_ARG.sub("", s)\<close>\<close>
  "strip_quoted [] = []"
| "strip_quoted (c # cs) =
     (case (if c = CHR 0x22 \<or> c = CHR 0x27 then quoted_end c cs else None) of
        Some r \<Rightarrow> strip_quoted r
      | None \<Rightarrow> c # strip_quoted cs)"
  by pat_completeness auto
termination
  by (relation "measure length") (auto split: if_splits dest!: quoted_end_length)

definition default_at :: "string \<Rightarrow> bool" where
  \<comment> \<open>\<open>\|\s*default\s*:\<close> at the start\<close>
  "default_at s =
     (case s of
        [] \<Rightarrow> False
      | c # cs \<Rightarrow>
          (let r = dropWhile is_space cs
           in c = CHR ''|'' \<and> prefix ''default'' r \<and> prefix '':'' (dropWhile is_space (drop 7 r))))"

definition has_default_filter :: "string \<Rightarrow> bool" where
  "has_default_filter body = re_search default_at (strip_quoted body)"

definition STEP_TEXTS :: "string list" where
  "STEP_TEXTS = [''template'', ''request'', ''target_item_id'', ''validation'', ''capture'', ''precondition'', ''manual'']"

definition step_fields :: "dict \<Rightarrow> phase \<Rightarrow> def_exn + json list" where
  "step_fields d ph =
     bindR (py_iter (or_empty (dget (PHASE_KEYS ph) d))) (\<lambda>steps.
       Inr (concat (map (\<lambda>s. map (\<lambda>k. dget k s) STEP_TEXTS) (is_dict_list steps))))"

definition output_fields :: "dict \<Rightarrow> def_exn + json list" where
  "output_fields d =
     bindR (py_iter (or_empty (dget ''outputs'' d))) (\<lambda>os. Inr (map (dget ''value'') (is_dict_list os)))"

fun all_fields :: "dict \<Rightarrow> phase list \<Rightarrow> def_exn + json list" where
  "all_fields d [] = output_fields d"
| "all_fields d (ph # phs) = bindR (step_fields d ph) (\<lambda>xs. bindR (all_fields d phs) (\<lambda>ys. Inr (xs @ ys)))"

definition rendered_definition :: "(json \<Rightarrow> json option) \<Rightarrow> json \<Rightarrow> def_exn + dict" where
  \<comment> \<open>normalized, or as it is stored when the two forms of the steps disagree\<close>
  "rendered_definition canon definition =
     (let raw = (if truthy definition then definition else JDict [])
      in case normalize_definition canon raw of
           Inr d \<Rightarrow> Inr (as_dict d)
         | Inl LEGACY_STEPS_CONFLICT \<Rightarrow> Inr (as_dict raw)
         | Inl e \<Rightarrow> Inl e)"

fun literal_text :: "seg list \<Rightarrow> string" where
  \<comment> \<open>\<open>TOKEN_SHAPE.sub("", text)\<close>\<close>
  "literal_text [] = []"
| "literal_text (Lit c # ss) = c # literal_text ss"
| "literal_text (Tok b # ss) = literal_text ss"

function (sequential) open_braces :: "string \<Rightarrow> string list" where
  \<comment> \<open>\<open>[rest[m.start():m.start() + 40] for m in re.finditer(r"\{\{", rest)]\<close>\<close>
  "open_braces (c # d # cs) =
     (if c = CHR ''{'' \<and> d = CHR ''{'' then take 40 (c # d # cs) # open_braces cs else open_braces (d # cs))"
| "open_braces s = []"
  by pat_completeness auto
termination
  by (relation "measure length") auto

definition text_tokens :: "string \<Rightarrow> (string \<times> bool) list" where
  "text_tokens text =
     List.map_filter (\<lambda>b. map_option (\<lambda>name. (name, has_default_filter b)) (token_head b)) (token_bodies text)"

definition text_malformed :: "string \<Rightarrow> string list" where
  "text_malformed text =
     map (\<lambda>b. ''{{'' @ b @ ''}}'') (filter (\<lambda>b. token_head b = None) (token_bodies text))
     @ open_braces (literal_text (segments text))"

definition step_tokens :: "(json \<Rightarrow> json option) \<Rightarrow> json \<Rightarrow> def_exn + (string \<times> bool) list \<times> string list" where
  "step_tokens canon definition =
     bindR (rendered_definition canon definition) (\<lambda>d.
     bindR (all_fields d PROVISIONING_PHASES) (\<lambda>fields.
       (let texts = concat (map strings fields)
        in Inr (concat (map text_tokens texts), concat (map text_malformed texts)))))"

definition PORT_ATTRIBUTES :: "string list" where
  "PORT_ATTRIBUTES = [''out_slot'', ''out_port'', ''out_port_name'']"

definition is_port_token :: "string \<Rightarrow> bool" where
  "is_port_token name =
     (let parts = split_on CHR ''.'' name
      in last parts \<in> set PORT_ATTRIBUTES \<and> hd parts \<in> set [''device'', ''path''])"

section \<open>A reference the search does not see\<close>

text \<open>
  The searches run over the dumped text, where a tab is a backslash and a t; the renderer takes
  a tab for a blank. A token with a tab in it is rendered and not seen.
\<close>

definition tab_token :: string where
  "tab_token = ''{{'' @ [CHR 0x09] @ ''device.serial}}''"

definition tab_definition :: json where
  "tab_definition = JDict [(''configuration'', JList [JDict [(''name'', JStr ''a''), (''template'', JStr tab_token)]])]"

lemma tab_token_is_rendered: "text_tokens tab_token = [(''device.serial'', False)] \<and> text_malformed tab_token = []"
  by code_simp

lemma tab_token_is_not_seen: "\<not> playbook_references_device_variables tab_definition"
  by code_simp

section \<open>The default filter the resolver looks for is one the renderer applies\<close>

definition plain :: "string \<Rightarrow> bool" where
  \<comment> \<open>no quote and no pipe\<close>
  "plain u \<longleftrightarrow> list_all (\<lambda>c. c \<noteq> CHR 0x22 \<and> c \<noteq> CHR 0x27 \<and> c \<noteq> CHR ''|'') u"

lemma plain_append [simp]: "plain (u @ v) \<longleftrightarrow> plain u \<and> plain v"
  by (simp add: plain_def)

lemma plain_Nil [simp]: "plain []"
  by (simp add: plain_def)

lemma strip_quoted_plain: "plain u \<Longrightarrow> strip_quoted (u @ v) = u @ strip_quoted v"
  by (induction u) (auto simp: plain_def)

lemma plain_blanks: "plain (takeWhile is_blank s)"
  by (auto simp: plain_def list_all_iff is_blank_def dest: set_takeWhileD)

lemma plain_word: "list_all is_word_char w \<Longrightarrow> plain w"
proof -
  have "\<not> is_word_char (CHR 0x22)" "\<not> is_word_char (CHR 0x27)" "\<not> is_word_char (CHR ''|'')"
    by (simp_all add: is_word_char_def is_lower_def is_digit_def)
  then show "list_all is_word_char w \<Longrightarrow> plain w" by (auto simp: plain_def list_all_iff)
qed

lemma skip_ws_split: "s = takeWhile is_blank s @ skip_ws s"
  by (simp add: skip_ws_def)

lemma strip_quoted_skip: "strip_quoted s = takeWhile is_blank s @ strip_quoted (skip_ws s)"
  by (metis skip_ws_split strip_quoted_plain plain_blanks)

lemma quoted_end_of: "quoted q s = Inr (a, r) \<Longrightarrow> q \<noteq> CHR 0x5C \<Longrightarrow> quoted_end q s = Some r"
proof (induction q s arbitrary: a rule: quoted.induct)
  case (2 q c cs)
  then show ?case by (auto simp: bindR_Inr_iff split: if_splits list.splits option.splits)
qed simp

lemma plain_bare: "list_all is_bare w \<Longrightarrow> plain w"
proof -
  have "\<not> is_bare (CHR 0x22)" "\<not> is_bare (CHR 0x27)" "\<not> is_bare (CHR ''|'')"
    by (simp_all add: is_bare_def is_alnum_def is_lower_def is_upper_def is_digit_def)
  then show "list_all is_bare w \<Longrightarrow> plain w" by (auto simp: plain_def list_all_iff)
qed

lemma arg_at_strip: "arg_at s = Inr (a, r) \<Longrightarrow> \<exists>w. plain w \<and> strip_quoted s = w @ strip_quoted r"
proof -
  assume a: "arg_at s = Inr (a, r)"
  then obtain c cs where c: "skip_ws s = c # cs" by (cases "skip_ws s") (auto simp: arg_at_def)
  show ?thesis
  proof (cases "is_quote c")
    case True
    with a c have "quoted c cs = Inr (a, r)" by (auto simp: arg_at_def split: if_splits)
    then have "quoted_end c cs = Some r" by (rule quoted_end_of) (use True in \<open>auto simp: is_quote_def\<close>)
    then have "strip_quoted (c # cs) = strip_quoted r" using True by (auto simp: is_quote_def)
    then have "strip_quoted s = takeWhile is_blank s @ strip_quoted r" using strip_quoted_skip [of s] c by simp
    then show ?thesis using plain_blanks [of s] by blast
  next
    case False
    with a c have r: "r = dropWhile is_bare (c # cs)" by (auto simp: arg_at_def split: if_splits)
    let ?w = "takeWhile is_bare (c # cs)"
    have pw: "plain ?w" by (rule plain_bare) (auto simp: list_all_iff dest: set_takeWhileD)
    have "strip_quoted (c # cs) = ?w @ strip_quoted r"
      using strip_quoted_plain [OF pw, of r] by (simp only: r takeWhile_dropWhile_id)
    then show ?thesis
      using strip_quoted_skip [of s] c plain_blanks [of s] pw by (intro exI [of _ "takeWhile is_blank s @ ?w"]) simp
  qed
qed

lemma parse_args_strip: "parse_args s = Inr (as, r) \<Longrightarrow> \<exists>w. plain w \<and> strip_quoted s = w @ strip_quoted r"
proof (induction s arbitrary: as r rule: parse_args.induct)
  case (1 s)
  from "1.prems" obtain a t where a: "arg_at s = Inr (a, t)"
    and k: "(case skip_ws t of [] \<Rightarrow> Inr ([a], [])
       | c # cs \<Rightarrow> (if c = CHR '','' then bindR (parse_args cs) (\<lambda>(as, r'). Inr (a # as, r'))
               else if c \<noteq> CHR ''|'' then Inl (UnexpectedAfterArgument c)
               else Inr ([a], c # cs))) = Inr (as, r)" and g: "\<not> MAX_ARG_LEN < length a"
    by (subst (asm) parse_args.simps) (auto simp: bindR_Inr_iff guardR_Inr_iff)
  obtain w where w: "plain w" "strip_quoted s = w @ strip_quoted t" using arg_at_strip [OF a] by blast
  let ?b = "takeWhile is_blank t"
  have t: "strip_quoted t = ?b @ strip_quoted (skip_ws t)" by (rule strip_quoted_skip)
  show ?case
  proof (cases "skip_ws t")
    case Nil
    with k w t plain_blanks [of t] show ?thesis by (intro exI [of _ "w @ ?b"]) auto
  next
    case (Cons c cs)
    show ?thesis
    proof (cases "c = CHR '',''")
      case True
      with k Cons obtain as' where "parse_args cs = Inr (as', r)" by (auto simp: bindR_Inr_iff)
      from "1.IH" [OF a refl Cons True this] obtain v where v: "plain v" "strip_quoted cs = v @ strip_quoted r" by blast
      have "strip_quoted (c # cs) = c # strip_quoted cs" using True by simp
      with w t Cons v True plain_blanks [of t] show ?thesis
        by (intro exI [of _ "w @ ?b @ c # v"]) (simp add: plain_def)
    next
      case False
      with k Cons have "r = skip_ws t" by (auto split: if_splits)
      with w t plain_blanks [of t] show ?thesis by (intro exI [of _ "w @ ?b"]) simp
    qed
  qed
qed

lemma found_Cons: "re_search m (c # cs) \<longleftrightarrow> m (c # cs) \<or> re_search m cs"
  by (auto simp: re_search_def list_ex_iff)

lemma default_at_pipe: "default_at (c # cs) \<Longrightarrow> c = CHR ''|''"
  by (simp add: default_at_def Let_def)

lemma found_default_plain: "plain u \<Longrightarrow> re_search default_at (u @ v) \<longleftrightarrow> re_search default_at v"
proof (induction u)
  case (Cons c cs)
  then show ?case using default_at_pipe by (auto simp: found_Cons plain_def)
qed simp

definition ends_word :: "string \<Rightarrow> bool" where
  "ends_word s \<longleftrightarrow> (case s of [] \<Rightarrow> True | c # _ \<Rightarrow> c = CHR '':'' \<or> c = CHR ''|'' \<or> is_blank c)"

lemma default_name:
  assumes "default_at (CHR ''|'' # u @ w @ v)" and "list_all is_blank u" and "list_all is_word_char w" and "w \<noteq> []"
    and "ends_word v"
  shows "w = ''default''"
proof -
  have sp: "is_blank c \<Longrightarrow> is_space c" for c by (auto simp: is_blank_def is_space_def)
  have ns: "is_word_char c \<Longrightarrow> \<not> is_space c \<and> c \<noteq> CHR '':''" for c
    by (auto simp: is_word_char_def is_space_def is_lower_def is_digit_def)
  have bad: "\<not> is_word_char c" if "ends_word (c # x)" for c x
    using that by (auto simp: ends_word_def is_blank_def is_word_char_def is_lower_def is_digit_def)
  obtain c cs where w: "w = c # cs" using assms(4) by (cases w) auto
  have "dropWhile is_space (u @ w @ v) = w @ v"
    using assms(2,3) sp ns w by (auto simp: dropWhile_append list_all_iff dropWhile_eq_Nil_conv)
  with assms(1) have p: "prefix ''default'' (w @ v)" and q: "prefix '':'' (dropWhile is_space (drop 7 (w @ v)))"
    by (simp_all add: default_at_def Let_def)
  show ?thesis
  proof (cases "length w < 7")
    case True
    then have "length w < length ''default''" by simp
    moreover from p have "prefix w ''default'' \<or> prefix ''default'' w" by (metis prefix_append prefixI prefix_same_cases)
    ultimately have "prefix w ''default''" using prefix_length_le by fastforce
    then obtain x where x: "''default'' = w @ x" by (auto simp: prefix_def)
    with True have "x \<noteq> []" by auto
    then obtain d ds where d: "x = d # ds" by (cases x) auto
    with p x obtain z where "v = d # ds @ z" by (auto simp: prefix_def)
    with assms(5) bad have "\<not> is_word_char d" by auto
    moreover have "list_all is_word_char ''default''" by (simp add: is_word_char_def is_lower_def)
    then have "is_word_char d" using x d by simp
    ultimately show ?thesis by simp
  next
    case False
    from p obtain z where "w @ v = ''default'' @ z" by (auto simp: prefix_def)
    then have "take 7 (w @ v) = ''default''" by simp
    moreover have "7 - length w = 0" using False by simp
    ultimately have t: "take 7 w = ''default''" by (simp only: take_append take_0 append_Nil2)
    show ?thesis
    proof (cases "drop 7 w")
      case Nil
      with t show ?thesis using append_take_drop_id [of 7 w] by simp
    next
      case (Cons e es)
      have "e \<in> set w" using Cons by (metis in_set_dropD list.set_intros(1))
      with assms(3) ns have "\<not> is_space e" "e \<noteq> CHR '':''" by (auto simp: list_all_iff)
      with q False Cons show ?thesis by simp
    qed
  qed
qed

lemma found_default_filter:
  "filter_loop name k s = Inr fs \<Longrightarrow> re_search default_at (strip_quoted s) \<Longrightarrow> list_ex (\<lambda>f. fst f = ''default'') fs"
proof (induction name k s arbitrary: fs rule: filter_loop.induct)
  case (1 name k s)
  show ?case
  proof (cases s)
    case Nil
    with "1.prems"(2) show ?thesis by (simp add: re_search_def default_at_def)
  next
    case (Cons c cs)
    obtain fname r lo hi args r1 fs' where c: "c = CHR ''|''" and w: "word_at (skip_ws cs) = Some (fname, r)"
      and f: "map_of FILTERS fname = Some (lo, hi)" and a: "filter_args (skip_ws r) = Inr (args, r1)"
      and g1: "\<not> \<not> (lo \<le> length args \<and> length args \<le> hi)" and g2: "\<not> is_secret_name name" and g3: "\<not> MAX_FILTERS < Suc k"
      and rec: "filter_loop name (Suc k) r1 = Inr fs'" and fs: "fs = (fname, args) # fs'"
      using "1.prems"(1) unfolding Cons
      by (subst (asm) filter_loop.simps) (auto simp: bindR_Inr_iff guardR_Inr_iff split: if_splits option.splits)
    have "\<not> c \<noteq> CHR ''|''" using c by simp
    note IH = "1.IH" [OF Cons this w refl f refl a refl rec]
    have wd: "list_all is_word_char fname" "fname \<noteq> []" and wr: "skip_ws cs = fname @ r" and er: "r = dropWhile is_word_char (skip_ws cs)"
      using w by (auto simp: word_at_def list_all_iff is_word_lower split: list.splits if_splits dest: set_takeWhileD)
    let ?u = "takeWhile is_blank cs" and ?v = "takeWhile is_blank r"
    have r1: "r1 = [] \<or> (\<exists>x. r1 = CHR ''|'' # x)"
      using rec by (subst (asm) filter_loop.simps) (auto split: list.splits if_splits)
    obtain m where m: "plain m" "strip_quoted (skip_ws r) = m @ strip_quoted r1" and me: "ends_word (m @ strip_quoted r1)"
    proof (cases "skip_ws r")
      case Nil
      with a have "r1 = []" by (simp add: filter_args_def)
      with Nil show ?thesis by (intro that [of "[]"]) (simp_all add: ends_word_def)
    next
      case (Cons d ds)
      show ?thesis
      proof (cases "d = CHR '':''")
        case True
        with a Cons have "parse_args ds = Inr (args, r1)" by (simp add: filter_args_def)
        then obtain v where "plain v" "strip_quoted ds = v @ strip_quoted r1" using parse_args_strip by blast
        with Cons True show ?thesis by (intro that [of "d # v"]) (simp_all add: plain_def ends_word_def)
      next
        case False
        with a Cons have "r1 = skip_ws r" by (simp add: filter_args_def)
        with r1 show ?thesis by (intro that [of "[]"]) (auto simp: ends_word_def)
      qed
    qed
    have "strip_quoted s = c # ?u @ strip_quoted (skip_ws cs)"
      using strip_quoted_skip [of cs] c Cons by simp
    also have "strip_quoted (skip_ws cs) = fname @ strip_quoted r"
      unfolding wr by (rule strip_quoted_plain [OF plain_word [OF wd(1)]])
    also have "strip_quoted r = ?v @ m @ strip_quoted r1" using strip_quoted_skip [of r] m by simp
    finally have s: "strip_quoted s = c # (?u @ fname @ ?v @ m) @ strip_quoted r1" by simp
    have "plain (?u @ fname @ ?v @ m)" using plain_blanks plain_word wd m by simp
    then have "re_search default_at (strip_quoted s) \<longleftrightarrow>
        default_at (c # (?u @ fname @ ?v @ m) @ strip_quoted r1) \<or> re_search default_at (strip_quoted r1)"
      unfolding s found_Cons by (simp only: found_default_plain)
    with "1.prems"(2) consider (here) "default_at (c # ?u @ fname @ ?v @ m @ strip_quoted r1)" | (later) "re_search default_at (strip_quoted r1)"
      by auto
    then show ?thesis
    proof cases
      case here
      have "ends_word (?v @ m @ strip_quoted r1)"
      proof (cases ?v)
        case (Cons a l)
        then have "is_blank a" using set_takeWhileD [of a is_blank r] by simp
        with Cons show ?thesis by (simp add: ends_word_def)
      qed (use me in simp)
      then have "fname = ''default''"
        using here c wd by (intro default_name [of ?u fname]) (auto simp: list_all_iff dest: set_takeWhileD)
      with fs show ?thesis by simp
    next
      case later
      then show ?thesis using IH fs by simp
    qed
  qed
qed

lemma var_head_split: "var_head body = Some (name, r) \<Longrightarrow> \<exists>u. plain u \<and> body = u @ r"
proof -
  assume a: "var_head body = Some (name, r)"
  have ix: "\<exists>u. plain u \<and> s = u @ t" if "index_at s = (i, t)" for s i t
  proof (cases "t = s")
    case False
    with that obtain cs where s: "s = CHR ''['' # cs" and p: "prefix '']'' (dropWhile is_digit cs)"
      and t: "t = drop 1 (dropWhile is_digit cs)"
      by (auto simp: index_at_def Let_def split: list.splits if_splits)
    from p t have "dropWhile is_digit cs = '']'' @ t" by (auto simp: prefix_def)
    then have "s = (CHR ''['' # takeWhile is_digit cs @ '']'') @ t"
      using s takeWhile_dropWhile_id [of is_digit cs] by simp
    moreover have "plain (takeWhile is_digit cs)"
      by (rule plain_word) (auto simp: list_all_iff is_word_char_def dest: set_takeWhileD)
    then have "plain (CHR ''['' # takeWhile is_digit cs @ '']'')" by (simp add: plain_def)
    ultimately show ?thesis by blast
  qed (auto intro: exI [of _ "[]"])
  have word: "\<exists>u. plain u \<and> s = u @ t" if "word_at s = Some (w, t)" for s w t
  proof -
    have "s = takeWhile is_word_char s @ t" using that by (auto simp: word_at_def split: list.splits if_splits)
    moreover have "plain (takeWhile is_word_char s)" by (rule plain_word) (auto simp: list_all_iff dest: set_takeWhileD)
    ultimately show ?thesis by blast
  qed
  have dot: "\<exists>u. plain u \<and> s = u @ t" if "dotted_at s = (w, t)" for s w t
    using that
  proof (induction s arbitrary: w t rule: dotted_at.induct)
    case (1 s)
    show ?case
    proof (cases "s = t")
      case False
      with "1.prems" obtain cs w' r' ws where s: "s = CHR ''.'' # cs" and w: "word_at cs = Some (w', r')" and d: "dotted_at r' = (ws, t)"
        by (subst (asm) dotted_at.simps) (auto split: list.splits option.splits if_splits prod.splits)
      have "(if CHR ''.'' = CHR ''.'' then word_at cs else None) = Some (w', r')" using w by simp
      from "1.IH" [OF s this refl d] obtain u where "plain u" "r' = u @ t" by blast
      moreover obtain v where "plain v" "cs = v @ r'" using word [OF w] by blast
      ultimately show ?thesis using s by (intro exI [of _ "CHR ''.'' # v @ u"]) (simp add: plain_def)
    qed (auto intro: exI [of _ "[]"])
  qed
  from a obtain w r0 i r1 d r2 where h: "word_at (skip_ws body) = Some (w, r0)" "index_at r0 = (i, r1)" "dotted_at r1 = (d, r2)"
    and r: "r = skip_ws r2"
    by (auto simp: var_head_def split: option.splits prod.splits)
  obtain u1 u2 u3 where "plain u1" "skip_ws body = u1 @ r0" "plain u2" "r0 = u2 @ r1" "plain u3" "r1 = u3 @ r2"
    using word [OF h(1)] ix [OF h(2)] dot [OF h(3)] by blast
  then show ?thesis
    using skip_ws_split [of body] skip_ws_split [of r2] plain_blanks r
    by (intro exI [of _ "takeWhile is_blank body @ u1 @ u2 @ u3 @ takeWhile is_blank r2"]) (metis append.assoc plain_append)
qed

lemma default_filter_seen:
  assumes "parse_body body = Inr t" and "has_default_filter body"
  shows "list_ex (\<lambda>f. fst f = ''default'') (te_filters t)"
proof -
  from assms(1) obtain name r fs where h: "var_head body = Some (name, r)" and f: "filter_loop name 0 r = Inr fs" and t: "te_filters t = fs"
    by (auto simp: parse_body_def bindR_Inr_iff split: option.splits)
  obtain u where u: "plain u" "body = u @ r" using var_head_split [OF h] by blast
  have "re_search default_at (strip_quoted r)"
    using assms(2) u by (simp add: has_default_filter_def strip_quoted_plain found_default_plain)
  then show ?thesis using found_default_filter [OF f] t by simp
qed

lemma parsed_head: "parse_body body = Inr t \<Longrightarrow> token_head body = Some (te_name t)"
proof -
  assume "parse_body body = Inr t"
  then obtain name r fs where h: "var_head body = Some (name, r)" and f: "filter_loop name 0 r = Inr fs" and t: "te_name t = name"
    by (auto simp: parse_body_def bindR_Inr_iff split: option.splits)
  have "r = [] \<or> (\<exists>x. r = CHR ''|'' # x)"
    using f by (subst (asm) filter_loop.simps) (auto split: list.splits if_splits)
  with h t show ?thesis by (auto simp: token_head_def)
qed

lemma in_map_filter: "x \<in> set xs \<Longrightarrow> f x = Some y \<Longrightarrow> y \<in> set (List.map_filter f xs)"
  by (force simp: List.map_filter_def)

text \<open>A name the renderer reports as missing is a token the resolver saw, without a default.\<close>

lemma missing_name_seen:
  assumes "MissingName m \<in> set (snd (render_string text vars))"
  shows "(m, False) \<in> set (text_tokens text) \<and> dget m vars = JNull"
proof -
  from assms obtain b where b: "b \<in> set (token_bodies text)" and p: "MissingName m \<in> set (snd (sub_token vars b))"
    by (auto simp: render_string_def)
  obtain t where t: "parse_body b = Inr t" "run_chain (value_text vars (te_name t)) (te_filters t) = Inr None" and m: "te_name t = m"
  proof (cases "parse_body b")
    case (Inl e)
    with p show ?thesis by (simp add: sub_token_def split: if_splits)
  next
    case (Inr t)
    have "run_chain (value_text vars (te_name t)) (te_filters t) = Inr None \<and> te_name t = m"
      using p Inr by (cases "run_chain (value_text vars (te_name t)) (te_filters t)"; cases "projr (run_chain (value_text vars (te_name t)) (te_filters t))")
        (simp_all add: sub_token_def)
    with Inr show ?thesis using that [of t] by blast
  qed
  have some: "run_chain (Some x) fs \<noteq> Inr None" for x fs
    by (induction fs arbitrary: x) (auto simp: bindR_Inr_iff split: if_splits)
  have none: "\<not> list_ex (\<lambda>f. fst f = ''default'') fs" if "run_chain None fs = Inr None" for fs
    using that some by (induction fs) (auto split: if_splits)
  have v: "value_text vars m = None" using t m some by (cases "value_text vars m") auto
  then have d: "dget m vars = JNull" by (auto simp: value_text_def split: json.splits)
  have "\<not> has_default_filter b" using default_filter_seen [OF t(1)] none t v m by auto
  with parsed_head [OF t(1)] b m have "(m, False) \<in> set (text_tokens text)"
    unfolding text_tokens_def by (intro in_map_filter [of b]) simp_all
  with d show ?thesis by simp
qed

end
