(* ===== verification/Playbook_Render.thy ===== *)
theory Playbook_Render
  imports Playbook_Schema Resolution_Tokens Provisioning_Runs
begin

text \<open>
  \<open>utils/playbook_render.py\<close>: how a step is rendered before it is sent, and what a step must not let
  through. The leftover guard, the rendered checks, the charset gate of captured values, the technician's card, the
  scrubbing of secrets, the pause rule of a guided run, and the preview of a whole definition. A problem is the data
  its message is made of; \<open>groups\<close>, an argument, is \<open>re2.compile\<close>, as in \<open>Playbook_Schema\<close>.
\<close>

section \<open>Rendering a step\<close>

datatype problem = Template template_problem | Leftover string

definition REQUEST_DRIVERS :: "json list" where
  "REQUEST_DRIVERS = [JStr ''http'', JStr ''tr069'', JStr ''connection_request'']"

definition leftover_text :: "string \<Rightarrow> string list" where
  "leftover_text s =
     (let tokens = map raw_token (token_bodies s)
      in if tokens = [] \<and> contains ''{{'' s then open_braces s else tokens)"

fun leftover_tokens :: "json \<Rightarrow> string list" where
  "leftover_tokens (JStr s) = leftover_text s"
| "leftover_tokens (JDict d) = concat (map (\<lambda>p. leftover_tokens (snd p)) d)"
| "leftover_tokens (JList xs) = concat (map leftover_tokens xs)"
| "leftover_tokens v = []"

definition strip_braces :: "string \<Rightarrow> string" where
  \<comment> \<open>\<open>strip("{} \t")\<close>\<close>
  "strip_braces s =
     (let edge = (\<lambda>c. c \<in> set ''{} '' \<or> c = CHR 0x09) in rev (dropWhile edge (rev (dropWhile edge s))))"

fun already :: "template_problem \<Rightarrow> string list" where
  \<comment> \<open>the texts of a reported problem that a leftover would repeat\<close>
  "already (MissingName n) = [str_strip n, strip_braces (str_strip n)]"
| "already (BadToken b e) = [strip_braces (str_strip (raw_token b))]"

definition render_payload :: "json \<Rightarrow> dict \<Rightarrow> json \<Rightarrow> json \<times> template_problem list" where
  "render_payload payload vars driver =
     (if jget ''request'' payload \<noteq> JNull \<and> driver \<in> set REQUEST_DRIVERS then render_value (jget ''request'' payload) vars
      else (let (t, ps) = render_string (as_str (jget ''template'' payload)) vars in (JStr t, ps)))"

definition render_step :: "json \<Rightarrow> dict \<Rightarrow> json \<Rightarrow> json \<times> problem list" where
  "render_step payload vars driver =
     (let (rendered, missing) = render_payload payload vars driver;
          seen = concat (map already missing);
          left = filter (\<lambda>t. strip_braces t \<notin> set seen \<and> t \<notin> set seen) (leftover_tokens rendered)
      in (rendered, dedup (map Template missing @ map Leftover left)))"

section \<open>Checks rendered before the driver\<close>

datatype render_error =
    RenderFailed "template_problem list"
  | BoundNotNumber json string
  | RegexRefused string
  | NoRegex

definition render_text :: "json \<Rightarrow> dict \<Rightarrow> render_error + string option" where
  "render_text v vars =
     (if v = JNull then Inr None
      else (let (t, ps) = render_string (text_of v) vars in guardR (ps \<noteq> []) (RenderFailed ps) (Inr (Some t))))"

definition is_regex_special :: "char \<Rightarrow> bool" where
  "is_regex_special c \<longleftrightarrow> c \<in> set ''()[]{}?*+-|^$.&~# '' \<or>
     c \<in> set [CHR 0x5C, CHR 0x09, CHR 0x0A, CHR 0x0D, CHR 0x0B, CHR 0x0C]"

definition re_escape :: "string \<Rightarrow> string" where
  "re_escape s = concat (map (\<lambda>c. if is_regex_special c then [CHR 0x5C, c] else [c]) s)"

definition regex_body :: "string \<Rightarrow> dict \<Rightarrow> string" where
  \<comment> \<open>the pattern with every token's value escaped\<close>
  "regex_body pattern vars = token_sub (\<lambda>b. re_escape (fst (render_string (raw_token b) vars))) pattern"

definition regex_problems :: "string \<Rightarrow> dict \<Rightarrow> template_problem list" where
  "regex_problems pattern vars = concat (map (\<lambda>b. snd (render_string (raw_token b) vars)) (token_bodies pattern))"

definition render_regex :: "(string \<Rightarrow> nat option) \<Rightarrow> json \<Rightarrow> dict \<Rightarrow> render_error + (string \<times> nat) option" where
  \<comment> \<open>the pattern and its number of groups\<close>
  "render_regex groups v vars =
     (case v of
        JStr pattern \<Rightarrow>
          guardR (regex_problems pattern vars \<noteq> []) (RenderFailed (regex_problems pattern vars)) (
          case groups (regex_body pattern vars) of
            None \<Rightarrow> Inl (RegexRefused (regex_body pattern vars))
          | Some n \<Rightarrow> Inr (Some (regex_body pattern vars, n)))
      | _ \<Rightarrow> Inr None)"

definition exponent_ok :: "string \<Rightarrow> bool" where
  "exponent_ok s =
     (case s of
        [] \<Rightarrow> True
      | e # r \<Rightarrow>
          (let ds = (case r of c # cs \<Rightarrow> if c \<in> set ''+-'' then cs else r | [] \<Rightarrow> [])
           in e \<in> set ''eE'' \<and> ds \<noteq> [] \<and> list_all is_digit ds))"

definition decimal_ok :: "string \<Rightarrow> bool" where
  \<comment> \<open>\<open>Decimal(s)\<close> does not raise\<close>
  "decimal_ok s =
     (let t = filter (\<lambda>c. c \<noteq> CHR ''_'') (str_strip s);
          u = (case t of c # cs \<Rightarrow> if c \<in> set ''+-'' then cs else t | [] \<Rightarrow> []);
          l = str_lower u; nan = (\<lambda>w. prefix w l \<and> list_all is_digit (drop (length w) l));
          whole = takeWhile is_digit u; r = dropWhile is_digit u;
          point = prefix ''.'' r; fraction = (if point then takeWhile is_digit (tl r) else []);
          rest = (if point then dropWhile is_digit (tl r) else r)
      in l = ''inf'' \<or> l = ''infinity'' \<or> nan ''nan'' \<or> nan ''snan'' \<or> (whole \<noteq> [] \<or> fraction \<noteq> []) \<and> exponent_ok rest)"

record rendered_capture =
  rc_key :: json
  rc_regex :: string
  rc_min :: "string option"
  rc_max :: "string option"
  rc_equals :: "string option"

record rendered_checks =
  rk_contains :: "string option"
  rk_not_contains :: "string option"
  rk_regex :: "(string \<times> nat) option"
  rk_not_regex :: "(string \<times> nat) option"
  rk_status :: json
  rk_captures :: "rendered_capture list"

definition bound_ok :: "json \<Rightarrow> json \<Rightarrow> string \<Rightarrow> string option \<Rightarrow> render_error + unit" where
  "bound_ok kind key which v =
     guardR (kind = JStr ''number'' \<and> (case v of None \<Rightarrow> False | Some s \<Rightarrow> \<not> decimal_ok s)) (BoundNotNumber key which) (Inr ())"

definition prepare_capture :: "(string \<Rightarrow> nat option) \<Rightarrow> dict \<Rightarrow> json \<Rightarrow> render_error + rendered_capture" where
  "prepare_capture groups vars cap =
     bindR (render_regex groups (jget ''regex'' cap) vars) (\<lambda>rx.
     (case rx of
        None \<Rightarrow> Inl NoRegex
      | Some (body, n) \<Rightarrow>
          guardR (n \<noteq> 1) (RegexRefused body) (
          bindR (render_text (jget ''min'' cap) vars) (\<lambda>lo.
          bindR (render_text (jget ''max'' cap) vars) (\<lambda>hi.
          bindR (render_text (jget ''equals'' cap) vars) (\<lambda>eq.
          bindR (bound_ok (jget ''type'' cap) (jget ''key'' cap) ''min'' lo) (\<lambda>_.
          bindR (bound_ok (jget ''type'' cap) (jget ''key'' cap) ''max'' hi) (\<lambda>_.
            Inr \<lparr>rc_key = jget ''key'' cap, rc_regex = body, rc_min = lo, rc_max = hi, rc_equals = eq\<rparr>))))))))"

fun prepare_captures :: "(string \<Rightarrow> nat option) \<Rightarrow> dict \<Rightarrow> json list \<Rightarrow> render_error + rendered_capture list" where
  "prepare_captures groups vars [] = Inr []"
| "prepare_captures groups vars (c # cs) =
     bindR (prepare_capture groups vars c) (\<lambda>x. bindR (prepare_captures groups vars cs) (\<lambda>xs. Inr (x # xs)))"

definition prepare_checks :: "(string \<Rightarrow> nat option) \<Rightarrow> json \<Rightarrow> dict \<Rightarrow> render_error + rendered_checks" where
  "prepare_checks groups step vars =
     (let rules = jget ''validation'' step
      in bindR (prepare_captures groups vars (as_list (jget ''capture'' step))) (\<lambda>cs.
         bindR (render_text (jget ''expect_contains'' rules) vars) (\<lambda>c.
         bindR (render_text (jget ''expect_not_contains'' rules) vars) (\<lambda>nc.
         bindR (render_regex groups (jget ''expect_regex'' rules) vars) (\<lambda>rx.
         bindR (render_regex groups (jget ''expect_not_regex'' rules) vars) (\<lambda>nrx.
           Inr \<lparr>rk_contains = c, rk_not_contains = nc, rk_regex = rx, rk_not_regex = nrx,
                rk_status = jget ''expect_status'' rules, rk_captures = cs\<rparr>))))))"

definition render_target_item :: "dict \<Rightarrow> dict \<Rightarrow> dict" where
  "render_target_item payload vars =
     (let given = dget ''target_item_id'' payload;
          target = (if given = JNull \<and> map_of vars ''device.item_id'' \<noteq> None then JStr ''{{device.item_id}}'' else given)
      in if target = JNull then payload
         else dput ''target_item_id'' (JStr (fst (render_string (text_of target) vars))) payload)"

section \<open>Captured values\<close>

definition MAX_CAPTURE_ITEMS :: nat where "MAX_CAPTURE_ITEMS = 50"

definition is_capture_char :: "char \<Rightarrow> bool" where
  "is_capture_char c \<longleftrightarrow> is_alnum c \<or> c \<in> set ''_.:/+-''"

definition gate_capture :: "json \<Rightarrow> json \<Rightarrow> string option" where
  "gate_capture v kind =
     (let t = text_of v
      in if kind = JStr ''number'' then (if decimal_ok t \<and> is_decimal t then Some t else None)
         else if list_all is_capture_char t \<and> length t \<le> 128 then Some t else None)"

fun gate_all :: "string list \<Rightarrow> string list option" where
  "gate_all [] = Some []"
| "gate_all (s # ss) =
     (case gate_capture (JStr s) (JStr ''text'') of
        None \<Rightarrow> None
      | Some t \<Rightarrow> map_option (Cons t) (gate_all ss))"

definition gate_capture_items :: "string list \<Rightarrow> nat \<Rightarrow> string option" where
  "gate_capture_items vs limit = map_option (join_with [CHR 0x0A]) (gate_all (take limit vs))"

definition definition_captures :: "json \<Rightarrow> json list" where
  "definition_captures d =
     concat (map (\<lambda>p. concat (map (\<lambda>s. as_list (jget ''capture'' s)) (phase_steps d (PHASE_KEYS p)))) PROVISIONING_PHASES)"

definition capture_kind :: "json \<Rightarrow> string \<Rightarrow> json" where
  \<comment> \<open>\<open>kinds.get(key, "text")\<close>: a later declaration wins\<close>
  "capture_kind d key =
     (case find (\<lambda>c. jget ''key'' c = JStr key) (rev (definition_captures d)) of
        None \<Rightarrow> JStr ''text''
      | Some c \<Rightarrow> if truthy (jget ''type'' c) then jget ''type'' c else JStr ''text'')"

definition is_multi :: "json \<Rightarrow> string \<Rightarrow> bool" where
  "is_multi d key = list_ex (\<lambda>c. truthy (jget ''all'' c) \<and> jget ''key'' c = JStr key) (definition_captures d)"

definition gated_value :: "json \<Rightarrow> string \<Rightarrow> json \<Rightarrow> string option" where
  "gated_value d key v =
     (if is_multi d key
      then (if truthy v then gate_capture_items (split_on (CHR 0x0A) (text_of v)) MAX_CAPTURE_ITEMS else Some [])
      else gate_capture v (capture_kind d key))"

fun merge_captures :: "json \<Rightarrow> dict \<Rightarrow> dict \<times> dict \<Rightarrow> dict \<times> dict" where
  \<comment> \<open>the variables and what was kept\<close>
  "merge_captures d [] st = st"
| "merge_captures d ((key, v) # rest) (resolved, kept) =
     (case gated_value d key v of
        None \<Rightarrow> merge_captures d rest (resolved, kept)
      | Some t \<Rightarrow> merge_captures d rest (dput (''capture.'' @ key) (JStr t) resolved, dput key (JStr t) kept))"

definition ACS_KEYS :: "string list" where
  "ACS_KEYS = [''url'', ''inform_password'', ''cr_username'', ''cr_password'']"

definition quoted_name :: "string \<Rightarrow> string" where
  \<comment> \<open>between guillemets\<close>
  "quoted_name s = CHR 0xAB # s @ [CHR 0xBB]"

definition placeholders :: "json \<Rightarrow> dict" where
  "placeholders d =
     map (\<lambda>n. (n, JStr (quoted_name n)))
       (map (\<lambda>c. ''capture.'' @ text_of (jget ''key'' c)) (definition_captures d)
        @ map (\<lambda>c. ''secret.'' @ text_of (jget ''key'' c)) (as_list (jget ''secrets'' d))
        @ map (\<lambda>k. ''acs.'' @ k) ACS_KEYS)"

section \<open>Scrubbing secrets\<close>

fun redact :: "string list \<Rightarrow> json \<Rightarrow> json" where
  \<comment> \<open>each variant in turn; replacing a text that is not there changes nothing\<close>
  "redact vs (JStr s) = JStr (fold (\<lambda>v t. replace_all v ''***'' t) vs s)"
| "redact vs (JDict d) = JDict (map (\<lambda>p. (fst p, redact vs (snd p))) d)"
| "redact vs (JList xs) = JList (map (redact vs) xs)"
| "redact vs v = v"

definition secret_variants :: "string list \<Rightarrow> string list" where
  \<comment> \<open>longest first; the order of the variants of one length is the set's\<close>
  "secret_variants secrets = sort_key (\<lambda>v. - int (length v)) (dedup (concat (map (\<lambda>s. [s, re_escape s]) secrets)))"

definition redact_secrets :: "json \<Rightarrow> string list \<Rightarrow> json" where
  "redact_secrets v secret_values =
     (let secrets = filter (\<lambda>s. str_strip s \<noteq> []) secret_values
      in if secrets = [] then v else redact (secret_variants secrets) v)"

definition redact_text :: "string \<Rightarrow> string list \<Rightarrow> string" where
  "redact_text s secret_values = as_str (redact_secrets (JStr s) secret_values)"

section \<open>The technician's card\<close>

definition is_secret_field :: "json \<Rightarrow> bool" where
  "is_secret_field field \<longleftrightarrow> truthy (jget ''secret'' field) \<or> reads_secret (as_str (jget ''value'' field))"

definition card_text :: "dict \<Rightarrow> string list \<Rightarrow> json \<Rightarrow> string" where
  "card_text vars secret_values raw = redact_text (fst (render_string (as_str raw) vars)) secret_values"

definition card_problems :: "dict \<Rightarrow> json \<Rightarrow> problem list" where
  "card_problems vars raw =
     (let (t, ps) = render_string (as_str raw) vars
      in if ps \<noteq> [] then map Template ps else map Leftover (leftover_text t))"

definition card_field :: "dict \<Rightarrow> string list \<Rightarrow> bool \<Rightarrow> json \<Rightarrow> json" where
  "card_field vars secret_values dry_run field =
     (let raw = as_str (jget ''value'' field); secret = is_secret_field field;
          v = (if \<not> secret then JStr (card_text vars secret_values (jget ''value'' field))
               else if dry_run
               then JStr (quoted_name (let edge = (\<lambda>c. c \<in> set ''{} '')
                                       in rev (dropWhile edge (rev (dropWhile edge raw)))))
               else JNull)
      in JDict [(''key'', jget ''key'' field), (''label'', jget ''label'' field), (''value'', v),
                (''copyable'', if map_of (as_dict field) ''copyable'' = None then JBool True else jget ''copyable'' field),
                (''secret'', JBool secret)])"

definition card_check :: "json \<Rightarrow> json" where
  "card_check c = JDict [(''key'', jget ''key'' c), (''label'', jget ''label'' c)]"

definition render_manual :: "json \<Rightarrow> dict \<Rightarrow> string list \<Rightarrow> bool \<Rightarrow> bool \<Rightarrow> json \<times> problem list" where
  "render_manual step vars secret_values dry_run notice =
     (let spec = jget ''manual'' step;
          fields = (if notice then [] else as_list (jget ''fields'' spec));
          checklist = (if notice then [] else as_list (jget ''checklist'' spec))
      in (JDict [(''instructions'', JStr (card_text vars secret_values (jget ''instructions'' spec))),
                 (''fields'', JList (map (card_field vars secret_values dry_run) fields)),
                 (''checklist'', JList (map card_check checklist))],
          card_problems vars (jget ''instructions'' spec) @
          concat (map (\<lambda>f. card_problems vars (jget ''value'' f)) fields)))"

section \<open>A guided run\<close>

definition PAUSING_PHASES :: "string list" where
  "PAUSING_PHASES = [''PRECONDITIONS'', ''CONFIGURATION'', ''VERIFICATION'']"

definition should_pause :: "string option \<Rightarrow> bool \<Rightarrow> string option \<Rightarrow> int \<Rightarrow> int \<Rightarrow> json \<Rightarrow> bool" where
  "should_pause run_mode dry_run ph step_index approved_until step \<longleftrightarrow>
     run_mode = Some ''GUIDED'' \<and> \<not> dry_run \<and> (case ph of None \<Rightarrow> False | Some p \<Rightarrow> p \<in> set PAUSING_PHASES) \<and>
     approved_until < step_index \<and> jget ''driver'' step \<noteq> JStr MANUAL_DRIVER \<and> jget ''name'' step \<noteq> JStr SESSION_PROBE_STEP"

definition or_name :: "json \<Rightarrow> json" where
  \<comment> \<open>\<open>step.get("label") or step.get("name")\<close>\<close>
  "or_name step = (if truthy (jget ''label'' step) then jget ''label'' step else jget ''name'' step)"

definition render_preview :: "json \<Rightarrow> dict \<Rightarrow> string list \<Rightarrow> json" where
  "render_preview step vars secret_values =
     (let rendered = redact_secrets (fst (render_payload step vars (jget ''driver'' step))) secret_values;
          shown = (case rendered of JStr s \<Rightarrow> JStr (take 5000 s) | v \<Rightarrow> v)
      in JDict [(''name'', jget ''name'' step), (''label'', or_name step), (''rendered'', shown)])"

definition is_pause_entry :: "json \<Rightarrow> bool" where
  "is_pause_entry entry \<longleftrightarrow>
     is_dict entry \<and> jget ''status'' entry = JStr ''PENDING'' \<and> jget ''kind'' (jget ''detail'' entry) = JStr ''guided''"

definition without_pause :: "json \<Rightarrow> json" where
  "without_pause job_log =
     (let d = drop_keys [''pending_kind'', ''guided_preview''] (as_dict job_log)
      in JDict (dput ''steps'' (JList (filter (\<lambda>e. \<not> is_pause_entry e) (as_list (dget ''steps'' d)))) d))"

section \<open>The preview of a definition\<close>

datatype issue =
    TemplateProblems "problem list"
  | CheckError render_error
  | NotShipped string
  | UndoesUnknown json

datatype missing_variable = Required missing_item | Found problem

record preview_row =
  pr_group :: string
  pr_name :: json
  pr_label :: json
  pr_driver :: json
  pr_rendered :: json
  pr_manual :: "json option"
  pr_not_simulated :: bool
  pr_implicit :: bool
  pr_issues :: "issue list"
  pr_missing :: "problem list"

record preview =
  pv_valid :: bool
  pv_missing :: "missing_variable list"
  pv_rows :: "preview_row list"
  pv_warnings :: "warning list"

datatype preview_exn = DefinitionRefused def_exn | VariablesFailed resolve_exn

definition NOT_SHIPPED_DRIVERS :: "string list" where "NOT_SHIPPED_DRIVERS = [''snmp'']"

definition shows_probe :: "json \<Rightarrow> bool" where
  "shows_probe d \<longleftrightarrow>
     cli_steps d \<noteq> [] \<and>
     (case phase_steps d ''preconditions'' of [] \<Rightarrow> True | s # _ \<Rightarrow> jget ''driver'' s \<notin> set CLI_DRIVERS)"

definition template_issue :: "problem list \<Rightarrow> issue list" where
  "template_issue ps = (if ps = [] then [] else [TemplateProblems ps])"

definition preview_step ::
  "(string \<Rightarrow> nat option) \<Rightarrow> json list \<Rightarrow> dict \<Rightarrow> string \<times> json \<Rightarrow> preview_row" where
  "preview_step groups cfg_names vars gs =
     (case gs of (grp, step) \<Rightarrow>
        let (rendered, missing) = render_step step vars (jget ''driver'' step);
            checks = prepare_checks groups step vars;
            manual = (if jget ''driver'' step = JStr MANUAL_DRIVER
                      then Some (render_manual step vars [] True (grp = ''rollback'')) else None);
            card = (case manual of None \<Rightarrow> [] | Some m \<Rightarrow> snd m)
        in \<lparr>pr_group = grp, pr_name = jget ''name'' step, pr_label = or_name step, pr_driver = jget ''driver'' step,
            pr_rendered = rendered, pr_manual = map_option fst manual,
            pr_not_simulated = (case checks of Inl e \<Rightarrow> False | Inr k \<Rightarrow> rk_captures k \<noteq> []),
            pr_implicit = (jget ''name'' step = JStr SESSION_PROBE_STEP),
            pr_issues = template_issue missing
              @ (case checks of Inl e \<Rightarrow> [CheckError e] | Inr k \<Rightarrow> [])
              @ (if jget ''driver'' step \<in> set (map JStr NOT_SHIPPED_DRIVERS) then [NotShipped (as_str (jget ''driver'' step))] else [])
              @ (if truthy (jget ''undoes'' step) \<and> jget ''undoes'' step \<notin> set cfg_names
                 then [UndoesUnknown (jget ''undoes'' step)] else [])
              @ template_issue (dedup card),
            pr_missing = missing @ card\<rparr>)"

definition preview_output :: "dict \<Rightarrow> json \<Rightarrow> preview_row" where
  "preview_output vars spec =
     (let v = as_str (jget ''value'' spec);
          (rendered, missing) = (case output_secret_ref v of
             Some r \<Rightarrow> (JStr (quoted_name r), [])
           | None \<Rightarrow> (let (t, ps) = render_string v vars in (JStr t, map Template ps)))
      in \<lparr>pr_group = ''outputs'', pr_name = jget ''key'' spec, pr_label = jget ''label'' spec, pr_driver = JNull,
          pr_rendered = rendered, pr_manual = None, pr_not_simulated = False, pr_implicit = False,
          pr_issues = template_issue missing, pr_missing = missing\<rparr>)"

definition preview_groups :: "(json \<Rightarrow> json option) \<Rightarrow> json \<Rightarrow> def_exn + (string \<times> json) list" where
  \<comment> \<open>the steps in the order they are shown, each with its group\<close>
  "preview_groups canon d =
     bindR (if shows_probe d then bindR (job_steps canon d (Some PRECONDITIONS) True) (\<lambda>ss. Inr [(''preconditions'', hd ss)])
            else Inr []) (\<lambda>probe.
       Inr (probe @ concat (map (\<lambda>p. map (Pair (PHASE_KEYS p)) (phase_steps d (PHASE_KEYS p))) PROVISIONING_PHASES)))"

definition liftL :: "('e \<Rightarrow> 'f) \<Rightarrow> 'e + 'a \<Rightarrow> 'f + 'a" where
  "liftL f r = (case r of Inl e \<Rightarrow> Inl (f e) | Inr v \<Rightarrow> Inr v)"

definition dry_run_playbook ::
  "(json \<Rightarrow> json option) \<Rightarrow> (string \<Rightarrow> nat option) \<Rightarrow> json \<Rightarrow> dict \<Rightarrow> string option \<Rightarrow> string option \<Rightarrow> preview_exn + preview" where
  "dry_run_playbook canon groups definition variables tier purpose =
     bindR (liftL DefinitionRefused (normalize_definition canon (if truthy definition then definition else JDict []))) (\<lambda>d.
     bindR (liftL VariablesFailed (resolve_variables d variables)) (\<lambda>(resolved, required).
     bindR (liftL DefinitionRefused (preview_groups canon d)) (\<lambda>steps.
     bindR (liftL DefinitionRefused (playbook_warnings canon d tier purpose)) (\<lambda>ws.
       (let vars = dict_update resolved (placeholders d);
            cfg_names = map (jget ''name'') (phase_steps d ''configuration'');
            rows = map (preview_step groups cfg_names vars) steps @ map (preview_output vars) (as_list (jget ''outputs'' d))
        in Inr \<lparr>pv_valid = (list_all (\<lambda>r. pr_issues r = []) rows \<and> required = []),
                pv_missing = dedup (map Required required @ concat (map (\<lambda>r. map Found (pr_missing r)) rows)),
                pv_rows = rows, pv_warnings = ws\<rparr>)))))"

end
