(* ===== verification/Provisioning_Resolution.thy ===== *)
theory Provisioning_Resolution
  imports Resolution_Tokens Provisioning_Gates Network_Graph
begin

text \<open>
  \<open>utils/provisioning_resolution.py\<close>: from a service to its configuration path, the playbook
  of every device on it and the variables each playbook is rendered with, or the list of everything
  that is missing. The rows of the plant are those of the network graph with the columns the resolver
  reads; \<open>float()\<close> of a custom field's text is an argument.
\<close>

section \<open>Rows\<close>

record category =
  ct_id :: id
  ct_key :: "string option"
  ct_tier :: "string option"
  ct_passive :: bool

record type_row =
  ty_id :: id
  ty_name :: string
  ty_role :: "string option"
  ty_category :: id

record inventory_unit = node +
  un_serial :: "string option"
  un_mac :: "string option"
  un_type :: id
  un_host :: "string option"
  un_port :: "int option"
  un_label :: "string option"

record named_port = port +
  np_slot :: "int option"
  np_number :: "int option"
  np_name :: "string option"

record bound_playbook = playbook +
  bp_active :: bool

record swap_event =
  se_id :: id
  se_company :: id
  se_service :: "id option"
  se_item :: id
  se_related :: "id option"
  se_replaced :: bool
  se_swap :: bool
  se_created :: int

record custom_value =
  cv_key :: "string option"
  cv_value :: "string option"
  cv_kind :: "string option"

record client_info =
  ci_id :: id
  ci_name :: "string option"
  ci_code :: "string option"
  ci_email :: "string option"
  ci_phone :: "string option"
  ci_address :: "string option"
  ci_custom :: "custom_value list"

record plan_info =
  pi_id :: id
  pi_name :: "string option"
  pi_download :: json
  pi_upload :: json
  pi_params :: json

record client_service =
  cs_id :: id
  cs_company :: id
  cs_cpe :: "id option"
  cs_params :: json
  cs_client :: "client_info option"
  cs_plan :: "plan_info option"

record plant_db =
  rd_units :: "inventory_unit list"
  rd_types :: "type_row list"
  rd_categories :: "category list"
  rd_overrides :: "(id \<times> string \<times> id) list"
  rd_defaults :: "(id \<times> string \<times> id) list"
  rd_playbooks :: "bound_playbook list"
  rd_ports :: "named_port list"
  rd_links :: "link list"
  rd_events :: "swap_event list"
  rd_runs :: "run list"

record path_node = resolved_node +
  pn_mac :: "string option"
  pn_tier :: "string option"
  pn_host :: "string option"
  pn_port :: "int option"
  pn_passive :: bool
  pn_source :: "string option"
  pn_role :: "string option"
  pn_out_slot :: "int option"
  pn_out_port :: "int option"
  pn_out_name :: "string option"

section \<open>Errors\<close>

datatype reason = Not_on_path | Missing_value | Malformed_token | No_slot | No_link

datatype res_err =
    PLAYBOOK_NOT_BOUND nat id "id option" string string
  | MISSING_SERVICE_PARAM string string
  | ROLE_SHADOWS_CATEGORY string id
  | OLD_CPE_NOT_SET
  | ROLE_AMBIGUOUS string string "id list"
  | UNRESOLVED_TOKEN string reason "id option"
  | PORT_NOT_RECORDED string id string nat reason
  | PATH_CHANGED_SINCE_ACTIVATION string json json "id option"
  | COMPUTE_BLOCK id
  | COMPUTE_FAILED ecode "string option" id

text \<open>The exception with its code, and with its list when it is not the code alone; or another exception.\<close>

datatype resolution_exn = Refused string "res_err list" | Crashed def_exn | ExprCrashed eexc

type_synonym 'a resolving = "resolution_exn + 'a"

section \<open>Parameters of a plan and of a client\<close>

definition SCOPE_PLAN :: string where "SCOPE_PLAN = ''plan''"
definition SCOPE_SERVICE :: string where "SCOPE_SERVICE = ''service''"

definition param_row :: "json \<Rightarrow> (string \<times> json \<times> string) option" where
  "param_row row =
     (case row of
        JDict d \<Rightarrow>
          if truthy (dget ''key'' d)
          then Some (py_str (dget ''key'' d), dget ''value'' d,
                 if truthy (dget ''scope'' d) then py_str (dget ''scope'' d) else SCOPE_PLAN)
          else None
      | _ \<Rightarrow> None)"

definition iter_provisioning_params :: "json \<Rightarrow> (string \<times> json \<times> string) list" where
  "iter_provisioning_params params =
     (case params of
        JDict d \<Rightarrow> map (\<lambda>(k, v). (k, v, SCOPE_PLAN)) d
      | JList rows \<Rightarrow> List.map_filter param_row rows
      | _ \<Rightarrow> [])"

definition service_param_values :: "json \<Rightarrow> dict" where
  "service_param_values params =
     fold (\<lambda>(k, v, scope) d. dput k v d) (iter_provisioning_params params) []"

definition is_blank_value :: "json \<Rightarrow> bool" where
  "is_blank_value v = (case v of JNull \<Rightarrow> True | JStr s \<Rightarrow> str_strip s = [] | _ \<Rightarrow> False)"

definition referenceable :: "string \<Rightarrow> bool" where
  \<comment> \<open>\<open>_REFERENCEABLE_KEY.match\<close>: \<open>$\<close> also matches before a last line feed\<close>
  "referenceable k \<longleftrightarrow> is_segment k \<or> (k \<noteq> [] \<and> last k = CHR 0x0A \<and> is_segment (butlast k))"

definition coerce_custom_value :: "(string \<Rightarrow> json option) \<Rightarrow> string option \<Rightarrow> string option \<Rightarrow> json" where
  \<comment> \<open>\<open>number\<close> is \<open>float(value)\<close>, an int when it is whole; \<open>None\<close> is the exception\<close>
  "coerce_custom_value number value kind =
     (case value of
        None \<Rightarrow> JStr []
      | Some s \<Rightarrow>
          let k = (case kind of None \<Rightarrow> [] | Some t \<Rightarrow> str_upper t)
          in if k = ''NUMBER'' then (case number s of None \<Rightarrow> JStr s | Some v \<Rightarrow> v)
             else if k = ''BOOLEAN'' then JBool (str_lower (str_strip s) \<in> set [''true'', ''1'', ''yes'', ''y''])
             else JStr s)"

definition iter_client_custom_fields :: "(string \<Rightarrow> json option) \<Rightarrow> client_info \<Rightarrow> (string \<times> json) list" where
  "iter_client_custom_fields number c =
     List.map_filter (\<lambda>r. case cv_key r of
         None \<Rightarrow> None
       | Some k \<Rightarrow> if referenceable k then Some (k, coerce_custom_value number (cv_value r) (cv_kind r)) else None)
       (ci_custom c)"

section \<open>Playbooks and nodes\<close>

definition bound :: "(id \<times> string \<times> id) list \<Rightarrow> id \<Rightarrow> string \<Rightarrow> id option" where
  "bound rows i purpose = map_option (\<lambda>(_, _, p). p) (find (\<lambda>(j, q, _). j = i \<and> q = purpose) rows)"

definition resolve_playbook_for :: "plant_db \<Rightarrow> inventory_unit \<Rightarrow> string \<Rightarrow> id option \<times> string option" where
  "resolve_playbook_for P u purpose =
     (case bound (rd_overrides P) (nd_id u) purpose of
        Some p \<Rightarrow> (Some p, Some ''node'')
      | None \<Rightarrow>
          (case bound (rd_defaults P) (un_type u) purpose of
             Some p \<Rightarrow> (Some p, Some ''device_type'')
           | None \<Rightarrow> (None, None)))"

definition category_of :: "plant_db \<Rightarrow> type_row option \<Rightarrow> category option" where
  "category_of P ty = Option.bind ty (\<lambda>t. find_by ct_id (ty_category t) (rd_categories P))"

definition node_from_item :: "plant_db \<Rightarrow> inventory_unit \<Rightarrow> nat \<Rightarrow> string \<Rightarrow> path_node" where
  "node_from_item P u position purpose =
     (let ty = find_by ty_id (un_type u) (rd_types P); ct = category_of P ty;
          passive = (case ct of None \<Rightarrow> False | Some c \<Rightarrow> ct_passive c);
          (pb, src) = (if passive then (None, None) else resolve_playbook_for P u purpose)
      in \<lparr>rn_position = position, rn_item = nd_id u, rn_serial = un_serial u, rn_type = Some (un_type u),
          rn_type_name = (case ty of None \<Rightarrow> [] | Some t \<Rightarrow> ty_name t), rn_category = Option.bind ct ct_key,
          rn_playbook = pb, rn_version = None, rn_label = un_label u,
          pn_mac = un_mac u, pn_tier = Option.bind ct ct_tier, pn_host = un_host u, pn_port = un_port u,
          pn_passive = passive, pn_source = src, pn_role = Option.bind ty ty_role,
          pn_out_slot = None, pn_out_port = None, pn_out_name = None\<rparr>)"

definition link_below :: "plant_db \<Rightarrow> id \<Rightarrow> id list \<Rightarrow> id \<Rightarrow> (id \<times> named_port) option" where
  \<comment> \<open>\<open>by_down.get(below)\<close> over the rows of the one query: the later row wins\<close>
  "link_below P company items lower =
     (case filter (\<lambda>l. lk_company l = company \<and> lk_down_item l \<in> set items \<and> lk_down_item l = lower
                     \<and> find_by pt_id (lk_up_port l) (rd_ports P) \<noteq> None) (rd_links P) of
        [] \<Rightarrow> None
      | ls \<Rightarrow> map_option (Pair (lk_up_item (last ls))) (find_by pt_id (lk_up_port (last ls)) (rd_ports P)))"

definition with_port :: "plant_db \<Rightarrow> id \<Rightarrow> id list \<Rightarrow> path_node \<Rightarrow> path_node \<Rightarrow> path_node" where
  "with_port P company items lower n =
     (case link_below P company items (rn_item lower) of
        None \<Rightarrow> n
      | Some (i, p) \<Rightarrow>
          if i \<noteq> rn_item n then n
          else n\<lparr>pn_out_slot := np_slot p, pn_out_port := np_number p, pn_out_name := np_name p\<rparr>)"

fun attach_from :: "plant_db \<Rightarrow> id \<Rightarrow> id list \<Rightarrow> path_node \<Rightarrow> path_node list \<Rightarrow> path_node list" where
  "attach_from P company items lower [] = []"
| "attach_from P company items lower (n # ns) =
     with_port P company items lower n # attach_from P company items n ns"

definition attach_ports :: "plant_db \<Rightarrow> id \<Rightarrow> path_node list \<Rightarrow> path_node list" where
  "attach_ports P company path =
     (case path of [] \<Rightarrow> [] | n # ns \<Rightarrow> n # attach_from P company (map rn_item path) n ns)"

section \<open>Frames\<close>

definition or_text :: "string option \<Rightarrow> json" where
  \<comment> \<open>\<open>v or ""\<close>\<close>
  "or_text v = JStr (case v of None \<Rightarrow> [] | Some s \<Rightarrow> s)"

definition category_text :: "path_node \<Rightarrow> string" where
  "category_text n = str_lower (case rn_category n of None \<Rightarrow> [] | Some k \<Rightarrow> k)"

definition port_pairs :: "path_node \<Rightarrow> (string \<times> json) list" where
  "port_pairs n =
     List.map_filter (\<lambda>(k, v). map_option (Pair k) v)
       [(''out_slot'', map_option JInt (pn_out_slot n)), (''out_port'', map_option JInt (pn_out_port n)),
        (''out_port_name'', map_option JStr (pn_out_name n))]"

definition frame_pairs :: "path_node \<Rightarrow> (string \<times> json) list" where
  "frame_pairs n =
     [(''item_id'', JStr (show_nat (rn_item n))), (''serial'', or_text (rn_serial n)), (''mac'', or_text (pn_mac n)),
      (''type'', JStr (rn_type_name n)), (''category'', JStr (category_text n)), (''category_tier'', or_text (pn_tier n)),
      (''mgmt_host'', or_text (pn_host n)),
      (''mgmt_port'', JStr (case pn_port n of None \<Rightarrow> [] | Some p \<Rightarrow> if p = 0 then [] else show_int p)),
      (''depth'', JInt (int (rn_position n)))] @ port_pairs n"

definition build_device_frame :: "path_node \<Rightarrow> string \<Rightarrow> dict" where
  "build_device_frame n pre = map (\<lambda>(k, v). (pre @ ''.'' @ k, v)) (frame_pairs n)"

definition put_frame :: "path_node \<Rightarrow> string \<Rightarrow> dict \<Rightarrow> dict" where
  "put_frame n pre shared = dict_update shared (build_device_frame n pre)"

section \<open>The shared frame\<close>

definition client_frame :: "(string \<Rightarrow> json option) \<Rightarrow> client_info \<Rightarrow> dict \<Rightarrow> dict" where
  \<comment> \<open>a custom field does not replace a built-in one\<close>
  "client_frame number c shared =
     fold (\<lambda>(k, v) d. if map_of d (''client.'' @ k) = None then dput (''client.'' @ k) v d else d)
       (iter_client_custom_fields number c)
       (dict_update shared
          [(''client.id'', JStr (show_nat (ci_id c))), (''client.name'', or_text (ci_name c)),
           (''client.code'', or_text (ci_code c)), (''client.email'', or_text (ci_email c)),
           (''client.phone'', or_text (ci_phone c)), (''client.address'', or_text (ci_address c))])"

fun plan_params :: "string \<Rightarrow> dict \<Rightarrow> (string \<times> json \<times> string) list \<Rightarrow> dict \<times> res_err list \<Rightarrow> dict \<times> res_err list" where
  "plan_params plan_name values [] st = st"
| "plan_params plan_name values ((key, value, scope) # rows) (shared, missing) =
     (let token = ''service_plan.'' @ key;
          v = (if scope = SCOPE_SERVICE then dget key values else value)
      in if scope = SCOPE_SERVICE \<and> is_blank_value v
         then plan_params plan_name values rows (shared, missing @ [MISSING_SERVICE_PARAM key token])
         else plan_params plan_name values rows (dput token v shared, missing))"

definition plan_frame :: "client_service \<Rightarrow> plan_info \<Rightarrow> dict \<Rightarrow> dict \<times> res_err list" where
  "plan_frame svc p shared =
     plan_params (case pi_name p of None \<Rightarrow> [] | Some n \<Rightarrow> n) (service_param_values (cs_params svc))
       (iter_provisioning_params (pi_params p))
       (dict_update shared
          ([(''service_plan.id'', JStr (show_nat (pi_id p))), (''service_plan.name'', or_text (pi_name p))]
           @ (if pi_download p \<noteq> JNull then [(''service_plan.download_mbps'', pi_download p)] else [])
           @ (if pi_upload p \<noteq> JNull then [(''service_plan.upload_mbps'', pi_upload p)] else [])), [])"

definition base_frame :: "(string \<Rightarrow> json option) \<Rightarrow> client_service \<Rightarrow> dict \<times> res_err list" where
  "base_frame number svc =
     (let s0 = [(''service.id'', JStr (show_nat (cs_id svc)))];
          s1 = (case cs_client svc of None \<Rightarrow> s0 | Some c \<Rightarrow> client_frame number c s0)
      in case cs_plan svc of None \<Rightarrow> (s1, []) | Some p \<Rightarrow> plan_frame svc p s1)"

definition is_newer :: "swap_event \<Rightarrow> swap_event \<Rightarrow> bool" where
  "is_newer a b \<longleftrightarrow> se_created b < se_created a \<or> (se_created a = se_created b \<and> se_id b < se_id a)"

definition newest :: "swap_event list \<Rightarrow> swap_event option" where
  "newest es = (case es of [] \<Rightarrow> None | e # es' \<Rightarrow> Some (fold (\<lambda>x best. if is_newer x best then x else best) es' e))"

definition latest_swap_event :: "plant_db \<Rightarrow> client_service \<Rightarrow> swap_event option" where
  "latest_swap_event P svc =
     newest (filter (\<lambda>e. se_company e = cs_company svc \<and> se_replaced e \<and> se_service e = Some (cs_id svc)
                      \<and> se_related e = cs_cpe svc \<and> cs_cpe svc \<noteq> None \<and> se_swap e) (rd_events P))"

definition old_cpe_frame :: "plant_db \<Rightarrow> client_service \<Rightarrow> string \<Rightarrow> bool \<Rightarrow> path_node \<Rightarrow> dict \<Rightarrow> dict resolving" where
  "old_cpe_frame P svc purpose dry_run cpe shared =
     (if purpose \<noteq> PURPOSE_CPE_SWAP then Inr shared
      else (case latest_swap_event P svc of
              Some e \<Rightarrow>
                (case find_by nd_id (se_item e) (rd_units P) of
                   Some u \<Rightarrow> Inr (put_frame (node_from_item P u 0 purpose) ''old_cpe'' shared)
                 | None \<Rightarrow> Inr shared)
            | None \<Rightarrow>
                if dry_run then Inr (put_frame cpe ''old_cpe'' shared)
                else Inl (Refused ''RESOLUTION_FAILED'' [OLD_CPE_NOT_SET])))"

type_synonym segments_map = "(string \<times> path_node) list"

fun category_frames :: "path_node list \<Rightarrow> segments_map \<times> dict \<Rightarrow> segments_map \<times> dict" where
  "category_frames [] st = st"
| "category_frames (n # ns) (nodes, shared) =
     (let key = category_text n
      in if key = [] \<or> map_of nodes key \<noteq> None \<or> \<not> referenceable key then category_frames ns (nodes, shared)
         else category_frames ns (nodes @ [(key, n)], put_frame n (''path.'' @ key) shared))"

definition role_text :: "path_node \<Rightarrow> string" where
  "role_text n = str_lower (str_strip (case pn_role n of None \<Rightarrow> [] | Some r \<Rightarrow> r))"

definition has_role :: "path_node \<Rightarrow> bool" where
  "has_role n \<longleftrightarrow> role_text n \<noteq> [] \<and> referenceable (role_text n)"

definition holders_of :: "path_node list \<Rightarrow> string \<Rightarrow> path_node list" where
  "holders_of path role = filter (\<lambda>n. has_role n \<and> role_text n = role) path"

definition roles_on :: "path_node list \<Rightarrow> string list" where
  \<comment> \<open>the keys of \<open>holders\<close>, in the order they were put in\<close>
  "roles_on path = dedup (map role_text (filter has_role path))"

fun role_frames ::
  "path_node list \<Rightarrow> string list \<Rightarrow> segments_map \<times> (string \<times> id list) list \<times> dict
   \<Rightarrow> (segments_map \<times> (string \<times> id list) list \<times> dict) resolving" where
  "role_frames path [] st = Inr st"
| "role_frames path (role # roles) (nodes, ambiguous, shared) =
     (let hs = holders_of path role
      in if map_of nodes role \<noteq> None
         then Inl (Refused ''ROLE_SHADOWS_CATEGORY'' [ROLE_SHADOWS_CATEGORY role (rn_item (hd hs))])
         else if 1 < length hs
         then role_frames path roles (nodes, ambiguous @ [(role, map rn_item hs)], shared)
         else role_frames path roles (nodes @ [(role, hd hs)], ambiguous, put_frame (hd hs) (''path.'' @ role) shared))"

section \<open>The refusals\<close>

definition node_label :: "path_node \<Rightarrow> string" where
  "node_label n =
     (case rn_label n of
        Some l \<Rightarrow> if l \<noteq> [] then l else (case rn_serial n of Some s \<Rightarrow> if s \<noteq> [] then s else rn_type_name n | None \<Rightarrow> rn_type_name n)
      | None \<Rightarrow> (case rn_serial n of Some s \<Rightarrow> if s \<noteq> [] then s else rn_type_name n | None \<Rightarrow> rn_type_name n))"

definition explain_port :: "string \<Rightarrow> path_node option \<Rightarrow> res_err" where
  "explain_port name node =
     (case node of
        None \<Rightarrow> UNRESOLVED_TOKEN name Missing_value None
      | Some n \<Rightarrow>
          if 0 < rn_position n \<and> last (split_on CHR ''.'' name) \<in> set PORT_ATTRIBUTES
          then PORT_NOT_RECORDED name (rn_item n) (node_label n) (rn_position n)
                 (if pn_out_port n \<noteq> None then No_slot else No_link)
          else UNRESOLVED_TOKEN name Missing_value None)"

definition explain :: "segments_map \<Rightarrow> (string \<times> id list) list \<Rightarrow> string \<Rightarrow> path_node \<Rightarrow> res_err" where
  "explain nodes ambiguous name step =
     (case split_on CHR ''.'' name of
        [a, b, c] \<Rightarrow>
          if a = ''path'' then
            (case map_of ambiguous b of
               Some ids \<Rightarrow> ROLE_AMBIGUOUS name b ids
             | None \<Rightarrow>
                 (case map_of nodes b of
                    None \<Rightarrow> UNRESOLVED_TOKEN name Not_on_path None
                  | Some n \<Rightarrow> explain_port name (Some n)))
          else explain_port name None
      | [a, b] \<Rightarrow> explain_port name (if a = ''device'' then Some step else None)
      | _ \<Rightarrow> explain_port name None)"

definition last_activation_frames :: "plant_db \<Rightarrow> client_service \<Rightarrow> frames option" where
  \<comment> \<open>the newest by \<open>created_at\<close>\<close>
  "last_activation_frames P svc =
     map_option r_frames
       (case filter (\<lambda>r. r_company r = cs_company svc \<and> r_service r = cs_id svc
                      \<and> r_purpose r \<in> set [PURPOSE_ACTIVATION, PURPOSE_CPE_SWAP] \<and> \<not> r_dry r \<and> r_status r = SUCCEEDED)
               (rd_runs P) of
          [] \<Rightarrow> None
        | r # rs \<Rightarrow> Some (fold (\<lambda>x best. if r_created best < r_created x then x else best) rs r))"

definition dict_of :: "(id \<times> dict) list \<Rightarrow> id \<Rightarrow> dict" where
  "dict_of m i = (case map_of m i of None \<Rightarrow> [] | Some d \<Rightarrow> d)"

definition drift_of :: "frames \<Rightarrow> path_node \<Rightarrow> dict \<Rightarrow> segments_map \<Rightarrow> string \<Rightarrow> res_err option" where
  "drift_of base step vars nodes name =
     (if \<not> is_port_token name then None
      else (let own = prefix ''device.'' name;
                owner = (if own then Some (rn_item step)
                         else map_option rn_item (Option.bind (nth_opt (split_on CHR ''.'' name) 1) (map_of nodes)));
                was = dget name (if own then dict_of (fr_device base) (rn_item step) else fr_shared base);
                now = dget name vars
            in if was \<noteq> JNull \<and> was \<noteq> now then Some (PATH_CHANGED_SINCE_ACTIVATION name was now owner) else None))"

definition port_fact_drift :: "frames \<Rightarrow> path_node \<Rightarrow> string list \<Rightarrow> dict \<Rightarrow> segments_map \<Rightarrow> res_err list" where
  "port_fact_drift base step tokens vars nodes = List.map_filter (drift_of base step vars nodes) tokens"

definition computed_entries :: "json \<Rightarrow> json list option" where
  \<comment> \<open>the block, when it is a list of dicts\<close>
  "computed_entries definition =
     (let c = or_empty (jget ''computed'' definition)
      in case c of JList es \<Rightarrow> if list_all is_dict es then Some es else None | _ \<Rightarrow> None)"

definition declared_names :: "json list \<Rightarrow> string list" where
  "declared_names es = map (\<lambda>e. computed_name (py_str (jget ''key'' e))) es"

definition unready ::
  "segments_map \<Rightarrow> (string \<times> id list) list \<Rightarrow> path_node \<Rightarrow> string list \<Rightarrow> (string \<times> int) list \<Rightarrow> dict
   \<Rightarrow> string \<times> bool \<Rightarrow> res_err option" where
  \<comment> \<open>one pass of the loop over the tokens\<close>
  "unready nodes ambiguous n declared values vars t =
     (case t of (name, has_default) \<Rightarrow>
        if has_default \<or> namespace_of name \<notin> set NAMESPACES then None
        else if name \<in> set declared \<and> map_of values name = None then None
        else if dget name vars = JNull then Some (explain nodes ambiguous name n)
        else None)"

definition node_refusals ::
  "(json \<Rightarrow> json option) \<Rightarrow> frames option \<Rightarrow> segments_map \<Rightarrow> (string \<times> id list) list \<Rightarrow> dict \<Rightarrow> dict
   \<Rightarrow> json \<Rightarrow> path_node \<Rightarrow> res_err list resolving" where
  "node_refusals canon baseline nodes ambiguous shared own raw n =
     (let d = (if truthy raw then raw else JDict []);
          vars = dict_update shared own;
          es = (case computed_entries d of None \<Rightarrow> [] | Some es \<Rightarrow> es)
      in case evaluate_all (JList es) (map_of vars) of
           Inl e \<Rightarrow> Inl (ExprCrashed e)
         | Inr st \<Rightarrow>
             (let vars' = dict_update vars (map (\<lambda>(k, x). (k, JInt x)) (ev_values st))
              in case step_tokens canon d of
                   Inl e \<Rightarrow> Inl (Crashed e)
                 | Inr (tokens, malformed) \<Rightarrow>
                     Inr ((if computed_entries d = None then [COMPUTE_BLOCK (rn_item n)] else [])
                          @ map (\<lambda>(c, k). COMPUTE_FAILED c k (rn_item n)) (ev_errors st)
                          @ map (\<lambda>m. explain nodes ambiguous m n) (ev_missing st)
                          @ map (\<lambda>raw. UNRESOLVED_TOKEN raw Malformed_token (Some (rn_item n))) malformed
                          @ List.map_filter (unready nodes ambiguous n (declared_names es) (ev_values st) vars') tokens
                          @ (case baseline of
                               None \<Rightarrow> []
                             | Some b \<Rightarrow>
                                 port_fact_drift b n
                                   (dedup (map fst tokens @ (case computed_names d of None \<Rightarrow> [] | Some ns \<Rightarrow> ns))) vars' nodes))))"

definition playbook_of :: "plant_db \<Rightarrow> path_node \<Rightarrow> bound_playbook option" where
  \<comment> \<open>\<open>playbooks.get(n.playbook_id)\<close>\<close>
  "playbook_of P n = Option.bind (rn_playbook n) (\<lambda>i. find_by pb_id i (rd_playbooks P))"

definition definition_of :: "plant_db \<Rightarrow> path_node \<Rightarrow> json" where
  "definition_of P n = (case playbook_of P n of None \<Rightarrow> JNull | Some p \<Rightarrow> pb_definition p)"

fun all_refusals ::
  "(json \<Rightarrow> json option) \<Rightarrow> plant_db \<Rightarrow> frames option \<Rightarrow> segments_map \<Rightarrow> (string \<times> id list) list \<Rightarrow> dict
   \<Rightarrow> (id \<times> dict) list \<Rightarrow> path_node list \<Rightarrow> res_err list resolving" where
  "all_refusals canon P baseline nodes ambiguous shared dev [] = Inr []"
| "all_refusals canon P baseline nodes ambiguous shared dev (n # ns) =
     bindR (node_refusals canon baseline nodes ambiguous shared (dict_of dev (rn_item n)) (definition_of P n) n) (\<lambda>xs.
     bindR (all_refusals canon P baseline nodes ambiguous shared dev ns) (\<lambda>ys. Inr (xs @ ys)))"

definition refusals ::
  "(json \<Rightarrow> json option) \<Rightarrow> plant_db \<Rightarrow> client_service \<Rightarrow> string \<Rightarrow> path_node list \<Rightarrow> segments_map
   \<Rightarrow> (string \<times> id list) list \<Rightarrow> dict \<Rightarrow> (id \<times> dict) list \<Rightarrow> res_err list resolving" where
  "refusals canon P svc purpose steps nodes ambiguous shared dev =
     bindR (all_refusals canon P (if purpose \<noteq> PURPOSE_ACTIVATION then last_activation_frames P svc else None)
              nodes ambiguous shared dev steps) (\<lambda>es. Inr (dedup es))"

section \<open>The resolution of a service\<close>

definition path_units :: "plant_db \<Rightarrow> client_service \<Rightarrow> inventory_unit list resolving" where
  \<comment> \<open>steps 1 to 3\<close>
  "path_units P svc =
     (case cs_cpe svc of
        None \<Rightarrow> Inl (Refused ''CPE_NOT_SET'' [])
      | Some cpe \<Rightarrow>
          (case resolve_path (map node.truncate (rd_units P)) cpe (cs_company svc) of
             Inl e \<Rightarrow> Inl (Refused ''PATH_TOO_DEEP'' [])
           | Inr rows \<Rightarrow>
               (case List.map_filter (\<lambda>r. find_by nd_id (nd_id r) (rd_units P)) rows of
                  [] \<Rightarrow> Inl (Refused ''CPE_NOT_ATTACHED'' [])
                | u # us \<Rightarrow> guardR (\<not> nd_attached u) (Refused ''CPE_NOT_ATTACHED'' []) (Inr (u # us)))))"

definition path_nodes :: "plant_db \<Rightarrow> client_service \<Rightarrow> string \<Rightarrow> inventory_unit list \<Rightarrow> path_node list" where
  "path_nodes P svc purpose us =
     attach_ports P (cs_company svc) (map (\<lambda>(i, u). node_from_item P u i purpose) (enumerate 0 us))"

definition is_step :: "path_node \<Rightarrow> bool" where
  "is_step n \<longleftrightarrow> \<not> pn_passive n \<and> rn_playbook n \<noteq> None"

definition not_bound :: "path_node list \<Rightarrow> res_err list" where
  "not_bound path =
     map (\<lambda>n. PLAYBOOK_NOT_BOUND (rn_position n) (rn_item n) (rn_type n) (rn_type_name n) (category_text n))
       (filter (\<lambda>n. \<not> pn_passive n \<and> rn_playbook n = None) path)"

definition playbook_usable :: "plant_db \<Rightarrow> client_service \<Rightarrow> path_node \<Rightarrow> bool" where
  "playbook_usable P svc n =
     (case playbook_of P n of None \<Rightarrow> False | Some p \<Rightarrow> bp_active p \<and> pb_company p = cs_company svc)"

definition with_version :: "plant_db \<Rightarrow> path_node \<Rightarrow> path_node" where
  \<comment> \<open>\<open>n.playbook_version = playbooks[n.playbook_id].version\<close>, for the steps\<close>
  "with_version P n = (if is_step n then n\<lparr>rn_version := map_option pb_version (playbook_of P n)\<rparr> else n)"

definition unbound_is_fatal :: "plant_db \<Rightarrow> string \<Rightarrow> path_node list \<Rightarrow> bool" where
  \<comment> \<open>amendment 4\<close>
  "unbound_is_fatal P purpose steps \<longleftrightarrow>
     purpose = PURPOSE_ACTIVATION \<or>
     list_ex (\<lambda>n. playbook_references_device_variables (definition_of P n)) steps"

definition referenced_missing :: "plant_db \<Rightarrow> path_node list \<Rightarrow> res_err list \<Rightarrow> res_err list" where
  "referenced_missing P steps missing =
     filter (\<lambda>e. case e of
         MISSING_SERVICE_PARAM key token \<Rightarrow> list_ex (\<lambda>n. playbook_references_token (definition_of P n) token) steps
       | _ \<Rightarrow> False) missing"

record resolution =
  rs_path :: "path_node list"
  rs_steps :: "path_node list"
  rs_shared :: dict
  rs_device :: "(id \<times> dict) list"
  rs_ambiguous :: "(string \<times> id list) list"
  rs_nodes :: segments_map

definition shared_frame ::
  "(string \<Rightarrow> json option) \<Rightarrow> plant_db \<Rightarrow> client_service \<Rightarrow> string \<Rightarrow> bool \<Rightarrow> path_node list
   \<Rightarrow> (segments_map \<times> (string \<times> id list) list \<times> dict) resolving" where
  \<comment> \<open>the CPE's frame, the old CPE's, the categories and the roles, over the base frame\<close>
  "shared_frame number P svc purpose dry_run path =
     bindR (old_cpe_frame P svc purpose dry_run (hd path)
              (put_frame (hd path) ''cpe'' (fst (base_frame number svc)))) (\<lambda>shared.
       (let (nodes, shared') = category_frames path ([], shared)
        in role_frames path (roles_on path) (nodes, [], shared')))"

definition steps_of :: "path_node list \<Rightarrow> path_node list" where
  "steps_of path = filter is_step path"

definition resolve_provisioning ::
  "(json \<Rightarrow> json option) \<Rightarrow> (string \<Rightarrow> json option) \<Rightarrow> plant_db \<Rightarrow> client_service \<Rightarrow> string \<Rightarrow> bool \<Rightarrow> resolution resolving" where
  "resolve_provisioning canon number P svc purpose dry_run =
     bindR (path_units P svc) (\<lambda>us.
       (let bare = path_nodes P svc purpose us
        in guardR (\<not> list_all (playbook_usable P svc) (steps_of bare)) (Refused ''PLAYBOOK_INACTIVE'' []) (
             let path = map (with_version P) bare; steps = steps_of path;
                 dev = map (\<lambda>n. (rn_item n, build_device_frame n ''device'')) steps
             in bindR (shared_frame number P svc purpose dry_run path) (\<lambda>(nodes, ambiguous, shared).
                  guardR (not_bound path \<noteq> [] \<and> unbound_is_fatal P purpose steps)
                    (Refused ''RESOLUTION_FAILED'' (not_bound path)) (
                  let missing = referenced_missing P steps (snd (base_frame number svc))
                  in guardR (missing \<noteq> []) (Refused ''RESOLUTION_FAILED'' missing) (
                     bindR (refusals canon P svc purpose steps nodes ambiguous shared dev) (\<lambda>es.
                       guardR (es \<noteq> []) (Refused ''RESOLUTION_FAILED'' es)
                         (Inr \<lparr>rs_path = path, rs_steps = steps, rs_shared = shared, rs_device = dev,
                               rs_ambiguous = ambiguous, rs_nodes = nodes\<rparr>))))))))"

definition resolved_of :: "resolution \<Rightarrow> resolved" where
  \<comment> \<open>what the gates and the run engine read of it\<close>
  "resolved_of r =
     \<lparr>rv_path = map resolved_node.truncate (rs_path r), rv_steps = map resolved_node.truncate (rs_steps r),
      rv_shared = rs_shared r, rv_device = rs_device r\<rparr>"

end
