(* ===== verification/Resolution_Properties.thy ===== *)
theory Resolution_Properties
  imports Provisioning_Resolution
begin

text \<open>
  What a successful resolution guarantees: a device is touched only when every playbook on the
  path can be rendered, the path is the chain of one company's devices from the CPE up, the names a
  playbook uses mean the device they say, and the ports have not changed since the activation.
\<close>

section \<open>A block reads only names of its namespaces\<close>

definition agree :: "(string \<rightharpoonup> json) \<Rightarrow> (string \<rightharpoonup> json) \<Rightarrow> bool" where
  "agree vars vars' \<longleftrightarrow> (\<forall>n. namespace_of n \<in> set NAMESPACES \<longrightarrow> \<not> prefix ''computed.'' n \<longrightarrow> vars n = vars' n)"

lemma operand_loop_cong:
  "(\<And>n. n \<in> set ns \<Longrightarrow> \<not> prefix ''computed.'' n \<Longrightarrow> vars n = vars' n) \<Longrightarrow>
     operand_loop own values declared vars ns missing env skip = operand_loop own values declared vars' ns missing env skip"
  by (induction ns arbitrary: missing env skip)
    (auto simp: operand_loop.simps split: option.splits json.splits sum.splits)

lemma namespace_of_prefix: "prefix (w @ ''.'') k \<Longrightarrow> CHR ''.'' \<notin> set w \<Longrightarrow> namespace_of k = w"
  by (auto simp: prefix_def namespace_of_def split_on_append_sep)

lemma name_ok_namespace: "Playbook_Expr.name_ok n \<Longrightarrow> namespace_of n \<in> set NAMESPACES"
  by (auto simp: Playbook_Expr.name_ok_def check_name_def namespace_of_def split: list.splits if_splits)

lemma preorder_ok: "expr_ok e \<Longrightarrow> n \<in> set (preorder e) \<Longrightarrow> Playbook_Expr.name_ok n"
  by (induction e) auto

lemma names_namespace: "parse s = Inr t \<Longrightarrow> n \<in> set (names t) \<Longrightarrow> namespace_of n \<in> set NAMESPACES"
  using parse_expr_ok preorder_ok name_ok_namespace by fastforce

lemma entry_result_cong: "agree vars vars' \<Longrightarrow> entry_result key entry expr vars st = entry_result key entry expr vars' st"
proof (cases "parse expr")
  case (Inr t)
  assume a: "agree vars vars'"
  have "operand_loop own vs ds vars (names t) ms env skip = operand_loop own vs ds vars' (names t) ms env skip"
    for own vs ds ms env skip
    by (rule operand_loop_cong) (use a names_namespace [OF Inr] in \<open>auto simp: agree_def\<close>)
  then show ?thesis using Inr by (simp add: entry_result_def)
qed (simp add: entry_result_def)

lemma eval_entry_cong: "agree vars vars' \<Longrightarrow> eval_entry vars e st = eval_entry vars' e st"
  by (simp add: eval_entry_def entry_result_cong [of vars vars'] split: json.splits)

lemma eval_entries_cong: "agree vars vars' \<Longrightarrow> eval_entries vars es st = eval_entries vars' es st"
  by (induction es arbitrary: st) (simp_all add: eval_entry_cong [of vars vars'] bindR_def split: sum.splits)

lemma evaluate_all_cong: "agree vars vars' \<Longrightarrow> evaluate_all c vars = evaluate_all c vars'"
  by (simp add: evaluate_all_def eval_entries_cong)

section \<open>A clean evaluation gives every entry a value\<close>

lemma eval_entry_complete:
  assumes "eval_entry vars entry st = Inr st'" "complete_ok es st"
  shows "complete_ok (es @ [entry]) st'"
proof (cases rule: eval_entry_cases [of entry vars st])
  case (shape k)
  with assms show ?thesis by (auto simp: complete_ok_def clean_def)
next
  case (run key expr m r)
  note miss = entry_result_missing [OF run(4)]
  consider e where "r = Inl e" | "r = Inr None" | v where "r = Inr (Some v)" by (cases r) auto
  then show ?thesis
  proof cases
    case 1
    with run(7) assms(1) show ?thesis by (force simp: complete_ok_def clean_def)
  next
    case 2
    with run(6) assms(1)
    have st': "st' = st\<lparr>ev_declared := computed_name key # ev_declared st, ev_missing := m\<rparr>" by simp
    have "\<not> clean st'"
    proof
      assume "clean st'"
      with st' miss have m: "m = []" and c: "clean st" by (auto simp: clean_def)
      from entry_result_skip [OF run(4) [unfolded m 2]]
      obtain n where "n \<in> set (ev_declared st)" "map_of (ev_values st) n = None" by auto
      with assms(2) c show False by (auto simp: complete_ok_def)
    qed
    then show ?thesis by (simp add: complete_ok_def)
  next
    case 3
    with run(5) assms(1)
    have st': "st' = st\<lparr>ev_declared := computed_name key # ev_declared st, ev_missing := m,
        ev_values := AList.update (computed_name key) v (ev_values st)\<rparr>" by simp
    have "m = ev_missing st" using entry_result_value [OF run(4) [unfolded 3] run(2)] by simp
    with assms(2) run(3) show ?thesis by (fastforce simp: complete_ok_def clean_def st')
  qed
qed

lemma evaluate_complete:
  assumes "evaluate_all (JList es) vars = Inr st" and "ev_missing st = []" and "ev_errors st = []"
    and "name \<in> set (declared_names es)"
  shows "map_of (ev_values st) name \<noteq> None"
proof -
  have "eval_entries vars es init_eval = Inr st" using assms(1) by (simp add: evaluate_all_def)
  then have "complete_ok es st"
  proof (induction es arbitrary: st rule: rev_induct)
    case (snoc e es)
    then obtain st0 where "eval_entries vars es init_eval = Inr st0" "eval_entry vars e st0 = Inr st"
      by (auto simp: eval_entries_snoc bindR_Inr_iff)
    with snoc.IH show ?case by (blast intro: eval_entry_complete)
  qed (simp add: init_eval_def complete_ok_def)
  moreover have "clean st" using assms(2,3) by (simp add: clean_def)
  moreover obtain e where "e \<in> set es" "name = computed_name (py_str (jget ''key'' e))"
    using assms(4) by (auto simp: declared_names_def)
  moreover have "entry_key e = Some n \<Longrightarrow> n = computed_name (py_str (jget ''key'' e))" for e n
    by (auto simp: entry_key_def split: json.splits)
  ultimately show ?thesis by (fastforce simp: complete_ok_def)
qed

section \<open>The variables of a child are those the resolver checked\<close>

lemma fold_pass_through:
  "map_of (fold pass_through ps r) k =
     (case map_of r k of Some v \<Rightarrow> Some v | None \<Rightarrow> if reserved k then None else map_of ps k)"
proof (induction ps arbitrary: r)
  case (Cons p ps)
  have "map_of (fold pass_through (p # ps) r) k =
     (case map_of (pass_through p r) k of Some v \<Rightarrow> Some v | None \<Rightarrow> if reserved k then None else map_of ps k)"
    by (simp only: fold_simps Cons.IH)
  also have "\<dots> = (case map_of r k of Some v \<Rightarrow> Some v | None \<Rightarrow> if reserved k then None else map_of (p # ps) k)"
    by (cases p) (auto simp: pass_through_def map_add_def split: option.splits if_splits)
  finally show ?case .
qed (simp split: option.splits)

lemma merge_declared_inputs:
  "merge_declared provided ds (r, m) = Inr (r', m') \<Longrightarrow> \<forall>k\<in>dom (map_of r). prefix ''input.'' k \<Longrightarrow>
     \<forall>k\<in>dom (map_of r'). prefix ''input.'' k"
proof (induction ds arbitrary: r m)
  case (Cons d ds)
  have ik: "prefix ''input.'' (input_key key)" for key by (auto simp: input_key_def INPUT_NAMESPACE_def)
  have dput: "\<forall>k\<in>dom (map_of (dput (input_key key) v r)). prefix ''input.'' k" for key v
    using Cons.prems(2) ik by (auto simp: dput_def update_conv' split: if_splits)
  from Cons.prems(1) obtain key where "jget ''key'' d = JStr key" by (auto split: json.splits)
  with Cons.prems(1) obtain r1 m1 where "merge_declared provided ds (r1, m1) = Inr (r', m')"
    "r1 = r \<or> (\<exists>v. r1 = dput (input_key key) v r)"
    by (auto split: if_splits)
  with Cons.IH [OF this(1)] Cons.prems(2) dput show ?case by metis
qed simp

lemma own_namespaces:
  assumes "namespace_of k \<in> set NAMESPACES" and "\<not> prefix ''computed.'' k"
  shows "\<not> reserved k" and "\<not> prefix ''input.'' k"
proof -
  have ns: "namespace_of k \<noteq> w" if "w \<in> set [''capture'', ''secret'', ''acs'', ''input'']" for w
    using assms(1) that by (auto simp: NAMESPACES_def)
  have "\<not> prefix (w @ ''.'') k" if "w \<in> set [''capture'', ''secret'', ''acs'', ''input'']" for w
    using ns [OF that] that namespace_of_prefix [of w k] by auto
  from this [of "''capture''"] this [of "''secret''"] this [of "''acs''"] this [of "''input''"] assms(2)
  show "\<not> reserved k" "\<not> prefix ''input.'' k" by (simp_all add: reserved_def RESERVED_PREFIXES_def)
qed

lemma resolved_agree:
  assumes "merge_declared provided ds ([], []) = Inr (r, m)"
  shows "agree (map_of (fold pass_through provided r)) (map_of provided)"
proof -
  have "map_of (fold pass_through provided r) k = map_of provided k"
    if "namespace_of k \<in> set NAMESPACES" "\<not> prefix ''computed.'' k" for k
  proof -
    have "map_of r k = None"
      using merge_declared_inputs [OF assms] own_namespaces(2) [OF that] by (auto simp: domIff)
    with own_namespaces(1) [OF that] show ?thesis by (simp add: fold_pass_through)
  qed
  then show ?thesis by (simp add: agree_def)
qed

section \<open>The names of the frames\<close>

definition keys_in :: "(string \<Rightarrow> bool) \<Rightarrow> dict \<Rightarrow> bool" where
  "keys_in Q d \<longleftrightarrow> list_all Q (map fst d)"

lemma keys_in_update: "keys_in Q d \<Longrightarrow> Q k \<Longrightarrow> keys_in Q (AList.update k v d)"
  by (simp add: keys_in_def update_keys list_all_iff)

lemma keys_in_dict_update: "keys_in Q d \<Longrightarrow> keys_in Q e \<Longrightarrow> keys_in Q (dict_update d e)"
proof (induction e arbitrary: d)
  case (Cons p e)
  then have "keys_in Q (AList.update (fst p) (snd p) d)" by (intro keys_in_update) (simp_all add: keys_in_def)
  moreover have "dict_update d (p # e) = dict_update (AList.update (fst p) (snd p) d) e"
    by (simp add: dict_update_def case_prod_beta)
  ultimately show ?case using Cons by (simp add: keys_in_def)
qed simp

lemma keys_in_put: "keys_in Q d \<Longrightarrow> Q k \<Longrightarrow> keys_in Q (dput k v d)"
  by (simp add: dput_def keys_in_update)

lemma keys_in_frame: "(\<And>x. Q (pre @ ''.'' @ x)) \<Longrightarrow> keys_in Q (build_device_frame n pre)"
  by (auto simp: keys_in_def build_device_frame_def list_all_iff)

lemma keys_in_put_frame: "keys_in Q d \<Longrightarrow> (\<And>x. Q (pre @ ''.'' @ x)) \<Longrightarrow> keys_in Q (put_frame n pre d)"
  by (simp add: put_frame_def keys_in_dict_update keys_in_frame)

text \<open>Whatever holds of all names of the frames outside the path holds of the keys of the frame before it.\<close>

locale base_names =
  fixes Q :: "string \<Rightarrow> bool"
  assumes service_key: "Q (''service.'' @ x)"
    and client_key: "Q (''client.'' @ x)"
    and plan_key: "Q (''service_plan.'' @ x)"
    and cpe_key: "Q (''cpe'' @ ''.'' @ x)"
    and old_cpe_key: "Q (''old_cpe'' @ ''.'' @ x)"
begin

lemma client_frame_keys: "keys_in Q d \<Longrightarrow> keys_in Q (client_frame number c d)"
proof -
  have f: "keys_in Q e \<Longrightarrow> keys_in Q (fold (\<lambda>(k, v) d. if map_of d (''client.'' @ k) = None then dput (''client.'' @ k) v d else d) xs e)" for xs e
  proof (induction xs arbitrary: e)
    case (Cons x xs)
    have "keys_in Q (dput (''client.'' @ fst x) (snd x) e)" by (intro keys_in_put client_key Cons.prems)
    then show ?case using Cons by (simp del: append_Cons add: case_prod_beta)
  qed simp
  have l: "keys_in Q [(''client.id'', a), (''client.name'', b), (''client.code'', c'), (''client.email'', e),
      (''client.phone'', f), (''client.address'', g)]" for a b c' e f g
    using client_key [of "''id''"] client_key [of "''name''"] client_key [of "''code''"] client_key [of "''email''"]
      client_key [of "''phone''"] client_key [of "''address''"] by (simp add: keys_in_def)
  show "keys_in Q (client_frame number c d)" if d: "keys_in Q d"
    unfolding client_frame_def by (rule f, rule keys_in_dict_update [OF d l])
qed

lemma plan_params_keys: "keys_in Q (fst st) \<Longrightarrow> keys_in Q (fst (plan_params nm vals rows st))"
proof (induction rows arbitrary: st)
  case (Cons row rows)
  obtain key v scope where row: "row = (key, v, scope)" by (cases row)
  obtain d ms where st: "st = (d, ms)" by (cases st)
  have "keys_in Q (dput (''service_plan.'' @ key) x d)" for x
    using Cons.prems st by (intro keys_in_put plan_key) simp
  then show ?case using Cons.prems unfolding row st by (simp del: append_Cons add: Let_def Cons.IH)
qed simp

lemma plan_frame_keys: "keys_in Q d \<Longrightarrow> keys_in Q (fst (plan_frame svc p d))"
  unfolding plan_frame_def
  by (intro plan_params_keys, simp only: fst_conv, intro keys_in_dict_update, assumption)
    (use plan_key [of "''id''"] plan_key [of "''name''"] plan_key [of "''download_mbps''"] plan_key [of "''upload_mbps''"]
     in \<open>simp add: keys_in_def\<close>)

lemma base_frame_keys: "keys_in Q (fst (base_frame number svc))"
proof -
  have "keys_in Q [(''service.id'', v)]" for v using service_key [of "''id''"] by (simp add: keys_in_def)
  then show ?thesis
    by (auto simp: base_frame_def Let_def client_frame_keys plan_frame_keys split: option.splits)
qed

lemma old_cpe_frame_keys: "old_cpe_frame P svc purpose dry n d = Inr d' \<Longrightarrow> keys_in Q d \<Longrightarrow> keys_in Q d'"
  by (auto simp: old_cpe_frame_def split: if_splits option.splits intro!: keys_in_put_frame old_cpe_key simp del: append_Cons)

lemma before_path_keys:
  "old_cpe_frame P svc purpose dry n (put_frame n ''cpe'' (fst (base_frame number svc))) = Inr s \<Longrightarrow> keys_in Q s"
  by (erule old_cpe_frame_keys) (intro keys_in_put_frame base_frame_keys cpe_key)

end

definition own_key :: "string \<Rightarrow> bool" where
  "own_key k \<longleftrightarrow> list_ex (\<lambda>p. prefix p k)
     [''service.'', ''client.'', ''service_plan.'', ''cpe.'', ''old_cpe.'', ''path.'', ''device.'']"

definition off_path :: "string \<Rightarrow> bool" where
  "off_path k \<longleftrightarrow> \<not> prefix ''path.'' k"

interpretation own: base_names own_key
  by unfold_locales (simp_all add: own_key_def)

interpretation off: base_names off_path
  by unfold_locales (simp_all add: off_path_def)

abbreviation own_keys :: "dict \<Rightarrow> bool" where "own_keys \<equiv> keys_in own_key"

lemma frame_keys: "own_key (''device'' @ ''.'' @ x)"
  by (simp add: own_key_def)

lemma path_key: "own_key ((''path.'' @ k) @ ''.'' @ x)"
  by (simp add: own_key_def)

lemma own_keys_category: "own_keys (snd st) \<Longrightarrow> own_keys (snd (category_frames ns st))"
  by (induction ns st rule: category_frames.induct)
    (auto simp: Let_def simp del: append_Cons append_assoc intro!: keys_in_put_frame path_key)

lemma own_keys_roles: "role_frames path roles (nodes, amb, d) = Inr (nodes', amb', d') \<Longrightarrow> own_keys d \<Longrightarrow> own_keys d'"
proof (induction roles arbitrary: nodes amb d)
  case (Cons role roles)
  have "own_keys (put_frame (hd (holders_of path role)) (''path.'' @ role) d)"
    by (intro keys_in_put_frame path_key Cons.prems(2))
  with Cons show ?case by (auto simp: Let_def split: if_splits)
qed simp

lemma shared_frame_elim:
  assumes "shared_frame number P svc purpose dry path = Inr (nodes, amb, d)"
  obtains s ns s' where "old_cpe_frame P svc purpose dry (hd path) (put_frame (hd path) ''cpe'' (fst (base_frame number svc))) = Inr s"
    and "category_frames path ([], s) = (ns, s')" and "role_frames path (roles_on path) (ns, [], s') = Inr (nodes, amb, d)"
proof -
  from assms obtain s where o: "old_cpe_frame P svc purpose dry (hd path) (put_frame (hd path) ''cpe'' (fst (base_frame number svc))) = Inr s"
    and k: "(let (nodes, shared') = category_frames path ([], s)
        in role_frames path (roles_on path) (nodes, [], shared')) = Inr (nodes, amb, d)"
    unfolding shared_frame_def by (auto simp only: bindR_Inr_iff)
  obtain ns s' where c: "category_frames path ([], s) = (ns, s')" by (cases "category_frames path ([], s)")
  with k show thesis by (intro that [OF o c]) simp
qed

lemma own_keys_shared: "shared_frame number P svc purpose dry path = Inr (nodes, amb, d) \<Longrightarrow> own_keys d"
proof (erule shared_frame_elim)
  fix s ns s'
  assume o: "old_cpe_frame P svc purpose dry (hd path) (put_frame (hd path) ''cpe'' (fst (base_frame number svc))) = Inr s"
    and c: "category_frames path ([], s) = (ns, s')" and r: "role_frames path (roles_on path) (ns, [], s') = Inr (nodes, amb, d)"
  have "own_keys s'" using own_keys_category [of "([], s)" path] c own.before_path_keys [OF o] by simp
  then show "own_keys d" using own_keys_roles [OF r] by blast
qed

lemma own_key_not_computed: "own_key k \<Longrightarrow> \<not> prefix ''computed.'' k"
  by (auto simp: own_key_def prefix_def)

lemma own_keys_no_computed: "own_keys d \<Longrightarrow> prefix ''computed.'' k \<Longrightarrow> map_of d k = None"
  using own_key_not_computed by (fastforce simp: keys_in_def list_all_iff map_of_eq_None_iff)

section \<open>The stages of a resolution\<close>

lemma resolve_elim:
  assumes "resolve_provisioning canon number P svc purpose dry = Inr r"
  obtains us where "path_units P svc = Inr us"
    and "rs_path r = map (with_version P) (path_nodes P svc purpose us)"
    and "rs_steps r = steps_of (rs_path r)"
    and "rs_device r = map (\<lambda>n. (rn_item n, build_device_frame n ''device'')) (rs_steps r)"
    and "list_all (playbook_usable P svc) (steps_of (path_nodes P svc purpose us))"
    and "shared_frame number P svc purpose dry (rs_path r) = Inr (rs_nodes r, rs_ambiguous r, rs_shared r)"
    and "\<not> (not_bound (rs_path r) \<noteq> [] \<and> unbound_is_fatal P purpose (rs_steps r))"
    and "referenced_missing P (rs_steps r) (snd (base_frame number svc)) = []"
    and "refusals canon P svc purpose (rs_steps r) (rs_nodes r) (rs_ambiguous r) (rs_shared r) (rs_device r) = Inr []"
proof -
  from assms obtain us where us: "path_units P svc = Inr us"
    and k: "(let bare = path_nodes P svc purpose us
        in guardR (\<not> list_all (playbook_usable P svc) (steps_of bare)) (Refused ''PLAYBOOK_INACTIVE'' []) (
             let path = map (with_version P) bare; steps = steps_of path;
                 dev = map (\<lambda>n. (rn_item n, build_device_frame n ''device'')) steps
             in bindR (shared_frame number P svc purpose dry path) (\<lambda>(nodes, ambiguous, shared).
                  guardR (not_bound path \<noteq> [] \<and> unbound_is_fatal P purpose steps)
                    (Refused ''RESOLUTION_FAILED'' (not_bound path)) (
                  let missing = referenced_missing P steps (snd (base_frame number svc))
                  in guardR (missing \<noteq> []) (Refused ''RESOLUTION_FAILED'' missing) (
                     bindR (refusals canon P svc purpose steps nodes ambiguous shared dev) (\<lambda>es.
                       guardR (es \<noteq> []) (Refused ''RESOLUTION_FAILED'' es)
                         (Inr \<lparr>rs_path = path, rs_steps = steps, rs_shared = shared, rs_device = dev,
                               rs_ambiguous = ambiguous, rs_nodes = nodes\<rparr>))))))) = Inr r"
    unfolding resolve_provisioning_def by (elim bindR_InrE)
  let ?path = "map (with_version P) (path_nodes P svc purpose us)"
  let ?dev = "map (\<lambda>n. (rn_item n, build_device_frame n ''device'')) (steps_of ?path)"
  from k have u: "list_all (playbook_usable P svc) (steps_of (path_nodes P svc purpose us))" by (simp only: Let_def guardR_Inr_iff not_not)
  from k obtain t where t: "shared_frame number P svc purpose dry ?path = Inr t"
    and k2: "(case t of (nodes, ambiguous, shared) \<Rightarrow>
        guardR (not_bound ?path \<noteq> [] \<and> unbound_is_fatal P purpose (steps_of ?path)) (Refused ''RESOLUTION_FAILED'' (not_bound ?path)) (
        guardR (referenced_missing P (steps_of ?path) (snd (base_frame number svc)) \<noteq> [])
          (Refused ''RESOLUTION_FAILED'' (referenced_missing P (steps_of ?path) (snd (base_frame number svc)))) (
        bindR (refusals canon P svc purpose (steps_of ?path) nodes ambiguous shared ?dev) (\<lambda>es.
          guardR (es \<noteq> []) (Refused ''RESOLUTION_FAILED'' es)
            (Inr \<lparr>rs_path = ?path, rs_steps = steps_of ?path, rs_shared = shared, rs_device = ?dev,
               rs_ambiguous = ambiguous, rs_nodes = nodes\<rparr>))))) = Inr r"
    by (auto simp only: Let_def guardR_Inr_iff bindR_Inr_iff)
  obtain nodes amb shared where te: "t = (nodes, amb, shared)" by (cases t)
  from k2 have g1: "\<not> (not_bound ?path \<noteq> [] \<and> unbound_is_fatal P purpose (steps_of ?path))"
    and g2: "referenced_missing P (steps_of ?path) (snd (base_frame number svc)) = []"
    and g3: "refusals canon P svc purpose (steps_of ?path) nodes amb shared ?dev = Inr []"
    and r: "r = \<lparr>rs_path = ?path, rs_steps = steps_of ?path, rs_shared = shared, rs_device = ?dev,
        rs_ambiguous = amb, rs_nodes = nodes\<rparr>"
    unfolding te by (auto simp: guardR_Inr_iff bindR_Inr_iff)
  show thesis by (rule that [of us]) (use us u t g1 g2 g3 in \<open>simp_all add: r te\<close>)
qed

lemma all_refusals_each:
  "all_refusals canon P base nodes amb shared dev ns = Inr [] \<Longrightarrow> n \<in> set ns \<Longrightarrow>
     node_refusals canon base nodes amb shared (dict_of dev (rn_item n)) (definition_of P n) n = Inr []"
  by (induction ns) (auto simp: bindR_Inr_iff)

lemma refusals_none:
  assumes "refusals canon P svc purpose steps nodes amb shared dev = Inr []" and "n \<in> set steps"
  shows "node_refusals canon (if purpose \<noteq> PURPOSE_ACTIVATION then last_activation_frames P svc else None) nodes amb shared
     (dict_of dev (rn_item n)) (definition_of P n) n = Inr []"
proof -
  from assms(1) obtain es where "all_refusals canon P (if purpose \<noteq> PURPOSE_ACTIVATION then last_activation_frames P svc else None)
      nodes amb shared dev steps = Inr es" "dedup es = []"
    unfolding refusals_def by (auto simp only: bindR_Inr_iff sum.inject)
  then show ?thesis using all_refusals_each assms(2) by simp
qed

definition job_variables :: "resolution \<Rightarrow> path_node \<Rightarrow> dict" where
  \<comment> \<open>\<open>shared | device_variables[item_id]\<close>, the variables of a child job\<close>
  "job_variables r n = dict_update (rs_shared r) (dict_of (rs_device r) (rn_item n))"

definition stored_definition :: "plant_db \<Rightarrow> path_node \<Rightarrow> json" where
  \<comment> \<open>\<open>playbook.definition or {}\<close>\<close>
  "stored_definition P n = (let raw = definition_of P n in if truthy raw then raw else JDict [])"

lemma node_ready:
  assumes "resolve_provisioning canon number P svc purpose dry = Inr r" and "n \<in> set (rs_steps r)"
  obtains es st tokens where "computed_entries (stored_definition P n) = Some es"
    and "evaluate_all (JList es) (map_of (job_variables r n)) = Inr st" and "ev_errors st = []" and "ev_missing st = []"
    and "step_tokens canon (stored_definition P n) = Inr (tokens, [])"
    and "\<And>t. t \<in> set tokens \<Longrightarrow> unready (rs_nodes r) (rs_ambiguous r) n (declared_names es) (ev_values st)
           (dict_update (job_variables r n) (map (\<lambda>(k, x). (k, JInt x)) (ev_values st))) t = None"
    and "\<And>b. purpose \<noteq> PURPOSE_ACTIVATION \<Longrightarrow> last_activation_frames P svc = Some b \<Longrightarrow>
          port_fact_drift b n (dedup (map fst tokens @ (case computed_names (stored_definition P n) of None \<Rightarrow> [] | Some ns \<Rightarrow> ns)))
            (dict_update (job_variables r n) (map (\<lambda>(k, x). (k, JInt x)) (ev_values st))) (rs_nodes r) = []"
proof -
  let ?base = "if purpose \<noteq> PURPOSE_ACTIVATION then last_activation_frames P svc else None"
  let ?d = "stored_definition P n"
  obtain us where "refusals canon P svc purpose (rs_steps r) (rs_nodes r) (rs_ambiguous r) (rs_shared r) (rs_device r) = Inr []"
    using assms(1) by (rule resolve_elim)
  from refusals_none [OF this assms(2)]
  have k: "node_refusals canon ?base (rs_nodes r) (rs_ambiguous r) (rs_shared r)
     (dict_of (rs_device r) (rn_item n)) (definition_of P n) n = Inr []" .
  have d: "(if truthy (definition_of P n) then definition_of P n else JDict []) = ?d"
    and v: "dict_update (rs_shared r) (dict_of (rs_device r) (rn_item n)) = job_variables r n"
    by (simp_all add: stored_definition_def job_variables_def)
  note k = k [unfolded node_refusals_def Let_def d v]
  let ?es = "case computed_entries ?d of None \<Rightarrow> [] | Some es \<Rightarrow> es"
  from k obtain st where st: "evaluate_all (JList ?es) (map_of (job_variables r n)) = Inr st"
    by (cases "evaluate_all (JList ?es) (map_of (job_variables r n))") simp_all
  from k st obtain tokens malformed where tk: "step_tokens canon ?d = Inr (tokens, malformed)"
    by (cases "step_tokens canon ?d") auto
  let ?vars = "dict_update (job_variables r n) (map (\<lambda>(k, x). (k, JInt x)) (ev_values st))"
  from k st tk have e: "(if computed_entries ?d = None then [COMPUTE_BLOCK (rn_item n)] else [])
      @ map (\<lambda>(c, k). COMPUTE_FAILED c k (rn_item n)) (ev_errors st)
      @ map (\<lambda>m. explain (rs_nodes r) (rs_ambiguous r) m n) (ev_missing st)
      @ map (\<lambda>raw. UNRESOLVED_TOKEN raw Malformed_token (Some (rn_item n))) malformed
      @ List.map_filter (unready (rs_nodes r) (rs_ambiguous r) n (declared_names ?es) (ev_values st) ?vars) tokens
      @ (case ?base of None \<Rightarrow> [] | Some b \<Rightarrow> port_fact_drift b n
           (dedup (map fst tokens @ (case computed_names ?d of None \<Rightarrow> [] | Some ns \<Rightarrow> ns))) ?vars (rs_nodes r)) = []"
    by simp
  then obtain es where es: "computed_entries ?d = Some es" by (cases "computed_entries ?d") simp_all
  have unready: "unready (rs_nodes r) (rs_ambiguous r) n (declared_names es) (ev_values st) ?vars t = None" if "t \<in> set tokens" for t
    using e es that by (auto simp: List.map_filter_def filter_empty_conv)
  have m: "malformed = []" "ev_errors st = []" "ev_missing st = []" using e by simp_all
  have drift: "port_fact_drift b n (dedup (map fst tokens @ (case computed_names ?d of None \<Rightarrow> [] | Some ns \<Rightarrow> ns)))
            ?vars (rs_nodes r) = []" if "purpose \<noteq> PURPOSE_ACTIVATION" and "last_activation_frames P svc = Some b" for b
  proof -
    have "?base = Some b" using that by simp
    with e show ?thesis by (simp only: append_is_Nil_conv option.case)
  qed
  show thesis
    by (rule that [OF es _ m(2,3) _ unready drift]) (use es st tk m in \<open>simp_all\<close>)
qed

section \<open>What the resolver accepts, the renderer can render\<close>

definition rendered_texts :: "(json \<Rightarrow> json option) \<Rightarrow> json \<Rightarrow> def_exn + string list" where
  \<comment> \<open>every string of the steps of all phases and of the outputs\<close>
  "rendered_texts canon definition =
     bindR (rendered_definition canon definition) (\<lambda>d.
     bindR (all_fields d PROVISIONING_PHASES) (\<lambda>fs. Inr (concat (map strings fs))))"

lemma step_tokens_texts:
  assumes "step_tokens canon d = Inr (tokens, malformed)" and "rendered_texts canon d = Inr txts"
  shows "tokens = concat (map text_tokens txts)" and "malformed = concat (map text_malformed txts)"
  using assms by (auto simp: step_tokens_def rendered_texts_def bindR_Inr_iff Let_def)

definition resolver_owns :: "string \<Rightarrow> bool" where
  "resolver_owns name \<longleftrightarrow> namespace_of name \<in> set NAMESPACES"

lemma map_of_json_values: "map_of (rev (map (\<lambda>(k, x). (k, JInt x)) vs)) k = map_option JInt (map_of (rev vs) k)"
  by (simp add: rev_map map_of_map comp_def flip: case_prod_beta)

lemma resolve_variables_elim:
  assumes "resolve_variables d provided = Inr (vars, missing)"
  obtains r m st where "merge_declared provided (as_list (jget ''variables'' d)) ([], []) = Inr (r, m)"
    and "evaluate_all (jget ''computed'' d) (map_of (fold pass_through provided r)) = Inr st"
    and "vars = dict_update (fold pass_through provided r) (map (\<lambda>(k, v). (k, JInt v)) (ev_values st))"
    and "missing = m @ map MissingKey (ev_missing st) @ map (\<lambda>(c, k). ComputedError k c) (ev_errors st)"
proof -
  from assms obtain r m where md: "merge_declared provided (as_list (jget ''variables'' d)) ([], []) = Inr (r, m)"
    and ca: "(case evaluate_all (jget ''computed'' d) (map_of (fold pass_through provided r)) of
             Inl e \<Rightarrow> Inl (EvalExn e)
           | Inr st \<Rightarrow>
               Inr (dict_update (fold pass_through provided r) (map (\<lambda>(k, v). (k, JInt v)) (ev_values st)),
                    m @ map MissingKey (ev_missing st)
                      @ map (\<lambda>(c, k). ComputedError k c) (ev_errors st))) = Inr (vars, missing)"
    unfolding resolve_variables_def Let_def by (fastforce simp: bindR_Inr_iff)
  then show thesis
    by (cases "evaluate_all (jget ''computed'' d) (map_of (fold pass_through provided r))") (auto intro: that)
qed

lemma computed_block:
  assumes "computed_entries d = Some es"
  shows "evaluate_all (jget ''computed'' d) vars = evaluate_all (JList es) vars"
  using assms by (auto simp: computed_entries_def or_empty_def Let_def evaluate_all_def split: json.splits if_splits)
    (cases "jget ''computed'' d"; simp)+

lemma own_keys_job: "resolve_provisioning canon number P svc purpose dry = Inr r \<Longrightarrow> own_keys (job_variables r n)"
proof -
  assume a: "resolve_provisioning canon number P svc purpose dry = Inr r"
  then obtain us where d: "rs_device r = map (\<lambda>n. (rn_item n, build_device_frame n ''device'')) (rs_steps r)"
    and s: "shared_frame number P svc purpose dry (rs_path r) = Inr (rs_nodes r, rs_ambiguous r, rs_shared r)"
    by (rule resolve_elim)
  have "own_keys (build_device_frame m ''device'')" for m by (intro keys_in_frame frame_keys)
  then have "own_keys (dict_of (rs_device r) i)" for i
    by (auto simp: dict_of_def d keys_in_def dest!: map_of_SomeD split: option.splits)
  then show ?thesis unfolding job_variables_def by (intro keys_in_dict_update own_keys_shared [OF s])
qed

lemma merge_declared_missing:
  "merge_declared provided ds (r, m) = Inr (r', m') \<Longrightarrow> x \<in> set m' \<Longrightarrow> x \<notin> set m \<Longrightarrow>
     \<exists>var k. var \<in> set ds \<and> jget ''key'' var = JStr k \<and> truthy (jget ''required'' var) \<and> x = MissingKey k"
proof (induction ds arbitrary: r m)
  case (Cons d ds)
  from Cons.prems(1) obtain key where key: "jget ''key'' d = JStr key" by (auto split: json.splits)
  with Cons.prems(1) obtain r1 m1 where rec: "merge_declared provided ds (r1, m1) = Inr (r', m')"
    and "m1 = m \<or> (m1 = m @ [MissingKey key] \<and> truthy (jget ''required'' d))"
    by (auto split: if_splits)
  then consider "x \<notin> set m1" | "x = MissingKey key" "truthy (jget ''required'' d)"
    using Cons.prems(3) by (cases "x = MissingKey key") auto
  then show ?case
  proof cases
    case 1
    then show ?thesis using Cons.IH [OF rec Cons.prems(2)] by auto
  next
    case 2
    then show ?thesis using key by auto
  qed
qed simp

definition required_input :: "json \<Rightarrow> missing_item \<Rightarrow> bool" where
  "required_input definition x \<longleftrightarrow>
     list_ex (\<lambda>var. truthy (jget ''required'' var) \<and> (case jget ''key'' var of JStr k \<Rightarrow> x = MissingKey k | _ \<Rightarrow> False))
       (as_list (jget ''variables'' definition))"

lemma same_evaluation:
  assumes "computed_entries d = Some es" and "evaluate_all (JList es) (map_of provided) = Inr st"
    and "merge_declared provided ds ([], []) = Inr (r, m)"
    and "evaluate_all (jget ''computed'' d) (map_of (fold pass_through provided r)) = Inr st'"
  shows "st' = st"
  using evaluate_all_cong [OF resolved_agree [OF assms(3)], of "JList es"] computed_block [OF assms(1)] assms(2,4) by simp


section \<open>The path is the way of the CPE to the root\<close>

lemma with_port_simps [simp]:
  "rn_item (with_port P c is lo n) = rn_item n" "rn_position (with_port P c is lo n) = rn_position n"
  by (auto simp: with_port_def split: option.splits)

lemma attach_from_simps [simp]:
  "map rn_item (attach_from P c its lo ns) = map rn_item ns"
  "map rn_position (attach_from P c its lo ns) = map rn_position ns"
  by (induction ns arbitrary: lo) auto

lemma attach_ports_simps [simp]:
  "map rn_item (attach_ports P c ns) = map rn_item ns" "map rn_position (attach_ports P c ns) = map rn_position ns"
  by (cases ns; simp add: attach_ports_def)+

lemma node_from_item_simps [simp]:
  "rn_item (node_from_item P u i purpose) = nd_id u" "rn_position (node_from_item P u i purpose) = i"
  by (simp_all add: node_from_item_def Let_def split: prod.splits)

lemma with_version_simps [simp]:
  "rn_item (with_version P n) = rn_item n" "rn_position (with_version P n) = rn_position n"
  "is_step (with_version P n) = is_step n" "playbook_of P (with_version P n) = playbook_of P n"
  by (simp_all add: with_version_def is_step_def playbook_of_def)

lemma path_nodes_simps:
  "map rn_item (path_nodes P svc purpose us) = map nd_id us"
  "map rn_position (path_nodes P svc purpose us) = [0..<length us]"
proof -
  have s: "map (\<lambda>x. nd_id (snd x)) (enumerate k us) = map nd_id us" "map fst (enumerate k us) = [k..<k + length us]" for k
    by (simp_all add: enumerate_eq_zip map_snd_zip_take flip: map_map [of nd_id snd, unfolded comp_def])
  show "map rn_item (path_nodes P svc purpose us) = map nd_id us" "map rn_position (path_nodes P svc purpose us) = [0..<length us]"
    using s [of 0] by (simp_all add: path_nodes_def case_prod_beta comp_def)
qed

lemma map_filter_found:
  "(\<And>r. r \<in> set rows \<Longrightarrow> find_by nd_id (nd_id r) us \<noteq> None) \<Longrightarrow>
     map nd_id (List.map_filter (\<lambda>r. find_by nd_id (nd_id r) us) rows) = map nd_id rows"
proof (induction rows)
  case (Cons r rows)
  then obtain u where u: "find_by nd_id (nd_id r) us = Some u" by (metis list.set_intros(1) not_Some_eq)
  moreover have "nd_id u = nd_id r" using find_by_SomeD [OF u] by simp
  moreover have "map nd_id (List.map_filter (\<lambda>r. find_by nd_id (nd_id r) us) rows) = map nd_id rows"
    by (rule Cons.IH) (use Cons.prems in auto)
  ultimately show ?case by (simp add: List.map_filter_simps)
qed (simp add: List.map_filter_simps)

definition net_of :: "plant_db \<Rightarrow> net" where
  "net_of P = map node.truncate (rd_units P)"

lemma truncate_id [simp]: "nd_id (node.truncate u) = nd_id u" "nd_company (node.truncate u) = nd_company u" "nd_attached (node.truncate u) = nd_attached u"
  by (simp_all add: node.truncate_def)

lemma path_units_path:
  assumes us: "path_units P svc = Inr us" and ok: "graph_ok (net_of P)"
  shows "\<exists>n path. is_path (net_of P) n path \<and> cs_cpe svc = Some (nd_id n) \<and> map nd_id us = map nd_id path
     \<and> nd_company ` set path = {cs_company svc} \<and> length path \<le> 32 \<and> n \<in> set (net_of P)"
proof -
  from us obtain cpe rows where cpe: "cs_cpe svc = Some cpe" and rows: "resolve_path (net_of P) cpe (cs_company svc) = Inr rows"
    and k: "List.map_filter (\<lambda>r. find_by nd_id (nd_id r) (rd_units P)) rows = us" "us \<noteq> []"
  proof (cases "cs_cpe svc")
    case (Some cpe)
    note cpe = this
    with us show ?thesis
    proof (cases "resolve_path (net_of P) cpe (cs_company svc)")
      case (Inr rows)
      with us cpe show ?thesis
        by (cases "List.map_filter (\<lambda>r. find_by nd_id (nd_id r) (rd_units P)) rows")
          (auto simp: path_units_def net_of_def guardR_Inr_iff intro: that)
    qed (simp add: path_units_def net_of_def)
  qed (use us in \<open>simp add: path_units_def\<close>)
  have "rows \<noteq> []" using k by (auto simp: List.map_filter_simps)
  then have "ancestor_cte (net_of P) cpe (cs_company svc) \<noteq> []"
    using rows by (auto simp: resolve_path_def Let_def guardR_Inr_iff ordered_items_def List.map_filter_simps)
  then obtain n where n: "owned (net_of P) (cs_company svc) cpe = Some n" "nd_attached n"
    by (auto simp: ancestor_cte_def split: option.splits if_splits)
  then have g: "get_node cpe (net_of P) = Some n" and c: "nd_company n = cs_company svc"
    by (auto simp: owned_def split: option.splits if_splits)
  note gn = get_nodeD [OF g]
  from path_exists [OF ok] gn obtain path where p: "is_path (net_of P) n path" by blast
  have rp: "rows = path" "length path \<le> 32"
    using resolve_path_eq [OF ok _ n(2) p] rows gn c by (auto split: if_splits)
  have "set path \<subseteq> set (net_of P)" and co: "nd_company ` set path = {nd_company n}"
    using path_in [OF ok _ p] gn by auto
  then have "find_by nd_id (nd_id m) (rd_units P) \<noteq> None" if "m \<in> set rows" for m
  proof -
    have "m \<in> set (net_of P)" using that rp \<open>set path \<subseteq> set (net_of P)\<close> by auto
    then obtain u where "u \<in> set (rd_units P)" "m = node.truncate u" by (auto simp: net_of_def)
    then show ?thesis using find_by_None [of nd_id "nd_id m" "rd_units P"] by auto
  qed
  then have "map nd_id us = map nd_id path" using map_filter_found [of rows "rd_units P"] k rp by simp
  with p cpe gn co c rp show ?thesis by (intro exI [of _ n] exI [of _ path]) simp
qed

definition playbook_ready :: "plant_db \<Rightarrow> client_service \<Rightarrow> path_node \<Rightarrow> bool" where
  "playbook_ready P svc n =
     (case playbook_of P n of
        None \<Rightarrow> False
      | Some p \<Rightarrow> bp_active p \<and> pb_company p = cs_company svc \<and> rn_version n = Some (pb_version p))"

text \<open>
  C6. On a plant grown under the database's guards, the path of a resolution is the whole way
  from the service's CPE to the root, in that order and counted from zero, all of the service's company
  and of at most 32 devices; its steps are, in that order, the devices that are not passive and have a
  playbook; and every step's playbook is active, of that company and taken at its version of now.
\<close>

theorem resolution_walks_the_plant:
  assumes "grows (net_of P)" and "resolve_provisioning canon number P svc purpose dry = Inr r"
  shows "(\<exists>n path. is_path (net_of P) n path \<and> cs_cpe svc = Some (nd_id n) \<and> nd_company ` set path = {cs_company svc} \<and>
      length path \<le> 32 \<and> map rn_item (rs_path r) = map nd_id path \<and> map rn_position (rs_path r) = [0..<length path]) \<and>
    rs_steps r = filter is_step (rs_path r) \<and> list_all (playbook_ready P svc) (rs_steps r)"
proof -
  obtain us where us: "path_units P svc = Inr us" and path: "rs_path r = map (with_version P) (path_nodes P svc purpose us)"
    and steps: "rs_steps r = steps_of (rs_path r)" and u: "list_all (playbook_usable P svc) (steps_of (path_nodes P svc purpose us))"
    using assms(2) by (rule resolve_elim)
  obtain n p where p: "is_path (net_of P) n p" "cs_cpe svc = Some (nd_id n)" "map nd_id us = map nd_id p"
    "nd_company ` set p = {cs_company svc}" "length p \<le> 32"
    using path_units_path [OF us grows_graph_ok [OF assms(1)]] by blast
  have "length us = length p" using arg_cong [OF p(3), of length] by simp
  then have "map rn_item (rs_path r) = map nd_id p" "map rn_position (rs_path r) = [0..<length p]"
    using path_nodes_simps p(3) by (simp_all add: path comp_def)
  moreover have "playbook_ready P svc m" if "m \<in> set (rs_steps r)" for m
  proof -
    from that obtain k where k: "k \<in> set (path_nodes P svc purpose us)" "is_step k" "m = with_version P k"
      by (auto simp: steps path steps_of_def)
    then have "playbook_usable P svc k" using u by (auto simp: steps_of_def list_all_iff)
    then obtain b where "playbook_of P k = Some b" "bp_active b" "pb_company b = cs_company svc"
      by (auto simp: playbook_usable_def split: option.splits)
    with k show ?thesis by (simp add: playbook_ready_def) (simp add: with_version_def)
  qed
  ultimately show ?thesis using p steps by (auto simp: steps_of_def list_all_iff)
qed

section \<open>The names mean the devices they say\<close>

definition path_key_of :: "string \<Rightarrow> string \<Rightarrow> string" where
  "path_key_of k a = ''path.'' @ k @ ''.'' @ a"

lemma path_key_of_inj:
  "CHR ''.'' \<notin> set k \<Longrightarrow> CHR ''.'' \<notin> set k' \<Longrightarrow> path_key_of k a = path_key_of k' a' \<longleftrightarrow> k = k' \<and> a = a'"
proof -
  have "k @ CHR ''.'' # a = k' @ CHR ''.'' # a' \<Longrightarrow> CHR ''.'' \<notin> set k \<Longrightarrow> CHR ''.'' \<notin> set k' \<Longrightarrow> k = k' \<and> a = a'"
    by (induction k arbitrary: k'; case_tac k') auto
  then show "CHR ''.'' \<notin> set k \<Longrightarrow> CHR ''.'' \<notin> set k' \<Longrightarrow> path_key_of k a = path_key_of k' a' \<longleftrightarrow> k = k' \<and> a = a'"
    by (auto simp: path_key_of_def)
qed

lemma distinct_frame_pairs: "distinct (map fst (frame_pairs n))"
  by (simp add: frame_pairs_def port_pairs_def List.map_filter_simps split: option.splits)

lemma map_of_frame: "map_of (build_device_frame n pre) (pre @ ''.'' @ a) = map_of (frame_pairs n) a"
proof -
  have "map_of (map (\<lambda>(k, v). (pre @ ''.'' @ k, v)) xs) (pre @ ''.'' @ a) = map_of xs a" for xs :: "(string \<times> json) list"
    by (induction xs) auto
  then show ?thesis by (simp add: build_device_frame_def)
qed

lemma map_of_frame_other: "\<forall>a. x \<noteq> pre @ ''.'' @ a \<Longrightarrow> map_of (build_device_frame n pre) x = None"
  by (auto simp: build_device_frame_def map_of_eq_None_iff)

lemma map_of_rev_distinct: "distinct (map fst xs) \<Longrightarrow> map_of (rev xs) = map_of xs"
proof (induction xs)
  case (Cons p xs)
  then have "map_of xs (fst p) = None" by (simp add: map_of_eq_None_iff)
  with Cons show ?case by (auto simp: fun_eq_iff map_add_def split: option.splits)
qed simp

lemma map_of_rev_frame: "map_of (rev (build_device_frame n pre)) = map_of (build_device_frame n pre)"
proof -
  have "map fst (build_device_frame n pre) = map (\<lambda>k. pre @ ''.'' @ k) (map fst (frame_pairs n))"
    by (simp add: build_device_frame_def case_prod_beta comp_def)
  then have "distinct (map fst (build_device_frame n pre))"
    using distinct_frame_pairs [of n] by (simp add: distinct_map inj_on_def)
  then show ?thesis by (rule map_of_rev_distinct)
qed

lemma map_of_put_frame:
  "map_of (put_frame n pre d) (pre @ ''.'' @ a) = (case map_of (frame_pairs n) a of Some v \<Rightarrow> Some v | None \<Rightarrow> map_of d (pre @ ''.'' @ a))"
  by (simp add: put_frame_def map_of_dict_update map_of_rev_frame map_of_frame map_add_def del: append_Cons append.simps split: option.splits)

lemma map_of_put_frame_other: "\<forall>a. x \<noteq> pre @ ''.'' @ a \<Longrightarrow> map_of (put_frame n pre d) x = map_of d x"
  using map_of_frame_other [of x pre n]
  by (simp add: put_frame_def map_of_dict_update map_of_rev_frame map_add_def)

text \<open>The shared frame has, for every segment, the frame of the node the segments map gives it.\<close>

definition frames_of :: "segments_map \<Rightarrow> dict \<Rightarrow> bool" where
  "frames_of nodes shared \<longleftrightarrow>
     (\<forall>k a. CHR ''.'' \<notin> set k \<longrightarrow> map_of shared (path_key_of k a) = Option.bind (map_of nodes k) (\<lambda>n. map_of (frame_pairs n) a))"

lemma map_of_snoc: "map_of (xs @ [(k, v)]) x = (case map_of xs x of None \<Rightarrow> if x = k then Some v else None | Some y \<Rightarrow> Some y)"
  by (induction xs) auto

lemma frames_of_put:
  assumes "frames_of nodes shared" and "map_of nodes key = None" and "CHR ''.'' \<notin> set key"
  shows "frames_of (nodes @ [(key, n)]) (put_frame n (''path.'' @ key) shared)"
proof -
  have "map_of (put_frame n (''path.'' @ key) shared) (path_key_of k a) = Option.bind (map_of (nodes @ [(key, n)]) k) (\<lambda>n. map_of (frame_pairs n) a)"
    if k: "CHR ''.'' \<notin> set k" for k a
  proof (cases "k = key")
    case True
    have e: "path_key_of key a = (''path.'' @ key) @ ''.'' @ a" by (simp add: path_key_of_def)
    have "map_of shared (path_key_of key a) = None" using assms by (simp add: frames_of_def)
    then have "map_of (put_frame n (''path.'' @ key) shared) (path_key_of key a) = map_of (frame_pairs n) a"
      unfolding e by (simp only: map_of_put_frame split: option.splits) simp
    with True assms(2) show ?thesis by (simp add: map_of_snoc del: map_of_append)
  next
    case False
    have "path_key_of k a \<noteq> (''path.'' @ key) @ ''.'' @ b" for b
      using path_key_of_inj [OF k assms(3), of a b] False by (simp add: path_key_of_def)
    then have "map_of (put_frame n (''path.'' @ key) shared) (path_key_of k a) = map_of shared (path_key_of k a)"
      by (intro map_of_put_frame_other) blast
    then show ?thesis using assms(1) k False by (simp add: frames_of_def map_of_snoc del: map_of_append split: option.splits)
  qed
  then show ?thesis by (simp add: frames_of_def)
qed

lemma referenceable_no_dot: "referenceable k \<Longrightarrow> CHR ''.'' \<notin> set k"
proof -
  have w: "\<not> is_word_char (CHR ''.'')" "\<not> is_lower (CHR ''.'')" by (simp_all add: is_word_char_def is_lower_def is_digit_def)
  have seg: "is_segment s \<Longrightarrow> CHR ''.'' \<notin> set s" for s using w by (cases s) (auto simp: list_all_iff)
  assume "referenceable k"
  then consider "is_segment k" | "k \<noteq> []" "last k = CHR 0x0A" "is_segment (butlast k)" by (auto simp: referenceable_def)
  then show ?thesis
  proof cases
    case 2
    then have "set k = set (butlast k) \<union> {CHR 0x0A}" by (metis append_butlast_last_id set_append list.simps(15) empty_set)
    with seg [OF 2(3)] show ?thesis by simp
  qed (rule seg)
qed

lemma category_frames_of:
  "frames_of (fst st) (snd st) \<Longrightarrow> frames_of (fst (category_frames ns st)) (snd (category_frames ns st))"
proof (induction ns st rule: category_frames.induct)
  case (2 n ns nodes shared)
  show ?case
  proof (cases "category_text n = [] \<or> map_of nodes (category_text n) \<noteq> None \<or> \<not> referenceable (category_text n)")
    case True
    with 2 show ?thesis by (simp add: Let_def)
  next
    case False
    then have "frames_of (nodes @ [(category_text n, n)]) (put_frame n (''path.'' @ category_text n) shared)"
      using "2.prems" by (intro frames_of_put referenceable_no_dot) auto
    with 2 False show ?thesis by (simp add: Let_def)
  qed
qed simp

lemma map_of_category_frames:
  "map_of (fst (category_frames ns (nodes, shared))) k =
     (case map_of nodes k of
        Some n \<Rightarrow> Some n
      | None \<Rightarrow> if k \<noteq> [] \<and> referenceable k then find (\<lambda>n. category_text n = k) ns else None)"
  by (induction ns arbitrary: nodes shared) (auto simp: Let_def map_of_snoc simp del: map_of_append split: option.splits)

lemma roles_on_props: "distinct (roles_on path)" "role \<in> set (roles_on path) \<Longrightarrow> CHR ''.'' \<notin> set role \<and> holders_of path role \<noteq> []"
  by (auto simp: roles_on_def holders_of_def has_role_def filter_empty_conv dest: referenceable_no_dot)

lemma role_frames_of:
  "role_frames path roles (nodes, amb, shared) = Inr (nodes', amb', shared') \<Longrightarrow> distinct roles \<Longrightarrow>
     (\<And>role. role \<in> set roles \<Longrightarrow> CHR ''.'' \<notin> set role \<and> holders_of path role \<noteq> []) \<Longrightarrow> frames_of nodes shared \<Longrightarrow>
     frames_of nodes' shared' \<and>
     map_of nodes' k = (case map_of nodes k of Some n \<Rightarrow> Some n
       | None \<Rightarrow> if k \<in> set roles then (case holders_of path k of [n] \<Rightarrow> Some n | _ \<Rightarrow> None) else None)"
proof (induction roles arbitrary: nodes amb shared)
  case (Cons role roles)
  let ?hs = "holders_of path role"
  from Cons.prems(1) have new: "map_of nodes role = None" by (auto simp: Let_def split: if_splits)
  have role: "CHR ''.'' \<notin> set role" "?hs \<noteq> []" using Cons.prems(3) by auto
  show ?case
  proof (cases "1 < length ?hs")
    case True
    with Cons.prems(1) new have rec: "role_frames path roles (nodes, amb @ [(role, map rn_item ?hs)], shared) = Inr (nodes', amb', shared')"
      by (simp add: Let_def)
    have "(case ?hs of [n] \<Rightarrow> Some n | _ \<Rightarrow> None) = None" using True by (cases ?hs; cases "tl ?hs") auto
    with Cons.IH [OF rec] Cons.prems(2-4) new show ?thesis by (auto split: option.splits)
  next
    case False
    with role obtain n where hs: "?hs = [n]" by (cases ?hs; cases "tl ?hs") auto
    with Cons.prems(1) new have rec: "role_frames path roles (nodes @ [(role, n)], amb, put_frame n (''path.'' @ role) shared) = Inr (nodes', amb', shared')"
      by (simp add: Let_def)
    have "frames_of (nodes @ [(role, n)]) (put_frame n (''path.'' @ role) shared)"
      by (rule frames_of_put [OF Cons.prems(4) new role(1)])
    with Cons.IH [OF rec] Cons.prems(2,3) hs new show ?thesis
      by (auto simp: map_of_snoc simp del: map_of_append split: option.splits)
  qed
qed (auto split: option.splits)

definition meant :: "path_node list \<Rightarrow> string \<Rightarrow> path_node option" where
  \<comment> \<open>the device a path segment names: the nearest of a category, or the only holder of a role\<close>
  "meant path k =
     (case find (\<lambda>n. category_text n = k) path of
        Some n \<Rightarrow> Some n
      | None \<Rightarrow> (case filter (\<lambda>n. role_text n = k) path of [n] \<Rightarrow> Some n | _ \<Rightarrow> None))"

lemma holders_segment: "is_segment k \<Longrightarrow> holders_of path k = filter (\<lambda>n. role_text n = k) path"
  by (auto simp: holders_of_def has_role_def referenceable_def intro!: filter_cong)

lemma frames_of_base:
  assumes "old_cpe_frame P svc purpose dry n (put_frame n ''cpe'' (fst (base_frame number svc))) = Inr s"
  shows "frames_of [] s"
proof -
  have "off_path (path_key_of k a) = False" for k a by (simp add: off_path_def path_key_of_def)
  then have "map_of s (path_key_of k a) = None" for k a
    using off.before_path_keys [OF assms] by (force simp: keys_in_def list_all_iff map_of_eq_None_iff)
  then show ?thesis by (simp add: frames_of_def)
qed

lemma path_frames:
  assumes "shared_frame number P svc purpose dry path = Inr (nodes, amb, shared)" and k: "is_segment k"
  shows "map_of shared (path_key_of k a) = Option.bind (meant path k) (\<lambda>n. map_of (frame_pairs n) a)"
proof -
  obtain s ns s' where o: "old_cpe_frame P svc purpose dry (hd path) (put_frame (hd path) ''cpe'' (fst (base_frame number svc))) = Inr s"
    and c: "category_frames path ([], s) = (ns, s')" and r: "role_frames path (roles_on path) (ns, [], s') = Inr (nodes, amb, shared)"
    using assms(1) by (rule shared_frame_elim)
  have f: "frames_of ns s'" using category_frames_of [of "([], s)" path] frames_of_base [OF o] c by simp
  have ref: "referenceable k" "k \<noteq> []" using k by (auto simp: referenceable_def)
  have cat: "map_of ns k = find (\<lambda>n. category_text n = k) path"
    using map_of_category_frames [of path "[]" s k] c ref by simp
  have on: "k \<in> set (roles_on path) \<or> filter (\<lambda>n. role_text n = k) path = []"
    using ref by (auto simp: roles_on_def has_role_def filter_empty_conv)
  from role_frames_of [OF r roles_on_props(1) roles_on_props(2) f, of k]
  have fr: "frames_of nodes shared" and nk: "map_of nodes k = (case map_of ns k of Some n \<Rightarrow> Some n
       | None \<Rightarrow> if k \<in> set (roles_on path) then (case holders_of path k of [n] \<Rightarrow> Some n | _ \<Rightarrow> None) else None)"
    by auto
  have "map_of nodes k = meant path k"
    using on unfolding nk cat meant_def holders_segment [OF k] by (auto split: option.splits)
  with fr referenceable_no_dot [OF ref(1)] show ?thesis by (simp add: frames_of_def)
qed

lemma cpe_frame_kept:
  assumes "role_frames path roles (nodes, amb, d) = Inr (nodes', amb', d')" and "\<not> prefix ''path.'' x"
  shows "map_of d' x = map_of d x"
  using assms
proof (induction roles arbitrary: nodes amb d)
  case (Cons role roles)
  have "map_of (put_frame n (''path.'' @ role) d) x = map_of d x" for n
    using Cons.prems(2) by (intro map_of_put_frame_other) auto
  with Cons show ?case by (auto simp: Let_def split: if_splits)
qed simp

lemma category_frame_kept: "\<not> prefix ''path.'' x \<Longrightarrow> map_of (snd (category_frames ns st)) x = map_of (snd st) x"
proof (induction ns st rule: category_frames.induct)
  case (2 n ns nodes d)
  have "map_of (put_frame n (''path.'' @ key) d) x = map_of d x" for key
    using "2.prems" by (intro map_of_put_frame_other) auto
  with 2 show ?case by (auto simp: Let_def)
qed simp

lemma cpe_frame_shared:
  assumes "shared_frame number P svc purpose dry path = Inr (nodes, amb, shared)" and "map_of (frame_pairs (hd path)) a = Some v"
  shows "map_of shared (''cpe.'' @ a) = Some v"
proof -
  obtain s ns s' where o: "old_cpe_frame P svc purpose dry (hd path) (put_frame (hd path) ''cpe'' (fst (base_frame number svc))) = Inr s"
    and c: "category_frames path ([], s) = (ns, s')" and r: "role_frames path (roles_on path) (ns, [], s') = Inr (nodes, amb, shared)"
    using assms(1) by (rule shared_frame_elim)
  let ?d = "put_frame (hd path) ''cpe'' (fst (base_frame number svc))"
  have np: "\<not> prefix ''path.'' (''cpe.'' @ a)" by simp
  have "map_of s (''cpe.'' @ a) = map_of ?d (''cpe.'' @ a)"
  proof -
    have "map_of (put_frame n ''old_cpe'' ?d) (''cpe.'' @ a) = map_of ?d (''cpe.'' @ a)" for n
      by (intro map_of_put_frame_other) simp
    with o show ?thesis by (auto simp: old_cpe_frame_def simp del: append_Cons split: if_splits option.splits)
  qed
  moreover have "map_of ?d (''cpe.'' @ a) = Some v"
    using map_of_put_frame [of "hd path" "''cpe''" "fst (base_frame number svc)" a] assms(2) by simp
  moreover have "map_of s' (''cpe.'' @ a) = map_of s (''cpe.'' @ a)" using category_frame_kept [OF np, of path "([], s)"] c by simp
  ultimately show ?thesis using cpe_frame_kept [OF r np] by simp
qed

lemma path_items_distinct:
  assumes "graph_ok (net_of P)" and "resolve_provisioning canon number P svc purpose dry = Inr r"
  shows "distinct (map rn_item (rs_path r))"
proof -
  obtain us where us: "path_units P svc = Inr us" and path: "rs_path r = map (with_version P) (path_nodes P svc purpose us)"
    using assms(2) by (rule resolve_elim)
  obtain n p where p: "is_path (net_of P) n p" "map nd_id us = map nd_id p" "n \<in> set (net_of P)"
    using path_units_path [OF us assms(1)] by blast
  then show ?thesis using path_distinct [OF assms(1) p(3,1)] path_nodes_simps by (simp add: path comp_def)
qed

text \<open>
  C5. The names a playbook is rendered with mean the devices they say: \<open>device\<close> is the device the
  playbook runs on, \<open>cpe\<close> the first of the path, and \<open>path.k\<close> the device of category \<open>k\<close> nearest to
  the CPE or, when there is none, the only device whose type has the role \<open>k\<close>; for a segment that no device
  or more than one could mean there are no such names.
\<close>

theorem names_mean_devices:
  assumes "grows (net_of P)" and "resolve_provisioning canon number P svc purpose dry = Inr r" and "n \<in> set (rs_steps r)"
    and "is_segment k"
  shows "map_of (rs_shared r) (path_key_of k a) = Option.bind (meant (rs_path r) k) (\<lambda>m. map_of (frame_pairs m) a) \<and>
    map_of (job_variables r n) (path_key_of k a) = map_of (rs_shared r) (path_key_of k a) \<and>
    (case map_of (frame_pairs n) a of None \<Rightarrow> True | Some v \<Rightarrow> map_of (job_variables r n) (''device.'' @ a) = Some v) \<and>
    (case map_of (frame_pairs (hd (rs_path r))) a of None \<Rightarrow> True | Some v \<Rightarrow> map_of (rs_shared r) (''cpe.'' @ a) = Some v)"
proof -
  have steps: "rs_steps r = steps_of (rs_path r)"
    and dev: "rs_device r = map (\<lambda>n. (rn_item n, build_device_frame n ''device'')) (rs_steps r)"
    and sh: "shared_frame number P svc purpose dry (rs_path r) = Inr (rs_nodes r, rs_ambiguous r, rs_shared r)"
    by (rule resolve_elim [OF assms(2)], assumption)+
  have "distinct (map rn_item (rs_steps r))"
    using path_items_distinct [OF grows_graph_ok [OF assms(1)] assms(2)] unfolding steps steps_of_def by (rule distinct_map_filter)
  then have "map_of (rs_device r) (rn_item n) = Some (build_device_frame n ''device'')"
    using assms(3) by (intro map_of_is_SomeI) (auto simp: dev comp_def)
  then have own: "dict_of (rs_device r) (rn_item n) = build_device_frame n ''device''" by (simp add: dict_of_def)
  have jv: "job_variables r n = put_frame n ''device'' (rs_shared r)" by (simp add: job_variables_def own put_frame_def)
  have "map_of (job_variables r n) (path_key_of k a) = map_of (rs_shared r) (path_key_of k a)"
    unfolding jv by (intro map_of_put_frame_other) (simp add: path_key_of_def)
  moreover have "map_of (job_variables r n) (''device.'' @ a) = Some v" if "map_of (frame_pairs n) a = Some v" for v
    using map_of_put_frame [of n "''device''" "rs_shared r" a] that by (simp add: jv)
  moreover note path_frames [OF sh assms(4), of a] cpe_frame_shared [OF sh]
  ultimately show ?thesis by (auto split: option.splits)
qed

section \<open>The ports are those of the activation\<close>

definition activated_value :: "frames \<Rightarrow> path_node \<Rightarrow> string \<Rightarrow> json" where
  \<comment> \<open>what the last activation knew\<close>
  "activated_value b n name = dget name (if prefix ''device.'' name then dict_of (fr_device b) (rn_item n) else fr_shared b)"

definition read_by :: "(json \<Rightarrow> json option) \<Rightarrow> json \<Rightarrow> string \<Rightarrow> bool" where
  \<comment> \<open>a token of a rendered text, or an operand of the computed block\<close>
  "read_by canon definition name =
     ((case step_tokens canon definition of Inl e \<Rightarrow> False | Inr (tokens, malformed) \<Rightarrow> list_ex (\<lambda>t. fst t = name) tokens) \<or>
      (case computed_names definition of None \<Rightarrow> False | Some ns \<Rightarrow> name \<in> set ns))"

lemma port_token_namespace: "is_port_token name \<Longrightarrow> namespace_of name \<in> set [''device'', ''path'']"
  by (simp add: is_port_token_def namespace_of_def Let_def)

lemma own_value_kept:
  assumes "evaluate_all c vars = Inr st" and "\<not> prefix ''computed.'' name"
  shows "dget name (dict_update p (map (\<lambda>(k, x). (k, JInt x)) (ev_values st))) = dget name p"
proof -
  have "map_of (ev_values st) name = None" using evaluate_all_keys [OF assms(1)] assms(2) by (cases "map_of (ev_values st) name") auto
  then have "map_of (rev (ev_values st)) name = None" by (simp add: map_of_eq_None_iff)
  then show ?thesis by (simp add: dget_def map_of_dict_update map_of_json_values map_add_def)
qed

text \<open>
  C7. After an activation, a run for any other purpose is given the ports the devices were
  configured with: every port a step's playbook reads, in a text or in its computed block, and that the
  last successful activation knew, has for that step the value it had then, or the service does not resolve.
\<close>

theorem ports_as_activated:
  assumes "resolve_provisioning canon number P svc purpose dry = Inr r" and "n \<in> set (rs_steps r)"
    and "purpose \<noteq> PURPOSE_ACTIVATION" and "last_activation_frames P svc = Some b"
    and "read_by canon (stored_definition P n) name" and "is_port_token name" and "activated_value b n name \<noteq> JNull"
  shows "dget name (job_variables r n) = activated_value b n name"
proof -
  let ?d = "stored_definition P n" and ?p = "job_variables r n"
  obtain es st tokens where ev: "evaluate_all (JList es) (map_of ?p) = Inr st"
    and tk: "step_tokens canon ?d = Inr (tokens, [])"
    and drift: "\<And>b. purpose \<noteq> PURPOSE_ACTIVATION \<Longrightarrow> last_activation_frames P svc = Some b \<Longrightarrow>
          port_fact_drift b n (dedup (map fst tokens @ (case computed_names ?d of None \<Rightarrow> [] | Some ns \<Rightarrow> ns)))
            (dict_update ?p (map (\<lambda>(k, x). (k, JInt x)) (ev_values st))) (rs_nodes r) = []"
    by (rule node_ready [OF assms(1,2)], rule that)
  have "name \<in> set (dedup (map fst tokens @ (case computed_names ?d of None \<Rightarrow> [] | Some ns \<Rightarrow> ns)))"
    using assms(5) tk by (auto simp: read_by_def list_ex_iff split: option.splits)
  then have "drift_of b n (dict_update ?p (map (\<lambda>(k, x). (k, JInt x)) (ev_values st))) (rs_nodes r) name = None"
    using drift [OF assms(3,4)] assms(6) by (simp add: port_fact_drift_def List.map_filter_def filter_empty_conv)
  then have "activated_value b n name = dget name (dict_update ?p (map (\<lambda>(k, x). (k, JInt x)) (ev_values st)))"
    using assms(6,7) by (auto simp: drift_of_def Let_def activated_value_def split: if_splits)
  moreover have "\<not> prefix ''computed.'' name"
    using port_token_namespace [OF assms(6)] namespace_of_prefix [of "''computed''" name] by auto
  ultimately show ?thesis using own_value_kept [OF ev] by simp
qed

section \<open>A service resolved\<close>

definition demo_unit :: "nat \<Rightarrow> nat option \<Rightarrow> id \<Rightarrow> string \<Rightarrow> inventory_unit" where
  "demo_unit i parent ty serial =
     \<lparr>nd_id = i, nd_company = 1, nd_parent = parent, nd_attached = True, un_serial = Some serial, un_mac = None, un_type = ty,
      un_host = None, un_port = None, un_label = None\<rparr>"

definition demo_definition :: json where
  "demo_definition = JDict
     [(''configuration'', JList [JDict [(''name'', JStr ''a''), (''driver'', JStr ''ssh''),
         (''template'', JStr ''ont {{cpe.serial}} {{device.out_port}} {{computed.v}} {{input.x}} {{path.ont.depth | default:0}}'')]]),
      (''computed'', JList [JDict [(''key'', JStr ''v''), (''expr'', JStr ''device.out_port * 2'')]]),
      (''variables'', JList [JDict [(''key'', JStr ''x''), (''required'', JBool True)]])]"

definition demo_baseline :: frames where
  "demo_baseline = \<lparr>fr_shared = [], fr_device = [(1, [(''device.out_port'', JInt 3)])], fr_definitions = [], fr_rollback = None\<rparr>"

definition demo_run :: run where
  "demo_run = \<lparr>r_id = 70, r_company = 1, r_service = 50, r_created = 0, r_updated = 0, r_finished = None, r_purpose = PURPOSE_ACTIVATION,
     r_dry = False, r_mode = AUTOMATIC, r_guided = 0, r_status = SUCCEEDED, r_phase = None, r_path = [], r_plan = [],
     r_frames = demo_baseline, r_key = None, r_trigger = USER, r_user = None, r_error_code = None, r_error = None,
     r_outputs = [], r_secrets = None\<rparr>"

definition demo_plant :: plant_db where
  "demo_plant =
     \<lparr>rd_units = [demo_unit 1 None 20 ''OLT1'', demo_unit 2 (Some 1) 21 ''ONT7''],
      rd_types = [\<lparr>ty_id = 20, ty_name = ''MA5800'', ty_role = None, ty_category = 30\<rparr>,
                  \<lparr>ty_id = 21, ty_name = ''F660'', ty_role = Some ''Ont'', ty_category = 31\<rparr>],
      rd_categories = [\<lparr>ct_id = 30, ct_key = Some ''OLT'', ct_tier = None, ct_passive = False\<rparr>,
                       \<lparr>ct_id = 31, ct_key = Some ''CPE'', ct_tier = None, ct_passive = True\<rparr>],
      rd_overrides = [], rd_defaults = [(20, PURPOSE_SUSPENSION, 40)],
      rd_playbooks = [\<lparr>pb_id = 40, pb_company = 1, pb_name = ''p'', pb_version = 4, pb_definition = demo_definition,
                        pb_last_dry = None, bp_active = True\<rparr>],
      rd_ports = [\<lparr>pt_id = 60, pt_item = 1, pt_company = 1, np_slot = None, np_number = Some 3, np_name = None\<rparr>],
      rd_links = [\<lparr>lk_id = 61, lk_company = 1, lk_up_item = 1, lk_up_port = 60, lk_down_item = 2, lk_down_port = None\<rparr>],
      rd_events = [], rd_runs = [demo_run]\<rparr>"

definition demo_service :: client_service where
  "demo_service = \<lparr>cs_id = 50, cs_company = 1, cs_cpe = Some 2, cs_params = JNull, cs_client = None, cs_plan = None\<rparr>"

definition demo_cpe :: path_node where
  "demo_cpe =
     \<lparr>rn_position = 0, rn_item = 2, rn_serial = Some ''ONT7'', rn_type = Some 21, rn_type_name = ''F660'', rn_category = Some ''CPE'',
      rn_playbook = None, rn_version = None, rn_label = None, pn_mac = None, pn_tier = None, pn_host = None, pn_port = None,
      pn_passive = True, pn_source = None, pn_role = Some ''Ont'', pn_out_slot = None, pn_out_port = None, pn_out_name = None\<rparr>"

definition demo_step :: path_node where
  "demo_step =
     \<lparr>rn_position = 1, rn_item = 1, rn_serial = Some ''OLT1'', rn_type = Some 20, rn_type_name = ''MA5800'', rn_category = Some ''OLT'',
      rn_playbook = Some 40, rn_version = Some 4, rn_label = None, pn_mac = None, pn_tier = None, pn_host = None, pn_port = None,
      pn_passive = False, pn_source = Some ''device_type'', pn_role = None, pn_out_slot = None, pn_out_port = Some 3, pn_out_name = None\<rparr>"

definition demo_resolution :: resolution where
  "demo_resolution =
     \<lparr>rs_path = [demo_cpe, demo_step], rs_steps = [demo_step],
      rs_shared = (''service.id'', JStr ''50'') # build_device_frame demo_cpe ''cpe'' @ build_device_frame demo_cpe ''path.cpe''
        @ build_device_frame demo_step ''path.olt'' @ build_device_frame demo_cpe ''path.ont'',
      rs_device = [(1, build_device_frame demo_step ''device'')], rs_ambiguous = [],
      rs_nodes = [(''cpe'', demo_cpe), (''olt'', demo_step), (''ont'', demo_cpe)]\<rparr>"

lemma demo_resolves: "resolve_provisioning Some (\<lambda>s. None) demo_plant demo_service PURPOSE_SUSPENSION False = Inr demo_resolution"
  by code_simp

lemma demo_step_in: "demo_step \<in> set (rs_steps demo_resolution)"
  by (simp add: demo_resolution_def)

lemma demo_grows: "grows (net_of demo_plant)"
proof -
  have "Network_Graph.plant [device 1 None, device 2 (Some 1)] [] = Inr (net_of demo_plant)" by code_simp
  then show ?thesis using plant_grows [OF grows.empty] by blast
qed

definition demo_text :: string where
  "demo_text = ''ont {{cpe.serial}} {{device.out_port}} {{computed.v}} {{input.x}} {{path.ont.depth | default:0}}''"

definition demo_job_vars :: dict where
  "demo_job_vars = rs_shared demo_resolution @ build_device_frame demo_step ''device''"

lemma demo_stored: "stored_definition demo_plant demo_step = demo_definition"
  by code_simp

lemma demo_rendered: "rendered_texts Some demo_definition = Inr [demo_text]"
  by code_simp

lemma demo_job_vars: "job_variables demo_resolution demo_step = demo_job_vars"
  by code_simp

lemma demo_pass: "fold pass_through demo_job_vars [] = demo_job_vars"
  by code_simp

lemma demo_computed:
  "evaluate_all (jget ''computed'' demo_definition) (map_of demo_job_vars)
   = Inr \<lparr>ev_values = [(''computed.v'', 6)], ev_missing = [], ev_errors = [], ev_declared = [''computed.v'']\<rparr>"
  by code_simp

lemma demo_declared: "merge_declared demo_job_vars (as_list (jget ''variables'' demo_definition)) ([], []) = Inr ([], [MissingKey ''x''])"
  by code_simp

lemma demo_input:
  "resolve_variables demo_definition demo_job_vars = Inr (dict_update demo_job_vars [(''computed.v'', JInt 6)], [MissingKey ''x''])"
  by (simp add: resolve_variables_def demo_declared demo_pass demo_computed)


theorem resolution_walks_the_plant_witness:
  "rs_steps demo_resolution = filter is_step (rs_path demo_resolution) \<and>
   list_all (playbook_ready demo_plant demo_service) (rs_steps demo_resolution)"
  using resolution_walks_the_plant [OF demo_grows demo_resolves] by blast

theorem names_mean_devices_witness:
  "map_of (rs_shared demo_resolution) (path_key_of ''olt'' ''serial'') =
     Option.bind (meant [demo_cpe, demo_step] ''olt'') (\<lambda>m. map_of (frame_pairs m) ''serial'') \<and>
   map_of (rs_shared demo_resolution) (path_key_of ''ont'' ''serial'') =
     Option.bind (meant [demo_cpe, demo_step] ''ont'') (\<lambda>m. map_of (frame_pairs m) ''serial'')"
proof -
  have p: "rs_path demo_resolution = [demo_cpe, demo_step]" by (simp add: demo_resolution_def)
  have k: "is_segment ''olt''" "is_segment ''ont''" by code_simp+
  show ?thesis
    using names_mean_devices [OF demo_grows demo_resolves demo_step_in k(1), of "''serial''"]
      names_mean_devices [OF demo_grows demo_resolves demo_step_in k(2), of "''serial''"] by (simp add: p)
qed

lemma demo_activated: "last_activation_frames demo_plant demo_service = Some demo_baseline"
  by code_simp

theorem ports_as_activated_witness:
  "dget ''device.out_port'' demo_job_vars = JInt 3"
proof -
  have "read_by Some demo_definition ''device.out_port''" by code_simp
  moreover have "is_port_token ''device.out_port''" by code_simp
  moreover have "activated_value demo_baseline demo_step ''device.out_port'' = JInt 3" by code_simp
  moreover have "PURPOSE_SUSPENSION \<noteq> PURPOSE_ACTIVATION" by code_simp
  ultimately show ?thesis
    using ports_as_activated [OF demo_resolves demo_step_in _ demo_activated, of "''device.out_port''"]
    by (simp add: demo_stored demo_job_vars)
qed

end
