(* ===== verification/Render_Properties.thy ===== *)
theory Render_Properties
  imports Playbook_Render Resolution_Properties
begin

text \<open>
  What the save-time checks and the renderer guarantee together: secrets are scrubbed, a step without
  problems has no placeholder left, a captured value cannot carry syntax into a later command, the
  technician's card does not depend on a secret, and no computed name of a saved playbook dangles.
\<close>

section \<open>Parts of a text\<close>

lemma contains_Nil [simp]: "contains s [] \<longleftrightarrow> s = []"
  by (simp add: contains_def)

lemma contains_Cons: "contains s (c # cs) \<longleftrightarrow> prefix s (c # cs) \<or> contains s cs"
  by (auto simp: contains_def)

lemma contains_drop: "contains s (drop n t) \<Longrightarrow> contains s t"
proof (induction n arbitrary: t)
  case (Suc n)
  then show ?case by (cases t) (auto simp: contains_Cons)
qed simp

lemma contains_append: "contains s t \<Longrightarrow> contains s (u @ t)"
  by (induction u) (auto simp: contains_Cons)

section \<open>Scrubbing\<close>

lemma replace_hit:
  "w \<noteq> [] \<Longrightarrow> prefix w (c # cs) \<Longrightarrow> replace_all w r (c # cs) = r @ replace_all w r (drop (length w) (c # cs))"
  by simp

lemma replace_miss: "\<not> (w \<noteq> [] \<and> prefix w (c # cs)) \<Longrightarrow> replace_all w r (c # cs) = c # replace_all w r cs"
  by auto

declare replace_all.simps(2) [simp del]

text \<open>Where the replacement has a character that the searched text has not, a match lies in text that was kept.\<close>

lemma prefix_replaced: "CHR ''*'' \<notin> set s \<Longrightarrow> prefix s (replace_all w ''***'' t) \<Longrightarrow> prefix s t"
proof (induction w "''***''" t arbitrary: s rule: replace_all.induct)
  case (2 w c cs)
  show ?case
  proof (cases "w \<noteq> [] \<and> prefix w (c # cs)")
    case True
    then show ?thesis using "2.prems" by (cases s) (simp_all add: replace_hit)
  next
    case False
    then show ?thesis using "2.prems" "2.hyps"(2) [OF False] by (cases s) (simp_all add: replace_miss)
  qed
qed simp

lemma star_not_prefix: "CHR ''*'' \<notin> set s \<Longrightarrow> s \<noteq> [] \<Longrightarrow> contains s (''***'' @ t) \<Longrightarrow> contains s t"
  by (cases s) (auto simp: contains_Cons)

lemma contains_replaced:
  assumes "CHR ''*'' \<notin> set s" and "s \<noteq> []"
  shows "contains s (replace_all w ''***'' t) \<Longrightarrow> contains s t"
proof (induction w "''***''" t rule: replace_all.induct)
  case (2 w c cs)
  show ?case
  proof (cases "w \<noteq> [] \<and> prefix w (c # cs)")
    case True
    with "2.prems" have "contains s (replace_all w ''***'' (drop (length w) (c # cs)))"
      using star_not_prefix [OF assms] by (metis replace_hit)
    with "2.hyps"(1) True show ?thesis using contains_drop by blast
  next
    case False
    with "2.prems" have "prefix s (replace_all w ''***'' (c # cs)) \<or> contains s (replace_all w ''***'' cs)"
      by (simp only: replace_miss [OF False] contains_Cons)
    then show ?thesis
      using prefix_replaced [OF assms(1)] "2.hyps"(2) [OF False] contains_Cons by blast
  qed
qed (use assms in simp)

lemma replaced_free:
  assumes "CHR ''*'' \<notin> set w" and "w \<noteq> []"
  shows "\<not> contains w (replace_all w ''***'' t)"
  using assms
proof (induction w "''***''" t rule: replace_all.induct)
  case (2 w c cs)
  show ?case
  proof (cases "prefix w (c # cs)")
    case True
    then have "\<not> contains w (replace_all w ''***'' (drop (length w) (c # cs)))" using "2.hyps"(1) "2.prems" by blast
    then show ?thesis
      using star_not_prefix [OF "2.prems"] True "2.prems"(2) by (metis replace_hit)
  next
    case False
    then have miss: "\<not> (w \<noteq> [] \<and> prefix w (c # cs))" by simp
    have "\<not> prefix w (replace_all w ''***'' (c # cs))" using prefix_replaced "2.prems"(1) False by blast
    moreover have "\<not> contains w (replace_all w ''***'' cs)" using "2.hyps"(2) [OF miss] "2.prems" by blast
    ultimately show ?thesis by (simp only: replace_miss [OF miss] contains_Cons) simp
  qed
qed simp

lemma redacted_text:
  assumes "CHR ''*'' \<notin> set s" and "s \<noteq> []" and "s \<in> set vs"
  shows "\<not> contains s (fold (\<lambda>v t. replace_all v ''***'' t) vs t)"
proof -
  have keep: "\<not> contains s t \<Longrightarrow> \<not> contains s (fold (\<lambda>v t. replace_all v ''***'' t) vs t)" for vs t
    by (induction vs arbitrary: t) (simp, use contains_replaced [OF assms(1,2)] in fastforce)
  obtain us ws where "vs = us @ s # ws" using assms(3) by (meson split_list)
  then show ?thesis using keep replaced_free [OF assms(1,2)] by simp
qed

lemma strings_redact: "t \<in> set (strings (redact vs v)) \<Longrightarrow> \<exists>u \<in> set (strings v). t = fold (\<lambda>w t. replace_all w ''***'' t) vs u"
proof (induction vs v rule: redact.induct)
  case (2 vs d)
  then obtain x where "x \<in> set d" "t \<in> set (strings (redact vs (snd x)))" by auto
  with 2(1) [OF this] show ?case by simp blast
next
  case (3 vs xs)
  then obtain x where "x \<in> set xs" "t \<in> set (strings (redact vs x))" by auto
  with 3(1) [OF this] show ?case by simp blast
qed auto

lemma star_re_escape: "CHR ''*'' \<notin> set s \<Longrightarrow> CHR ''*'' \<notin> set (re_escape s)"
  by (induction s) (auto simp: re_escape_def)

lemma re_escape_Nil [simp]: "re_escape s = [] \<longleftrightarrow> s = []"
  by (cases s) (simp_all add: re_escape_def)

definition scrubbed :: "string list \<Rightarrow> json \<Rightarrow> bool" where
  \<comment> \<open>no text of the value has one of the secrets, plain or escaped\<close>
  "scrubbed secret_values v \<longleftrightarrow>
     list_all (\<lambda>s. list_all (\<lambda>t. \<not> contains s t \<and> \<not> contains (re_escape s) t) (strings v))
       (filter (\<lambda>s. str_strip s \<noteq> [] \<and> CHR ''*'' \<notin> set s) secret_values)"


section \<open>No placeholder left\<close>

lemma open_braces_found: "contains ''{{'' s \<Longrightarrow> open_braces s \<noteq> []"
  by (induction s rule: open_braces.induct) (auto simp: contains_Cons)

lemma leftover_text_Nil: "leftover_text s = [] \<Longrightarrow> \<not> contains ''{{'' s"
  using open_braces_found by (auto simp: leftover_text_def Let_def split: if_splits)

lemma leftover_tokens_Nil: "leftover_tokens v = [] \<Longrightarrow> t \<in> set (strings v) \<Longrightarrow> \<not> contains ''{{'' t"
proof (induction v rule: leftover_tokens.induct)
  case (2 d)
  then obtain x where "x \<in> set d" "t \<in> set (strings (snd x))" by auto
  with 2 show ?case by auto
qed (auto dest: leftover_text_Nil)

definition free_of_braces :: "json \<Rightarrow> bool" where
  "free_of_braces v = list_all (\<lambda>t. \<not> contains ''{{'' t) (strings v)"



section \<open>What validation leaves\<close>

lemma check_all_Nil_iff [simp]: "check_all f [] = Inr ys \<longleftrightarrow> ys = []"
  by auto

lemma check_all_in: "check_all f xs = Inr ys \<Longrightarrow> y \<in> set ys \<Longrightarrow> \<exists>x \<in> set xs. f x = Inr y"
  by (induction xs arbitrary: ys) (auto simp: bindR_Inr_iff)

lemma check_all_each: "check_all f xs = Inr ys \<Longrightarrow> x \<in> set xs \<Longrightarrow> \<exists>y \<in> set ys. f x = Inr y"
  by (induction xs arbitrary: ys) (auto simp: bindR_Inr_iff)

lemma check_all_id: "(\<And>x. x \<in> set xs \<Longrightarrow> f x = Inr x) \<Longrightarrow> check_all f xs = Inr xs"
  by (induction xs) auto

lemma check_opt_iff: "check_opt f v = Inr w \<longleftrightarrow> (case v of None \<Rightarrow> w = None | Some x \<Rightarrow> \<exists>y. f x = Inr y \<and> w = Some y)"
  by (auto simp: check_opt_def bindR_Inr_iff split: option.splits)

lemmas checked_iff = bindR_Inr_iff guardR_Inr_iff Let_def

lemma validate_capture_keeps: "validate_capture groups c = Inr c' \<Longrightarrow> c' = c \<and> key_pattern (cp_key c)"
  by (auto simp: validate_capture_def checked_iff)

lemma check_captures: "check_all (validate_capture groups) cs = Inr cs' \<Longrightarrow> cs' = cs \<and> list_all (\<lambda>c. key_pattern (cp_key c)) cs"
  by (induction cs arbitrary: cs') (auto simp: bindR_Inr_iff dest: validate_capture_keeps)

lemma validate_step_parts:
  assumes "validate_step groups s = Inr s'"
  obtains v g w m t where "s' = s\<lparr>sp_validation := v, sp_guard := g, sp_wait := w, sp_manual := m, sp_timeout := t\<rparr>"
    and "check_opt validate_spec (sp_manual s) = Inr m" and "list_all (\<lambda>c. key_pattern (cp_key c)) (sp_capture s)"
proof -
  from assms obtain v g cs w m where c: "check_all (validate_capture groups) (sp_capture s) = Inr cs"
    and m: "check_opt validate_spec (sp_manual s) = Inr m"
    and p: "validate_payload (s\<lparr>sp_validation := v, sp_guard := g, sp_capture := cs, sp_wait := w, sp_manual := m\<rparr>) = Inr s'"
    by (auto simp: validate_step_def checked_iff)
  note cs = check_captures [OF c]
  let ?s = "s\<lparr>sp_validation := v, sp_guard := g, sp_wait := w, sp_manual := m\<rparr>"
  have e: "s\<lparr>sp_validation := v, sp_guard := g, sp_capture := cs, sp_wait := w, sp_manual := m\<rparr> = ?s"
    using cs by simp
  from p [unfolded e] have "\<exists>t. s' = ?s\<lparr>sp_timeout := t\<rparr>"
  proof (cases "sp_driver ?s = MANUAL_DRIVER")
    case True
    with p [unfolded e] show ?thesis
      by (auto simp: validate_payload_def validate_manual_def checked_iff simp del: authored_step.update_convs)
  next
    case False
    with p [unfolded e] have "s' = ?s" by (auto simp: validate_payload_def checked_iff)
    then show ?thesis by (intro exI [of _ "sp_timeout s"]) simp
  qed
  then obtain t where "s' = ?s\<lparr>sp_timeout := t\<rparr>" ..
  then show thesis using that m cs by simp
qed

lemma settle_output_keeps:
  assumes "settle_output visible d = Inr d'"
  obtains b where "d' = d\<lparr>od_sensitive := b\<rparr>"
proof -
  have "d' = d\<lparr>od_sensitive := od_sensitive d\<rparr> \<or> d' = d\<lparr>od_sensitive := True\<rparr>"
    using assms by (auto simp: settle_output_def checked_iff split: option.splits if_splits)
  then show thesis using that by blast
qed

lemma settle_output_strings: "settle_output visible d = Inr d' \<Longrightarrow> strings (dump_output d') = strings (dump_output d)"
  by (erule settle_output_keeps) (simp add: dump_output_def)

lemma settle_all_strings:
  "check_all (settle_output visible) ds = Inr ds' \<Longrightarrow> map (\<lambda>d. strings (dump_output d)) ds' = map (\<lambda>d. strings (dump_output d)) ds"
  by (induction ds arbitrary: ds') (auto simp: bindR_Inr_iff dest: settle_output_strings)

lemma outputs_update_simps [simp]:
  "forward_steps (d\<lparr>df_outputs := ds\<rparr>) = forward_steps d" "phase_list (d\<lparr>df_outputs := ds\<rparr>) = phase_list d"
  "all_steps (d\<lparr>df_outputs := ds\<rparr>) = all_steps d" "multi_keys (d\<lparr>df_outputs := ds\<rparr>) = multi_keys d"
  "visible_refs (d\<lparr>df_outputs := ds\<rparr>) = visible_refs d"
proof -
  have p: "steps_in p (d\<lparr>df_outputs := ds\<rparr>) = steps_in p d" for p by (cases p) simp_all
  show "forward_steps (d\<lparr>df_outputs := ds\<rparr>) = forward_steps d" "visible_refs (d\<lparr>df_outputs := ds\<rparr>) = visible_refs d"
    by (simp_all add: forward_steps_def visible_refs_def)
  then show "multi_keys (d\<lparr>df_outputs := ds\<rparr>) = multi_keys d" by (simp add: multi_keys_def)
  show "phase_list (d\<lparr>df_outputs := ds\<rparr>) = phase_list d" by (simp add: phase_list_def p)
  then show "all_steps (d\<lparr>df_outputs := ds\<rparr>) = all_steps d" by (simp add: all_steps_def)
qed

lemma outputs_texts:
  assumes "map (\<lambda>d. strings (dump_output d)) ds = map (\<lambda>d. strings (dump_output d)) (df_outputs d)"
  shows "all_texts (d\<lparr>df_outputs := ds\<rparr>) = all_texts d" "late_texts (d\<lparr>df_outputs := ds\<rparr>) = late_texts d"
  using assms by (simp_all add: all_texts_def late_texts_def comp_def)

lemma accepted_parts:
  assumes "validate_definition groups a = Inr d"
  obtains mid where "validate_parts groups a = Inr mid" and "d = mid\<lparr>df_outputs := df_outputs d\<rparr>"
    and "distinct (map sp_name (all_steps d))" and "list_all (\<lambda>ps. place_step mid ps = Inr ()) (phase_list d)"
    and "\<exists>declared. capture_flow (forward_steps d) [] = Inr declared \<and> \<not> undeclared (late_texts d) ''capture'' declared"
    and "\<not> list_ex (\<lambda>r. r \<in> set (multi_keys d)) (refs (concat (map step_texts (all_steps d))) ''capture'')"
    and "\<not> undeclared (all_texts d) ''secret'' (map sc_key (df_secrets d))"
    and "check_all (settle_output (visible_refs d)) (df_outputs mid) = Inr (df_outputs d)"
    and "\<not> list_ex customer_sensitive (df_outputs d)" and "check_computed d = Inr ()"
proof -
  from assms obtain mid where mid: "validate_parts groups a = Inr mid" and w: "validate_whole mid = Inr d"
    by (auto simp: validate_definition_def bindR_Inr_iff)
  from w obtain us where n: "distinct (map sp_name (all_steps mid))" and u: "check_all (place_step mid) (phase_list mid) = Inr us"
    and c: "captures_and_secrets mid = Inr d" and k: "check_computed d = Inr ()"
    by (auto simp: validate_whole_def checked_iff)
  from c obtain declared where f: "capture_flow (forward_steps mid) [] = Inr declared"
    and l: "\<not> undeclared (late_texts mid) ''capture'' declared"
    and m: "\<not> list_ex (\<lambda>r. r \<in> set (multi_keys mid)) (refs (concat (map step_texts (all_steps mid))) ''capture'')"
    and s: "\<not> undeclared (all_texts mid) ''secret'' (map sc_key (df_secrets mid))"
    and outs: "check_all (settle_output (visible_refs mid)) (df_outputs mid) = Inr (df_outputs d)"
    and cs: "\<not> list_ex customer_sensitive (df_outputs d)" and d: "d = mid\<lparr>df_outputs := df_outputs d\<rparr>"
    by (auto simp: captures_and_secrets_def checked_iff)
  have e: "forward_steps d = forward_steps mid" "phase_list d = phase_list mid" "all_steps d = all_steps mid"
    "multi_keys d = multi_keys mid" "visible_refs d = visible_refs mid" "df_secrets d = df_secrets mid"
    by (subst d, simp)+
  have t: "all_texts d = all_texts mid" "late_texts d = late_texts mid"
    by (subst d, rule outputs_texts [OF settle_all_strings [OF outs]])+
  have "place_step mid ps = Inr ()" if "ps \<in> set (phase_list mid)" for ps
    using check_all_each [OF u that] by auto
  then show thesis
    by (intro that [OF mid d]) (use n f l m s outs cs k in \<open>simp_all add: e t list_all_iff\<close>)
qed

section \<open>A saved definition\<close>

definition captured :: "authored_step list \<Rightarrow> string list" where
  "captured ss = map cp_key (concat (map sp_capture ss))"

definition reads_earlier :: "authored_step list \<Rightarrow> bool" where
  \<comment> \<open>each step reads only captures of the steps before it\<close>
  "reads_earlier ss \<longleftrightarrow>
     list_all (\<lambda>i. set (refs (own_texts (ss ! i)) ''capture'') \<subseteq> set (captured (take i ss))) [0..<length ss]"

lemma declare_captures_spec:
  "declare_captures cs D = Inr D' \<Longrightarrow> distinct D \<Longrightarrow>
     distinct D' \<and> set D' = set D \<union> cp_key ` set cs \<and> distinct (map cp_key cs) \<and> cp_key ` set cs \<inter> set D = {}"
proof (induction cs arbitrary: D)
  case (Cons c cs)
  then have "cp_key c \<notin> set D" "declare_captures cs (cp_key c # D) = Inr D'" by (auto simp: guardR_Inr_iff)
  with Cons.IH [of "cp_key c # D"] Cons.prems(2) show ?case by auto
qed simp

lemma capture_flow_spec:
  "capture_flow ss D = Inr D' \<Longrightarrow> distinct D \<Longrightarrow>
     set D' = set D \<union> set (captured ss) \<and> distinct (captured ss) \<and> set (captured ss) \<inter> set D = {} \<and>
     (\<forall>i < length ss. set (refs (own_texts (ss ! i)) ''capture'') \<subseteq> set D \<union> set (captured (take i ss)))"
proof (induction ss arbitrary: D)
  case (Cons s ss)
  from Cons.prems(1) obtain E where u: "\<not> undeclared (own_texts s) ''capture'' D"
    and e: "declare_captures (sp_capture s) D = Inr E" and f: "capture_flow ss E = Inr D'"
    by (auto simp: guardR_Inr_iff bindR_Inr_iff)
  note E = declare_captures_spec [OF e Cons.prems(2)]
  note IH = Cons.IH [OF f conjunct1 [OF E]]
  have c: "captured (s # ss) = map cp_key (sp_capture s) @ captured ss" by (simp add: captured_def)
  have r: "set (refs (own_texts s) ''capture'') \<subseteq> set D" using u by (auto simp: undeclared_def list_ex_iff)
  have "set (refs (own_texts ((s # ss) ! i)) ''capture'') \<subseteq> set D \<union> set (captured (take i (s # ss)))"
    if "i < length (s # ss)" for i
  proof (cases i)
    case (Suc j)
    with that IH have "set (refs (own_texts (ss ! j)) ''capture'') \<subseteq> set E \<union> set (captured (take j ss))" by simp
    with E Suc show ?thesis by (auto simp: captured_def)
  qed (use r in auto)
  with E IH show ?case unfolding c by (auto simp del: nth_Cons')
qed (simp add: captured_def)

definition output_safe :: "authored \<Rightarrow> output_decl \<Rightarrow> bool" where
  "output_safe d ou \<longleftrightarrow>
     (case output_secret_ref (od_value ou) of None \<Rightarrow> True | Some r \<Rightarrow> od_sensitive ou \<or> r \<in> set (visible_refs d)) \<and>
     \<not> customer_sensitive ou"

definition undoes_step :: "authored \<Rightarrow> authored_step \<Rightarrow> bool" where
  "undoes_step d s = (case sp_undoes s of None \<Rightarrow> True | Some u \<Rightarrow> u \<in> sp_name ` set (df_configuration d))"

lemma settle_output_settled:
  "settle_output visible d0 = Inr d \<Longrightarrow>
     (case output_secret_ref (od_value d) of None \<Rightarrow> True | Some r \<Rightarrow> od_sensitive d \<or> r \<in> set visible)"
  by (auto simp: settle_output_def checked_iff split: option.splits if_splits)

lemma placed_undoes: "place_step d (p, s) = Inr () \<Longrightarrow> undoes_step d s"
  by (auto simp: place_step_def checked_iff undoes_step_def split: option.splits)

lemma rollback_listed: "s \<in> set (df_rollback d) \<Longrightarrow> (ROLLBACK, s) \<in> set (phase_list d)"
  by (simp add: phase_list_def PROVISIONING_PHASES_def)


section \<open>The name of a token\<close>

lemma index_at_cases: "index_at s = (ix, r) \<Longrightarrow> s = ix @ r \<and> (ix = [] \<or> hd ix = CHR ''['')"
proof (cases s)
  case (Cons c cs)
  assume "index_at s = (ix, r)"
  with Cons takeWhile_dropWhile_id [of is_digit cs] show ?thesis
    by (cases "dropWhile is_digit cs") (auto simp: index_at_def Let_def split: if_splits)
qed (simp add: index_at_def)

lemma dotted_at_shape:
  "dotted_at s = (ds, r) \<Longrightarrow> s = ds @ r \<and>
     (ds = [] \<or> (\<exists>w ws. ds = CHR ''.'' # w @ ws \<and> is_segment w \<and> takeWhile is_word_char (w @ ws @ r) = w))"
proof (induction s arbitrary: ds r rule: dotted_at.induct)
  case (1 s)
  show ?case
  proof (cases s)
    case (Cons c cs)
    show ?thesis
    proof (cases "c = CHR ''.''")
      case True
      show ?thesis
      proof (cases "word_at cs")
        case (Some p)
        obtain w t where p: "p = (w, t)" by (cases p)
        obtain ws r' where rec: "dotted_at t = (ws, r')" by (cases "dotted_at t")
        have e: "ds = c # w @ ws" "r = r'"
          using "1.prems" Cons True Some p rec by (subst (asm) dotted_at.simps, simp)+
        have IH: "t = ws @ r'" using "1.IH" [of c cs "(w, t)" w t] Cons True Some p rec by simp
        have w: "cs = w @ t" "is_segment w" "takeWhile is_word_char cs = w"
          using Some p by (auto simp: word_at_def split: list.splits if_splits)
            (auto simp: is_word_char_def list_all_iff dest: set_takeWhileD)
        have "is_segment w \<and> takeWhile is_word_char (w @ ws @ r) = w" using w IH e by simp
        moreover have "s = ds @ r" "ds = CHR ''.'' # w @ ws" using e IH w(1) Cons True by simp_all
        ultimately show ?thesis by blast
      next
        case None
        with "1.prems" Cons True show ?thesis by (subst (asm) dotted_at.simps) simp
      qed
    next
      case False
      with "1.prems" Cons show ?thesis by (subst (asm) dotted_at.simps) simp
    qed
  qed (use "1.prems" in \<open>subst (asm) dotted_at.simps, simp\<close>)
qed

lemma filter_loop_head: "filter_loop name n s = Inr fs \<Longrightarrow> s = [] \<or> hd s = CHR ''|''"
  by (subst (asm) filter_loop.simps) (auto split: list.splits if_splits)

lemma not_word_chars: "\<not> is_word_char (CHR ''.'')" "\<not> is_word_char (CHR ''['')" "\<not> is_word_char (CHR ''|'')"
  by (simp_all add: is_word_char_def is_lower_def is_digit_def)

lemma segment_word_chars: "is_segment w \<Longrightarrow> list_all is_word_char w"
  by (cases w) (simp_all add: is_word_char_def)

lemma takeWhile_word: "list_all is_word_char w \<Longrightarrow> takeWhile is_word_char (w @ r) = w @ takeWhile is_word_char r"
  by (simp add: list_all_iff)

lemma name_in_body:
  assumes "parse_body body = Inr t" and "te_name t = ns @ ''.'' @ k" and "is_segment ns"
  obtains w ws r where "dropWhile is_blank body = ns @ ''.'' @ w @ ws @ r" and "k = w @ ws" and "is_segment w"
    and "takeWhile is_word_char (w @ ws @ r) = w" and "skip_ws r = [] \<or> hd (skip_ws r) = CHR ''|''"
proof -
  let ?b = "dropWhile is_blank body"
  from assms(1) obtain name s fs where h: "var_head body = Some (name, s)" and fl: "filter_loop name 0 s = Inr fs"
    and n: "te_name t = name"
    by (auto simp: parse_body_def bindR_Inr_iff split: option.splits)
  from h obtain w0 r0 ix r1 ds r2 where w0: "word_at ?b = Some (w0, r0)" and ix: "index_at r0 = (ix, r1)"
    and ds: "dotted_at r1 = (ds, r2)" and e: "name = w0 @ ix @ ds" "s = skip_ws r2"
    by (auto simp: var_head_def skip_ws_def Let_def split: option.splits prod.splits)
  have b: "?b = w0 @ r0" "list_all is_word_char w0"
    using w0 word_at_length [OF w0] by (auto simp: word_at_def list_all_iff split: list.splits if_splits dest: set_takeWhileD)
  note ix = index_at_cases [OF ix] and ds = dotted_at_shape [OF ds]
  have eq: "w0 @ ix @ ds = ns @ ''.'' @ k" using e n assms(2) by simp
  have "takeWhile is_word_char (ix @ ds) = []"
    using ix ds not_word_chars by (cases ix) auto
  then have "takeWhile is_word_char (w0 @ ix @ ds) = w0" using b(2) by (simp add: takeWhile_word)
  moreover have "takeWhile is_word_char (ns @ ''.'' @ k) = ns"
    using segment_word_chars [OF assms(3)] not_word_chars by (simp add: takeWhile_word)
  ultimately have w: "w0 = ns" using eq by simp
  with eq have d: "ix @ ds = ''.'' @ k" by simp
  then have "ix = []" using ix by (cases ix) auto
  with d ds obtain v ws where v: "ds = CHR ''.'' # v @ ws" "is_segment v" "takeWhile is_word_char (v @ ws @ r2) = v" by auto
  have "?b = ns @ ''.'' @ v @ ws @ r2" using b(1) w ix ds v(1) \<open>ix = []\<close> by simp
  moreover have "k = v @ ws" using d \<open>ix = []\<close> v(1) by simp
  moreover have "skip_ws r2 = [] \<or> hd (skip_ws r2) = CHR ''|''" using filter_loop_head [OF fl] e(2) by simp
  ultimately show thesis using that v by blast
qed

lemma segment_name_in_body:
  assumes "parse_body body = Inr t" and "te_name t = ns @ ''.'' @ k" and "is_segment ns" and "is_segment k"
  obtains r where "dropWhile is_blank body = ns @ ''.'' @ k @ r" and "takeWhile is_word_char (k @ r) = k"
    and "skip_ws r = [] \<or> hd (skip_ws r) = CHR ''|''"
proof -
  obtain w ws r where b: "dropWhile is_blank body = ns @ ''.'' @ w @ ws @ r" "k = w @ ws"
    "takeWhile is_word_char (w @ ws @ r) = w" "skip_ws r = [] \<or> hd (skip_ws r) = CHR ''|''"
    using assms(1-3) by (rule name_in_body)
  have "takeWhile is_word_char (k @ r) = k @ takeWhile is_word_char r"
    using segment_word_chars [OF assms(4)] by (simp add: takeWhile_word)
  with b(2,3) have "ws = []" by simp
  with b show thesis by (intro that [of r]) simp_all
qed

lemma token_ref:
  assumes "parse_body body = Inr t" and "te_name t = ns @ ''.'' @ k" and "is_segment ns" and "is_segment k"
  shows "ref_name ns body = Some k"
proof -
  obtain r where b: "dropWhile is_blank body = ns @ ''.'' @ k @ r" "takeWhile is_word_char (k @ r) = k"
    using assms by (rule segment_name_in_body)
  show ?thesis using b assms(4) by (simp add: ref_name_def)
qed

lemma refs_member: "text \<in> set txts \<Longrightarrow> b \<in> set (token_bodies text) \<Longrightarrow> ref_name ns b = Some k \<Longrightarrow> k \<in> set (refs txts ns)"
  using in_map_filter by (force simp: refs_def)

section \<open>Captured values are inert\<close>

lemma all_steps_append: "all_steps d = forward_steps d @ df_rollback d"
  by (simp add: all_steps_def phase_list_def PROVISIONING_PHASES_def forward_steps_def comp_def)

lemma accepted_steps:
  assumes "validate_definition groups a = Inr d" and "s \<in> set (all_steps d)"
  shows "\<exists>s0. validate_step groups s0 = Inr s"
proof -
  obtain mid where mid: "validate_parts groups a = Inr mid" and d: "d = mid\<lparr>df_outputs := df_outputs d\<rparr>"
    using assms(1) by (rule accepted_parts)
  from mid obtain pre cfg ver rol where "check_all (validate_step groups) (df_preconditions a) = Inr pre"
    "check_all (validate_step groups) (df_configuration a) = Inr cfg" "check_all (validate_step groups) (df_verification a) = Inr ver"
    "check_all (validate_step groups) (df_rollback a) = Inr rol"
    "mid = a\<lparr>df_preconditions := pre, df_configuration := cfg, df_verification := ver, df_rollback := rol\<rparr>"
    by (auto simp: validate_parts_def checked_iff)
  moreover have "all_steps d = all_steps mid" by (subst d) simp
  ultimately show ?thesis
    using assms(2) by (auto simp: all_steps_append forward_steps_def dest: check_all_in)
qed

lemma accepted_capture_keys:
  "validate_definition groups a = Inr d \<Longrightarrow> s \<in> set (all_steps d) \<Longrightarrow> c \<in> set (sp_capture s) \<Longrightarrow> is_segment (cp_key c)"
  by (drule (1) accepted_steps, erule exE, erule validate_step_parts) (auto simp: list_all_iff key_pattern_def)

lemma phase_steps_dump: "phase_steps (dump_definition d) (PHASE_KEYS p) = map dump_step (steps_in p d)"
  by (cases p) (simp_all add: phase_steps_def dump_definition_def dget_def)

lemma dump_step_capture: "as_list (jget ''capture'' (dump_step s)) = map dump_capture (sp_capture s)"
  by (simp add: dump_step_def step_dict_def dget_def)

lemma definition_captures_dump: "definition_captures (dump_definition d) = map dump_capture (concat (map sp_capture (all_steps d)))"
  by (simp add: definition_captures_def phase_steps_dump dump_step_capture PROVISIONING_PHASES_def all_steps_append
      forward_steps_def map_concat comp_def)

lemma dump_capture_get [simp]:
  "jget ''key'' (dump_capture c) = JStr (cp_key c)" "jget ''all'' (dump_capture c) = JBool (cp_all c)"
  by (simp_all add: dump_capture_def capture_body_def dget_def)

lemma placed_rollback: "place_step d (ROLLBACK, s) = Inr () \<Longrightarrow> sp_capture s = []"
  by (auto simp: place_step_def checked_iff)

lemma multi_declared:
  assumes "validate_definition groups a = Inr d" and "is_multi (dump_definition d) k"
  shows "k \<in> set (multi_keys d) \<and> is_segment k"
proof -
  obtain mid where pl: "list_all (\<lambda>ps. place_step mid ps = Inr ()) (phase_list d)"
    using assms(1) by (rule accepted_parts)
  from assms(2) obtain s c where s: "s \<in> set (all_steps d)" "c \<in> set (sp_capture s)" "cp_all c" "cp_key c = k"
    by (auto simp: is_multi_def definition_captures_dump list_ex_iff)
  have "s \<notin> set (df_rollback d)"
    using pl rollback_listed [of s d] placed_rollback [of mid s] s(2) by (auto simp: list_all_iff)
  with s have "k \<in> set (multi_keys d)" by (auto simp: all_steps_append multi_keys_def)
  with accepted_capture_keys [OF assms(1) s(1,2)] s(4) show ?thesis by simp
qed

lemma merged_value:
  "merge_captures D caps (vars, kept) = (vars', kept') \<Longrightarrow> map_of vars' n = Some v \<Longrightarrow>
     map_of vars n = Some v \<or> (\<exists>key x t. n = ''capture.'' @ key \<and> gated_value D key x = Some t \<and> v = JStr t)"
proof (induction D caps "(vars, kept)" arbitrary: vars kept rule: merge_captures.induct)
  case (2 D key x rest vars kept)
  show ?case
  proof (cases "gated_value D key x")
    case None
    with 2 show ?thesis by simp
  next
    case (Some t)
    with "2.prems"(1) have "merge_captures D rest (dput (''capture.'' @ key) (JStr t) vars, dput key (JStr t) kept) = (vars', kept')"
      by simp
    from "2.hyps"(2) [OF Some this "2.prems"(2)] Some show ?thesis
      by (auto simp: dput_def update_conv' simp del: append_Cons split: if_splits)
  qed
qed simp

lemma decimal_capture_chars: "is_decimal s \<Longrightarrow> list_all is_capture_char s"
proof -
  assume a: "is_decimal s"
  have dig: "is_digit c \<Longrightarrow> is_capture_char c" for c by (simp add: is_capture_char_def is_alnum_def)
  have pt: "is_capture_char (CHR ''-'')" "is_capture_char (CHR ''.'')" by (simp_all add: is_capture_char_def)
  have body: "list_all is_capture_char u"
    if "case dropWhile is_digit u of [] \<Rightarrow> True | c # ds \<Rightarrow> c = CHR ''.'' \<and> ds \<noteq> [] \<and> list_all is_digit ds" for u
  proof -
    have "list_all is_capture_char (takeWhile is_digit u)" using dig by (auto simp: list_all_iff dest: set_takeWhileD)
    moreover have "list_all is_capture_char (dropWhile is_digit u)"
    proof (cases "dropWhile is_digit u")
      case (Cons c ds)
      with that dig pt show ?thesis by (auto simp: list_all_iff)
    qed (simp only: list.pred_inject)
    ultimately have "list_all is_capture_char (takeWhile is_digit u @ dropWhile is_digit u)"
      by (simp only: list_all_append)
    then show ?thesis by (simp only: takeWhile_dropWhile_id)
  qed
  show ?thesis
  proof (cases s)
    case (Cons c cs)
    with a body [of cs] body [of s] pt show ?thesis by (auto simp: is_decimal_def Let_def split: if_splits)
  qed simp
qed

lemma gated_chars: "gate_capture v kind = Some t \<Longrightarrow> list_all is_capture_char t"
  by (auto simp: gate_capture_def Let_def decimal_capture_chars split: if_splits)

lemma resolved_no_captures:
  assumes "resolve_variables definition provided = Inr (vars, missing)" and "prefix ''capture.'' n"
  shows "map_of vars n = None"
proof -
  obtain r m st where md: "merge_declared provided (as_list (jget ''variables'' definition)) ([], []) = Inr (r, m)"
    and ev: "evaluate_all (jget ''computed'' definition) (map_of (fold pass_through provided r)) = Inr st"
    and vs: "vars = dict_update (fold pass_through provided r) (map (\<lambda>(k, v). (k, JInt v)) (ev_values st))"
    using assms(1) by (rule resolve_variables_elim)
  have res: "reserved n" using assms(2) by (simp add: reserved_def RESERVED_PREFIXES_def)
  have "map_of (fold pass_through provided r) n = None"
    using map_of_pass_through [of provided r n] merge_declared_keys [OF md] res
    by (cases "map_of (fold pass_through provided r) n") auto
  moreover
  have nc: "\<not> prefix ''computed.'' n" using assms(2) by (auto simp: prefix_def)
  have "map_of (ev_values st) n = None"
    using evaluate_all_keys [OF ev] nc by (cases "map_of (ev_values st) n") auto
  then have "map_of (rev (ev_values st)) n = None" by (simp add: map_of_eq_None_iff)
  ultimately show ?thesis by (simp add: vs map_of_dict_update map_of_json_values map_add_def)
qed


section \<open>A definition that validates\<close>

definition count_groups :: "string \<Rightarrow> nat option" where
  "count_groups s = Some (length (filter (\<lambda>c. c = CHR ''('') s))"

definition command_step :: "string \<Rightarrow> string \<Rightarrow> authored_step" where
  "command_step n t = \<lparr>sp_name = n, sp_driver = ''ssh'', sp_template = Some t, sp_request = None, sp_validation = None,
     sp_timeout = 30, sp_timeout_given = True, sp_target = None, sp_guard = None, sp_label = None, sp_hint = None,
     sp_idempotent = False, sp_config_mode = False, sp_capture = [], sp_wait = None, sp_undoes = None, sp_manual = None\<rparr>"

definition onu_capture :: capture where
  "onu_capture = \<lparr>cp_key = ''onu'', cp_regex = ''id (.*)'', cp_type = ''text'', cp_label = None, cp_unit = None,
     cp_min = None, cp_max = None, cp_equals = None, cp_all = False\<rparr>"

definition read_step :: authored_step where
  "read_step = (command_step ''read'' ''show onu'')\<lparr>sp_capture := [onu_capture]\<rparr>"

definition apply_step :: authored_step where
  "apply_step = command_step ''apply'' ''onu {{capture.onu}} key {{secret.wifi}}''"

definition undo_onu_step :: authored_step where
  "undo_onu_step = (command_step ''undo'' ''no onu {{capture.onu}}'')\<lparr>sp_undoes := Some ''apply''\<rparr>"

definition wifi_output :: "bool \<Rightarrow> output_decl" where
  "wifi_output sensitive = \<lparr>od_key = ''wifi'', od_label = ''Wifi'', od_value = ''{{secret.wifi}}'', od_unit = None,
     od_audience = [''technician''], od_shareable = False, od_sensitive = sensitive, od_sensitive_given = False\<rparr>"

definition wifi_playbook :: "bool \<Rightarrow> authored" where
  "wifi_playbook sensitive = \<lparr>df_variables = [], df_computed = [], df_session = None,
     df_secrets = [\<lparr>sc_key = ''wifi'', sc_length = 12, sc_visible = False\<rparr>], df_preconditions = [],
     df_configuration = [read_step, apply_step], df_verification = [], df_rollback = [undo_onu_step],
     df_outputs = [wifi_output sensitive]\<rparr>"

lemma wifi_steps:
  "validate_step count_groups read_step = Inr read_step" "validate_step count_groups apply_step = Inr apply_step"
  "validate_step count_groups undo_onu_step = Inr undo_onu_step"
  by code_simp+

lemma wifi_parts: "validate_parts count_groups (wifi_playbook False) = Inr (wifi_playbook False)"
  by code_simp

lemma wifi_whole: "validate_whole (wifi_playbook False) = Inr (wifi_playbook True)"
  by code_simp

lemma wifi_accepted: "validate_definition count_groups (wifi_playbook False) = Inr (wifi_playbook True)"
  by (simp add: validate_definition_def wifi_parts wifi_whole)


definition wifi_vars :: dict where
  "wifi_vars = [(''cpe.serial'', JStr ''ZX1''), (''capture.onu'', JStr ''0/1/7'')]"

lemma wifi_merged:
  "resolve_variables (dump_definition (wifi_playbook True)) [(''cpe.serial'', JStr ''ZX1'')] = Inr ([(''cpe.serial'', JStr ''ZX1'')], [])"
  "merge_captures (dump_definition (wifi_playbook True)) [(''onu'', JStr ''0/1/7''), (''bad'', JStr ''a b'')]
     ([(''cpe.serial'', JStr ''ZX1'')], []) = (wifi_vars, [(''onu'', JStr ''0/1/7'')])"
  by code_simp+

lemma wifi_token:
  "apply_step \<in> set (all_steps (wifi_playbook True))" "''onu {{capture.onu}} key {{secret.wifi}}'' \<in> set (step_texts apply_step)"
  "''capture.onu'' \<in> set (token_bodies ''onu {{capture.onu}} key {{secret.wifi}}'')"
  "parse_body ''capture.onu'' = Inr \<lparr>te_name = ''capture.onu'', te_filters = []\<rparr>"
  by code_simp+


text \<open>A comment of the source calls an empty template legal; no driver that takes one accepts it.\<close>

lemma empty_template_is_refused:
  assumes "sp_driver s \<notin> {''http'', ''connection_request'', MANUAL_DRIVER}" and "sp_template s = Some []"
    and "\<not> given_dict (sp_request s)"
  shows "\<exists>e. validate_payload s = Inl e"
  using assms by (simp add: validate_payload_def lacks_payload_def given_text_def guardR_def)

section \<open>The technician's card\<close>

definition is_token_name_char :: "char \<Rightarrow> bool" where
  "is_token_name_char c \<longleftrightarrow> is_word_char c \<or> c \<in> set ''.[]''"

lemma name_char_plain: "is_token_name_char c \<Longrightarrow> \<not> is_space c \<and> c \<noteq> CHR ''|''"
  by (auto simp: is_token_name_char_def is_space_def is_word_char_def is_lower_def is_digit_def)

lemma dropWhile_prefix: "list_all P u \<Longrightarrow> v = [] \<or> \<not> P (hd v) \<Longrightarrow> dropWhile P (u @ v) = v"
  by (induction u) (auto simp: dropWhile_eq_self_iff)

lemma takeWhile_prefix: "list_all P u \<Longrightarrow> v = [] \<or> \<not> P (hd v) \<Longrightarrow> takeWhile P (u @ v) = u"
  by (induction u) (auto simp: takeWhile_eq_Nil_iff)

lemma strip_core:
  assumes "list_all is_space u" and "list_all is_space v" and "list_all (\<lambda>c. \<not> is_space c) m" and "m \<noteq> []"
  shows "str_strip (u @ m @ v) = m"
proof -
  have "dropWhile is_space (u @ m @ v) = m @ v"
    using assms(1,3,4) by (intro dropWhile_prefix) (simp_all add: list_all_iff hd_append)
  moreover have "dropWhile is_space (rev v @ rev m) = rev m"
    using assms(2-4) by (intro dropWhile_prefix) (simp_all add: list_all_iff hd_rev)
  ultimately show ?thesis by (simp add: str_strip_def)
qed

lemma word_name_chars: "list_all is_word_char w \<Longrightarrow> list_all is_token_name_char w"
  by (simp add: list_all_iff is_token_name_char_def)

lemma index_name_chars: "index_at s = (ix, r) \<Longrightarrow> list_all is_token_name_char ix"
proof -
  have "list_all is_token_name_char (takeWhile is_digit cs)" for cs
    by (rule word_name_chars) (auto simp: list_all_iff is_word_char_def dest: set_takeWhileD)
  moreover have "is_token_name_char (CHR ''['')" "is_token_name_char (CHR '']'')" by (simp_all add: is_token_name_char_def)
  ultimately show "index_at s = (ix, r) \<Longrightarrow> list_all is_token_name_char ix"
    by (auto simp only: index_at_def Let_def list.pred_inject list_all_append prod.inject split: list.splits if_splits)
qed

lemma dotted_name_chars: "dotted_at s = (ds, r) \<Longrightarrow> list_all is_token_name_char ds"
proof (induction s arbitrary: ds r rule: dotted_at.induct)
  case (1 s)
  have pt: "is_token_name_char (CHR ''.'')" by (simp add: is_token_name_char_def)
  have w: "word_at cs = Some (w, t) \<Longrightarrow> list_all is_token_name_char w" for cs w t
    by (rule word_name_chars) (auto simp: word_at_def list_all_iff split: list.splits if_splits dest: set_takeWhileD)
  from "1.prems" "1.IH" pt w show ?case
    by (auto simp: dotted_at.simps [of s] Let_def split: list.splits if_splits option.splits prod.splits)
qed

lemma var_head_parts:
  assumes "var_head body = Some (name, s)"
  obtains u v where "body = (u @ name @ v) @ s" and "list_all is_blank u" and "list_all is_blank v"
    and "list_all is_token_name_char name" and "name \<noteq> []"
proof -
  let ?b = "dropWhile is_blank body"
  from assms obtain w0 r0 ix r1 ds r2 where w0: "word_at ?b = Some (w0, r0)" and ix: "index_at r0 = (ix, r1)"
    and ds: "dotted_at r1 = (ds, r2)" and e: "name = w0 @ ix @ ds" "s = skip_ws r2"
    by (auto simp: var_head_def skip_ws_def Let_def split: option.splits prod.splits)
  have w: "?b = w0 @ r0" "list_all is_word_char w0"
    using w0 word_at_length [OF w0] by (auto simp: word_at_def list_all_iff split: list.splits if_splits dest: set_takeWhileD)
  have "w0 \<noteq> []" using w0 by (auto simp: word_at_def is_word_char_def split: list.splits if_splits)
  then have chars: "list_all is_token_name_char name" "name \<noteq> []"
    using w word_name_chars [OF w(2)] index_name_chars [OF ix] dotted_name_chars [OF ds] e by simp_all
  have "?b = name @ r2" using w(1) index_at_cases [OF ix] dotted_at_shape [OF ds] e(1) by simp
  moreover have "r2 = takeWhile is_blank r2 @ s" by (simp add: e(2) skip_ws_def)
  ultimately have "body = (takeWhile is_blank body @ name @ takeWhile is_blank r2) @ s"
    using takeWhile_dropWhile_id [of is_blank body] by simp
  moreover have "list_all is_blank (takeWhile is_blank x)" for x by (auto simp: list_all_iff dest: set_takeWhileD)
  ultimately show thesis using that chars by blast
qed

lemma parsed_parts:
  assumes "parse_body body = Inr t"
  obtains u v s where "body = (u @ te_name t @ v) @ s" and "list_all is_blank u" and "list_all is_blank v"
    and "list_all is_token_name_char (te_name t)" and "te_name t \<noteq> []" and "s = [] \<or> hd s = CHR ''|''"
proof -
  from assms obtain s fs where h: "var_head body = Some (te_name t, s)" and fl: "filter_loop (te_name t) 0 s = Inr fs"
    by (auto simp: parse_body_def bindR_Inr_iff split: option.splits)
  from h show thesis by (rule var_head_parts) (use that filter_loop_head [OF fl] in blast)
qed

lemma parsed_name:
  assumes "parse_body body = Inr t"
  shows "str_strip (takeWhile (\<lambda>c. c \<noteq> CHR ''|'') body) = te_name t"
proof -
  obtain u v s where body: "body = (u @ te_name t @ v) @ s" and p: "list_all is_blank u" "list_all is_blank v"
    "list_all is_token_name_char (te_name t)" "te_name t \<noteq> []" "s = [] \<or> hd s = CHR ''|''"
    using assms by (rule parsed_parts)
  have blank: "is_blank c \<Longrightarrow> is_space c \<and> c \<noteq> CHR ''|''" for c by (auto simp: is_blank_def is_space_def)
  note mono = list.pred_mono_strong [OF p(1)] list.pred_mono_strong [OF p(2)] list.pred_mono_strong [OF p(3)]
  have q: "list_all is_space u" "list_all is_space v" "list_all (\<lambda>c. \<not> is_space c) (te_name t)"
    by (rule mono, simp add: blank name_char_plain)+
  have r: "list_all (\<lambda>c. c \<noteq> CHR ''|'') (u @ te_name t @ v)"
    unfolding list_all_append by (intro conjI; rule mono) (simp_all add: blank name_char_plain)
  have "takeWhile (\<lambda>c. c \<noteq> CHR ''|'') body = u @ te_name t @ v"
    unfolding body using r p(5) by (intro takeWhile_prefix) auto
  then show ?thesis using strip_core [OF q p(4)] by simp
qed

definition hidden_name :: "string \<Rightarrow> bool" where
  "hidden_name n \<longleftrightarrow> prefix ''secret.'' n \<or> is_secret_name n"

definition agree_public :: "dict \<Rightarrow> dict \<Rightarrow> bool" where
  \<comment> \<open>the same value for every name that is not a secret's\<close>
  "agree_public vars vars' \<longleftrightarrow> (\<forall>n. \<not> hidden_name n \<longrightarrow> dget n vars = dget n vars')"

lemma sub_token_public: "agree_public vars vars' \<Longrightarrow> \<not> secret_token b \<Longrightarrow> sub_token vars b = sub_token vars' b"
  by (cases "parse_body b")
    (auto simp: sub_token_def secret_token_def parsed_name Let_def agree_public_def hidden_name_def value_text_def)

lemma seg_bodies_in: "Tok b \<in> set ss \<Longrightarrow> b \<in> set (seg_bodies ss)"
  by (induction ss rule: seg_bodies.induct) auto

lemma token_sub_cong: "list_all (\<lambda>b. f b = g b) (token_bodies s) \<Longrightarrow> token_sub f s = token_sub g s"
  by (auto simp: token_sub_def token_bodies_def list_all_iff intro!: arg_cong [where f = concat] dest!: seg_bodies_in split: seg.split)

lemma public_render: "agree_public vars vars' \<Longrightarrow> \<not> reads_secret tx \<Longrightarrow> render_string tx vars = render_string tx vars'"
proof -
  assume a: "agree_public vars vars'" "\<not> reads_secret tx"
  then have "list_all (\<lambda>b. sub_token vars b = sub_token vars' b) (token_bodies tx)"
    by (auto simp: reads_secret_def list_ex_iff list_all_iff intro: sub_token_public)
  then show ?thesis
    by (auto simp: render_string_def list_all_iff intro!: token_sub_cong arg_cong [where f = dedup] arg_cong [where f = concat])
qed

lemma dump_step_manual: "jget ''manual'' (dump_step s) = opt_with dump_manual (sp_manual s)"
  by (simp add: dump_step_def step_dict_def dget_def)

lemma dump_manual_get [simp]:
  "jget ''instructions'' (dump_manual m) = JStr (ms_instructions m)"
  by (simp add: dump_manual_def dget_def)

lemma checked_instructions:
  assumes "validate_step groups s0 = Inr s" and "sp_manual s = Some m"
  shows "\<not> reads_secret (ms_instructions m)"
proof -
  obtain v g w k t where "s = s0\<lparr>sp_validation := v, sp_guard := g, sp_wait := w, sp_manual := k, sp_timeout := t\<rparr>"
    and "check_opt validate_spec (sp_manual s0) = Inr k"
    using assms(1) by (rule validate_step_parts)
  with assms(2) obtain m0 where "validate_spec m0 = Inr m" by (auto simp: check_opt_iff split: option.splits)
  then show ?thesis by (auto simp: validate_spec_def checked_iff)
qed

lemma public_card_text: "agree_public vars vars' \<Longrightarrow> \<not> reads_secret (as_str raw) \<Longrightarrow> card_text vars secrets raw = card_text vars' secrets raw"
  by (simp add: card_text_def public_render [of vars vars'])

lemma public_card_field: "agree_public vars vars' \<Longrightarrow> card_field vars secrets dry f = card_field vars' secrets dry f"
  by (cases "is_secret_field f") (simp_all add: card_field_def Let_def is_secret_field_def public_card_text [of vars vars'])

text \<open>
  C12. The technician's card carries no secret: two sets of variables that differ only in the values of secret names
  give a saved manual step the same card, instructions, fields and checklist, in a dry run or not, and whatever
  values the scrubbing knows of.
\<close>

theorem manual_card_hides_secrets:
  assumes "validate_step groups s0 = Inr s" and "agree_public vars vars'"
  shows "fst (render_manual (dump_step s) vars secret_values dry_run notice) =
    fst (render_manual (dump_step s) vars' secret_values dry_run notice)"
proof -
  have "\<not> reads_secret (as_str (jget ''instructions'' (jget ''manual'' (dump_step s))))"
  proof (cases "sp_manual s")
    case None
    have "token_bodies [] = []" by code_simp
    with None show ?thesis by (simp add: dump_step_manual opt_with_def reads_secret_def)
  next
    case (Some m)
    with checked_instructions [OF assms(1) Some] show ?thesis by (simp add: dump_step_manual opt_with_def)
  qed
  then show ?thesis
    using public_card_text [OF assms(2)] public_card_field [OF assms(2)] by (simp add: render_manual_def Let_def)
qed

definition field_visit_step :: authored_step where
  "field_visit_step = \<lparr>sp_name = ''visit'', sp_driver = MANUAL_DRIVER, sp_template = None, sp_request = None, sp_validation = None,
     sp_timeout = 1800, sp_timeout_given = True, sp_target = None, sp_guard = None, sp_label = None, sp_hint = None,
     sp_idempotent = False, sp_config_mode = False, sp_capture = [], sp_wait = None, sp_undoes = None,
     sp_manual = Some \<lparr>ms_instructions = ''Set up {{cpe.serial}}'',
       ms_fields = [\<lparr>mf_key = ''wifi'', mf_label = ''Wifi'', mf_value = ''{{secret.wifi}}'', mf_copyable = True,
         mf_secret = True, mf_secret_given = True\<rparr>], ms_checklist = []\<rparr>\<rparr>"

definition visit_card :: json where
  "visit_card = JDict [(''instructions'', JStr ''Set up ZX1''),
     (''fields'', JList [JDict [(''key'', JStr ''wifi''), (''label'', JStr ''Wifi''), (''value'', JNull),
        (''copyable'', JBool True), (''secret'', JBool True)]]), (''checklist'', JList [])]"

theorem manual_card_hides_secrets_witness:
  "fst (render_manual (dump_step field_visit_step) [(''cpe.serial'', JStr ''ZX1''), (''secret.wifi'', JStr ''hunter22'')] [] False False) = visit_card \<and>
   fst (render_manual (dump_step field_visit_step) [(''cpe.serial'', JStr ''ZX1''), (''secret.wifi'', JStr ''letmein9'')] [] False False) = visit_card"
proof -
  have v: "validate_step count_groups field_visit_step = Inr field_visit_step" by code_simp
  have c: "fst (render_manual (dump_step field_visit_step) [(''cpe.serial'', JStr ''ZX1''), (''secret.wifi'', JStr ''hunter22'')] [] False False) = visit_card"
    by code_simp
  have "agree_public [(''cpe.serial'', JStr ''ZX1''), (''secret.wifi'', JStr ''hunter22'')]
      [(''cpe.serial'', JStr ''ZX1''), (''secret.wifi'', JStr ''letmein9'')]"
    by (auto simp: agree_public_def dget_def hidden_name_def)
  from manual_card_hides_secrets [OF v this, of "[]" False False] c show ?thesis by simp
qed

section \<open>The computed block of a saved definition\<close>

definition static_code :: "ecode \<Rightarrow> bool" where
  \<comment> \<open>an error the definition shows by itself\<close>
  "static_code c \<longleftrightarrow> c = COMPUTE_SYNTAX \<or> c = COMPUTE_LIMIT \<or> c = COMPUTE_NAME \<or> c = COMPUTE_SECRET"

lemma bounded_codes: "bounded x = Inl (ExprError c) \<Longrightarrow> \<not> static_code c"
  by (auto simp: bounded_def static_code_def split: if_splits)

lemma evaluate_codes: "evaluate e env = Inl (ExprError c) \<Longrightarrow> \<not> static_code c"
proof (induction e)
  case (EBin p l r)
  then show ?case
    by (auto simp: bindR_Inl_iff apply_op_def trunc_div_def Let_def static_code_def dest: bounded_codes split: if_splits)
next
  case (EName w)
  then show ?case by (auto split: option.splits)
next
  case (ENeg e)
  then show ?case by (auto simp: bindR_Inl_iff dest: bounded_codes)
qed simp

lemma coerce_codes: "\<not> is_secret_name n \<Longrightarrow> coerce_operand n v = Inl (ExprError c) \<Longrightarrow> \<not> static_code c"
  by (auto simp: coerce_operand_def static_code_def split: json.splits if_splits dest: bounded_codes)

definition reads_well :: "string \<Rightarrow> string list \<Rightarrow> string list \<Rightarrow> bool" where
  "reads_well own D ns \<longleftrightarrow>
     list_all (\<lambda>n. \<not> is_secret_name n \<and> (prefix ''computed.'' n \<longrightarrow> n \<in> set D \<and> n \<noteq> own)) ns"

lemma operand_loop_codes:
  "reads_well own D ns \<Longrightarrow> list_all (\<lambda>n. \<not> prefix ''computed.'' n) miss \<Longrightarrow> operand_loop own V D vars ns miss env skip = (m, r) \<Longrightarrow>
     list_all (\<lambda>n. \<not> prefix ''computed.'' n) m \<and> (\<forall>c. r = Inl (ExprError c) \<longrightarrow> \<not> static_code c)"
proof (induction ns arbitrary: miss env skip)
  case (Cons name rest)
  have w: "reads_well own D rest" "\<not> is_secret_name name" "prefix ''computed.'' name \<Longrightarrow> name \<in> set D \<and> name \<noteq> own"
    using Cons.prems(1) by (simp_all add: reads_well_def)
  show ?case
  proof (cases "prefix ''computed.'' name")
    case True
    show ?thesis
    proof (cases "V name")
      case None
      with Cons.prems(3) w True have "operand_loop own V D vars rest miss env True = (m, r)" by (auto simp: operand_loop.simps(2))
      from Cons.IH [OF w(1) Cons.prems(2) this] show ?thesis .
    next
      case (Some i)
      with Cons.prems(3) w True have "operand_loop own V D vars rest miss (env(name \<mapsto> i)) skip = (m, r)" by (auto simp: operand_loop.simps(2))
      from Cons.IH [OF w(1) Cons.prems(2) this] show ?thesis .
    qed
  next
    case False
    show ?thesis
    proof (cases "vars name = None \<or> vars name = Some JNull")
      case True
      with Cons.prems(3) w False have "operand_loop own V D vars rest (if name \<in> set miss then miss else miss @ [name]) env True = (m, r)"
        by (auto simp: operand_loop.simps(2))
      from Cons.IH [OF w(1) _ this] Cons.prems(2) False show ?thesis by auto
    next
      case nn: False
      then obtain v where v: "vars name = Some v" "v \<noteq> JNull" by auto
      show ?thesis
      proof (cases "coerce_operand name v")
        case (Inl e)
        with Cons.prems(2,3) w False v show ?thesis by (cases v) (auto simp: operand_loop.simps(2) dest: coerce_codes)
      next
        case (Inr i)
        with Cons.prems(3) w False v have "operand_loop own V D vars rest miss (env(name \<mapsto> i)) skip = (m, r)"
          by (cases v) (auto simp: operand_loop.simps(2))
        from Cons.IH [OF w(1) Cons.prems(2) this] show ?thesis .
      qed
    qed
  qed
qed auto

definition runs_clean :: "eval_state \<Rightarrow> bool" where
  "runs_clean st \<longleftrightarrow> list_all (\<lambda>ck. \<not> static_code (fst ck)) (ev_errors st) \<and>
     list_all (\<lambda>n. \<not> prefix ''computed.'' n) (ev_missing st)"

lemma dump_computed_get [simp]:
  "jget ''key'' (dump_computed c) = JStr (cv_name c)" "jget ''expr'' (dump_computed c) = JStr (cv_expr c)"
  "is_bound (jget ''min'' (dump_computed c))" "is_bound (jget ''max'' (dump_computed c))"
  by (simp_all add: dump_computed_def dget_def is_bound_def opt_int_def split: option.splits)

lemma entry_codes:
  assumes "parse (cv_expr c) = Inr t" and "reads_well (computed_name (cv_name c)) (ev_declared st) (names t)" and "runs_clean st"
    and "entry_result (cv_name c) (dump_computed c) (cv_expr c) vars st = (m, r)"
  shows "list_all (\<lambda>n. \<not> prefix ''computed.'' n) m \<and> (\<forall>e. r = Inl (ExprError e) \<longrightarrow> \<not> static_code e)"
proof -
  obtain m' r' where l: "operand_loop (computed_name (cv_name c)) (map_of (ev_values st)) (ev_declared st) vars (names t)
      (ev_missing st) Map.empty False = (m', r')"
    by (cases "operand_loop (computed_name (cv_name c)) (map_of (ev_values st)) (ev_declared st) vars (names t)
      (ev_missing st) Map.empty False")
  note oc = operand_loop_codes [OF assms(2) _ l]
  from assms(4) l oc assms(1,3) show ?thesis
    by (cases r') (auto simp: entry_result_def runs_clean_def bindR_Inl_iff static_code_def [of COMPUTE_RANGE]
        dest: evaluate_codes split: if_splits prod.splits)
qed

lemma entry_runs_clean:
  assumes "parse (cv_expr c) = Inr t" and "reads_well (computed_name (cv_name c)) (ev_declared st) (names t)" and "runs_clean st"
    and "eval_entry vars (dump_computed c) st = Inr st'"
  shows "runs_clean st' \<and> ev_declared st' = computed_name (cv_name c) # ev_declared st"
proof -
  let ?st = "st\<lparr>ev_declared := computed_name (cv_name c) # ev_declared st\<rparr>"
  obtain m r where e: "entry_result (cv_name c) (dump_computed c) (cv_expr c) vars ?st = (m, r)"
    by (cases "entry_result (cv_name c) (dump_computed c) (cv_expr c) vars ?st")
  have "reads_well (computed_name (cv_name c)) (ev_declared ?st) (names t)" "runs_clean ?st"
    using assms(2,3) by (auto simp: reads_well_def runs_clean_def list_all_iff)
  from entry_codes [OF assms(1) this e] assms(3,4) e show ?thesis
    by (auto simp: eval_entry_def runs_clean_def Let_def split: sum.splits option.splits eexc.splits)
qed

lemma block_runs_clean:
  "computed_order cs earlier = Inr E \<Longrightarrow> set earlier = set (ev_declared st) \<Longrightarrow> runs_clean st \<Longrightarrow>
     eval_entries vars (map dump_computed cs) st = Inr st' \<Longrightarrow>
     runs_clean st' \<and> set E = set earlier \<union> (\<lambda>c. computed_name (cv_name c)) ` set cs"
proof (induction cs arbitrary: earlier st)
  case (Cons c cs)
  from Cons.prems(1) obtain t where p: "parse (cv_expr c) = Inr t" and n: "computed_name (cv_name c) \<notin> set earlier"
    and s: "\<not> list_ex is_secret_name (names t)" and o: "\<not> list_ex (\<lambda>n. prefix ''computed.'' n \<and> n \<notin> set earlier) (names t)"
    and rest: "computed_order cs (computed_name (cv_name c) # earlier) = Inr E"
    by (auto simp: guardR_Inr_iff split: sum.splits)
  have w: "reads_well (computed_name (cv_name c)) (ev_declared st) (names t)"
    using n s o Cons.prems(2) by (auto simp: reads_well_def list_all_iff list_ex_iff)
  from Cons.prems(4) obtain st1 where e: "eval_entry vars (dump_computed c) st = Inr st1"
    and es: "eval_entries vars (map dump_computed cs) st1 = Inr st'" by (auto simp: bindR_Inr_iff)
  note r = entry_runs_clean [OF p w Cons.prems(3) e]
  from Cons.IH [OF rest _ _ es] r Cons.prems(2) show ?case by auto
qed simp

lemma computed_token:
  assumes "parse_body body = Inr t" and "te_name t = ''computed'' @ ''.'' @ k"
  shows "computed_head body \<and> (\<forall>v. computed_ref body = Some v \<longrightarrow> v = k)"
proof -
  have seg: "is_segment ''computed''" by code_simp
  obtain w ws r where b: "dropWhile is_blank body = ''computed'' @ ''.'' @ w @ ws @ r" and k: "k = w @ ws"
    and w: "takeWhile is_word_char (w @ ws @ r) = w" and r: "skip_ws r = [] \<or> hd (skip_ws r) = CHR ''|''"
    using assms seg by (rule name_in_body)
  have h: "computed_head body" by (simp add: computed_head_def b is_alnum_def is_lower_def is_upper_def is_digit_def)
  have "v = k" if v: "computed_ref body = Some v" for v
  proof -
    have dr: "dropWhile is_word_char (w @ ws @ r) = ws @ r"
      using w takeWhile_dropWhile_id [of is_word_char "w @ ws @ r"] by (metis append_same_eq same_append_eq)
    from v have "v = w" and rest: "dropWhile is_blank (ws @ r) = [] \<or> hd (dropWhile is_blank (ws @ r)) = CHR ''|''"
      by (auto simp: computed_ref_def b w dr Let_def split: if_splits)
    have "ws = []"
    proof (rule ccontr)
      assume ne: "ws \<noteq> []"
      then obtain c cs where c: "ws = c # cs" by (cases ws) auto
      obtain u x s where "list_all is_token_name_char (te_name t)" using assms(1) by (rule parsed_parts)
      then have "is_token_name_char c" by (simp add: assms(2) k c)
      then have "\<not> is_blank c" "c \<noteq> CHR ''|''" using name_char_plain by (auto simp: is_blank_def is_space_def)
      with rest c show False by simp
    qed
    with \<open>v = w\<close> k show ?thesis by simp
  qed
  with h show ?thesis by blast
qed

lemma computed_order_names:
  "computed_order cs earlier = Inr E \<Longrightarrow> set E = set earlier \<union> (\<lambda>c. computed_name (cv_name c)) ` set cs"
proof (induction cs arbitrary: earlier)
  case (Cons c cs)
  then have "computed_order cs (computed_name (cv_name c) # earlier) = Inr E" by (auto simp: guardR_Inr_iff split: sum.splits)
  from Cons.IH [OF this] show ?case by auto
qed simp

lemma computed_key_declared:
  assumes "check_computed d = Inr ()" and "tx \<in> set (all_texts d)" and "body \<in> set (token_bodies tx)"
    and "parse_body body = Inr t" and "te_name t = ''computed'' @ ''.'' @ k"
  shows "k \<in> cv_name ` set (df_computed d)"
proof -
  from assms(1) obtain E where E: "computed_order (df_computed d) [] = Inr E"
    and n: "None \<notin> set (computed_uses (all_texts d))"
    and u: "\<not> list_ex (\<lambda>u. case u of None \<Rightarrow> False | Some k \<Rightarrow> computed_name k \<notin> set E) (computed_uses (all_texts d))"
    by (auto simp: check_computed_def checked_iff)
  note tk = computed_token [OF assms(4,5)]
  have use: "computed_ref body \<in> set (computed_uses (all_texts d))"
    using assms(2,3) tk by (force simp: computed_uses_def)
  with n obtain v where v: "computed_ref body = Some v" by (cases "computed_ref body") auto
  with tk have "v = k" by blast
  with use u v have "computed_name k \<in> set E" by (auto simp: list_ex_iff)
  moreover have "set E = (\<lambda>c. computed_name (cv_name c)) ` set (df_computed d)"
    using computed_order_names [OF E] by simp
  ultimately show ?thesis by (auto simp: computed_name_def)
qed

lemma dumped_blocks [simp]:
  "jget ''computed'' (dump_definition d) = JList (map dump_computed (df_computed d))"
  "jget ''variables'' (dump_definition d) = JList (map dump_variable (df_variables d))"
  by (simp_all add: dump_definition_def dget_def)

lemma accepted_variables:
  assumes "validate_definition groups a = Inr d" and "v \<in> set (df_variables d)"
  shows "is_segment (vd_key v)"
proof -
  obtain mid where mid: "validate_parts groups a = Inr mid" and d: "d = mid\<lparr>df_outputs := df_outputs d\<rparr>"
    using assms(1) by (rule accepted_parts)
  have "df_variables d = df_variables a" by (subst d) (use mid in \<open>auto simp: validate_parts_def checked_iff\<close>)
  with mid assms(2) obtain y where "validate_variable v = Inr y"
    by (auto simp: validate_parts_def checked_iff dest: check_all_each)
  then show ?thesis by (auto simp: validate_variable_def checked_iff)
qed

lemma segment_not_computed: "is_segment k \<Longrightarrow> \<not> prefix ''computed.'' k"
  using segment_word_chars [of k] not_word_chars(1) by (auto simp: prefix_def)

definition run_time_problem :: "missing_item \<Rightarrow> bool" where
  \<comment> \<open>a value the caller did not give, or an error of the values\<close>
  "run_time_problem x =
     (case x of MissingKey n \<Rightarrow> \<not> prefix ''computed.'' n | ComputedError k c \<Rightarrow> \<not> static_code c)"

definition computed_names_read :: "authored \<Rightarrow> string list" where
  "computed_names_read d = filter (prefix ''computed.'') (concat (map find_variables (all_texts d)))"

lemma computed_name_read:
  assumes "check_computed d = Inr ()" and "n \<in> set (computed_names_read d)"
  shows "n \<in> set (declared_names (map dump_computed (df_computed d)))"
proof -
  from assms(2) obtain tx body t where b: "tx \<in> set (all_texts d)" "body \<in> set (token_bodies tx)" "parse_body body = Inr t"
    and n: "te_name t = n" "prefix ''computed.'' n"
    by (auto simp: computed_names_read_def find_variables_def List.map_filter_def split: sum.splits)
  then obtain k where k: "te_name t = ''computed'' @ ''.'' @ k" by (auto simp: prefix_def)
  from computed_key_declared [OF assms(1) b k] n(1) k show ?thesis
    by (force simp: declared_names_def computed_name_def)
qed

text \<open>
  C9. What is wrong with a computed block by itself is found when it is saved: resolving the variables of a saved
  definition never reports a syntax, limit, name or secret error, nor a computed name as missing, whatever the caller
  gives; and when nothing is missing, every computed name any text of the definition reads has an integer value.
\<close>

theorem saved_computed_block_runs:
  assumes accepted: "validate_definition groups a = Inr d"
    and vars: "resolve_variables (dump_definition d) provided = Inr (vars, missing)"
  shows "list_all run_time_problem missing \<and>
    (missing = [] \<longrightarrow> list_all (\<lambda>n. case dget n vars of JInt i \<Rightarrow> True | _ \<Rightarrow> False) (computed_names_read d))"
proof -
  let ?es = "map dump_computed (df_computed d)"
  have cc: "check_computed d = Inr ()" using accepted by (rule accepted_parts)
  obtain r m st where md: "merge_declared provided (map dump_variable (df_variables d)) ([], []) = Inr (r, m)"
    and ev: "evaluate_all (JList ?es) (map_of (fold pass_through provided r)) = Inr st"
    and vs: "vars = dict_update (fold pass_through provided r) (map (\<lambda>(k, v). (k, JInt v)) (ev_values st))"
    and ms: "missing = m @ map MissingKey (ev_missing st) @ map (\<lambda>(c, k). ComputedError k c) (ev_errors st)"
    using vars by (rule resolve_variables_elim) simp
  from cc obtain E where E: "computed_order (df_computed d) [] = Inr E" by (auto simp: check_computed_def checked_iff)
  have es: "eval_entries (map_of (fold pass_through provided r)) ?es init_eval = Inr st"
    using ev by (simp add: evaluate_all_def)
  have "runs_clean st" using block_runs_clean [OF E _ _ es] by (simp add: init_eval_def runs_clean_def)
  moreover have "run_time_problem x" if "x \<in> set m" for x
    using merge_declared_missing [OF md that] accepted_variables [OF accepted] segment_not_computed
    by (auto simp: run_time_problem_def dump_variable_def dget_def)
  ultimately have a: "list_all run_time_problem missing"
    by (auto simp: ms runs_clean_def list_all_iff run_time_problem_def)
  have "case dget n vars of JInt i \<Rightarrow> True | _ \<Rightarrow> False" if "missing = []" "n \<in> set (computed_names_read d)" for n
  proof -
    have "map_of (ev_values st) n \<noteq> None"
      using evaluate_complete [OF ev] computed_name_read [OF cc that(2)] that(1) by (simp add: ms)
    then have "map_of (rev (ev_values st)) n \<noteq> None" by (simp add: map_of_eq_None_iff)
    then show ?thesis by (auto simp: vs dget_def map_of_dict_update map_of_json_values map_add_def split: option.splits)
  qed
  with a show ?thesis by (auto simp: list_all_iff)
qed

definition vlan_playbook :: authored where
  "vlan_playbook = \<lparr>df_variables = [], df_computed = [\<lparr>cv_name = ''outer'', cv_expr = ''service_plan.vlan + 100'', cv_min = Some 1, cv_max = Some 4094\<rparr>],
     df_session = None, df_secrets = [], df_preconditions = [], df_configuration = [command_step ''tag'' ''vlan {{computed.outer}}''],
     df_verification = [], df_rollback = [], df_outputs = []\<rparr>"

theorem saved_computed_block_runs_witness:
  "list_all (\<lambda>n. case dget n [(''service_plan.vlan'', JInt 7), (''computed.outer'', JInt 107)] of JInt i \<Rightarrow> True | _ \<Rightarrow> False)
     (computed_names_read vlan_playbook) \<and> computed_names_read vlan_playbook = [''computed.outer'']"
proof -
  have p: "validate_parts count_groups vlan_playbook = Inr vlan_playbook" by code_simp
  have w: "validate_whole vlan_playbook = Inr vlan_playbook" by code_simp
  from p w have v: "validate_definition count_groups vlan_playbook = Inr vlan_playbook" by (simp add: validate_definition_def)
  have r: "resolve_variables (dump_definition vlan_playbook) [(''service_plan.vlan'', JInt 7)]
     = Inr ([(''service_plan.vlan'', JInt 7), (''computed.outer'', JInt 107)], [])" by code_simp
  have "computed_names_read vlan_playbook = [''computed.outer'']" by code_simp
  with saved_computed_block_runs [OF v r] show ?thesis by simp
qed

end
