(* ===== verification/Schema_Reload.thy ===== *)
theory Schema_Reload
  imports Render_Properties
begin

text \<open>
  What is stored of a playbook validates again, unchanged: the validators of \<open>schemas/playbook.py\<close> are settled
  after one run.
\<close>

section \<open>A definition read back\<close>

text \<open>What is parsed from a dump has every field set: the fields the validators ask \<open>model_fields_set\<close> for.\<close>

definition reload_field :: "manual_field \<Rightarrow> manual_field" where
  "reload_field f = f\<lparr>mf_secret_given := True\<rparr>"

definition reload_spec :: "manual_spec \<Rightarrow> manual_spec" where
  "reload_spec m = m\<lparr>ms_fields := map reload_field (ms_fields m)\<rparr>"

definition reload_step :: "authored_step \<Rightarrow> authored_step" where
  "reload_step s = s\<lparr>sp_timeout_given := True, sp_manual := map_option reload_spec (sp_manual s)\<rparr>"

definition reload_output :: "output_decl \<Rightarrow> output_decl" where
  "reload_output ou = ou\<lparr>od_sensitive_given := True\<rparr>"

definition reload :: "authored \<Rightarrow> authored" where
  "reload d = d\<lparr>df_preconditions := map reload_step (df_preconditions d), df_configuration := map reload_step (df_configuration d),
     df_verification := map reload_step (df_verification d), df_rollback := map reload_step (df_rollback d),
     df_outputs := map reload_output (df_outputs d)\<rparr>"

lemma check_all_again:
  "(\<And>x y. x \<in> set xs \<Longrightarrow> f x = Inr y \<Longrightarrow> f (g y) = Inr (g y)) \<Longrightarrow> check_all f xs = Inr ys \<Longrightarrow>
     check_all f (map g ys) = Inr (map g ys)"
proof (induction xs arbitrary: ys)
  case (Cons x xs)
  then obtain y ys' where y: "f x = Inr y" "check_all f xs = Inr ys'" "ys = y # ys'" by (auto simp: bindR_Inr_iff)
  have "check_all f (map g ys') = Inr (map g ys')" by (rule Cons.IH [OF Cons.prems(1) y(2)]) auto
  with Cons.prems(1) [OF _ y(1)] y(3) show ?case by simp
qed simp

lemma check_all_keeps: "(\<And>x y. f x = Inr y \<Longrightarrow> y = x) \<Longrightarrow> check_all f xs = Inr ys \<Longrightarrow> ys = xs"
  by (induction xs arbitrary: ys) (auto simp: bindR_Inr_iff)

lemma reload_field_valid: "validate_field f = Inr f' \<Longrightarrow> validate_field (reload_field f') = Inr (reload_field f')"
  by (auto simp: validate_field_def reload_field_def checked_iff)

lemma validate_check_keeps: "validate_check c = Inr c' \<Longrightarrow> c' = c"
  by (auto simp: validate_check_def checked_iff)

lemma reload_keys: "map mf_key (map reload_field fs) = map mf_key fs"
  by (simp add: reload_field_def)

lemma reload_spec_valid:
  assumes "validate_spec m = Inr m'"
  shows "validate_spec (reload_spec m') = Inr (reload_spec m')"
proof -
  from assms obtain fs cs where f: "check_all validate_field (ms_fields m) = Inr fs"
    and c: "check_all validate_check (ms_checklist m) = Inr cs" and m': "m' = m\<lparr>ms_fields := fs, ms_checklist := cs\<rparr>"
    and rest: "str_strip (ms_instructions m) \<noteq> []" "length (ms_instructions m) \<le> MANUAL_MAX_INSTRUCTIONS"
      "\<not> reads_secret (ms_instructions m)" "length fs \<le> MANUAL_MAX_FIELDS" "length cs \<le> MANUAL_MAX_CHECKLIST"
      "unique_keys (map mf_key fs) ''field'' = Inr ()" "unique_keys (map mk_key cs) ''checklist'' = Inr ()"
    by (auto simp: validate_spec_def checked_iff)
  have "check_all validate_field (map reload_field fs) = Inr (map reload_field fs)"
    by (rule check_all_again [OF reload_field_valid f])
  moreover have "cs = ms_checklist m" using validate_check_keeps c by (rule check_all_keeps)
  ultimately show ?thesis
    using c rest by (simp add: validate_spec_def reload_spec_def m' reload_keys del: map_map)
qed

lemma validate_checks_keeps: "validate_checks groups v = Inr v' \<Longrightarrow> v' = v"
  by (auto simp: validate_checks_def checked_iff)

lemma validate_guard_keeps: "validate_guard groups g = Inr g' \<Longrightarrow> g' = g"
  by (auto simp: validate_guard_def checked_iff dest!: validate_checks_keeps)

lemma validate_wait_keeps: "validate_wait w = Inr w' \<Longrightarrow> w' = w"
  by (auto simp: validate_wait_def checked_iff)

lemma check_opt_keeps: "(\<And>x y. f x = Inr y \<Longrightarrow> y = x) \<Longrightarrow> check_opt f v = Inr w \<Longrightarrow> w = v"
  by (auto simp: check_opt_iff split: option.splits)

lemma reload_spec_opt: "check_opt validate_spec v = Inr w \<Longrightarrow> check_opt validate_spec (map_option reload_spec w) = Inr (map_option reload_spec w)"
  by (auto simp: check_opt_iff dest: reload_spec_valid split: option.splits)

lemma payload_again:
  assumes "validate_payload s = Inr s'"
  shows "validate_payload (reload_step s') = Inr (reload_step s')"
proof (cases "sp_driver s = MANUAL_DRIVER")
  case True
  with assms obtain t where "s' = s\<lparr>sp_timeout := t\<rparr>" "sp_manual s \<noteq> None" "\<not> manual_refused s"
    "MANUAL_TIMEOUT_MIN \<le> t" "t \<le> MANUAL_TIMEOUT_MAX"
    by (auto simp: validate_payload_def validate_manual_def checked_iff)
  with True show ?thesis by (simp add: validate_payload_def validate_manual_def reload_step_def manual_refused_def guardR_def)
next
  case False
  with assms have "s' = s" "sp_manual s = None" "\<not> lacks_payload s" "1 \<le> sp_timeout s \<and> sp_timeout s \<le> 600"
    "length (sp_capture s) \<le> MAX_CAPTURES_PER_STEP"
    by (auto simp: validate_payload_def checked_iff)
  moreover have "lacks_payload (reload_step s) = lacks_payload s" by (simp add: lacks_payload_def reload_step_def)
  moreover have "sp_driver (reload_step s) = sp_driver s" "sp_manual (reload_step s) = map_option reload_spec (sp_manual s)"
    "sp_timeout (reload_step s) = sp_timeout s" "sp_capture (reload_step s) = sp_capture s" by (simp_all add: reload_step_def)
  ultimately show ?thesis using False by (simp add: validate_payload_def guardR_def)
qed

lemma payload_timeout: "validate_payload s = Inr s' \<Longrightarrow> s' = s\<lparr>sp_timeout := sp_timeout s'\<rparr>"
  by (auto simp: validate_payload_def validate_manual_def checked_iff split: if_splits)

lemma reload_step_valid:
  assumes "validate_step groups s0 = Inr s"
  shows "validate_step groups (reload_step s) = Inr (reload_step s)"
proof -
  from assms obtain v g cs w m where d: "sp_driver s0 \<in> set PLAYBOOK_DRIVERS"
    and v: "check_opt (validate_checks groups) (sp_validation s0) = Inr v"
    and g: "check_opt (validate_guard groups) (sp_guard s0) = Inr g"
    and lb: "static_text (sp_label s0) MAX_LABEL ''step label'' = Inr ()" "static_text (sp_hint s0) MAX_HINT ''step hint'' = Inr ()"
    and cs: "check_all (validate_capture groups) (sp_capture s0) = Inr cs" and w: "check_opt validate_wait (sp_wait s0) = Inr w"
    and m: "check_opt validate_spec (sp_manual s0) = Inr m"
    and p: "validate_payload (s0\<lparr>sp_validation := v, sp_guard := g, sp_capture := cs, sp_wait := w, sp_manual := m\<rparr>) = Inr s"
    by (auto simp: validate_step_def checked_iff)
  have keep: "v = sp_validation s0" "g = sp_guard s0" "cs = sp_capture s0" "w = sp_wait s0"
    using check_opt_keeps [OF validate_checks_keeps v] check_opt_keeps [OF validate_guard_keeps g]
      check_captures [OF cs] check_opt_keeps [OF validate_wait_keeps w] by simp_all
  have s: "s = s0\<lparr>sp_validation := v, sp_guard := g, sp_capture := cs, sp_wait := w, sp_manual := m, sp_timeout := sp_timeout s\<rparr>"
    using payload_timeout [OF p] by simp
  let ?r = "reload_step s"
  have f: "sp_driver ?r = sp_driver s0" "sp_validation ?r = v" "sp_guard ?r = g" "sp_label ?r = sp_label s0" "sp_hint ?r = sp_hint s0"
    "sp_capture ?r = cs" "sp_wait ?r = w" "sp_manual ?r = map_option reload_spec m"
    by (subst s, simp add: reload_step_def)+
  have e: "?r\<lparr>sp_validation := v, sp_guard := g, sp_capture := cs, sp_wait := w, sp_manual := map_option reload_spec m\<rparr> = ?r"
    using f by (intro authored_step.equality) simp_all
  show ?thesis
    unfolding validate_step_def f
    using d v g lb cs w reload_spec_opt [OF m] payload_again [OF p] e keep by (simp only: guardR_simps bindR_simps simp_thms)
qed

section \<open>The dump does not see what was set\<close>

lemma dump_reload_step: "step_dict cs (reload_step s) = step_dict cs s"
proof -
  have "dump_manual (reload_spec m) = dump_manual m" for m
    by (simp add: dump_manual_def reload_spec_def dump_field_def reload_field_def comp_def)
  then have "opt_with dump_manual (map_option reload_spec v) = opt_with dump_manual v" for v
    by (cases v) (simp_all add: opt_with_def)
  then show ?thesis by (simp add: step_dict_def reload_step_def)
qed

lemma reload_step_simps [simp]:
  "sp_name (reload_step s) = sp_name s" "sp_capture (reload_step s) = sp_capture s" "sp_driver (reload_step s) = sp_driver s"
  "sp_undoes (reload_step s) = sp_undoes s" "sp_guard (reload_step s) = sp_guard s" "sp_idempotent (reload_step s) = sp_idempotent s"
  "sp_wait (reload_step s) = sp_wait s" "sp_config_mode (reload_step s) = sp_config_mode s"
  by (simp_all add: reload_step_def)

lemma reload_dumps [simp]:
  "dump_step (reload_step s) = dump_step s" "own_texts (reload_step s) = own_texts s" "step_texts (reload_step s) = step_texts s"
  "is_notice (reload_step s) = is_notice s" "wait_allowed p (reload_step s) = wait_allowed p s"
  by (simp_all add: dump_step_def own_texts_def step_texts_def dump_reload_step is_notice_def wait_allowed_def)
    (simp add: reload_step_def reload_spec_def split: option.split)

lemma reload_output_simps [simp]:
  "od_key (reload_output ou) = od_key ou" "od_value (reload_output ou) = od_value ou" "od_sensitive (reload_output ou) = od_sensitive ou"
  "od_audience (reload_output ou) = od_audience ou" "dump_output (reload_output ou) = dump_output ou"
  "customer_sensitive (reload_output ou) = customer_sensitive ou" "od_label (reload_output ou) = od_label ou"
  "od_shareable (reload_output ou) = od_shareable ou"
  by (simp_all add: reload_output_def dump_output_def customer_sensitive_def)

lemma reload_simps [simp]:
  "df_variables (reload d) = df_variables d" "df_computed (reload d) = df_computed d" "df_session (reload d) = df_session d"
  "df_secrets (reload d) = df_secrets d" "df_outputs (reload d) = map reload_output (df_outputs d)"
  "df_preconditions (reload d) = map reload_step (df_preconditions d)" "df_configuration (reload d) = map reload_step (df_configuration d)"
  "df_verification (reload d) = map reload_step (df_verification d)" "df_rollback (reload d) = map reload_step (df_rollback d)"
  by (simp_all add: reload_def)

lemma steps_in_reload [simp]: "steps_in p (reload d) = map reload_step (steps_in p d)"
  by (cases p) simp_all

lemma phase_list_reload: "phase_list (reload d) = map (\<lambda>(p, s). (p, reload_step s)) (phase_list d)"
  by (simp add: phase_list_def map_concat comp_def)

lemma reload_lists [simp]:
  "all_steps (reload d) = map reload_step (all_steps d)" "forward_steps (reload d) = map reload_step (forward_steps d)"
  "multi_keys (reload d) = multi_keys d" "visible_refs (reload d) = visible_refs d"
  "late_texts (reload d) = late_texts d" "all_texts (reload d) = all_texts d"
  by (simp_all add: all_steps_append forward_steps_def multi_keys_def visible_refs_def late_texts_def all_texts_def comp_def)

lemma dump_reload: "dump_definition (reload d) = dump_definition d"
  by (simp add: dump_definition_def comp_def)

lemma place_reload: "place_step (reload d) (p, reload_step s) = place_step d (p, s)"
  by (simp add: place_step_def Let_def image_image cong: option.case_cong)

lemma flow_reload: "capture_flow (map reload_step ss) D = capture_flow ss D"
  by (induction ss arbitrary: D) (simp_all cong: bindR_cong)

section \<open>Validating again\<close>

lemma settled_again:
  assumes "settle_output visible d0 = Inr d" and "\<not> customer_sensitive d" and "validate_output d0 = Inr y"
  shows "settle_output visible (reload_output d) = Inr (reload_output d) \<and> validate_output (reload_output d) = Inr (reload_output d)"
proof -
  have d: "d = d0 \<or> d = d0\<lparr>od_sensitive := True\<rparr>" using assms(1) by (auto simp: settle_output_def checked_iff split: option.splits if_splits)
  have s: "case output_secret_ref (od_value d) of None \<Rightarrow> True | Some r \<Rightarrow> od_sensitive d \<or> r \<in> set visible"
    using assms(1) by (rule settle_output_settled)
  then have "settle_output visible (reload_output d) = Inr (reload_output d)"
    by (auto simp: settle_output_def guardR_def reload_output_def split: option.splits)
  moreover have "validate_output (reload_output d) = Inr (reload_output d)"
    using d assms(2,3) by (auto simp: validate_output_def checked_iff customer_sensitive_def)
  ultimately show ?thesis by simp
qed

lemma outputs_again:
  "check_all (settle_output visible) xs = Inr ys \<Longrightarrow> check_all validate_output xs = Inr zs \<Longrightarrow> \<not> list_ex customer_sensitive ys \<Longrightarrow>
     check_all (settle_output visible) (map reload_output ys) = Inr (map reload_output ys) \<and>
     check_all validate_output (map reload_output ys) = Inr (map reload_output ys)"
proof (induction xs arbitrary: ys zs)
  case (Cons x xs)
  then obtain y ys' z zs' where y: "settle_output visible x = Inr y" "check_all (settle_output visible) xs = Inr ys'" "ys = y # ys'"
    and z: "validate_output x = Inr z" "check_all validate_output xs = Inr zs'" by (auto simp: bindR_Inr_iff)
  from settled_again [OF y(1) _ z(1)] Cons.IH [OF y(2) z(2)] y(3) Cons.prems(3) show ?case by simp
qed simp

lemma check_all_total: "list_all (\<lambda>x. f x = Inr ()) xs \<Longrightarrow> check_all f xs = Inr (map (\<lambda>_. ()) xs)"
  by (induction xs) simp_all

lemma parts_again:
  assumes "validate_parts groups a = Inr mid" and "check_all (settle_output visible) (df_outputs mid) = Inr outs"
    and "\<not> list_ex customer_sensitive outs" and d: "d = mid\<lparr>df_outputs := outs\<rparr>"
  shows "validate_parts groups (reload d) = Inr (reload d)"
proof -
  from assms(1) obtain vs cs ses scs pre cfg ver rol zs where p:
    "check_all validate_variable (df_variables a) = Inr vs" "check_all validate_computed (df_computed a) = Inr cs"
    "check_opt (validate_session groups) (df_session a) = Inr ses" "check_all validate_secret (df_secrets a) = Inr scs"
    and s: "check_all (validate_step groups) (df_preconditions a) = Inr pre" "check_all (validate_step groups) (df_configuration a) = Inr cfg"
    "check_all (validate_step groups) (df_verification a) = Inr ver" "check_all (validate_step groups) (df_rollback a) = Inr rol"
    and o: "check_all validate_output (df_outputs a) = Inr zs"
    and mid: "mid = a\<lparr>df_preconditions := pre, df_configuration := cfg, df_verification := ver, df_rollback := rol\<rparr>"
    by (auto simp: validate_parts_def checked_iff)
  have "df_outputs mid = df_outputs a" by (simp add: mid)
  with outputs_again [OF assms(2) _ assms(3)] o have
    outs: "check_all validate_output (map reload_output outs) = Inr (map reload_output outs)" by simp
  note again = s [THEN check_all_again [rotated], OF reload_step_valid]
  show ?thesis
    unfolding validate_parts_def using p again outs by (simp add: d mid reload_def)
qed

lemma whole_again:
  assumes "validate_definition groups a = Inr d"
  shows "validate_whole (reload d) = Inr (reload d)"
proof -
  obtain mid where mid: "validate_parts groups a = Inr mid" and d: "d = mid\<lparr>df_outputs := df_outputs d\<rparr>"
    and n: "distinct (map sp_name (all_steps d))" and pl: "list_all (\<lambda>ps. place_step mid ps = Inr ()) (phase_list d)"
    and f: "\<exists>declared. capture_flow (forward_steps d) [] = Inr declared \<and> \<not> undeclared (late_texts d) ''capture'' declared"
    and m: "\<not> list_ex (\<lambda>r. r \<in> set (multi_keys d)) (refs (concat (map step_texts (all_steps d))) ''capture'')"
    and sec: "\<not> undeclared (all_texts d) ''secret'' (map sc_key (df_secrets d))"
    and outs: "check_all (settle_output (visible_refs d)) (df_outputs mid) = Inr (df_outputs d)"
    and cs: "\<not> list_ex customer_sensitive (df_outputs d)" and cc: "check_computed d = Inr ()"
    using assms by (rule accepted_parts)
  have "validate_whole mid = Inr d" using assms mid by (simp add: validate_definition_def)
  then have w: "df_configuration mid \<noteq> []" "SESSION_PROBE_STEP \<notin> set (map sp_name (all_steps mid))"
    and c: "length (concat (map sp_capture (forward_steps mid))) \<le> MAX_CAPTURES_PER_PLAYBOOK" "distinct (map sc_key (df_secrets mid))"
      "length (df_outputs d) \<le> MAX_OUTPUTS" "distinct (map od_key (df_outputs d))"
    by (auto simp: validate_whole_def captures_and_secrets_def checked_iff)
  have e: "df_configuration d = df_configuration mid" "all_steps d = all_steps mid" "forward_steps d = forward_steps mid"
    "df_secrets d = df_secrets mid" "df_session d = df_session mid"
    by (subst d, simp)+
  have place: "place_step d ps = place_step mid ps" for ps unfolding place_step_def e ..
  from mid obtain zs where "check_all validate_output (df_outputs mid) = Inr zs"
    by (auto simp: validate_parts_def checked_iff)
  note outs' = outputs_again [OF outs this cs]
  have "check_all (place_step (reload d)) (phase_list (reload d)) = Inr (map (\<lambda>_. ()) (phase_list (reload d)))"
    using pl by (intro check_all_total) (auto simp: list_all_iff phase_list_reload place_reload place)
  moreover have "captures_and_secrets (reload d) = Inr (reload d)"
    unfolding captures_and_secrets_def using f m sec outs' cs c
    by (auto simp: flow_reload guardR_def comp_def list_ex_iff e)
  moreover have "check_computed (reload d) = Inr ()" using cc by (simp add: check_computed_def)
  ultimately show ?thesis using w n by (simp add: validate_whole_def e comp_def Let_def)
qed



end
