(* ===== verification/Inventory_Schema.thy ===== *)
theory Inventory_Schema
  imports Playbook_Template
begin

text \<open>
  \<open>schemas/inventory.py\<close>, and the time zone rule of \<open>utils/timezone_utils.py\<close> its intake uses: the
  port templates of a device type and what they expand to, the path role, the management fields of a unit, and one
  receive request. An error is the first that is raised.
\<close>

section \<open>Fields\<close>

definition CLI_PROTOCOLS :: "string list" where "CLI_PROTOCOLS = [''ssh'', ''telnet'']"
definition ALLOWED_ATTR_TYPES :: "string list" where "ALLOWED_ATTR_TYPES = [''TEXT'', ''NUMBER'', ''BOOLEAN'', ''DATE'', ''ENUM'']"
definition PORT_MEDIA :: "string list" where "PORT_MEDIA = [''ETH'', ''PON'']"
definition PORT_DIRECTIONS :: "string list" where "PORT_DIRECTIONS = [''UP'', ''DOWN'', ''ANY'']"
definition MAX_TEMPLATE_GROUPS :: nat where "MAX_TEMPLATE_GROUPS = 32"
definition MAX_TEMPLATE_PORTS :: int where "MAX_TEMPLATE_PORTS = 1024"

datatype inventory_error =
    BadProtocol string | BadAttributeType string | BadAttributeKey string
  | NamePattern string | TooManySlots | SlotsEmpty | SlotsRepeated | SlotsRange | BadMedium string | BadDirection string
  | BadStart int | BadCount int | BadEnd int | SlotsRequired string
  | TooManyGroups | TooManyPorts | BadPortName string | NameRepeated string | PonRepeated "int option" int string
  | BadPathRole string | SecretPathRole string | PORT_TEMPLATE_REQUIRES_SERIALIZED
  | OutOfBounds string

definition normalize_cli_protocol :: "string option \<Rightarrow> inventory_error + string option" where
  "normalize_cli_protocol v =
     (case v of
        None \<Rightarrow> Inr None
      | Some s \<Rightarrow>
          (let p = str_lower (str_strip s)
           in if p = [] then Inr None else guardR (p \<notin> set CLI_PROTOCOLS) (BadProtocol s) (Inr (Some p))))"

record attribute_definition =
  ad_key :: string
  ad_label :: string
  ad_type :: string
  ad_required :: bool
  ad_options :: "string list option"
  ad_unit :: "string option"

definition validate_attribute :: "attribute_definition \<Rightarrow> inventory_error + attribute_definition" where
  "validate_attribute a =
     guardR (\<not> is_segment (ad_key a)) (BadAttributeKey (ad_key a)) (
     guardR (ad_type a \<notin> set ALLOWED_ATTR_TYPES) (BadAttributeType (ad_type a)) (Inr a))"

section \<open>Port templates\<close>

record port_group =
  pg_name :: string
  pg_slots :: "int list option"
  pg_start :: int
  pg_count :: int
  pg_medium :: string
  pg_direction :: string

record port_spec =
  ps_slot :: "int option"
  ps_number :: int
  ps_name :: string
  ps_medium :: string
  ps_direction :: string

definition slot_mark :: string where "slot_mark = ''{slot}''"
definition number_mark :: string where "number_mark = ''{n}''"

definition pattern_rest :: "string \<Rightarrow> string" where
  \<comment> \<open>the name without its placeholders\<close>
  "pattern_rest v = replace_all number_mark [] (replace_all slot_mark [] v)"

definition validate_slots :: "int list option \<Rightarrow> inventory_error + unit" where
  "validate_slots v =
     (case v of
        None \<Rightarrow> Inr ()
      | Some ss \<Rightarrow>
          guardR (256 < length ss) TooManySlots (
          guardR (ss = []) SlotsEmpty (
          guardR (\<not> distinct ss) SlotsRepeated (
          guardR (list_ex (\<lambda>s. \<not> (0 \<le> s \<and> s \<le> 255)) ss) SlotsRange (Inr ())))))"

definition has_slots :: "port_group \<Rightarrow> bool" where
  "has_slots g = (case pg_slots g of None \<Rightarrow> False | Some ss \<Rightarrow> ss \<noteq> [])"

definition validate_range :: "port_group \<Rightarrow> inventory_error + port_group" where
  "validate_range g =
     guardR (\<not> (0 \<le> pg_start g \<and> pg_start g \<le> 4095)) (BadStart (pg_start g)) (
     guardR (\<not> (1 \<le> pg_count g \<and> pg_count g \<le> 256)) (BadCount (pg_count g)) (
     guardR (4095 < pg_start g + pg_count g - 1) (BadEnd (pg_start g + pg_count g - 1)) (
     guardR (contains slot_mark (pg_name g) \<and> \<not> has_slots g) (SlotsRequired (pg_name g)) (Inr g))))"

definition validate_group :: "port_group \<Rightarrow> inventory_error + port_group" where
  "validate_group g =
     guardR (64 < length (pg_name g)) (NamePattern (pg_name g)) (
     guardR (CHR ''{'' \<in> set (pattern_rest (pg_name g)) \<or> CHR ''}'' \<in> set (pattern_rest (pg_name g))) (NamePattern (pg_name g)) (
     bindR (validate_slots (pg_slots g)) (\<lambda>_.
     guardR (pg_medium g \<notin> set PORT_MEDIA) (BadMedium (pg_medium g)) (
     guardR (pg_direction g \<notin> set PORT_DIRECTIONS) (BadDirection (pg_direction g)) (validate_range g)))))"

definition slots_of :: "port_group \<Rightarrow> int option list" where
  \<comment> \<open>\<open>group.slots or [None]\<close>\<close>
  "slots_of g = (case pg_slots g of None \<Rightarrow> [None] | Some ss \<Rightarrow> if ss = [] then [None] else map Some ss)"

definition slot_text :: "int option \<Rightarrow> string" where
  "slot_text v = (case v of None \<Rightarrow> ''None'' | Some i \<Rightarrow> show_int i)"

definition port_name :: "string \<Rightarrow> int option \<Rightarrow> int \<Rightarrow> string" where
  "port_name nm slot n = replace_all number_mark (show_int n) (replace_all slot_mark (slot_text slot) nm)"

definition port_on :: "port_group \<Rightarrow> int option \<Rightarrow> int \<Rightarrow> port_spec" where
  "port_on g slot n = \<lparr>ps_slot = slot, ps_number = n, ps_name = port_name (pg_name g) slot n,
     ps_medium = pg_medium g, ps_direction = pg_direction g\<rparr>"

definition expand_group :: "port_group \<Rightarrow> port_spec list" where
  "expand_group g =
     concat (map (\<lambda>slot. map (port_on g slot) [pg_start g .. pg_start g + pg_count g - 1]) (slots_of g))"

definition expand_port_template :: "port_group list \<Rightarrow> port_spec list" where
  "expand_port_template gs = concat (map expand_group gs)"

definition is_port_char :: "char \<Rightarrow> bool" where
  "is_port_char c \<longleftrightarrow> is_alnum c \<or> c \<in> set ''/:._ -''"

definition port_name_ok :: "string \<Rightarrow> bool" where
  \<comment> \<open>\<open>PORT_NAME_PATTERN\<close>, the whole text\<close>
  "port_name_ok s = (case s of [] \<Rightarrow> False | c # cs \<Rightarrow> is_alnum c \<and> list_all is_port_char cs \<and> length cs \<le> 31)"

definition pon_identity :: "port_spec \<Rightarrow> int option \<times> int \<times> string" where
  "pon_identity p = (ps_slot p, ps_number p, ps_direction p)"

fun check_ports :: "port_spec list \<Rightarrow> string list \<Rightarrow> (int option \<times> int \<times> string) list \<Rightarrow> inventory_error + unit" where
  \<comment> \<open>the loop, with its two sets\<close>
  "check_ports [] ns pon = Inr ()"
| "check_ports (p # ps) ns pon =
     guardR (\<not> port_name_ok (ps_name p)) (BadPortName (ps_name p)) (
     guardR (str_lower (ps_name p) \<in> set ns) (NameRepeated (ps_name p)) (
     if ps_medium p = ''PON''
     then guardR (pon_identity p \<in> set pon) (PonRepeated (ps_slot p) (ps_number p) (ps_direction p)) (
          check_ports ps (str_lower (ps_name p) # ns) (pon_identity p # pon))
     else check_ports ps (str_lower (ps_name p) # ns) pon))"

definition port_total :: "port_group list \<Rightarrow> int" where
  "port_total gs = sum_list (map (\<lambda>g. int (length (slots_of g)) * pg_count g) gs)"

definition validate_port_template :: "port_group list option \<Rightarrow> inventory_error + port_group list option" where
  "validate_port_template v =
     (case v of
        None \<Rightarrow> Inr None
      | Some gs \<Rightarrow>
          if gs = [] then Inr None
          else guardR (MAX_TEMPLATE_GROUPS < length gs) TooManyGroups (
               guardR (MAX_TEMPLATE_PORTS < port_total gs) TooManyPorts (
               bindR (check_ports (expand_port_template gs) [] []) (\<lambda>_. Inr (Some gs)))))"

section \<open>Path roles and device types\<close>

definition normalize_path_role :: "string option \<Rightarrow> inventory_error + string option" where
  "normalize_path_role v =
     (case v of
        None \<Rightarrow> Inr None
      | Some s \<Rightarrow>
          (let r = str_strip s
           in if r = [] then Inr None
              else guardR (\<not> (is_segment r \<and> length r \<le> 32)) (BadPathRole r) (
                   guardR (is_secret_name r) (SecretPathRole r) (Inr (Some r)))))"

definition path_role_shadows_category :: "string list \<Rightarrow> string option \<Rightarrow> bool" where
  \<comment> \<open>the first argument: the keys of \<open>device_category\<close>\<close>
  "path_role_shadows_category category_keys role =
     (case role of None \<Rightarrow> False | Some r \<Rightarrow> r \<noteq> [] \<and> str_lower r \<in> set (map str_lower category_keys))"

record device_type_in =
  dt_attributes :: "attribute_definition list option"
  dt_serialized :: "bool option"
  dt_ports :: "port_group list option"
  dt_role :: "string option"

fun each_valid :: "('a \<Rightarrow> inventory_error + 'a) \<Rightarrow> 'a list \<Rightarrow> inventory_error + unit" where
  "each_valid f [] = Inr ()"
| "each_valid f (x # xs) = bindR (f x) (\<lambda>_. each_valid f xs)"

definition given_list :: "'a list option \<Rightarrow> 'a list" where
  "given_list v = (case v of None \<Rightarrow> [] | Some xs \<Rightarrow> xs)"

definition validate_device_type :: "device_type_in \<Rightarrow> inventory_error + device_type_in" where
  \<comment> \<open>on a create \<open>is_serialized\<close> has a value; on an update it may be absent\<close>
  "validate_device_type t =
     bindR (each_valid validate_attribute (given_list (dt_attributes t))) (\<lambda>_.
     bindR (each_valid validate_group (given_list (dt_ports t))) (\<lambda>_.
     bindR (validate_port_template (dt_ports t)) (\<lambda>ports.
     bindR (normalize_path_role (dt_role t)) (\<lambda>role.
     guardR (ports \<noteq> None \<and> dt_serialized t = Some False) PORT_TEMPLATE_REQUIRES_SERIALIZED
       (Inr (t\<lparr>dt_ports := ports, dt_role := role\<rparr>))))))"

section \<open>Units and intake\<close>

record unit_in =
  ui_mgmt_port :: "int option"
  ui_protocol :: "string option"
  ui_nat_port :: "int option"
  ui_quantity :: "int option"

definition within_bounds :: "int \<Rightarrow> int option \<Rightarrow> int option \<Rightarrow> bool" where
  "within_bounds lo hi v =
     (case v of None \<Rightarrow> True | Some i \<Rightarrow> lo \<le> i \<and> (case hi of None \<Rightarrow> True | Some h \<Rightarrow> i \<le> h))"

definition validate_unit :: "unit_in \<Rightarrow> inventory_error + unit_in" where
  "validate_unit u =
     guardR (\<not> within_bounds 1 (Some 65535) (ui_mgmt_port u)) (OutOfBounds ''mgmt_port'') (
     bindR (normalize_cli_protocol (ui_protocol u)) (\<lambda>p.
     guardR (\<not> within_bounds 1 (Some 65535) (ui_nat_port u)) (OutOfBounds ''nat_port'') (
     guardR (\<not> within_bounds 1 None (ui_quantity u)) (OutOfBounds ''quantity'') (Inr (u\<lparr>ui_protocol := p\<rparr>)))))"

record py_datetime =
  wall :: int \<comment> \<open>the clock reading, in microseconds\<close>
  offset :: "int option" \<comment> \<open>of its time zone, in microseconds; none when naive\<close>

definition GT_OFFSET :: int where "GT_OFFSET = - 6 * 3600 * 1000000"

definition make_aware_gt :: "py_datetime \<Rightarrow> py_datetime" where
  "make_aware_gt d =
     (case offset d of
        None \<Rightarrow> d\<lparr>offset := Some GT_OFFSET\<rparr>
      | Some f \<Rightarrow> \<lparr>wall = wall d - f + GT_OFFSET, offset = Some GT_OFFSET\<rparr>)"

record receive_in =
  rv_serials :: "string list"
  rv_received :: "py_datetime option"
  rv_cost :: "int option"
  rv_supplier :: "string option"
  rv_reference :: "string option"

definition longer_than :: "nat \<Rightarrow> string option \<Rightarrow> bool" where
  "longer_than n v = (case v of None \<Rightarrow> False | Some s \<Rightarrow> n < length s)"

definition validate_receive :: "receive_in \<Rightarrow> inventory_error + receive_in" where
  "validate_receive r =
     guardR (rv_serials r = [] \<or> 100 < length (rv_serials r)) (OutOfBounds ''serials'') (
     guardR (\<not> within_bounds 0 None (rv_cost r)) (OutOfBounds ''cost_cents'') (
     guardR (longer_than 120 (rv_supplier r)) (OutOfBounds ''supplier'') (
     guardR (longer_than 120 (rv_reference r)) (OutOfBounds ''reference'')
       (Inr (r\<lparr>rv_received := map_option make_aware_gt (rv_received r)\<rparr>)))))"

section \<open>What an accepted template expands to\<close>

lemma check_ports_iff:
  "check_ports ps ns pon = Inr () \<longleftrightarrow>
     list_all (\<lambda>p. port_name_ok (ps_name p)) ps \<and> distinct (map (\<lambda>p. str_lower (ps_name p)) ps) \<and>
     set (map (\<lambda>p. str_lower (ps_name p)) ps) \<inter> set ns = {} \<and>
     distinct (map pon_identity (filter (\<lambda>p. ps_medium p = ''PON'') ps)) \<and>
     set (map pon_identity (filter (\<lambda>p. ps_medium p = ''PON'') ps)) \<inter> set pon = {}"
  by (induction ps arbitrary: ns pon) (auto simp: guardR_Inr_iff)

lemma each_valid_in: "each_valid f xs = Inr () \<Longrightarrow> x \<in> set xs \<Longrightarrow> \<exists>y. f x = Inr y"
  by (induction xs) (auto simp: bindR_Inr_iff)

lemma valid_group_range:
  "validate_group g = Inr g' \<Longrightarrow> 0 \<le> pg_start g \<and> 1 \<le> pg_count g \<and> pg_start g + pg_count g - 1 \<le> 4095"
  by (auto simp: validate_group_def validate_range_def bindR_Inr_iff guardR_Inr_iff)

lemma length_expand_group: "0 \<le> pg_count g \<Longrightarrow> int (length (expand_group g)) = int (length (slots_of g)) * pg_count g"
  by (simp add: expand_group_def length_concat comp_def sum_list_triv)

lemma length_expand:
  "each_valid validate_group gs = Inr () \<Longrightarrow> int (length (expand_port_template gs)) = port_total gs"
proof (induction gs)
  case (Cons g gs)
  then obtain g' where "validate_group g = Inr g'" "each_valid validate_group gs = Inr ()" by (auto simp: bindR_Inr_iff)
  with valid_group_range [of g g'] length_expand_group [of g] Cons.IH show ?case
    by (simp add: expand_port_template_def port_total_def)
qed (simp add: expand_port_template_def port_total_def)

text \<open>
  C23. A port template of valid groups is accepted exactly when it has a group and at most 32 of them, its ports are at
  most 1024, each with a safe name, no two names are the same up to case, and no two PON ports have one slot, number
  and direction: the arithmetic bound, checked before the ports are built, is their number.
\<close>

theorem port_template_accepted_iff:
  assumes "each_valid validate_group gs = Inr ()"
  shows "validate_port_template (Some gs) = Inr (Some gs) \<longleftrightarrow>
    gs \<noteq> [] \<and> length gs \<le> MAX_TEMPLATE_GROUPS \<and> int (length (expand_port_template gs)) \<le> MAX_TEMPLATE_PORTS \<and>
    list_all (\<lambda>p. port_name_ok (ps_name p)) (expand_port_template gs) \<and>
    distinct (map (\<lambda>p. str_lower (ps_name p)) (expand_port_template gs)) \<and>
    distinct (map pon_identity (filter (\<lambda>p. ps_medium p = ''PON'') (expand_port_template gs)))"
  using check_ports_iff [of "expand_port_template gs" "[]" "[]"] length_expand [OF assms]
  by (auto simp: validate_port_template_def bindR_Inr_iff guardR_Inr_iff simp del: check_ports.simps)

definition olt_template :: "port_group list" where
  "olt_template =
     [\<lparr>pg_name = ''{slot}/{n}'', pg_slots = Some [1, 2], pg_start = 1, pg_count = 2, pg_medium = ''PON'', pg_direction = ''DOWN''\<rparr>,
      \<lparr>pg_name = ''uplink {n}'', pg_slots = None, pg_start = 0, pg_count = 1, pg_medium = ''ETH'', pg_direction = ''UP''\<rparr>]"

lemma olt_valid: "each_valid validate_group olt_template = Inr ()"
  by code_simp

lemma olt_names: "map ps_name (expand_port_template olt_template) = [''1/1'', ''1/2'', ''2/1'', ''2/2'', ''uplink 0'']"
  by code_simp

theorem port_template_accepted_iff_witness:
  "distinct (map (\<lambda>p. str_lower (ps_name p)) (expand_port_template olt_template)) \<and>
   validate_port_template (Some olt_template) = Inr (Some olt_template)"
proof -
  have "validate_port_template (Some olt_template) = Inr (Some olt_template)" by code_simp
  with port_template_accepted_iff [OF olt_valid] show ?thesis by simp
qed

lemma port_char_inert: "is_port_char c \<Longrightarrow> c \<notin> set ''{}\"'' \<and> c \<noteq> CHR 0x27 \<and> c \<noteq> CHR 0x0A \<and> c \<noteq> CHR 0x0D"
  by (auto simp: is_port_char_def is_alnum_def is_digit_def is_lower_def is_upper_def)

lemma port_name_chars: "port_name_ok s \<Longrightarrow> list_all is_port_char s \<and> length s \<le> 32"
  by (auto simp: port_name_ok_def is_port_char_def split: list.splits)

lemma port_numbers: "validate_group g = Inr g' \<Longrightarrow> p \<in> set (expand_group g) \<Longrightarrow> 0 \<le> ps_number p \<and> ps_number p \<le> 4095"
  using valid_group_range [of g g'] by (auto simp: expand_group_def port_on_def)

lemma no_brace_no_token: "CHR ''{'' \<notin> set s \<Longrightarrow> token_bodies s = []"
proof -
  have "CHR ''{'' \<notin> set s \<Longrightarrow> seg_bodies (segments s) = []"
  proof (induction s)
    case (Cons c cs)
    then have "token_at (c # cs) = None" by (auto simp: token_at_def)
    with Cons show ?case by simp
  qed simp
  then show "CHR ''{'' \<notin> set s \<Longrightarrow> token_bodies s = []" by (simp add: token_bodies_def)
qed

text \<open>
  C24. A port's name is only text where it goes: every port of an accepted device type has a name of at most 32
  letters, digits and separators, without quote, brace or line break, so a command it is rendered into gets no token and
  no new line from it; and a number that fits twelve bits.
\<close>

theorem port_names_are_text:
  assumes "validate_device_type t = Inr t'" and "p \<in> set (expand_port_template (given_list (dt_ports t')))"
  shows "list_all (\<lambda>c. is_port_char c \<and> c \<noteq> CHR 0x27 \<and> c \<noteq> CHR 0x22 \<and> c \<noteq> CHR 0x0A \<and> c \<noteq> CHR 0x0D) (ps_name p) \<and>
    length (ps_name p) \<le> 32 \<and> token_bodies (ps_name p) = [] \<and> 0 \<le> ps_number p \<and> ps_number p < 2 ^ 12"
proof -
  from assms(1) obtain ports where v: "each_valid validate_group (given_list (dt_ports t)) = Inr ()"
    and ports: "validate_port_template (dt_ports t) = Inr ports" "dt_ports t' = ports"
    by (auto simp: validate_device_type_def bindR_Inr_iff guardR_Inr_iff)
  from ports assms(2) obtain gs where gs: "dt_ports t = Some gs" "dt_ports t' = Some gs"
    and c: "check_ports (expand_port_template gs) [] [] = Inr ()"
    by (auto simp: validate_port_template_def given_list_def expand_port_template_def bindR_Inr_iff guardR_Inr_iff
        split: option.splits if_splits)
  have p: "p \<in> set (expand_port_template gs)" using assms(2) gs by (simp add: given_list_def)
  with c have n: "list_all is_port_char (ps_name p)" "length (ps_name p) \<le> 32"
    using port_name_chars by (auto simp: check_ports_iff list_all_iff)
  from p obtain g where "g \<in> set gs" "p \<in> set (expand_group g)" by (auto simp: expand_port_template_def)
  with v gs port_numbers have "0 \<le> ps_number p \<and> ps_number p \<le> 4095" by (auto simp: given_list_def dest: each_valid_in)
  moreover have "CHR ''{'' \<notin> set (ps_name p)" using n(1) port_char_inert by (auto simp: list_all_iff)
  moreover have "list_all (\<lambda>c. is_port_char c \<and> c \<noteq> CHR 0x27 \<and> c \<noteq> CHR 0x22 \<and> c \<noteq> CHR 0x0A \<and> c \<noteq> CHR 0x0D) (ps_name p)"
    by (rule list.pred_mono_strong [OF n(1)]) (use port_char_inert in auto)
  ultimately show ?thesis using n(2) no_brace_no_token by simp
qed

theorem port_names_are_text_witness:
  "list_all (\<lambda>c. is_port_char c \<and> c \<noteq> CHR 0x27 \<and> c \<noteq> CHR 0x22 \<and> c \<noteq> CHR 0x0A \<and> c \<noteq> CHR 0x0D) ''2/1'' \<and> token_bodies ''2/1'' = []"
proof -
  let ?t = "\<lparr>dt_attributes = None, dt_serialized = Some True, dt_ports = Some olt_template, dt_role = None\<rparr>"
  have v: "validate_device_type ?t = Inr ?t" by code_simp
  have p: "expand_port_template olt_template ! 2 \<in> set (expand_port_template (given_list (dt_ports ?t)))" by code_simp
  have n: "ps_name (expand_port_template olt_template ! 2) = ''2/1''" by code_simp
  from port_names_are_text [OF v p] show ?thesis unfolding n by simp
qed

text \<open>
  The docstring of \<open>make_aware_gt\<close> says an aware time is returned as it is: it is moved to the zone of Guatemala. The
  instant is the same.
\<close>

lemma make_aware_moves: "make_aware_gt \<lparr>wall = w, offset = Some 0\<rparr> \<noteq> \<lparr>wall = w, offset = Some 0\<rparr>"
  by (simp add: make_aware_gt_def GT_OFFSET_def)

lemma make_aware_instant:
  "offset d = Some f \<Longrightarrow> wall (make_aware_gt d) - GT_OFFSET = wall d - f \<and> offset (make_aware_gt d) = Some GT_OFFSET"
  by (simp add: make_aware_gt_def)

end
