(* ===== verification/Outbound_Guard.thy ===== *)
theory Outbound_Guard
  imports Prelude "HOL-Library.Word"
begin

text \<open>
  \<open>utils/ssrf.py\<close>: the guard of outbound requests. The host of a URL as \<open>urllib.parse\<close> reads it, the
  words a host may not have, and the networks its addresses may not be in, as words of 32 and 128 bits. Two things are
  arguments: \<open>resolve\<close>, the addresses \<open>socket.getaddrinfo\<close> gives for a name (none: it raises), and
  \<open>bracket_ok\<close>, the check of a bracketed host, which interpreters differ in.
\<close>

section \<open>Addresses\<close>

datatype ip = V4 "32 word" | V6 "128 word"

datatype network = Net4 "32 word" nat | Net6 "128 word" nat

fun in_network :: "ip \<Rightarrow> network \<Rightarrow> bool" where
  \<comment> \<open>an address is never in a network of the other version\<close>
  "in_network (V4 a) (Net4 b n) = (drop_bit (32 - n) a = drop_bit (32 - n) b)"
| "in_network (V6 a) (Net6 b n) = (drop_bit (128 - n) a = drop_bit (128 - n) b)"
| "in_network _ _ = False"

definition quad :: "nat \<Rightarrow> nat \<Rightarrow> nat \<Rightarrow> nat \<Rightarrow> 32 word" where
  \<comment> \<open>\<open>a.b.c.d\<close>\<close>
  "quad a b c d = word_of_nat (((a * 256 + b) * 256 + c) * 256 + d)"

definition PRIVATE_NETWORKS :: "network list" where
  "PRIVATE_NETWORKS =
     [Net4 (quad 10 0 0 0) 8, Net4 (quad 172 16 0 0) 12, Net4 (quad 192 168 0 0) 16, Net4 (quad 127 0 0 0) 8,
      Net4 (quad 169 254 0 0) 16, Net6 1 128, Net6 (push_bit 120 0xFC) 7]"

definition is_private :: "ip \<Rightarrow> bool" where
  "is_private a = list_ex (in_network a) PRIVATE_NETWORKS"

definition BLOCKED_KEYWORDS :: "string list" where
  "BLOCKED_KEYWORDS = [''localhost'', ''metadata'', ''internal'']"

section \<open>The host of a URL\<close>

datatype ssrf_error = MissingHost | InternalName | Unresolvable | PrivateAddress | MalformedUrl

definition url_space :: "char \<Rightarrow> bool" where
  \<comment> \<open>a control character or the blank\<close>
  "url_space c \<longleftrightarrow> of_char c \<le> (32 :: nat)"

definition clean_url :: "string \<Rightarrow> string" where
  "clean_url s = filter (\<lambda>c. c \<notin> set [CHR 0x09, CHR 0x0A, CHR 0x0D]) (dropWhile url_space s)"

definition is_scheme_char :: "char \<Rightarrow> bool" where
  "is_scheme_char c \<longleftrightarrow> is_alnum c \<or> c \<in> set ''+-.''"

definition after_scheme :: "string \<Rightarrow> string" where
  \<comment> \<open>what follows a well-formed scheme and its colon, or the whole text\<close>
  "after_scheme s =
     (let sch = takeWhile (\<lambda>c. c \<noteq> CHR '':'') s
      in if length sch < length s \<and> sch \<noteq> [] \<and> (is_lower (hd sch) \<or> is_upper (hd sch)) \<and> list_all is_scheme_char sch
         then drop (Suc (length sch)) s else s)"

definition netloc_of :: "string \<Rightarrow> string" where
  "netloc_of url =
     (let r = after_scheme (clean_url url)
      in if prefix ''//'' r then takeWhile (\<lambda>c. c \<notin> set ''/?#'') (drop 2 r) else [])"

definition after_last :: "char \<Rightarrow> string \<Rightarrow> string" where
  \<comment> \<open>\<open>s.rpartition(d)[2]\<close>\<close>
  "after_last d s = rev (takeWhile (\<lambda>c. c \<noteq> d) (rev s))"

definition before_first :: "char \<Rightarrow> string \<Rightarrow> string" where
  "before_first d s = takeWhile (\<lambda>c. c \<noteq> d) s"

definition after_first :: "char \<Rightarrow> string \<Rightarrow> string" where
  "after_first d s = drop 1 (dropWhile (\<lambda>c. c \<noteq> d) s)"

definition host_part :: "string \<Rightarrow> string" where
  \<comment> \<open>without user, brackets and port\<close>
  "host_part netloc =
     (let h = after_last (CHR ''@'') netloc
      in if CHR ''['' \<in> set h then before_first (CHR '']'') (after_first (CHR ''['') h) else before_first (CHR '':'') h)"

definition lower_host :: "string \<Rightarrow> string" where
  \<comment> \<open>the zone of an address keeps its case\<close>
  "lower_host h = str_lower (before_first (CHR ''%'') h) @ dropWhile (\<lambda>c. c \<noteq> CHR ''%'') h"

definition brackets_wrong :: "(string \<Rightarrow> bool) \<Rightarrow> string \<Rightarrow> bool" where
  "brackets_wrong bracket_ok netloc \<longleftrightarrow>
     (CHR ''['' \<in> set netloc) \<noteq> (CHR '']'' \<in> set netloc) \<or>
     CHR ''['' \<in> set netloc \<and> CHR '']'' \<in> set netloc \<and> \<not> bracket_ok netloc"

definition url_hostname :: "(string \<Rightarrow> bool) \<Rightarrow> string \<Rightarrow> ssrf_error + string option" where
  \<comment> \<open>\<open>urlparse(url).hostname\<close>; a malformed network location raises \<open>ValueError\<close>\<close>
  "url_hostname bracket_ok url =
     (let n = netloc_of url
      in guardR (brackets_wrong bracket_ok n) MalformedUrl (
         Inr (if host_part n = [] then None else Some (lower_host (host_part n)))))"

section \<open>The guard\<close>

definition validate_url_no_ssrf ::
  "(string \<Rightarrow> bool) \<Rightarrow> (string \<Rightarrow> ip list option) \<Rightarrow> string \<Rightarrow> ssrf_error + ip" where
  "validate_url_no_ssrf bracket_ok resolve url =
     bindR (url_hostname bracket_ok url) (\<lambda>host.
     (case host of
        None \<Rightarrow> Inl MissingHost
      | Some h \<Rightarrow>
          guardR (list_ex (\<lambda>k. contains k (str_lower h)) BLOCKED_KEYWORDS) InternalName (
          case resolve h of
            None \<Rightarrow> Inl Unresolvable
          | Some [] \<Rightarrow> Inl Unresolvable
          | Some (a # as) \<Rightarrow> guardR (list_ex is_private (a # as)) PrivateAddress (Inr a))))"

section \<open>What passes\<close>

definition reserved_v4 :: "nat \<Rightarrow> bool" where
  \<comment> \<open>the blocked ranges, as numbers\<close>
  "reserved_v4 n \<longleftrightarrow>
     167772160 \<le> n \<and> n < 184549376 \<or> 2886729728 \<le> n \<and> n < 2887778304 \<or> 3232235520 \<le> n \<and> n < 3232301056 \<or>
     2130706432 \<le> n \<and> n < 2147483648 \<or> 2851995648 \<le> n \<and> n < 2852061184"

definition reserved_v6 :: "nat \<Rightarrow> bool" where
  "reserved_v6 n \<longleftrightarrow> n = 1 \<or> 126 * 2 ^ 121 \<le> n \<and> n < 127 * 2 ^ 121"

lemma div_nat_eq_range: "(n :: nat) div 2 ^ k = c \<longleftrightarrow> c * 2 ^ k \<le> n \<and> n < (c + 1) * 2 ^ k"
  using div_nat_eqI [of "2 ^ k" c n] div_times_less_eq_dividend [of n "2 ^ k"] dividend_less_div_times [of "2 ^ k" n]
  by (auto simp: algebra_simps)

lemma drop_bit_eq_range:
  fixes a :: "'a :: len word"
  assumes "unat b = c * 2 ^ k"
  shows "drop_bit k a = drop_bit k b \<longleftrightarrow> c * 2 ^ k \<le> unat a \<and> unat a < (c + 1) * 2 ^ k"
proof -
  have "drop_bit k a = drop_bit k b \<longleftrightarrow> unat (drop_bit k a) = unat (drop_bit k b)" by (simp add: word_unat_eq_iff)
  also have "\<dots> \<longleftrightarrow> unat a div 2 ^ k = c"
    by (simp only: unat_drop_bit_eq drop_bit_eq_div [of k "unat a"] drop_bit_eq_div [of k "unat b"] assms
        drop_bit_eq_div [of k "c * 2 ^ k"]) simp
  also have "\<dots> \<longleftrightarrow> c * 2 ^ k \<le> unat a \<and> unat a < (c + 1) * 2 ^ k"
    by (simp add: div_nat_eq_range)
  finally show ?thesis .
qed

lemma private_v4: "is_private (V4 a) \<longleftrightarrow> reserved_v4 (unat a)"
proof -
  have u: "unat (quad 10 0 0 0) = 10 * 2 ^ 24" "unat (quad 172 16 0 0) = 2753 * 2 ^ 20"
    "unat (quad 192 168 0 0) = 49320 * 2 ^ 16" "unat (quad 127 0 0 0) = 127 * 2 ^ 24" "unat (quad 169 254 0 0) = 43518 * 2 ^ 16"
    by (simp_all add: quad_def unsigned_of_nat take_bit_eq_mod)
  note r = drop_bit_eq_range [OF u(1), of a] drop_bit_eq_range [OF u(2), of a] drop_bit_eq_range [OF u(3), of a]
    drop_bit_eq_range [OF u(4), of a] drop_bit_eq_range [OF u(5), of a]
  show ?thesis by (simp add: is_private_def PRIVATE_NETWORKS_def r reserved_v4_def)
qed

lemma private_v6: "is_private (V6 a) \<longleftrightarrow> reserved_v6 (unat a)"
proof -
  have u: "unat (push_bit 120 0xFC :: 128 word) = 126 * 2 ^ 121" by (simp add: push_bit_eq_mult)
  have "drop_bit 0 a = drop_bit 0 (1 :: 128 word) \<longleftrightarrow> unat a = 1" by (simp add: word_unat_eq_iff)
  then show ?thesis
    using drop_bit_eq_range [OF u, of a] by (simp add: is_private_def PRIVATE_NETWORKS_def reserved_v6_def)
qed

fun is_public :: "ip \<Rightarrow> bool" where
  "is_public (V4 a) = (\<not> reserved_v4 (unat a))"
| "is_public (V6 a) = (\<not> reserved_v6 (unat a))"

lemma public_iff: "\<not> is_private a \<longleftrightarrow> is_public a"
  by (cases a) (simp_all add: private_v4 private_v6)

definition speaks_internal :: "string \<Rightarrow> bool" where
  "speaks_internal h = list_ex (\<lambda>k. contains k (str_lower h)) BLOCKED_KEYWORDS"


text \<open>The host is what the network location names: neither the user, nor a path or query, is part of it.\<close>

lemma host_chars: "c \<in> set (host_part n) \<Longrightarrow> c \<noteq> CHR ''@''"
proof -
  have "CHR ''@'' \<notin> set (after_last (CHR ''@'') n)" by (auto simp: after_last_def dest: set_takeWhileD)
  moreover have "set (host_part n) \<subseteq> set (after_last (CHR ''@'') n)"
    by (auto simp: host_part_def before_first_def after_first_def Let_def
        dest!: set_takeWhileD set_dropWhileD in_set_dropD)
  ultimately show "c \<in> set (host_part n) \<Longrightarrow> c \<noteq> CHR ''@''" by auto
qed

lemma user_is_not_host: "url_hostname bracket_ok ''http://example.com@127.0.0.1:80/x'' = Inr (Some ''127.0.0.1'')"
  by code_simp

text \<open>
  Three addresses that reach the machine itself or its link pass: the loopback address written as a mapped IPv4
  address, the unspecified address, and a link-local address of version 6, which the docstring says is rejected.
\<close>

lemma guard_passes:
  "url_hostname bracket_ok url = Inr (Some h) \<Longrightarrow> \<not> speaks_internal h \<Longrightarrow> is_public a \<Longrightarrow>
     validate_url_no_ssrf bracket_ok (\<lambda>_. Some [a]) url = Inr a"
  by (simp add: validate_url_no_ssrf_def speaks_internal_def [symmetric] public_iff [symmetric])

lemma mapped_loopback_passes:
  "validate_url_no_ssrf (\<lambda>_. True) (\<lambda>_. Some [V6 0xFFFF7F000001]) ''http://[::ffff:127.0.0.1]/'' = Inr (V6 0xFFFF7F000001)"
proof (rule guard_passes)
  show "url_hostname (\<lambda>_. True) ''http://[::ffff:127.0.0.1]/'' = Inr (Some ''::ffff:127.0.0.1'')" by code_simp
  show "\<not> speaks_internal ''::ffff:127.0.0.1''" by code_simp
qed (simp add: reserved_v6_def)

lemma unspecified_passes: "validate_url_no_ssrf (\<lambda>_. True) (\<lambda>_. Some [V4 0]) ''http://0.0.0.0/'' = Inr (V4 0)"
proof (rule guard_passes)
  show "url_hostname (\<lambda>_. True) ''http://0.0.0.0/'' = Inr (Some ''0.0.0.0'')" by code_simp
  show "\<not> speaks_internal ''0.0.0.0''" by code_simp
qed (simp add: reserved_v4_def)

lemma link_local_passes:
  "validate_url_no_ssrf (\<lambda>_. True) (\<lambda>_. Some [V6 (push_bit 112 0xFE80)]) ''http://printer.example/'' = Inr (V6 (push_bit 112 0xFE80))"
proof (rule guard_passes)
  show "url_hostname (\<lambda>_. True) ''http://printer.example/'' = Inr (Some ''printer.example'')" by code_simp
  show "\<not> speaks_internal ''printer.example''" by code_simp
qed (simp add: reserved_v6_def push_bit_eq_mult)



end
