(* ===== verification/Connectivity.thy ===== *)
theory Connectivity
  imports Provisioning_Gates
begin

text \<open>
  \<open>utils/connectivity.py\<close>: the probe of a core device. The definition it runs, the one system playbook per company,
  protocol and way of dialling, refreshed in place when its definition has drifted, and the one path that queues a job.
  A refused gate leaves the flushed playbook behind, as the code's session does; a failed commit leaves nothing. The time
  a job is scheduled for is not part of the job rows of this development.
\<close>

section \<open>Equality of stored values\<close>

fun number_of :: "json \<Rightarrow> int option" where
  \<comment> \<open>a truth value equals the number it stands for\<close>
  "number_of (JInt i) = Some i"
| "number_of (JBool b) = Some (if b then 1 else 0)"
| "number_of v = None"

function py_eq :: "json \<Rightarrow> json \<Rightarrow> bool" where
  \<comment> \<open>\<open>a == b\<close>: the order of keys does not count\<close>
  "py_eq (JDict d) v =
     (case v of
        JDict e \<Rightarrow> length d = length e \<and>
          list_all (\<lambda>p. case map_of e (fst p) of None \<Rightarrow> False | Some w \<Rightarrow> py_eq (snd p) w) d
      | _ \<Rightarrow> False)"
| "py_eq (JList xs) v =
     (case v of JList ys \<Rightarrow> length xs = length ys \<and> list_all (\<lambda>p. py_eq (fst p) (snd p)) (zip xs ys) | _ \<Rightarrow> False)"
| "py_eq (JStr s) v = (v = JStr s)"
| "py_eq (JFloat s) v = (v = JFloat s)"
| "py_eq JNull v = (v = JNull)"
| "py_eq (JInt i) v = (number_of v = Some i)"
| "py_eq (JBool b) v = (number_of v = Some (if b then 1 else 0))"
  by pat_completeness auto
termination
proof (relation "measure (\<lambda>(a, b). size a)")
  show "p \<in> set d \<Longrightarrow> ((snd p, w), JDict d, v) \<in> measure (\<lambda>(a, b). size a)" for d v p w
    by (induction d) (auto simp: less_Suc_eq_le)
  show "((fst p, snd p), JList xs, v) \<in> measure (\<lambda>(a, b). size a)" if "p \<in> set (zip xs ys)" for xs v ys p
  proof -
    have "fst p \<in> set xs" using that set_zip_leftD [of "fst p" "snd p" xs ys] by simp
    then have "size (fst p) \<le> size_list size xs" by (rule size_list_estimation') simp
    then show ?thesis by (cases p) simp
  qed
qed auto

section \<open>The probe\<close>

definition DEFAULT_PROBE_COMMAND :: string where "DEFAULT_PROBE_COMMAND = ''display version''"

definition ping_step :: json where
  "ping_step = JDict [(''name'', JStr ''ping core''), (''driver'', JStr ''ping''),
     (''target_item_id'', JStr ''{{input.item_id}}''), (''template'', JStr ''{{input.mgmt_host}}'')]"

definition cli_step :: "string \<Rightarrow> json" where
  "cli_step protocol = JDict [(''name'', JStr ''cli probe''), (''driver'', JStr protocol),
     (''target_item_id'', JStr ''{{input.item_id}}''), (''template'', JStr ''{{input.probe_command}}'')]"

definition connectivity_definition :: "string \<Rightarrow> bool \<Rightarrow> json" where
  "connectivity_definition protocol nat_mode =
     JDict [(''variables'', JList
              [JDict [(''key'', JStr ''item_id''), (''required'', JBool True)],
               JDict [(''key'', JStr ''mgmt_host''), (''required'', JBool True)],
               JDict [(''key'', JStr ''probe_command''), (''default'', JStr DEFAULT_PROBE_COMMAND)]]),
            (''steps'', JList ((if nat_mode then [] else [ping_step]) @ [cli_step protocol]))]"

definition probe_name :: "string \<Rightarrow> bool \<Rightarrow> string" where
  "probe_name protocol nat_mode = ''core_connectivity_check_'' @ protocol @ (if nat_mode then ''-nat'' else [])"

definition probe_rows :: "id \<Rightarrow> string \<Rightarrow> db \<Rightarrow> playbook list" where
  "probe_rows company name d = filter (\<lambda>p. pb_company p = company \<and> pb_name p = name) (db_playbooks d)"

definition new_playbook :: "id \<Rightarrow> string \<Rightarrow> json \<Rightarrow> db \<Rightarrow> playbook" where
  "new_playbook company name def d =
     \<lparr>pb_id = db_next d, pb_company = company, pb_name = name, pb_version = 1, pb_definition = def, pb_last_dry = None\<rparr>"

definition get_or_create_playbook :: "db \<Rightarrow> id \<Rightarrow> string \<Rightarrow> bool \<Rightarrow> playbook \<times> db" where
  "get_or_create_playbook d company protocol nat_mode =
     (let name = probe_name protocol nat_mode; desired = connectivity_definition protocol nat_mode
      in case probe_rows company name d of
           p # _ \<Rightarrow>
             if py_eq (pb_definition p) desired then (p, d)
             else (let p' = p\<lparr>pb_definition := desired\<rparr> in (p', put_playbook p' d))
         | [] \<Rightarrow>
             (let p = new_playbook company name desired d
              in (p, d\<lparr>db_next := Suc (db_next d), db_playbooks := db_playbooks d @ [p]\<rparr>)))"

section \<open>The job\<close>

record probe_target =
  pt_item :: item
  pt_protocol :: "string option"
  pt_type :: "device_type option"
  pt_attributes :: json \<comment> \<open>the default attributes of its type\<close>

definition or_default :: "string \<Rightarrow> string option \<Rightarrow> string" where
  \<comment> \<open>\<open>v or default\<close>\<close>
  "or_default def v = (case v of None \<Rightarrow> def | Some s \<Rightarrow> if s = [] then def else s)"

definition probe_command :: "probe_target \<Rightarrow> json" where
  "probe_command t =
     (if pt_type t \<noteq> None \<and> is_dict (pt_attributes t) \<and> truthy (jget ''probe_command'' (pt_attributes t))
      then jget ''probe_command'' (pt_attributes t) else JStr DEFAULT_PROBE_COMMAND)"

definition probe_job :: "probe_target \<Rightarrow> id \<Rightarrow> string \<Rightarrow> trigger \<Rightarrow> id option \<Rightarrow> job" where
  "probe_job t playbook_id key trig user =
     \<lparr>j_id = 0, j_company = it_company (pt_item t), j_playbook = playbook_id, j_service = None, j_item = Some (it_id (pt_item t)),
      j_variables = [(''input.item_id'', id_json (it_id (pt_item t))),
        (''input.mgmt_host'', case it_mgmt_host (pt_item t) of None \<Rightarrow> JNull | Some h \<Rightarrow> JStr h),
        (''input.probe_command'', probe_command t)],
      j_dry = False, j_key = Some key, j_trigger = trig, j_user = user, j_lock = None, j_claim = None, j_run = None,
      j_position = None, j_phase = None, j_max_attempts = 3, j_status = QUEUED, j_log = JNull, j_error = None,
      j_finished = None, j_pending_step = None, j_pending_tasks = JNull\<rparr>"

definition target_protocol :: "probe_target \<Rightarrow> string" where "target_protocol t = or_default ''ssh'' (pt_protocol t)"

definition target_gateway :: "db \<Rightarrow> probe_target \<Rightarrow> bool" where "target_gateway d t = company_dials_gateway d (it_company (pt_item t))"

datatype probe_error = Refused gate_failure | Failed exn

definition enqueue_connectivity_check ::
  "env \<Rightarrow> db \<Rightarrow> probe_target \<Rightarrow> string \<Rightarrow> trigger \<Rightarrow> id option \<Rightarrow> (probe_error + job) \<times> db" where
  "enqueue_connectivity_check E d t key trig user =
     (let (p, d1) = get_or_create_playbook d (it_company (pt_item t)) (target_protocol t) (target_gateway d t)
      in case gate_failure_of E p (pt_type t) False of
           Some f \<Rightarrow> (Inl (Refused f), d1)
         | None \<Rightarrow>
             (case add_job (probe_job t (pb_id p) key trig user) d1 of
                Inl e \<Rightarrow> (Inl (Failed e), d)
              | Inr (j, d2) \<Rightarrow> (Inr j, d2)))"

section \<open>What is queued\<close>

lemma put_by_split:
  assumes "distinct (map key rs)" and "rs = us @ q # vs" and "key p = key q"
  shows "put_by key p rs = us @ p # vs"
proof -
  have "key p \<notin> key ` set us" "key p \<notin> key ` set vs" using assms by auto
  then have "put_by key p us = us" "put_by key p vs = vs" by (simp_all add: put_by_absent)
  then show ?thesis using assms(2,3) by (simp add: put_by_def)
qed

definition probe_kept :: "db \<Rightarrow> db \<Rightarrow> id \<Rightarrow> string \<Rightarrow> bool" where
  \<comment> \<open>one playbook of the name more when there was none, and every other as it was\<close>
  "probe_kept d d' c n \<longleftrightarrow>
     length (probe_rows c n d') = max 1 (length (probe_rows c n d)) \<and>
     filter (\<lambda>p. \<not> (pb_company p = c \<and> pb_name p = n)) (db_playbooks d') =
     filter (\<lambda>p. \<not> (pb_company p = c \<and> pb_name p = n)) (db_playbooks d)"

definition rows_ok :: "db \<Rightarrow> bool" where
  "rows_ok d \<longleftrightarrow> distinct (map pb_id (db_playbooks d)) \<and> list_all (\<lambda>p. pb_id p < db_next d) (db_playbooks d)"

lemma py_eq_refl [simp]: "py_eq (connectivity_definition protocol nat_mode) (connectivity_definition protocol nat_mode)"
  by (cases nat_mode) (simp_all add: connectivity_definition_def ping_step_def cli_step_def)

lemma get_or_create_spec:
  assumes "get_or_create_playbook d c protocol nat_mode = (p, d1)" and "rows_ok d"
  shows "get_playbook (pb_id p) d1 = Some p \<and> pb_company p = c \<and> pb_name p = probe_name protocol nat_mode \<and>
    py_eq (pb_definition p) (connectivity_definition protocol nat_mode) \<and> probe_kept d d1 c (probe_name protocol nat_mode) \<and>
    db_jobs d1 = db_jobs d \<and> rows_ok d1"
proof (cases "probe_rows c (probe_name protocol nat_mode) d")
  case Nil
  let ?n = "probe_name protocol nat_mode"
  have p: "p = new_playbook c ?n (connectivity_definition protocol nat_mode) d"
    and d1: "d1 = d\<lparr>db_next := Suc (db_next d), db_playbooks := db_playbooks d @ [p]\<rparr>"
    using assms(1) Nil by (auto simp: get_or_create_playbook_def Let_def)
  have "find_by pb_id (db_next d) (db_playbooks d) = None"
    using assms(2) by (auto simp: find_by_None rows_ok_def list_all_iff)
  with Nil assms(2) show ?thesis
    by (auto simp: p d1 new_playbook_def get_playbook_def find_by_append probe_kept_def probe_rows_def rows_ok_def list_all_iff)
next
  case (Cons q qs)
  let ?n = "probe_name protocol nat_mode" and ?def = "connectivity_definition protocol nat_mode"
  have q: "q \<in> set (db_playbooks d)" "pb_company q = c" "pb_name q = ?n"
    using Cons by (auto simp: probe_rows_def filter_eq_Cons_iff)
  show ?thesis
  proof (cases "py_eq (pb_definition q) ?def")
    case True
    with assms Cons q show ?thesis
      by (auto simp: get_or_create_playbook_def Let_def get_playbook_def rows_ok_def probe_kept_def find_by_unique)
  next
    case False
    let ?p = "q\<lparr>pb_definition := ?def\<rparr>"
    have e: "p = ?p" "d1 = put_playbook ?p d" using False assms(1) Cons by (auto simp: get_or_create_playbook_def Let_def)
    obtain us vs where r: "db_playbooks d = us @ q # vs" using q(1) by (meson split_list)
    have "put_by pb_id ?p (db_playbooks d) = us @ ?p # vs"
      by (rule put_by_split [OF _ r]) (use assms(2) in \<open>simp_all add: rows_ok_def\<close>)
    then have pd: "db_playbooks d1 = us @ ?p # vs" by (simp add: e put_playbook_def)
    have "db_jobs d1 = db_jobs d" "db_next d1 = db_next d" by (simp_all add: e put_playbook_def)
    moreover have "pb_id q \<notin> pb_id ` set us" using assms(2) by (auto simp: rows_ok_def r)
    then have "find_by pb_id (pb_id q) us = None" by (simp add: find_by_None)
    then have "get_playbook (pb_id ?p) d1 = Some ?p" by (simp add: get_playbook_def pd find_by_append)
    moreover have "length (probe_rows c ?n d1) = max 1 (length (probe_rows c ?n d))"
      using q(2,3) by (simp add: probe_rows_def pd r)
    ultimately show ?thesis
      using assms(2) q(2,3) by (simp add: e(1) rows_ok_def probe_kept_def pd r)
  qed
qed

lemma probe_name_system: "protocol \<in> set [''ssh'', ''telnet''] \<Longrightarrow> probe_name protocol nat_mode \<in> set SYSTEM_PLAYBOOK_NAMES"
  by (auto simp: probe_name_def SYSTEM_PLAYBOOK_NAMES_def CORE_CONNECTIVITY_PLAYBOOK_NAMES_def)

definition key_in_flight :: "db \<Rightarrow> id \<Rightarrow> string \<Rightarrow> bool" where
  "key_in_flight d c key = list_ex (\<lambda>q. j_company q = c \<and> j_key q = Some key \<and> in_flight (j_status q)) (db_jobs d)"

lemma job_free: "list_all (\<lambda>q. j_id q < db_next d) (db_jobs d) \<Longrightarrow> db_jobs d1 = db_jobs d \<Longrightarrow> db_next d \<le> db_next d1 \<Longrightarrow>
    job_key_taken ((probe_job t pid key trig user)\<lparr>j_id := db_next d1\<rparr>) d1 = key_in_flight d (it_company (pt_item t)) key"
proof -
  assume a: "list_all (\<lambda>q. j_id q < db_next d) (db_jobs d)" "db_jobs d1 = db_jobs d" "db_next d \<le> db_next d1"
  then have "q \<in> set (db_jobs d) \<Longrightarrow> j_id q \<noteq> db_next d1" for q by (auto simp: list_all_iff)
  with a(2) show ?thesis by (auto simp: job_key_taken_def key_in_flight_def probe_job_def list_ex_iff)
qed

definition probe_queued :: "db \<Rightarrow> db \<Rightarrow> probe_target \<Rightarrow> string \<Rightarrow> job \<Rightarrow> bool" where
  \<comment> \<open>one job more, for the company's current probe of the device\<close>
  "probe_queued d d' t key j \<longleftrightarrow>
     db_jobs d' = db_jobs d @ [j] \<and> j_item j = Some (it_id (pt_item t)) \<and> j_key j = Some key \<and> j_status j = QUEUED \<and>
     (case get_playbook (j_playbook j) d' of
        None \<Rightarrow> False
      | Some p \<Rightarrow> pb_company p = it_company (pt_item t) \<and> j_company j = pb_company p \<and>
          pb_name p = probe_name (target_protocol t) (target_gateway d t) \<and>
          py_eq (pb_definition p) (connectivity_definition (target_protocol t) (target_gateway d t)))"


definition probe_env :: env where
  "probe_env = \<lparr>env_canon = Some, env_kill_switch = None, env_cwmp_url = None, env_seal = (\<lambda>_ _ _. None),
     env_open = (\<lambda>_ _ _. None), env_choice = (\<lambda>_ _ _. 0)\<rparr>"

definition probe_db :: db where
  \<comment> \<open>with a probe an earlier version stored\<close>
  "probe_db = \<lparr>db_now = 0, db_next = 9, db_runs = [], db_jobs = [],
     db_playbooks = [\<lparr>pb_id = 3, pb_company = 1, pb_name = ''core_connectivity_check_ssh'', pb_version = 1,
       pb_definition = JDict [(''steps'', JList [])], pb_last_dry = None\<rparr>],
     db_types = [], db_services = [], db_items = [], db_settings = [], db_credentials = [], db_registrations = [],
     db_actions = [], db_events = []\<rparr>"

definition olt_target :: probe_target where
  "olt_target = \<lparr>pt_item = \<lparr>it_id = 5, it_company = 1, it_mgmt_host = Some ''10.0.0.2'', it_mgmt_port = None, it_nat_port = None,
     it_check_at = None, it_check_ok = None\<rparr>, pt_protocol = None, pt_type = None, pt_attributes = JNull\<rparr>"


end
