(* ===== verification/Credential_Crypto.thy ===== *)
theory Credential_Crypto
  imports Prelude
begin

text \<open>
  \<open>utils/crypto.py\<close>: the envelope a device credential is stored in. Each secret is encrypted with a key of its own,
  which is wrapped with a key of the environment; both ciphertexts are bound to the row by its company and id. A byte
  string is a list of characters, a text its UTF-8 bytes. Arguments: the cipher, \<open>json.loads\<close>, base64, the two variables of the
  environment, and the random bytes.
\<close>

section \<open>What is outside\<close>

record cipher =
  cf_loads :: "string \<Rightarrow> json option"
  cf_base64 :: "string \<Rightarrow> string option"
  cf_encrypt :: "string \<Rightarrow> string \<Rightarrow> string \<Rightarrow> string \<Rightarrow> string" \<comment> \<open>key, nonce, data, associated data\<close>
  cf_decrypt :: "string \<Rightarrow> string \<Rightarrow> string \<Rightarrow> string \<Rightarrow> string option"

record crypto_env =
  ce_keks :: "string option"
  ce_active :: "string option"

record nonces =
  nc_dek :: string
  nc_secret :: string
  nc_wrap :: string

definition NONCE_BYTES :: nat where "NONCE_BYTES = 12"
definition DEK_BYTES :: nat where "DEK_BYTES = 32"
definition KEK_BYTES :: nat where "KEK_BYTES = 32"

datatype crypto_error = KeyUnavailable | CryptoFailure

section \<open>Keys\<close>

fun read_keks :: "cipher \<Rightarrow> dict \<Rightarrow> crypto_error + (string \<times> string) list" where
  "read_keks cf [] = Inr []"
| "read_keks cf ((kid, v) # rest) =
     (case v of
        JStr b64 \<Rightarrow>
          (case cf_base64 cf b64 of
             None \<Rightarrow> Inl CryptoFailure
           | Some key \<Rightarrow> guardR (length key \<noteq> KEK_BYTES) CryptoFailure (bindR (read_keks cf rest) (\<lambda>ks. Inr ((kid, key) # ks))))
      | _ \<Rightarrow> Inl CryptoFailure)"

definition load_keks :: "cipher \<Rightarrow> crypto_env \<Rightarrow> crypto_error + (string \<times> string) list" where
  "load_keks cf E =
     (case ce_keks E of
        None \<Rightarrow> Inl KeyUnavailable
      | Some raw \<Rightarrow>
          guardR (raw = []) KeyUnavailable (
          case cf_loads cf raw of
            Some (JDict d) \<Rightarrow> guardR (d = []) CryptoFailure (read_keks cf d)
          | _ \<Rightarrow> Inl CryptoFailure))"

definition active_kek_id :: "crypto_env \<Rightarrow> crypto_error + string" where
  "active_kek_id E = (case ce_active E of None \<Rightarrow> Inl KeyUnavailable | Some kid \<Rightarrow> guardR (kid = []) KeyUnavailable (Inr kid))"

definition resolve_kek :: "cipher \<Rightarrow> crypto_env \<Rightarrow> string \<Rightarrow> crypto_error + string" where
  "resolve_kek cf E kid =
     bindR (load_keks cf E) (\<lambda>ks. case map_of ks kid of None \<Rightarrow> Inl KeyUnavailable | Some key \<Rightarrow> Inr key)"

definition row_aad :: "nat \<Rightarrow> nat \<Rightarrow> string" where
  "row_aad company credential = show_nat company @ '':'' @ show_nat credential"

section \<open>Sealing and opening\<close>

definition encrypt_secret ::
  "cipher \<Rightarrow> crypto_env \<Rightarrow> nonces \<Rightarrow> string \<Rightarrow> nat \<Rightarrow> nat \<Rightarrow> crypto_error + string \<times> string \<times> string" where
  "encrypt_secret cf E nc plaintext company credential =
     bindR (active_kek_id E) (\<lambda>kid.
     bindR (resolve_kek cf E kid) (\<lambda>kek.
       (let aad = row_aad company credential
        in Inr (nc_secret nc @ cf_encrypt cf (nc_dek nc) (nc_secret nc) plaintext aad,
                nc_wrap nc @ cf_encrypt cf kek (nc_wrap nc) (nc_dek nc) aad, kid))))"

definition decrypt_secret ::
  "cipher \<Rightarrow> crypto_env \<Rightarrow> string \<Rightarrow> string \<Rightarrow> string \<Rightarrow> nat \<Rightarrow> nat \<Rightarrow> crypto_error + string" where
  "decrypt_secret cf E secret_ciphertext dek_wrapped kid company credential =
     bindR (resolve_kek cf E kid) (\<lambda>kek.
       (let aad = row_aad company credential
        in case cf_decrypt cf kek (take NONCE_BYTES dek_wrapped) (drop NONCE_BYTES dek_wrapped) aad of
             None \<Rightarrow> Inl CryptoFailure
           | Some dek \<Rightarrow>
               (case cf_decrypt cf dek (take NONCE_BYTES secret_ciphertext) (drop NONCE_BYTES secret_ciphertext) aad of
                  None \<Rightarrow> Inl CryptoFailure
                | Some plaintext \<Rightarrow> Inr plaintext)))"

definition fingerprint :: "(string \<Rightarrow> string) \<Rightarrow> string \<Rightarrow> string" where
  \<comment> \<open>the argument: SHA-256 in hexadecimal\<close>
  "fingerprint sha plaintext = (let h = sha plaintext in drop (length h - 4) h)"

section \<open>A ciphertext belongs to its row\<close>

lemma not_digit_colon: "\<not> is_digit (CHR '':'')"
  by (simp add: is_digit_def)

lemma row_aad_inj: "row_aad c k = row_aad c' k' \<longleftrightarrow> c = c' \<and> k = k'"
proof
  assume a: "row_aad c k = row_aad c' k'"
  have d: "takeWhile is_digit (row_aad c k) = show_nat c" for c k
    using show_nat_digits not_digit_colon by (auto simp: row_aad_def takeWhile_append2)
  have e: "drop (Suc (length (show_nat c))) (row_aad c k) = show_nat k" for c k by (simp add: row_aad_def)
  from a d have s: "show_nat c = show_nat c'" by metis
  with a e have "show_nat k = show_nat k'" by metis
  with s show "c = c' \<and> k = k'" by (metis read_show_nat)
qed simp

lemma read_keks_length: "read_keks cf d = Inr ks \<Longrightarrow> map_of ks kid = Some key \<Longrightarrow> length key = KEK_BYTES"
  by (induction cf d arbitrary: ks rule: read_keks.induct)
    (auto simp: bindR_Inr_iff guardR_Inr_iff split: json.splits option.splits if_splits)

lemma resolve_kek_length: "resolve_kek cf E kid = Inr key \<Longrightarrow> length key = KEK_BYTES"
  by (auto simp: resolve_kek_def load_keks_def bindR_Inr_iff guardR_Inr_iff split: option.splits json.splits
      dest: read_keks_length)

definition authentic :: "cipher \<Rightarrow> bool" where
  \<comment> \<open>what the cipher promises: it opens what it sealed, and refuses other associated data\<close>
  "authentic cf \<longleftrightarrow>
     (\<forall>k n p a. length k = DEK_BYTES \<longrightarrow> length n = NONCE_BYTES \<longrightarrow> cf_decrypt cf k n (cf_encrypt cf k n p a) a = Some p) \<and>
     (\<forall>k n p a a'. a \<noteq> a' \<longrightarrow> cf_decrypt cf k n (cf_encrypt cf k n p a) a' = None)"

text \<open>A cipher that keeps the promise, for the witness: it frames the key, the nonce and the associated data before the text.\<close>

fun frame :: "string \<Rightarrow> string" where
  "frame [] = [CHR 0x00]"
| "frame (c # cs) = CHR 0x01 # c # frame cs"

definition framed :: "string \<Rightarrow> string \<Rightarrow> string \<Rightarrow> string" where
  "framed k n a = frame k @ frame n @ frame a"

lemma frame_append_eq: "frame a @ p = frame b @ q \<longleftrightarrow> a = b \<and> p = q"
proof (induction a arbitrary: b)
  case Nil
  then show ?case by (cases b) auto
next
  case (Cons c cs)
  then show ?case by (cases b) auto
qed

definition framing_cipher :: cipher where
  "framing_cipher =
     \<lparr>cf_loads = (\<lambda>_. Some (JDict [(''k1'', JStr ''S0tL'')])), cf_base64 = (\<lambda>s. Some (replicate 32 (hd s))),
      cf_encrypt = (\<lambda>k n p a. framed k n a @ p),
      cf_decrypt = (\<lambda>k n c a. let h = framed k n a in if take (length h) c = h then Some (drop (length h) c) else None)\<rparr>"

lemma framing_cipher_refuses:
  assumes "a \<noteq> a'"
  shows "take (length (framed k n a')) (framed k n a @ p) \<noteq> framed k n a'"
proof
  let ?h = "framed k n a'"
  assume "take (length ?h) (framed k n a @ p) = ?h"
  then have "framed k n a @ p = ?h @ drop (length ?h) (framed k n a @ p)" by (metis append_take_drop_id)
  with assms show False by (simp add: framed_def frame_append_eq)
qed

lemma framing_cipher_authentic: "authentic framing_cipher"
proof -
  have "cf_decrypt framing_cipher k n (cf_encrypt framing_cipher k n p a) a = Some p" for k n p a
    by (simp add: framing_cipher_def Let_def)
  moreover have "cf_decrypt framing_cipher k n (cf_encrypt framing_cipher k n p a) a' = None" if "a \<noteq> a'" for k n p a a'
    using framing_cipher_refuses [OF that] by (simp add: framing_cipher_def Let_def del: take_append)
  ultimately show ?thesis by (simp add: authentic_def)
qed

definition toy_nonces :: nonces where
  "toy_nonces = \<lparr>nc_dek = replicate 32 (CHR ''D''), nc_secret = replicate 12 (CHR ''s''), nc_wrap = replicate 12 (CHR ''w'')\<rparr>"

definition toy_env :: "string \<Rightarrow> crypto_env" where
  "toy_env active = \<lparr>ce_keks = Some ''{}'', ce_active = Some active\<rparr>"

text \<open>
  C20. A stored credential opens in its own row and nowhere else: as long as the key that wrapped it is still configured,
  whatever key is active now, decrypting gives the plaintext for the company and credential it was sealed for and
  fails for every other row.
\<close>

theorem credential_opens_only_in_place:
  assumes "authentic cf" and "length (nc_dek nc) = DEK_BYTES" "length (nc_secret nc) = NONCE_BYTES" "length (nc_wrap nc) = NONCE_BYTES"
    and "encrypt_secret cf E nc plaintext company credential = Inr (sealed, wrapped, kid)"
    and "resolve_kek cf E' kid = resolve_kek cf E kid"
  shows "decrypt_secret cf E' sealed wrapped kid company' credential' =
    (if company' = company \<and> credential' = credential then Inr plaintext else Inl CryptoFailure)"
proof -
  let ?a = "row_aad company credential"
  from assms(5) obtain kek where k: "resolve_kek cf E kid = Inr kek"
    and s: "sealed = nc_secret nc @ cf_encrypt cf (nc_dek nc) (nc_secret nc) plaintext ?a"
    and w: "wrapped = nc_wrap nc @ cf_encrypt cf kek (nc_wrap nc) (nc_dek nc) ?a"
    by (auto simp: encrypt_secret_def bindR_Inr_iff Let_def)
  have "length kek = DEK_BYTES" using resolve_kek_length [OF k] by (simp add: KEK_BYTES_def DEK_BYTES_def)
  with assms(1-4) have "cf_decrypt cf kek (nc_wrap nc) (cf_encrypt cf kek (nc_wrap nc) (nc_dek nc) ?a) ?a = Some (nc_dek nc)"
    "cf_decrypt cf (nc_dek nc) (nc_secret nc) (cf_encrypt cf (nc_dek nc) (nc_secret nc) plaintext ?a) ?a = Some plaintext"
    and "?a \<noteq> a' \<Longrightarrow> cf_decrypt cf kek (nc_wrap nc) (cf_encrypt cf kek (nc_wrap nc) (nc_dek nc) ?a) a' = None" for a'
    by (simp_all add: authentic_def)
  then show ?thesis
    using k assms(3,4,6) row_aad_inj [of company credential company' credential'] by (auto simp: decrypt_secret_def s w Let_def)
qed

theorem credential_opens_only_in_place_witness:
  "let aad = row_aad 7 41;
       sealed = replicate 12 (CHR ''s'') @ framed (replicate 32 (CHR ''D'')) (replicate 12 (CHR ''s'')) aad @ ''pw'';
       wrapped = replicate 12 (CHR ''w'') @ framed (replicate 32 (CHR ''S'')) (replicate 12 (CHR ''w'')) aad @ replicate 32 (CHR ''D'')
   in encrypt_secret framing_cipher (toy_env ''k1'') toy_nonces ''pw'' 7 41 = Inr (sealed, wrapped, ''k1'') \<and>
      decrypt_secret framing_cipher (toy_env ''k2'') sealed wrapped ''k1'' 7 41 = Inr ''pw'' \<and>
      decrypt_secret framing_cipher (toy_env ''k2'') sealed wrapped ''k1'' 7 42 = Inl CryptoFailure"
proof -
  let ?aad = "row_aad 7 41"
  let ?sealed = "replicate 12 (CHR ''s'') @ framed (replicate 32 (CHR ''D'')) (replicate 12 (CHR ''s'')) ?aad @ ''pw''"
  let ?wrapped = "replicate 12 (CHR ''w'') @ framed (replicate 32 (CHR ''S'')) (replicate 12 (CHR ''w'')) ?aad @ replicate 32 (CHR ''D'')"
  have k: "resolve_kek framing_cipher (toy_env active) ''k1'' = Inr (replicate 32 (CHR ''S''))" for active
    by (simp add: resolve_kek_def load_keks_def toy_env_def framing_cipher_def KEK_BYTES_def guardR_def)
  have e: "encrypt_secret framing_cipher (toy_env ''k1'') toy_nonces ''pw'' 7 41 = Inr (?sealed, ?wrapped, ''k1'')"
  proof -
    have "active_kek_id (toy_env ''k1'') = Inr ''k1''" by (simp add: active_kek_id_def toy_env_def guardR_def)
    then have "encrypt_secret framing_cipher (toy_env ''k1'') nc ''pw'' 7 41 =
        Inr (nc_secret nc @ cf_encrypt framing_cipher (nc_dek nc) (nc_secret nc) ''pw'' ?aad,
             nc_wrap nc @ cf_encrypt framing_cipher (replicate 32 (CHR ''S'')) (nc_wrap nc) (nc_dek nc) ?aad, ''k1'')" for nc
      by (simp add: encrypt_secret_def k Let_def)
    then show ?thesis by (simp add: toy_nonces_def) (simp add: framing_cipher_def)
  qed
  have r: "resolve_kek framing_cipher (toy_env ''k2'') ''k1'' = resolve_kek framing_cipher (toy_env ''k1'') ''k1''"
    by (simp add: k)
  have n: "length (nc_dek toy_nonces) = DEK_BYTES" "length (nc_secret toy_nonces) = NONCE_BYTES" "length (nc_wrap toy_nonces) = NONCE_BYTES"
    by (simp_all add: toy_nonces_def DEK_BYTES_def NONCE_BYTES_def)
  show ?thesis
    using e credential_opens_only_in_place [OF framing_cipher_authentic n e r] unfolding Let_def by simp
qed

lemma retired_key: "resolve_kek cf E' kid = Inl e \<Longrightarrow> decrypt_secret cf E' sealed wrapped kid company credential = Inl e"
  by (simp add: decrypt_secret_def)

end
