(* ===== verification/Service_History.thy ===== *)
theory Service_History
  imports Isp_Models
begin

text \<open>
  \<open>alembic/versions/sh1_service_history_repair.py\<close>: the data repair that gives the months a client was billed for an older
  plan a service of their own. Amounts are cents, points in time microseconds. Rows have the columns the repair reads
  or writes, without \<open>updated_at\<close> and the free text of \<open>notes\<close>; ids of new services come from a counter. Orders of
  one service created at the same instant keep their order in the table. The rows are those a \<open>SELECT\<close> of the code
  returns before its updates; an exception is a value, and its transaction is lost.
\<close>

section \<open>Rows\<close>

datatype billing_status = BILL_ACTIVE | BILL_PAUSED | BILL_INACTIVE | BILL_CANCELLED

record plan_row =
  pr_id :: nat
  pr_company :: nat
  pr_name :: string
  pr_price :: "int option" \<comment> \<open>\<open>price_cents\<close>\<close>
  pr_service_kind :: bool \<comment> \<open>\<open>kind = 'SERVICE'\<close>\<close>
  pr_active :: bool

record contract =
  cv_id :: nat
  cv_created :: nat
  cv_status :: client_service_status
  cv_activation :: "nat option"
  cv_cancelled :: "nat option"
  cv_company :: nat
  cv_client :: nat
  cv_plan :: nat
  cv_recurrence :: "string option"
  cv_recurrence_end :: "nat option"
  cv_next_generation :: "nat option"
  cv_last_generated :: "nat option"
  cv_billing :: "billing_status option"
  cv_quantity :: int
  cv_source :: "string option"
  cv_install_state :: string
  cv_installed :: "nat option"

record bill =
  bl_id :: nat
  bl_created :: nat
  bl_total :: "int option" \<comment> \<open>\<open>total_cents\<close>\<close>
  bl_recurring :: bool \<comment> \<open>\<open>order_type = 'RECURRING'\<close>\<close>
  bl_cancelled :: bool \<comment> \<open>\<open>status = 'CANCELLED'\<close>\<close>
  bl_service :: "nat option"

record bill_line =
  ln_id :: nat
  ln_order :: nat
  ln_quantity :: int
  ln_unit :: "int option" \<comment> \<open>\<open>unit_price_cents\<close>\<close>
  ln_plan :: "nat option"
  ln_name :: "string option"

record books =
  bk_plans :: "plan_row list"
  bk_services :: "contract list"
  bk_orders :: "bill list"
  bk_lines :: "bill_line list"
  bk_next :: nat

datatype repair_error = TypeError | NoResultFound | StillMismatched nat

definition get_contract :: "nat \<Rightarrow> books \<Rightarrow> contract option" where "get_contract i d = find_by cv_id i (bk_services d)"
definition put_contract :: "contract \<Rightarrow> books \<Rightarrow> books" where
  "put_contract c d = d\<lparr>bk_services := put_by cv_id c (bk_services d)\<rparr>"
definition get_bill :: "nat \<Rightarrow> books \<Rightarrow> bill option" where "get_bill i d = find_by bl_id i (bk_orders d)"
definition put_bill :: "bill \<Rightarrow> books \<Rightarrow> books" where "put_bill b d = d\<lparr>bk_orders := put_by bl_id b (bk_orders d)\<rparr>"
definition get_line :: "nat \<Rightarrow> books \<Rightarrow> bill_line option" where "get_line i d = find_by ln_id i (bk_lines d)"
definition put_line :: "bill_line \<Rightarrow> books \<Rightarrow> books" where "put_line l d = d\<lparr>bk_lines := put_by ln_id l (bk_lines d)\<rparr>"

interpretation contracts: row_store cv_id get_contract put_contract
  by unfold_locales (auto simp: get_contract_def put_contract_def dest: find_by_SomeD)

interpretation bills: row_store bl_id get_bill put_bill
  by unfold_locales (auto simp: get_bill_def put_bill_def dest: find_by_SomeD)

interpretation bill_lines: row_store ln_id get_line put_line
  by unfold_locales (auto simp: get_line_def put_line_def dest: find_by_SomeD)

fun each :: "('a \<Rightarrow> 'd \<Rightarrow> 'e + 'd) \<Rightarrow> 'a list \<Rightarrow> 'd \<Rightarrow> 'e + 'd" where
  \<comment> \<open>a loop whose body changes the state or raises\<close>
  "each f [] d = Inr d"
| "each f (x # xs) d = bindR (f x d) (each f xs)"

section \<open>What the queries see\<close>

definition is_billed :: "bill \<Rightarrow> bool" where
  "is_billed b \<longleftrightarrow> bl_recurring b \<and> \<not> bl_cancelled b"

definition lines_of :: "books \<Rightarrow> bill \<Rightarrow> bill_line list" where
  "lines_of d b = filter (\<lambda>l. ln_order l = bl_id b) (bk_lines d)"

definition line_sum :: "books \<Rightarrow> bill \<Rightarrow> int" where
  \<comment> \<open>\<open>COALESCE(sum(unit_price_cents * quantity), 0)\<close>\<close>
  "line_sum d b = (\<Sum>l\<leftarrow>lines_of d b. case ln_unit l of None \<Rightarrow> 0 | Some u \<Rightarrow> u * ln_quantity l)"

definition mismatched :: "books \<Rightarrow> bill \<Rightarrow> bool" where
  \<comment> \<open>\<open>IS DISTINCT FROM\<close>\<close>
  "mismatched d b \<longleftrightarrow> bl_total b \<noteq> Some (line_sum d b)"

definition billed_orders :: "books \<Rightarrow> nat \<Rightarrow> bill list" where
  "billed_orders d sid = sort_key bl_created (filter (\<lambda>b. bl_service b = Some sid \<and> is_billed b) (bk_orders d))"

definition plan_of :: "books \<Rightarrow> nat \<Rightarrow> plan_row option" where
  "plan_of d i = find_by pr_id i (bk_plans d)"

definition plan_for_price :: "books \<Rightarrow> nat \<Rightarrow> int option \<Rightarrow> plan_row option" where
  "plan_for_price d company price =
     (let cands = filter (\<lambda>p. pr_service_kind p \<and> pr_company p = company \<and> pr_price p = price) (bk_plans d);
          active = filter pr_active cands
      in if length cands = 1 then Some (hd cands)
         else if length active = 1 then Some (hd active) else None)"

definition affected :: "books \<Rightarrow> nat list" where
  "affected d = dedup (concat (map (\<lambda>b. case bl_service b of
      None \<Rightarrow> [] | Some sid \<Rightarrow> if is_billed b \<and> mismatched d b then [sid] else []) (bk_orders d)))"

definition remaining :: "books \<Rightarrow> bill list" where
  "remaining d = filter (\<lambda>b. is_billed b \<and> length (lines_of d b) = 1 \<and> mismatched d b) (bk_orders d)"

section \<open>Services that were replaced\<close>

definition replaced_by :: "books \<Rightarrow> contract \<Rightarrow> contract option" where
  \<comment> \<open>\<open>ORDER BY created_at LIMIT 1\<close>\<close>
  "replaced_by d c =
     (case sort_key cv_created (filter (\<lambda>n. cv_client n = cv_client c \<and> cv_id n \<noteq> cv_id c \<and>
             cv_created c < cv_created n \<and> cv_status n \<noteq> SVC_CANCELLED) (bk_services d)) of
        [] \<Rightarrow> None
      | n # _ \<Rightarrow> Some n)"

definition last_billed :: "books \<Rightarrow> nat \<Rightarrow> nat option" where
  "last_billed d sid = (case billed_orders d sid of [] \<Rightarrow> None | bs \<Rightarrow> Some (bl_created (last bs)))"

definition switch_at :: "books \<Rightarrow> contract \<Rightarrow> nat" where
  "switch_at d n =
     (case billed_orders d (cv_id n) of
        b # _ \<Rightarrow> bl_created b
      | [] \<Rightarrow> (case cv_activation n of Some t \<Rightarrow> t | None \<Rightarrow> cv_created n))"

definition tidied :: "books \<Rightarrow> contract \<Rightarrow> contract" where
  "tidied d c =
     (if cv_status c = ACTIVE \<and> cv_billing c = Some BILL_INACTIVE then
        (case replaced_by d c of
           None \<Rightarrow> c
         | Some n \<Rightarrow>
             (let at = switch_at d n
              in case last_billed d (cv_id c) of
                   Some l \<Rightarrow>
                     if at \<le> l then c
                     else c\<lparr>cv_status := SVC_CANCELLED, cv_billing := Some BILL_CANCELLED, cv_cancelled := Some at,
                            cv_recurrence_end := Some l, cv_next_generation := None\<rparr>
                 | None \<Rightarrow>
                     c\<lparr>cv_status := SVC_CANCELLED, cv_billing := Some BILL_CANCELLED, cv_cancelled := Some at,
                       cv_recurrence_end := Some at, cv_next_generation := None\<rparr>))
      else c)"

definition tidy_replaced_services :: "books \<Rightarrow> books" where
  "tidy_replaced_services d = d\<lparr>bk_services := map (tidied d) (bk_services d)\<rparr>"

section \<open>The repair of one service\<close>

type_synonym priced_run = "int option \<times> (bill \<times> bill_line list) list"

definition add_to_runs :: "priced_run list \<Rightarrow> bill \<times> bill_line list \<Rightarrow> priced_run list" where
  "add_to_runs rs q =
     (if rs \<noteq> [] \<and> fst (last rs) = bl_total (fst q) then butlast rs @ [(fst (last rs), snd (last rs) @ [q])]
      else rs @ [(bl_total (fst q), [q])])"

definition price_runs :: "(bill \<times> bill_line list) list \<Rightarrow> priced_run list" where
  "price_runs os = foldl add_to_runs [] os"

definition line_quantity :: "bill_line \<Rightarrow> int" where
  "line_quantity l = max (if ln_quantity l = 0 then 1 else ln_quantity l) 1"

definition fix_line :: "bill \<times> bill_line list \<Rightarrow> books \<Rightarrow> repair_error + books" where
  "fix_line q d =
     (case q of (b, [l]) \<Rightarrow>
        (case ln_unit l of
           None \<Rightarrow> Inl TypeError
         | Some u \<Rightarrow>
             if bl_total b \<noteq> Some (u * line_quantity l) then
               (case bl_total b of
                  None \<Rightarrow> Inl TypeError
                | Some t \<Rightarrow> Inr (put_line (l\<lparr>ln_unit := Some (t div line_quantity l)\<rparr>) d))
             else Inr d)
      | _ \<Rightarrow> Inr d)"

definition move_order :: "nat \<Rightarrow> plan_row \<Rightarrow> bill \<times> bill_line list \<Rightarrow> books \<Rightarrow> repair_error + books" where
  "move_order hid p q d =
     (case q of (b, l # _) \<Rightarrow>
        (case bl_total b of
           None \<Rightarrow> Inl TypeError
         | Some t \<Rightarrow>
             Inr (put_line (l\<lparr>ln_plan := Some (pr_id p), ln_unit := Some (t div line_quantity l), ln_name := Some (pr_name p)\<rparr>)
                 (put_bill (b\<lparr>bl_service := Some hid\<rparr>) d)))
      | (b, []) \<Rightarrow> Inl TypeError)"

definition historical :: "nat \<Rightarrow> contract \<Rightarrow> plan_row \<Rightarrow> nat \<Rightarrow> nat \<Rightarrow> nat \<Rightarrow> contract" where
  "historical hid svc p start until last_gen =
     \<lparr>cv_id = hid, cv_created = start, cv_status = SVC_CANCELLED, cv_activation = Some start, cv_cancelled = Some until,
      cv_company = cv_company svc, cv_client = cv_client svc, cv_plan = pr_id p, cv_recurrence = cv_recurrence svc,
      cv_recurrence_end = Some last_gen, cv_next_generation = None, cv_last_generated = Some last_gen,
      cv_billing = Some BILL_CANCELLED, cv_quantity = cv_quantity svc, cv_source = Some ''sh1'',
      cv_install_state = cv_install_state svc,
      cv_installed = (if cv_install_state svc = ''INSTALLED'' then Some start else None)\<rparr>"

definition insert_contract :: "(nat \<Rightarrow> contract) \<Rightarrow> books \<Rightarrow> books" where
  "insert_contract f d = d\<lparr>bk_services := bk_services d @ [f (bk_next d)], bk_next := Suc (bk_next d)\<rparr>"

definition run_start :: "(bill \<times> bill_line list) list \<Rightarrow> nat" where
  "run_start os = bl_created (fst (hd os))"

fun write_runs :: "contract \<Rightarrow> bool \<Rightarrow> nat \<Rightarrow> (plan_row \<times> (bill \<times> bill_line list) list) list \<Rightarrow> books \<Rightarrow> repair_error + books" where
  \<comment> \<open>the flag: the first run\<close>
  "write_runs svc first new_start [] d = Inr d"
| "write_runs svc first new_start ((p, os) # rest) d =
     (let at = run_start os;
          start = (case cv_activation svc of Some t \<Rightarrow> if first \<and> t \<le> at then t else at | None \<Rightarrow> at);
          until = (case rest of [] \<Rightarrow> new_start | (_, os') # _ \<Rightarrow> run_start os')
      in bindR (each (move_order (bk_next d) p) os
                  (insert_contract (\<lambda>hid. historical hid svc p start until (bl_created (fst (last os)))) d))
           (write_runs svc False new_start rest))"

definition with_lines :: "books \<Rightarrow> nat \<Rightarrow> (bill \<times> bill_line list) list" where
  "with_lines d sid = map (\<lambda>b. (b, lines_of d b)) (billed_orders d sid)"

definition old_part :: "int option \<Rightarrow> (bill \<times> bill_line list) list \<Rightarrow> (bill \<times> bill_line list) list" where
  "old_part price os = takeWhile (\<lambda>q. bl_total (fst q) \<noteq> price) os"

definition new_part :: "int option \<Rightarrow> (bill \<times> bill_line list) list \<Rightarrow> (bill \<times> bill_line list) list" where
  \<comment> \<open>from \<open>first_cur\<close>, the first order at the current price\<close>
  "new_part price os = dropWhile (\<lambda>q. bl_total (fst q) \<noteq> price) os"

definition planned_runs :: "books \<Rightarrow> nat \<Rightarrow> int option \<Rightarrow> (bill \<times> bill_line list) list \<Rightarrow>
    (plan_row option \<times> (bill \<times> bill_line list) list) list" where
  "planned_runs d company price os =
     map (\<lambda>(p, run). (plan_for_price d company p, run)) (price_runs (old_part price os))"

definition clean_switch :: "books \<Rightarrow> nat \<Rightarrow> int option \<Rightarrow> (bill \<times> bill_line list) list \<Rightarrow> bool" where
  "clean_switch d company price os \<longleftrightarrow>
     list_all (\<lambda>q. length (snd q) = 1) os \<and> new_part price os \<noteq> [] \<and> old_part price os \<noteq> [] \<and>
     list_all (\<lambda>q. bl_total (fst q) = price) (new_part price os) \<and>
     list_all (\<lambda>r. fst r \<noteq> None) (planned_runs d company price os)"

definition repair_service :: "nat \<Rightarrow> books \<Rightarrow> repair_error + books" where
  "repair_service sid d =
     (case get_contract sid d of
        None \<Rightarrow> Inl NoResultFound
      | Some svc \<Rightarrow>
          (case plan_of d (cv_plan svc) of
             None \<Rightarrow> Inr d
           | Some cur \<Rightarrow>
               (let os = with_lines d sid
                in if clean_switch d (cv_company svc) (pr_price cur) os then
                     (let new_start = run_start (new_part (pr_price cur) os)
                      in bindR (write_runs svc True new_start
                                  (map (\<lambda>(p, run). (the p, run)) (planned_runs d (cv_company svc) (pr_price cur) os)) d)
                           (\<lambda>d'. Inr (put_contract (svc\<lparr>cv_activation := Some new_start, cv_created := new_start\<rparr>) d')))
                   else each fix_line os d)))"

definition repair_history :: "books \<Rightarrow> repair_error + books" where
  \<comment> \<open>\<open>upgrade()\<close>\<close>
  "repair_history d =
     (let d1 = tidy_replaced_services d
      in bindR (each repair_service (affected d1) d1) (\<lambda>d'.
         guardR (remaining d' \<noteq> []) (StillMismatched (length (remaining d'))) (Inr d')))"

section \<open>Runs of one price\<close>

definition is_run :: "priced_run \<Rightarrow> bool" where
  "is_run r \<longleftrightarrow> snd r \<noteq> [] \<and> (\<forall>q\<in>set (snd r). bl_total (fst q) = fst r)"

lemma add_to_runs_concat: "concat (map snd (add_to_runs rs q)) = concat (map snd rs) @ [q]"
  by (cases rs rule: rev_cases) (auto simp: add_to_runs_def)

lemma price_runs_snoc: "price_runs (os @ [q]) = add_to_runs (price_runs os) q"
  by (simp add: price_runs_def)

lemma concat_price_runs: "concat (map snd (price_runs os)) = os"
proof (induction os rule: rev_induct)
  case Nil
  show ?case by (simp add: price_runs_def)
qed (simp add: price_runs_snoc add_to_runs_concat)

lemma price_runs_are_runs: "list_all is_run (price_runs os)"
proof (induction os rule: rev_induct)
  case Nil
  show ?case by (simp add: price_runs_def)
next
  case (snoc q os)
  have "list_all is_run (add_to_runs rs q)" if "list_all is_run rs" for rs
    using that by (cases rs rule: rev_cases) (auto simp: add_to_runs_def is_run_def)
  with snoc show ?case by (simp add: price_runs_snoc)
qed

lemma price_runs_switch: "successively (\<lambda>r r'. fst r \<noteq> fst r') (price_runs os)"
proof (induction os rule: rev_induct)
  case Nil
  show ?case by (simp add: price_runs_def)
next
  case (snoc q os)
  have "successively (\<lambda>r r'. fst r \<noteq> fst r') (add_to_runs rs q)" if "successively (\<lambda>r r'. fst r \<noteq> fst r') rs" for rs
    using that by (cases rs rule: rev_cases) (auto simp: add_to_runs_def successively_append_iff)
  with snoc show ?case by (simp add: price_runs_snoc)
qed

section \<open>The updates\<close>

lemma get_bill_frame [simp]: "get_bill k (put_line l d) = get_bill k d" "get_bill k (insert_contract f d) = get_bill k d"
    "get_bill k (put_contract c d) = get_bill k d"
  by (simp_all add: get_bill_def put_line_def insert_contract_def put_contract_def)

lemma get_line_frame [simp]: "get_line k (put_bill b d) = get_line k d" "get_line k (insert_contract f d) = get_line k d"
    "get_line k (put_contract c d) = get_line k d"
  by (simp_all add: get_line_def put_bill_def insert_contract_def put_contract_def)

lemma bk_frame [simp]:
  "bk_services (put_bill b d) = bk_services d" "bk_services (put_line l d) = bk_services d"
  "bk_next (put_bill b d) = bk_next d" "bk_next (put_line l d) = bk_next d" "bk_next (put_contract c d) = bk_next d"
  "bk_plans (put_bill b d) = bk_plans d" "bk_plans (put_line l d) = bk_plans d" "bk_plans (put_contract c d) = bk_plans d"
  "bk_plans (insert_contract f d) = bk_plans d" "bk_next (insert_contract f d) = Suc (bk_next d)"
  "map bl_id (bk_orders (put_bill b d)) = map bl_id (bk_orders d)" "bk_orders (put_line l d) = bk_orders d"
  "bk_orders (put_contract c d) = bk_orders d" "bk_orders (insert_contract f d) = bk_orders d"
  "map ln_id (bk_lines (put_line l d)) = map ln_id (bk_lines d)" "bk_lines (put_bill b d) = bk_lines d"
  "bk_lines (put_contract c d) = bk_lines d" "bk_lines (insert_contract f d) = bk_lines d"
  "bk_services (insert_contract f d) = bk_services d @ [f (bk_next d)]"
  by (simp_all add: put_bill_def put_line_def put_contract_def insert_contract_def)

definition moved_bill :: "nat \<Rightarrow> bill \<times> bill_line list \<Rightarrow> bill" where
  "moved_bill hid q = (fst q)\<lparr>bl_service := Some hid\<rparr>"

definition charged :: "bill \<Rightarrow> bill_line \<Rightarrow> int option" where
  "charged b l = Some (the (bl_total b) div line_quantity l)"

definition moved_line :: "plan_row \<Rightarrow> bill \<times> bill_line list \<Rightarrow> bill_line" where
  "moved_line p q = (hd (snd q))\<lparr>ln_plan := Some (pr_id p), ln_unit := charged (fst q) (hd (snd q)), ln_name := Some (pr_name p)\<rparr>"

definition moved :: "nat \<Rightarrow> plan_row \<Rightarrow> bill \<times> bill_line list \<Rightarrow> books \<Rightarrow> books" where
  "moved hid p q d = put_line (moved_line p q) (put_bill (moved_bill hid q) d)"

lemma bl_id_moved [simp]: "bl_id (moved_bill hid q) = bl_id (fst q)"
  by (simp add: moved_bill_def)

lemma ln_id_moved [simp]: "ln_id (moved_line p q) = ln_id (hd (snd q))"
  by (simp add: moved_line_def)

lemma move_order_Inr:
  "move_order hid p q d = Inr d' \<longleftrightarrow> snd q \<noteq> [] \<and> bl_total (fst q) \<noteq> None \<and> d' = moved hid p q d"
  by (cases q) (auto simp: move_order_def moved_def moved_bill_def moved_line_def charged_def split: list.splits option.splits)

lemma each_move:
  "each (move_order hid p) os d = Inr d' \<longleftrightarrow>
     (\<forall>q\<in>set os. snd q \<noteq> [] \<and> bl_total (fst q) \<noteq> None) \<and> d' = fold (moved hid p) os d"
  by (induction os arbitrary: d) (auto simp: bindR_Inr_iff move_order_Inr)

lemma get_moved [simp]:
  "get_bill k (moved hid p q d) = (if k = bl_id (fst q) then map_option (\<lambda>_. moved_bill hid q) (get_bill k d) else get_bill k d)"
  "get_line k (moved hid p q d) = (if k = ln_id (hd (snd q)) then map_option (\<lambda>_. moved_line p q) (get_line k d) else get_line k d)"
  by (simp_all add: moved_def bills.get_put bill_lines.get_put)

lemma get_bill_moved_other: "k \<notin> (bl_id \<circ> fst) ` set os \<Longrightarrow> get_bill k (fold (moved hid p) os d) = get_bill k d"
  by (induction os arbitrary: d) auto

lemma get_line_moved_other: "k \<notin> (ln_id \<circ> hd \<circ> snd) ` set os \<Longrightarrow> get_line k (fold (moved hid p) os d) = get_line k d"
  by (induction os arbitrary: d) auto

lemma get_bill_moved_same:
  "distinct (map (bl_id \<circ> fst) os) \<Longrightarrow> q \<in> set os \<Longrightarrow>
     get_bill (bl_id (fst q)) (fold (moved hid p) os d) = map_option (\<lambda>_. moved_bill hid q) (get_bill (bl_id (fst q)) d)"
proof (induction os arbitrary: d)
  case (Cons q' os)
  show ?case
  proof (cases "q = q'")
    case True
    with Cons.prems have "bl_id (fst q) \<notin> (bl_id \<circ> fst) ` set os" by auto
    then show ?thesis by (simp add: True get_bill_moved_other)
  next
    case False
    with Cons.prems have "bl_id (fst q') \<noteq> bl_id (fst q)" "q \<in> set os" by force+
    with Cons show ?thesis by simp
  qed
qed simp

lemma get_line_moved_same:
  "distinct (map (ln_id \<circ> hd \<circ> snd) os) \<Longrightarrow> q \<in> set os \<Longrightarrow>
     get_line (ln_id (hd (snd q))) (fold (moved hid p) os d) = map_option (\<lambda>_. moved_line p q) (get_line (ln_id (hd (snd q))) d)"
proof (induction os arbitrary: d)
  case (Cons q' os)
  show ?case
  proof (cases "q = q'")
    case True
    with Cons.prems have "ln_id (hd (snd q)) \<notin> (ln_id \<circ> hd \<circ> snd) ` set os" by auto
    then show ?thesis by (simp add: True get_line_moved_other)
  next
    case False
    with Cons.prems have "ln_id (hd (snd q')) \<noteq> ln_id (hd (snd q))" "q \<in> set os" by force+
    with Cons show ?thesis by simp
  qed
qed simp

lemma fold_moved_frame [simp]:
  "bk_services (fold (moved hid p) os d) = bk_services d" "bk_next (fold (moved hid p) os d) = bk_next d"
  "bk_plans (fold (moved hid p) os d) = bk_plans d"
  "map bl_id (bk_orders (fold (moved hid p) os d)) = map bl_id (bk_orders d)"
  "map ln_id (bk_lines (fold (moved hid p) os d)) = map ln_id (bk_lines d)"
  by (induction os arbitrary: d) (simp_all add: moved_def)
section \<open>The runs of a service\<close>

definition first_start :: "contract \<Rightarrow> bool \<Rightarrow> nat \<Rightarrow> nat" where
  "first_start svc first at = (case cv_activation svc of Some t \<Rightarrow> if first \<and> t \<le> at then t else at | None \<Rightarrow> at)"

definition run_end :: "nat \<Rightarrow> (plan_row \<times> (bill \<times> bill_line list) list) list \<Rightarrow> nat" where
  "run_end new_start rest = (case rest of [] \<Rightarrow> new_start | (_, os) # _ \<Rightarrow> run_start os)"

fun run_contracts :: "contract \<Rightarrow> bool \<Rightarrow> nat \<Rightarrow> (plan_row \<times> (bill \<times> bill_line list) list) list \<Rightarrow> nat \<Rightarrow> contract list" where
  "run_contracts svc first new_start [] n = []"
| "run_contracts svc first new_start ((p, os) # rest) n =
     historical n svc p (first_start svc first (run_start os)) (run_end new_start rest) (bl_created (fst (last os))) #
     run_contracts svc False new_start rest (Suc n)"

fun written :: "contract \<Rightarrow> bool \<Rightarrow> nat \<Rightarrow> (plan_row \<times> (bill \<times> bill_line list) list) list \<Rightarrow> books \<Rightarrow> books" where
  "written svc first new_start [] d = d"
| "written svc first new_start ((p, os) # rest) d =
     written svc False new_start rest (fold (moved (bk_next d) p) os (insert_contract (\<lambda>hid. historical hid svc p
       (first_start svc first (run_start os)) (run_end new_start rest) (bl_created (fst (last os)))) d))"

lemma write_runs_Inr:
  "write_runs svc first new_start rs d = Inr d' \<longleftrightarrow>
     (\<forall>q\<in>set (concat (map snd rs)). snd q \<noteq> [] \<and> bl_total (fst q) \<noteq> None) \<and> d' = written svc first new_start rs d"
proof (induction svc first new_start rs d rule: write_runs.induct)
  case (2 svc first new_start p os rest d)
  show ?case
    using 2 [OF refl refl refl]
    by (auto simp: Let_def bindR_Inr_iff each_move first_start_def run_end_def ball_Un)
qed auto

lemma written_frame [simp]:
  "bk_services (written svc first new_start rs d) = bk_services d @ run_contracts svc first new_start rs (bk_next d)"
  "bk_next (written svc first new_start rs d) = bk_next d + length rs"
  "bk_plans (written svc first new_start rs d) = bk_plans d"
  "map bl_id (bk_orders (written svc first new_start rs d)) = map bl_id (bk_orders d)"
  "map ln_id (bk_lines (written svc first new_start rs d)) = map ln_id (bk_lines d)"
  by (induction svc first new_start rs d rule: written.induct) (simp_all del: list.map)

lemma get_bill_written_other:
  "k \<notin> (bl_id \<circ> fst) ` set (concat (map snd rs)) \<Longrightarrow> get_bill k (written svc first new_start rs d) = get_bill k d"
  by (induction svc first new_start rs d rule: written.induct) (auto simp: get_bill_moved_other image_Un)

lemma get_line_written_other:
  "k \<notin> (ln_id \<circ> hd \<circ> snd) ` set (concat (map snd rs)) \<Longrightarrow> get_line k (written svc first new_start rs d) = get_line k d"
  by (induction svc first new_start rs d rule: written.induct) (auto simp: get_line_moved_other image_Un)

lemma run_contracts_periods:
  "rs \<noteq> [] \<Longrightarrow>
     map cv_cancelled (run_contracts svc first new_start rs n) = map Some (tl (map (run_start \<circ> snd) rs) @ [new_start])"
  "map cv_created (run_contracts svc False new_start rs n) = map (run_start \<circ> snd) rs"
proof -
  show "map cv_created (run_contracts svc False new_start rs n) = map (run_start \<circ> snd) rs"
    by (induction rs arbitrary: n)
      (auto simp: historical_def first_start_def split: option.splits)
  show "rs \<noteq> [] \<Longrightarrow>
     map cv_cancelled (run_contracts svc first new_start rs n) = map Some (tl (map (run_start \<circ> snd) rs) @ [new_start])"
  proof (induction rs arbitrary: first n)
    case (Cons r rest)
    then show ?case
      by (cases r; cases rest) (auto simp: historical_def run_end_def)
  qed simp
qed

lemma run_contracts_tile:
  assumes "rs \<noteq> []" and "cv_created svc' = new_start"
  shows "map cv_cancelled (run_contracts svc first new_start rs n) =
      map (Some \<circ> cv_created) (tl (run_contracts svc first new_start rs n) @ [svc'])"
proof -
  obtain p os rest where rs: "rs = (p, os) # rest" using assms(1) by (metis list.exhaust surj_pair)
  have "map (Some \<circ> cv_created) (run_contracts svc False new_start rest (Suc n)) = map Some (map (run_start \<circ> snd) rest)"
    using run_contracts_periods(2) [of svc new_start rest "Suc n"] by (simp flip: map_map)
  then show ?thesis
    using run_contracts_periods(1) [OF assms(1), of svc first new_start n] assms(2) by (simp add: rs)
qed

lemma run_contracts_fields:
  "h \<in> set (run_contracts svc first new_start rs n) \<Longrightarrow>
     cv_status h = SVC_CANCELLED \<and> cv_billing h = Some BILL_CANCELLED \<and> cv_client h = cv_client svc \<and>
     cv_company h = cv_company svc \<and> n \<le> cv_id h \<and> cv_id h < n + length rs"
  by (induction svc first new_start rs n rule: run_contracts.induct) (auto simp: historical_def)

definition sits_on :: "contract \<Rightarrow> plan_row \<Rightarrow> bill \<Rightarrow> bool" where
  \<comment> \<open>the order lies in the period of the historical service\<close>
  "sits_on h p b \<longleftrightarrow> cv_plan h = pr_id p \<and> cv_created h \<le> bl_created b \<and>
     (\<exists>l t. cv_recurrence_end h = Some l \<and> cv_cancelled h = Some t \<and> bl_created b \<le> l \<and> l \<le> t)"

lemma sorted_run:
  assumes "sorted (map (bl_created \<circ> fst) os)" "q \<in> set os"
  shows "run_start os \<le> bl_created (fst q)" "bl_created (fst q) \<le> bl_created (fst (last os))"
proof -
  show "run_start os \<le> bl_created (fst q)" using assms by (cases os) (auto simp: run_start_def)
  from assms(2) have "os = butlast os @ [last os]" by (metis append_butlast_last_id empty_iff empty_set)
  with assms have "sorted (map (bl_created \<circ> fst) (butlast os @ [last os]))" "q \<in> set (butlast os @ [last os])" by metis+
  then show "bl_created (fst q) \<le> bl_created (fst (last os))" by (auto simp: sorted_append)
qed

lemma written_covers:
  assumes "sorted (map (bl_created \<circ> fst) (concat (map snd rs)))"
    and "\<forall>q\<in>set (concat (map snd rs)). bl_created (fst q) \<le> new_start"
    and "\<forall>r\<in>set rs. snd r \<noteq> []"
    and "distinct (map (bl_id \<circ> fst) (concat (map snd rs)))"
    and "distinct (map (ln_id \<circ> hd \<circ> snd) (concat (map snd rs)))"
    and "(p, os) \<in> set rs" "q \<in> set os"
  shows "\<exists>h\<in>set (run_contracts svc first new_start rs (bk_next d)). sits_on h p (fst q) \<and>
      get_bill (bl_id (fst q)) (written svc first new_start rs d) =
        map_option (\<lambda>_. moved_bill (cv_id h) q) (get_bill (bl_id (fst q)) d) \<and>
      get_line (ln_id (hd (snd q))) (written svc first new_start rs d) =
        map_option (\<lambda>_. moved_line p q) (get_line (ln_id (hd (snd q))) d)"
  using assms
proof (induction svc first new_start rs d rule: written.induct)
  case (2 svc first new_start p' os' rest d)
  let ?h = "historical (bk_next d) svc p' (first_start svc first (run_start os')) (run_end new_start rest) (bl_created (fst (last os')))"
  let ?d = "fold (moved (bk_next d) p') os' (insert_contract (\<lambda>hid. historical hid svc p'
       (first_start svc first (run_start os')) (run_end new_start rest) (bl_created (fst (last os')))) d)"
  have s: "sorted (map (bl_created \<circ> fst) os')" "sorted (map (bl_created \<circ> fst) (concat (map snd rest)))"
    using "2.prems"(1) by (simp_all add: sorted_append o_def)
  have dist: "(bl_id \<circ> fst) ` set os' \<inter> (bl_id \<circ> fst) ` set (concat (map snd rest)) = {}"
    "(ln_id \<circ> hd \<circ> snd) ` set os' \<inter> (ln_id \<circ> hd \<circ> snd) ` set (concat (map snd rest)) = {}"
    "distinct (map (bl_id \<circ> fst) os')" "distinct (map (ln_id \<circ> hd \<circ> snd) os')"
    "distinct (map (bl_id \<circ> fst) (concat (map snd rest)))" "distinct (map (ln_id \<circ> hd \<circ> snd) (concat (map snd rest)))"
    using "2.prems"(4,5) by (auto simp: o_def)
  show ?case
  proof (cases "(p, os) = (p', os')")
    case True
    then have q: "q \<in> set os'" and p: "p' = p" using "2.prems"(7) by auto
    have "last os' \<in> set os'" using q by (metis last_in_set empty_iff empty_set)
    then have e: "bl_created (fst (last os')) \<le> run_end new_start rest"
      using "2.prems"(1,2,3) by (cases rest) (auto simp: run_end_def run_start_def sorted_append)
    have "first_start svc first (run_start os') \<le> run_start os'" by (auto simp: first_start_def split: option.splits)
    then have "sits_on ?h p (fst q)"
      using sorted_run [OF s(1) q] e by (auto simp: sits_on_def historical_def p)
    moreover have "get_bill (bl_id (fst q)) (written svc False new_start rest ?d) =
        map_option (\<lambda>_. moved_bill (cv_id ?h) q) (get_bill (bl_id (fst q)) d)"
      using q dist(1) get_bill_moved_same [OF dist(3) q]
      by (subst get_bill_written_other) (auto simp: historical_def)
    moreover have "get_line (ln_id (hd (snd q))) (written svc False new_start rest ?d) =
        map_option (\<lambda>_. moved_line p q) (get_line (ln_id (hd (snd q))) d)"
      using q dist(2) get_line_moved_same [OF dist(4) q] p
      by (subst get_line_written_other) auto
    ultimately show ?thesis by (auto simp del: fold_moved_frame)
  next
    case False
    with "2.prems"(6) have r: "(p, os) \<in> set rest" by auto
    then have "q \<in> set (concat (map snd rest))" using "2.prems"(7) by force
    then have "bl_id (fst q) \<notin> (bl_id \<circ> fst) ` set os'" "ln_id (hd (snd q)) \<notin> (ln_id \<circ> hd \<circ> snd) ` set os'"
      using dist(1,2) by (metis (no_types, lifting) IntI comp_apply empty_iff imageI)+
    moreover obtain h where "h \<in> set (run_contracts svc False new_start rest (bk_next ?d))" "sits_on h p (fst q)"
      "get_bill (bl_id (fst q)) (written svc False new_start rest ?d) = map_option (\<lambda>_. moved_bill (cv_id h) q) (get_bill (bl_id (fst q)) ?d)"
      "get_line (ln_id (hd (snd q))) (written svc False new_start rest ?d) = map_option (\<lambda>_. moved_line p q) (get_line (ln_id (hd (snd q))) ?d)"
      using "2.IH" [OF s(2) _ _ dist(5,6) r "2.prems"(7)] "2.prems"(2,3) by auto
    ultimately show ?thesis by (auto simp: get_bill_moved_other get_line_moved_other)
  qed
qed simp

section \<open>The rows of a service\<close>

definition books_ok :: "books \<Rightarrow> bool" where
  \<comment> \<open>primary keys, and ids yet to come\<close>
  "books_ok d \<longleftrightarrow> distinct (map pr_id (bk_plans d)) \<and> distinct (map cv_id (bk_services d)) \<and>
     list_all (\<lambda>c. cv_id c < bk_next d) (bk_services d) \<and> distinct (map bl_id (bk_orders d)) \<and> distinct (map ln_id (bk_lines d))"

lemma set_billed_orders: "set (billed_orders d sid) = {b \<in> set (bk_orders d). bl_service b = Some sid \<and> is_billed b}"
  by (auto simp: billed_orders_def)

lemma fst_with_lines [simp]: "map fst (with_lines d sid) = billed_orders d sid"
  by (simp add: with_lines_def o_def)

lemma with_lines_mem: "q \<in> set (with_lines d sid) \<longleftrightarrow> fst q \<in> set (billed_orders d sid) \<and> snd q = lines_of d (fst q)"
  by (cases q) (auto simp: with_lines_def)

lemma with_lines_distinct: "books_ok d \<Longrightarrow> distinct (map (bl_id \<circ> fst) (with_lines d sid))"
proof -
  assume "books_ok d"
  then have "inj_on bl_id (set (bk_orders d))" "distinct (bk_orders d)" by (auto simp: books_ok_def distinct_map)
  then have "distinct (map bl_id (billed_orders d sid))"
    by (auto simp: distinct_map set_billed_orders inj_on_def) (simp add: billed_orders_def)
  then show ?thesis by (simp flip: map_map)
qed

lemma with_lines_sorted: "sorted (map (bl_created \<circ> fst) (with_lines d sid))"
proof -
  have "sorted (map bl_created (billed_orders d sid))" by (simp add: billed_orders_def)
  then show ?thesis by (simp flip: map_map)
qed

lemma with_lines_lines_distinct:
  assumes ok: "books_ok d" and one: "list_all (\<lambda>q. length (snd q) = 1) (with_lines d sid)"
  shows "distinct (map (ln_id \<circ> hd \<circ> snd) (with_lines d sid))"
proof -
  have "inj_on (ln_id \<circ> hd \<circ> snd) (set (with_lines d sid))"
  proof (rule inj_onI)
    fix q q' assume m: "q \<in> set (with_lines d sid)" "q' \<in> set (with_lines d sid)"
      and e: "(ln_id \<circ> hd \<circ> snd) q = (ln_id \<circ> hd \<circ> snd) q'"
    have "hd (snd q) \<in> set (lines_of d (fst q))" if "q \<in> set (with_lines d sid)" for q
      using that one by (auto simp: with_lines_mem list_all_iff) (metis One_nat_def hd_in_set length_0_conv n_not_Suc_n snd_conv with_lines_mem fst_conv)
    with m have "hd (snd q) \<in> set (lines_of d (fst q))" "hd (snd q') \<in> set (lines_of d (fst q'))" by auto
    then have l: "hd (snd q) \<in> set (bk_lines d)" "ln_order (hd (snd q)) = bl_id (fst q)"
      "hd (snd q') \<in> set (bk_lines d)" "ln_order (hd (snd q')) = bl_id (fst q')" by (auto simp: lines_of_def)
    with e ok have "hd (snd q) = hd (snd q')" by (auto simp: books_ok_def distinct_map inj_on_def)
    with l have "bl_id (fst q) = bl_id (fst q')" by simp
    with ok m have "fst q = fst q'" by (auto simp: books_ok_def distinct_map inj_on_def with_lines_mem set_billed_orders)
    with m show "q = q'" by (simp add: with_lines_mem prod_eq_iff)
  qed
  moreover have "distinct (with_lines d sid)" using with_lines_distinct [OF ok] by (metis distinct_map)
  ultimately show ?thesis by (simp add: distinct_map)
qed

lemma old_new_part: "old_part price os @ new_part price os = os"
  by (simp add: old_part_def new_part_def)

lemma old_part_price: "q \<in> set (old_part price os) \<Longrightarrow> bl_total (fst q) \<noteq> price"
  by (auto simp: old_part_def dest: set_takeWhileD)

lemma planned_runs_concat: "concat (map snd (map (\<lambda>(p, run). (the p, run)) (planned_runs d company price os))) = old_part price os"
proof -
  have "map snd (map (\<lambda>(p, run). (the p, run)) (planned_runs d company price os)) = map snd (price_runs (old_part price os))"
    by (auto simp: planned_runs_def)
  then show ?thesis by (simp only: concat_price_runs)
qed

lemma plan_for_price_SomeD:
  assumes "plan_for_price d company price = Some p"
  shows "p \<in> set (bk_plans d) \<and> pr_service_kind p \<and> pr_company p = company \<and> pr_price p = price"
proof -
  define cands where "cands = filter (\<lambda>p. pr_service_kind p \<and> pr_company p = company \<and> pr_price p = price) (bk_plans d)"
  from assms have "length cands = 1 \<and> p = hd cands \<or> length (filter pr_active cands) = 1 \<and> p = hd (filter pr_active cands)"
    by (simp add: plan_for_price_def Let_def flip: cands_def split: if_splits)
  moreover have "hd xs \<in> set xs" if "length xs = 1" for xs :: "plan_row list" using that by (cases xs) simp_all
  ultimately have "p \<in> set cands" by (metis filter_is_subset subsetD)
  then show ?thesis by (simp add: cands_def)
qed

lemma planned_runs_mem:
  assumes "list_all (\<lambda>r. fst r \<noteq> None) (planned_runs d company price os)"
    and "(p, run) \<in> set (map (\<lambda>(p, run). (the p, run)) (planned_runs d company price os))"
  shows "p \<in> set (bk_plans d)" "pr_company p = company" "run \<noteq> []" "q \<in> set run \<Longrightarrow> bl_total (fst q) = pr_price p"
proof -
  obtain price' where r: "(price', run) \<in> set (price_runs (old_part price os))" and p: "plan_for_price d company price' = Some p"
    using assms by (auto simp: planned_runs_def list_all_iff)
  with price_runs_are_runs have "is_run (price', run)" by (auto simp: list_all_iff)
  with plan_for_price_SomeD [OF p] show "p \<in> set (bk_plans d)" "pr_company p = company" "run \<noteq> []"
    "q \<in> set run \<Longrightarrow> bl_total (fst q) = pr_price p" by (auto simp: is_run_def)
qed

lemma clean_switchD:
  assumes ok: "books_ok d" and "clean_switch d company price (with_lines d sid)"
  shows "list_all (\<lambda>q. length (snd q) = 1) (with_lines d sid)"
    and "old_part price (with_lines d sid) \<noteq> []" and "new_part price (with_lines d sid) \<noteq> []"
    and "q \<in> set (new_part price (with_lines d sid)) \<Longrightarrow> bl_total (fst q) = price"
    and "list_all (\<lambda>r. fst r \<noteq> None) (planned_runs d company price (with_lines d sid))"
    and "q \<in> set (old_part price (with_lines d sid)) \<Longrightarrow> bl_created (fst q) \<le> run_start (new_part price (with_lines d sid))"
    and "q \<in> set (new_part price (with_lines d sid)) \<Longrightarrow> run_start (new_part price (with_lines d sid)) \<le> bl_created (fst q)"
proof -
  let ?os = "with_lines d sid"
  show "list_all (\<lambda>q. length (snd q) = 1) ?os" "old_part price ?os \<noteq> []" and n: "new_part price ?os \<noteq> []"
    "q \<in> set (new_part price ?os) \<Longrightarrow> bl_total (fst q) = price"
    "list_all (\<lambda>r. fst r \<noteq> None) (planned_runs d company price ?os)"
    using assms(2) by (auto simp: clean_switch_def list_all_iff)
  have "sorted (map (bl_created \<circ> fst) (old_part price ?os @ new_part price ?os))"
    unfolding old_new_part by (rule with_lines_sorted)
  then have s: "sorted (map (bl_created \<circ> fst) (new_part price ?os))"
    "\<forall>q\<in>set (old_part price ?os). \<forall>q'\<in>set (new_part price ?os). bl_created (fst q) \<le> bl_created (fst q')"
    by (simp_all add: sorted_append o_def)
  then show "q \<in> set (old_part price ?os) \<Longrightarrow> bl_created (fst q) \<le> run_start (new_part price ?os)"
    using n by (simp add: run_start_def)
  show "q \<in> set (new_part price ?os) \<Longrightarrow> run_start (new_part price ?os) \<le> bl_created (fst q)"
    using sorted_run(1) [OF s(1)] .
qed

definition chosen_runs :: "books \<Rightarrow> contract \<Rightarrow> plan_row \<Rightarrow> (plan_row \<times> (bill \<times> bill_line list) list) list" where
  "chosen_runs d svc cur =
     map (\<lambda>(p, run). (the p, run)) (planned_runs d (cv_company svc) (pr_price cur) (with_lines d (cv_id svc)))"

definition switch_start :: "books \<Rightarrow> contract \<Rightarrow> plan_row \<Rightarrow> nat" where
  "switch_start d svc cur = run_start (new_part (pr_price cur) (with_lines d (cv_id svc)))"

definition switches :: "books \<Rightarrow> contract \<Rightarrow> plan_row \<Rightarrow> bool" where
  "switches d svc cur \<longleftrightarrow> clean_switch d (cv_company svc) (pr_price cur) (with_lines d (cv_id svc))"

lemma repair_clean:
  assumes "get_contract sid d = Some svc" "plan_of d (cv_plan svc) = Some cur" "switches d svc cur"
  shows "repair_service sid d = Inr d' \<longleftrightarrow>
     (\<forall>q\<in>set (old_part (pr_price cur) (with_lines d sid)). snd q \<noteq> [] \<and> bl_total (fst q) \<noteq> None) \<and>
     d' = put_contract (svc\<lparr>cv_activation := Some (switch_start d svc cur), cv_created := switch_start d svc cur\<rparr>)
            (written svc True (switch_start d svc cur) (chosen_runs d svc cur) d)"
proof -
  have i: "cv_id svc = sid" using assms(1) by (rule contracts.get_key)
  have c: "concat (map snd (chosen_runs d svc cur)) = old_part (pr_price cur) (with_lines d sid)"
    unfolding chosen_runs_def i by (rule planned_runs_concat)
  have w: "write_runs svc True new (chosen_runs d svc cur) d = Inr e \<longleftrightarrow>
      (\<forall>q\<in>set (old_part (pr_price cur) (with_lines d sid)). snd q \<noteq> [] \<and> bl_total (fst q) \<noteq> None) \<and>
      e = written svc True new (chosen_runs d svc cur) d" for new e
    unfolding write_runs_Inr c ..
  have "repair_service sid d = bindR (write_runs svc True (switch_start d svc cur) (chosen_runs d svc cur) d)
      (\<lambda>d'. Inr (put_contract (svc\<lparr>cv_activation := Some (switch_start d svc cur), cv_created := switch_start d svc cur\<rparr>) d'))"
    using assms by (simp add: repair_service_def switches_def switch_start_def chosen_runs_def i Let_def)
  then show ?thesis by (auto simp only: bindR_Inr_iff w sum.inject)
qed

lemma get_bill_member: "books_ok d \<Longrightarrow> b \<in> set (bk_orders d) \<Longrightarrow> get_bill (bl_id b) d = Some b"
  by (simp add: get_bill_def books_ok_def find_by_unique)

lemma get_line_member: "books_ok d \<Longrightarrow> l \<in> set (bk_lines d) \<Longrightarrow> get_line (ln_id l) d = Some l"
  by (simp add: get_line_def books_ok_def find_by_unique)

lemma plan_of_member: "books_ok d \<Longrightarrow> p \<in> set (bk_plans d) \<Longrightarrow> plan_of d (pr_id p) = Some p"
  by (simp add: plan_of_def books_ok_def find_by_unique)

lemma in_one_run:
  assumes "q \<in> set (old_part (pr_price cur) (with_lines d (cv_id svc)))"
  obtains p os where "(p, os) \<in> set (chosen_runs d svc cur)" "q \<in> set os"
proof -
  have "q \<in> set (concat (map snd (chosen_runs d svc cur)))"
    using assms unfolding chosen_runs_def planned_runs_concat .
  then show ?thesis using that by force
qed

lemma chosen_runs_facts:
  assumes ok: "books_ok d" and sw: "switches d svc cur"
  defines "os \<equiv> concat (map snd (chosen_runs d svc cur))"
  shows "sorted (map (bl_created \<circ> fst) os)" and "q \<in> set os \<Longrightarrow> bl_created (fst q) \<le> switch_start d svc cur"
    and "r \<in> set (chosen_runs d svc cur) \<Longrightarrow> snd r \<noteq> []" and "chosen_runs d svc cur \<noteq> []"
    and "distinct (map (bl_id \<circ> fst) os)" and "distinct (map (ln_id \<circ> hd \<circ> snd) os)"
    and "q \<in> set os \<Longrightarrow> snd q \<noteq> []"
proof -
  let ?ls = "with_lines d (cv_id svc)"
  have os: "os = old_part (pr_price cur) ?ls" unfolding os_def chosen_runs_def by (rule planned_runs_concat)
  have p: "?ls = os @ new_part (pr_price cur) ?ls" unfolding os by (rule old_new_part [symmetric])
  note c = clean_switchD [OF ok sw [unfolded switches_def]]
  have "sorted (map (bl_created \<circ> fst) (os @ new_part (pr_price cur) ?ls))" using with_lines_sorted p by metis
  then show "sorted (map (bl_created \<circ> fst) os)" by (simp add: sorted_append)
  show "q \<in> set os \<Longrightarrow> bl_created (fst q) \<le> switch_start d svc cur" using c(6) by (simp add: os switch_start_def)
  show "r \<in> set (chosen_runs d svc cur) \<Longrightarrow> snd r \<noteq> []"
    using planned_runs_mem(3) [OF c(5)] unfolding chosen_runs_def by (metis prod.collapse)
  show "chosen_runs d svc cur \<noteq> []" using c(2) os unfolding os_def by auto
  have "distinct (map (bl_id \<circ> fst) (os @ new_part (pr_price cur) ?ls))" using with_lines_distinct [OF ok] p by metis
  then show "distinct (map (bl_id \<circ> fst) os)" by simp
  have "distinct (map (ln_id \<circ> hd \<circ> snd) (os @ new_part (pr_price cur) ?ls))"
    using with_lines_lines_distinct [OF ok c(1)] p by metis
  then show "distinct (map (ln_id \<circ> hd \<circ> snd) os)" by simp
  have "list_all (\<lambda>q. length (snd q) = 1) (os @ new_part (pr_price cur) ?ls)"
    using c(1) unfolding os old_new_part .
  then have "list_all (\<lambda>q. length (snd q) = 1) os" by simp
  then show "q \<in> set os \<Longrightarrow> snd q \<noteq> []" by (auto simp del: length_0_conv simp: list_all_iff length_0_conv [symmetric])
qed

text \<open>
  C15. The repair of a client who changed plans once gives every billed order to a service whose plan has exactly the
  price the order charged and whose period contains it: the orders from the switch on stay with the current service, now
  starting there; each older one goes, with its line, to a cancelled service of the same client. The periods of the
  services join without a gap.
\<close>

theorem clean_switch_timeline:
  assumes "books_ok d" and "get_contract sid d = Some svc" and "plan_of d (cv_plan svc) = Some cur"
    and "switches d svc cur" and "repair_service sid d = Inr d'"
  shows "\<exists>hs svc'. bk_services d' = put_by cv_id svc' (bk_services d) @ hs \<and>
      svc' = svc\<lparr>cv_activation := Some (cv_created svc'), cv_created := cv_created svc'\<rparr> \<and>
      hs \<noteq> [] \<and> map cv_cancelled hs = map (Some \<circ> cv_created) (tl hs @ [svc']) \<and>
      list_all (\<lambda>h. cv_status h = SVC_CANCELLED \<and> cv_client h = cv_client svc \<and> cv_company h = cv_company svc \<and>
        bk_next d \<le> cv_id h) hs \<and>
      (\<forall>b\<in>set (billed_orders d sid).
         bl_total b = pr_price cur \<and> get_bill (bl_id b) d' = Some b \<and> cv_created svc' \<le> bl_created b \<or>
         (\<exists>h\<in>set hs. \<exists>p l. plan_of d (cv_plan h) = Some p \<and> pr_price p = bl_total b \<and> sits_on h p b \<and> lines_of d b = [l] \<and>
            get_bill (bl_id b) d' = Some (b\<lparr>bl_service := Some (cv_id h)\<rparr>) \<and>
            get_line (ln_id l) d' = Some (l\<lparr>ln_plan := Some (cv_plan h), ln_unit := charged b l, ln_name := Some (pr_name p)\<rparr>)))"
proof -
  have i: "cv_id svc = sid" using assms(2) by (rule contracts.get_key)
  let ?ls = "with_lines d sid" and ?new = "switch_start d svc cur" and ?rs = "chosen_runs d svc cur"
  let ?svc = "svc\<lparr>cv_activation := Some ?new, cv_created := ?new\<rparr>"
  let ?hs = "run_contracts svc True ?new ?rs (bk_next d)"
  have d': "d' = put_contract ?svc (written svc True ?new ?rs d)"
    using repair_clean [OF assms(2-4), THEN iffD1, OF assms(5)] by (rule conjunct2)
  note sw = assms(4) [unfolded switches_def i]
  note f = chosen_runs_facts [OF assms(1,4)]
  have hs: "list_all (\<lambda>h. cv_status h = SVC_CANCELLED \<and> cv_client h = cv_client svc \<and> cv_company h = cv_company svc \<and>
      bk_next d \<le> cv_id h) ?hs"
    using run_contracts_fields by (fastforce simp: list_all_iff)
  have lt: "cv_id svc < bk_next d"
    using assms(1,2) by (auto simp: books_ok_def list_all_iff get_contract_def dest: find_by_SomeD)
  have "put_by cv_id ?svc ?hs = ?hs"
  proof (rule put_by_absent)
    show "cv_id ?svc \<notin> cv_id ` set ?hs" using hs lt by (fastforce simp: list_all_iff)
  qed
  then have "bk_services d' = put_by cv_id ?svc (bk_services d) @ ?hs"
    by (simp add: d' put_contract_def) (simp add: put_by_def)
  moreover have "?hs \<noteq> []" using f(4) by (cases ?rs) auto
  moreover have "map cv_cancelled ?hs = map (Some \<circ> cv_created) (tl ?hs @ [?svc])"
    by (rule run_contracts_tile [OF f(4)]) simp
  moreover have "bl_total b = pr_price cur \<and> get_bill (bl_id b) d' = Some b \<and> ?new \<le> bl_created b \<or>
       (\<exists>h\<in>set ?hs. \<exists>p l. plan_of d (cv_plan h) = Some p \<and> pr_price p = bl_total b \<and> sits_on h p b \<and> lines_of d b = [l] \<and>
          get_bill (bl_id b) d' = Some (b\<lparr>bl_service := Some (cv_id h)\<rparr>) \<and>
          get_line (ln_id l) d' = Some (l\<lparr>ln_plan := Some (cv_plan h), ln_unit := charged b l, ln_name := Some (pr_name p)\<rparr>))"
    if b: "b \<in> set (billed_orders d sid)" for b
  proof -
    let ?q = "(b, lines_of d b)"
    have q: "?q \<in> set ?ls" using b by (simp add: with_lines_mem)
    have g: "get_bill (bl_id b) d = Some b" using b get_bill_member [OF assms(1)] by (simp add: set_billed_orders)
    from q old_new_part have "?q \<in> set (old_part (pr_price cur) ?ls) \<or> ?q \<in> set (new_part (pr_price cur) ?ls)"
      by (metis UnE set_append)
    then show ?thesis
    proof
      assume n: "?q \<in> set (new_part (pr_price cur) ?ls)"
      have "distinct (map (bl_id \<circ> fst) (old_part (pr_price cur) ?ls @ new_part (pr_price cur) ?ls))"
        unfolding old_new_part using with_lines_distinct [OF assms(1)] .
      then have "(bl_id \<circ> fst) ` set (old_part (pr_price cur) ?ls) \<inter> (bl_id \<circ> fst) ` set (new_part (pr_price cur) ?ls) = {}"
        by simp
      with n have "bl_id b \<notin> (bl_id \<circ> fst) ` set (old_part (pr_price cur) ?ls)" by force
      then have "bl_id b \<notin> (bl_id \<circ> fst) ` set (concat (map snd ?rs))"
        unfolding chosen_runs_def i planned_runs_concat .
      then have "get_bill (bl_id b) d' = Some b" using g by (simp add: d' get_bill_written_other)
      moreover have "bl_total b = pr_price cur" "?new \<le> bl_created b"
        using clean_switchD(4,7) [OF assms(1) sw n] by (simp_all add: switch_start_def i)
      ultimately show ?thesis by blast
    next
      assume "?q \<in> set (old_part (pr_price cur) ?ls)"
      then obtain p os where r: "(p, os) \<in> set ?rs" "?q \<in> set os" by (rule in_one_run [of _ cur d svc, unfolded i])
      note pm = planned_runs_mem [OF clean_switchD(5) [OF assms(1) sw] r(1) [unfolded chosen_runs_def i]]
      have one: "list_all (\<lambda>q. length (snd q) = 1) ?ls" using clean_switchD(1) [OF assms(1) sw] .
      with q obtain l where l: "lines_of d b = [l]" by (force simp: list_all_iff length_Suc_conv)
      then have lm: "get_line (ln_id l) d = Some l"
        using get_line_member [OF assms(1)] by (metis filter_is_subset lines_of_def list.set_intros(1) subsetD)
      obtain h where "h \<in> set ?hs" "sits_on h p b"
        "get_bill (bl_id b) d' = map_option (\<lambda>_. moved_bill (cv_id h) ?q) (get_bill (bl_id b) d)"
        "get_line (ln_id l) d' = map_option (\<lambda>_. moved_line p ?q) (get_line (ln_id l) d)"
        using written_covers [OF f(1) _ _ f(5,6) r, of ?new svc True d] f(2,3) l by (auto simp: d')
      then show ?thesis
        using g lm l pm(1) pm(4) [OF r(2)] plan_of_member [OF assms(1)]
        by (fastforce simp: moved_bill_def moved_line_def sits_on_def)
    qed
  qed
  ultimately show ?thesis
    using hs by (intro exI [of _ ?hs] exI [of _ ?svc]) simp
qed

section \<open>What one repair does to the tables\<close>

lemma list_all2_by_key:
  assumes "map key xs = map key ys" "distinct (map key xs)"
    and "\<And>x. x \<in> set xs \<Longrightarrow> \<exists>y. find_by key (key x) ys = Some y \<and> R x y"
  shows "list_all2 R xs ys"
proof (rule list_all2_all_nthI)
  show "length xs = length ys" using assms(1) by (rule map_eq_imp_length_eq)
  fix i assume i: "i < length xs"
  with assms(1) have "key (xs ! i) = key (ys ! i)" "i < length ys"
    by (metis nth_map map_eq_imp_length_eq, metis map_eq_imp_length_eq)
  moreover have "distinct (map key ys)" using assms(1,2) by metis
  ultimately have "find_by key (key (xs ! i)) ys = Some (ys ! i)" by (metis find_by_unique nth_mem)
  with assms(3) [of "xs ! i"] i show "R (xs ! i) (ys ! i)" by auto
qed

lemma list_all2_memberE:
  assumes "list_all2 R xs ys" "x \<in> set xs"
  obtains y where "y \<in> set ys" "R x y"
  using assms by (metis in_set_conv_nth list_all2_conv_all_nth)

definition new_unit :: "books \<Rightarrow> nat \<Rightarrow> bill \<Rightarrow> bill_line \<Rightarrow> int option" where
  "new_unit d sid b l =
     (case get_contract sid d of
        None \<Rightarrow> ln_unit l
      | Some svc \<Rightarrow>
          (case plan_of d (cv_plan svc) of
             None \<Rightarrow> ln_unit l
           | Some cur \<Rightarrow> if switches d svc cur \<and> bl_total b = pr_price cur then ln_unit l else charged b l))"

definition bill_moves :: "nat set \<Rightarrow> nat \<Rightarrow> bill \<Rightarrow> bill \<Rightarrow> bool" where
  "bill_moves D n b b' \<longleftrightarrow>
     b' = b \<or> (\<exists>sid\<in>D. bl_service b = Some sid) \<and> is_billed b \<and> (\<exists>h\<ge>n. b' = b\<lparr>bl_service := Some h\<rparr>)"

definition line_moves :: "nat set \<Rightarrow> books \<Rightarrow> bill_line \<Rightarrow> bill_line \<Rightarrow> bool" where
  "line_moves D d l l' \<longleftrightarrow> ln_id l' = ln_id l \<and> ln_order l' = ln_order l \<and> ln_quantity l' = ln_quantity l \<and>
     (\<forall>b\<in>set (bk_orders d). ln_order l = bl_id b \<longrightarrow>
        (if is_billed b \<and> (\<exists>sid\<in>D. bl_service b = Some sid)
         then lines_of d b = [l] \<longrightarrow> ln_unit l' = new_unit d (the (bl_service b)) b l else l' = l))"

definition progress :: "books \<Rightarrow> nat set \<Rightarrow> books \<Rightarrow> bool" where
  \<comment> \<open>the services of the set are repaired, the others are as they were\<close>
  "progress d D d' \<longleftrightarrow> books_ok d' \<and> bk_plans d' = bk_plans d \<and> bk_next d \<le> bk_next d' \<and>
     (\<forall>i. i \<notin> D \<longrightarrow> i < bk_next d \<longrightarrow> get_contract i d' = get_contract i d) \<and>
     list_all2 (bill_moves D (bk_next d)) (bk_orders d) (bk_orders d') \<and>
     list_all2 (line_moves D d) (bk_lines d) (bk_lines d')"

definition priced_rows :: "(bill \<times> bill_line list) list \<Rightarrow> bool" where
  "priced_rows os \<longleftrightarrow>
     list_all (\<lambda>q. bl_total (fst q) \<noteq> None \<and> list_all (\<lambda>l. ln_unit l \<noteq> None \<and> 1 \<le> ln_quantity l) (snd q)) os"

lemma line_moves_refl: "D = {} \<Longrightarrow> line_moves D d l l"
  by (simp add: line_moves_def)

lemma progress_refl: "books_ok d \<Longrightarrow> progress d {} d"
  by (simp add: progress_def list_all2_same bill_moves_def line_moves_refl)

lemma line_in_rows:
  assumes "b \<in> set (bk_orders d)" "bl_service b = Some sid" "is_billed b" "l \<in> set (lines_of d b)"
  shows "(b, lines_of d b) \<in> set (with_lines d sid)"
  using assms by (simp add: with_lines_mem set_billed_orders)

lemma lines_of_key: "books_ok d \<Longrightarrow> l \<in> set (lines_of d b) \<Longrightarrow> get_line (ln_id l) d = Some l"
  by (metis filter_is_subset get_line_member lines_of_def subsetD)

definition fixed :: "bill \<times> bill_line list \<Rightarrow> books \<Rightarrow> books" where
  "fixed q d = (case snd q of [l] \<Rightarrow>
      if bl_total (fst q) \<noteq> map_option (\<lambda>u. u * line_quantity l) (ln_unit l) then put_line (l\<lparr>ln_unit := charged (fst q) l\<rparr>) d else d
    | _ \<Rightarrow> d)"

lemma each_fix: "priced_rows os \<Longrightarrow> each fix_line os d = Inr (fold fixed os d)"
proof (induction os arbitrary: d)
  case (Cons q os)
  then have "fix_line q d = Inr (fixed q d)"
    by (cases q) (auto simp: fix_line_def fixed_def charged_def priced_rows_def split: list.splits)
  with Cons show ?case by (simp add: priced_rows_def)
qed simp

lemma fixed_frame [simp]: "bk_services (fixed q d) = bk_services d" "bk_orders (fixed q d) = bk_orders d"
    "bk_plans (fixed q d) = bk_plans d" "bk_next (fixed q d) = bk_next d" "map ln_id (bk_lines (fixed q d)) = map ln_id (bk_lines d)"
  by (auto simp: fixed_def split: list.splits)

lemma fold_fixed_frame [simp]:
  "bk_services (fold fixed os d) = bk_services d" "bk_orders (fold fixed os d) = bk_orders d"
  "bk_plans (fold fixed os d) = bk_plans d" "bk_next (fold fixed os d) = bk_next d"
  "map ln_id (bk_lines (fold fixed os d)) = map ln_id (bk_lines d)"
  by (induction os arbitrary: d) simp_all

lemma get_line_fixed:
  "\<forall>q\<in>set os. \<forall>l. snd q = [l] \<longrightarrow> ln_id l \<noteq> k \<Longrightarrow> get_line k (fold fixed os d) = get_line k d"
proof (induction os arbitrary: d)
  case (Cons q os)
  then have "get_line k (fixed q d) = get_line k d" by (auto simp: fixed_def bill_lines.get_put split: list.splits)
  with Cons show ?case by simp
qed simp

lemma get_line_fixed_same:
  assumes "distinct os" and "priced_rows os" and "\<And>q q' l l'. q \<in> set os \<Longrightarrow> q' \<in> set os \<Longrightarrow> snd q = [l] \<Longrightarrow> snd q' = [l'] \<Longrightarrow>
      ln_id l = ln_id l' \<Longrightarrow> q = q'"
    and "q \<in> set os" "snd q = [l]" "get_line (ln_id l) d = Some l"
  shows "get_line (ln_id l) (fold fixed os d) = Some (l\<lparr>ln_unit := charged (fst q) l\<rparr>)"
  using assms
proof (induction os arbitrary: d)
  case (Cons q' os)
  show ?case
  proof (cases "q = q'")
    case True
    have *: "ln_id l' \<noteq> ln_id l" if "q'' \<in> set os" "snd q'' = [l']" for q'' l'
      using Cons.prems(1,3,4,5) that True by (metis distinct.simps(2) list.set_intros(1,2))
    obtain u where u: "ln_unit l = Some u" "bl_total (fst q) \<noteq> None" "1 \<le> ln_quantity l"
      using Cons.prems(2,5) True by (auto simp: priced_rows_def)
    then have "l\<lparr>ln_unit := charged (fst q) l\<rparr> = l" if "bl_total (fst q) = Some (u * line_quantity l)"
      using that by (cases l) (auto simp: charged_def line_quantity_def)
    then have "get_line (ln_id l) (fixed q d) = Some (l\<lparr>ln_unit := charged (fst q) l\<rparr>)"
      using Cons.prems(5,6) u by (auto simp: fixed_def bill_lines.get_put)
    with * show ?thesis by (simp add: get_line_fixed flip: True)
  next
    case False
    with Cons.prems have q: "q \<in> set os" by simp
    have "get_line (ln_id l) (fixed q' d) = Some l"
      using Cons.prems(3) [of q q'] Cons.prems(4-6) False by (auto simp: fixed_def bill_lines.get_put split: list.splits)
    moreover have "priced_rows os" using Cons.prems(2) by (simp add: priced_rows_def)
    ultimately show ?thesis using Cons.IH [of "fixed q' d"] Cons.prems(1,3,5) q by simp
  qed
qed simp

lemma order_unique: "books_ok d \<Longrightarrow> b \<in> set (bk_orders d) \<Longrightarrow> b' \<in> set (bk_orders d) \<Longrightarrow> bl_id b = bl_id b' \<Longrightarrow> b = b'"
  by (auto simp: books_ok_def distinct_map inj_on_def)

lemma line_unique: "books_ok d \<Longrightarrow> l \<in> set (bk_lines d) \<Longrightarrow> l' \<in> set (bk_lines d) \<Longrightarrow> ln_id l = ln_id l' \<Longrightarrow> l = l'"
  by (auto simp: books_ok_def distinct_map inj_on_def)

lemma in_lines_of: "l \<in> set (lines_of d b) \<longleftrightarrow> l \<in> set (bk_lines d) \<and> ln_order l = bl_id b"
  by (auto simp: lines_of_def)

lemma single_line:
  assumes "q \<in> set (with_lines d sid)" "snd q = [l]"
  shows "l \<in> set (bk_lines d)" "ln_order l = bl_id (fst q)"
proof -
  have "l \<in> set (lines_of d (fst q))" using assms by (metis list.set_intros(1) with_lines_mem)
  then show "l \<in> set (bk_lines d)" "ln_order l = bl_id (fst q)" by (simp_all add: in_lines_of)
qed

lemma progress_fix:
  assumes ok: "books_ok d" and svc: "get_contract sid d = Some svc" "plan_of d (cv_plan svc) = Some cur"
    and sw: "\<not> switches d svc cur" and pr: "priced_rows (with_lines d sid)"
  shows "progress d {sid} (fold fixed (with_lines d sid) d)"
proof -
  let ?os = "with_lines d sid"
  have dist: "distinct ?os" using with_lines_distinct [OF ok] by (metis distinct_map)
  have same: "q = q'" if m: "q \<in> set ?os" "q' \<in> set ?os" and l: "snd q = [l]" "snd q' = [l']" "ln_id l = ln_id l'" for q q' l l'
  proof -
    have "l = l'" using line_unique [OF ok] single_line m l by metis
    then have "bl_id (fst q) = bl_id (fst q')" using single_line(2) m l by metis
    with m have "fst q = fst q'" using order_unique [OF ok] by (simp add: with_lines_mem set_billed_orders)
    with m show ?thesis by (simp add: with_lines_mem prod_eq_iff)
  qed
  have "list_all2 (line_moves {sid} d) (bk_lines d) (bk_lines (fold fixed ?os d))"
  proof (rule list_all2_by_key)
    show "map ln_id (bk_lines d) = map ln_id (bk_lines (fold fixed ?os d))" by simp
    show "distinct (map ln_id (bk_lines d))" using ok by (simp add: books_ok_def)
    fix l assume l: "l \<in> set (bk_lines d)"
    show "\<exists>l'. find_by ln_id (ln_id l) (bk_lines (fold fixed ?os d)) = Some l' \<and> line_moves {sid} d l l'"
    proof (cases "\<exists>q\<in>set ?os. \<exists>l'. snd q = [l'] \<and> ln_id l' = ln_id l")
      case True
      then obtain q where q: "q \<in> set ?os" "snd q = [l]" using line_unique [OF ok l] single_line(1) by metis
      have "get_line (ln_id l) (fold fixed ?os d) = Some (l\<lparr>ln_unit := charged (fst q) l\<rparr>)"
        using get_line_fixed_same [OF dist pr _ q get_line_member [OF ok l]] same by blast
      moreover have "line_moves {sid} d l (l\<lparr>ln_unit := charged (fst q) l\<rparr>)"
        using q single_line(2) [OF q] order_unique [OF ok] svc sw
        by (auto simp: line_moves_def new_unit_def with_lines_mem set_billed_orders)
      ultimately show ?thesis by (auto simp: get_line_def)
    next
      case False
      then have "get_line (ln_id l) (fold fixed ?os d) = Some l"
        using get_line_fixed [of ?os "ln_id l"] get_line_member [OF ok l] by simp
      moreover have "line_moves {sid} d l l"
        using False line_in_rows [of _ d sid l] by (fastforce simp: line_moves_def)
      ultimately show ?thesis by (auto simp: get_line_def)
    qed
  qed
  then show ?thesis
    using ok by (simp add: progress_def books_ok_def list_all2_same bill_moves_def get_contract_def)
qed

lemma run_contracts_ids: "map cv_id (run_contracts svc first new_start rs n) = [n..<n + length rs]"
proof (induction rs arbitrary: first n)
  case (Cons r rs)
  then show ?case by (cases r) (simp add: historical_def upt_conv_Cons del: upt_Suc)
qed simp

lemma written_services_ok:
  fixes first :: bool and new_start :: nat and rs :: "(plan_row \<times> (bill \<times> bill_line list) list) list"
  assumes "books_ok d" "get_contract (cv_id svc') d = Some svc"
    and d'_def: "d' = put_contract svc' (written svc first new_start rs d)"
  shows "books_ok d'" and "i \<noteq> cv_id svc' \<Longrightarrow> i < bk_next d \<Longrightarrow> get_contract i d' = get_contract i d"
proof -
  let ?hs = "run_contracts svc first new_start rs (bk_next d)"
  have ids: "cv_id ` set ?hs = {bk_next d..<bk_next d + length rs}" "distinct (map cv_id ?hs)"
    by (metis atLeastLessThan_upt list.set_map run_contracts_ids, simp add: run_contracts_ids)
  have old: "cv_id ` set (bk_services d) \<subseteq> {..<bk_next d}" using assms(1) by (auto simp: books_ok_def list_all_iff)
  have m: "map cv_id (bk_services d') = map cv_id (bk_services d) @ map cv_id ?hs"
    by (simp add: d'_def put_contract_def)
  have n: "bk_next d' = bk_next d + length rs" "bk_plans d' = bk_plans d"
    "map bl_id (bk_orders d') = map bl_id (bk_orders d)" "map ln_id (bk_lines d') = map ln_id (bk_lines d)" by (simp_all add: d'_def)
  have "distinct (map cv_id (bk_services d'))"
    using ids old assms(1) unfolding m by (auto simp: books_ok_def)
  moreover have "cv_id ` set (bk_services d') \<subseteq> {..<bk_next d'}"
  proof -
    have "cv_id ` set (bk_services d') = cv_id ` set (bk_services d) \<union> cv_id ` set ?hs"
      using arg_cong [OF m, of set] by simp
    then show ?thesis using ids(1) old n(1) by auto
  qed
  ultimately show "books_ok d'" using assms(1) n by (auto simp: books_ok_def list_all_iff)
  show "get_contract i d' = get_contract i d" if "i \<noteq> cv_id svc'" "i < bk_next d"
  proof -
    have "i \<notin> cv_id ` set ?hs" using ids(1) that by auto
    then have "find_by cv_id i ?hs = None" by (simp add: find_by_None)
    then have "get_contract i (written svc first new_start rs d) = get_contract i d"
      by (simp add: get_contract_def find_by_append split: option.split)
    with that show ?thesis by (simp add: d'_def contracts.get_put)
  qed
qed

lemma progress_clean:
  assumes ok: "books_ok d" and svc: "get_contract sid d = Some svc" "plan_of d (cv_plan svc) = Some cur"
    and sw: "switches d svc cur"
  shows "progress d {sid} (put_contract (svc\<lparr>cv_activation := Some (switch_start d svc cur), cv_created := switch_start d svc cur\<rparr>)
            (written svc True (switch_start d svc cur) (chosen_runs d svc cur) d))" (is "progress d {sid} ?d'")
proof -
  have i: "cv_id svc = sid" using svc(1) by (rule contracts.get_key)
  let ?new = "switch_start d svc cur" and ?rs = "chosen_runs d svc cur" and ?ls = "with_lines d sid"
  let ?svc = "svc\<lparr>cv_activation := Some ?new, cv_created := ?new\<rparr>"
  note f = chosen_runs_facts [OF ok sw]
  note c = clean_switchD [OF ok sw [unfolded switches_def i]]
  have os: "concat (map snd ?rs) = old_part (pr_price cur) ?ls" unfolding chosen_runs_def i by (rule planned_runs_concat)
  have old: "q \<in> set ?ls \<and> bl_total (fst q) \<noteq> pr_price cur" if "q \<in> set (old_part (pr_price cur) ?ls)" for q
    using that old_part_price old_new_part by (metis Un_iff set_append)
  have parts: "q \<in> set (old_part (pr_price cur) ?ls) \<or> bl_total (fst q) = pr_price cur" if "q \<in> set ?ls" for q
    using that c(4) old_new_part by (metis Un_iff set_append)
  have w: "\<exists>p os. (p, os) \<in> set ?rs \<and> q \<in> set os" if "q \<in> set (old_part (pr_price cur) ?ls)" for q
    using in_one_run that i by metis
  have cover: "\<exists>h p. bk_next d \<le> h \<and> get_bill (bl_id (fst q)) ?d' = map_option (\<lambda>_. moved_bill h q) (get_bill (bl_id (fst q)) d) \<and>
      get_line (ln_id (hd (snd q))) ?d' = map_option (\<lambda>_. moved_line p q) (get_line (ln_id (hd (snd q))) d)"
    if q: "q \<in> set (old_part (pr_price cur) ?ls)" for q
  proof -
    obtain p os where r: "(p, os) \<in> set ?rs" "q \<in> set os" using w [OF q] by blast
    show ?thesis
      using written_covers [OF f(1) _ _ f(5,6) r, of ?new svc True d] f(2,3) run_contracts_fields [of _ svc True ?new ?rs "bk_next d"]
      by fastforce
  qed
  have "list_all2 (bill_moves {sid} (bk_next d)) (bk_orders d) (bk_orders ?d')"
  proof (rule list_all2_by_key)
    show "map bl_id (bk_orders d) = map bl_id (bk_orders ?d')" by simp
    show "distinct (map bl_id (bk_orders d))" using ok by (simp add: books_ok_def)
    fix b assume b: "b \<in> set (bk_orders d)"
    show "\<exists>b'. find_by bl_id (bl_id b) (bk_orders ?d') = Some b' \<and> bill_moves {sid} (bk_next d) b b'"
    proof (cases "bl_id b \<in> (bl_id \<circ> fst) ` set (old_part (pr_price cur) ?ls)")
      case True
      then obtain q where q: "q \<in> set (old_part (pr_price cur) ?ls)" "bl_id b = bl_id (fst q)" by auto
      with old have m: "fst q \<in> set (billed_orders d sid)" by (auto simp: with_lines_mem)
      with b q have e: "fst q = b" using order_unique [OF ok] by (simp add: set_billed_orders)
      with cover [OF q(1)] get_bill_member [OF ok b] obtain h where "bk_next d \<le> h" "get_bill (bl_id b) ?d' = Some (moved_bill h q)"
        by auto
      with m e show ?thesis by (auto simp: get_bill_def bill_moves_def moved_bill_def set_billed_orders)
    next
      case False
      then have "get_bill (bl_id b) ?d' = Some b"
        using get_bill_written_other [of "bl_id b" ?rs, unfolded os] get_bill_member [OF ok b] by simp
      then show ?thesis by (auto simp: get_bill_def bill_moves_def)
    qed
  qed
  moreover have "list_all2 (line_moves {sid} d) (bk_lines d) (bk_lines ?d')"
  proof (rule list_all2_by_key)
    show "map ln_id (bk_lines d) = map ln_id (bk_lines ?d')" by simp
    show "distinct (map ln_id (bk_lines d))" using ok by (simp add: books_ok_def)
    fix l assume l: "l \<in> set (bk_lines d)"
    show "\<exists>l'. find_by ln_id (ln_id l) (bk_lines ?d') = Some l' \<and> line_moves {sid} d l l'"
    proof (cases "ln_id l \<in> (ln_id \<circ> hd \<circ> snd) ` set (old_part (pr_price cur) ?ls)")
      case True
      then obtain q where q: "q \<in> set (old_part (pr_price cur) ?ls)" "ln_id l = ln_id (hd (snd q))" by auto
      with old have m: "q \<in> set ?ls" "bl_total (fst q) \<noteq> pr_price cur" by auto
      with c(1) obtain l' where "snd q = [l']" by (force simp: list_all_iff length_Suc_conv)
      with q(2) have s: "snd q = [l]" using single_line(1) [OF m(1)] line_unique [OF ok l] by auto
      with cover [OF q(1)] get_line_member [OF ok l] obtain p where "get_line (ln_id l) ?d' = Some (moved_line p q)" by auto
      moreover have "line_moves {sid} d l (moved_line p q)"
      proof -
        have e: "moved_line p q = l\<lparr>ln_plan := Some (pr_id p), ln_unit := charged (fst q) l, ln_name := Some (pr_name p)\<rparr>"
          by (simp add: moved_line_def s)
        have "fst q \<in> set (bk_orders d)" "bl_service (fst q) = Some sid" "is_billed (fst q)"
          using m(1) by (simp_all add: with_lines_mem set_billed_orders)
        moreover have u: "b = fst q" if "b \<in> set (bk_orders d)" "ln_order l = bl_id b" for b
          using order_unique [OF ok that(1)] that(2) single_line(2) [OF m(1) s] m(1) by (simp add: with_lines_mem set_billed_orders)
        ultimately have "if is_billed b \<and> (\<exists>s\<in>{sid}. bl_service b = Some s)
              then lines_of d b = [l] \<longrightarrow> ln_unit (moved_line p q) = new_unit d (the (bl_service b)) b l
              else moved_line p q = l" if "b \<in> set (bk_orders d)" "ln_order l = bl_id b" for b
          using that m(2) svc by (simp add: new_unit_def e)
        moreover have "ln_id (moved_line p q) = ln_id l" "ln_order (moved_line p q) = ln_order l"
          "ln_quantity (moved_line p q) = ln_quantity l" by (simp_all add: e)
        ultimately show ?thesis unfolding line_moves_def by blast
      qed
      ultimately show ?thesis by (auto simp: get_line_def)
    next
      case False
      then have "get_line (ln_id l) ?d' = Some l"
        using get_line_written_other [of "ln_id l" ?rs, unfolded os] get_line_member [OF ok l] by simp
      moreover have "line_moves {sid} d l l"
      proof -
        have "bl_total b = pr_price cur"
          if "b \<in> set (bk_orders d)" "is_billed b" "bl_service b = Some sid" "lines_of d b = [l]" for b
        proof -
          have "(b, [l]) \<in> set ?ls" using line_in_rows [OF that(1,3,2), of l] that(4) by simp
          with parts False show ?thesis by force
        qed
        moreover have "lines_of d b \<noteq> [l] \<longrightarrow> True" for b by simp
        ultimately show ?thesis using svc sw False by (auto simp: line_moves_def new_unit_def)
      qed
      ultimately show ?thesis by (auto simp: get_line_def)
    qed
  qed
  moreover have "books_ok ?d'" "\<forall>i. i \<notin> {sid} \<longrightarrow> i < bk_next d \<longrightarrow> get_contract i ?d' = get_contract i d"
    using written_services_ok [OF ok, of ?svc svc ?d' True ?new ?rs] svc(1) i by auto
  ultimately show ?thesis by (simp add: progress_def)
qed

section \<open>The whole repair\<close>

lemma filter_list_all2:
  "list_all2 R xs ys \<Longrightarrow> (\<And>x y. x \<in> set xs \<Longrightarrow> R x y \<Longrightarrow> (P y \<longleftrightarrow> P x) \<and> (P x \<longrightarrow> y = x)) \<Longrightarrow> filter P ys = filter P xs"
proof (induction rule: list_all2_induct)
  case (Cons x xs y ys)
  have "(P y \<longleftrightarrow> P x) \<and> (P x \<longrightarrow> y = x)" using Cons.prems [of x y] Cons.hyps(1) by simp
  moreover have "filter P ys = filter P xs" using Cons.IH Cons.prems by simp
  ultimately show ?case by auto
qed simp

lemma filter_map_list_all2:
  "list_all2 R xs ys \<Longrightarrow> (\<And>x y. R x y \<Longrightarrow> P y \<longleftrightarrow> P x) \<Longrightarrow> list_all2 R (filter P xs) (filter P ys)"
  by (induction rule: list_all2_induct) auto

lemma progress_rows:
  assumes pg: "progress d0 D d" and "sid \<notin> D" "sid < bk_next d0"
  shows "billed_orders d sid = billed_orders d0 sid" and "with_lines d sid = with_lines d0 sid"
proof -
  show b: "billed_orders d sid = billed_orders d0 sid"
    unfolding billed_orders_def
  proof (rule arg_cong [where f = "sort_key bl_created"], rule filter_list_all2)
    show "list_all2 (bill_moves D (bk_next d0)) (bk_orders d0) (bk_orders d)" using pg by (simp add: progress_def)
  qed (use assms in \<open>auto simp: bill_moves_def is_billed_def\<close>)
  have "lines_of d b = lines_of d0 b" if "b \<in> set (billed_orders d0 sid)" for b
    unfolding lines_of_def
  proof (rule filter_list_all2)
    show "list_all2 (line_moves D d0) (bk_lines d0) (bk_lines d)" using pg by (simp add: progress_def)
  qed (use that assms in \<open>auto simp: line_moves_def set_billed_orders\<close>)
  then show "with_lines d sid = with_lines d0 sid" by (simp add: with_lines_def b)
qed

lemma progress_step:
  assumes ok: "books_ok d0" and pg: "progress d0 D d" and sid: "sid \<notin> D" "sid < bk_next d0" and st: "progress d {sid} d'"
  shows "progress d0 (insert sid D) d'"
proof -
  note rows = progress_rows [OF pg sid]
  have pl: "bk_plans d = bk_plans d0" and sv: "get_contract sid d = get_contract sid d0" and n: "bk_next d0 \<le> bk_next d"
    using pg sid by (simp_all add: progress_def)
  have unit: "new_unit d sid b l = new_unit d0 sid b l" for b l
  proof -
    have "switches d svc cur = switches d0 svc cur" if "get_contract sid d0 = Some svc" for svc cur
      using contracts.get_key [OF that] rows(2)
      by (simp add: switches_def clean_switch_def planned_runs_def plan_for_price_def pl)
    then show ?thesis by (simp add: new_unit_def sv plan_of_def pl split: option.splits)
  qed
  have "list_all2 (bill_moves (insert sid D) (bk_next d0)) (bk_orders d0) (bk_orders d')"
  proof (rule list_all2_trans)
    show "list_all2 (bill_moves D (bk_next d0)) (bk_orders d0) (bk_orders d)" using pg by (simp add: progress_def)
    show "list_all2 (bill_moves {sid} (bk_next d)) (bk_orders d) (bk_orders d')" using st by (simp add: progress_def)
    show "bill_moves D (bk_next d0) b b' \<Longrightarrow> bill_moves {sid} (bk_next d) b' b'' \<Longrightarrow>
        bill_moves (insert sid D) (bk_next d0) b b''" for b b' b''
      using n sid order_trans [OF n] by (auto simp: bill_moves_def is_billed_def)
  qed
  moreover have "list_all2 (line_moves (insert sid D) d0) (bk_lines d0) (bk_lines d')"
  proof (rule list_all2_trans)
    show "list_all2 (line_moves D d0) (bk_lines d0) (bk_lines d)" using pg by (simp add: progress_def)
    show "list_all2 (line_moves {sid} d) (bk_lines d) (bk_lines d')" using st by (simp add: progress_def)
    show "line_moves (insert sid D) d0 l l''" if 1: "line_moves D d0 l l'" and 2: "line_moves {sid} d l' l''" for l l' l''
    proof -
      have "if is_billed b \<and> (\<exists>s\<in>insert sid D. bl_service b = Some s)
         then lines_of d0 b = [l] \<longrightarrow> ln_unit l'' = new_unit d0 (the (bl_service b)) b l else l'' = l"
        if b: "b \<in> set (bk_orders d0)" "ln_order l = bl_id b" for b
      proof -
        obtain b' where b': "b' \<in> set (bk_orders d)" "bill_moves D (bk_next d0) b b'"
          using pg b(1) by (auto simp: progress_def elim: list_all2_memberE)
        then have id: "ln_order l' = bl_id b'" and bb: "is_billed b' = is_billed b"
          using 1 b(2) by (auto simp: line_moves_def bill_moves_def is_billed_def)
        have s: "bl_service b' = Some sid \<longleftrightarrow> bl_service b = Some sid" using b'(2) sid by (auto simp: bill_moves_def)
        have 3: "if is_billed b' \<and> bl_service b' = Some sid then lines_of d b' = [l'] \<longrightarrow> ln_unit l'' = new_unit d sid b' l' else l'' = l'"
          using 2 b'(1) id by (auto simp: line_moves_def split: if_splits)
        show ?thesis
        proof (cases "is_billed b \<and> bl_service b = Some sid")
          case True
          then have l: "l' = l" and e: "b' = b" using 1 b b'(2) sid by (auto simp: line_moves_def bill_moves_def)
          have "b \<in> set (billed_orders d0 sid)" using True b(1) by (simp add: set_billed_orders)
          then have "(b, lines_of d0 b) \<in> set (with_lines d sid)" using rows(2) by (simp add: with_lines_mem)
          then have "lines_of d b = lines_of d0 b" by (simp add: with_lines_mem)
          with 3 True l e unit show ?thesis by simp
        next
          case False
          with 3 s bb have "l'' = l'" by (auto split: if_splits)
          with 1 b False show ?thesis by (auto simp: line_moves_def split: if_splits)
        qed
      qed
      then show "line_moves (insert sid D) d0 l l''" using 1 2 by (simp add: line_moves_def)
    qed
  qed
  ultimately show ?thesis using pg st sid n by (auto simp: progress_def)
qed

lemma repair_service_progress:
  assumes ok: "books_ok d" and "get_contract sid d = Some svc" and pr: "priced_rows (with_lines d sid)"
  shows "\<exists>d'. repair_service sid d = Inr d' \<and> progress d {sid} d'"
proof (cases "plan_of d (cv_plan svc)")
  case None
  with assms have "repair_service sid d = Inr d" by (simp add: repair_service_def)
  moreover have "progress d {sid} d"
    using ok assms(2) None by (auto simp: progress_def list_all2_same bill_moves_def line_moves_def new_unit_def)
  ultimately show ?thesis by blast
next
  case (Some cur)
  have i: "cv_id svc = sid" using assms(2) by (rule contracts.get_key)
  show ?thesis
  proof (cases "switches d svc cur")
    case True
    have "snd q \<noteq> [] \<and> bl_total (fst q) \<noteq> None" if "q \<in> set (old_part (pr_price cur) (with_lines d sid))" for q
    proof -
      from that have "q \<in> set (with_lines d sid)" by (metis UnCI old_new_part set_append)
      then show ?thesis
        using pr clean_switchD(1) [OF ok True [unfolded switches_def i]] by (force simp: priced_rows_def list_all_iff)
    qed
    then show ?thesis using repair_clean [OF assms(2) Some True] progress_clean [OF ok assms(2) Some True] by blast
  next
    case False
    then have "repair_service sid d = each fix_line (with_lines d sid) d"
      using assms(2) Some by (simp add: repair_service_def switches_def i Let_def)
    then show ?thesis using each_fix [OF pr] progress_fix [OF ok assms(2) Some False pr] by simp
  qed
qed

lemma each_repair_progress:
  assumes ok: "books_ok d0" and "distinct sids" "set sids \<inter> D = {}" and pg: "progress d0 D d"
    and "\<forall>sid\<in>set sids. get_contract sid d0 \<noteq> None \<and> priced_rows (with_lines d0 sid)"
  shows "\<exists>d'. each repair_service sids d = Inr d' \<and> progress d0 (D \<union> set sids) d'"
  using assms(2-)
proof (induction sids arbitrary: D d)
  case (Cons sid sids)
  then obtain svc where svc: "get_contract sid d0 = Some svc" by auto
  then have lt: "sid < bk_next d0" using ok by (auto simp: books_ok_def list_all_iff get_contract_def dest: find_by_SomeD)
  have sid: "sid \<notin> D" using Cons.prems by auto
  have "books_ok d" "get_contract sid d = Some svc" "priced_rows (with_lines d sid)"
    using Cons.prems sid lt svc progress_rows [OF Cons.prems(3) sid lt] by (simp_all add: progress_def)
  then obtain d1 where d1: "repair_service sid d = Inr d1" "progress d {sid} d1" using repair_service_progress by metis
  then have "progress d0 (insert sid D) d1" using progress_step [OF ok Cons.prems(3) sid lt] by blast
  then obtain d' where "each repair_service sids d1 = Inr d'" "progress d0 (insert sid D \<union> set sids) d'"
    using Cons.IH [of "insert sid D" d1] Cons.prems by auto
  with d1 show ?case by auto
qed simp

lemma tidied_keeps [simp]: "cv_id (tidied d c) = cv_id c" "cv_plan (tidied d c) = cv_plan c" "cv_company (tidied d c) = cv_company c"
  by (auto simp: tidied_def Let_def split: option.splits)

lemma tidy_frame [simp]:
  "bk_orders (tidy_replaced_services d) = bk_orders d" "bk_lines (tidy_replaced_services d) = bk_lines d"
  "bk_plans (tidy_replaced_services d) = bk_plans d" "bk_next (tidy_replaced_services d) = bk_next d"
  "lines_of (tidy_replaced_services d) b = lines_of d b" "with_lines (tidy_replaced_services d) sid = with_lines d sid"
  "mismatched (tidy_replaced_services d) = mismatched d"
  "plan_of (tidy_replaced_services d) i = plan_of d i" "switches (tidy_replaced_services d) svc cur = switches d svc cur"
  by (simp_all add: tidy_replaced_services_def lines_of_def with_lines_def billed_orders_def mismatched_def line_sum_def
      plan_of_def switches_def clean_switch_def planned_runs_def plan_for_price_def fun_eq_iff)

lemma affected_tidy [simp]: "affected (tidy_replaced_services d) = affected d"
  unfolding affected_def tidy_frame ..

lemma get_contract_tidy: "get_contract i (tidy_replaced_services d) = map_option (tidied d) (get_contract i d)"
proof -
  have "find_by cv_id i (map (tidied d) cs) = map_option (tidied d) (find_by cv_id i cs)" for cs by (induction cs) auto
  then show ?thesis by (simp add: get_contract_def tidy_replaced_services_def)
qed

lemma books_ok_tidy: "books_ok d \<Longrightarrow> books_ok (tidy_replaced_services d)"
  by (simp add: books_ok_def) (simp add: tidy_replaced_services_def o_def list_all_iff)

lemma new_unit_tidy: "new_unit (tidy_replaced_services d) sid b l = new_unit d sid b l"
proof -
  have "switches d (tidied e c) cur = switches d c cur" for e c cur by (simp add: switches_def)
  then show ?thesis by (simp add: new_unit_def get_contract_tidy split: option.splits)
qed

definition repairable :: "books \<Rightarrow> bool" where
  \<comment> \<open>amounts are filled in, quantities positive, services are there\<close>
  "repairable d \<longleftrightarrow> books_ok d \<and>
     list_all (\<lambda>b. is_billed b \<longrightarrow> bl_total b \<noteq> None \<and> list_all (\<lambda>l. ln_unit l \<noteq> None \<and> 1 \<le> ln_quantity l) (lines_of d b) \<and>
       (case bl_service b of None \<Rightarrow> True | Some sid \<Rightarrow> get_contract sid d \<noteq> None)) (bk_orders d)"

definition fixable :: "books \<Rightarrow> bill \<Rightarrow> bill_line \<Rightarrow> bool" where
  "fixable d b l =
     (case bl_service b of None \<Rightarrow> False | Some sid \<Rightarrow>
        (case get_contract sid d of None \<Rightarrow> False | Some svc \<Rightarrow>
          (case plan_of d (cv_plan svc) of None \<Rightarrow> False | Some cur \<Rightarrow>
             \<not> (switches d svc cur \<and> bl_total b = pr_price cur) \<and> ln_quantity l dvd the (bl_total b))))"

lemma affected_mem:
  "sid \<in> set (affected d) \<longleftrightarrow> (\<exists>b\<in>set (bk_orders d). bl_service b = Some sid \<and> is_billed b \<and> mismatched d b)"
  by (force simp: affected_def split: option.splits if_splits)

lemma mismatched_single: "lines_of d b = [l] \<Longrightarrow> ln_unit l \<noteq> None \<Longrightarrow>
    mismatched d b \<longleftrightarrow> bl_total b \<noteq> Some (the (ln_unit l) * ln_quantity l)"
  by (auto simp: mismatched_def line_sum_def)

lemma single_line_after:
  assumes rp: "repairable d" and pg: "progress d (set (affected d)) d'" and b: "b \<in> set (bk_orders d)" "is_billed b"
    and b': "bill_moves (set (affected d)) (bk_next d) b b'" and l: "lines_of d b = [l]"
  shows "length (lines_of d' b') = 1 \<and> (mismatched d' b' \<longleftrightarrow> mismatched d b \<and> \<not> fixable d b l)"
proof -
  have id: "bl_id b' = bl_id b" "bl_total b' = bl_total b" using b' by (auto simp: bill_moves_def)
  have "list_all2 (line_moves (set (affected d)) d) (lines_of d b) (lines_of d' b')"
    unfolding lines_of_def id
    by (rule filter_map_list_all2) (use pg in \<open>auto simp: progress_def line_moves_def\<close>)
  then obtain l' where l': "lines_of d' b' = [l']" "line_moves (set (affected d)) d l l'"
    unfolding l by (auto simp: list_all2_Cons1)
  have lb: "ln_order l = bl_id b" using in_lines_of [of l d b] l by simp
  have w: "bl_total b \<noteq> None" "ln_unit l \<noteq> None" "1 \<le> ln_quantity l"
    using rp b l by (auto simp: repairable_def list_all_iff)
  note m = mismatched_single [OF l w(2)]
  have q: "ln_quantity l' = ln_quantity l" using l'(2) by (simp add: line_moves_def)
  obtain t where t: "bl_total b = Some t" using w(1) by blast
  have ch: "charged b l = Some (t div ln_quantity l)" using w(3) by (simp add: charged_def line_quantity_def t)
  have div: "mismatched d' b' \<longleftrightarrow> mismatched d b \<and> \<not> ln_quantity l dvd t" if "ln_unit l' = charged b l"
  proof -
    have "mismatched d' b' \<longleftrightarrow> \<not> ln_quantity l dvd t"
      using mismatched_single [OF l'(1)] that by (simp add: id q ch t) (metis dvd_div_mult_self dvd_triv_right)
    moreover have "ln_quantity l dvd t" if "\<not> mismatched d b" using that m t w(2) by auto
    ultimately show ?thesis by blast
  qed
  have keep: "mismatched d' b' \<longleftrightarrow> mismatched d b" if "ln_unit l' = ln_unit l"
    using mismatched_single [OF l'(1)] that m w(2) by (simp add: id q)
  show ?thesis
  proof (cases "\<exists>sid\<in>set (affected d). bl_service b = Some sid")
    case True
    then obtain sid where sid: "sid \<in> set (affected d)" "bl_service b = Some sid" by auto
    then have u: "ln_unit l' = new_unit d sid b l" using l'(2) b lb l by (auto simp: line_moves_def split: if_splits)
    show ?thesis
      using u div keep l'(1) sid(2)
      by (auto simp: new_unit_def fixable_def t split: option.splits if_splits)
  next
    case False
    with b lb l'(2) have e: "l' = l" by (auto simp: line_moves_def split: if_splits)
    have "\<not> fixable d b l" if "mismatched d b"
      using False affected_mem [of _ d] b that by (auto simp: fixable_def split: option.splits)
    with keep e l'(1) show ?thesis by auto
  qed
qed

lemma remaining_after:
  assumes rp: "repairable d" and pg: "progress d (set (affected d)) d'"
  shows "remaining d' = [] \<longleftrightarrow>
    list_all (\<lambda>b. is_billed b \<and> mismatched d b \<longrightarrow> (case lines_of d b of [l] \<Rightarrow> fixable d b l | _ \<Rightarrow> True)) (bk_orders d)"
proof -
  have all2: "list_all2 (bill_moves (set (affected d)) (bk_next d)) (bk_orders d) (bk_orders d')" using pg by (simp add: progress_def)
  have len: "length (lines_of d' b') = length (lines_of d b)" if "bill_moves (set (affected d)) (bk_next d) b b'" for b b'
  proof -
    have "bl_id b' = bl_id b" using that by (auto simp: bill_moves_def)
    then have "list_all2 (line_moves (set (affected d)) d) (lines_of d b) (lines_of d' b')"
      unfolding lines_of_def
      by (simp only:, intro filter_map_list_all2) (use pg in \<open>auto simp: progress_def line_moves_def\<close>)
    then show ?thesis by (simp add: list_all2_lengthD)
  qed
  have step: "is_billed b' \<and> length (lines_of d' b') = 1 \<and> mismatched d' b' \<longleftrightarrow>
      \<not> (is_billed b \<and> mismatched d b \<longrightarrow> (case lines_of d b of [l] \<Rightarrow> fixable d b l | _ \<Rightarrow> True))"
    if b: "b \<in> set (bk_orders d)" and m: "bill_moves (set (affected d)) (bk_next d) b b'" for b b'
  proof -
    have "is_billed b' = is_billed b" using m by (auto simp: bill_moves_def is_billed_def)
    moreover have "length (lines_of d b) = 1 \<longleftrightarrow> (\<exists>l. lines_of d b = [l])" by (auto simp: length_Suc_conv)
    ultimately show ?thesis
      using len [OF m] single_line_after [OF rp pg b _ m] by (auto split: list.splits)
  qed
  have "remaining d' = [] \<longleftrightarrow> list_all (\<lambda>b'. \<not> (is_billed b' \<and> length (lines_of d' b') = 1 \<and> mismatched d' b')) (bk_orders d')"
    by (auto simp: remaining_def filter_empty_conv list_all_iff)
  also have "\<dots> \<longleftrightarrow> list_all (\<lambda>b. is_billed b \<and> mismatched d b \<longrightarrow> (case lines_of d b of [l] \<Rightarrow> fixable d b l | _ \<Rightarrow> True)) (bk_orders d)"
    using all2 step unfolding list_all_length list_all2_conv_all_nth by (metis nth_mem)
  finally show ?thesis .
qed

text \<open>
  C16. The repair goes through exactly when every single-line order that does not match its line can be made to match: it
  belongs to a service with a plan, its quantity divides the amount charged, and it is not an order at the current
  price of a clean switch. Then no single-line order is left mismatched, and no order changes but for its service: amounts
  and dates stay. Otherwise the only error is that mismatched orders remain, and nothing is written.
\<close>

theorem repair_succeeds_iff:
  assumes "repairable d"
  shows "if list_all (\<lambda>b. is_billed b \<and> mismatched d b \<longrightarrow> (case lines_of d b of [l] \<Rightarrow> fixable d b l | _ \<Rightarrow> True)) (bk_orders d)
    then \<exists>d'. repair_history d = Inr d' \<and> remaining d' = [] \<and>
           map (\<lambda>b. b\<lparr>bl_service := None\<rparr>) (bk_orders d') = map (\<lambda>b. b\<lparr>bl_service := None\<rparr>) (bk_orders d)
    else \<exists>n. repair_history d = Inl (StillMismatched n)"
proof -
  let ?d = "tidy_replaced_services d"
  have ok: "books_ok ?d" using assms by (simp add: repairable_def books_ok_tidy)
  have "(case s of None \<Rightarrow> True | Some sid \<Rightarrow> get_contract sid ?d \<noteq> None) =
      (case s of None \<Rightarrow> True | Some sid \<Rightarrow> get_contract sid d \<noteq> None)" for s
    by (cases s) (simp_all add: get_contract_tidy)
  then have rp: "repairable ?d" using assms unfolding repairable_def by (simp add: books_ok_tidy)
  have "get_contract sid ?d \<noteq> None \<and> priced_rows (with_lines ?d sid)" if "sid \<in> set (affected ?d)" for sid
    using that assms unfolding affected_mem
    by (auto simp: repairable_def list_all_iff get_contract_tidy priced_rows_def with_lines_mem set_billed_orders split: option.splits)
  then obtain d' where d': "each repair_service (affected ?d) ?d = Inr d'" "progress ?d (set (affected ?d)) d'"
    using each_repair_progress [OF ok _ _ progress_refl [OF ok], of "affected ?d"] by (auto simp: affected_def)
  have fx: "fixable ?d = fixable d"
  proof (intro ext)
    fix b l
    have "switches d (tidied e c) cur = switches d c cur" for e c cur by (simp add: switches_def)
    then show "fixable ?d b l = fixable d b l" by (simp add: fixable_def get_contract_tidy split: option.splits)
  qed
  have "map (\<lambda>b. b\<lparr>bl_service := None\<rparr>) bs = map (\<lambda>b. b\<lparr>bl_service := None\<rparr>) bs'"
    if "list_all2 (bill_moves D n) bs' bs" for D n bs bs'
    using that by (induction rule: list_all2_induct) (auto simp: bill_moves_def)
  moreover have "list_all2 (bill_moves (set (affected ?d)) (bk_next ?d)) (bk_orders ?d) (bk_orders d')"
    using d'(2) unfolding progress_def by blast
  ultimately have "map (\<lambda>b. b\<lparr>bl_service := None\<rparr>) (bk_orders d') = map (\<lambda>b. b\<lparr>bl_service := None\<rparr>) (bk_orders d)"
    unfolding tidy_frame by blast
  then show ?thesis
    using d'(1) remaining_after [OF rp d'(2), unfolded fx tidy_frame] by (auto simp: repair_history_def Let_def guardR_def)
qed

section \<open>An example\<close>

definition example_plan :: "nat \<Rightarrow> int \<Rightarrow> plan_row" where
  "example_plan i price =
     \<lparr>pr_id = i, pr_company = 1, pr_name = ''Plan'', pr_price = Some price, pr_service_kind = True, pr_active = True\<rparr>"

definition example_contract :: "nat \<Rightarrow> nat \<Rightarrow> nat \<Rightarrow> billing_status \<Rightarrow> contract" where
  "example_contract i at p billing =
     \<lparr>cv_id = i, cv_created = at, cv_status = ACTIVE, cv_activation = None, cv_cancelled = None, cv_company = 1, cv_client = 1,
      cv_plan = p, cv_recurrence = Some ''MONTHLY'', cv_recurrence_end = None, cv_next_generation = None, cv_last_generated = None,
      cv_billing = Some billing, cv_quantity = 1, cv_source = None, cv_install_state = ''INSTALLED'', cv_installed = None\<rparr>"

definition example_bill :: "nat \<Rightarrow> nat \<Rightarrow> int \<Rightarrow> nat \<Rightarrow> bill" where
  "example_bill i at amount sid =
     \<lparr>bl_id = i, bl_created = at, bl_total = Some amount, bl_recurring = True, bl_cancelled = False, bl_service = Some sid\<rparr>"

definition example_line :: "nat \<Rightarrow> int \<Rightarrow> nat \<Rightarrow> bill_line" where
  "example_line i unit p = \<lparr>ln_id = i, ln_order = i, ln_quantity = 1, ln_unit = Some unit, ln_plan = Some p, ln_name = None\<rparr>"

definition example_books :: books where
  \<comment> \<open>one client: an older service that is billed no more, and one whose plan changed once\<close>
  "example_books =
     \<lparr>bk_plans = [example_plan 1 10000, example_plan 2 15000],
      bk_services = [example_contract 1 0 1 BILL_INACTIVE, example_contract 2 10 2 BILL_ACTIVE],
      bk_orders = [example_bill 1 30 10000 1, example_bill 2 20 10000 2, example_bill 3 40 15000 2],
      bk_lines = [example_line 1 10000 1, example_line 2 15000 2, example_line 3 15000 2], bk_next = 3\<rparr>"

lemmas example_defs = example_books_def example_plan_def example_contract_def example_bill_def example_line_def

lemma example_repaired:
  "repair_service 2 example_books = Inr d' \<longleftrightarrow> d' = example_books
     \<lparr>bk_services := [example_contract 1 0 1 BILL_INACTIVE,
        (example_contract 2 10 2 BILL_ACTIVE)\<lparr>cv_activation := Some 40, cv_created := 40\<rparr>,
        historical 3 (example_contract 2 10 2 BILL_ACTIVE) (example_plan 1 10000) 20 40 20],
      bk_orders := [example_bill 1 30 10000 1, example_bill 2 20 10000 3, example_bill 3 40 15000 2],
      bk_lines := [example_line 1 10000 1, (example_line 2 10000 1)\<lparr>ln_name := Some ''Plan''\<rparr>, example_line 3 15000 2], bk_next := 4\<rparr>"
proof -
  have "repair_service 2 example_books = Inr (example_books
     \<lparr>bk_services := [example_contract 1 0 1 BILL_INACTIVE,
        (example_contract 2 10 2 BILL_ACTIVE)\<lparr>cv_activation := Some 40, cv_created := 40\<rparr>,
        historical 3 (example_contract 2 10 2 BILL_ACTIVE) (example_plan 1 10000) 20 40 20],
      bk_orders := [example_bill 1 30 10000 1, example_bill 2 20 10000 3, example_bill 3 40 15000 2],
      bk_lines := [example_line 1 10000 1, (example_line 2 10000 1)\<lparr>ln_name := Some ''Plan''\<rparr>, example_line 3 15000 2], bk_next := 4\<rparr>)"
    by code_simp
  then show ?thesis by auto
qed

theorem repair_succeeds_iff_witness: "\<exists>d'. repair_history example_books = Inr d' \<and> remaining d' = [] \<and> bk_orders d' \<noteq> []"
proof -
  have "repairable example_books" by code_simp
  moreover have "list_all (\<lambda>b. is_billed b \<and> mismatched example_books b \<longrightarrow>
      (case lines_of example_books b of [l] \<Rightarrow> fixable example_books b l | _ \<Rightarrow> True)) (bk_orders example_books)" by code_simp
  moreover have "bk_orders example_books \<noteq> []" by (simp add: example_books_def)
  ultimately show ?thesis using repair_succeeds_iff [of example_books] by fastforce
qed

lemma repair_not_idempotent:
  \<comment> \<open>the first run moves the start of the newer service, so that the second finds the older one replaced\<close>
  "case repair_history example_books of Inl _ \<Rightarrow> False | Inr d \<Rightarrow>
     (case repair_history d of Inl _ \<Rightarrow> False | Inr d' \<Rightarrow>
        map_option cv_status (get_contract 1 d) = Some ACTIVE \<and> map_option cv_status (get_contract 1 d') = Some SVC_CANCELLED)"
  by code_simp

theorem clean_switch_timeline_witness:
  "\<exists>d' hs svc'. repair_service 2 example_books = Inr d' \<and> bk_services d' = put_by cv_id svc' (bk_services example_books) @ hs \<and>
     hs \<noteq> [] \<and> map cv_cancelled hs = map (Some \<circ> cv_created) (tl hs @ [svc'])"
proof -
  have "books_ok example_books" "get_contract 2 example_books = Some (example_contract 2 10 2 BILL_ACTIVE)"
    "plan_of example_books (cv_plan (example_contract 2 10 2 BILL_ACTIVE)) = Some (example_plan 2 15000)"
    "switches example_books (example_contract 2 10 2 BILL_ACTIVE) (example_plan 2 15000)"
    by code_simp+
  then show ?thesis using clean_switch_timeline [of example_books 2 _ "example_plan 2 15000", OF _ _ _ _ example_repaired [THEN iffD2, OF refl]]
    example_repaired by blast
qed

end
