(* ===== verification/Billing_Backfill.thy ===== *)
theory Billing_Backfill
  imports Complex_Main Prelude "HOL-Library.Product_Lexorder"
begin

text \<open>
  \<open>alembic/versions/c1b_backfill_billing_rework_backfill.py\<close>: the batched backfill of the billing columns, the copied
  grants and the closing assertions. An amount is the exact number its \<open>numeric\<close> cast has, and cents stay within
  \<open>bigint\<close>; points in time are microseconds; a foreign key names a row that is there. A batch without \<open>ORDER BY\<close> takes the
  first rows of its table. A loop that never converges has no result.
\<close>

section \<open>Rows\<close>

datatype payment_status = PAY_PENDING | PAY_PARTIAL | PAY_PAID | PAY_REFUNDED
datatype order_kind = KIND_RECURRING | KIND_ONE_SHOT | KIND_INSTALLATION

record sale =
  so_id :: nat
  so_company :: nat
  so_created :: nat
  so_total :: rat
  so_cents :: "int option" \<comment> \<open>\<open>total_cents\<close>\<close>
  so_paid :: bool
  so_status :: payment_status
  so_kind :: order_kind
  so_recurring :: "nat option" \<comment> \<open>\<open>recurring_order_id\<close>\<close>
  so_service :: "nat option" \<comment> \<open>\<open>client_service_id\<close>\<close>
  so_paid_at :: "nat option" \<comment> \<open>\<open>payment_date\<close>\<close>

record invoice =
  iv_id :: nat
  iv_order :: nat
  iv_created :: nat
  iv_tax :: rat
  iv_total :: rat
  iv_subtotal_cents :: "int option"
  iv_tax_cents :: "int option"
  iv_total_cents :: "int option"
  iv_valid :: bool

record article =
  \<comment> \<open>a product, a service plan or an inventory item: its price (or cost)\<close>
  ar_id :: nat
  ar_name :: string
  ar_price :: "rat option"
  ar_cents :: "int option"

record sale_line =
  sl_id :: nat
  sl_product :: "nat option"
  sl_unit :: "int option"
  sl_name :: "string option"

record billing_tables =
  lg_orders :: "sale list"
  lg_invoices :: "invoice list"
  lg_products :: "article list"
  lg_plans :: "article list"
  lg_stock :: "article list"
  lg_lines :: "sale_line list"
  lg_services :: "(nat \<times> nat option) list" \<comment> \<open>id and \<open>recurring_order_id\<close>\<close>
  lg_permissions :: "string list"
  lg_grants :: "(nat \<times> string) list" \<comment> \<open>role and permission\<close>

section \<open>The batched loop\<close>

definition BATCH :: nat where "BATCH = 10000"

fun update_batch :: "('r \<Rightarrow> bool) \<Rightarrow> ('r \<Rightarrow> 'r) \<Rightarrow> nat \<Rightarrow> 'r list \<Rightarrow> 'r list" where
  \<comment> \<open>\<open>UPDATE ... WHERE id IN (SELECT id ... LIMIT n)\<close>\<close>
  "update_batch P u n [] = []"
| "update_batch P u n (r # rs) =
     (if n = 0 then r # rs
      else if P r then u r # update_batch P u (n - 1) rs
      else r # update_batch P u n rs)"

definition touched_rows :: "('r \<Rightarrow> bool) \<Rightarrow> nat \<Rightarrow> 'r list \<Rightarrow> nat" where
  \<comment> \<open>\<open>rowcount\<close>\<close>
  "touched_rows P n rs = min n (length (filter P rs))"

partial_function (option) batched :: "('r list \<Rightarrow> 'r \<Rightarrow> bool) \<Rightarrow> ('r \<Rightarrow> 'r) \<Rightarrow> 'r list \<Rightarrow> 'r list option" where
  "batched sel u rs =
     (let rs' = update_batch (sel rs) u BATCH rs
      in if touched_rows (sel rs) BATCH rs < BATCH then Some rs' else batched sel u rs')"

section \<open>The updates\<close>

definition round_half_away :: "rat \<Rightarrow> int" where
  \<comment> \<open>\<open>ROUND\<close> of a \<open>numeric\<close>\<close>
  "round_half_away x = (if 0 \<le> x then \<lfloor>x + 1 / 2\<rfloor> else - \<lfloor>- x + 1 / 2\<rfloor>)"

definition cents :: "rat \<Rightarrow> int" where
  "cents x = round_half_away (x * 100)"

definition fill_order_cents :: "sale list \<Rightarrow> sale list option" where
  "fill_order_cents = batched (\<lambda>_ o'. so_cents o' = None) (\<lambda>o'. o'\<lparr>so_cents := Some (cents (so_total o'))\<rparr>)"

definition fill_invoice_cents :: "invoice list \<Rightarrow> invoice list option" where
  "fill_invoice_cents = batched (\<lambda>_ i. iv_total_cents i = None)
     (\<lambda>i. i\<lparr>iv_tax_cents := Some (cents (iv_tax i)), iv_total_cents := Some (cents (iv_total i)),
            iv_subtotal_cents := Some (cents (iv_total i) - cents (iv_tax i))\<rparr>)"

definition fill_price_cents :: "article list \<Rightarrow> article list option" where
  "fill_price_cents = batched (\<lambda>_ a. ar_cents a = None \<and> ar_price a \<noteq> None)
     (\<lambda>a. a\<lparr>ar_cents := Some (cents (the (ar_price a)))\<rparr>)"

definition product_of :: "article list \<Rightarrow> sale_line \<Rightarrow> article option" where
  "product_of ps l = Option.bind (sl_product l) (\<lambda>i. find_by ar_id i ps)"

definition snapshot_lines :: "article list \<Rightarrow> sale_line list \<Rightarrow> sale_line list option" where
  "snapshot_lines ps = batched (\<lambda>_ l. product_of ps l \<noteq> None \<and> sl_unit l = None)
     (\<lambda>l. case product_of ps l of
            None \<Rightarrow> l
          | Some p \<Rightarrow> l\<lparr>sl_unit := map_option cents (ar_price p), sl_name := Some (ar_name p)\<rparr>)"

definition mark_paid :: "sale list \<Rightarrow> sale list option" where
  "mark_paid = batched (\<lambda>_ o'. so_paid o' \<and> so_status o' \<noteq> PAY_PAID) (\<lambda>o'. o'\<lparr>so_status := PAY_PAID\<rparr>)"

definition unmark_paid :: "sale list \<Rightarrow> sale list option" where
  "unmark_paid = batched (\<lambda>_ o'. \<not> so_paid o' \<and> so_status o' = PAY_PAID) (\<lambda>o'. o'\<lparr>so_status := PAY_PENDING\<rparr>)"

definition mark_recurring :: "sale list \<Rightarrow> sale list option" where
  "mark_recurring = batched (\<lambda>_ o'. so_recurring o' \<noteq> None \<and> so_kind o' \<noteq> KIND_RECURRING) (\<lambda>o'. o'\<lparr>so_kind := KIND_RECURRING\<rparr>)"

definition bridge :: "(nat \<times> nat option) list \<Rightarrow> sale \<Rightarrow> nat option" where
  \<comment> \<open>the one service of the order's recurring order; none when there are several\<close>
  "bridge ss o' =
     (case so_recurring o' of
        None \<Rightarrow> None
      | Some r \<Rightarrow> (case filter (\<lambda>s. snd s = Some r) ss of [(sid, _)] \<Rightarrow> Some sid | _ \<Rightarrow> None))"

definition link_services :: "(nat \<times> nat option) list \<Rightarrow> sale list \<Rightarrow> sale list option" where
  "link_services ss = batched (\<lambda>_ o'. bridge ss o' \<noteq> None \<and> so_service o' = None) (\<lambda>o'. o'\<lparr>so_service := bridge ss o'\<rparr>)"

definition paid_when :: "invoice list \<Rightarrow> sale \<Rightarrow> nat" where
  "paid_when ivs o' =
     (case filter (\<lambda>i. iv_order i = so_id o' \<and> iv_valid i) ivs of
        [] \<Rightarrow> so_created o'
      | i # js \<Rightarrow> fold max (map iv_created js) (iv_created i))"

definition date_payments :: "invoice list \<Rightarrow> sale list \<Rightarrow> sale list option" where
  "date_payments ivs = batched (\<lambda>_ o'. so_paid o' \<and> so_paid_at o' = None) (\<lambda>o'. o'\<lparr>so_paid_at := Some (paid_when ivs o')\<rparr>)"

definition newer :: "invoice \<Rightarrow> invoice \<Rightarrow> bool" where
  \<comment> \<open>\<open>ORDER BY created_at DESC, id DESC\<close>\<close>
  "newer i j \<longleftrightarrow> iv_created j < iv_created i \<or> iv_created i = iv_created j \<and> iv_id j < iv_id i"

definition outdated :: "invoice list \<Rightarrow> invoice \<Rightarrow> bool" where
  \<comment> \<open>a valid invoice with \<open>rn > 1\<close>\<close>
  "outdated ivs j \<longleftrightarrow> iv_valid j \<and> list_ex (\<lambda>i. iv_valid i \<and> iv_order i = iv_order j \<and> newer i j) ivs"

definition drop_duplicates :: "invoice list \<Rightarrow> invoice list option" where
  "drop_duplicates = batched outdated (\<lambda>i. i\<lparr>iv_valid := False\<rparr>)"

section \<open>Permissions\<close>

definition add_permission :: "string \<Rightarrow> string list \<Rightarrow> string list" where
  \<comment> \<open>\<open>ON CONFLICT (name) DO NOTHING\<close>\<close>
  "add_permission name ps = (if name \<in> set ps then ps else ps @ [name])"

definition copy_grants :: "string list \<Rightarrow> string \<Rightarrow> string \<Rightarrow> (nat \<times> string) list \<Rightarrow> (nat \<times> string) list" where
  "copy_grants ps source target gs =
     (if source \<in> set ps \<and> target \<in> set ps
      then gs @ filter (\<lambda>g. g \<notin> set gs) (map (\<lambda>g. (fst g, target)) (filter (\<lambda>g. snd g = source) gs)) else gs)"

definition grant_payments :: "billing_tables \<Rightarrow> billing_tables" where
  "grant_payments d =
     (let ps = add_permission ''payments.refund'' (add_permission ''payments.read'' (add_permission ''payments.record'' (lg_permissions d)));
          gs = copy_grants ps ''orders.revert_payment'' ''payments.refund''
                 (copy_grants ps ''orders.read'' ''payments.read''
                   (copy_grants ps ''orders.update'' ''payments.record'' (lg_grants d)))
      in d\<lparr>lg_permissions := ps, lg_grants := gs\<rparr>)"

section \<open>The assertions\<close>

definition order_failures :: "billing_tables \<Rightarrow> sale \<Rightarrow> bool" where
  \<comment> \<open>the checks on a single order\<close>
  "order_failures d o' \<longleftrightarrow> so_cents o' = None \<or> (so_paid o' \<longleftrightarrow> so_status o' \<noteq> PAY_PAID) \<or>
     (so_recurring o' \<noteq> None \<longleftrightarrow> so_kind o' \<noteq> KIND_RECURRING) \<or> so_paid o' \<and> so_paid_at o' = None \<or>
     bridge (lg_services d) o' \<noteq> None \<and> so_service o' = None"

definition invoice_failures :: "billing_tables \<Rightarrow> invoice \<Rightarrow> bool" where
  "invoice_failures d i \<longleftrightarrow>
     (case (iv_subtotal_cents i, iv_tax_cents i, iv_total_cents i) of
        (Some s, Some t, Some c) \<Rightarrow> s + t \<noteq> c
      | _ \<Rightarrow> True) \<or>
     iv_valid i \<and> 1 < length (filter (\<lambda>j. iv_valid j \<and> iv_order j = iv_order i) (lg_invoices d))"

definition diverges :: "billing_tables \<Rightarrow> nat \<Rightarrow> bool" where
  \<comment> \<open>the totals of a company in cents and as they were\<close>
  "diverges d company =
     (let os = filter (\<lambda>o'. so_company o' = company) (lg_orders d)
      in list_ex (\<lambda>o'. so_cents o' \<noteq> None) os \<and> 1 / 100 * of_nat (length os) <
         \<bar>(\<Sum>o'\<leftarrow>os. of_int (case so_cents o' of Some c \<Rightarrow> c | None \<Rightarrow> 0)) / 100 - (\<Sum>o'\<leftarrow>os. so_total o')\<bar>)"

definition price_failures :: "article \<Rightarrow> bool" where
  "price_failures a \<longleftrightarrow> ar_price a \<noteq> None \<and> ar_cents a = None"

definition post_conditions :: "billing_tables \<Rightarrow> bool" where
  "post_conditions d \<longleftrightarrow> \<not> list_ex (order_failures d) (lg_orders d) \<and> \<not> list_ex (invoice_failures d) (lg_invoices d) \<and>
     \<not> list_ex price_failures (lg_products d) \<and> \<not> list_ex price_failures (lg_plans d) \<and> \<not> list_ex price_failures (lg_stock d) \<and>
     \<not> list_ex (\<lambda>l. product_of (lg_products d) l \<noteq> None \<and> sl_unit l = None) (lg_lines d) \<and>
     \<not> list_ex (diverges d) (map so_company (lg_orders d))"

section \<open>The revision\<close>

definition on_orders :: "(sale list \<Rightarrow> sale list option) \<Rightarrow> billing_tables \<Rightarrow> billing_tables option" where
  "on_orders f d = map_option (\<lambda>os. d\<lparr>lg_orders := os\<rparr>) (f (lg_orders d))"
definition on_invoices :: "(invoice list \<Rightarrow> invoice list option) \<Rightarrow> billing_tables \<Rightarrow> billing_tables option" where
  "on_invoices f d = map_option (\<lambda>ivs. d\<lparr>lg_invoices := ivs\<rparr>) (f (lg_invoices d))"
definition on_articles :: "(article list \<Rightarrow> article list option) \<Rightarrow> billing_tables \<Rightarrow> billing_tables option" where
  "on_articles f d =
     Option.bind (f (lg_products d)) (\<lambda>ps. Option.bind (f (lg_plans d)) (\<lambda>qs. Option.bind (f (lg_stock d)) (\<lambda>ts.
       Some (d\<lparr>lg_products := ps, lg_plans := qs, lg_stock := ts\<rparr>))))"
definition on_lines :: "(sale_line list \<Rightarrow> sale_line list option) \<Rightarrow> billing_tables \<Rightarrow> billing_tables option" where
  "on_lines f d = map_option (\<lambda>ls. d\<lparr>lg_lines := ls\<rparr>) (f (lg_lines d))"

definition backfill_blocks :: "(billing_tables \<Rightarrow> billing_tables option) list" where
  \<comment> \<open>the blocks of the \<open>autocommit_block\<close>, in order\<close>
  "backfill_blocks =
     [on_orders fill_order_cents, on_invoices fill_invoice_cents, on_articles fill_price_cents,
      \<lambda>d. on_lines (snapshot_lines (lg_products d)) d, on_orders mark_paid, on_orders unmark_paid, on_orders mark_recurring,
      \<lambda>d. on_orders (link_services (lg_services d)) d, \<lambda>d. on_orders (date_payments (lg_invoices d)) d,
      on_invoices drop_duplicates]"

definition run_blocks :: "(billing_tables \<Rightarrow> billing_tables option) list \<Rightarrow> billing_tables \<Rightarrow> billing_tables option" where
  "run_blocks bs d = fold (\<lambda>b r. Option.bind r b) bs (Some d)"

definition backfill_upgrade :: "billing_tables \<Rightarrow> (billing_tables + billing_tables) option" where
  \<comment> \<open>the state the run leaves: \<open>Inl\<close> when an assertion raised, which undoes the permissions only\<close>
  "backfill_upgrade d =
     Option.bind (run_blocks backfill_blocks d) (\<lambda>d1.
       let d2 = grant_payments d1 in Some (if post_conditions d2 then Inr d2 else Inl d1))"

section \<open>The loop converges\<close>

lemma update_batch_cong: "(\<And>r. r \<in> set rs \<Longrightarrow> P r = Q r) \<Longrightarrow> update_batch P u n rs = update_batch Q u n rs"
  by (induction rs arbitrary: n) auto

lemma update_batch_all: "length (filter P rs) \<le> n \<Longrightarrow> update_batch P u n rs = map (\<lambda>r. if P r then u r else r) rs"
  by (induction rs arbitrary: n) (auto simp: filter_empty_conv intro!: map_idI[symmetric])

lemma update_batch_left:
  assumes "\<And>r. P r \<Longrightarrow> \<not> P (u r)"
  shows "length (filter P (update_batch P u n rs)) = length (filter P rs) - n"
    and "map (\<lambda>r. if P r then u r else r) (update_batch P u n rs) = map (\<lambda>r. if P r then u r else r) rs"
  using assms by (induction rs arbitrary: n) auto

locale convergent_update =
  fixes sel :: "'r list \<Rightarrow> 'r \<Rightarrow> bool" and upd :: "'r \<Rightarrow> 'r" and base :: "'r \<Rightarrow> bool" and reach :: "'r list \<Rightarrow> bool"
  assumes sel_base: "reach rs \<Longrightarrow> r \<in> set rs \<Longrightarrow> sel rs r \<longleftrightarrow> base r"
    and cleared: "base r \<Longrightarrow> \<not> base (upd r)"
    and reach_update: "reach rs \<Longrightarrow> reach (update_batch base upd n rs)"
begin

lemma converges: "reach rs \<Longrightarrow> batched sel upd rs = Some (map (\<lambda>r. if base r then upd r else r) rs)"
proof (induction "length (filter base rs)" arbitrary: rs rule: less_induct)
  case less
  have e: "update_batch (sel rs) upd BATCH rs = update_batch base upd BATCH rs" "filter (sel rs) rs = filter base rs"
    using sel_base [OF less.prems] by (auto intro: update_batch_cong filter_cong)
  show ?case
  proof (cases "length (filter base rs) < BATCH")
    case True
    then show ?thesis by (subst batched.simps) (simp add: e touched_rows_def Let_def update_batch_all)
  next
    case False
    have "0 < BATCH" by (simp add: BATCH_def)
    then have "length (filter base (update_batch base upd BATCH rs)) < length (filter base rs)"
      using update_batch_left(1) [of base upd BATCH rs] cleared False by simp
    then have "batched sel upd (update_batch base upd BATCH rs) =
        Some (map (\<lambda>r. if base r then upd r else r) (update_batch base upd BATCH rs))"
      using less.hyps reach_update [OF less.prems] by blast
    then show ?thesis
      using False update_batch_left(2) [of base upd] cleared by (subst batched.simps) (simp add: e touched_rows_def Let_def)
  qed
qed

end

text \<open>A row's own columns decide in all blocks but the last, where the table does.\<close>

interpretation order_cents: convergent_update "\<lambda>_ o'. so_cents o' = None" "\<lambda>o'. o'\<lparr>so_cents := Some (cents (so_total o'))\<rparr>"
    "\<lambda>o'. so_cents o' = None" "\<lambda>_. True"
  by unfold_locales auto

interpretation invoice_cents: convergent_update "\<lambda>_ i. iv_total_cents i = None"
    "\<lambda>i. i\<lparr>iv_tax_cents := Some (cents (iv_tax i)), iv_total_cents := Some (cents (iv_total i)),
            iv_subtotal_cents := Some (cents (iv_total i) - cents (iv_tax i))\<rparr>" "\<lambda>i. iv_total_cents i = None" "\<lambda>_. True"
  by unfold_locales auto

interpretation price_cents: convergent_update "\<lambda>_ a. ar_cents a = None \<and> ar_price a \<noteq> None"
    "\<lambda>a. a\<lparr>ar_cents := Some (cents (the (ar_price a)))\<rparr>" "\<lambda>a. ar_cents a = None \<and> ar_price a \<noteq> None" "\<lambda>_. True"
  by unfold_locales auto

interpretation paid_marks: convergent_update "\<lambda>_ o'. so_paid o' \<and> so_status o' \<noteq> PAY_PAID" "\<lambda>o'. o'\<lparr>so_status := PAY_PAID\<rparr>"
    "\<lambda>o'. so_paid o' \<and> so_status o' \<noteq> PAY_PAID" "\<lambda>_. True"
  by unfold_locales auto

interpretation paid_unmarks: convergent_update "\<lambda>_ o'. \<not> so_paid o' \<and> so_status o' = PAY_PAID" "\<lambda>o'. o'\<lparr>so_status := PAY_PENDING\<rparr>"
    "\<lambda>o'. \<not> so_paid o' \<and> so_status o' = PAY_PAID" "\<lambda>_. True"
  by unfold_locales auto

interpretation recurring_marks: convergent_update "\<lambda>_ o'. so_recurring o' \<noteq> None \<and> so_kind o' \<noteq> KIND_RECURRING"
    "\<lambda>o'. o'\<lparr>so_kind := KIND_RECURRING\<rparr>" "\<lambda>o'. so_recurring o' \<noteq> None \<and> so_kind o' \<noteq> KIND_RECURRING" "\<lambda>_. True"
  by unfold_locales auto

interpretation service_links: convergent_update "\<lambda>_ o'. bridge ss o' \<noteq> None \<and> so_service o' = None"
    "\<lambda>o'. o'\<lparr>so_service := bridge ss o'\<rparr>" "\<lambda>o'. bridge ss o' \<noteq> None \<and> so_service o' = None" "\<lambda>_. True" for ss
  by unfold_locales auto

interpretation payment_dates: convergent_update "\<lambda>_ o'. so_paid o' \<and> so_paid_at o' = None"
    "\<lambda>o'. o'\<lparr>so_paid_at := Some (paid_when ivs o')\<rparr>" "\<lambda>o'. so_paid o' \<and> so_paid_at o' = None" "\<lambda>_. True" for ivs
  by unfold_locales auto

interpretation snapshots: convergent_update "\<lambda>_ l. product_of ps l \<noteq> None \<and> sl_unit l = None"
    "\<lambda>l. case product_of ps l of None \<Rightarrow> l | Some p \<Rightarrow> l\<lparr>sl_unit := map_option cents (ar_price p), sl_name := Some (ar_name p)\<rparr>"
    "\<lambda>l. (case product_of ps l of None \<Rightarrow> False | Some p \<Rightarrow> ar_price p \<noteq> None) \<and> sl_unit l = None"
    "\<lambda>_. list_all (\<lambda>p. ar_price p \<noteq> None) ps" for ps
proof unfold_locales
  fix rs r assume "list_all (\<lambda>p. ar_price p \<noteq> None) ps"
  then have "ar_price p \<noteq> None" if "product_of ps r = Some p" for p
    using that by (auto simp: product_of_def list_all_iff bind_eq_Some_conv dest: find_by_SomeD)
  then show "(product_of ps r \<noteq> None \<and> sl_unit r = None) =
      ((case product_of ps r of None \<Rightarrow> False | Some p \<Rightarrow> ar_price p \<noteq> None) \<and> sl_unit r = None)"
    by (cases "product_of ps r") auto
qed (auto split: option.splits)

definition newest_key :: "invoice \<Rightarrow> nat \<times> nat" where
  "newest_key i = (iv_created i, iv_id i)"

lemma newer_key: "newer i j \<longleftrightarrow> newest_key j < newest_key i"
  by (auto simp: newer_def newest_key_def)

lemma newest_valid:
  assumes "i \<in> set ivs" "iv_valid i"
  obtains m where "m \<in> set ivs" "iv_valid m" "iv_order m = iv_order i" "\<not> outdated ivs m" "newest_key i \<le> newest_key m"
proof -
  let ?S = "{k \<in> set ivs. iv_valid k \<and> iv_order k = iv_order i}"
  have "finite ?S" "i \<in> ?S" using assms by auto
  then have "Max (newest_key ` ?S) \<in> newest_key ` ?S" by (intro Max_in) auto
  then obtain m where m: "m \<in> ?S" "newest_key m = Max (newest_key ` ?S)" by (metis (no_types, lifting) imageE)
  have le: "newest_key k \<le> newest_key m" if "k \<in> ?S" for k unfolding m(2) using \<open>finite ?S\<close> that by (intro Max_ge) auto
  have "\<not> outdated ivs m" using le m(1) by (fastforce simp: outdated_def list_ex_iff newer_key not_less)
  with m(1) le \<open>i \<in> ?S\<close> that show ?thesis by blast
qed

definition invalidated :: "invoice list \<Rightarrow> invoice list \<Rightarrow> bool" where
  \<comment> \<open>some of the outdated invoices are no longer valid\<close>
  "invalidated ivs = list_all2 (\<lambda>i i'. i' = i \<or> outdated ivs i \<and> i' = i\<lparr>iv_valid := False\<rparr>) ivs"

lemma list_all2_update_batch:
  "list_all2 R xs ys \<Longrightarrow> (\<And>x y. R x y \<Longrightarrow> P y \<Longrightarrow> R x (u y)) \<Longrightarrow> list_all2 R xs (update_batch P u n ys)"
  by (induction arbitrary: n rule: list_all2_induct) auto

lemma invalidated_old: "list_all2 R xs ys \<Longrightarrow> y \<in> set ys \<Longrightarrow> \<exists>x\<in>set xs. R x y"
  by (induction rule: list_all2_induct) auto

lemma invalidated_new: "list_all2 R xs ys \<Longrightarrow> x \<in> set xs \<Longrightarrow> \<exists>y\<in>set ys. R x y"
  by (induction rule: list_all2_induct) auto

lemma outdated_invalidated:
  assumes "invalidated ivs rs"
  shows "outdated rs j \<longleftrightarrow> outdated ivs j"
proof
  assume "outdated rs j"
  then obtain i where i: "i \<in> set rs" "iv_valid i" "iv_order i = iv_order j" "newer i j" "iv_valid j"
    by (auto simp: outdated_def list_ex_iff)
  from assms i(1) obtain i0 where "i0 \<in> set ivs" "i = i0 \<or> i = i0\<lparr>iv_valid := False\<rparr>"
    by (auto simp: invalidated_def dest: invalidated_old)
  with i show "outdated ivs j" by (auto simp: outdated_def list_ex_iff)
next
  assume "outdated ivs j"
  then obtain i where i: "i \<in> set ivs" "iv_valid i" "iv_order i = iv_order j" "newer i j" "iv_valid j"
    by (auto simp: outdated_def list_ex_iff)
  obtain m where m: "m \<in> set ivs" "iv_valid m" "iv_order m = iv_order i" "\<not> outdated ivs m" "newest_key i \<le> newest_key m"
    using newest_valid [OF i(1,2)] .
  from assms m(1,4) have "m \<in> set rs"
    by (auto simp: invalidated_def dest: invalidated_new)
  then show "outdated rs j" using m i by (auto simp: outdated_def list_ex_iff newer_key)
qed

interpretation duplicates: convergent_update outdated "\<lambda>i. i\<lparr>iv_valid := False\<rparr>" "outdated ivs" "invalidated ivs" for ivs
proof unfold_locales
  show "outdated rs r \<longleftrightarrow> outdated ivs r" if "invalidated ivs rs" for rs r using outdated_invalidated [OF that] .
  show "\<not> outdated ivs (r\<lparr>iv_valid := False\<rparr>)" for r by (simp add: outdated_def)
  show "invalidated ivs (update_batch (outdated ivs) (\<lambda>i. i\<lparr>iv_valid := False\<rparr>) n rs)" if "invalidated ivs rs" for rs n
    using that unfolding invalidated_def by (rule list_all2_update_batch) (auto simp: outdated_def)
qed

lemma invalidated_refl: "invalidated ivs ivs"
  by (simp add: invalidated_def list_all2_same)

section \<open>What the blocks leave\<close>

definition order_done :: "(nat \<times> nat option) list \<Rightarrow> sale \<Rightarrow> bool" where
  "order_done ss o' \<longleftrightarrow> so_cents o' \<noteq> None \<and> (so_paid o' \<longleftrightarrow> so_status o' = PAY_PAID) \<and>
     (so_recurring o' \<noteq> None \<longrightarrow> so_kind o' = KIND_RECURRING) \<and> (so_paid o' \<longrightarrow> so_paid_at o' \<noteq> None) \<and>
     (bridge ss o' \<noteq> None \<longrightarrow> so_service o' \<noteq> None)"

definition cents_step :: "sale \<Rightarrow> sale" where
  "cents_step o' = (if so_cents o' = None then o'\<lparr>so_cents := Some (cents (so_total o'))\<rparr> else o')"
definition paid_step :: "sale \<Rightarrow> sale" where
  "paid_step o' = (if so_paid o' \<and> so_status o' \<noteq> PAY_PAID then o'\<lparr>so_status := PAY_PAID\<rparr> else o')"
definition unpaid_step :: "sale \<Rightarrow> sale" where
  "unpaid_step o' = (if \<not> so_paid o' \<and> so_status o' = PAY_PAID then o'\<lparr>so_status := PAY_PENDING\<rparr> else o')"
definition kind_step :: "sale \<Rightarrow> sale" where
  "kind_step o' = (if so_recurring o' \<noteq> None \<and> so_kind o' \<noteq> KIND_RECURRING then o'\<lparr>so_kind := KIND_RECURRING\<rparr> else o')"
definition link_step :: "(nat \<times> nat option) list \<Rightarrow> sale \<Rightarrow> sale" where
  "link_step ss o' = (if bridge ss o' \<noteq> None \<and> so_service o' = None then o'\<lparr>so_service := bridge ss o'\<rparr> else o')"
definition date_step :: "invoice list \<Rightarrow> sale \<Rightarrow> sale" where
  "date_step ivs o' = (if so_paid o' \<and> so_paid_at o' = None then o'\<lparr>so_paid_at := Some (paid_when ivs o')\<rparr> else o')"

definition settle_order :: "(nat \<times> nat option) list \<Rightarrow> invoice list \<Rightarrow> sale \<Rightarrow> sale" where
  "settle_order ss ivs o' = date_step ivs (link_step ss (kind_step (unpaid_step (paid_step (cents_step o')))))"

definition settle_invoice :: "invoice \<Rightarrow> invoice" where
  "settle_invoice i =
     (if iv_total_cents i = None
      then i\<lparr>iv_tax_cents := Some (cents (iv_tax i)), iv_total_cents := Some (cents (iv_total i)),
             iv_subtotal_cents := Some (cents (iv_total i) - cents (iv_tax i))\<rparr> else i)"

definition settle_article :: "article \<Rightarrow> article" where
  "settle_article a = (if ar_cents a = None \<and> ar_price a \<noteq> None then a\<lparr>ar_cents := Some (cents (the (ar_price a)))\<rparr> else a)"

definition settle_line :: "article list \<Rightarrow> sale_line \<Rightarrow> sale_line" where
  "settle_line ps l =
     (if (case product_of ps l of None \<Rightarrow> False | Some p \<Rightarrow> ar_price p \<noteq> None) \<and> sl_unit l = None
      then (case product_of ps l of None \<Rightarrow> l | Some p \<Rightarrow> l\<lparr>sl_unit := map_option cents (ar_price p), sl_name := Some (ar_name p)\<rparr>)
      else l)"

definition keep_newest :: "invoice list \<Rightarrow> invoice list" where
  "keep_newest ivs = map (\<lambda>i. if outdated ivs i then i\<lparr>iv_valid := False\<rparr> else i) ivs"

definition settled_tables :: "billing_tables \<Rightarrow> billing_tables" where
  "settled_tables d =
     (let ivs = map settle_invoice (lg_invoices d); ps = map settle_article (lg_products d)
      in d\<lparr>lg_orders := map (settle_order (lg_services d) ivs) (lg_orders d), lg_invoices := keep_newest ivs,
           lg_products := ps, lg_plans := map settle_article (lg_plans d), lg_stock := map settle_article (lg_stock d),
           lg_lines := map (settle_line ps) (lg_lines d)\<rparr>)"

lemma settle_article_price [simp]: "ar_price (settle_article a) = ar_price a" "ar_id (settle_article a) = ar_id a"
  by (simp_all add: settle_article_def)

lemmas blocks_converge = order_cents.converges invoice_cents.converges price_cents.converges paid_marks.converges
  paid_unmarks.converges recurring_marks.converges service_links.converges payment_dates.converges snapshots.converges
  duplicates.converges [OF invalidated_refl]

lemma run_blocks_settled:
  assumes "list_all (\<lambda>p. ar_price p \<noteq> None) (lg_products d)"
  shows "run_blocks backfill_blocks d = Some (settled_tables d)"
proof -
  have p: "list_all (\<lambda>p. ar_price p \<noteq> None) (map settle_article (lg_products d))"
    using assms by (simp add: list_all_iff)
  have "fill_price_cents as = Some (map settle_article as)" "fill_invoice_cents js = Some (map settle_invoice js)"
    "drop_duplicates js = Some (keep_newest js)" "fill_order_cents os = Some (map cents_step os)"
    "mark_paid os = Some (map paid_step os)" "unmark_paid os = Some (map unpaid_step os)"
    "mark_recurring os = Some (map kind_step os)" "link_services ss os = Some (map (link_step ss) os)"
    "date_payments js os = Some (map (date_step js) os)" for as js os ss
    unfolding fill_price_cents_def fill_invoice_cents_def drop_duplicates_def fill_order_cents_def mark_paid_def unmark_paid_def
      mark_recurring_def link_services_def date_payments_def settle_article_def settle_invoice_def keep_newest_def
      cents_step_def paid_step_def unpaid_step_def kind_step_def link_step_def date_step_def
    by (rule blocks_converge, simp?)+
  moreover have "snapshot_lines (map settle_article (lg_products d)) ls =
      Some (map (settle_line (map settle_article (lg_products d))) ls)" for ls
    unfolding snapshot_lines_def settle_line_def using p by (rule snapshots.converges)
  ultimately show ?thesis
    by (simp add: run_blocks_def backfill_blocks_def on_orders_def on_invoices_def on_articles_def on_lines_def
        settled_tables_def Let_def settle_order_def o_def)
qed

lemma step_fields [simp]:
  "so_id (cents_step o') = so_id o'" "so_total (cents_step o') = so_total o'" "so_company (cents_step o') = so_company o'"
  "so_paid (cents_step o') = so_paid o'" "so_recurring (cents_step o') = so_recurring o'" "so_kind (cents_step o') = so_kind o'"
  "so_id (paid_step o') = so_id o'" "so_total (paid_step o') = so_total o'" "so_company (paid_step o') = so_company o'"
  "so_paid (paid_step o') = so_paid o'" "so_recurring (paid_step o') = so_recurring o'" "so_kind (paid_step o') = so_kind o'"
  "so_cents (paid_step o') = so_cents o'" "so_status (paid_step o') = (if so_paid o' then PAY_PAID else so_status o')"
  "so_id (unpaid_step o') = so_id o'" "so_total (unpaid_step o') = so_total o'" "so_company (unpaid_step o') = so_company o'"
  "so_paid (unpaid_step o') = so_paid o'" "so_recurring (unpaid_step o') = so_recurring o'" "so_kind (unpaid_step o') = so_kind o'"
  "so_cents (unpaid_step o') = so_cents o'" "so_status (unpaid_step o') = PAY_PAID \<longleftrightarrow> so_paid o' \<and> so_status o' = PAY_PAID"
  "so_id (kind_step o') = so_id o'" "so_total (kind_step o') = so_total o'" "so_company (kind_step o') = so_company o'"
  "so_paid (kind_step o') = so_paid o'" "so_recurring (kind_step o') = so_recurring o'"
  "so_kind (kind_step o') = (if so_recurring o' = None then so_kind o' else KIND_RECURRING)"
  "so_cents (kind_step o') = so_cents o'" "so_status (kind_step o') = so_status o'"
  "so_id (link_step ss o') = so_id o'" "so_total (link_step ss o') = so_total o'" "so_company (link_step ss o') = so_company o'"
  "so_paid (link_step ss o') = so_paid o'" "so_recurring (link_step ss o') = so_recurring o'" "so_kind (link_step ss o') = so_kind o'"
  "so_cents (link_step ss o') = so_cents o'" "so_status (link_step ss o') = so_status o'"
  "so_id (date_step ivs o') = so_id o'" "so_total (date_step ivs o') = so_total o'" "so_company (date_step ivs o') = so_company o'"
  "so_paid (date_step ivs o') = so_paid o'" "so_recurring (date_step ivs o') = so_recurring o'" "so_kind (date_step ivs o') = so_kind o'"
  "so_cents (date_step ivs o') = so_cents o'" "so_status (date_step ivs o') = so_status o'" "so_service (date_step ivs o') = so_service o'"
  "so_paid o' \<Longrightarrow> so_paid_at (date_step ivs o') \<noteq> None" "bridge ss o' \<noteq> None \<Longrightarrow> so_service (link_step ss o') \<noteq> None"
  by (auto simp: cents_step_def paid_step_def unpaid_step_def kind_step_def link_step_def date_step_def)

lemma settle_order_fields [simp]:
  "so_id (settle_order ss ivs o') = so_id o'" "so_total (settle_order ss ivs o') = so_total o'"
  "so_company (settle_order ss ivs o') = so_company o'" "so_paid (settle_order ss ivs o') = so_paid o'"
  "so_recurring (settle_order ss ivs o') = so_recurring o'"
  "so_cents (settle_order ss ivs o') = (if so_cents o' = None then Some (cents (so_total o')) else so_cents o')"
  "so_kind (settle_order ss ivs o') = (if so_recurring o' = None then so_kind o' else KIND_RECURRING)"
  by (simp_all add: settle_order_def) (simp add: cents_step_def)

lemma bridge_cong: "so_recurring o1 = so_recurring o2 \<Longrightarrow> bridge ss o1 = bridge ss o2"
  by (simp add: bridge_def)

lemma settle_order_done: "order_done ss (settle_order ss ivs o')"
proof -
  let ?o = "kind_step (unpaid_step (paid_step (cents_step o')))"
  have "bridge ss (settle_order ss ivs o') = bridge ss ?o" by (rule bridge_cong) (simp add: settle_order_def)
  moreover have "bridge ss ?o \<noteq> None \<Longrightarrow> so_service (settle_order ss ivs o') \<noteq> None"
    unfolding settle_order_def by (simp only: step_fields not_False_eq_True)
  moreover have "so_paid o' \<Longrightarrow> so_paid_at (settle_order ss ivs o') \<noteq> None" unfolding settle_order_def
    by (simp only: step_fields not_False_eq_True)
  moreover have "so_status (settle_order ss ivs o') = PAY_PAID \<longleftrightarrow> so_paid o'" by (simp add: settle_order_def)
  ultimately show ?thesis by (auto simp: order_done_def)
qed

lemma settle_order_id:
  assumes "order_done ss o'"
  shows "settle_order ss ivs o' = o'"
proof -
  have "cents_step o' = o'" "paid_step o' = o'" "unpaid_step o' = o'" "kind_step o' = o'" "link_step ss o' = o'" "date_step ivs o' = o'"
    using assms
    unfolding order_done_def cents_step_def paid_step_def unpaid_step_def kind_step_def link_step_def date_step_def by auto
  then show ?thesis by (simp add: settle_order_def)
qed

lemma settle_invoice_fields [simp]:
  "iv_id (settle_invoice i) = iv_id i" "iv_order (settle_invoice i) = iv_order i" "iv_valid (settle_invoice i) = iv_valid i"
  "iv_created (settle_invoice i) = iv_created i"
  by (simp_all add: settle_invoice_def)

definition invoice_sums :: "invoice \<Rightarrow> bool" where
  "invoice_sums i \<longleftrightarrow>
     (case (iv_subtotal_cents i, iv_tax_cents i, iv_total_cents i) of (Some s, Some t, Some c) \<Rightarrow> s + t = c | _ \<Rightarrow> False)"

lemma settle_invoice_sums: "iv_total_cents i = None \<or> invoice_sums i \<Longrightarrow> invoice_sums (settle_invoice i)"
  by (auto simp: settle_invoice_def invoice_sums_def)

lemma settle_invoice_id: "invoice_sums i \<Longrightarrow> settle_invoice i = i"
  by (auto simp: settle_invoice_def invoice_sums_def split: option.splits)

lemma keep_newest_unique:
  assumes "distinct (map iv_id ivs)" "i \<in> set (keep_newest ivs)" "j \<in> set (keep_newest ivs)"
    and "iv_valid i" "iv_valid j" "iv_order i = iv_order j"
  shows "i = j"
proof -
  have "i \<in> set ivs" "j \<in> set ivs" "\<not> outdated ivs i" "\<not> outdated ivs j"
    using assms(2-5) by (auto simp: keep_newest_def split: if_splits)
  then have "\<not> newest_key i < newest_key j" "\<not> newest_key j < newest_key i"
    using assms(4-6) by (auto simp: outdated_def list_ex_iff newer_key)
  then have "newest_key i = newest_key j" by (metis linorder_less_linear)
  then have "iv_id i = iv_id j" by (simp add: newest_key_def)
  then show ?thesis using assms(1) \<open>i \<in> set ivs\<close> \<open>j \<in> set ivs\<close> by (auto simp: distinct_map inj_on_def)
qed

lemma keep_newest_id: "(\<And>j. j \<in> set js \<Longrightarrow> \<not> outdated js j) \<Longrightarrow> keep_newest js = js"
  by (simp add: keep_newest_def cong: map_cong)

lemma keep_newest_again:
  assumes "distinct (map iv_id ivs)"
  shows "keep_newest (keep_newest ivs) = keep_newest ivs"
proof -
  have "\<not> outdated (keep_newest ivs) j" if j: "j \<in> set (keep_newest ivs)" for j
  proof
    assume "outdated (keep_newest ivs) j"
    then obtain i where i: "i \<in> set (keep_newest ivs)" "iv_valid i" "iv_valid j" "iv_order i = iv_order j" "newer i j"
      unfolding outdated_def list_ex_iff by blast
    then have "i = j" using keep_newest_unique [OF assms] j by blast
    with i(5) show False by (simp add: newer_def)
  qed
  then show ?thesis by (rule keep_newest_id)
qed

lemma all_same_length: "distinct xs \<Longrightarrow> \<forall>x\<in>set xs. \<forall>y\<in>set xs. x = y \<Longrightarrow> length xs \<le> 1"
  by (simp add: card_le_Suc0_iff_eq flip: distinct_card)

lemma one_valid:
  assumes d: "distinct (map iv_id ivs)"
  shows "length (filter (\<lambda>j. iv_valid j \<and> iv_order j = k) (keep_newest ivs)) \<le> 1"
proof -
  let ?f = "filter (\<lambda>j. iv_valid j \<and> iv_order j = k) (keep_newest ivs)"
  have m: "map iv_id (keep_newest ivs) = map iv_id ivs" by (auto simp: keep_newest_def)
  with d have "distinct (keep_newest ivs)" by (metis distinct_map)
  then have "distinct ?f" by simp
  moreover have "\<forall>i\<in>set ?f. \<forall>j\<in>set ?f. i = j" using keep_newest_unique [OF d] by auto
  ultimately show ?thesis by (rule all_same_length)
qed

section \<open>Cents\<close>

lemma floor_lt_one: "x < of_int \<lfloor>x\<rfloor> + 1"
  by (rule floor_correct [THEN conjunct2, simplified])

lemma round_half_away_near: "\<bar>of_int (round_half_away x) - x\<bar> \<le> 1 / 2"
proof (cases "0 \<le> x")
  case True
  have "of_int \<lfloor>x + 1 / 2\<rfloor> \<le> x + 1 / 2" "x + 1 / 2 < of_int \<lfloor>x + 1 / 2\<rfloor> + 1" by (rule of_int_floor_le, rule floor_lt_one)
  then have "\<bar>of_int \<lfloor>x + 1 / 2\<rfloor> - x\<bar> \<le> 1 / 2" unfolding abs_le_iff by (intro conjI; linarith)
  with True show ?thesis by (simp add: round_half_away_def)
next
  case False
  have "of_int \<lfloor>- x + 1 / 2\<rfloor> \<le> - x + 1 / 2" "- x + 1 / 2 < of_int \<lfloor>- x + 1 / 2\<rfloor> + 1" by (rule of_int_floor_le, rule floor_lt_one)
  then have "\<bar>- of_int \<lfloor>- x + 1 / 2\<rfloor> - x\<bar> \<le> 1 / 2" unfolding abs_le_iff by (intro conjI; linarith)
  with False show ?thesis by (simp add: round_half_away_def)
qed

lemma cents_near: "\<bar>of_int (cents x) / 100 - x\<bar> \<le> 1 / 200"
  using round_half_away_near [of "x * 100"] unfolding cents_def abs_le_iff by (intro conjI; linarith)

lemma near_add:
  fixes a b x y n :: rat
  assumes "\<bar>a / 100 - x\<bar> \<le> 1 / 200" "\<bar>b / 100 - y\<bar> \<le> 1 / 200 * n"
  shows "\<bar>(a + b) / 100 - (x + y)\<bar> \<le> 1 / 200 * (n + 1)"
proof -
  have "(a + b) / 100 - (x + y) = (a / 100 - x) + (b / 100 - y)" by (simp add: add_divide_distrib)
  then have "\<bar>(a + b) / 100 - (x + y)\<bar> \<le> \<bar>a / 100 - x\<bar> + \<bar>b / 100 - y\<bar>" by (metis abs_triangle_ineq)
  also have "\<dots> \<le> 1 / 200 + 1 / 200 * n" using assms by (rule add_mono)
  finally show ?thesis by (simp add: distrib_left add.commute)
qed

lemma sums_near:
  "(\<And>o'. o' \<in> set os \<Longrightarrow> so_cents o' = Some (cents (so_total o'))) \<Longrightarrow>
     \<bar>(\<Sum>o'\<leftarrow>os. of_int (case so_cents o' of Some c \<Rightarrow> c | None \<Rightarrow> 0)) / 100 - (\<Sum>o'\<leftarrow>os. so_total o')\<bar> \<le> 1 / 200 * of_nat (length os)"
proof (induction os)
  case (Cons o' os)
  let ?c = "\<lambda>o'. of_int (case so_cents o' of Some c \<Rightarrow> c | None \<Rightarrow> 0) :: rat"
  have "\<bar>?c o' / 100 - so_total o'\<bar> \<le> 1 / 200" using Cons.prems [of o'] cents_near by simp
  moreover have "\<bar>(\<Sum>o'\<leftarrow>os. ?c o') / 100 - (\<Sum>o'\<leftarrow>os. so_total o')\<bar> \<le> 1 / 200 * of_nat (length os)"
    using Cons by simp
  ultimately have "\<bar>(?c o' + (\<Sum>o'\<leftarrow>os. ?c o')) / 100 - (so_total o' + (\<Sum>o'\<leftarrow>os. so_total o'))\<bar> \<le> 1 / 200 * (of_nat (length os) + 1)"
    by (rule near_add)
  then show ?case by (simp add: add.commute)
qed simp

section \<open>The revision as a whole\<close>

definition backfillable :: "billing_tables \<Rightarrow> bool" where
  \<comment> \<open>what the columns of the previous revisions guarantee, with the new columns empty or filled by the same rules\<close>
  "backfillable d \<longleftrightarrow> list_all (\<lambda>p. ar_price p \<noteq> None) (lg_products d) \<and> distinct (map iv_id (lg_invoices d)) \<and>
     list_all (\<lambda>i. iv_total_cents i = None \<or> invoice_sums i) (lg_invoices d) \<and>
     list_all (\<lambda>o'. (so_cents o' = None \<or> so_cents o' = Some (cents (so_total o'))) \<and>
       (so_kind o' = KIND_RECURRING \<longrightarrow> so_recurring o' \<noteq> None)) (lg_orders d)"

lemma grant_payments_frame [simp]:
  "lg_orders (grant_payments d) = lg_orders d" "lg_invoices (grant_payments d) = lg_invoices d"
  "lg_products (grant_payments d) = lg_products d" "lg_plans (grant_payments d) = lg_plans d"
  "lg_stock (grant_payments d) = lg_stock d" "lg_lines (grant_payments d) = lg_lines d" "lg_services (grant_payments d) = lg_services d"
  by (simp_all add: grant_payments_def Let_def)

lemma settled_frame [simp]: "lg_services (settled_tables d) = lg_services d" "lg_permissions (settled_tables d) = lg_permissions d"
    "lg_grants (settled_tables d) = lg_grants d" "lg_products (settled_tables d) = map settle_article (lg_products d)"
    "lg_orders (settled_tables d) = map (settle_order (lg_services d) (map settle_invoice (lg_invoices d))) (lg_orders d)"
    "lg_invoices (settled_tables d) = keep_newest (map settle_invoice (lg_invoices d))"
    "lg_plans (settled_tables d) = map settle_article (lg_plans d)" "lg_stock (settled_tables d) = map settle_article (lg_stock d)"
    "lg_lines (settled_tables d) = map (settle_line (map settle_article (lg_products d))) (lg_lines d)"
  by (simp_all add: settled_tables_def Let_def)

lemma settle_article_ok: "\<not> price_failures (settle_article a)"
  by (auto simp: price_failures_def settle_article_def)

lemma settle_article_id: "\<not> price_failures a \<Longrightarrow> settle_article a = a"
  by (auto simp: price_failures_def settle_article_def)

lemma settle_line_product [simp]: "sl_product (settle_line ps l) = sl_product l"
  by (simp add: settle_line_def split: option.splits)

lemma product_of_cong: "sl_product l = sl_product l' \<Longrightarrow> product_of ps l = product_of ps l'"
  by (simp add: product_of_def)

lemma settle_line_done:
  assumes "list_all (\<lambda>p. ar_price p \<noteq> None) ps"
  shows "product_of ps (settle_line ps l) \<noteq> None \<longrightarrow> sl_unit (settle_line ps l) \<noteq> None"
proof
  assume "product_of ps (settle_line ps l) \<noteq> None"
  then obtain p where p: "product_of ps l = Some p" by (auto simp: product_of_def)
  with assms have "ar_price p \<noteq> None" by (auto simp: product_of_def list_all_iff bind_eq_Some_conv dest: find_by_SomeD)
  with p show "sl_unit (settle_line ps l) \<noteq> None" by (auto simp: settle_line_def)
qed

lemma settle_line_id: "product_of ps l \<noteq> None \<longrightarrow> sl_unit l \<noteq> None \<Longrightarrow> settle_line ps l = l"
  by (auto simp: settle_line_def split: option.splits)

lemma keep_newest_members:
  "i \<in> set (keep_newest ivs) \<Longrightarrow> \<exists>j\<in>set ivs. iv_subtotal_cents i = iv_subtotal_cents j \<and> iv_tax_cents i = iv_tax_cents j \<and>
     iv_total_cents i = iv_total_cents j"
  by (auto simp: keep_newest_def)

lemma keep_newest_map: "map f (keep_newest ivs) = map f ivs" if "\<And>i. f (i\<lparr>iv_valid := False\<rparr>) = f i"
  using that by (simp add: keep_newest_def)

lemma settled_sums:
  assumes "backfillable d" "i \<in> set (lg_invoices (settled_tables d))"
  shows "invoice_sums i"
proof -
  obtain j where j: "j \<in> set (lg_invoices d)" "iv_subtotal_cents i = iv_subtotal_cents (settle_invoice j)"
    "iv_tax_cents i = iv_tax_cents (settle_invoice j)" "iv_total_cents i = iv_total_cents (settle_invoice j)"
    using keep_newest_members assms(2) by (fastforce simp del: settle_invoice_fields)
  then have "invoice_sums (settle_invoice j)"
    using assms(1) settle_invoice_sums by (auto simp: backfillable_def list_all_iff)
  with j show ?thesis by (simp add: invoice_sums_def)
qed

lemma distinct_invoices: "backfillable d \<Longrightarrow> distinct (map iv_id (map settle_invoice (lg_invoices d)))"
  unfolding backfillable_def by (simp add: o_def)

lemma settled_diverges:
  assumes "backfillable d"
  shows "\<not> diverges (settled_tables d) c"
proof -
  let ?os = "filter (\<lambda>o'. so_company o' = c) (lg_orders (settled_tables d))"
  have "so_cents o' = Some (cents (so_total o'))" if "o' \<in> set (lg_orders (settled_tables d))" for o'
    using that assms by (auto simp: backfillable_def list_all_iff)
  then have "\<bar>(\<Sum>o'\<leftarrow>?os. of_int (case so_cents o' of Some c \<Rightarrow> c | None \<Rightarrow> 0)) / 100 - (\<Sum>o'\<leftarrow>?os. so_total o')\<bar> \<le>
      1 / 200 * of_nat (length ?os)" by (intro sums_near) simp
  also have "\<dots> \<le> 1 / 100 * of_nat (length ?os)" by (intro mult_right_mono) simp_all
  finally show ?thesis unfolding diverges_def Let_def by (simp only: not_less de_Morgan_conj simp_thms)
qed

lemma settled_passes:
  assumes ok: "backfillable d"
  shows "post_conditions (grant_payments (settled_tables d))"
proof -
  have c: "diverges (grant_payments e) = diverges e" "order_failures (grant_payments e) = order_failures e"
    "invoice_failures (grant_payments e) = invoice_failures e" for e
    by (simp_all add: diverges_def order_failures_def invoice_failures_def fun_eq_iff)
  have "\<not> order_failures (settled_tables d) o'" if m: "o' \<in> set (lg_orders (settled_tables d))" for o'
  proof -
    obtain o0 where o0: "o0 \<in> set (lg_orders d)" "o' = settle_order (lg_services d) (map settle_invoice (lg_invoices d)) o0"
      using m by auto
    have "order_done (lg_services d) o'" unfolding o0(2) by (rule settle_order_done)
    moreover have "so_kind o' = KIND_RECURRING \<longrightarrow> so_recurring o' \<noteq> None"
      using ok o0 by (auto simp: backfillable_def list_all_iff)
    ultimately show ?thesis unfolding order_failures_def order_done_def settled_frame by blast
  qed
  moreover have "\<not> invoice_failures (settled_tables d) i" if "i \<in> set (lg_invoices (settled_tables d))" for i
  proof -
    have "distinct (map iv_id (map settle_invoice (lg_invoices d)))" using ok by (rule distinct_invoices)
    then have "length (filter (\<lambda>j. iv_valid j \<and> iv_order j = iv_order i) (lg_invoices (settled_tables d))) \<le> 1"
      unfolding settled_frame by (rule one_valid)
    moreover have "invoice_sums i" using settled_sums [OF ok that] .
    ultimately show ?thesis by (auto simp: invoice_failures_def invoice_sums_def split: option.splits)
  qed
  moreover have "\<not> (product_of (lg_products (settled_tables d)) l \<noteq> None \<and> sl_unit l = None)" if l: "l \<in> set (lg_lines (settled_tables d))" for l
  proof -
    have p: "list_all (\<lambda>p. ar_price p \<noteq> None) (lg_products (settled_tables d))" using ok by (simp add: backfillable_def list_all_iff)
    obtain l0 where "l = settle_line (lg_products (settled_tables d)) l0" using l by auto
    then show ?thesis using settle_line_done [OF p] by blast
  qed
  ultimately show ?thesis
    unfolding post_conditions_def c grant_payments_frame list_ex_iff
    using settled_diverges [OF ok] settle_article_ok by auto
qed

lemma settled_id:
  "map settle_invoice (lg_invoices e) = lg_invoices e \<Longrightarrow> keep_newest (lg_invoices e) = lg_invoices e \<Longrightarrow>
   map (settle_order (lg_services e) (lg_invoices e)) (lg_orders e) = lg_orders e \<Longrightarrow>
   map settle_article (lg_products e) = lg_products e \<Longrightarrow> map settle_article (lg_plans e) = lg_plans e \<Longrightarrow>
   map settle_article (lg_stock e) = lg_stock e \<Longrightarrow> map (settle_line (lg_products e)) (lg_lines e) = lg_lines e \<Longrightarrow> settled_tables e = e"
  by (simp add: settled_tables_def)

lemma settled_settled:
  assumes ok: "backfillable d"
  shows "settled_tables (grant_payments (settled_tables d)) = grant_payments (settled_tables d)"
proof -
  let ?e = "settled_tables d"
  have p: "list_all (\<lambda>p. ar_price p \<noteq> None) (lg_products ?e)" using ok by (simp add: backfillable_def list_all_iff)
  have i: "map settle_invoice (lg_invoices ?e) = lg_invoices ?e"
    using settled_sums [OF ok] settle_invoice_id by (intro map_idI) blast
  have "keep_newest (lg_invoices ?e) = lg_invoices ?e"
    using keep_newest_again [OF distinct_invoices [OF ok]] by simp
  moreover have "map (settle_order (lg_services ?e) (lg_invoices ?e)) (lg_orders ?e) = lg_orders ?e"
    using settle_order_id [OF settle_order_done] by (intro map_idI) auto
  moreover have a: "map settle_article (lg_products ?e) = lg_products ?e" "map settle_article (lg_plans ?e) = lg_plans ?e"
    "map settle_article (lg_stock ?e) = lg_stock ?e"
    using settle_article_id [OF settle_article_ok] by simp_all
  moreover have "map (settle_line (lg_products ?e)) (lg_lines ?e) = lg_lines ?e"
  proof (rule map_idI)
    fix l assume "l \<in> set (lg_lines ?e)"
    then obtain l0 where "l = settle_line (lg_products ?e) l0" by auto
    then show "settle_line (lg_products ?e) l = l" using settle_line_id [OF settle_line_done [OF p]] by simp
  qed
  ultimately show ?thesis
    using i by (intro settled_id) (simp_all only: grant_payments_frame)
qed

lemma add_permission_again [simp]: "name \<in> set ps \<Longrightarrow> add_permission name ps = ps"
  by (simp add: add_permission_def)

lemma in_add_permission [simp]: "name \<in> set (add_permission name' ps) \<longleftrightarrow> name = name' \<or> name \<in> set ps"
  by (auto simp: add_permission_def)

lemma set_copy_grants: "set (copy_grants ps s t gs) =
    set gs \<union> (if s \<in> set ps \<and> t \<in> set ps then {(r, t) |r. (r, s) \<in> set gs} else {})"
  by (force simp: copy_grants_def)

lemma copy_grants_again: "(\<And>r. s \<in> set ps \<Longrightarrow> (r, s) \<in> set gs \<Longrightarrow> (r, t) \<in> set gs) \<Longrightarrow> copy_grants ps s t gs = gs"
  by (auto simp: copy_grants_def filter_empty_conv)

lemma grant_payments_again: "grant_payments (grant_payments d) = grant_payments d"
proof -
  define ps where "ps = add_permission ''payments.refund'' (add_permission ''payments.read'' (add_permission ''payments.record'' (lg_permissions d)))"
  define gs where "gs = copy_grants ps ''orders.revert_payment'' ''payments.refund''
      (copy_grants ps ''orders.read'' ''payments.read'' (copy_grants ps ''orders.update'' ''payments.record'' (lg_grants d)))"
  have e: "grant_payments d = d\<lparr>lg_permissions := ps, lg_grants := gs\<rparr>" by (simp add: grant_payments_def ps_def gs_def Let_def)
  have p: "''payments.refund'' \<in> set ps" "''payments.read'' \<in> set ps" "''payments.record'' \<in> set ps" by (simp_all add: ps_def)
  have m: "set gs = set (lg_grants d) \<union> {(r, ''payments.record'') |r. (r, ''orders.update'') \<in> set (lg_grants d) \<and> ''orders.update'' \<in> set ps} \<union>
      {(r, ''payments.read'') |r. (r, ''orders.read'') \<in> set (lg_grants d) \<and> ''orders.read'' \<in> set ps} \<union>
      {(r, ''payments.refund'') |r. (r, ''orders.revert_payment'') \<in> set (lg_grants d) \<and> ''orders.revert_payment'' \<in> set ps}"
    using p by (auto simp: gs_def set_copy_grants)
  have "copy_grants ps ''orders.update'' ''payments.record'' gs = gs" "copy_grants ps ''orders.read'' ''payments.read'' gs = gs"
    "copy_grants ps ''orders.revert_payment'' ''payments.refund'' gs = gs"
    by (rule copy_grants_again, simp add: m)+
  then show ?thesis using p unfolding e by (simp add: grant_payments_def Let_def)
qed

text \<open>
  C17. From the tables the previous revision leaves, however large, every batched loop ends and all assertions pass: each
  amount has its cents, paid orders are marked and dated, every order keeps at most one valid invoice. A company's cents
  stay within the tolerance. The tables are then settled: running the revision again changes nothing. No order that had a
  valid invoice is left without one, and the one kept is the newest.
\<close>

theorem backfill_converges:
  assumes "backfillable d"
  shows "\<exists>d'. backfill_upgrade d = Some (Inr d') \<and> post_conditions d' \<and> backfill_upgrade d' = Some (Inr d') \<and>
    (\<forall>i\<in>set (lg_invoices d). iv_valid i \<longrightarrow>
       (\<exists>j\<in>set (lg_invoices d'). iv_valid j \<and> iv_order j = iv_order i \<and> \<not> newer i j))"
proof -
  let ?d = "grant_payments (settled_tables d)"
  have p: "list_all (\<lambda>p. ar_price p \<noteq> None) (lg_products d)" "list_all (\<lambda>p. ar_price p \<noteq> None) (lg_products ?d)"
    using assms by (simp_all add: backfillable_def list_all_iff)
  note pass = settled_passes [OF assms]
  have "backfill_upgrade d = Some (Inr ?d)"
    using run_blocks_settled [OF p(1)] pass by (simp add: backfill_upgrade_def Let_def)
  moreover have "backfill_upgrade ?d = Some (Inr ?d)"
    using run_blocks_settled [OF p(2)] pass
    by (simp add: backfill_upgrade_def settled_settled [OF assms] grant_payments_again Let_def)
  moreover have "\<exists>j\<in>set (lg_invoices ?d). iv_valid j \<and> iv_order j = iv_order i \<and> \<not> newer i j"
    if i: "i \<in> set (lg_invoices d)" "iv_valid i" for i
  proof -
    let ?ivs = "map settle_invoice (lg_invoices d)"
    have "settle_invoice i \<in> set ?ivs" "iv_valid (settle_invoice i)" using i by auto
    then obtain m where m: "m \<in> set ?ivs" "iv_valid m" "iv_order m = iv_order (settle_invoice i)" "\<not> outdated ?ivs m"
        "newest_key (settle_invoice i) \<le> newest_key m"
      using newest_valid by metis
    have "m \<in> set (keep_newest ?ivs)" using m(1,4) by (auto simp: keep_newest_def image_iff)
    moreover have "\<not> newer i m"
    proof -
      have "newest_key (settle_invoice i) = newest_key i" by (simp add: newest_key_def)
      with m(5) have "newest_key i \<le> newest_key m" by (simp only:)
      then show ?thesis by (simp only: newer_key not_less)
    qed
    ultimately show ?thesis using m(2,3) by auto
  qed
  ultimately show ?thesis using pass by blast
qed

definition example_tables :: billing_tables where
  "example_tables =
     \<lparr>lg_orders = [\<lparr>so_id = 1, so_company = 1, so_created = 5, so_total = 25, so_cents = None, so_paid = True, so_status = PAY_PENDING,
        so_kind = KIND_ONE_SHOT, so_recurring = Some 7, so_service = None, so_paid_at = None\<rparr>],
      lg_invoices =
        [\<lparr>iv_id = 1, iv_order = 1, iv_created = 6, iv_tax = 2, iv_total = 25, iv_subtotal_cents = None, iv_tax_cents = None,
          iv_total_cents = None, iv_valid = True\<rparr>,
         \<lparr>iv_id = 2, iv_order = 1, iv_created = 6, iv_tax = 2, iv_total = 25, iv_subtotal_cents = None, iv_tax_cents = None,
          iv_total_cents = None, iv_valid = True\<rparr>],
      lg_products = [\<lparr>ar_id = 1, ar_name = ''Plan'', ar_price = Some (25), ar_cents = None\<rparr>], lg_plans = [],
      lg_stock = [\<lparr>ar_id = 1, ar_name = ''ONU'', ar_price = None, ar_cents = None\<rparr>],
      lg_lines = [\<lparr>sl_id = 1, sl_product = Some 1, sl_unit = None, sl_name = None\<rparr>], lg_services = [(3, Some 7)],
      lg_permissions = [''orders.read''], lg_grants = [(1, ''orders.read'')]\<rparr>"

theorem backfill_converges_witness:
  "\<exists>d'. backfill_upgrade example_tables = Some (Inr d') \<and> backfill_upgrade d' = Some (Inr d') \<and>
     \<not> post_conditions example_tables \<and> post_conditions d'"
proof -
  have "backfillable example_tables" by (simp add: backfillable_def example_tables_def)
  moreover have "\<not> post_conditions example_tables"
    by (simp add: post_conditions_def order_failures_def example_tables_def)
  ultimately show ?thesis using backfill_converges [of example_tables] by blast
qed

end
