(* ===== verification/Transport_Axis.thy ===== *)
theory Transport_Axis
  imports Transport "HOL-Library.Product_Lexorder"
begin

text \<open>
  \<open>alembic/versions/tr1_transport_axis.py\<close>: the table \<open>network_access\<close> folded into a tenant's settings and, backwards, recreated from
  them. The state is what both revisions see: before the fold the new columns of the settings are at their defaults, after it the
  table is empty and no credential is bound. Names of the recreated rows, time stamps and constraint names are
  left out; a violated constraint is a value.
\<close>

section \<open>Rows\<close>

record network_access =
  na_id :: id
  na_company :: id
  na_kind :: string
  na_mode :: string
  na_default :: bool
  na_acs_url :: "string option"
  na_gateway_host :: "string option"
  na_pylon_socks5 :: "string option"
  na_vpn_socks5 :: "string option"
  na_auth_required :: bool

record tenant_settings = settings +
  ts_enabled :: bool
  ts_interval :: "int option"
  ts_auth_required :: bool
  ts_pending :: "id option"

record bound_credential =
  bc_id :: id
  bc_company :: id
  bc_kind :: string
  bc_created :: nat
  bc_access :: "id option" \<comment> \<open>\<open>network_access_id\<close>\<close>

record axis_db =
  ax_access :: "network_access list"
  ax_settings :: "tenant_settings list"
  ax_credentials :: "bound_credential list"
  ax_next :: id

datatype axis_error = TUNNEL_ROWS nat | AXIS_CHECK | ACCESS_CHECK

section \<open>Constraints\<close>

definition axis_check :: "tenant_settings \<Rightarrow> bool" where
  \<comment> \<open>the five CHECKs of the new columns\<close>
  "axis_check s \<longleftrightarrow> ps_dial_target s \<in> {''device'', ''gateway''} \<and> ps_proxy_kind s \<in> {''none'', ''socks5''} \<and>
     (ps_proxy_kind s \<noteq> ''socks5'' \<or> ps_proxy_address s \<noteq> None) \<and>
     (ps_dial_target s \<noteq> ''gateway'' \<or> ps_gateway_host s \<noteq> None) \<and>
     (ts_pending s = None \<or> ps_cwmp_credential s = None \<or> ps_cwmp_credential s \<noteq> ts_pending s)"

definition access_check :: "network_access \<Rightarrow> bool" where
  "access_check a \<longleftrightarrow> na_kind a \<in> {''acs'', ''outbound''} \<and>
     na_mode a \<in> {''direct'', ''vpn'', ''tunnel'', ''nat_zt'', ''nat_public''} \<and>
     (na_mode a \<notin> {''nat_zt'', ''nat_public''} \<or> na_gateway_host a \<noteq> None) \<and>
     (na_mode a \<noteq> ''nat_zt'' \<or> na_pylon_socks5 a \<noteq> None) \<and> (na_mode a \<noteq> ''vpn'' \<or> na_vpn_socks5 a \<noteq> None) \<and>
     (na_kind a = ''acs'' \<or> \<not> na_auth_required a)"

definition one_default :: "network_access list \<Rightarrow> bool" where
  \<comment> \<open>\<open>uq_network_access_default\<close>\<close>
  "one_default rows \<longleftrightarrow> distinct (map (\<lambda>a. (na_company a, na_kind a)) (filter na_default rows))"

section \<open>The fold\<close>

definition fresh_columns :: "tenant_settings \<Rightarrow> tenant_settings" where
  \<comment> \<open>the columns as they are added, with their server defaults\<close>
  "fresh_columns s = s\<lparr>ps_dial_target := ''device'', ps_proxy_kind := ''none'', ps_proxy_address := None, ps_gateway_host := None,
     ps_acs_url := None, ts_auth_required := False, ps_cwmp_credential := None, ts_pending := None\<rparr>"

definition default_row :: "string \<Rightarrow> network_access list \<Rightarrow> id \<Rightarrow> network_access option" where
  "default_row kind rows company = find (\<lambda>a. na_kind a = kind \<and> na_default a \<and> na_company a = company) rows"

definition dial_target_of :: "network_access option \<Rightarrow> string" where
  "dial_target_of a = (if a \<noteq> None \<and> na_mode (the a) \<in> {''nat_zt'', ''nat_public''} then ''gateway'' else ''device'')"

definition proxy_kind_of :: "network_access option \<Rightarrow> string" where
  "proxy_kind_of a = (if a \<noteq> None \<and> na_mode (the a) \<in> {''nat_zt'', ''vpn''} then ''socks5'' else ''none'')"

definition proxy_address_of :: "network_access option \<Rightarrow> string option" where
  "proxy_address_of a =
     (case a of
        None \<Rightarrow> None
      | Some o' \<Rightarrow> if na_mode o' = ''nat_zt'' then na_pylon_socks5 o' else if na_mode o' = ''vpn'' then na_vpn_socks5 o' else None)"

definition fold_row :: "network_access list \<Rightarrow> tenant_settings \<Rightarrow> tenant_settings" where
  \<comment> \<open>\<open>EXCLUDED\<close>, for the company of the row\<close>
  "fold_row rows s =
     (let o' = default_row ''outbound'' rows (ps_company s); a = default_row ''acs'' rows (ps_company s)
      in s\<lparr>ps_dial_target := dial_target_of o', ps_proxy_kind := proxy_kind_of o', ps_proxy_address := proxy_address_of o',
           ps_gateway_host := Option.bind o' na_gateway_host, ps_acs_url := Option.bind a na_acs_url,
           ts_auth_required := (case a of None \<Rightarrow> False | Some a \<Rightarrow> na_auth_required a)\<rparr>)"

definition new_settings :: "id \<Rightarrow> tenant_settings" where
  \<comment> \<open>what \<open>INSERT\<close> gives a tenant without settings: disabled\<close>
  "new_settings company = fresh_columns
     \<lparr>ps_company = company, ps_acs_url = None, ps_cwmp_credential = None, ps_dial_target = [], ps_gateway_host = None,
      ps_proxy_kind = [], ps_proxy_address = None, ts_enabled = False, ts_interval = None, ts_auth_required = False, ts_pending = None\<rparr>"

definition fold_settings :: "network_access list \<Rightarrow> tenant_settings list \<Rightarrow> tenant_settings list" where
  \<comment> \<open>\<open>ON CONFLICT (company_id) DO UPDATE\<close>\<close>
  "fold_settings rows ss =
     (let companies = dedup (map na_company rows)
      in map (\<lambda>s. if ps_company s \<in> set companies then fold_row rows s else s) ss @
         map (\<lambda>c. fold_row rows (new_settings c)) (filter (\<lambda>c. c \<notin> ps_company ` set ss) companies))"

definition ranked :: "axis_db \<Rightarrow> id \<Rightarrow> bound_credential list" where
  \<comment> \<open>the tenant's Inform credentials, \<open>created_at DESC, id DESC\<close>\<close>
  "ranked d company =
     rev (sort_key (\<lambda>c. (bc_created c, bc_id c))
       (filter (\<lambda>c. bc_company c = company \<and> bc_kind c = ''HTTP_BASIC'' \<and>
          list_ex (\<lambda>a. bc_access c = Some (na_id a) \<and> na_kind a = ''acs'' \<and> na_default a) (ax_access d)) (ax_credentials d)))"

definition pair_row :: "axis_db \<Rightarrow> tenant_settings \<Rightarrow> tenant_settings" where
  "pair_row d s =
     (case ranked d (ps_company s) of
        [] \<Rightarrow> s
      | c # cs \<Rightarrow> s\<lparr>ps_cwmp_credential := Some (bc_id c), ts_pending := (case cs of [] \<Rightarrow> None | c' # _ \<Rightarrow> Some (bc_id c'))\<rparr>)"

definition axis_upgrade :: "axis_db \<Rightarrow> axis_error + axis_db" where
  "axis_upgrade d =
     (let tunnels = filter (\<lambda>a. na_mode a = ''tunnel'') (ax_access d)
      in guardR (tunnels \<noteq> []) (TUNNEL_ROWS (length tunnels)) (
         let ss = map (pair_row d) (fold_settings (ax_access d) (map fresh_columns (ax_settings d)))
         in guardR (\<not> list_all axis_check ss) AXIS_CHECK (
            Inr (d\<lparr>ax_settings := ss, ax_access := [], ax_credentials := map (\<lambda>c. c\<lparr>bc_access := None\<rparr>) (ax_credentials d)\<rparr>))))"

section \<open>And back\<close>

definition mode_of :: "tenant_settings \<Rightarrow> string" where
  "mode_of s =
     (if ps_dial_target s = ''gateway'' \<and> ps_proxy_kind s = ''socks5'' then ''nat_zt''
      else if ps_dial_target s = ''gateway'' then ''nat_public''
      else if ps_proxy_kind s = ''socks5'' then ''vpn'' else ''direct'')"

definition outbound_row :: "id \<Rightarrow> tenant_settings \<Rightarrow> network_access" where
  "outbound_row i s =
     \<lparr>na_id = i, na_company = ps_company s, na_kind = ''outbound'', na_mode = mode_of s, na_default = True, na_acs_url = None,
      na_gateway_host = ps_gateway_host s,
      na_pylon_socks5 = (if ps_dial_target s = ''gateway'' \<and> ps_proxy_kind s = ''socks5'' then ps_proxy_address s else None),
      na_vpn_socks5 = (if ps_dial_target s = ''device'' \<and> ps_proxy_kind s = ''socks5'' then ps_proxy_address s else None),
      na_auth_required = False\<rparr>"

definition acs_row :: "id \<Rightarrow> tenant_settings \<Rightarrow> network_access" where
  "acs_row i s =
     \<lparr>na_id = i, na_company = ps_company s, na_kind = ''acs'', na_mode = ''direct'', na_default = True, na_acs_url = ps_acs_url s,
      na_gateway_host = None, na_pylon_socks5 = None, na_vpn_socks5 = None, na_auth_required = ts_auth_required s\<rparr>"

fun number_rows :: "(id \<Rightarrow> 'a \<Rightarrow> 'r) \<Rightarrow> id \<Rightarrow> 'a list \<Rightarrow> 'r list" where
  "number_rows f n [] = []"
| "number_rows f n (x # xs) = f n x # number_rows f (Suc n) xs"

definition rebind :: "tenant_settings list \<Rightarrow> network_access list \<Rightarrow> bound_credential \<Rightarrow> bound_credential" where
  "rebind ss rows c =
     (case filter (\<lambda>s. ps_cwmp_credential s = Some (bc_id c) \<or> ts_pending s = Some (bc_id c)) ss of
        [] \<Rightarrow> c
      | s # _ \<Rightarrow>
          (case default_row ''acs'' rows (ps_company s) of
             None \<Rightarrow> c
           | Some a \<Rightarrow> c\<lparr>bc_access := Some (na_id a)\<rparr>))"

definition axis_downgrade :: "axis_db \<Rightarrow> axis_error + axis_db" where
  "axis_downgrade d =
     (let ss = ax_settings d; n = ax_next d;
          rows = number_rows outbound_row n ss @ number_rows acs_row (n + length ss) ss
      in guardR (\<not> (list_all access_check rows \<and> one_default rows)) ACCESS_CHECK (
         Inr (d\<lparr>ax_access := rows, ax_settings := map fresh_columns ss, ax_credentials := map (rebind ss rows) (ax_credentials d),
                ax_next := n + 2 * length ss\<rparr>)))"

section \<open>The constraints hold after the fold\<close>

definition access_ok :: "axis_db \<Rightarrow> bool" where
  \<comment> \<open>the constraints of the tables before the fold\<close>
  "access_ok d \<longleftrightarrow> list_all access_check (ax_access d) \<and> one_default (ax_access d) \<and>
     distinct (map ps_company (ax_settings d)) \<and> distinct (map bc_id (ax_credentials d))"

lemma default_rowD:
  "default_row kind rows c = Some a \<Longrightarrow> a \<in> set rows \<and> na_kind a = kind \<and> na_default a \<and> na_company a = c"
  by (auto simp: default_row_def find_Some_iff)

lemma fresh_fields [simp]:
  "ps_company (fresh_columns s) = ps_company s" "ts_enabled (fresh_columns s) = ts_enabled s" "ts_interval (fresh_columns s) = ts_interval s"
  "ps_cwmp_credential (fresh_columns s) = None" "ts_pending (fresh_columns s) = None"
  by (simp_all add: fresh_columns_def)

lemma fold_row_fields [simp]:
  "ps_company (fold_row rows s) = ps_company s" "ts_enabled (fold_row rows s) = ts_enabled s" "ts_interval (fold_row rows s) = ts_interval s"
  "ps_cwmp_credential (fold_row rows s) = ps_cwmp_credential s" "ts_pending (fold_row rows s) = ts_pending s"
  "ps_dial_target (fold_row rows s) = dial_target_of (default_row ''outbound'' rows (ps_company s))"
  "ps_proxy_kind (fold_row rows s) = proxy_kind_of (default_row ''outbound'' rows (ps_company s))"
  "ps_proxy_address (fold_row rows s) = proxy_address_of (default_row ''outbound'' rows (ps_company s))"
  "ps_gateway_host (fold_row rows s) = Option.bind (default_row ''outbound'' rows (ps_company s)) na_gateway_host"
  "ps_acs_url (fold_row rows s) = Option.bind (default_row ''acs'' rows (ps_company s)) na_acs_url"
  "ts_auth_required (fold_row rows s) = (case default_row ''acs'' rows (ps_company s) of None \<Rightarrow> False | Some a \<Rightarrow> na_auth_required a)"
  by (simp_all add: fold_row_def Let_def)

lemma new_settings_fields [simp]:
  "ps_company (new_settings c) = c" "\<not> ts_enabled (new_settings c)" "ts_interval (new_settings c) = None"
  "ps_cwmp_credential (new_settings c) = None" "ts_pending (new_settings c) = None"
  by (simp_all add: new_settings_def)

lemma pair_row_fields [simp]:
  "ps_company (pair_row d s) = ps_company s" "ts_enabled (pair_row d s) = ts_enabled s" "ts_interval (pair_row d s) = ts_interval s"
  "ps_dial_target (pair_row d s) = ps_dial_target s" "ps_proxy_kind (pair_row d s) = ps_proxy_kind s"
  "ps_proxy_address (pair_row d s) = ps_proxy_address s" "ps_gateway_host (pair_row d s) = ps_gateway_host s"
  "ps_acs_url (pair_row d s) = ps_acs_url s" "ts_auth_required (pair_row d s) = ts_auth_required s"
  by (auto simp: pair_row_def split: list.splits)

lemma ranked_distinct: "access_ok d \<Longrightarrow> distinct (map bc_id (ranked d c))"
  by (simp add: access_ok_def ranked_def rev_map[symmetric] distinct_map inj_on_def)

lemma ranked_mem: "c \<in> set (ranked d k) \<Longrightarrow> c \<in> set (ax_credentials d) \<and> bc_company c = k \<and> bc_kind c = ''HTTP_BASIC''"
  by (auto simp: ranked_def)

lemma axis_check_fold_row:
  assumes "list_all access_check rows" "ps_cwmp_credential s = None" "ts_pending s = None"
  shows "axis_check (fold_row rows s)"
proof (cases "default_row ''outbound'' rows (ps_company s)")
  case None
  then show ?thesis using assms by (simp add: axis_check_def dial_target_of_def proxy_kind_of_def)
next
  case (Some o')
  then have "access_check o'" using assms(1) default_rowD by (fastforce simp: list_all_iff)
  then show ?thesis
    using assms Some by (auto simp: axis_check_def access_check_def dial_target_of_def proxy_kind_of_def proxy_address_of_def)
qed

lemma axis_check_fresh: "axis_check (fresh_columns s)"
  by (simp add: axis_check_def fresh_columns_def)

lemma axis_check_pair:
  assumes "access_ok d" "axis_check s"
  shows "axis_check (pair_row d s)"
proof (cases "ranked d (ps_company s)")
  case (Cons c cs)
  with ranked_distinct [OF assms(1), of "ps_company s"] assms(2) show ?thesis
    by (auto simp: axis_check_def pair_row_def split: list.splits)
qed (use assms in \<open>simp add: pair_row_def\<close>)

definition folded :: "axis_db \<Rightarrow> tenant_settings list" where
  "folded d = map (pair_row d) (fold_settings (ax_access d) (map fresh_columns (ax_settings d)))"

lemma folded_mem:
  assumes "s \<in> set (folded d)"
  obtains s0 where "s = pair_row d (if ps_company s \<in> na_company ` set (ax_access d) then fold_row (ax_access d) s0 else s0)"
    and "ps_cwmp_credential s0 = None" "ts_pending s0 = None" "axis_check s0 \<or> ps_company s \<in> na_company ` set (ax_access d)"
    and "s0 \<in> fresh_columns ` set (ax_settings d) \<or> s0 = new_settings (ps_company s)"
proof -
  let ?C = "na_company ` set (ax_access d)"
  obtain t where t: "t \<in> set (fold_settings (ax_access d) (map fresh_columns (ax_settings d)))" and s: "s = pair_row d t"
    using assms by (auto simp: folded_def)
  from t consider r where "r \<in> set (ax_settings d)"
      "t = (if ps_company r \<in> ?C then fold_row (ax_access d) (fresh_columns r) else fresh_columns r)"
    | c where "c \<in> ?C" "t = fold_row (ax_access d) (new_settings c)"
    by (auto simp: fold_settings_def Let_def)
  then show ?thesis
  proof cases
    case 1
    then have "ps_company s = ps_company r" by (simp add: s)
    with 1 s show ?thesis by (intro that [of "fresh_columns r"]) (simp_all add: axis_check_fresh)
  next
    case 2
    then have "ps_company s = c" by (simp add: s)
    with 2 s show ?thesis by (intro that [of "new_settings c"]) simp_all
  qed
qed

lemma folded_checks: "access_ok d \<Longrightarrow> list_all axis_check (folded d)"
proof -
  assume ok: "access_ok d"
  have "axis_check s" if s: "s \<in> set (folded d)" for s
  proof -
    obtain s0 where s0: "s = pair_row d (if ps_company s \<in> na_company ` set (ax_access d) then fold_row (ax_access d) s0 else s0)"
      "ps_cwmp_credential s0 = None" "ts_pending s0 = None" "axis_check s0 \<or> ps_company s \<in> na_company ` set (ax_access d)"
      using folded_mem [OF s] by blast
    have "axis_check (if ps_company s \<in> na_company ` set (ax_access d) then fold_row (ax_access d) s0 else s0)"
      using axis_check_fold_row [of "ax_access d" s0] ok s0(2-4) by (auto simp: access_ok_def)
    then show ?thesis using axis_check_pair [OF ok] s0(1) by metis
  qed
  then show ?thesis by (simp add: list_all_iff)
qed

lemma axis_upgrade_iff:
  "access_ok d \<Longrightarrow> axis_upgrade d =
     (if list_ex (\<lambda>a. na_mode a = ''tunnel'') (ax_access d)
      then Inl (TUNNEL_ROWS (length (filter (\<lambda>a. na_mode a = ''tunnel'') (ax_access d))))
      else Inr (d\<lparr>ax_settings := folded d, ax_access := [],
                  ax_credentials := map (\<lambda>c. c\<lparr>bc_access := None\<rparr>) (ax_credentials d)\<rparr>))"
  using folded_checks [of d] by (auto simp: axis_upgrade_def Let_def guardR_def folded_def filter_empty_conv list_ex_iff)

section \<open>What the modes meant\<close>

definition old_hop :: "network_access option \<Rightarrow> string option" where
  \<comment> \<open>the proxy a mode dials through\<close>
  "old_hop a =
     (case a of
        None \<Rightarrow> None
      | Some o' \<Rightarrow> if na_mode o' = ''nat_zt'' then Some (stripped (na_pylon_socks5 o'))
                 else if na_mode o' = ''vpn'' then Some (stripped (na_vpn_socks5 o')) else None)"

definition old_host :: "network_access option \<Rightarrow> item \<Rightarrow> string" where
  \<comment> \<open>whose address a mode dials\<close>
  "old_host a it =
     (if a \<noteq> None \<and> na_mode (the a) \<in> {''nat_zt'', ''nat_public''} then stripped (na_gateway_host (the a))
      else stripped (it_mgmt_host it))"

lemma truncate_fields [simp]:
  "ps_dial_target (settings.truncate s) = ps_dial_target s" "ps_proxy_kind (settings.truncate s) = ps_proxy_kind s"
  "ps_proxy_address (settings.truncate s) = ps_proxy_address s" "ps_gateway_host (settings.truncate s) = ps_gateway_host s"
  by (simp_all add: settings.truncate_def)

lemma no_default_row: "c \<notin> na_company ` set rows \<Longrightarrow> default_row kind rows c = None"
  by (force simp: default_row_def find_None_iff)

lemma folded_transport:
  assumes "s \<in> set (folded d)"
  defines "a \<equiv> default_row ''outbound'' (ax_access d) (ps_company s)"
  shows "ps_dial_target s = dial_target_of a" "ps_proxy_kind s = proxy_kind_of a" "ps_proxy_address s = proxy_address_of a"
    "ps_gateway_host s = Option.bind a na_gateway_host"
    "ps_acs_url s = Option.bind (default_row ''acs'' (ax_access d) (ps_company s)) na_acs_url"
    "ts_auth_required s = (case default_row ''acs'' (ax_access d) (ps_company s) of None \<Rightarrow> False | Some b \<Rightarrow> na_auth_required b)"
proof -
  obtain s0 where s0: "s = pair_row d (if ps_company s \<in> na_company ` set (ax_access d) then fold_row (ax_access d) s0 else s0)"
    "s0 \<in> fresh_columns ` set (ax_settings d) \<or> s0 = new_settings (ps_company s)"
    using folded_mem [OF assms(1)] by blast
  have n: "a = None" "default_row ''acs'' (ax_access d) (ps_company s) = None" if "ps_company s \<notin> na_company ` set (ax_access d)"
    using no_default_row [OF that] by (simp_all add: a_def)
  have f: "ps_dial_target s0 = ''device''" "ps_proxy_kind s0 = ''none''" "ps_proxy_address s0 = None" "ps_gateway_host s0 = None"
    "ps_acs_url s0 = None" "\<not> ts_auth_required s0"
    using s0(2) by (auto simp: fresh_columns_def new_settings_def)
  have c: "ps_company s0 = ps_company s" using arg_cong [OF s0(1), of ps_company] by (simp split: if_splits)
  show "ps_dial_target s = dial_target_of a"
    using arg_cong [OF s0(1), of ps_dial_target] f n c by (auto simp: a_def dial_target_of_def split: if_splits)
  show "ps_proxy_kind s = proxy_kind_of a"
    using arg_cong [OF s0(1), of ps_proxy_kind] f n c by (auto simp: a_def proxy_kind_of_def split: if_splits)
  show "ps_proxy_address s = proxy_address_of a"
    using arg_cong [OF s0(1), of ps_proxy_address] f n c by (auto simp: a_def proxy_address_of_def split: if_splits)
  show "ps_gateway_host s = Option.bind a na_gateway_host"
    using arg_cong [OF s0(1), of ps_gateway_host] f n c by (auto simp: a_def split: if_splits)
  show "ps_acs_url s = Option.bind (default_row ''acs'' (ax_access d) (ps_company s)) na_acs_url"
    using arg_cong [OF s0(1), of ps_acs_url] f n c by (auto split: if_splits)
  show "ts_auth_required s = (case default_row ''acs'' (ax_access d) (ps_company s) of None \<Rightarrow> False | Some b \<Rightarrow> na_auth_required b)"
    using arg_cong [OF s0(1), of ts_auth_required] f n c by (auto split: if_splits)
qed

lemma folded_enabled:
  assumes "s \<in> set (folded d)" "ts_enabled s"
  shows "\<exists>r\<in>set (ax_settings d). ps_company r = ps_company s \<and> ts_enabled r"
proof -
  obtain s0 where s0: "s = pair_row d (if ps_company s \<in> na_company ` set (ax_access d) then fold_row (ax_access d) s0 else s0)"
    "s0 \<in> fresh_columns ` set (ax_settings d) \<or> s0 = new_settings (ps_company s)"
    using folded_mem [OF assms(1)] by blast
  have "ps_company s0 = ps_company s" "ts_enabled s0 = ts_enabled s"
    using arg_cong [OF s0(1), of ps_company] arg_cong [OF s0(1), of ts_enabled] by (simp_all split: if_splits)
  with s0(2) assms(2) show ?thesis by auto
qed

text \<open>
  C18. The fold keeps what a tenant's mode meant and opens nothing: with the folded settings a device is reached at the
  address its tenant's default outbound row meant, through the proxy that row meant and never without one it requires
  (an empty address refuses), and provisioning is on only where it was. The constraints of the new columns hold.
\<close>

theorem fold_keeps_transport:
  assumes "access_ok d" and "axis_upgrade d = Inr d'" and "s \<in> set (ax_settings d')"
    and "resolve_with it port (Some (settings.truncate s)) = Inr e"
  shows "ep_host e = old_host (default_row ''outbound'' (ax_access d) (ps_company s)) it \<and> ep_host e \<noteq> [] \<and>
    ep_proxy e = old_hop (default_row ''outbound'' (ax_access d) (ps_company s)) \<and> ep_proxy e \<noteq> Some [] \<and>
    (ts_enabled s \<longrightarrow> (\<exists>r\<in>set (ax_settings d). ps_company r = ps_company s \<and> ts_enabled r)) \<and> axis_check s"
proof -
  let ?a = "default_row ''outbound'' (ax_access d) (ps_company s)"
  have d': "ax_settings d' = folded d" using axis_upgrade_iff [OF assms(1)] assms(2) by (auto split: if_splits)
  with assms(3) have s: "s \<in> set (folded d)" by simp
  note t = folded_transport [OF s]
  note r = resolve_with_cases [OF assms(4)]
  have "ep_host e = old_host ?a it"
    using r t by (cases ?a) (auto simp: old_host_def dial_target_of_def split: if_splits)
  moreover have "ep_proxy e = old_hop ?a \<and> ep_proxy e \<noteq> Some []"
    using r t by (cases ?a) (auto simp: old_hop_def proxy_of_def proxy_missing_def proxy_kind_of_def proxy_address_of_def split: if_splits)
  moreover have "axis_check s" using folded_checks [OF assms(1)] s by (simp add: list_all_iff)
  ultimately show ?thesis using r folded_enabled [OF s] by blast
qed

section \<open>There and back\<close>

lemma folded_companies: "map ps_company (folded d) = map ps_company (ax_settings d) @
    filter (\<lambda>c. c \<notin> ps_company ` set (ax_settings d)) (dedup (map na_company (ax_access d)))"
  by (simp add: folded_def fold_settings_def Let_def o_def if_distrib image_image cong: if_cong)

lemma folded_distinct: "access_ok d \<Longrightarrow> distinct (map ps_company (folded d))"
  unfolding folded_companies by (auto simp: access_ok_def)

lemma map_number_rows: "(\<And>i x. h (f i x) = g x) \<Longrightarrow> map h (number_rows f n xs) = map g xs"
  by (induction xs arbitrary: n) auto

lemma number_rows_mem: "x \<in> set xs \<Longrightarrow> \<exists>i. f i x \<in> set (number_rows f n xs)"
  by (induction xs arbitrary: n) auto

lemma number_rows_all: "(\<And>i x. x \<in> set xs \<Longrightarrow> P (f i x)) \<Longrightarrow> list_all P (number_rows f n xs)"
  by (induction xs arbitrary: n) auto

lemma default_row_unique:
  assumes "one_default rows" "a \<in> set rows" "na_default a"
  shows "default_row (na_kind a) rows (na_company a) = Some a"
  using assms
proof (induction rows)
  case (Cons b rows)
  then show ?case by (auto simp: one_default_def default_row_def image_iff split: if_splits)
qed simp

definition restored :: "id \<Rightarrow> tenant_settings list \<Rightarrow> network_access list" where
  "restored n ss = number_rows outbound_row n ss @ number_rows acs_row (n + length ss) ss"

lemma restored_one_default:
  assumes "distinct (map ps_company ss)"
  shows "one_default (restored n ss)"
proof -
  have all: "filter na_default (restored n ss) = restored n ss"
    using number_rows_all [of ss na_default outbound_row n] number_rows_all [of ss na_default acs_row "n + length ss"]
    by (simp add: restored_def list_all_iff outbound_row_def acs_row_def)
  have m: "map (\<lambda>a. (na_company a, na_kind a)) (restored n ss) =
      map (\<lambda>s. (ps_company s, ''outbound'')) ss @ map (\<lambda>s. (ps_company s, ''acs'')) ss"
    by (simp add: restored_def map_number_rows outbound_row_def acs_row_def)
  show ?thesis using assms unfolding one_default_def all m by (auto simp: distinct_map inj_on_def)
qed

lemma restored_checks: "list_all axis_check ss \<Longrightarrow> list_all access_check (restored n ss)"
proof -
  assume ok: "list_all axis_check ss"
  have "access_check (outbound_row i s)" "access_check (acs_row i s)" if "s \<in> set ss" for i s
    using ok that by (auto simp: list_all_iff axis_check_def access_check_def outbound_row_def acs_row_def mode_of_def)
  then show ?thesis unfolding restored_def list_all_append by (intro conjI number_rows_all)
qed

lemma restored_rows:
  assumes "distinct (map ps_company ss)" "s \<in> set ss"
  shows "\<exists>i. default_row ''outbound'' (restored n ss) (ps_company s) = Some (outbound_row i s)"
    and "\<exists>i. default_row ''acs'' (restored n ss) (ps_company s) = Some (acs_row i s)"
proof -
  obtain i j where "outbound_row i s \<in> set (restored n ss)" "acs_row j s \<in> set (restored n ss)"
    using number_rows_mem [OF assms(2)] unfolding restored_def set_append by blast
  then show "\<exists>i. default_row ''outbound'' (restored n ss) (ps_company s) = Some (outbound_row i s)"
    "\<exists>i. default_row ''acs'' (restored n ss) (ps_company s) = Some (acs_row i s)"
    using default_row_unique [OF restored_one_default [OF assms(1)], of "outbound_row i s" n]
      default_row_unique [OF restored_one_default [OF assms(1)], of "acs_row j s" n]
    by (auto simp: outbound_row_def acs_row_def)
qed

lemma downgrade_folded:
  assumes "list_all axis_check (ax_settings e)" "distinct (map ps_company (ax_settings e))"
  shows "axis_downgrade e = Inr (e\<lparr>ax_access := restored (ax_next e) (ax_settings e), ax_settings := map fresh_columns (ax_settings e),
      ax_credentials := map (rebind (ax_settings e) (restored (ax_next e) (ax_settings e))) (ax_credentials e),
      ax_next := ax_next e + 2 * length (ax_settings e)\<rparr>)"
  using restored_checks [OF assms(1)] restored_one_default [OF assms(2)]
  by (simp add: axis_downgrade_def Let_def flip: restored_def)

lemma rebind_fields [simp]: "bc_id (rebind ss rows c) = bc_id c" "bc_company (rebind ss rows c) = bc_company c"
    "bc_kind (rebind ss rows c) = bc_kind c" "bc_created (rebind ss rows c) = bc_created c"
  by (auto simp: rebind_def split: list.splits option.splits)

lemma sort_key_map_same: "(\<And>x. k (g x) = k x) \<Longrightarrow> sort_key k (map g xs) = map g (sort_key k xs)"
proof (induction xs)
  case (Cons x xs)
  have "insort_key k (g x) (map g ys) = map g (insort_key k x ys)" for ys using Cons.prems by (induction ys) auto
  with Cons show ?case by simp
qed simp

lemma filter_first_two: "distinct (map f xs) \<Longrightarrow> filter (\<lambda>x. f x \<in> f ` set (take 2 xs)) xs = take 2 xs"
  by (cases xs; cases "tl xs") (auto simp: filter_empty_conv image_iff)

lemma folded_pair:
  assumes "s \<in> set (folded d)"
  shows "ps_cwmp_credential s = (case ranked d (ps_company s) of [] \<Rightarrow> None | c # _ \<Rightarrow> Some (bc_id c))"
    and "ts_pending s = (case ranked d (ps_company s) of _ # c # _ \<Rightarrow> Some (bc_id c) | _ \<Rightarrow> None)"
proof -
  obtain s0 where s0: "s = pair_row d (if ps_company s \<in> na_company ` set (ax_access d) then fold_row (ax_access d) s0 else s0)"
    "ps_cwmp_credential s0 = None" "ts_pending s0 = None" using folded_mem [OF assms] by blast
  define t where "t = (if ps_company s \<in> na_company ` set (ax_access d) then fold_row (ax_access d) s0 else s0)"
  have t: "s = pair_row d t" "ps_cwmp_credential t = None" "ts_pending t = None" using s0 by (auto simp: t_def)
  then have "ps_company t = ps_company s" by simp
  then show "ps_cwmp_credential s = (case ranked d (ps_company s) of [] \<Rightarrow> None | c # _ \<Rightarrow> Some (bc_id c))"
    "ts_pending s = (case ranked d (ps_company s) of _ # c # _ \<Rightarrow> Some (bc_id c) | _ \<Rightarrow> None)"
    using t arg_cong [OF t(1), of ps_cwmp_credential] arg_cong [OF t(1), of ts_pending]
    by (auto simp: pair_row_def split: list.splits)
qed

lemma pair_ids:
  assumes "s \<in> set (folded d)"
  shows "ps_cwmp_credential s = Some i \<or> ts_pending s = Some i \<longleftrightarrow> i \<in> bc_id ` set (take 2 (ranked d (ps_company s)))"
  using folded_pair [OF assms] by (auto split: list.splits)

definition unbound :: "bound_credential \<Rightarrow> bound_credential" where
  "unbound c = c\<lparr>bc_access := None\<rparr>"

lemma unbound_fields [simp]: "bc_id (unbound c) = bc_id c" "bc_company (unbound c) = bc_company c" "bc_kind (unbound c) = bc_kind c"
    "bc_created (unbound c) = bc_created c" "bc_access (unbound c) = None"
  by (simp_all add: unbound_def)

definition is_inform :: "axis_db \<Rightarrow> id \<Rightarrow> bound_credential \<Rightarrow> bool" where
  \<comment> \<open>the condition of \<open>ranked\<close>\<close>
  "is_inform d company c \<longleftrightarrow> bc_company c = company \<and> bc_kind c = ''HTTP_BASIC'' \<and>
     list_ex (\<lambda>a. bc_access c = Some (na_id a) \<and> na_kind a = ''acs'' \<and> na_default a) (ax_access d)"

lemma ranked_inform: "ranked d company = rev (sort_key (\<lambda>c. (bc_created c, bc_id c)) (filter (is_inform d company) (ax_credentials d)))"
  by (simp add: ranked_def is_inform_def cong: filter_cong)

lemma rebound_iff:
  assumes ok: "access_ok d" and s: "s \<in> set (folded d)" and c: "c \<in> set (ax_credentials d)" and rows: "rows = restored n (folded d)"
    and e: "ax_access e = rows"
  shows "is_inform e (ps_company s) (rebind (folded d) rows (unbound c)) \<longleftrightarrow>
    is_inform d (ps_company s) c \<and> bc_id c \<in> bc_id ` set (take 2 (ranked d (ps_company s)))"
proof -
  let ?P = "\<lambda>s. ps_cwmp_credential s = Some (bc_id c) \<or> ts_pending s = Some (bc_id c)"
  let ?r = "rebind (folded d) rows (unbound c)"
  have own: "is_inform d (ps_company s') c" if s': "s' \<in> set (folded d)" "?P s'" for s'
  proof -
    from pair_ids [OF s'(1)] s'(2) obtain c' where c': "c' \<in> set (take 2 (ranked d (ps_company s')))" "bc_id c' = bc_id c" by auto
    then have r: "c' \<in> set (ranked d (ps_company s'))" by (meson in_set_takeD)
    then have "c' = c" using ok c c'(2) ranked_mem [OF r] by (auto simp: access_ok_def distinct_map inj_on_def)
    with r show ?thesis by (simp add: ranked_inform)
  qed
  have acs: "\<exists>j. default_row ''acs'' rows (ps_company s') = Some (acs_row j s')" if "s' \<in> set (folded d)" for s'
    using restored_rows(2) [OF folded_distinct [OF ok] that] rows by blast
  have bound: "list_ex (\<lambda>a. bc_access ?r = Some (na_id a) \<and> na_kind a = ''acs'' \<and> na_default a) rows \<longleftrightarrow> (\<exists>s'\<in>set (folded d). ?P s')"
  proof (cases "filter ?P (folded d)")
    case Nil
    then show ?thesis by (auto simp: rebind_def filter_empty_conv list_ex_iff)
  next
    case (Cons s' ss)
    then have s': "s' \<in> set (folded d)" "?P s'" by (auto simp: filter_eq_Cons_iff)
    obtain j where j: "default_row ''acs'' rows (ps_company s') = Some (acs_row j s')" using acs [OF s'(1)] by blast
    then have "bc_access ?r = Some j" using Cons by (simp add: rebind_def acs_row_def)
    moreover have "acs_row j s' \<in> set rows" using default_rowD [OF j] by blast
    ultimately show ?thesis using s' by (auto simp: list_ex_iff acs_row_def intro!: bexI [of _ "acs_row j s'"])
  qed
  show ?thesis
  proof
    assume i: "is_inform e (ps_company s) ?r"
    then obtain s' where s': "s' \<in> set (folded d)" "?P s'" using bound by (auto simp: is_inform_def e)
    with own have "is_inform d (ps_company s') c" by blast
    moreover from this i have "ps_company s' = ps_company s" by (simp add: is_inform_def)
    ultimately show "is_inform d (ps_company s) c \<and> bc_id c \<in> bc_id ` set (take 2 (ranked d (ps_company s)))"
      using pair_ids [OF s'(1), of "bc_id c"] s'(2) by simp
  next
    assume i: "is_inform d (ps_company s) c \<and> bc_id c \<in> bc_id ` set (take 2 (ranked d (ps_company s)))"
    then have "?P s" using pair_ids [OF s] by blast
    with i s bound show "is_inform e (ps_company s) ?r" by (auto simp: is_inform_def e)
  qed
qed

lemma ranked_again:
  assumes ok: "access_ok d" and s: "s \<in> set (folded d)" and rows: "ax_access e = restored n (folded d)"
    and c: "ax_credentials e = map (rebind (folded d) (restored n (folded d))) (map unbound (ax_credentials d))"
  shows "map bc_id (ranked e (ps_company s)) = map bc_id (take 2 (ranked d (ps_company s)))"
proof -
  let ?g = "rebind (folded d) (restored n (folded d)) \<circ> unbound" and ?k = "\<lambda>c. (bc_created c, bc_id c)"
  let ?two = "\<lambda>c. bc_id c \<in> bc_id ` set (take 2 (ranked d (ps_company s)))"
  have "filter (is_inform e (ps_company s)) (ax_credentials e) = map ?g (filter (\<lambda>c. is_inform e (ps_company s) (?g c)) (ax_credentials d))"
    by (simp add: c filter_map o_def)
  also have "filter (\<lambda>c. is_inform e (ps_company s) (?g c)) (ax_credentials d) =
      filter (\<lambda>c. is_inform d (ps_company s) c \<and> ?two c) (ax_credentials d)"
    using rebound_iff [OF ok s _ refl rows] by (intro filter_cong) simp_all
  also have "\<dots> = filter ?two (filter (is_inform d (ps_company s)) (ax_credentials d))" by (simp add: conj_commute)
  finally have *: "filter (is_inform e (ps_company s)) (ax_credentials e) =
      map ?g (filter ?two (filter (is_inform d (ps_company s)) (ax_credentials d)))" .
  have "ranked e (ps_company s) = rev (sort_key ?k (map ?g (filter ?two (filter (is_inform d (ps_company s)) (ax_credentials d)))))"
    unfolding ranked_inform [of e] * ..
  also have "\<dots> = map ?g (filter ?two (rev (sort_key ?k (filter (is_inform d (ps_company s)) (ax_credentials d)))))"
    by (simp only: sort_key_map_same [of ?k ?g, simplified] rev_map rev_filter filter_sort [symmetric])
  also have "\<dots> = map ?g (take 2 (ranked d (ps_company s)))"
    unfolding ranked_inform [of d, symmetric] using filter_first_two [OF ranked_distinct [OF ok]] by simp
  finally show ?thesis by (simp add: o_def)
qed

lemma refold_row:
  assumes s: "axis_check s" "ps_proxy_kind s = ''socks5'' \<or> ps_proxy_address s = None"
    and rows: "default_row ''outbound'' rows (ps_company s) = Some (outbound_row i s)" "default_row ''acs'' rows (ps_company s) = Some (acs_row j s)"
    and pair: "ps_cwmp_credential s = (case map bc_id (ranked e (ps_company s)) of [] \<Rightarrow> None | c # _ \<Rightarrow> Some c)"
      "ts_pending s = (case map bc_id (ranked e (ps_company s)) of _ # c # _ \<Rightarrow> Some c | _ \<Rightarrow> None)"
  shows "pair_row e (fold_row rows (fresh_columns (fresh_columns s))) = s"
proof -
  let ?t = "fold_row rows (fresh_columns (fresh_columns s))"
  have "ps_dial_target ?t = ps_dial_target s" "ps_proxy_kind ?t = ps_proxy_kind s" "ps_proxy_address ?t = ps_proxy_address s"
    using s by (auto simp: rows dial_target_of_def proxy_kind_of_def proxy_address_of_def outbound_row_def mode_of_def axis_check_def)
  moreover have "ps_gateway_host ?t = ps_gateway_host s" "ps_acs_url ?t = ps_acs_url s" "ts_auth_required ?t = ts_auth_required s"
    by (simp_all add: rows outbound_row_def acs_row_def)
  moreover have "ps_cwmp_credential (pair_row e ?t) = ps_cwmp_credential s" "ts_pending (pair_row e ?t) = ts_pending s"
    using pair by (auto simp: pair_row_def split: list.splits)
  ultimately show ?thesis by (intro tenant_settings.equality settings.equality) simp_all
qed

lemma refolded:
  assumes ok: "access_ok d" and e: "ax_access e = restored n (folded d)" "ax_settings e = map fresh_columns (folded d)"
      "ax_credentials e = map (rebind (folded d) (restored n (folded d))) (map unbound (ax_credentials d))"
  shows "folded e = folded d"
proof -
  have "ps_company s \<in> na_company ` set (restored n (folded d))" if s: "s \<in> set (folded d)" for s
  proof -
    obtain i where "default_row ''acs'' (restored n (folded d)) (ps_company s) = Some (acs_row i s)"
      using restored_rows(2) [OF folded_distinct [OF ok] s] by blast
    then show ?thesis using default_rowD by (metis imageI)
  qed
  moreover have "filter (\<lambda>c. c \<notin> ps_company ` set (folded d)) (dedup (map na_company (restored n (folded d)))) = []"
  proof -
    have "map na_company (restored n (folded d)) = map ps_company (folded d) @ map ps_company (folded d)"
      by (simp add: restored_def map_number_rows outbound_row_def acs_row_def)
    from arg_cong [OF this, of set] show ?thesis by (auto simp: filter_empty_conv)
  qed
  ultimately have "folded e = map (\<lambda>s. pair_row e (fold_row (restored n (folded d)) (fresh_columns (fresh_columns s)))) (folded d)"
    by (simp add: folded_def [of e] fold_settings_def Let_def e o_def image_image)
  also have "\<dots> = folded d"
  proof (rule map_idI)
    fix s assume s: "s \<in> set (folded d)"
    note r = restored_rows [OF folded_distinct [OF ok] s, of n] and a = ranked_again [OF ok s e(1,3)] and p = folded_pair [OF s]
    obtain i j where "default_row ''outbound'' (restored n (folded d)) (ps_company s) = Some (outbound_row i s)"
      "default_row ''acs'' (restored n (folded d)) (ps_company s) = Some (acs_row j s)" using r by blast
    moreover have "axis_check s" using folded_checks [OF ok] s by (simp add: list_all_iff)
    moreover have "ps_proxy_kind s = ''socks5'' \<or> ps_proxy_address s = None"
      using folded_transport(2,3) [OF s] by (auto simp: proxy_kind_of_def proxy_address_of_def split: option.splits)
    ultimately show "pair_row e (fold_row (restored n (folded d)) (fresh_columns (fresh_columns s))) = s"
      using p by (intro refold_row) (auto simp: a numeral_2_eq_2 split: list.splits)
  qed
  finally show ?thesis .
qed

text \<open>
  C19. The downgrade undoes the fold and the fold takes it back: after an upgrade the downgrade goes through and recreates for every tenant
  its default outbound row with its mode, its gateway and the proxy that mode uses, and its default row for the ACS; upgrading again
  gives the settings of the first upgrade, the pair of Inform credentials included.
\<close>

theorem fold_round_trip:
  assumes "access_ok d" and "axis_upgrade d = Inr d1"
  shows "\<exists>d2. axis_downgrade d1 = Inr d2 \<and> axis_upgrade d2 = Inr (d1\<lparr>ax_next := ax_next d2\<rparr>) \<and>
    (\<forall>c a. default_row ''outbound'' (ax_access d) c = Some a \<longrightarrow>
       (\<exists>b. default_row ''outbound'' (ax_access d2) c = Some b \<and> na_mode b = na_mode a \<and> na_gateway_host b = na_gateway_host a \<and>
          old_hop (Some b) = old_hop (Some a))) \<and>
    (\<forall>c a. default_row ''acs'' (ax_access d) c = Some a \<longrightarrow>
       (\<exists>b. default_row ''acs'' (ax_access d2) c = Some b \<and> na_acs_url b = na_acs_url a \<and> na_auth_required b = na_auth_required a))"
proof -
  let ?ss = "folded d" and ?n = "ax_next d"
  have no: "\<not> list_ex (\<lambda>a. na_mode a = ''tunnel'') (ax_access d)"
    and d1: "d1 = d\<lparr>ax_settings := ?ss, ax_access := [], ax_credentials := map unbound (ax_credentials d)\<rparr>"
    using axis_upgrade_iff [OF assms(1)] assms(2) by (auto simp: unbound_def split: if_splits)
  note dist = folded_distinct [OF assms(1)] and chk = folded_checks [OF assms(1)]
  let ?rows = "restored ?n ?ss"
  let ?d2 = "d1\<lparr>ax_access := ?rows, ax_settings := map fresh_columns ?ss,
      ax_credentials := map (rebind ?ss ?rows) (map unbound (ax_credentials d)), ax_next := ?n + 2 * length ?ss\<rparr>"
  have down: "axis_downgrade d1 = Inr ?d2" using downgrade_folded [of d1] dist chk by (simp add: d1)
  have ok2: "access_ok ?d2"
    using restored_checks [OF chk] restored_one_default [OF dist] dist assms(1) by (simp add: access_ok_def o_def)
  have "list_all (\<lambda>a. na_mode a \<noteq> ''tunnel'') ?rows"
    by (simp add: restored_def number_rows_all outbound_row_def acs_row_def mode_of_def)
  then have "axis_upgrade ?d2 = Inr (?d2\<lparr>ax_settings := folded ?d2, ax_access := [],
      ax_credentials := map (\<lambda>c. c\<lparr>bc_access := None\<rparr>) (ax_credentials ?d2)\<rparr>)"
    unfolding axis_upgrade_iff [OF ok2] by (simp add: list_all_iff list_ex_iff)
  moreover have "folded ?d2 = ?ss" using refolded [OF assms(1), of ?d2 ?n] by simp
  moreover have "(rebind ?ss ?rows (unbound c))\<lparr>bc_access := None\<rparr> = unbound c" for c
    by (auto simp: rebind_def unbound_def split: list.splits option.splits)
  ultimately have up: "axis_upgrade ?d2 = Inr (d1\<lparr>ax_next := ax_next ?d2\<rparr>)" by (simp add: d1 o_def)
  have tenant: "\<exists>s\<in>set ?ss. ps_company s = c" if "default_row kind (ax_access d) c = Some a" for kind c a
  proof -
    have "c \<in> set (map ps_company ?ss)" using default_rowD [OF that] unfolding folded_companies by auto
    then show ?thesis by auto
  qed
  have "\<exists>b. default_row ''outbound'' ?rows c = Some b \<and> na_mode b = na_mode a \<and> na_gateway_host b = na_gateway_host a \<and>
      old_hop (Some b) = old_hop (Some a)" if a: "default_row ''outbound'' (ax_access d) c = Some a" for c a
  proof -
    obtain s where s: "s \<in> set ?ss" "ps_company s = c" using tenant [OF a] by blast
    obtain i where b: "default_row ''outbound'' ?rows c = Some (outbound_row i s)" using restored_rows(1) [OF dist s(1)] s(2) by blast
    note t = folded_transport [OF s(1), unfolded s(2) a]
    have "access_check a" "na_mode a \<noteq> ''tunnel''"
      using default_rowD [OF a] assms(1) no by (auto simp: access_ok_def list_all_iff list_ex_iff)
    then have "na_mode (outbound_row i s) = na_mode a"
      using t by (auto simp: access_check_def outbound_row_def mode_of_def dial_target_of_def proxy_kind_of_def)
    moreover from this have "old_hop (Some (outbound_row i s)) = old_hop (Some a)"
      using t by (auto simp: old_hop_def outbound_row_def proxy_address_of_def dial_target_of_def proxy_kind_of_def)
    ultimately show ?thesis using b t(4) by (simp add: outbound_row_def)
  qed
  moreover have "\<exists>b. default_row ''acs'' ?rows c = Some b \<and> na_acs_url b = na_acs_url a \<and> na_auth_required b = na_auth_required a"
    if a: "default_row ''acs'' (ax_access d) c = Some a" for c a
  proof -
    obtain s where s: "s \<in> set ?ss" "ps_company s = c" using tenant [OF a] by blast
    obtain i where "default_row ''acs'' ?rows c = Some (acs_row i s)" using restored_rows(2) [OF dist s(1)] s(2) by blast
    then show ?thesis using folded_transport(5,6) [OF s(1), unfolded s(2) a] by (simp add: acs_row_def)
  qed
  ultimately show ?thesis using down up by (intro exI [of _ ?d2]) simp
qed

definition example_axis :: axis_db where
  "example_axis =
     \<lparr>ax_access =
        [\<lparr>na_id = 1, na_company = 7, na_kind = ''outbound'', na_mode = ''nat_zt'', na_default = True, na_acs_url = None,
          na_gateway_host = Some ''10.0.0.1'', na_pylon_socks5 = Some ''pylon:1080'', na_vpn_socks5 = None, na_auth_required = False\<rparr>,
         \<lparr>na_id = 2, na_company = 7, na_kind = ''acs'', na_mode = ''direct'', na_default = True, na_acs_url = Some ''https://acs'',
          na_gateway_host = None, na_pylon_socks5 = None, na_vpn_socks5 = None, na_auth_required = True\<rparr>],
      ax_settings = [],
      ax_credentials = [\<lparr>bc_id = 3, bc_company = 7, bc_kind = ''HTTP_BASIC'', bc_created = 5, bc_access = Some 2\<rparr>,
        \<lparr>bc_id = 4, bc_company = 7, bc_kind = ''HTTP_BASIC'', bc_created = 6, bc_access = Some 2\<rparr>], ax_next = 5\<rparr>"

definition example_device :: item where
  "example_device = \<lparr>it_id = 9, it_company = 7, it_mgmt_host = Some ''192.168.1.2'', it_mgmt_port = None, it_nat_port = Some 2201,
     it_check_at = None, it_check_ok = None\<rparr>"

definition example_folded :: tenant_settings where
  "example_folded =
     \<lparr>ps_company = 7, ps_acs_url = Some ''https://acs'', ps_cwmp_credential = Some 4, ps_dial_target = ''gateway'',
      ps_gateway_host = Some ''10.0.0.1'', ps_proxy_kind = ''socks5'', ps_proxy_address = Some ''pylon:1080'', ts_enabled = False,
      ts_interval = None, ts_auth_required = True, ts_pending = Some 3\<rparr>"

lemma example_upgraded: "\<exists>d. axis_upgrade example_axis = Inr d \<and> ax_settings d = [example_folded]"
proof -
  have "(case axis_upgrade example_axis of Inl _ \<Rightarrow> False | Inr d \<Rightarrow> ax_settings d = [example_folded])" by code_simp
  then show ?thesis by (auto split: sum.splits)
qed

lemma example_access_ok: "access_ok example_axis"
  by code_simp

theorem fold_keeps_transport_witness:
  "\<exists>e. resolve_with example_device 22 (Some (settings.truncate example_folded)) = Inr e \<and> ep_host e = ''10.0.0.1'' \<and>
     ep_proxy e = old_hop (default_row ''outbound'' (ax_access example_axis) 7) \<and> ep_proxy e \<noteq> Some []"
proof -
  obtain d where d: "axis_upgrade example_axis = Inr d" "ax_settings d = [example_folded]" using example_upgraded by blast
  have r: "resolve_with example_device 22 (Some (settings.truncate example_folded)) =
      Inr \<lparr>ep_host = ''10.0.0.1'', ep_port = 2201, ep_proxy = Some ''pylon:1080'', ep_dial_target = ''gateway''\<rparr>" by code_simp
  have "ps_company example_folded = 7" by (simp add: example_folded_def)
  with fold_keeps_transport [OF example_access_ok d(1) _ r] d(2)
  have "old_hop (default_row ''outbound'' (ax_access example_axis) 7) = Some ''pylon:1080''" by simp
  with r show ?thesis by simp
qed

theorem fold_round_trip_witness:
  "\<exists>d1 d2. axis_upgrade example_axis = Inr d1 \<and> axis_downgrade d1 = Inr d2 \<and> axis_upgrade d2 = Inr (d1\<lparr>ax_next := ax_next d2\<rparr>) \<and>
     ax_settings d1 = [example_folded]"
  using example_upgraded fold_round_trip [OF example_access_ok] by blast

end
