(* ===== verification/Spec2Isabelle.thy ===== *)
theory Spec2Isabelle
  imports Run_Properties Playbook_Template Network_Graph Workflow_Properties Tier_Limits Schema_Reload Inventory_Schema
    Outbound_Guard Connectivity Credential_Crypto Service_History Billing_Backfill Transport_Axis
begin

text \<open>
  A verification library for \<open>database_utils\<close>, the package of models and utilities that the services of an internet
  provider's ERP share. The package keeps the rows of a tenant (its clients and their services, the plant of network
  devices, the playbooks that configure them), decides who may do what, and drives the changes a device goes through.

  \<^bold>\<open>The parts and how they meet.\<close> A playbook is a tenant's recipe for a device. \<open>schemas/playbook.py\<close> validates it when it
  is saved, \<open>utils/playbook_template.py\<close> and \<open>utils/playbook_expr.py\<close> give its tokens and its arithmetic a meaning, and
  \<open>utils/playbook_render.py\<close> turns a step into what is sent. When a service is activated or changed,
  \<open>utils/provisioning_resolution.py\<close> walks the plant from the client's device to the root, picks a playbook for
  every device and computes the variables of each. \<open>utils/provisioning_runs.py\<close> makes a run of it: children are queued one
  at a time, in plan order, and rolled back newest first when one fails. \<open>utils/provisioning_jobs.py\<close> settles a child and
  advances its run; \<open>utils/provisioning_gates.py\<close>, \<open>utils/transport.py\<close> and \<open>utils/connectivity.py\<close> decide whether and
  through which address a device is touched. \<open>utils/workflow_engine.py\<close> lets a tenant react to events with a graph of
  steps, which may change rows, call out, or start provisioning. Around them stand the sessions and tokens of the users, the limits
  of the tenant's tier, the guard of outbound requests, the envelope of device credentials, and the revisions under
  \<open>alembic/versions\<close> that carry stored data from one shape to the next.

  \<^bold>\<open>Theories.\<close>
  \<^item> \<open>Prelude\<close>: results, JSON-shaped values, Python strings, tables of rows; the interface \<open>row_store\<close> of a table addressed by key.
  \<^item> \<open>Playbook_Expr\<close> (\<open>playbook_expr.py\<close>): tokenizer, recursive-descent parser, bounded evaluator, a whole \<open>computed\<close> block.
    Lemmas: the parser ends and accepts only the grammar; printing and parsing; values within bounds; the block solves its entries.
  \<^item> \<open>Playbook_Tokens\<close>, \<open>Playbook_Template\<close> (\<open>playbook_template.py\<close>): the one token rule, the filters, rendering, merging and masking.
    Lemmas: text between tokens is kept, one pass only, reserved namespaces are never a caller's.
  \<^item> \<open>Playbook_Definition\<close>, \<open>Playbook_Schema\<close> (\<open>schemas/playbook.py\<close>): the normalizer of stored definitions and the save-time
    validators. \<open>Schema_Reload\<close>: what is stored validates again to itself.
  \<^item> \<open>Playbook_Render\<close> (\<open>playbook_render.py\<close>) with \<open>Render_Properties\<close>: what a saved definition and the renderer guarantee together
    (captures are inert, cards hide secrets, redaction is complete, no placeholder is left, computed values are there).
  \<^item> \<open>Resolution_Tokens\<close>, \<open>Provisioning_Resolution\<close> (\<open>provisioning_resolution.py\<close>) with \<open>Resolution_Properties\<close>: the path, the
    names of its devices, the refusals; what resolves can be rendered.
  \<^item> \<open>Isp_Models\<close>, \<open>Provisioning_State\<close> (\<open>models/isp.py\<close>, \<open>provisioning_events.py\<close>): the closed sets, the life cycle of a
    service, the rows of the state machine and its outbox.
  \<^item> \<open>Provisioning_Gates\<close> (\<open>provisioning_gates.py\<close>, \<open>acs_bootstrap.py\<close>), \<open>Transport\<close> (\<open>transport.py\<close>, \<open>playbook_drivers.py\<close>),
    \<open>Connectivity\<close> (\<open>connectivity.py\<close>).
  \<^item> \<open>Provisioning_Runs\<close> (\<open>provisioning_runs.py\<close>), \<open>Provisioning_Jobs\<close> (\<open>provisioning_jobs.py\<close>): every operation as a function of the
    database. \<open>Run_Invariants\<close>: the abstract step \<open>outcome\<close> of one run, that each operation is such a step, and the invariants of
    every reachable database. \<open>Run_Properties\<close>: what single operations promise.
  \<^item> \<open>Network_Graph\<close> (\<open>network_graph.py\<close>, \<open>ng1_network_graph.py\<close>): the walks and the guard triggers of the plant.
  \<^item> \<open>Workflow_Graph\<close>, \<open>Workflow_Rows\<close>, \<open>Workflow_Engine\<close> (\<open>workflow_engine.py\<close> and the modules beside it) with
    \<open>Workflow_Properties\<close>: the topological loop, the rows a step can name, the actions, the event loop.
  \<^item> \<open>Sessions\<close>, \<open>Access_Control\<close> (\<open>sessions.py\<close>, \<open>jwt_utils.py\<close>, \<open>dependencies/auth.py\<close>, \<open>permission_utils.py\<close>): tokens,
    revocation over several processes, the guards of an endpoint. \<open>Tier_Limits\<close> (\<open>tier_limits.py\<close>).
  \<^item> \<open>Inventory_Schema\<close> (\<open>schemas/inventory.py\<close>), \<open>Outbound_Guard\<close> (\<open>ssrf.py\<close>), \<open>Credential_Crypto\<close> (\<open>crypto.py\<close>).
  \<^item> \<open>Service_History\<close>, \<open>Billing_Backfill\<close>, \<open>Transport_Axis\<close> (the data revisions \<open>sh1_service_history_repair.py\<close>,
    \<open>c1b_backfill_billing_rework_backfill.py\<close>, \<open>tr1_transport_axis.py\<close>): the repair of a service's history as a refinement of a timeline;
    batched loops that converge, from the interface \<open>convergent_update\<close>; the fold of a table into the settings that the resolver of
    \<open>Transport\<close> reads, there and back.

  \<^bold>\<open>Conventions.\<close> A text is a list of 8-bit characters with the case rules of ASCII; a UUID is a natural number and its text the decimal
  one, new ids come from a counter; points in time are whole seconds or microseconds; Python integers are \<open>int\<close>, floats
  are read as exact rationals or kept as the text they have; addresses of the guard are words. A dict is an association
  list in insertion order. An exception is a value of a sum type, and the transaction it loses is the state not returned. A row
  has the columns that modelled operations read or write. The database of an operation is a record of tables; row
  locks are the atomicity of a step, and what several requests may interleave is a step relation (\<open>rstep\<close>, \<open>loop_step\<close>,
  the processes of \<open>Sessions\<close>).

  \<^bold>\<open>What is an argument.\<close> Code that is not in the repository is a parameter of the definitions that use it: pydantic's treatment of a stored step
  (\<open>canon\<close>), \<open>re.compile\<close> and \<open>re2.compile\<close> (\<open>groups\<close>), the JWT library (\<open>encode\<close>, \<open>decode\<close>), \<open>float()\<close> of a custom field, the
  call of an HTTP step and the path a workflow step resolves, the name resolver and the bracket check of the outbound guard, AES-GCM
  with \<open>json.loads\<close> and base64. Hypotheses about them state what their documentation promises and have an instance.

  \<^bold>\<open>Bounds and fuel.\<close> The parser gets six units of fuel for each token and four more, and a theorem shows that this is never used up
  (\<open>parse_returns\<close>); the search for a free rollback name has a try more than there are names (\<open>unique_loop_enough\<close>). The walks of the plant go 32 levels, as the code does; a longer path is an error of the code itself. The loop
  over a workflow's graph has a termination proof; the event loop ends because a task carries its depth (\<open>cascade_ends\<close>).
  The batched loop of the backfill is a \<open>partial_function\<close>: that it returns is a theorem. Nothing else can run out.

  \<^bold>\<open>Not modelled.\<close> Code that only moves data or talks to the outside: sending and rendering email, logging and its middleware,
  telemetry, the exception handlers of FastAPI, the router factory, the database session, the audit decorator, the client of the
  ACS, bcrypt. Read and write schemas without a rule of their own. The second workflow engine, of which the
  package holds rows and schemas only. Columns of the models that no modelled operation uses. Revisions that only
  change the schema, and the seeds. Concurrency inside a database transaction.
\<close>

end
